(* ===== verification/Prelude.thy ===== *)
theory Prelude
  imports Main "HOL-Library.AList" "HOL-Library.Multiset"
begin

text \<open>
  Shared vocabulary of the development: Python dictionaries as association lists in insertion
  order, decimal rendering of integers, and the state-and-exception computations in which the
  code's mutating functions are written (\<open>py_ret\<close>, \<open>py_raise\<close>, \<open>py_bind\<close>, \<open>py_for\<close>, ...).
  A raise keeps the mutations made before it, as Python does.
\<close>

named_theorems py_simps "evaluation of the state-and-exception combinators"
named_theorems keeps_intro "an operation keeps a state predicate"

section \<open>Dictionaries\<close>

text \<open>
  A Python \<open>dict\<close> iterates in insertion order and an update of a present key keeps its place:
  exactly \<open>AList.update\<close> and \<open>AList.delete\<close> on an association list.
\<close>

type_synonym ('k, 'v) dict = "('k \<times> 'v) list"

abbreviation dget :: "('k, 'v) dict \<Rightarrow> 'k \<Rightarrow> 'v option" where
  "dget \<equiv> map_of"

abbreviation dput :: "'k \<Rightarrow> 'v \<Rightarrow> ('k, 'v) dict \<Rightarrow> ('k, 'v) dict" where
  "dput k v d \<equiv> AList.update k v d"

abbreviation ddel :: "'k \<Rightarrow> ('k, 'v) dict \<Rightarrow> ('k, 'v) dict" where
  "ddel k d \<equiv> AList.delete k d"

abbreviation dkeys :: "('k, 'v) dict \<Rightarrow> 'k list" where
  "dkeys d \<equiv> map fst d"

text \<open>\<open>d.setdefault(k, []).append(v)\<close>\<close>

definition dappend :: "'k \<Rightarrow> 'v \<Rightarrow> ('k, 'v list) dict \<Rightarrow> ('k, 'v list) dict" where
  "dappend k v d = dput k ((case dget d k of None \<Rightarrow> [] | Some vs \<Rightarrow> vs) @ [v]) d"

lemmas dget_dput [simp] = update_conv'
lemmas dget_ddel [simp] = delete_conv'

lemma dget_dappend:
  "dget (dappend k v d) =
     (dget d)(k \<mapsto> (case dget d k of None \<Rightarrow> [] | Some vs \<Rightarrow> vs) @ [v])"
  by (simp add: dappend_def)

lemma distinct_dput [simp]: "distinct (dkeys d) \<Longrightarrow> distinct (dkeys (dput k v d))"
  by (rule distinct_update)

lemma distinct_ddel [simp]: "distinct (dkeys d) \<Longrightarrow> distinct (dkeys (ddel k d))"
  by (rule distinct_delete)

lemma distinct_dappend [simp]: "distinct (dkeys d) \<Longrightarrow> distinct (dkeys (dappend k v d))"
  by (simp add: dappend_def)

lemma dget_filter_keys:
  "dget (filter (\<lambda>kv. P (fst kv)) d) k = (if P k then dget d k else None)"
  by (induction d) auto

text \<open>\<open>ws\<close> comes from \<open>ws'\<close> by deleting keys and list elements.\<close>

definition shrinks :: "('k, 'v list) dict \<Rightarrow> ('k, 'v list) dict \<Rightarrow> bool" where
  "shrinks ws ws' \<longleftrightarrow> (\<forall>(k, vs) \<in> set ws. \<exists>vs'. (k, vs') \<in> set ws' \<and> set vs \<subseteq> set vs')"

lemma set_dput: "set (dput k v d) \<subseteq> insert (k, v) (set d)"
  by (induction d) auto

lemma set_ddel: "set (ddel k d) \<subseteq> set d"
  by (auto simp: AList.delete_eq)

lemma shrinks_dput: "dget d k = Some vs \<Longrightarrow> set vs' \<subseteq> set vs \<Longrightarrow> shrinks (dput k vs' d) d"
  using set_dput [of k vs' d] map_of_SomeD [of d k vs] unfolding shrinks_def by fastforce

lemma shrinks_ddel: "shrinks (ddel k d) d"
  using set_ddel [of k d] unfolding shrinks_def by fastforce

lemma shrinks_refl [simp]: "shrinks d d"
  by (auto simp: shrinks_def)

section \<open>Sums of multisets over lists\<close>

definition msum :: "('a \<Rightarrow> 'b multiset) \<Rightarrow> 'a list \<Rightarrow> 'b multiset" where
  "msum f xs = sum_list (map f xs)"

lemma msum_simps [simp]:
  "msum f [] = {#}" "msum f (x # xs) = f x + msum f xs" "msum f (xs @ ys) = msum f xs + msum f ys"
  by (simp_all add: msum_def)

lemma msum_filter: "msum f (filter P xs) \<subseteq># msum f xs"
  by (induction xs) (auto intro: subset_mset.add_mono simp: subset_mset.add_increasing)

lemma msum_mono: "(\<And>x. x \<in> set xs \<Longrightarrow> f x \<subseteq># g x) \<Longrightarrow> msum f xs \<subseteq># msum g xs"
  by (induction xs) (auto intro: subset_mset.add_mono)

lemma msum_map: "msum f (map g xs) = msum (f \<circ> g) xs"
  by (induction xs) auto

lemma msum_dput:
  "dget d k = Some v \<Longrightarrow> msum f (dput k v' d) + f (k, v) = msum f d + f (k, v')"
  by (induction d) (auto split: if_splits simp: ac_simps)

lemma msum_dput_new: "dget d k = None \<Longrightarrow> msum f (dput k v' d) = msum f d + f (k, v')"
  by (induction d) (auto split: if_splits simp: ac_simps)

lemma msum_ddel: "dget d k = Some v \<Longrightarrow> msum f (ddel k d) + f (k, v) \<subseteq># msum f d"
proof (induction d)
  case (Cons kv d)
  have "msum f (ddel k d) \<subseteq># msum f d"
    by (simp add: AList.delete_eq msum_filter)
  with Cons show ?case
    by (cases kv) (auto split: if_splits simp: ac_simps subset_mset.add_increasing
        intro: subset_mset.add_mono)
qed simp

lemma msum_ddel_le: "msum f (ddel k d) \<subseteq># msum f d"
  by (simp add: AList.delete_eq msum_filter)

lemma msum_list_update:
  "i < length xs \<Longrightarrow> msum f (xs[i := y]) + f (xs ! i) = msum f xs + f y"
  by (induction xs arbitrary: i) (auto split: nat.splits simp: ac_simps)

section \<open>Decimal rendering\<close>

definition digit_char :: "nat \<Rightarrow> char" where
  "digit_char d = ''0123456789'' ! d"

fun nat_str :: "nat \<Rightarrow> string" where
  "nat_str n = (if n < 10 then [digit_char n] else nat_str (n div 10) @ [digit_char (n mod 10)])"

declare nat_str.simps [simp del]

definition int_str :: "int \<Rightarrow> string" where
  "int_str i = (if i < 0 then ''-'' @ nat_str (nat (- i)) else nat_str (nat i))"

lemma less_10_cases: "(d::nat) < 10 \<Longrightarrow> d \<in> {0, 1, 2, 3, 4, 5, 6, 7, 8, 9}"
  by auto

lemma digit_char_inj: "a < 10 \<Longrightarrow> b < 10 \<Longrightarrow> digit_char a = digit_char b \<Longrightarrow> a = b"
  by (drule less_10_cases, drule less_10_cases) (auto simp: digit_char_def)

lemma digit_char_set: "d < 10 \<Longrightarrow> digit_char d \<in> set ''0123456789''"
  by (drule less_10_cases) (auto simp: digit_char_def)

lemma nat_str_set: "set (nat_str n) \<subseteq> set ''0123456789''"
proof (induction n rule: nat_str.induct)
  case (1 n)
  show ?case
  proof (cases "n < 10")
    case True
    then show ?thesis using digit_char_set [of n] by (simp add: nat_str.simps [of n])
  next
    case False
    then have "nat_str n = nat_str (n div 10) @ [digit_char (n mod 10)]"
      by (simp add: nat_str.simps [of n])
    moreover have "digit_char (n mod 10) \<in> set ''0123456789''"
      by (rule digit_char_set) simp
    ultimately show ?thesis using 1 [OF False] by simp
  qed
qed

lemma nat_str_nonempty [simp]: "nat_str n \<noteq> []"
  by (subst nat_str.simps) simp

lemma nat_str_single: "length (nat_str n) = 1 \<longleftrightarrow> n < 10"
  by (subst nat_str.simps) auto

lemma nat_str_inj: "nat_str a = nat_str b \<Longrightarrow> a = b"
proof (induction a arbitrary: b rule: nat_str.induct)
  case (1 a)
  have same: "a < 10 \<longleftrightarrow> b < 10"
    using nat_str_single [of a] nat_str_single [of b] "1.prems" by simp
  show ?case
  proof (cases "a < 10")
    case True
    with same "1.prems" show ?thesis
      by (simp add: nat_str.simps [of a] nat_str.simps [of b] digit_char_inj)
  next
    case False
    with same "1.prems" have "nat_str (a div 10) = nat_str (b div 10)"
      and "digit_char (a mod 10) = digit_char (b mod 10)"
      by (simp_all add: nat_str.simps [of a] nat_str.simps [of b])
    then have "a div 10 = b div 10" and "a mod 10 = b mod 10"
      using "1.IH" [OF False] digit_char_inj [of "a mod 10" "b mod 10"] by auto
    then show ?thesis by (metis div_mult_mod_eq)
  qed
qed

lemma foldl_nat_str:
  "foldl (\<lambda>acc c. acc * 10 + (int (of_char c) - 48)) 0 (nat_str n) = int n"
proof (induction n rule: nat_str.induct)
  case (1 n)
  have digit: "int (of_char (digit_char d)) - 48 = int d" if "d < 10" for d
    using less_10_cases [OF that] by (auto simp: digit_char_def)
  show ?case
  proof (cases "n < 10")
    case True
    then show ?thesis by (simp add: nat_str.simps [of n] digit)
  next
    case False
    have "int n = int (n div 10) * 10 + int (n mod 10)" by presburger
    with 1 [OF False] False show ?thesis by (simp add: nat_str.simps [of n] digit)
  qed
qed

lemma nat_str_hd: "n > 0 \<Longrightarrow> hd (nat_str n) \<noteq> CHR ''0''"
proof (induction n rule: nat_str.induct)
  case (1 n)
  show ?case
  proof (cases "n < 10")
    case True
    with "1.prems" less_10_cases [OF True] show ?thesis
      by (auto simp: nat_str.simps [of n] digit_char_def)
  next
    case False
    with 1 show ?thesis by (simp add: nat_str.simps [of n])
  qed
qed

section \<open>Fallible computations\<close>

definition rbind :: "'e + 'a \<Rightarrow> ('a \<Rightarrow> 'e + 'b) \<Rightarrow> 'e + 'b" where
  "rbind r f = (case r of Inl e \<Rightarrow> Inl e | Inr x \<Rightarrow> f x)"

lemma rbind_simps [simp]: "rbind (Inl e) f = Inl e" "rbind (Inr x) f = f x"
  by (simp_all add: rbind_def)

lemma rbind_eq_Inr: "rbind r f = Inr y \<longleftrightarrow> (\<exists>x. r = Inr x \<and> f x = Inr y)"
  by (simp add: rbind_def split: sum.split)

section \<open>Computations with state and exceptions\<close>

type_synonym ('e, 's, 'a) py = "'s \<Rightarrow> ('e + 'a) \<times> 's"

definition py_ret :: "'a \<Rightarrow> ('e, 's, 'a) py" where
  "py_ret x s = (Inr x, s)"

definition py_raise :: "'e \<Rightarrow> ('e, 's, 'a) py" where
  "py_raise e s = (Inl e, s)"

definition py_bind :: "('e, 's, 'a) py \<Rightarrow> ('a \<Rightarrow> ('e, 's, 'b) py) \<Rightarrow> ('e, 's, 'b) py" where
  "py_bind m f s = (case m s of (Inl e, s') \<Rightarrow> (Inl e, s') | (Inr x, s') \<Rightarrow> f x s')"

definition py_gets :: "('s \<Rightarrow> 'a) \<Rightarrow> ('e, 's, 'a) py" where
  "py_gets f s = (Inr (f s), s)"

definition py_modify :: "('s \<Rightarrow> 's) \<Rightarrow> ('e, 's, unit) py" where
  "py_modify f s = (Inr (), f s)"

text \<open>\<open>d[k]\<close> on a dictionary of the state: the value, or the given \<open>KeyError\<close>.\<close>

definition py_need :: "'e \<Rightarrow> ('s \<Rightarrow> 'a option) \<Rightarrow> ('e, 's, 'a) py" where
  "py_need e f s = (case f s of None \<Rightarrow> (Inl e, s) | Some x \<Rightarrow> (Inr x, s))"

text \<open>\<open>for x in xs: acc = f(acc, x)\<close>, stopping at the first raise.\<close>

primrec py_fold :: "('acc \<Rightarrow> 'x \<Rightarrow> ('e, 's, 'acc) py) \<Rightarrow> 'acc \<Rightarrow> 'x list \<Rightarrow> ('e, 's, 'acc) py" where
  "py_fold f acc [] = py_ret acc"
| "py_fold f acc (x # xs) = py_bind (f acc x) (\<lambda>acc'. py_fold f acc' xs)"

primrec py_map :: "('x \<Rightarrow> ('e, 's, 'y) py) \<Rightarrow> 'x list \<Rightarrow> ('e, 's, 'y list) py" where
  "py_map f [] = py_ret []"
| "py_map f (x # xs) = py_bind (f x) (\<lambda>y. py_bind (py_map f xs) (\<lambda>ys. py_ret (y # ys)))"

definition py_for :: "'x list \<Rightarrow> ('x \<Rightarrow> ('e, 's, unit) py) \<Rightarrow> ('e, 's, unit) py" where
  "py_for xs f = py_fold (\<lambda>_ x. f x) () xs"

lemmas py_defs = py_ret_def py_raise_def py_bind_def py_gets_def py_modify_def py_need_def

lemma py_bind_Inr [py_simps]: "m s = (Inr x, s') \<Longrightarrow> py_bind m f s = f x s'"
  by (simp add: py_bind_def)

lemma py_bind_Inl [py_simps]: "m s = (Inl e, s') \<Longrightarrow> py_bind m f s = (Inl e, s')"
  by (simp add: py_bind_def)

lemma py_bind_simps [simp]:
  "py_bind (py_ret x) f s = f x s"
  "py_bind (py_raise e) f s = (Inl e, s)"
  "py_bind (py_gets g) f s = f (g s) s"
  "py_bind (py_modify h) k s = k () (h s)"
  "py_gets g s = (Inr (g s), s)"
  "py_modify h s = (Inr (), h s)"
  by (simp_all add: py_defs)

text \<open>
  \<open>py_ret x s = (Inr x, s)\<close> would eta-contract as a rewrite rule and hide \<open>py_ret\<close> inside
  lambdas, so only its observable forms are simplified.
\<close>

lemma py_ret_simps [simp]:
  "fst (py_ret x s) = Inr x" "snd (py_ret x s) = s" "py_ret x s = (r, s') \<longleftrightarrow> r = Inr x \<and> s' = s"
  "(r, s') = py_ret x s \<longleftrightarrow> r = Inr x \<and> s' = s"
  "(case py_ret x s of (a, b) \<Rightarrow> f a b) = f (Inr x) s"
  by (auto simp: py_ret_def)

lemma py_raise_simps [simp]:
  "fst (py_raise e s) = Inl e" "snd (py_raise e s) = s" "py_raise e s = (r, s') \<longleftrightarrow> r = Inl e \<and> s' = s"
  "(r, s') = py_raise e s \<longleftrightarrow> r = Inl e \<and> s' = s"
  "(case py_raise e s of (a, b) \<Rightarrow> f a b) = f (Inl e) s"
  by (auto simp: py_raise_def)

lemma py_bind_split:
  "(\<And>e s'. m s = (Inl e, s') \<Longrightarrow> P (Inl e, s')) \<Longrightarrow>
   (\<And>x s'. m s = (Inr x, s') \<Longrightarrow> P (f x s')) \<Longrightarrow> P (py_bind m f s)"
  by (auto simp: py_bind_def split: prod.splits sum.splits)

lemma py_bind_eq_Inr:
  "py_bind m f s = (Inr y, s'') \<longleftrightarrow> (\<exists>x s'. m s = (Inr x, s') \<and> f x s' = (Inr y, s''))"
  by (auto simp: py_bind_def split: prod.splits sum.splits)

lemma py_need_eq_Inr: "py_need e f s = (Inr x, s') \<longleftrightarrow> f s = Some x \<and> s' = s"
  by (auto simp: py_need_def split: option.splits)

lemma py_bindE:
  assumes "py_bind m f s = (r, s')"
  obtains (Raised) e where "m s = (Inl e, s')" and "r = Inl e"
    | (Returned) x s1 where "m s = (Inr x, s1)" and "f x s1 = (r, s')"
  using assms by (auto simp: py_bind_def split: prod.splits sum.splits)

lemma py_need_Some [simp]: "f s = Some x \<Longrightarrow> py_bind (py_need e f) k s = k x s"
  by (simp add: py_need_def py_bind_def)

lemma py_need_None [simp]: "f s = None \<Longrightarrow> py_bind (py_need e f) k s = (Inl e, s)"
  by (simp add: py_need_def py_bind_def)

text \<open>
  A state predicate kept by a computation whichever way it ends. The rules below lift it from
  the primitive steps of an operation to the whole operation.
\<close>

definition keeps :: "('s \<Rightarrow> bool) \<Rightarrow> ('e, 's, 'a) py \<Rightarrow> bool" where
  "keeps P m \<longleftrightarrow> (\<forall>s. P s \<longrightarrow> P (snd (m s)))"

lemma keepsI: "(\<And>s. P s \<Longrightarrow> P (snd (m s))) \<Longrightarrow> keeps P m"
  by (simp add: keeps_def)

lemma keepsD: "keeps P m \<Longrightarrow> P s \<Longrightarrow> m s = (r, s') \<Longrightarrow> P s'"
  by (metis keeps_def snd_conv)

lemma keeps_ret [keeps_intro]: "keeps P (py_ret x)"
  and keeps_raise [keeps_intro]: "keeps P (py_raise e)"
  and keeps_gets [keeps_intro]: "keeps P (py_gets f)"
  by (simp_all add: keeps_def)

lemma keeps_need [keeps_intro]: "keeps P (py_need e f)"
  by (simp add: keeps_def py_need_def split: option.splits)

lemma keeps_modify: "(\<And>s. P s \<Longrightarrow> P (h s)) \<Longrightarrow> keeps P (py_modify h)"
  by (simp add: keeps_def)

lemma keeps_bind [keeps_intro]:
  "keeps P m \<Longrightarrow> (\<And>x. keeps P (f x)) \<Longrightarrow> keeps P (py_bind m f)"
  unfolding keeps_def py_bind_def by (auto split: prod.splits sum.splits)

lemma keeps_fold [keeps_intro]: "(\<And>a x. keeps P (f a x)) \<Longrightarrow> keeps P (py_fold f acc xs)"
  by (induction xs arbitrary: acc) (auto intro!: keeps_intro)

lemma keeps_map [keeps_intro]: "(\<And>x. keeps P (f x)) \<Longrightarrow> keeps P (py_map f xs)"
  by (induction xs) (auto intro!: keeps_intro)

lemma keeps_for [keeps_intro]: "(\<And>x. keeps P (f x)) \<Longrightarrow> keeps P (py_for xs f)"
  unfolding py_for_def by (rule keeps_fold)

lemma keeps_if [keeps_intro]: "keeps P a \<Longrightarrow> keeps P b \<Longrightarrow> keeps P (if c then a else b)"
  by simp

lemma keeps_option [keeps_intro]:
  "keeps P a \<Longrightarrow> (\<And>y. keeps P (b y)) \<Longrightarrow> keeps P (case x of None \<Rightarrow> a | Some y \<Rightarrow> b y)"
  by (cases x) simp_all

lemma keeps_prod [keeps_intro]:
  "(\<And>x y. keeps P (f x y)) \<Longrightarrow> keeps P (case p of (x, y) \<Rightarrow> f x y)"
  by (cases p) simp

text \<open>
  Triples over a computation: from a state with \<open>P\<close> it returns \<open>x\<close> in a state with \<open>Q x\<close> or
  raises \<open>e\<close> in a state with \<open>E e\<close>.
\<close>

definition triple ::
    "('s \<Rightarrow> bool) \<Rightarrow> ('e, 's, 'a) py \<Rightarrow> ('a \<Rightarrow> 's \<Rightarrow> bool) \<Rightarrow> ('e \<Rightarrow> 's \<Rightarrow> bool) \<Rightarrow> bool" where
  "triple P m Q E \<longleftrightarrow> (\<forall>s. P s \<longrightarrow> (case m s of (Inl e, s') \<Rightarrow> E e s' | (Inr x, s') \<Rightarrow> Q x s'))"

named_theorems triple_intro "rules that decompose a triple"

lemma tripleI:
  "(\<And>s e s'. P s \<Longrightarrow> m s = (Inl e, s') \<Longrightarrow> E e s') \<Longrightarrow> (\<And>s x s'. P s \<Longrightarrow> m s = (Inr x, s') \<Longrightarrow> Q x s') \<Longrightarrow>
   triple P m Q E"
  by (auto simp: triple_def split: prod.split sum.split)

lemma triple_Inr: "triple P m Q E \<Longrightarrow> P s \<Longrightarrow> m s = (Inr x, s') \<Longrightarrow> Q x s'"
  by (auto simp: triple_def split: prod.splits sum.splits)

lemma triple_Inl: "triple P m Q E \<Longrightarrow> P s \<Longrightarrow> m s = (Inl e, s') \<Longrightarrow> E e s'"
  by (auto simp: triple_def split: prod.splits sum.splits)

lemma triple_bind [triple_intro]:
  "triple P m R E \<Longrightarrow> (\<And>x. triple (R x) (f x) Q E) \<Longrightarrow> triple P (py_bind m f) Q E"
  by (fastforce simp: triple_def py_bind_def split: prod.splits sum.splits)

lemma triple_ret: "(\<And>s. P s \<Longrightarrow> Q x s) \<Longrightarrow> triple P (py_ret x) Q E"
  by (simp add: triple_def py_ret_def)

lemma triple_raise: "(\<And>s. P s \<Longrightarrow> E e s) \<Longrightarrow> triple P (py_raise e) Q E"
  by (simp add: triple_def py_raise_def)

lemma triple_gets: "(\<And>s. P s \<Longrightarrow> Q (f s) s) \<Longrightarrow> triple P (py_gets f) Q E"
  by (simp add: triple_def)

lemma triple_modify: "(\<And>s. P s \<Longrightarrow> Q () (h s)) \<Longrightarrow> triple P (py_modify h) Q E"
  by (simp add: triple_def)

lemma triple_modify_bind:
  "triple R (f ()) Q E \<Longrightarrow> (\<And>s. P s \<Longrightarrow> R (h s)) \<Longrightarrow> triple P (py_bind (py_modify h) f) Q E"
  by (simp add: triple_def)

lemma triple_need:
  "(\<And>s x. P s \<Longrightarrow> f s = Some x \<Longrightarrow> Q x s) \<Longrightarrow> (\<And>s. P s \<Longrightarrow> E e s) \<Longrightarrow> triple P (py_need e f) Q E"
  by (auto simp: triple_def py_need_def split: option.split)

lemma triple_if [triple_intro]:
  "(c \<Longrightarrow> triple P a Q E) \<Longrightarrow> (\<not> c \<Longrightarrow> triple P b Q E) \<Longrightarrow> triple P (if c then a else b) Q E"
  by simp

lemma triple_option [triple_intro]:
  "(x = None \<Longrightarrow> triple P a Q E) \<Longrightarrow> (\<And>y. x = Some y \<Longrightarrow> triple P (b y) Q E) \<Longrightarrow>
   triple P (case x of None \<Rightarrow> a | Some y \<Rightarrow> b y) Q E"
  by (cases x) simp_all

lemma triple_sum [triple_intro]:
  "(\<And>y. x = Inl y \<Longrightarrow> triple P (a y) Q E) \<Longrightarrow> (\<And>y. x = Inr y \<Longrightarrow> triple P (b y) Q E) \<Longrightarrow>
   triple P (case x of Inl y \<Rightarrow> a y | Inr y \<Rightarrow> b y) Q E"
  by (cases x) simp_all

lemma triple_prod [triple_intro]:
  "(\<And>x y. p = (x, y) \<Longrightarrow> triple P (f x y) Q E) \<Longrightarrow> triple P (case p of (x, y) \<Rightarrow> f x y) Q E"
  by (cases p) simp

lemma triple_weaken:
  "triple P' m Q' E' \<Longrightarrow> (\<And>s. P s \<Longrightarrow> P' s) \<Longrightarrow> (\<And>x s. Q' x s \<Longrightarrow> Q x s) \<Longrightarrow> (\<And>e s. E' e s \<Longrightarrow> E e s) \<Longrightarrow>
   triple P m Q E"
  by (fastforce simp: triple_def split: prod.splits sum.splits)

lemma triple_keeps: "keeps P m \<Longrightarrow> (\<And>e s. P s \<Longrightarrow> E e s) \<Longrightarrow> triple P m (\<lambda>_. P) E"
  by (rule tripleI) (auto dest: keepsD)

lemma triple_for:
  "(\<And>x. x \<in> set xs \<Longrightarrow> triple P (f x) (\<lambda>_. P) E) \<Longrightarrow> triple P (py_for xs f) (\<lambda>_. P) E"
  unfolding py_for_def
  by (induction xs) (auto intro!: triple_ret intro: triple_bind)

section \<open>Strings\<close>

text \<open>\<open>s.startswith(p)\<close>, \<open>s.removeprefix(p)\<close> and \<open>s.replace(old, new)\<close> for a nonempty \<open>old\<close>.\<close>

definition starts_with :: "string \<Rightarrow> string \<Rightarrow> bool" where
  "starts_with s p \<longleftrightarrow> take (length p) s = p"

definition ends_with :: "string \<Rightarrow> string \<Rightarrow> bool" where
  "ends_with s p \<longleftrightarrow> length p \<le> length s \<and> drop (length s - length p) s = p"

definition remove_prefix :: "string \<Rightarrow> string \<Rightarrow> string" where
  "remove_prefix s p = (if starts_with s p then drop (length p) s else s)"

fun str_replace :: "string \<Rightarrow> string \<Rightarrow> string \<Rightarrow> string" where
  "str_replace old new [] = []"
| "str_replace old new (c # s) =
     (if old \<noteq> [] \<and> starts_with (c # s) old
      then new @ str_replace old new (drop (length old - 1) s)
      else c # str_replace old new s)"

fun str_join :: "string \<Rightarrow> string list \<Rightarrow> string" where
  "str_join sep [] = []"
| "str_join sep [x] = x"
| "str_join sep (x # y # xs) = x @ sep @ str_join sep (y # xs)"

text \<open>\<open>s.strip()\<close> on Latin-1 text.\<close>

definition is_space :: "char \<Rightarrow> bool" where
  "is_space c = (let n = of_char c :: nat in 9 \<le> n \<and> n \<le> 13 \<or> 28 \<le> n \<and> n \<le> 32 \<or> n = 133 \<or> n = 160)"

definition strip :: "string \<Rightarrow> string" where
  "strip s = rev (dropWhile is_space (rev (dropWhile is_space s)))"

end
