(* ===== verification/Heapq.thy ===== *)
theory Heapq
  imports Prelude "HOL-Library.Product_Lexorder"
begin

text \<open>
  The part of Python's \<open>heapq\<close> that the scheduler's ready queue and the simulated clock's
  \<open>TimeQueue\<close> rely on. Both push tuples \<open>(priority, sequence, payload)\<close> with a fresh
  sequence number, so the order is decided by the first two components. A heap is modelled by
  the list of its tuples in pop order. The interface is the locale \<open>min_heap\<close>; the clients'
  facts are proved in it once and read off the interpretation \<open>hq\<close>.
\<close>

locale min_heap =
  fixes push :: "'i \<Rightarrow> 'h \<Rightarrow> 'h"
    and pop :: "'h \<Rightarrow> ('i \<times> 'h) option"
    and items :: "'h \<Rightarrow> 'i multiset"
    and key :: "'i \<Rightarrow> 'k::linorder"
    and ok :: "'h \<Rightarrow> bool"
  assumes items_push: "items (push x h) = add_mset x (items h)"
    and ok_push: "ok h \<Longrightarrow> ok (push x h)"
    and pop_empty: "pop h = None \<longleftrightarrow> items h = {#}"
    and pop_items: "pop h = Some (x, h') \<Longrightarrow> items h = add_mset x (items h')"
    and pop_ok: "ok h \<Longrightarrow> pop h = Some (x, h') \<Longrightarrow> ok h'"
    and pop_least: "ok h \<Longrightarrow> pop h = Some (x, h') \<Longrightarrow> y \<in># items h' \<Longrightarrow> key x \<le> key y"
begin

lemma pop_in: "pop h = Some (x, h') \<Longrightarrow> x \<in># items h"
  by (drule pop_items) simp

lemma pop_minimum:
  assumes "ok h" and "pop h = Some (x, h')" and "y \<in># items h"
  shows "key x \<le> key y"
  using assms pop_items [OF assms(2)] pop_least [OF assms(1,2)] by auto

lemma pop_size: "pop h = Some (x, h') \<Longrightarrow> size (items h) = Suc (size (items h'))"
  by (drule pop_items) simp

lemma push_size: "size (items (push x h)) = Suc (size (items h))"
  by (simp add: items_push)

text \<open>Two successive pops return their items in key order.\<close>

lemma pops_sorted:
  assumes "ok h" and "pop h = Some (x, h')" and "pop h' = Some (y, h'')"
  shows "key x \<le> key y"
  using pop_least [OF assms(1,2) pop_in [OF assms(3)]] .

text \<open>With distinct keys the popped item is determined: the one with the least key.\<close>

lemma pop_unique:
  assumes "ok h" and "pop h = Some (x, h')" and "y \<in># items h"
    and "\<And>z. z \<in># items h \<Longrightarrow> z \<noteq> y \<Longrightarrow> key y < key z"
  shows "x = y"
proof (rule ccontr)
  assume "x \<noteq> y"
  with assms(4) [OF pop_in [OF assms(2)]] have "key y < key x" by simp
  with pop_minimum [OF assms(1-3)] show False by simp
qed

end

section \<open>The model: tuples in pop order\<close>

type_synonym ('p, 'x) heap_item = "'p \<times> nat \<times> 'x"

definition hkey :: "('p, 'x) heap_item \<Rightarrow> 'p \<times> nat" where
  "hkey it = (fst it, fst (snd it))"

definition hentry :: "('p, 'x) heap_item \<Rightarrow> 'x" where
  "hentry it = snd (snd it)"

lemma hkey_simps [simp]: "hkey (p, q, x) = (p, q)"
  by (simp add: hkey_def)

lemma hentry_simps [simp]: "hentry (p, q, x) = x"
  by (simp add: hentry_def)

definition heappush :: "('p::linorder, 'x) heap_item \<Rightarrow> ('p, 'x) heap_item list \<Rightarrow> ('p, 'x) heap_item list" where
  "heappush it h = insort_key hkey it h"

definition heappop :: "('p, 'x) heap_item list \<Rightarrow> (('p, 'x) heap_item \<times> ('p, 'x) heap_item list) option" where
  "heappop h = (case h of [] \<Rightarrow> None | it # rest \<Rightarrow> Some (it, rest))"

definition heap_ok :: "('p::linorder, 'x) heap_item list \<Rightarrow> bool" where
  "heap_ok h \<longleftrightarrow> sorted (map hkey h)"

lemma heappush_Nil [simp]: "heappush it [] = [it]"
  by (simp add: heappush_def)

lemma heappush_Cons [simp]:
  "heappush it (x # h) = (if hkey it \<le> hkey x then it # x # h else x # heappush it h)"
  by (simp add: heappush_def)

lemma set_heappush [simp]: "set (heappush it h) = insert it (set h)"
  by (simp add: heappush_def set_insort_key)

lemma length_heappush [simp]: "length (heappush it h) = Suc (length h)"
  by (simp add: heappush_def)

lemma mset_heappush [simp]: "mset (heappush it h) = add_mset it (mset h)"
  by (induction h) auto

lemma heap_ok_Nil [simp]: "heap_ok []"
  by (simp add: heap_ok_def)

lemma heap_ok_heappush [simp]: "heap_ok h \<Longrightarrow> heap_ok (heappush it h)"
  by (simp add: heap_ok_def heappush_def sorted_insort_key)

lemma heap_ok_tail: "heap_ok (it # h) \<Longrightarrow> heap_ok h"
  by (simp add: heap_ok_def)

interpretation hq: min_heap heappush heappop mset hkey heap_ok
proof unfold_locales
  show "mset (heappush x h) = add_mset x (mset h)" for x :: "('p::linorder, 'x) heap_item" and h
    by simp
  show "heap_ok (heappush x h)" if "heap_ok h" for x :: "('p::linorder, 'x) heap_item" and h
    using that by simp
  show "heappop h = None \<longleftrightarrow> mset h = {#}" for h :: "('p::linorder, 'x) heap_item list"
    by (auto simp: heappop_def split: list.splits)
  show "mset h = add_mset x (mset h')" if "heappop h = Some (x, h')"
    for x :: "('p::linorder, 'x) heap_item" and h h'
    using that by (auto simp: heappop_def split: list.splits)
  show "heap_ok h'" if "heap_ok h" and "heappop h = Some (x, h')"
    for x :: "('p::linorder, 'x) heap_item" and h h'
    using that by (auto simp: heappop_def heap_ok_def split: list.splits)
  show "hkey x \<le> hkey y" if "heap_ok h" and "heappop h = Some (x, h')" and "y \<in># mset h'"
    for x y :: "('p::linorder, 'x) heap_item" and h h'
    using that by (auto simp: heappop_def heap_ok_def split: list.splits)
qed

end
