(* ===== verification/Sched_Core.thy ===== *)
theory Sched_Core
  imports Heapq
begin

text \<open>
  State and bookkeeping of the cooperative scheduler
  (\<open>packages/doeff-core-effects/doeff_core_effects/scheduler.py\<close>): the closure variables of
  \<open>scheduled\<close> as the record \<open>sched\<close>, its effects and handles as datatypes, and the functions
  that allocate ids, track handles, sweep dead entries, look waitables up and fill the ready heap.
  Continuations, user programs and user objects are opaque and named by numbers. The mutable
  cells the code shares by reference (\<open>claimed\<close>, \<open>gather_state\<close>, \<open>race_state\<close>) live in heaps
  of the state and are shared by their index.
\<close>

section \<open>Effects, handles and values\<close>

type_synonym tid = nat
type_synonym pid = nat
type_synonym sid = nat
type_synonym cont = nat
type_synonym owner = "tid option" \<comment> \<open>\<open>None\<close> is the root body\<close>

datatype prog = PUser nat | PHandler nat prog | PObserver nat prog

datatype tb_entry =
    TbFrame string string nat
  | TbHandler string
  | TbSpawnBoundary tid "string option"

datatype exn_kind =
    TaskCancelledError
  | SchedulerDeadlockError "(sid \<times> tid list) list" "string list"
  | KeyError string
  | RuntimeError string
  | ValueError string
  | TypeError string
  | AttributeError string
  | UserError nat
  | KeyboardInterrupt
  | SystemExit

text \<open>An exception object: its class and arguments, and \<open>__doeff_traceback__\<close> if it has one.\<close>

datatype exc = Exc exn_kind "tb_entry list option"

abbreviation raised :: "exn_kind \<Rightarrow> exc" where
  "raised k \<equiv> Exc k None"

datatype val =
    VNone
  | VObj nat
  | VList "val list"
  | VSizes "(string \<times> nat) list"
  | VTask tid
  | VFuture pid
  | VPromise pid
  | VExternalPromise pid
  | VSemaphore sid
  | VExc exc

datatype result = Ok val | Err val | OtherResult val

definition PRIORITY_IDLE :: int where "PRIORITY_IDLE = 0"
definition PRIORITY_EXTERNAL_WAIT :: int where "PRIORITY_EXTERNAL_WAIT = 5"
definition PRIORITY_NORMAL :: int where "PRIORITY_NORMAL = 10"
definition PRIORITY_HIGH :: int where "PRIORITY_HIGH = 20"

definition HANDLE_SWEEP_INTERVAL :: nat where "HANDLE_SWEEP_INTERVAL = 1024"
definition HANDLE_REFS_PRUNE_MIN :: nat where "HANDLE_REFS_PRUNE_MIN = 8"

lemmas priority_defs =
  PRIORITY_IDLE_def PRIORITY_EXTERNAL_WAIT_def PRIORITY_NORMAL_def PRIORITY_HIGH_def

datatype effect =
    Spawn prog int bool
  | TaskCompleted tid result
  | Gather "val list"
  | Wait val "int option"
  | Cancel val
  | Race "val list"
  | CreatePromise
  | CompletePromise pid val
  | FailPromise pid val
  | CreateSemaphore int
  | AcquireSemaphore sid
  | ReleaseSemaphore sid
  | CreateExternalPromise
  | SchedulerIntrospection
  | OtherEffect nat

section \<open>The closure state\<close>

datatype status = Pending | Running | Suspended | Completed | Failed | Cancelled

definition terminal_statuses :: "status list" where
  "terminal_statuses = [Completed, Failed, Cancelled]"

abbreviation terminal :: "status \<Rightarrow> bool" where
  "terminal st \<equiv> st \<in> set terminal_statuses"

lemma terminal_iff: "terminal st \<longleftrightarrow> st = Completed \<or> st = Failed \<or> st = Cancelled"
  by (auto simp: terminal_statuses_def)

text \<open>A dictionary key that may have been popped is an option.\<close>

record task_meta =
  t_status :: status
  t_result :: val
  t_program :: "prog option"
  t_priority :: int
  t_daemon :: bool
  t_boundaries :: "(string \<times> nat) list option"
  t_spawn_site :: "string option option"

record promise_meta =
  p_status :: status
  p_result :: val
  p_external :: bool

record sem_meta =
  s_permits :: int
  s_max_permits :: int
  s_waiters :: "(owner \<times> cont) list"
  s_holders :: "owner list"

datatype waitable = WTask tid | WPromise pid

datatype waiter =
    WtWait owner cont "int option"
  | WtExternal owner cont nat "int option"
  | WtGather owner nat "nat option"
  | WtRace owner nat "nat option"

datatype entry =
    ENew tid
  | EResume owner cont val
  | ESemResume owner cont sid
  | ERaise owner cont val
  | EWaitExternal owner "cont option" waitable nat

record gather_state =
  g_owner :: owner
  g_cont :: cont
  g_keys :: "waitable list"
  g_pending :: "waitable list"
  g_remaining :: int
  g_failure :: "val option"
  g_resolved :: bool

record race_state =
  r_owner :: owner
  r_cont :: cont
  r_pending :: "waitable list"
  r_resolved :: bool

datatype ext_msg = ExtComplete pid val | ExtFail pid val

record sched =
  next_id :: nat
  insertion_seq :: nat
  tasks :: "(tid, task_meta) dict"
  promises :: "(pid, promise_meta) dict"
  semaphores :: "(sid, sem_meta) dict"
  waiters :: "(waitable, waiter list) dict"
  ready :: "(int, entry) heap_item list"
  external_queue :: "ext_msg list"
  handle_refs :: "(waitable, nat list) dict"
  handle_prune_at :: "(waitable, nat) dict"
  cells :: "bool list" \<comment> \<open>the \<open>claimed\<close> cells\<close>
  gathers :: "gather_state list"
  races :: "race_state list"
  next_obj :: nat
  obj_dead :: "nat list" \<comment> \<open>environment: the handle objects the collector has taken\<close>
  arrivals :: "(ext_msg \<times> ext_msg list) list"
    \<comment> \<open>environment: what foreign threads deliver while the scheduler blocks, one batch per wait\<close>

type_synonym 'a sch = "(exc, sched, 'a) py"

definition init_sched :: sched where
  "init_sched = \<lparr>next_id = 0, insertion_seq = 0, tasks = [], promises = [], semaphores = [],
     waiters = [], ready = [], external_queue = [], handle_refs = [], handle_prune_at = [],
     cells = [], gathers = [], races = [], next_obj = 0, obj_dead = [], arrivals = []\<rparr>"

section \<open>Handles and the terminal-entry sweep\<close>

text \<open>A weak reference is alive until the collector takes its object.\<close>

definition obj_alive :: "sched \<Rightarrow> nat \<Rightarrow> bool" where
  "obj_alive s r \<longleftrightarrow> r \<notin> set (obj_dead s)"

text \<open>\<open>register_handle(key, handle)\<close>: the new handle object gets the next object number.\<close>

definition register_handle :: "waitable \<Rightarrow> sched \<Rightarrow> sched" where
  "register_handle key s =
     (let refs = (case dget (handle_refs s) key of None \<Rightarrow> [] | Some r \<Rightarrow> r);
          limit = (case dget (handle_prune_at s) key of None \<Rightarrow> HANDLE_REFS_PRUNE_MIN | Some n \<Rightarrow> n);
          full = (length refs \<ge> limit);
          kept = (if full then filter (obj_alive s) refs else refs);
          prune = (if full then dput key (max HANDLE_REFS_PRUNE_MIN (2 * length kept)) (handle_prune_at s)
                   else handle_prune_at s)
      in s\<lparr>handle_refs := dput key (kept @ [next_obj s]) (handle_refs s),
           handle_prune_at := prune, next_obj := Suc (next_obj s)\<rparr>)"

primrec waiter_keys :: "sched \<Rightarrow> waiter \<Rightarrow> waitable list" where
  "waiter_keys s (WtWait w k p) = []"
| "waiter_keys s (WtExternal w k c p) = []"
| "waiter_keys s (WtGather w g c) = g_keys (gathers s ! g)"
| "waiter_keys s (WtRace w r c) = r_pending (races s ! r)"

definition protected_keys :: "sched \<Rightarrow> waitable set" where
  "protected_keys s = (\<Union>kv \<in> set (waiters s). \<Union>w \<in> set (snd kv). set (waiter_keys s w))"

definition sweepable :: "sched \<Rightarrow> waitable \<Rightarrow> status \<Rightarrow> bool" where
  "sweepable s key st \<longleftrightarrow>
     (st = Completed \<or> st = Failed) \<and>
     dget (waiters s) key = None \<and> key \<notin> protected_keys s \<and>
     (case dget (handle_refs s) key of None \<Rightarrow> False
      | Some refs \<Rightarrow> \<not> (\<exists>r \<in> set refs. obj_alive s r))"

text \<open>One pass of the sweep's outer loop: a store, its key constructor and its status field.\<close>

definition dead_ids :: "sched \<Rightarrow> (nat \<Rightarrow> waitable) \<Rightarrow> ('m \<Rightarrow> status) \<Rightarrow> (nat, 'm) dict \<Rightarrow> nat list" where
  "dead_ids s mk st store = map fst (filter (\<lambda>(wid, m). sweepable s (mk wid) (st m)) store)"

definition forget_handles :: "waitable list \<Rightarrow> sched \<Rightarrow> sched" where
  "forget_handles ks s =
     s\<lparr>handle_refs := fold ddel ks (handle_refs s), handle_prune_at := fold ddel ks (handle_prune_at s)\<rparr>"

definition sweep_tasks :: "sched \<Rightarrow> sched" where
  "sweep_tasks s =
     (let dead = dead_ids s WTask t_status (tasks s)
      in forget_handles (map WTask dead) (s\<lparr>tasks := fold ddel dead (tasks s)\<rparr>))"

definition sweep_promises :: "sched \<Rightarrow> sched" where
  "sweep_promises s =
     (let dead = dead_ids s WPromise p_status (promises s)
      in forget_handles (map WPromise dead) (s\<lparr>promises := fold ddel dead (promises s)\<rparr>))"

definition sweep_terminal_unobserved_entries :: "sched \<Rightarrow> sched" where
  "sweep_terminal_unobserved_entries s = sweep_promises (sweep_tasks s)"

definition fresh_id :: "nat sch" where
  "fresh_id s =
     (let s' = s\<lparr>next_id := Suc (next_id s)\<rparr>
      in (Inr (next_id s),
          if next_id s' mod HANDLE_SWEEP_INTERVAL = 0 then sweep_terminal_unobserved_entries s' else s'))"

section \<open>Waitables\<close>

definition waitable_key :: "val \<Rightarrow> waitable sch" where
  "waitable_key obj =
     (case obj of VTask t \<Rightarrow> py_ret (WTask t) | VFuture p \<Rightarrow> py_ret (WPromise p)
      | _ \<Rightarrow> py_raise (raised (TypeError ''expected Task or Future'')))"

definition kind_str :: "waitable \<Rightarrow> string" where
  "kind_str key = (case key of WTask t \<Rightarrow> ''task '' @ nat_str t | WPromise p \<Rightarrow> ''promise '' @ nat_str p)"

definition swept_error :: "waitable \<Rightarrow> exc" where
  "swept_error key = raised (KeyError (kind_str key @ '' is unknown to this scheduler run''))"

definition lookup_status :: "sched \<Rightarrow> waitable \<Rightarrow> (status \<times> val) option" where
  "lookup_status s key =
     (case key of
        WTask t \<Rightarrow> map_option (\<lambda>m. (t_status m, t_result m)) (dget (tasks s) t)
      | WPromise p \<Rightarrow> map_option (\<lambda>m. (p_status m, p_result m)) (dget (promises s) p))"

definition waitable_status :: "waitable \<Rightarrow> (status \<times> val) sch" where
  "waitable_status key = py_need (swept_error key) (\<lambda>s. lookup_status s key)"

section \<open>The ready heap\<close>

definition enqueue :: "entry \<Rightarrow> int \<Rightarrow> sched \<Rightarrow> sched" where
  "enqueue e prio s =
     s\<lparr>insertion_seq := Suc (insertion_seq s),
       ready := heappush (- prio, insertion_seq s, e) (ready s)\<rparr>"

definition is_owner_cancelled :: "sched \<Rightarrow> owner \<Rightarrow> bool" where
  "is_owner_cancelled s w =
     (case w of None \<Rightarrow> False
      | Some t \<Rightarrow> (case dget (tasks s) t of None \<Rightarrow> False | Some m \<Rightarrow> t_status m = Cancelled))"

definition is_daemon :: "sched \<Rightarrow> owner \<Rightarrow> bool" where
  "is_daemon s w =
     (case w of None \<Rightarrow> False
      | Some t \<Rightarrow> (case dget (tasks s) t of None \<Rightarrow> False | Some m \<Rightarrow> t_daemon m))"

definition tasks_key_error :: "tid \<Rightarrow> exc" where
  "tasks_key_error t = raised (KeyError (nat_str t))"

definition task_priority :: "owner \<Rightarrow> int sch" where
  "task_priority w =
     (case w of None \<Rightarrow> py_ret PRIORITY_NORMAL
      | Some t \<Rightarrow> py_need (tasks_key_error t) (\<lambda>s. map_option t_priority (dget (tasks s) t)))"

text \<open>\<open>enqueue_resume\<close> and \<open>enqueue_raise\<close> return the priority they used.\<close>

definition wake_priority :: "owner \<Rightarrow> int option \<Rightarrow> int sch" where
  "wake_priority w prio = (case prio of None \<Rightarrow> task_priority w | Some p \<Rightarrow> py_ret p)"

definition enqueue_resume :: "owner \<Rightarrow> cont \<Rightarrow> val \<Rightarrow> int option \<Rightarrow> int sch" where
  "enqueue_resume w k v prio =
     py_bind (wake_priority w prio) (\<lambda>p.
     py_bind (py_modify (enqueue (EResume w k v) p)) (\<lambda>_. py_ret p))"

definition enqueue_raise :: "owner \<Rightarrow> cont \<Rightarrow> val \<Rightarrow> int option \<Rightarrow> int sch" where
  "enqueue_raise w k e prio =
     py_bind (wake_priority w prio) (\<lambda>p.
     py_bind (py_modify (enqueue (ERaise w k e) p)) (\<lambda>_. py_ret p))"

text \<open>
  The two liveness scans of the heap. \<open>tasks[tid]["status"]\<close> of a \<open>new\<close> entry is a direct
  subscript in the code; a task with a queued \<open>new\<close> entry is never swept (it is pending), so the
  \<open>KeyError\<close> of that subscript has no branch here.
\<close>

definition task_is :: "sched \<Rightarrow> tid \<Rightarrow> status \<Rightarrow> bool" where
  "task_is s t st = (case dget (tasks s) t of None \<Rightarrow> False | Some m \<Rightarrow> t_status m = st)"

primrec entry_runnable :: "sched \<Rightarrow> entry \<Rightarrow> owner option" where
  "entry_runnable s (ENew t) = (if task_is s t Cancelled then None else Some (Some t))"
| "entry_runnable s (EResume w k v) = (if is_owner_cancelled s w then None else Some w)"
| "entry_runnable s (ERaise w k e) = (if is_owner_cancelled s w then None else Some w)"
| "entry_runnable s (ESemResume w k i) = (if is_owner_cancelled s w then None else Some w)"
| "entry_runnable s (EWaitExternal w k wk c) = None"

definition has_live_ready_entry :: "bool \<Rightarrow> sched \<Rightarrow> bool" where
  "has_live_ready_entry include_daemons s =
     list_ex (\<lambda>it. case entry_runnable s (hentry it) of None \<Rightarrow> False
                   | Some w \<Rightarrow> include_daemons \<or> \<not> is_daemon s w) (ready s)"

definition is_live_daemon_entry :: "sched \<Rightarrow> entry \<Rightarrow> bool" where
  "is_live_daemon_entry s e = (case entry_runnable s e of None \<Rightarrow> False | Some w \<Rightarrow> is_daemon s w)"

section \<open>Allocation\<close>

definition alloc_task :: "prog \<Rightarrow> int \<Rightarrow> (string \<times> nat) list \<Rightarrow> bool \<Rightarrow> tid sch" where
  "alloc_task p prio boundaries daemon =
     py_bind fresh_id (\<lambda>t.
     py_bind (py_modify (\<lambda>s. s\<lparr>tasks := dput t
        \<lparr>t_status = Pending, t_result = VNone, t_program = Some p, t_priority = prio,
         t_daemon = daemon, t_boundaries = Some boundaries, t_spawn_site = None\<rparr> (tasks s)\<rparr>))
     (\<lambda>_. py_ret t))"

definition alloc_promise :: "pid sch" where
  "alloc_promise =
     py_bind fresh_id (\<lambda>p.
     py_bind (py_modify (\<lambda>s. s\<lparr>promises := dput p
        \<lparr>p_status = Pending, p_result = VNone, p_external = False\<rparr> (promises s)\<rparr>))
     (\<lambda>_. py_ret p))"

text \<open>\<open>_release_task_refs\<close>\<close>

definition release_task_refs :: "tid \<Rightarrow> sched \<Rightarrow> sched" where
  "release_task_refs t s =
     (case dget (tasks s) t of None \<Rightarrow> s
      | Some m \<Rightarrow> s\<lparr>tasks := dput t (m\<lparr>t_program := None, t_boundaries := None,
                                        t_spawn_site := None\<rparr>) (tasks s)\<rparr>)"

section \<open>Operations of the environment\<close>

text \<open>
  \<open>Promise.future\<close> and \<open>ExternalPromise.future\<close> mint a registered read handle;
  \<open>ExternalPromise.complete\<close> and \<open>fail\<close> are the thread-safe puts of foreign threads.
\<close>

definition mint_future :: "pid \<Rightarrow> sched \<Rightarrow> val \<times> sched" where
  "mint_future p s = (VFuture p, register_handle (WPromise p) s)"

definition external_complete :: "pid \<Rightarrow> val \<Rightarrow> sched \<Rightarrow> sched" where
  "external_complete p v s = s\<lparr>external_queue := external_queue s @ [ExtComplete p v]\<rparr>"

definition external_fail :: "pid \<Rightarrow> val \<Rightarrow> sched \<Rightarrow> sched" where
  "external_fail p e s = s\<lparr>external_queue := external_queue s @ [ExtFail p e]\<rparr>"

section \<open>Boundaries and tracebacks\<close>

definition reinstall_boundary :: "prog \<Rightarrow> string \<Rightarrow> nat \<Rightarrow> exc + prog" where
  "reinstall_boundary p kind b =
     (if kind = ''handler'' then Inr (PHandler b p)
      else if kind = ''observer'' then Inr (PObserver b p)
      else Inl (raised (RuntimeError (''unknown boundary kind: '' @ kind))))"

primrec reinstall_boundaries :: "prog \<Rightarrow> (string \<times> nat) list \<Rightarrow> exc + prog" where
  "reinstall_boundaries p [] = Inr p"
| "reinstall_boundaries p (b # bs) =
     (case reinstall_boundary p (fst b) (snd b) of Inl e \<Rightarrow> Inl e | Inr p' \<Rightarrow> reinstall_boundaries p' bs)"

text \<open>
  \<open>_enrich_exception_traceback\<close>: the VM's error-site context when there is one, else the
  user frames of the Python traceback (already without the runtime's own frames).
\<close>

definition enrich_exception_traceback :: "exc \<Rightarrow> tb_entry list \<Rightarrow> tb_entry list \<Rightarrow> exc" where
  "enrich_exception_traceback e vm_ctx py_frames =
     (case e of Exc k tb \<Rightarrow>
       (let entries = (if vm_ctx \<noteq> [] then vm_ctx else py_frames)
        in if entries = [] then e
           else Exc k (Some (entries @ (case tb of None \<Rightarrow> [] | Some t \<Rightarrow> t)))))"

text \<open>The spawn boundary that \<open>TaskCompleted\<close> puts in front of a failed task's traceback.\<close>

definition add_spawn_boundary :: "tid \<Rightarrow> string option option \<Rightarrow> val \<Rightarrow> val" where
  "add_spawn_boundary t site v =
     (case v of
        VExc (Exc k (Some tb)) \<Rightarrow>
          VExc (Exc k (Some (TbSpawnBoundary t (case site of None \<Rightarrow> Some '''' | Some x \<Rightarrow> x) # tb)))
      | _ \<Rightarrow> v)"

end
