(* ===== verification/Sched_Wake.thy ===== *)
theory Sched_Wake
  imports Sched_Core
begin

text \<open>
  Waking parked continuations: the resolution of a task or promise wakes its \<open>Wait\<close>, \<open>Gather\<close>
  and \<open>Race\<close> registrations (\<open>wake_waiters\<close> and the functions it calls), the drain of external
  completions, and the hand-over of semaphore permits.
\<close>

section \<open>Registration\<close>

definition new_cell :: "nat sch" where
  "new_cell s = (Inr (length (cells s)), s\<lparr>cells := cells s @ [False]\<rparr>)"

definition claim_cell :: "nat \<Rightarrow> sched \<Rightarrow> sched" where
  "claim_cell c s = s\<lparr>cells := (cells s)[c := True]\<rparr>"

definition add_waiter :: "waitable \<Rightarrow> waiter \<Rightarrow> sched \<Rightarrow> sched" where
  "add_waiter wk w s = s\<lparr>waiters := dappend wk w (waiters s)\<rparr>"

definition is_external :: "waitable \<Rightarrow> bool sch" where
  "is_external wk =
     (case wk of WTask t \<Rightarrow> py_ret False
      | WPromise p \<Rightarrow> py_need (raised (KeyError (nat_str p)))
                        (\<lambda>s. map_option p_external (dget (promises s) p)))"

text \<open>\<open>register_pending_waiter\<close>; the entry type and state are the constructor \<open>mk\<close>.\<close>

definition register_pending_waiter :: "waitable \<Rightarrow> (nat option \<Rightarrow> waiter) \<Rightarrow> owner \<Rightarrow> unit sch" where
  "register_pending_waiter wk mk w =
     py_bind (is_external wk) (\<lambda>ext.
       if ext then
         py_bind new_cell (\<lambda>c.
         py_bind (py_modify (enqueue (EWaitExternal w None wk c) PRIORITY_EXTERNAL_WAIT)) (\<lambda>_.
         py_modify (add_waiter wk (mk (Some c)))))
       else py_modify (add_waiter wk (mk None)))"

section \<open>Withdrawing the siblings of a resolved Gather or Race\<close>

primrec waiter_owner :: "waiter \<Rightarrow> owner" where
  "waiter_owner (WtWait w k p) = w"
| "waiter_owner (WtExternal w k c p) = w"
| "waiter_owner (WtGather w g c) = w"
| "waiter_owner (WtRace w r c) = w"

primrec waiter_cell :: "waiter \<Rightarrow> nat option" where
  "waiter_cell (WtWait w k p) = None"
| "waiter_cell (WtExternal w k c p) = Some c"
| "waiter_cell (WtGather w g c) = c"
| "waiter_cell (WtRace w r c) = c"

primrec is_gather_of :: "nat \<Rightarrow> waiter \<Rightarrow> bool" where
  "is_gather_of g (WtWait w k p) = False"
| "is_gather_of g (WtExternal w k c p) = False"
| "is_gather_of g (WtGather w g' c) = (g' = g)"
| "is_gather_of g (WtRace w r c) = False"

primrec is_race_of :: "nat \<Rightarrow> waiter \<Rightarrow> bool" where
  "is_race_of r (WtWait w k p) = False"
| "is_race_of r (WtExternal w k c p) = False"
| "is_race_of r (WtGather w g c) = False"
| "is_race_of r (WtRace w r' c) = (r' = r)"

definition claim_waiter :: "waiter \<Rightarrow> sched \<Rightarrow> sched" where
  "claim_waiter w s = (case waiter_cell w of None \<Rightarrow> s | Some c \<Rightarrow> claim_cell c s)"

definition withdraw_at :: "(waiter \<Rightarrow> bool) \<Rightarrow> waitable \<Rightarrow> sched \<Rightarrow> sched" where
  "withdraw_at mine wk s =
     (case dget (waiters s) wk of
        None \<Rightarrow> s
      | Some es \<Rightarrow>
          if es = [] then s
          else
            (let remaining = filter (\<lambda>w. \<not> mine w) es;
                 s' = fold claim_waiter (filter mine es) s
             in if remaining \<noteq> [] then s'\<lparr>waiters := dput wk remaining (waiters s')\<rparr>
                else s'\<lparr>waiters := ddel wk (waiters s')\<rparr>))"

definition remove_gather_waiters :: "nat \<Rightarrow> sched \<Rightarrow> sched" where
  "remove_gather_waiters g s =
     fold (withdraw_at (is_gather_of g)) (remdups (g_pending (gathers s ! g))) s"

definition remove_race_waiters :: "nat \<Rightarrow> sched \<Rightarrow> sched" where
  "remove_race_waiters r s =
     fold (withdraw_at (is_race_of r)) (remdups (r_pending (races s ! r))) s"

section \<open>Waking\<close>

abbreviation cancelled_error :: val where
  "cancelled_error \<equiv> VExc (raised TaskCancelledError)"

definition some_priority :: "int sch \<Rightarrow> int option sch" where
  "some_priority m = py_bind m (\<lambda>p. py_ret (Some p))"

definition resume_with_waitable_result ::
    "owner \<Rightarrow> cont \<Rightarrow> waitable \<Rightarrow> int option \<Rightarrow> int option sch" where
  "resume_with_waitable_result w k key prio =
     py_bind (waitable_status key) (\<lambda>(st, res).
       if st = Completed then some_priority (enqueue_resume w k res prio)
       else if st = Failed then some_priority (enqueue_raise w k res prio)
       else if st = Cancelled then some_priority (enqueue_raise w k cancelled_error prio)
       else py_ret None)"

definition set_gather :: "nat \<Rightarrow> gather_state \<Rightarrow> sched \<Rightarrow> sched" where
  "set_gather g gs s = s\<lparr>gathers := (gathers s)[g := gs]\<rparr>"

definition set_race :: "nat \<Rightarrow> race_state \<Rightarrow> sched \<Rightarrow> sched" where
  "set_race r rs s = s\<lparr>races := (races s)[r := rs]\<rparr>"

definition resolve_gather_with_error :: "nat \<Rightarrow> val \<Rightarrow> int option sch" where
  "resolve_gather_with_error g e =
     py_bind (py_gets (\<lambda>s. gathers s ! g)) (\<lambda>gs.
       if g_resolved gs then py_ret None
       else
         py_bind (py_modify (set_gather g (gs\<lparr>g_resolved := True, g_failure := Some e\<rparr>))) (\<lambda>_.
         py_bind (py_modify (remove_gather_waiters g)) (\<lambda>_.
         some_priority (enqueue_raise (g_owner gs) (g_cont gs) e None))))"

definition gather_results :: "waitable list \<Rightarrow> val list sch" where
  "gather_results keys = py_map (\<lambda>wk. py_bind (waitable_status wk) (\<lambda>(st, res). py_ret res)) keys"

definition wake_gather_waiter :: "nat \<Rightarrow> waitable \<Rightarrow> int option sch" where
  "wake_gather_waiter g key =
     py_bind (py_gets (\<lambda>s. gathers s ! g)) (\<lambda>gs.
       if g_resolved gs then py_ret None
       else
         py_bind (waitable_status key) (\<lambda>(st, res).
           if st = Failed then resolve_gather_with_error g res
           else if st = Cancelled then resolve_gather_with_error g cancelled_error
           else if st \<noteq> Completed then py_ret None
           else if g_remaining gs - 1 = 0 then
             py_bind (py_modify (set_gather g (gs\<lparr>g_remaining := 0, g_resolved := True\<rparr>))) (\<lambda>_.
             py_bind (gather_results (g_keys gs)) (\<lambda>results.
             some_priority (enqueue_resume (g_owner gs) (g_cont gs) (VList results) None)))
           else
             py_bind (py_modify (set_gather g (gs\<lparr>g_remaining := g_remaining gs - 1\<rparr>))) (\<lambda>_.
             py_ret None)))"

definition wake_race_waiter :: "nat \<Rightarrow> waitable \<Rightarrow> int option sch" where
  "wake_race_waiter r key =
     py_bind (py_gets (\<lambda>s. races s ! r)) (\<lambda>rs.
       if r_resolved rs then py_ret None
       else
         py_bind (waitable_status key) (\<lambda>(st, res).
           if \<not> terminal st then py_ret None
           else
             py_bind (py_modify (set_race r (rs\<lparr>r_resolved := True\<rparr>))) (\<lambda>_.
             py_bind (py_modify (remove_race_waiters r)) (\<lambda>_.
               if st = Completed then some_priority (enqueue_resume (r_owner rs) (r_cont rs) res None)
               else if st = Failed then some_priority (enqueue_raise (r_owner rs) (r_cont rs) res None)
               else some_priority (enqueue_raise (r_owner rs) (r_cont rs) cancelled_error None)))))"

definition wake_one :: "waitable \<Rightarrow> waiter \<Rightarrow> int option sch" where
  "wake_one key w =
     (case w of
        WtWait ow k prio \<Rightarrow> resume_with_waitable_result ow k key prio
      | WtExternal ow k c prio \<Rightarrow>
          py_bind (py_modify (claim_cell c)) (\<lambda>_. resume_with_waitable_result ow k key prio)
      | WtGather ow g c \<Rightarrow>
          py_bind (py_modify (claim_waiter w)) (\<lambda>_. wake_gather_waiter g key)
      | WtRace ow r c \<Rightarrow>
          py_bind (py_modify (claim_waiter w)) (\<lambda>_. wake_race_waiter r key))"

definition min_priority :: "int option \<Rightarrow> int option \<Rightarrow> int option" where
  "min_priority woken queued =
     (case queued of None \<Rightarrow> woken
      | Some q \<Rightarrow> (case woken of None \<Rightarrow> Some q | Some m \<Rightarrow> if q < m then Some q else Some m))"

definition pop_waiters :: "waitable \<Rightarrow> waiter list sch" where
  "pop_waiters key s =
     (Inr (case dget (waiters s) key of None \<Rightarrow> [] | Some ws \<Rightarrow> ws),
      s\<lparr>waiters := ddel key (waiters s)\<rparr>)"

definition wake_waiters :: "waitable \<Rightarrow> int option sch" where
  "wake_waiters key =
     py_bind (pop_waiters key) (\<lambda>ws.
       py_fold (\<lambda>woken w. py_bind (wake_one key w) (\<lambda>q. py_ret (min_priority woken q))) None ws)"

section \<open>External completions\<close>

definition set_promise :: "pid \<Rightarrow> promise_meta \<Rightarrow> sched \<Rightarrow> sched" where
  "set_promise p m s = s\<lparr>promises := dput p m (promises s)\<rparr>"

definition resolve_external :: "pid \<Rightarrow> status \<Rightarrow> val \<Rightarrow> unit sch" where
  "resolve_external p st v =
     py_bind (py_gets (\<lambda>s. dget (promises s) p)) (\<lambda>entry.
       case entry of None \<Rightarrow> py_ret ()
       | Some m \<Rightarrow>
           if p_status m = Pending then
             py_bind (py_modify (set_promise p (m\<lparr>p_status := st, p_result := v\<rparr>))) (\<lambda>_.
             py_bind (wake_waiters (WPromise p)) (\<lambda>_. py_ret ()))
           else py_ret ())"

primrec deliver :: "ext_msg \<Rightarrow> unit sch" where
  "deliver (ExtComplete p v) = resolve_external p Completed v"
| "deliver (ExtFail p e) = resolve_external p Failed e"

definition drain :: "unit sch" where
  "drain =
     py_bind (py_gets external_queue) (\<lambda>q.
       py_for q (\<lambda>msg.
         py_bind (py_modify (\<lambda>s. s\<lparr>external_queue := tl (external_queue s)\<rparr>)) (\<lambda>_. deliver msg)))"

text \<open>
  \<open>_drain_one_external\<close>: the blocking \<open>get\<close> takes the head of the queue, or the next batch of
  arrivals when the queue is empty; \<open>False\<close> means that no completion ever arrives, so the call
  does not return. The stall warning it logs while waiting is not modelled.
\<close>

definition drain_one_external :: "bool sch" where
  "drain_one_external s =
     (case external_queue s of
        msg # rest \<Rightarrow> py_bind (deliver msg) (\<lambda>_. py_ret True) (s\<lparr>external_queue := rest\<rparr>)
      | [] \<Rightarrow>
          (case arrivals s of
             [] \<Rightarrow> (Inr False, s)
           | (msg, others) # later \<Rightarrow>
               py_bind (deliver msg) (\<lambda>_. py_ret True)
                 (s\<lparr>external_queue := others, arrivals := later\<rparr>)))"

section \<open>Semaphore permits\<close>

definition set_sem :: "sid \<Rightarrow> sem_meta \<Rightarrow> sched \<Rightarrow> sched" where
  "set_sem i m s = s\<lparr>semaphores := dput i m (semaphores s)\<rparr>"

definition get_sem :: "sid \<Rightarrow> sem_meta sch" where
  "get_sem i = py_need (raised (KeyError (nat_str i))) (\<lambda>s. dget (semaphores s) i)"

text \<open>\<open>pop_live_semaphore_waiter\<close>: the waiter found, and the waiter deque afterwards.\<close>

fun pop_live_semaphore_waiter ::
    "sched \<Rightarrow> (owner \<times> cont) list \<Rightarrow> (owner \<times> cont) option \<times> (owner \<times> cont) list" where
  "pop_live_semaphore_waiter s [] = (None, [])"
| "pop_live_semaphore_waiter s ((w, k) # rest) =
     (if is_owner_cancelled s w then pop_live_semaphore_waiter s rest else (Some (w, k), rest))"

definition grant_permit_to_next_waiter :: "sid \<Rightarrow> bool sch" where
  "grant_permit_to_next_waiter i =
     py_bind (get_sem i) (\<lambda>sem.
     py_bind (py_gets (\<lambda>s. pop_live_semaphore_waiter s (s_waiters sem))) (\<lambda>(found, rest).
       case found of
         None \<Rightarrow> py_bind (py_modify (set_sem i (sem\<lparr>s_waiters := rest\<rparr>))) (\<lambda>_. py_ret False)
       | Some (w, k) \<Rightarrow>
           py_bind (py_modify (set_sem i
             (sem\<lparr>s_waiters := rest, s_holders := s_holders sem @ [w]\<rparr>))) (\<lambda>_.
           py_bind (task_priority w) (\<lambda>p.
           py_bind (py_modify (enqueue (ESemResume w k i) p)) (\<lambda>_. py_ret True)))))"

definition return_inflight_permit :: "sid \<Rightarrow> owner \<Rightarrow> unit sch" where
  "return_inflight_permit i w =
     py_bind (get_sem i) (\<lambda>sem.
       if w \<notin> set (s_holders sem)
       then py_raise (raised (ValueError ''list.remove(x): x not in list''))
       else
         py_bind (py_modify (set_sem i (sem\<lparr>s_holders := remove1 w (s_holders sem)\<rparr>))) (\<lambda>_.
         py_bind (grant_permit_to_next_waiter i) (\<lambda>transferred.
           if transferred then py_ret ()
           else py_bind (get_sem i) (\<lambda>sem'.
                py_modify (set_sem i (sem'\<lparr>s_permits := s_permits sem' + 1\<rparr>))))))"

end
