(* ===== verification/Sched_Frame.thy ===== *)
theory Sched_Frame
  imports Sched_Wake
begin

text \<open>
  What waking cannot touch. The locale \<open>wake_closed\<close> is the contract of a state predicate that
  survives the primitive writes of the wake path; inside it the predicate is carried through
  every function of that path once. Interpretations give the frame of \<open>wake_waiters\<close>, the order
  of the ready heap and the bound on the work left that makes the dispatch loop end.
\<close>

lemma waiters_claims [simp]: "waiters (fold claim_waiter ws s) = waiters s"
  by (induction ws arbitrary: s) (auto simp: claim_waiter_def claim_cell_def split: option.split)

locale wake_closed =
  fixes P :: "sched \<Rightarrow> bool"
  assumes enq: "P s \<Longrightarrow> P (enqueue e p s)"
    and cell: "P s \<Longrightarrow> P (claim_cell c s)"
    and gath: "P s \<Longrightarrow> P (set_gather g gs s)"
    and race: "P s \<Longrightarrow> P (set_race r rs s)"
    and wait: "P s \<Longrightarrow> shrinks ws (waiters s) \<Longrightarrow> P (s\<lparr>waiters := ws\<rparr>)"
begin

lemma claim_waiter_P: "P s \<Longrightarrow> P (claim_waiter w s)"
  by (simp add: claim_waiter_def cell split: option.split)

lemma fold_P: "(\<And>x s. P s \<Longrightarrow> P (f x s)) \<Longrightarrow> P s \<Longrightarrow> P (fold f xs s)"
  by (induction xs arbitrary: s) auto

lemma withdraw_at_P: "P s \<Longrightarrow> P (withdraw_at mine wk s)"
proof -
  assume P: "P s"
  have claimed: "P (fold claim_waiter ws s)" for ws
    by (rule fold_P [OF claim_waiter_P P])
  show ?thesis
  proof (cases "dget (waiters s) wk")
    case (Some es)
    have "shrinks (dput wk (filter (\<lambda>w. \<not> mine w) es) (waiters s)) (waiters s)"
      by (rule shrinks_dput [OF Some]) auto
    with P Some show ?thesis
      by (auto simp: withdraw_at_def Let_def intro!: wait claimed shrinks_ddel)
  qed (simp add: withdraw_at_def P)
qed

lemma remove_gather_waiters_P: "P s \<Longrightarrow> P (remove_gather_waiters g s)"
  unfolding remove_gather_waiters_def by (rule fold_P [OF withdraw_at_P])

lemma remove_race_waiters_P: "P s \<Longrightarrow> P (remove_race_waiters r s)"
  unfolding remove_race_waiters_def by (rule fold_P [OF withdraw_at_P])

lemma writes_P:
  "keeps P (py_modify (enqueue e p))" "keeps P (py_modify (claim_cell c))"
  "keeps P (py_modify (set_gather g gs))" "keeps P (py_modify (set_race r rs))"
  "keeps P (py_modify (claim_waiter w))" "keeps P (py_modify (remove_gather_waiters g))"
  "keeps P (py_modify (remove_race_waiters r))"
  by (simp_all add: keeps_modify enq cell gath race claim_waiter_P remove_gather_waiters_P
      remove_race_waiters_P)

lemma task_priority_P: "keeps P (task_priority w)"
  unfolding task_priority_def by (intro keeps_intro)

lemma wake_priority_P: "keeps P (wake_priority w pr)"
  unfolding wake_priority_def by (intro keeps_intro task_priority_P)

lemma enqueue_resume_P: "keeps P (enqueue_resume w k v pr)"
  unfolding enqueue_resume_def by (intro keeps_intro wake_priority_P writes_P)

lemma enqueue_raise_P: "keeps P (enqueue_raise w k v pr)"
  unfolding enqueue_raise_def by (intro keeps_intro wake_priority_P writes_P)

lemma some_priority_P: "keeps P m \<Longrightarrow> keeps P (some_priority m)"
  unfolding some_priority_def by (intro keeps_intro)

lemma waitable_status_P: "keeps P (waitable_status key)"
  unfolding waitable_status_def by (intro keeps_intro)

lemmas queue_P = some_priority_P enqueue_resume_P enqueue_raise_P waitable_status_P

lemma resume_with_waitable_result_P: "keeps P (resume_with_waitable_result w k key pr)"
  unfolding resume_with_waitable_result_def by (intro keeps_intro queue_P)

lemma resolve_gather_with_error_P: "keeps P (resolve_gather_with_error g e)"
  unfolding resolve_gather_with_error_def by (intro keeps_intro queue_P writes_P)

lemma gather_results_P: "keeps P (gather_results keys)"
  unfolding gather_results_def by (intro keeps_intro queue_P)

lemma wake_gather_waiter_P: "keeps P (wake_gather_waiter g key)"
  unfolding wake_gather_waiter_def
  by (intro keeps_intro queue_P writes_P resolve_gather_with_error_P gather_results_P)

lemma wake_race_waiter_P: "keeps P (wake_race_waiter r key)"
  unfolding wake_race_waiter_def by (intro keeps_intro queue_P writes_P)

lemma wake_one_P: "keeps P (wake_one key w)"
  unfolding wake_one_def
  by (cases w) (auto intro!: keeps_intro writes_P resume_with_waitable_result_P
      wake_gather_waiter_P wake_race_waiter_P)

lemma pop_waiters_P: "keeps P (pop_waiters key)"
  by (rule keepsI) (simp add: pop_waiters_def wait shrinks_ddel)

lemma wake_waiters_P: "keeps P (wake_waiters key)"
  unfolding wake_waiters_def by (intro keeps_intro pop_waiters_P wake_one_P)

lemma after_pop:
  assumes "P (s\<lparr>waiters := ddel key (waiters s)\<rparr>)"
  shows "P (snd (wake_waiters key s))"
proof -
  have "keeps P (py_fold (\<lambda>woken w. py_bind (wake_one key w) (\<lambda>q. py_ret (min_priority woken q))) None ws)" for ws
    by (intro keeps_intro wake_one_P)
  then show ?thesis using assms by (simp add: wake_waiters_def pop_waiters_def py_bind_Inr keeps_def)
qed

lemma after_wake: "P s \<Longrightarrow> P (snd (wake_waiters key s))"
  using wake_waiters_P by (simp add: keeps_def)

end

text \<open>A predicate that also survives the resolution of a promise survives a delivery.\<close>

abbreviation resolved :: "promise_meta \<Rightarrow> status \<Rightarrow> val \<Rightarrow> promise_meta" where
  "resolved m st v \<equiv> m\<lparr>p_status := st, p_result := v\<rparr>"

locale deliver_closed = wake_closed +
  assumes resolve: "P s \<Longrightarrow> dget (promises s) p = Some m \<Longrightarrow> p_status m = Pending \<Longrightarrow> terminal st \<Longrightarrow>
      P (snd (wake_waiters (WPromise p) (set_promise p (resolved m st v) s)))"
    and unqueue: "P s \<Longrightarrow> P (s\<lparr>external_queue := tl (external_queue s)\<rparr>)"
begin

lemma resolve_external_P: "terminal st \<Longrightarrow> keeps P (resolve_external p st v)"
proof (rule keepsI)
  fix s assume "terminal st" and "P s"
  then show "P (snd (resolve_external p st v s))"
    using resolve [of s p _ st v]
    by (auto simp: resolve_external_def py_bind_def split: option.split sum.splits prod.splits)
qed

lemma deliver_P: "keeps P (deliver msg)"
  by (cases msg) (simp_all add: resolve_external_P terminal_iff)

lemma drain_P: "keeps P drain"
  unfolding drain_def by (intro keeps_intro deliver_P) (simp add: keeps_modify unqueue)

end

section \<open>The frame of a wake\<close>

definition wake_frame where
  "wake_frame s = (next_id s, tasks s, promises s, semaphores s, external_queue s, handle_refs s,
                   handle_prune_at s, next_obj s, obj_dead s, arrivals (s :: sched))"

interpretation frame: wake_closed "\<lambda>s. wake_frame s = wake_frame s0" for s0
  by unfold_locales (simp_all add: wake_frame_def enqueue_def claim_cell_def set_gather_def set_race_def)

lemma wake_waiters_frame: "wake_frame (snd (wake_waiters key s)) = wake_frame s"
  using frame.wake_waiters_P [of s key] by (simp add: keeps_def)

lemma wake_frame_fields:
  assumes "wake_frame s' = wake_frame s"
  shows "tasks s' = tasks s" "promises s' = promises s" "semaphores s' = semaphores s"
    "external_queue s' = external_queue s" "arrivals s' = arrivals s" "next_id s' = next_id s"
    "handle_refs s' = handle_refs s" "handle_prune_at s' = handle_prune_at s"
    "next_obj s' = next_obj s" "obj_dead s' = obj_dead s"
  using assms by (simp_all add: wake_frame_def)

lemmas wake_waiters_fields [simp] = wake_frame_fields [OF wake_waiters_frame]

section \<open>The heap stays in order\<close>

interpretation order_wake: wake_closed "\<lambda>s. heap_ok (ready s)"
  by unfold_locales (simp_all add: enqueue_def claim_cell_def set_gather_def set_race_def)

interpretation order: deliver_closed "\<lambda>s. heap_ok (ready s)"
  by unfold_locales (rule order_wake.after_wake, simp_all add: set_promise_def)

section \<open>The work left\<close>

definition msgs :: "sched \<Rightarrow> nat" where
  "msgs s = length (external_queue s) + sum_list (map (\<lambda>b. Suc (length (snd b))) (arrivals s))"

interpretation left_wake: wake_closed "\<lambda>s. msgs s \<le> n" for n
  by unfold_locales (auto simp: msgs_def enqueue_def claim_cell_def set_gather_def set_race_def)

interpretation left: deliver_closed "\<lambda>s. msgs s \<le> n" for n
  by unfold_locales (rule left_wake.after_wake, simp_all add: set_promise_def msgs_def)

lemma drain_one_external_msgs:
  assumes "drain_one_external s = (Inr True, s')"
  shows "msgs s' < msgs s"
proof (cases "external_queue s")
  case Nil
  then obtain msg others later where a: "arrivals s = (msg, others) # later"
    using assms by (cases "arrivals s") (auto simp: drain_one_external_def)
  let ?t = "s\<lparr>external_queue := others, arrivals := later\<rparr>"
  have "msgs (snd (deliver msg ?t)) \<le> msgs ?t"
    using left.deliver_P [of "msgs ?t" msg] by (simp add: keeps_def)
  moreover have "snd (deliver msg ?t) = s'"
    using assms Nil a by (auto simp: drain_one_external_def py_bind_def split: prod.splits sum.splits)
  moreover have "msgs ?t < msgs s" using Nil a by (simp add: msgs_def)
  ultimately show ?thesis by simp
next
  case (Cons msg rest)
  let ?t = "s\<lparr>external_queue := rest\<rparr>"
  have "msgs (snd (deliver msg ?t)) \<le> msgs ?t"
    using left.deliver_P [of "msgs ?t" msg] by (simp add: keeps_def)
  moreover have "snd (deliver msg ?t) = s'"
    using assms Cons by (auto simp: drain_one_external_def py_bind_def split: prod.splits sum.splits)
  moreover have "msgs ?t < msgs s" using Cons by (simp add: msgs_def)
  ultimately show ?thesis by simp
qed

lemma drain_msgs: "drain s = (r, s') \<Longrightarrow> msgs s' \<le> msgs s"
  using left.drain_P [of "msgs s"] by (metis keepsD order_refl)

definition parked_load :: "sched \<Rightarrow> nat" where
  "parked_load s = sum_list (map (\<lambda>(i, sem). length (s_waiters sem)) (semaphores s))"

definition work_load :: "sched \<Rightarrow> nat" where
  "work_load s = length (ready s) + 2 * parked_load s"

lemma sum_list_dput:
  "dget d i = Some m \<Longrightarrow>
   sum_list (map (\<lambda>(i, v). f v) (dput i m' d)) + f m = sum_list (map (\<lambda>(i, v). f v) d) + (f m' :: nat)"
  by (induction d) (auto split: if_splits)

lemma parked_load_set_sem:
  assumes "dget (semaphores s) i = Some m"
  shows "parked_load (set_sem i m' s) + length (s_waiters m) = parked_load s + length (s_waiters m')"
  using sum_list_dput [OF assms, of "\<lambda>sem. length (s_waiters sem)" m']
  by (simp add: parked_load_def set_sem_def)

lemma pop_live_length:
  "pop_live_semaphore_waiter s ws = (found, rest) \<Longrightarrow>
   length rest + (case found of None \<Rightarrow> 0 | Some w \<Rightarrow> 1) \<le> length ws"
  by (induction s ws rule: pop_live_semaphore_waiter.induct) (auto split: if_splits option.splits)

lemma msgs_set_sem [simp]: "msgs (set_sem i m s) = msgs s"
  by (simp add: msgs_def set_sem_def)

lemma msgs_enqueue [simp]: "msgs (enqueue e p s) = msgs s"
  by (simp add: msgs_def enqueue_def)

lemma parked_load_enqueue [simp]: "parked_load (enqueue e p s) = parked_load s"
  by (simp add: parked_load_def enqueue_def)

lemma length_ready_enqueue [simp]: "length (ready (enqueue e p s)) = Suc (length (ready s))"
  by (simp add: enqueue_def)

lemma ready_set_sem [simp]: "ready (set_sem i m s) = ready s"
  by (simp add: set_sem_def)

lemma task_priority_state: "snd (task_priority w s) = s"
  by (auto simp: task_priority_def py_need_def py_ret_def split: option.splits)

lemma get_sem_state: "get_sem i s = (r, s') \<Longrightarrow> s' = s \<and> (\<forall>m. r = Inr m \<longrightarrow> dget (semaphores s) i = Some m)"
  by (auto simp: get_sem_def py_need_def split: option.splits)

text \<open>The ways a hand-over can end.\<close>

lemma grant_cases:
  assumes "grant_permit_to_next_waiter i s = (r, s')"
  obtains (NoSemaphore) e where "r = Inl e" "s' = s" "dget (semaphores s) i = None"
  | (NoWaiter) sem rest where "dget (semaphores s) i = Some sem"
      "pop_live_semaphore_waiter s (s_waiters sem) = (None, rest)"
      "r = Inr False" "s' = set_sem i (sem\<lparr>s_waiters := rest\<rparr>) s"
  | (Granted) sem w k rest p where "dget (semaphores s) i = Some sem"
      "pop_live_semaphore_waiter s (s_waiters sem) = (Some (w, k), rest)"
      "r = Inr True" "fst (task_priority w s) = Inr p"
      "s' = enqueue (ESemResume w k i) p
              (set_sem i (sem\<lparr>s_waiters := rest, s_holders := s_holders sem @ [w]\<rparr>) s)"
  | (UnknownTask) sem w k rest e where "dget (semaphores s) i = Some sem"
      "pop_live_semaphore_waiter s (s_waiters sem) = (Some (w, k), rest)"
      "r = Inl e" "fst (task_priority w s) = Inl e"
      "s' = set_sem i (sem\<lparr>s_waiters := rest, s_holders := s_holders sem @ [w]\<rparr>) s"
proof (cases "dget (semaphores s) i")
  case None
  then show ?thesis using assms NoSemaphore [of "raised (KeyError (nat_str i))"]
    by (auto simp: grant_permit_to_next_waiter_def get_sem_def)
next
  case (Some sem)
  obtain found rest where pop: "pop_live_semaphore_waiter s (s_waiters sem) = (found, rest)"
    by (cases "pop_live_semaphore_waiter s (s_waiters sem)")
  show ?thesis
  proof (cases found)
    case None
    with assms Some pop NoWaiter show ?thesis
      by (simp add: grant_permit_to_next_waiter_def get_sem_def)
  next
    case found: (Some wk)
    obtain w k where wk: "wk = (w, k)" by (cases wk)
    let ?s1 = "set_sem i (sem\<lparr>s_waiters := rest, s_holders := s_holders sem @ [w]\<rparr>) s"
    have same: "task_priority w ?s1 = (fst (task_priority w s), ?s1)"
      by (auto simp: task_priority_def py_need_def set_sem_def split: option.splits)
    note pop' = pop [unfolded found wk]
    have rest: "(r, s') = (case fst (task_priority w s) of Inl e \<Rightarrow> (Inl e, ?s1)
        | Inr p \<Rightarrow> (Inr True, enqueue (ESemResume w k i) p ?s1))"
      using assms Some pop' same
      by (cases "fst (task_priority w s)")
         (simp_all add: grant_permit_to_next_waiter_def get_sem_def py_bind_Inl py_bind_Inr)
    show ?thesis
    proof (cases "fst (task_priority w s)")
      case (Inl e)
      with rest UnknownTask [OF Some pop'] show ?thesis by simp
    next
      case (Inr p)
      with rest Granted [OF Some pop'] show ?thesis by simp
    qed
  qed
qed

lemma grant_load:
  assumes "grant_permit_to_next_waiter i s = (Inr b, s')"
  shows "msgs s' = msgs s \<and> work_load s' \<le> work_load s"
  using assms
proof (cases rule: grant_cases)
  case (NoWaiter sem rest)
  then show ?thesis
    using parked_load_set_sem [OF NoWaiter(1), of "sem\<lparr>s_waiters := rest\<rparr>"] pop_live_length [OF NoWaiter(2)]
    by (simp add: work_load_def)
next
  case (Granted sem w k rest p)
  then show ?thesis
    using parked_load_set_sem [OF Granted(1), of "sem\<lparr>s_waiters := rest, s_holders := s_holders sem @ [w]\<rparr>"]
      pop_live_length [OF Granted(2)] by (simp add: work_load_def)
qed simp_all

text \<open>The ways an in-flight permit can come back.\<close>

lemma return_inflight_cases:
  assumes "return_inflight_permit i w s = (r, s')"
  obtains (NoSemaphore) e where "r = Inl e" "s' = s" "dget (semaphores s) i = None"
  | (NotHeld) sem e where "dget (semaphores s) i = Some sem" "w \<notin> set (s_holders sem)" "r = Inl e" "s' = s"
  | (Passed) sem s1 where "dget (semaphores s) i = Some sem" "w \<in> set (s_holders sem)"
      "s1 = set_sem i (sem\<lparr>s_holders := remove1 w (s_holders sem)\<rparr>) s"
      "grant_permit_to_next_waiter i s1 = (Inr True, s')" "r = Inr ()"
  | (Failed) sem s1 e where "dget (semaphores s) i = Some sem" "w \<in> set (s_holders sem)"
      "s1 = set_sem i (sem\<lparr>s_holders := remove1 w (s_holders sem)\<rparr>) s"
      "grant_permit_to_next_waiter i s1 = (Inl e, s')" "r = Inl e"
  | (Banked) sem s1 s2 sem' where "dget (semaphores s) i = Some sem" "w \<in> set (s_holders sem)"
      "s1 = set_sem i (sem\<lparr>s_holders := remove1 w (s_holders sem)\<rparr>) s"
      "grant_permit_to_next_waiter i s1 = (Inr False, s2)" "dget (semaphores s2) i = Some sem'"
      "r = Inr ()" "s' = set_sem i (sem'\<lparr>s_permits := s_permits sem' + 1\<rparr>) s2"
proof (cases "dget (semaphores s) i")
  case None
  then show ?thesis using assms NoSemaphore [of "raised (KeyError (nat_str i))"]
    by (auto simp: return_inflight_permit_def get_sem_def)
next
  case (Some sem)
  show ?thesis
  proof (cases "w \<in> set (s_holders sem)")
    case False
    then show ?thesis using assms Some NotHeld by (simp add: return_inflight_permit_def get_sem_def)
  next
    case True
    let ?s1 = "set_sem i (sem\<lparr>s_holders := remove1 w (s_holders sem)\<rparr>) s"
    obtain g s2 where grant: "grant_permit_to_next_waiter i ?s1 = (g, s2)"
      by (cases "grant_permit_to_next_waiter i ?s1")
    have rest: "(r, s') = (case g of Inl e \<Rightarrow> (Inl e, s2)
        | Inr b \<Rightarrow> (if b then py_ret () else py_bind (get_sem i) (\<lambda>sem'.
             py_modify (set_sem i (sem'\<lparr>s_permits := s_permits sem' + 1\<rparr>)))) s2)"
      using assms Some True grant
      by (cases g) (simp_all add: return_inflight_permit_def get_sem_def py_bind_Inl py_bind_Inr)
    have known: "\<exists>sem'. dget (semaphores s2) i = Some sem'" if "g = Inr False"
      using grant unfolding that
      by (cases rule: grant_cases) (auto simp: set_sem_def)
    show ?thesis
    proof (cases g)
      case (Inl e)
      with rest Failed [OF Some True refl] grant show ?thesis by simp
    next
      case (Inr b)
      with rest Passed [OF Some True refl] Banked [OF Some True refl] grant known show ?thesis
        by (cases b) (auto simp: get_sem_def)
    qed
  qed
qed

lemma return_inflight_load:
  assumes "return_inflight_permit i w s = (Inr u, s')"
  shows "msgs s' = msgs s \<and> work_load s' \<le> work_load s"
  using assms
proof (cases rule: return_inflight_cases)
  case (Passed sem s1)
  then show ?thesis
    using grant_load [OF Passed(4)]
      parked_load_set_sem [OF Passed(1), of "sem\<lparr>s_holders := remove1 w (s_holders sem)\<rparr>"]
    by (simp add: work_load_def)
next
  case (Banked sem s1 s2 sem')
  then show ?thesis
    using grant_load [OF Banked(4)]
      parked_load_set_sem [OF Banked(1), of "sem\<lparr>s_holders := remove1 w (s_holders sem)\<rparr>"]
      parked_load_set_sem [OF Banked(5), of "sem'\<lparr>s_permits := s_permits sem' + 1\<rparr>"]
    by (simp add: work_load_def)
qed simp_all

end
