(* ===== verification/Sched_Dispatch.thy ===== *)
theory Sched_Dispatch
  imports Sched_Frame
begin

text \<open>
  Choosing what runs next: the diagnostics of parked work, the semaphore-deadlock analysis and
  the dispatch loop \<open>pick_next\<close>, with the proof that the loop ends.
\<close>

section \<open>Diagnostics\<close>

definition who :: "owner \<Rightarrow> string" where
  "who w = (case w of None \<Rightarrow> ''root'' | Some t \<Rightarrow> ''task '' @ nat_str t)"

primrec waiter_type :: "waiter \<Rightarrow> string" where
  "waiter_type (WtWait w k p) = ''wait''"
| "waiter_type (WtExternal w k c p) = ''wait_external''"
| "waiter_type (WtGather w g c) = ''gather''"
| "waiter_type (WtRace w r c) = ''race''"

definition live_parked :: "bool \<Rightarrow> sched \<Rightarrow> (waitable \<times> waiter) list" where
  "live_parked include_daemons s =
     filter (\<lambda>(key, w). \<not> is_owner_cancelled s (waiter_owner w) \<and>
                        (include_daemons \<or> \<not> is_daemon s (waiter_owner w)))
       (concat (map (\<lambda>(key, ws). map (Pair key) ws) (waiters s)))"

definition live_parked_waiter_summary :: "bool \<Rightarrow> sched \<Rightarrow> string list" where
  "live_parked_waiter_summary include_daemons s =
     map (\<lambda>(key, w). who (waiter_owner w) @ '' ('' @ waiter_type w @ '') on '' @ kind_str key)
       (live_parked include_daemons s)"

primrec abandoned_line :: "sched \<Rightarrow> entry \<Rightarrow> string list" where
  "abandoned_line s (ENew t) =
     (if \<not> task_is s t Cancelled \<and> \<not> is_daemon s (Some t) then [''unstarted task '' @ nat_str t] else [])"
| "abandoned_line s (EResume w k v) =
     (if \<not> is_owner_cancelled s w \<and> \<not> is_daemon s w then [''queued resume for '' @ who w] else [])"
| "abandoned_line s (ERaise w k e) =
     (if \<not> is_owner_cancelled s w \<and> \<not> is_daemon s w then [''queued raise for '' @ who w] else [])"
| "abandoned_line s (ESemResume w k i) =
     (if \<not> is_owner_cancelled s w \<and> \<not> is_daemon s w
      then [''queued semaphore '' @ nat_str i @ '' permit for task '' @
            (case w of None \<Rightarrow> ''None'' | Some t \<Rightarrow> nat_str t)] else [])"
| "abandoned_line s (EWaitExternal w k wk c) = []"

definition abandoned_ready_summary :: "sched \<Rightarrow> string list" where
  "abandoned_ready_summary s = concat (map (\<lambda>it. abandoned_line s (hentry it)) (ready s))"

text \<open>\<open>root_close_out\<close>: the root's value, and the warning (abandoned, parked) if there is one.\<close>

definition root_close_out :: "val \<Rightarrow> sched \<Rightarrow> val \<times> (string list \<times> string list) option" where
  "root_close_out v s =
     (let abandoned = abandoned_ready_summary s; parked = live_parked_waiter_summary False s
      in (v, if abandoned \<noteq> [] \<or> parked \<noteq> [] then Some (abandoned, parked) else None))"

section \<open>Semaphore deadlocks\<close>

definition live_sem_waiters :: "sched \<Rightarrow> sem_meta \<Rightarrow> (owner \<times> cont) list" where
  "live_sem_waiters s sem = filter (\<lambda>w. \<not> is_owner_cancelled s (fst w)) (s_waiters sem)"

definition known_tids :: "owner list \<Rightarrow> tid list" where
  "known_tids ws = concat (map (\<lambda>w. case w of None \<Rightarrow> [] | Some t \<Rightarrow> [t]) ws)"

definition live_semaphore_waiters :: "sched \<Rightarrow> (sid \<times> tid list) list \<times> sched" where
  "live_semaphore_waiters s =
     (map (\<lambda>(i, sem). (i, known_tids (map fst (live_sem_waiters s sem))))
        (filter (\<lambda>(i, sem). live_sem_waiters s sem \<noteq> []) (semaphores s)),
      s\<lparr>semaphores := map (\<lambda>(i, sem). (i, sem\<lparr>s_waiters := live_sem_waiters s sem\<rparr>)) (semaphores s)\<rparr>)"

definition sem_waiters_of :: "sched \<Rightarrow> sid \<Rightarrow> (owner \<times> cont) list" where
  "sem_waiters_of s i = (case dget (semaphores s) i of None \<Rightarrow> [] | Some sem \<Rightarrow> s_waiters sem)"

definition sem_holders_of :: "sched \<Rightarrow> sid \<Rightarrow> owner list" where
  "sem_holders_of s i = (case dget (semaphores s) i of None \<Rightarrow> [] | Some sem \<Rightarrow> s_holders sem)"

definition parked_owners :: "sched \<Rightarrow> sid list \<Rightarrow> owner list" where
  "parked_owners s cands = concat (map (\<lambda>i. map fst (sem_waiters_of s i)) cands)"

text \<open>A candidate is pruned when it has no holder, or one that is not parked in the candidates.\<close>

definition can_release :: "sched \<Rightarrow> sid list \<Rightarrow> sid \<Rightarrow> bool" where
  "can_release s cands i \<longleftrightarrow>
     sem_holders_of s i = [] \<or> list_ex (\<lambda>h. h \<notin> set (parked_owners s cands)) (sem_holders_of s i)"

function unreleasable_loop :: "sched \<Rightarrow> sid list \<Rightarrow> sid list" where
  "unreleasable_loop s cands =
     (if list_ex (can_release s cands) cands
      then unreleasable_loop s (filter (\<lambda>i. \<not> can_release s cands i) cands) else cands)"
  by pat_completeness auto
termination
  by (relation "measure (\<lambda>(s, cands). length cands)")
     (auto simp: list_ex_iff intro: length_filter_less)

declare unreleasable_loop.simps [simp del]

definition unreleasable_semaphores :: "(sid \<times> tid list) list \<Rightarrow> sched \<Rightarrow> (sid \<times> tid list) list" where
  "unreleasable_semaphores blocked s =
     (let doomed = unreleasable_loop s (map fst blocked)
      in filter (\<lambda>(i, ts). i \<in> set doomed) blocked)"

text \<open>\<open>raise_if_semaphore_cycle_unresolvable\<close>: the error it raises, if any.\<close>

definition semaphore_cycle_error :: "(sid \<times> tid list) list \<Rightarrow> sched \<Rightarrow> exc option" where
  "semaphore_cycle_error blocked s =
     (if blocked = [] then None
      else let doomed = unreleasable_semaphores blocked s
           in if doomed \<noteq> [] then Some (raised (SchedulerDeadlockError doomed [])) else None)"

definition pending_external :: "sched \<Rightarrow> waitable \<Rightarrow> bool" where
  "pending_external s key =
     (case key of WTask t \<Rightarrow> False
      | WPromise p \<Rightarrow> (case dget (promises s) p of None \<Rightarrow> False
                       | Some m \<Rightarrow> p_external m \<and> \<not> terminal (p_status m)))"

definition has_pending_external_waiters :: "sched \<Rightarrow> bool" where
  "has_pending_external_waiters s =
     list_ex (\<lambda>(key, ws). pending_external s key \<and>
                list_ex (\<lambda>w. \<not> is_owner_cancelled s (waiter_owner w)) ws) (waiters s)"

text \<open>The error \<open>pick_next\<close> raises when its heap is empty, if any.\<close>

definition idle_error :: "(sid \<times> tid list) list \<Rightarrow> sched \<Rightarrow> exc option" where
  "idle_error blocked s =
     (if \<not> has_pending_external_waiters s then
        (let parked = live_parked_waiter_summary True s
         in if blocked \<noteq> [] \<or> parked \<noteq> []
            then Some (raised (SchedulerDeadlockError blocked parked)) else None)
      else semaphore_cycle_error blocked s)"

section \<open>The dispatch loop\<close>

datatype picked =
    PStart tid prog        \<comment> \<open>\<open>make_handler(tid)(wrap_task(tid, prog))\<close>\<close>
  | PTransfer cont val
  | PThrow cont val
  | PPureNone
  | PBlocked               \<comment> \<open>still inside a blocking \<open>get\<close>: no completion ever arrives\<close>

text \<open>One blocking wait followed by \<open>drain()\<close>; \<open>False\<close> when nothing ever arrives.\<close>

definition block_for_external :: "bool sch" where
  "block_for_external =
     py_bind drain_one_external (\<lambda>ok. if ok then py_bind drain (\<lambda>_. py_ret True) else py_ret False)"

text \<open>The \<open>finally\<close> block: held heap tuples go back with their original keys.\<close>

definition restore_held ::
    "(int, entry) heap_item list \<Rightarrow> exc + picked \<Rightarrow> sched \<Rightarrow> (exc + picked) \<times> sched" where
  "restore_held held r s = (r, s\<lparr>ready := fold heappush held (ready s)\<rparr>)"

text \<open>\<open>tasks[tid]\<close> turned running, its program and boundaries popped and reinstalled.\<close>

definition start_task :: "tid \<Rightarrow> task_meta \<Rightarrow> sched \<Rightarrow> (exc + picked) \<times> sched" where
  "start_task t m s =
     (case t_program m of
        None \<Rightarrow> (Inl (raised (KeyError ''program'')), s\<lparr>tasks := dput t (m\<lparr>t_status := Running\<rparr>) (tasks s)\<rparr>)
      | Some p \<Rightarrow>
          (case reinstall_boundaries p (case t_boundaries m of None \<Rightarrow> [] | Some bs \<Rightarrow> bs) of
             Inl e \<Rightarrow> Inl e | Inr p' \<Rightarrow> Inr (PStart t p'),
           s\<lparr>tasks := dput t (m\<lparr>t_status := Running, t_program := None, t_boundaries := None\<rparr>)
                        (tasks s)\<rparr>))"

primrec is_wait_external :: "entry \<Rightarrow> bool" where
  "is_wait_external (ENew t) = False"
| "is_wait_external (EResume w k v) = False"
| "is_wait_external (ESemResume w k i) = False"
| "is_wait_external (ERaise w k e) = False"
| "is_wait_external (EWaitExternal w k wk c) = True"

text \<open>
  The deadlock check of the \<open>wait_external\<close> branch. It runs only when nothing at all is
  runnable, and prunes cancelled semaphore waiters as it goes.
\<close>

definition placeholder_deadlock :: "sched \<Rightarrow> exc option \<times> sched" where
  "placeholder_deadlock s =
     (if has_live_ready_entry True s then (None, s)
      else let (blocked, s') = live_semaphore_waiters s in (semaphore_cycle_error blocked s', s'))"

lemma block_for_external_msgs:
  assumes "block_for_external s = (Inr True, s')"
  shows "msgs s' < msgs s"
proof -
  obtain s1 where one: "drain_one_external s = (Inr True, s1)" and "drain s1 = (Inr (), s')"
    using assms unfolding block_for_external_def py_bind_eq_Inr
    by (auto split: if_splits simp: py_bind_eq_Inr)
  then show ?thesis using drain_one_external_msgs [OF one] drain_msgs [of s1] by fastforce
qed

lemma live_semaphore_waiters_msgs: "live_semaphore_waiters s = (b, s') \<Longrightarrow> msgs s' = msgs s"
  by (auto simp: live_semaphore_waiters_def msgs_def)

lemma placeholder_deadlock_msgs: "placeholder_deadlock s = (e, s') \<Longrightarrow> msgs s' = msgs s"
  by (auto simp: placeholder_deadlock_def split: if_splits prod.splits dest: live_semaphore_waiters_msgs)

lemma msgs_ready [simp]: "msgs (s\<lparr>ready := r\<rparr>) = msgs s"
  by (simp add: msgs_def)

lemma work_load_ready [simp]: "work_load (s\<lparr>ready := r\<rparr>) = length r + 2 * parked_load s"
  by (simp add: work_load_def parked_load_def)

lemma pop_ready_load: "ready s = it # rest \<Longrightarrow> length rest + 2 * parked_load s < work_load s"
  by (simp add: work_load_def)

lemmas loop_measures =
  block_for_external_msgs [OF sym] live_semaphore_waiters_msgs [OF sym]
  placeholder_deadlock_msgs [OF sym] return_inflight_load [OF sym]

function pick_loop ::
    "(int, entry) heap_item list \<Rightarrow> bool \<Rightarrow> sched \<Rightarrow> (exc + picked) \<times> sched" where
  "pick_loop held shield s =
     (case ready s of
        [] \<Rightarrow>
          (let (blocked, s1) = live_semaphore_waiters s in
           case idle_error blocked s1 of
             Some e \<Rightarrow> restore_held held (Inl e) s1
           | None \<Rightarrow>
               if waiters s1 = [] then restore_held held (Inr PPureNone) s1
               else (case block_for_external s1 of
                       (Inl e, s2) \<Rightarrow> restore_held held (Inl e) s2
                     | (Inr ok, s2) \<Rightarrow> if ok then pick_loop held shield s2
                                      else restore_held held (Inr PBlocked) s2))
      | it # rest \<Rightarrow>
          (let s1 = s\<lparr>ready := rest\<rparr> in
           if shield \<and> \<not> is_wait_external (hentry it) \<and> is_live_daemon_entry s1 (hentry it)
           then pick_loop (held @ [it]) shield s1
           else
             (case hentry it of
                ENew t \<Rightarrow>
                  (case dget (tasks s1) t of
                     None \<Rightarrow> restore_held held (Inl (tasks_key_error t)) s1
                   | Some m \<Rightarrow>
                       if t_status m = Cancelled then pick_loop held shield s1
                       else (case start_task t m s1 of (r, s2) \<Rightarrow> restore_held held r s2))
              | EResume w k v \<Rightarrow>
                  if is_owner_cancelled s1 w then pick_loop held shield s1
                  else restore_held held (Inr (PTransfer k v)) s1
              | ESemResume w k i \<Rightarrow>
                  if is_owner_cancelled s1 w
                  then (case return_inflight_permit i w s1 of
                          (Inl e, s2) \<Rightarrow> restore_held held (Inl e) s2
                        | (Inr u, s2) \<Rightarrow> pick_loop held shield s2)
                  else restore_held held (Inr (PTransfer k VNone)) s1
              | ERaise w k e \<Rightarrow>
                  if is_owner_cancelled s1 w then pick_loop held shield s1
                  else restore_held held (Inr (PThrow k e)) s1
              | EWaitExternal w ko wk c \<Rightarrow>
                  if cells s1 ! c \<or> is_owner_cancelled s1 w then pick_loop held shield s1
                  else if has_live_ready_entry False s1 then pick_loop (held @ [it]) True s1
                  else
                    (case placeholder_deadlock s1 of
                       (Some e, s2) \<Rightarrow> restore_held held (Inl e) s2
                     | (None, s2) \<Rightarrow>
                         (case block_for_external s2 of
                            (Inl e, s3) \<Rightarrow> restore_held held (Inl e) s3
                          | (Inr ok, s3) \<Rightarrow>
                              if \<not> ok then restore_held held (Inr PBlocked) s3
                              else pick_loop held shield
                                     (if cells s3 ! c then s3
                                      else enqueue (hentry it) PRIORITY_EXTERNAL_WAIT s3))))))"
  by pat_completeness auto
termination
proof (relation "measures [\<lambda>(held, shield, s). msgs s, \<lambda>(held, shield, s). work_load s]", goal_cases)
  case 1
  show ?case by simp
qed (auto dest!: loop_measures simp: pop_ready_load dest: pop_ready_load)

declare pick_loop.simps [simp del]

definition pick_next :: "sched \<Rightarrow> (exc + picked) \<times> sched" where
  "pick_next s =
     (case drain s of
        (Inl e, s') \<Rightarrow> (Inl e, s')
      | (Inr _, s') \<Rightarrow> pick_loop [] False s')"

end
