(* ===== verification/Sched_Handle.thy ===== *)
theory Sched_Handle
  imports Sched_Dispatch
begin

text \<open>
  The effect handler \<open>handle_scheduler_effect\<close> of \<open>scheduler.py\<close>, one definition per effect, and
  the ends of a task's wrapper \<open>wrap_task\<close>. A handler activation ends with an \<open>action\<close>: it
  resumes or throws into the continuation it was given, tail-evaluates what \<open>pick_next\<close> chose,
  or passes the effect on; \<open>Inl\<close> is an exception raised by the scheduler itself. What the
  VM reports about a continuation is the record \<open>vm\<close>, a parameter.
\<close>

record vm =
  vm_boundaries :: "cont \<Rightarrow> (string \<times> nat) list"
  vm_traceback :: "cont \<Rightarrow> (string \<times> string \<times> nat) option list"

datatype action =
    Resume cont val
  | ResumeThrow cont val
  | Dispatch picked
  | PassEffect nat cont

definition tail_pick_next :: "action sch" where
  "tail_pick_next = py_bind pick_next (\<lambda>p. py_ret (Dispatch p))"

abbreviation throw_to :: "cont \<Rightarrow> exn_kind \<Rightarrow> action sch" where
  "throw_to k e \<equiv> py_ret (ResumeThrow k (VExc (raised e)))"

section \<open>Tasks\<close>

definition spawn_site_of :: "vm \<Rightarrow> cont \<Rightarrow> string option" where
  "spawn_site_of vm k =
     (case vm_traceback vm k of
        Some (f0, f1, f2) # _ \<Rightarrow> Some (f0 @ ''  '' @ f1 @ '':'' @ nat_str f2)
      | _ \<Rightarrow> None)"

definition set_spawn_site :: "tid \<Rightarrow> string option \<Rightarrow> sched \<Rightarrow> sched" where
  "set_spawn_site t site s =
     (case dget (tasks s) t of None \<Rightarrow> s
      | Some m \<Rightarrow> s\<lparr>tasks := dput t (m\<lparr>t_spawn_site := Some site\<rparr>) (tasks s)\<rparr>)"

definition handle_spawn :: "vm \<Rightarrow> owner \<Rightarrow> cont \<Rightarrow> prog \<Rightarrow> int \<Rightarrow> bool \<Rightarrow> action sch" where
  "handle_spawn vm w k p prio daemon =
     py_bind (alloc_task p prio (vm_boundaries vm k) daemon) (\<lambda>t.
     py_bind (py_modify (set_spawn_site t (spawn_site_of vm k))) (\<lambda>_.
     py_bind (py_modify (enqueue (ENew t) prio)) (\<lambda>_.
     py_bind (py_modify (register_handle (WTask t))) (\<lambda>_.
     py_bind (enqueue_resume w k (VTask t) None) (\<lambda>_.
     tail_pick_next)))))"

definition set_task :: "tid \<Rightarrow> task_meta \<Rightarrow> sched \<Rightarrow> sched" where
  "set_task t m s = s\<lparr>tasks := dput t m (tasks s)\<rparr>"

definition get_task :: "tid \<Rightarrow> task_meta sch" where
  "get_task t = py_need (tasks_key_error t) (\<lambda>s. dget (tasks s) t)"

definition completed_meta :: "tid \<Rightarrow> result \<Rightarrow> task_meta \<Rightarrow> task_meta" where
  "completed_meta t r m =
     (case r of
        Ok v \<Rightarrow> m\<lparr>t_status := Completed, t_result := v\<rparr>
      | Err e \<Rightarrow> m\<lparr>t_status := Failed, t_result := add_spawn_boundary t (t_spawn_site m) e\<rparr>
      | OtherResult v \<Rightarrow> m\<lparr>t_status := Failed, t_result := add_spawn_boundary t (t_spawn_site m) v\<rparr>)"

definition handle_task_completed :: "tid \<Rightarrow> result \<Rightarrow> action sch" where
  "handle_task_completed t r =
     py_bind (get_task t) (\<lambda>m.
     py_bind
       (if t_status m = Cancelled then py_modify (release_task_refs t)
        else
          py_bind (py_modify (set_task t (completed_meta t r m))) (\<lambda>_.
          py_bind (wake_waiters (WTask t)) (\<lambda>_.
          py_modify (release_task_refs t))))
       (\<lambda>_. tail_pick_next))"

definition handle_cancel :: "cont \<Rightarrow> val \<Rightarrow> action sch" where
  "handle_cancel k obj =
     (case obj of
        VTask t \<Rightarrow>
          py_bind (py_gets (\<lambda>s. dget (tasks s) t)) (\<lambda>task.
          py_bind
            (case task of None \<Rightarrow> py_ret ()
             | Some m \<Rightarrow>
                 if t_status m \<in> {Pending, Running, Suspended} then
                   py_bind (py_modify (set_task t (m\<lparr>t_status := Cancelled, t_result := cancelled_error\<rparr>))) (\<lambda>_.
                   py_bind (wake_waiters (WTask t)) (\<lambda>_.
                   py_modify (release_task_refs t)))
                 else py_ret ())
            (\<lambda>_. py_ret (Resume k VNone)))
      | _ \<Rightarrow> py_raise (raised (AttributeError ''task_id'')))"

text \<open>How the body wrapped by \<open>wrap_task\<close> ended, and what the wrapper does then.\<close>

datatype body_exit =
    BodyReturned val
  | BodyRaised exc "(tb_entry list \<times> tb_entry list) option"
      \<comment> \<open>an \<open>Exception\<close>; the execution context and Python frames, or \<open>None\<close> if asking for them failed\<close>
  | BodyInterrupted exc
  | BodyClosed

datatype wrapper_exit = Performs effect | Reraises exc | Closes

definition interrupt_task :: "tid \<Rightarrow> exc \<Rightarrow> wrapper_exit sch" where
  "interrupt_task t e =
     py_bind (get_task t) (\<lambda>m.
     py_bind
       (if \<not> terminal (t_status m) then
          py_bind (py_modify (set_task t (m\<lparr>t_status := Failed, t_result := VExc e\<rparr>))) (\<lambda>_.
          py_bind (wake_waiters (WTask t)) (\<lambda>_. py_ret ()))
        else py_ret ()) (\<lambda>_.
     py_bind (py_modify (release_task_refs t)) (\<lambda>_.
     py_ret (Reraises e))))"

definition wrap_task_exit :: "tid \<Rightarrow> body_exit \<Rightarrow> wrapper_exit sch" where
  "wrap_task_exit t x =
     (case x of
        BodyReturned v \<Rightarrow> py_ret (Performs (TaskCompleted t (Ok v)))
      | BodyRaised e ctx \<Rightarrow>
          py_ret (Performs (TaskCompleted t (Err (VExc
            (case ctx of None \<Rightarrow> e | Some (vm_ctx, fs) \<Rightarrow> enrich_exception_traceback e vm_ctx fs)))))
      | BodyInterrupted e \<Rightarrow> interrupt_task t e
      | BodyClosed \<Rightarrow> py_ret Closes)"

section \<open>Waiting\<close>

text \<open>The result of a terminal waitable as an action on the waiting continuation.\<close>

definition deliver_terminal :: "cont \<Rightarrow> status \<Rightarrow> val \<Rightarrow> action" where
  "deliver_terminal k st res =
     (if st = Completed then Resume k res
      else if st = Failed then ResumeThrow k res
      else ResumeThrow k cancelled_error)"

definition external_now :: "sched \<Rightarrow> waitable \<Rightarrow> bool" where
  "external_now s wk =
     (case wk of WTask t \<Rightarrow> False
      | WPromise p \<Rightarrow> (case dget (promises s) p of None \<Rightarrow> False | Some m \<Rightarrow> p_external m))"

definition park_wait :: "owner \<Rightarrow> cont \<Rightarrow> waitable \<Rightarrow> int option \<Rightarrow> unit sch" where
  "park_wait w k wk prio =
     py_bind (py_gets (\<lambda>s. external_now s wk)) (\<lambda>ext.
       if ext then
         if prio = Some PRIORITY_IDLE then py_modify (add_waiter wk (WtWait w k None))
         else
           py_bind new_cell (\<lambda>c.
           py_bind (py_modify (add_waiter wk (WtExternal w k c prio))) (\<lambda>_.
           py_modify (enqueue (EWaitExternal w (Some k) wk c) PRIORITY_EXTERNAL_WAIT)))
       else py_modify (add_waiter wk (WtWait w k prio)))"

definition handle_wait :: "owner \<Rightarrow> cont \<Rightarrow> val \<Rightarrow> int option \<Rightarrow> action sch" where
  "handle_wait w k obj prio =
     py_bind (waitable_key obj) (\<lambda>wk.
     py_bind (waitable_status wk) (\<lambda>(st, res).
       if terminal st then py_ret (deliver_terminal k st res)
       else py_bind (park_wait w k wk prio) (\<lambda>_. tail_pick_next)))"

text \<open>The first loop of \<open>Gather\<close>: the error to throw, or the pending keys.\<close>

primrec gather_scan :: "waitable list \<Rightarrow> (val + waitable list) sch" where
  "gather_scan [] = py_ret (Inr [])"
| "gather_scan (wk # wks) =
     py_bind (waitable_status wk) (\<lambda>(st, res).
       if st = Failed then py_ret (Inl res)
       else if st = Cancelled then py_ret (Inl cancelled_error)
       else py_bind (gather_scan wks) (\<lambda>r.
              py_ret (case r of Inl e \<Rightarrow> Inl e
                      | Inr pending \<Rightarrow> Inr (if terminal st then pending else wk # pending))))"

definition new_gather :: "owner \<Rightarrow> cont \<Rightarrow> waitable list \<Rightarrow> waitable list \<Rightarrow> nat sch" where
  "new_gather w k keys pending s =
     (Inr (length (gathers s)),
      s\<lparr>gathers := gathers s @ [\<lparr>g_owner = w, g_cont = k, g_keys = keys, g_pending = pending,
          g_remaining = int (length pending), g_failure = None, g_resolved = False\<rparr>]\<rparr>)"

definition handle_gather :: "owner \<Rightarrow> cont \<Rightarrow> val list \<Rightarrow> action sch" where
  "handle_gather w k objs =
     py_bind (py_map waitable_key objs) (\<lambda>wks.
     py_bind (gather_scan wks) (\<lambda>r.
       case r of
         Inl e \<Rightarrow> py_ret (ResumeThrow k e)
       | Inr pending \<Rightarrow>
           if pending = [] then
             py_bind (gather_results wks) (\<lambda>results. py_ret (Resume k (VList results)))
           else
             py_bind (new_gather w k wks pending) (\<lambda>g.
             py_bind (py_for pending (\<lambda>wk. register_pending_waiter wk (WtGather w g) w)) (\<lambda>_.
             tail_pick_next))))"

text \<open>The first loop of \<open>Race\<close>: the first terminal competitor, or the keys of all of them.\<close>

primrec race_scan :: "val list \<Rightarrow> ((status \<times> val) + waitable list) sch" where
  "race_scan [] = py_ret (Inr [])"
| "race_scan (obj # objs) =
     py_bind (waitable_key obj) (\<lambda>wk.
     py_bind (waitable_status wk) (\<lambda>(st, res).
       if terminal st then py_ret (Inl (st, res))
       else py_bind (race_scan objs) (\<lambda>r.
              py_ret (case r of Inl x \<Rightarrow> Inl x | Inr wks \<Rightarrow> Inr (wk # wks)))))"

definition new_race :: "owner \<Rightarrow> cont \<Rightarrow> waitable list \<Rightarrow> nat sch" where
  "new_race w k pending s =
     (Inr (length (races s)),
      s\<lparr>races := races s @ [\<lparr>r_owner = w, r_cont = k, r_pending = pending, r_resolved = False\<rparr>]\<rparr>)"

definition handle_race :: "owner \<Rightarrow> cont \<Rightarrow> val list \<Rightarrow> action sch" where
  "handle_race w k objs =
     (if objs = [] then throw_to k (ValueError ''Race() requires at least one Task or Future to race'')
      else
        py_bind (race_scan objs) (\<lambda>r.
          case r of
            Inl (st, res) \<Rightarrow> py_ret (deliver_terminal k st res)
          | Inr pending \<Rightarrow>
              py_bind (new_race w k pending) (\<lambda>rc.
              py_bind (py_for pending (\<lambda>wk. register_pending_waiter wk (WtRace w rc) w)) (\<lambda>_.
              tail_pick_next))))"

section \<open>Promises\<close>

definition handle_create_promise :: "cont \<Rightarrow> action sch" where
  "handle_create_promise k =
     py_bind alloc_promise (\<lambda>p.
     py_bind (py_modify (register_handle (WPromise p))) (\<lambda>_.
     py_ret (Resume k (VPromise p))))"

definition handle_create_external_promise :: "cont \<Rightarrow> action sch" where
  "handle_create_external_promise k =
     py_bind alloc_promise (\<lambda>p.
     py_bind (py_modify (\<lambda>s. case dget (promises s) p of None \<Rightarrow> s
                             | Some m \<Rightarrow> set_promise p (m\<lparr>p_external := True\<rparr>) s)) (\<lambda>_.
     py_bind (py_modify (register_handle (WPromise p))) (\<lambda>_.
     py_ret (Resume k (VExternalPromise p)))))"

primrec status_str :: "status \<Rightarrow> string" where
  "status_str Pending = ''pending''"
| "status_str Running = ''running''"
| "status_str Suspended = ''suspended''"
| "status_str Completed = ''completed''"
| "status_str Failed = ''failed''"
| "status_str Cancelled = ''cancelled''"

definition completer_priority :: "int \<Rightarrow> int option \<Rightarrow> int" where
  "completer_priority own woken = (case woken of None \<Rightarrow> own | Some m \<Rightarrow> min own m)"

text \<open>
  The common body of \<open>CompletePromise\<close> and \<open>FailPromise\<close>: resolve, wake, and queue the completer
  at the lower of its own priority and the lowest priority it woke.
\<close>

definition resolve_and_requeue :: "status \<Rightarrow> owner \<Rightarrow> cont \<Rightarrow> pid \<Rightarrow> promise_meta \<Rightarrow> val \<Rightarrow> unit sch" where
  "resolve_and_requeue st w k p m v =
     py_bind (py_modify (set_promise p (m\<lparr>p_status := st, p_result := v\<rparr>))) (\<lambda>_.
     py_bind (wake_waiters (WPromise p)) (\<lambda>woken_min.
     py_bind (task_priority w) (\<lambda>own.
     py_bind (enqueue_resume w k VNone (Some (completer_priority own woken_min))) (\<lambda>_.
     py_ret ()))))"

definition resolve_promise :: "string \<Rightarrow> string \<Rightarrow> status \<Rightarrow> owner \<Rightarrow> cont \<Rightarrow> pid \<Rightarrow> val \<Rightarrow> action sch" where
  "resolve_promise name hint st w k p v =
     py_bind (py_need (raised (KeyError (nat_str p))) (\<lambda>s. dget (promises s) p)) (\<lambda>m.
       if p_external m then
         throw_to k (RuntimeError (name @ '' on external promise '' @ nat_str p @
           '': resolve it through ExternalPromise.'' @ hint @ ''() instead''))
       else if p_status m \<noteq> Pending then
         throw_to k (RuntimeError (name @ '' on promise '' @ nat_str p @ '' which is already '' @
           status_str (p_status m)))
       else
         py_bind (resolve_and_requeue st w k p m v) (\<lambda>_. tail_pick_next))"

definition handle_complete_promise :: "owner \<Rightarrow> cont \<Rightarrow> pid \<Rightarrow> val \<Rightarrow> action sch" where
  "handle_complete_promise = resolve_promise ''CompletePromise'' ''complete'' Completed"

definition handle_fail_promise :: "owner \<Rightarrow> cont \<Rightarrow> pid \<Rightarrow> val \<Rightarrow> action sch" where
  "handle_fail_promise = resolve_promise ''FailPromise'' ''fail'' Failed"

section \<open>Semaphores\<close>

definition handle_create_semaphore :: "cont \<Rightarrow> int \<Rightarrow> action sch" where
  "handle_create_semaphore k permits =
     (if permits < 1 then throw_to k (ValueError ''permits must be >= 1'')
      else
        py_bind fresh_id (\<lambda>i.
        py_bind (py_modify (set_sem i \<lparr>s_permits = permits, s_max_permits = permits,
                                       s_waiters = [], s_holders = []\<rparr>)) (\<lambda>_.
        py_ret (Resume k (VSemaphore i)))))"

definition handle_acquire :: "owner \<Rightarrow> cont \<Rightarrow> sid \<Rightarrow> action sch" where
  "handle_acquire w k i =
     py_bind (get_sem i) (\<lambda>sem.
       if s_permits sem > 0 then
         py_bind (py_modify (set_sem i (sem\<lparr>s_permits := s_permits sem - 1,
                                           s_holders := s_holders sem @ [w]\<rparr>))) (\<lambda>_.
         py_ret (Resume k VNone))
       else
         py_bind (py_modify (set_sem i (sem\<lparr>s_waiters := s_waiters sem @ [(w, k)]\<rparr>))) (\<lambda>_.
         tail_pick_next))"

definition handle_release :: "owner \<Rightarrow> cont \<Rightarrow> sid \<Rightarrow> action sch" where
  "handle_release w k i =
     py_bind (get_sem i) (\<lambda>_.
     py_bind (grant_permit_to_next_waiter i) (\<lambda>transferred.
     py_bind (get_sem i) (\<lambda>sem.
       if \<not> transferred \<and> s_permits sem \<ge> s_max_permits sem then
         throw_to k (RuntimeError ''semaphore released too many times'')
       else
         py_bind (py_modify (set_sem i
           (sem\<lparr>s_holders := remove1 w (s_holders sem),
                s_permits := (if transferred then s_permits sem else s_permits sem + 1)\<rparr>))) (\<lambda>_.
         py_ret (Resume k VNone)))))"

section \<open>The handler\<close>

definition introspect :: "sched \<Rightarrow> val" where
  "introspect s =
     VSizes [(''tasks'', length (tasks s)), (''promises'', length (promises s)),
             (''semaphores'', length (semaphores s)), (''waiters'', length (waiters s)),
             (''ready'', length (ready s)), (''handle_refs'', length (handle_refs s)),
             (''handle_ref_total'', sum_list (map (\<lambda>kv. length (snd kv)) (handle_refs s)))]"

definition handle_effect :: "vm \<Rightarrow> owner \<Rightarrow> effect \<Rightarrow> cont \<Rightarrow> action sch" where
  "handle_effect vm w eff k =
     (case eff of
        Spawn p prio daemon \<Rightarrow> handle_spawn vm w k p prio daemon
      | TaskCompleted t r \<Rightarrow> handle_task_completed t r
      | Wait obj prio \<Rightarrow> handle_wait w k obj prio
      | Gather objs \<Rightarrow> handle_gather w k objs
      | Race objs \<Rightarrow> handle_race w k objs
      | Cancel obj \<Rightarrow> handle_cancel k obj
      | CreatePromise \<Rightarrow> handle_create_promise k
      | CompletePromise p v \<Rightarrow> handle_complete_promise w k p v
      | FailPromise p e \<Rightarrow> handle_fail_promise w k p e
      | CreateExternalPromise \<Rightarrow> handle_create_external_promise k
      | SchedulerIntrospection \<Rightarrow> py_bind (py_gets introspect) (\<lambda>v. py_ret (Resume k v))
      | CreateSemaphore n \<Rightarrow> handle_create_semaphore k n
      | AcquireSemaphore i \<Rightarrow> handle_acquire w k i
      | ReleaseSemaphore i \<Rightarrow> handle_release w k i
      | OtherEffect e \<Rightarrow> py_ret (PassEffect e k))"

definition handle_scheduler_effect :: "vm \<Rightarrow> owner \<Rightarrow> effect \<Rightarrow> cont \<Rightarrow> action sch" where
  "handle_scheduler_effect vm w eff k = py_bind drain (\<lambda>_. handle_effect vm w eff k)"

end
