(* ===== verification/Sched_Conts.thy ===== *)
theory Sched_Conts
  imports Sched_Handle
begin

text \<open>
  Where the scheduler keeps the continuations it is responsible for, counted with their owners,
  and what every operation does to that count. A continuation is one-shot: the scheduler may
  move it between its queues but never copy it, and a cancelled task's is dropped.
\<close>

type_synonym owned = "owner \<times> cont"

primrec entry_conts :: "entry \<Rightarrow> owned multiset" where
  "entry_conts (ENew t) = {#}"
| "entry_conts (EResume w k v) = {#(w, k)#}"
| "entry_conts (ESemResume w k i) = {#(w, k)#}"
| "entry_conts (ERaise w k e) = {#(w, k)#}"
| "entry_conts (EWaitExternal w ko wk c) = {#}"

primrec waiter_conts :: "waiter \<Rightarrow> owned multiset" where
  "waiter_conts (WtWait w k p) = {#(w, k)#}"
| "waiter_conts (WtExternal w k c p) = {#(w, k)#}"
| "waiter_conts (WtGather w g c) = {#}"
| "waiter_conts (WtRace w r c) = {#}"

definition gather_conts :: "gather_state \<Rightarrow> owned multiset" where
  "gather_conts g = (if g_resolved g then {#} else {#(g_owner g, g_cont g)#})"

definition race_conts :: "race_state \<Rightarrow> owned multiset" where
  "race_conts r = (if r_resolved r then {#} else {#(r_owner r, r_cont r)#})"

definition ready_conts where "ready_conts h = msum (\<lambda>it. entry_conts (hentry it)) h"
definition parked_conts where "parked_conts ws = msum (\<lambda>kv. msum waiter_conts (snd kv)) ws"
definition sem_conts where "sem_conts ss = msum (\<lambda>kv. mset (s_waiters (snd kv))) ss"

definition conts :: "sched \<Rightarrow> owned multiset" where
  "conts s = ready_conts (ready s) + parked_conts (waiters s) + msum gather_conts (gathers s) +
             msum race_conts (races s) + sem_conts (semaphores s)"

lemma ready_conts_push [simp]: "ready_conts (heappush it h) = entry_conts (hentry it) + ready_conts h"
  unfolding ready_conts_def by (induction h) (auto simp: ac_simps)

lemma ready_conts_simps [simp]:
  "ready_conts [] = {#}" "ready_conts (it # h) = entry_conts (hentry it) + ready_conts h"
  by (simp_all add: ready_conts_def)

lemma ready_conts_restore [simp]: "ready_conts (fold heappush held h) = ready_conts held + ready_conts h"
  by (induction held arbitrary: h) (auto simp: ac_simps)

lemma conts_enqueue [simp]: "conts (enqueue e p s) = entry_conts e + conts s"
  by (simp add: conts_def enqueue_def ac_simps)

lemma conts_claim_cell [simp]: "conts (claim_cell c s) = conts s"
  by (simp add: conts_def claim_cell_def)

lemma conts_claim_waiter [simp]: "conts (claim_waiter w s) = conts s"
  by (simp add: claim_waiter_def split: option.split)

lemma conts_claims [simp]: "conts (fold claim_waiter ws s) = conts s"
  by (induction ws arbitrary: s) auto

lemma conts_upd_other [simp]:
  "conts (s\<lparr>tasks := ts\<rparr>) = conts s" "conts (s\<lparr>promises := ps\<rparr>) = conts s"
  "conts (s\<lparr>external_queue := q\<rparr>) = conts s" "conts (s\<lparr>arrivals := a\<rparr>) = conts s"
  "conts (s\<lparr>handle_refs := hr\<rparr>) = conts s" "conts (s\<lparr>handle_prune_at := hp\<rparr>) = conts s"
  "conts (s\<lparr>next_obj := n\<rparr>) = conts s" "conts (s\<lparr>next_id := n\<rparr>) = conts s"
  "conts (s\<lparr>cells := cs\<rparr>) = conts s" "conts (s\<lparr>obj_dead := al\<rparr>) = conts s"
  by (simp_all add: conts_def)

lemma conts_waiters_update:
  "conts (s\<lparr>waiters := ws\<rparr>) + parked_conts (waiters s) = conts s + parked_conts ws"
  by (simp add: conts_def ac_simps)

lemma conts_le_waiters: "parked_conts ws \<subseteq># parked_conts (waiters s) \<Longrightarrow> conts (s\<lparr>waiters := ws\<rparr>) \<subseteq># conts s"
  by (simp add: conts_def)

lemma parked_conts_ddel: "parked_conts (ddel key ws) \<subseteq># parked_conts ws"
  unfolding parked_conts_def by (rule msum_ddel_le)

lemma parked_conts_dput:
  assumes "dget ws wk = Some es" and "msum waiter_conts es' \<subseteq># msum waiter_conts es"
  shows "parked_conts (dput wk es' ws) \<subseteq># parked_conts ws"
  using msum_dput [OF assms(1), of "\<lambda>kv. msum waiter_conts (snd kv)" es'] assms(2)
  unfolding parked_conts_def
  by (metis snd_conv subset_mset.add_le_cancel_right subset_mset.add_left_mono)

lemma conts_withdraw_at: "conts (withdraw_at mine wk s) \<subseteq># conts s"
proof (cases "dget (waiters s) wk")
  case (Some es)
  let ?s = "fold claim_waiter (filter mine es) s"
  have le: "conts (?s\<lparr>waiters := ws\<rparr>) \<subseteq># conts s" if "parked_conts ws \<subseteq># parked_conts (waiters s)" for ws
    using conts_le_waiters [of ws ?s] that by simp
  show ?thesis
    using Some le [OF parked_conts_dput [OF Some msum_filter]] le [OF parked_conts_ddel]
    by (simp add: withdraw_at_def Let_def)
qed (simp add: withdraw_at_def)

lemma conts_fold_withdraw: "conts (fold (withdraw_at mine) wks s) \<subseteq># conts s"
  by (induction wks arbitrary: s) (auto intro: subset_mset.order_trans conts_withdraw_at)

lemma conts_remove_gather_waiters: "conts (remove_gather_waiters g s) \<subseteq># conts s"
  unfolding remove_gather_waiters_def by (rule conts_fold_withdraw)

lemma conts_remove_race_waiters: "conts (remove_race_waiters r s) \<subseteq># conts s"
  unfolding remove_race_waiters_def by (rule conts_fold_withdraw)

lemma conts_set_gather:
  "g < length (gathers s) \<Longrightarrow>
   conts (set_gather g gs s) + gather_conts (gathers s ! g) = conts s + gather_conts gs"
  using msum_list_update [of g "gathers s" gather_conts gs]
  by (simp add: conts_def set_gather_def ac_simps)

lemma conts_set_race:
  "r < length (races s) \<Longrightarrow>
   conts (set_race r rs s) + race_conts (races s ! r) = conts s + race_conts rs"
  using msum_list_update [of r "races s" race_conts rs]
  by (simp add: conts_def set_race_def ac_simps)

lemma conts_set_sem:
  assumes "dget (semaphores s) i = Some m"
  shows "conts (set_sem i m' s) + mset (s_waiters m) = conts s + mset (s_waiters m')"
  using msum_dput [OF assms, of "\<lambda>kv. mset (s_waiters (snd kv))" m']
  by (simp add: conts_def set_sem_def sem_conts_def ac_simps)

section \<open>References stay valid\<close>

primrec waiter_ok :: "sched \<Rightarrow> waiter \<Rightarrow> bool" where
  "waiter_ok s (WtWait w k p) = True"
| "waiter_ok s (WtExternal w k c p) = True"
| "waiter_ok s (WtGather w g c) = (g < length (gathers s))"
| "waiter_ok s (WtRace w r c) = (r < length (races s))"

definition refs_ok :: "sched \<Rightarrow> bool" where
  "refs_ok s \<longleftrightarrow> (\<forall>(key, ws) \<in> set (waiters s). \<forall>w \<in> set ws. waiter_ok s w)"

definition same_heaps :: "sched \<Rightarrow> sched \<Rightarrow> bool" where
  "same_heaps s0 s \<longleftrightarrow> length (gathers s) = length (gathers s0) \<and> length (races s) = length (races s0)"

lemma same_heaps_refl [simp]: "same_heaps s s"
  by (simp add: same_heaps_def)

lemma waiter_ok_heaps: "same_heaps s0 s \<Longrightarrow> waiter_ok s w = waiter_ok s0 w"
  by (cases w) (simp_all add: same_heaps_def)

lemma refs_ok_shrink:
  assumes "refs_ok s" and "same_heaps s s'" and "shrinks (waiters s') (waiters s)"
  shows "refs_ok s'"
  using assms unfolding refs_ok_def shrinks_def by (fastforce simp: waiter_ok_heaps)

lemma refs_stay:
  assumes "refs_ok s \<and> same_heaps s0 s" and "same_heaps s s'" and "shrinks (waiters s') (waiters s)"
  shows "refs_ok s' \<and> same_heaps s0 s'"
  using assms refs_ok_shrink [of s s'] by (simp add: same_heaps_def)

interpretation valid: wake_closed "\<lambda>s. refs_ok s \<and> same_heaps s0 s" for s0
  by unfold_locales
    (erule refs_stay; simp add: enqueue_def claim_cell_def set_gather_def set_race_def same_heaps_def)+

interpretation valid_delivery: deliver_closed "\<lambda>s. refs_ok s \<and> same_heaps s0 s" for s0
  by unfold_locales
    (rule valid.after_wake, (erule refs_stay; simp add: set_promise_def same_heaps_def),
     (erule refs_stay; simp add: same_heaps_def))

section \<open>The wake path\<close>

lemma enqueue_resume_conts:
  "enqueue_resume w k v pr s = (r, s') \<Longrightarrow> conts s' \<subseteq># add_mset (w, k) (conts s)"
  by (cases pr; cases w)
    (auto simp: enqueue_resume_def wake_priority_def task_priority_def py_need_def py_bind_def
      split: option.splits)

lemma enqueue_raise_conts:
  "enqueue_raise w k v pr s = (r, s') \<Longrightarrow> conts s' \<subseteq># add_mset (w, k) (conts s)"
  by (cases pr; cases w)
    (auto simp: enqueue_raise_def wake_priority_def task_priority_def py_need_def py_bind_def
      split: option.splits)

lemma some_priority_state: "snd (some_priority m s) = snd (m s)"
  by (auto simp: some_priority_def py_bind_def split: prod.splits sum.splits)

lemma queue_conts:
  "conts (snd (some_priority (enqueue_resume w k v pr) s)) \<subseteq># add_mset (w, k) (conts s)"
  "conts (snd (some_priority (enqueue_raise w k v pr) s)) \<subseteq># add_mset (w, k) (conts s)"
  using enqueue_resume_conts [of w k v pr s] enqueue_raise_conts [of w k v pr s]
  by (metis prod.collapse some_priority_state)+

lemma waitable_status_state: "waitable_status key s = (r, s') \<Longrightarrow> s' = s"
  by (auto simp: waitable_status_def py_need_def split: option.splits)

lemma gather_results_state: "gather_results keys s = (r, s') \<Longrightarrow> s' = s"
  unfolding gather_results_def
  by (induction keys arbitrary: r s')
    (auto elim!: py_bindE dest!: waitable_status_state split: prod.splits)

lemma resume_result_conts:
  "conts (snd (resume_with_waitable_result w k key pr s)) \<subseteq># add_mset (w, k) (conts s)"
  unfolding resume_with_waitable_result_def
  by (rule py_bind_split) (auto simp: queue_conts dest!: waitable_status_state)

text \<open>Resolving a live Gather or Race trades its continuation for a queued one.\<close>

lemma conts_resolve_gather:
  assumes "g < length (gathers s)" and "\<not> g_resolved (gathers s ! g)" and "g_resolved gs"
  shows "add_mset (g_owner (gathers s ! g), g_cont (gathers s ! g)) (conts (set_gather g gs s)) = conts s"
  using conts_set_gather [OF assms(1), of gs] assms(2,3) by (simp add: gather_conts_def)

lemma conts_resolve_race:
  assumes "r < length (races s)" and "\<not> r_resolved (races s ! r)" and "r_resolved rs"
  shows "add_mset (r_owner (races s ! r), r_cont (races s ! r)) (conts (set_race r rs s)) = conts s"
  using conts_set_race [OF assms(1), of rs] assms(2,3) by (simp add: race_conts_def)

lemma resolve_gather_with_error_conts:
  assumes "g < length (gathers s)"
  shows "conts (snd (resolve_gather_with_error g e s)) \<subseteq># conts s"
proof (cases "g_resolved (gathers s ! g)")
  case False
  let ?gs = "gathers s ! g"
  let ?s1 = "set_gather g (?gs\<lparr>g_resolved := True, g_failure := Some e\<rparr>) s"
  let ?s2 = "remove_gather_waiters g ?s1"
  have "conts (snd (some_priority (enqueue_raise (g_owner ?gs) (g_cont ?gs) e None) ?s2))
        \<subseteq># add_mset (g_owner ?gs, g_cont ?gs) (conts ?s2)"
    by (rule queue_conts)
  also have "\<dots> \<subseteq># add_mset (g_owner ?gs, g_cont ?gs) (conts ?s1)"
    by (simp add: conts_remove_gather_waiters)
  also have "\<dots> = conts s"
    by (rule conts_resolve_gather [OF assms False]) simp
  finally show ?thesis using False by (simp add: resolve_gather_with_error_def)
qed (simp add: resolve_gather_with_error_def)

lemma add_mset_eq_le: "add_mset x A = B \<Longrightarrow> A \<subseteq># B"
  by auto

lemma conts_count_down:
  assumes "g < length (gathers s)" and "\<not> g_resolved (gathers s ! g)"
  shows "conts (set_gather g ((gathers s ! g)\<lparr>g_remaining := n\<rparr>) s) = conts s"
  using conts_set_gather [OF assms(1), of "(gathers s ! g)\<lparr>g_remaining := n\<rparr>"] assms(2)
  by (simp add: gather_conts_def)

lemma gather_finish_conts:
  assumes "g < length (gathers s)" and "\<not> g_resolved (gathers s ! g)"
  defines "gs \<equiv> gathers s ! g"
  shows "conts (snd (py_bind (gather_results (g_keys gs)) (\<lambda>results.
           some_priority (enqueue_resume (g_owner gs) (g_cont gs) (VList results) None))
           (set_gather g (gs\<lparr>g_remaining := 0, g_resolved := True\<rparr>) s))) \<subseteq># conts s"
proof (rule py_bind_split)
  let ?s1 = "set_gather g (gs\<lparr>g_remaining := 0, g_resolved := True\<rparr>) s"
  have one: "add_mset (g_owner gs, g_cont gs) (conts ?s1) = conts s"
    unfolding gs_def by (rule conts_resolve_gather [OF assms(1,2)]) simp
  then have less: "conts ?s1 \<subseteq># conts s" by (rule add_mset_eq_le)
  show "conts (snd (Inl e, s')) \<subseteq># conts s" if "gather_results (g_keys gs) ?s1 = (Inl e, s')" for e s'
    using gather_results_state [OF that] less by simp
  show "conts (snd (some_priority (enqueue_resume (g_owner gs) (g_cont gs) (VList x) None) s')) \<subseteq># conts s"
    if "gather_results (g_keys gs) ?s1 = (Inr x, s')" for x s'
    using queue_conts(1) [of "g_owner gs" "g_cont gs" "VList x" None ?s1]
    by (simp add: gather_results_state [OF that] one)
qed

lemma wake_gather_waiter_conts:
  assumes "g < length (gathers s)"
  shows "conts (snd (wake_gather_waiter g key s)) \<subseteq># conts s"
proof (cases "g_resolved (gathers s ! g)")
  case False
  show ?thesis
    unfolding wake_gather_waiter_def by (simp only: py_bind_simps False if_False, rule py_bind_split)
       (auto dest!: waitable_status_state split: prod.splits
         simp: resolve_gather_with_error_conts [OF assms] conts_count_down [OF assms False]
           gather_finish_conts [OF assms False])
qed (simp add: wake_gather_waiter_def)

lemma wake_race_waiter_conts:
  assumes "r < length (races s)"
  shows "conts (snd (wake_race_waiter r key s)) \<subseteq># conts s"
proof (cases "r_resolved (races s ! r)")
  case False
  let ?rs = "races s ! r"
  let ?s1 = "set_race r (?rs\<lparr>r_resolved := True\<rparr>) s"
  let ?s2 = "remove_race_waiters r ?s1"
  have one: "add_mset (r_owner ?rs, r_cont ?rs) (conts ?s2) \<subseteq># conts s"
  proof -
    have "add_mset (r_owner ?rs, r_cont ?rs) (conts ?s1) = conts s"
      by (rule conts_resolve_race [OF assms False]) simp
    moreover have "conts ?s2 \<subseteq># conts ?s1" by (rule conts_remove_race_waiters)
    ultimately show ?thesis by (metis mset_subset_eq_add_mset_cancel)
  qed
  note queued = queue_conts [THEN subset_mset.order_trans, OF one]
  show ?thesis
    unfolding wake_race_waiter_def by (simp only: py_bind_simps False if_False, rule py_bind_split)
       (auto dest!: waitable_status_state split: prod.splits simp: queued)
qed (simp add: wake_race_waiter_def)

lemma wake_one_conts:
  assumes "waiter_ok s w"
  shows "conts (snd (wake_one key w s)) \<subseteq># waiter_conts w + conts s"
proof (cases w)
  case (WtWait ow k pr)
  then show ?thesis using resume_result_conts [of ow k key pr s] by (simp add: wake_one_def)
next
  case (WtExternal ow k c pr)
  then show ?thesis
    using resume_result_conts [of ow k key pr "claim_cell c s"] by (simp add: wake_one_def)
next
  case (WtGather ow g c)
  then have "g < length (gathers (claim_waiter w s))"
    using assms by (auto simp: claim_waiter_def claim_cell_def split: option.split)
  from wake_gather_waiter_conts [OF this, of key] WtGather show ?thesis by (simp add: wake_one_def)
next
  case (WtRace ow r c)
  then have "r < length (races (claim_waiter w s))"
    using assms by (auto simp: claim_waiter_def claim_cell_def split: option.split)
  from wake_race_waiter_conts [OF this, of key] WtRace show ?thesis by (simp add: wake_one_def)
qed

lemma wake_one_refs: "refs_ok s \<Longrightarrow> wake_one key w s = (r, s') \<Longrightarrow> refs_ok s' \<and> same_heaps s s'"
  using valid.wake_one_P [of s key w] by (auto simp: keeps_def dest!: spec [of _ s])

lemma wake_fold_conts:
  assumes "refs_ok s" and "\<forall>w \<in> set ws. waiter_ok s w"
  shows "conts (snd (py_fold (\<lambda>woken w. py_bind (wake_one key w) (\<lambda>q. py_ret (min_priority woken q)))
                acc ws s)) \<subseteq># msum waiter_conts ws + conts s"
  using assms
proof (induction ws arbitrary: acc s)
  case (Cons w ws)
  let ?loop = "py_fold (\<lambda>woken w. py_bind (wake_one key w) (\<lambda>q. py_ret (min_priority woken q)))"
  obtain r1 s1 where one: "wake_one key w s = (r1, s1)" by (cases "wake_one key w s")
  have c1: "conts s1 \<subseteq># waiter_conts w + conts s"
    using wake_one_conts [of s w key] Cons.prems one by simp
  have refs: "refs_ok s1" "same_heaps s s1"
    using wake_one_refs [OF Cons.prems(1) one] by auto
  have step: "conts (snd (?loop acc1 ws s1)) \<subseteq># msum waiter_conts ws + conts s1" for acc1
    by (rule Cons.IH [OF refs(1)]) (use Cons.prems(2) waiter_ok_heaps [OF refs(2)] in auto)
  show ?case
  proof (cases r1)
    case (Inl e)
    have "conts s1 \<subseteq># msum waiter_conts ws + (waiter_conts w + conts s)"
      by (rule subset_mset.add_increasing [OF _ c1]) simp
    then show ?thesis using one Inl by (simp add: py_bind_Inl ac_simps)
  next
    case (Inr q)
    have "msum waiter_conts ws + conts s1 \<subseteq># msum waiter_conts ws + (waiter_conts w + conts s)"
      using c1 by simp
    with step [of "min_priority acc q"] have
      "conts (snd (?loop (min_priority acc q) ws s1)) \<subseteq># msum waiter_conts ws + (waiter_conts w + conts s)"
      by (rule subset_mset.order_trans)
    then show ?thesis using one Inr by (simp add: py_bind_Inr ac_simps)
  qed
qed simp

lemma wake_waiters_conts:
  assumes "refs_ok s"
  shows "conts (snd (wake_waiters key s)) \<subseteq># conts s"
proof -
  let ?ws = "case dget (waiters s) key of None \<Rightarrow> [] | Some ws \<Rightarrow> ws"
  let ?s1 = "s\<lparr>waiters := ddel key (waiters s)\<rparr>"
  have ok: "refs_ok ?s1"
    by (rule refs_ok_shrink [OF assms]) (simp_all add: same_heaps_def shrinks_ddel)
  have members: "\<forall>w \<in> set ?ws. waiter_ok ?s1 w"
  proof (cases "dget (waiters s) key")
    case (Some ws)
    have heaps: "same_heaps s ?s1" by (simp add: same_heaps_def)
    show ?thesis
      using assms map_of_SomeD [OF Some] Some waiter_ok_heaps [OF heaps] by (auto simp: refs_ok_def)
  qed simp
  have "msum waiter_conts ?ws + conts ?s1 \<subseteq># conts s"
  proof (cases "dget (waiters s) key")
    case None
    then show ?thesis using conts_le_waiters [OF parked_conts_ddel] by simp
  next
    case (Some ws)
    have "parked_conts (ddel key (waiters s)) + msum waiter_conts ws \<subseteq># parked_conts (waiters s)"
      using msum_ddel [OF Some, of "\<lambda>kv. msum waiter_conts (snd kv)"] by (simp add: parked_conts_def)
    then show ?thesis using Some by (simp add: conts_def ac_simps)
  qed
  moreover have "conts (snd (wake_waiters key s)) \<subseteq># msum waiter_conts ?ws + conts ?s1"
    using wake_fold_conts [OF ok members] by (simp add: wake_waiters_def pop_waiters_def py_bind_Inr)
  ultimately show ?thesis by (meson subset_mset.order_trans)
qed

section \<open>External completions and permits\<close>

definition shrinking :: "sched \<Rightarrow> sched \<Rightarrow> bool" where
  "shrinking s s' \<longleftrightarrow> refs_ok s' \<and> conts s' \<subseteq># conts s"

lemma shrinking_trans: "shrinking s s' \<Longrightarrow> shrinking s' s'' \<Longrightarrow> shrinking s s''"
  unfolding shrinking_def by (meson subset_mset.order_trans)

lemma shrinkingD: "shrinking s s' \<Longrightarrow> refs_ok s'"
  by (simp add: shrinking_def)

lemma shrinking_same:
  "refs_ok s \<Longrightarrow> conts s' = conts s \<Longrightarrow> waiters s' = waiters s \<Longrightarrow> same_heaps s s' \<Longrightarrow> shrinking s s'"
  using refs_ok_shrink [of s s'] by (simp add: shrinking_def)

lemma wake_waiters_shrinking: "refs_ok s \<Longrightarrow> shrinking s (snd (wake_waiters key s))"
  using wake_waiters_conts [of s key] valid.wake_waiters_P [of s key]
  by (auto simp: shrinking_def keeps_def)

lemma resolve_external_shrinking:
  assumes "refs_ok s"
  shows "shrinking s (snd (resolve_external p st v s))"
proof (cases "dget (promises s) p")
  case (Some m)
  let ?s1 = "set_promise p (m\<lparr>p_status := st, p_result := v\<rparr>) s"
  have one: "shrinking s ?s1"
    by (rule shrinking_same [OF assms]) (simp_all add: set_promise_def same_heaps_def)
  then have "shrinking s (snd (wake_waiters (WPromise p) ?s1))"
    by (rule shrinking_trans [OF _ wake_waiters_shrinking [OF shrinkingD [OF one]]])
  then show ?thesis
    using Some shrinking_same [OF assms, of s]
    by (auto simp: resolve_external_def py_bind_def split: prod.splits sum.splits)
qed (use shrinking_same [OF assms, of s] in \<open>simp add: resolve_external_def\<close>)

lemma deliver_shrinking: "refs_ok s \<Longrightarrow> shrinking s (snd (deliver msg s))"
  by (cases msg) (simp_all add: resolve_external_shrinking)

lemma queue_shrinking:
  "refs_ok s \<Longrightarrow> shrinking s (s\<lparr>external_queue := q\<rparr>)"
  "refs_ok s \<Longrightarrow> shrinking s (s\<lparr>external_queue := q, arrivals := a\<rparr>)"
  by (rule shrinking_same; simp add: same_heaps_def)+

lemma fold_shrinking:
  assumes "\<And>acc x s. refs_ok s \<Longrightarrow> shrinking s (snd (f acc x s))" and "refs_ok s"
  shows "shrinking s (snd (py_fold f acc xs s))"
  using assms(2)
proof (induction xs arbitrary: acc s)
  case Nil
  then show ?case by (simp add: shrinking_same)
next
  case (Cons x xs)
  obtain r s1 where run: "f acc x s = (r, s1)" by (cases "f acc x s")
  have one: "shrinking s s1" using assms(1) [OF Cons.prems, of acc x] run by simp
  show ?case
    using run one shrinking_trans [OF one Cons.IH [OF shrinkingD [OF one]]]
    by (cases r) (simp_all add: py_bind_Inl py_bind_Inr)
qed

lemma drain_shrinking:
  assumes ok: "refs_ok s"
  shows "shrinking s (snd (drain s))"
proof -
  let ?pop = "\<lambda>s. s\<lparr>external_queue := tl (external_queue s)\<rparr>"
  let ?step = "\<lambda>_ msg. py_bind (py_modify ?pop) (\<lambda>_. deliver msg)"
  have step: "shrinking s (snd (?step acc msg s))" if "refs_ok s" for acc :: unit and msg s
    using shrinking_trans [OF queue_shrinking(1) [OF that] deliver_shrinking
        [OF shrinkingD [OF queue_shrinking(1) [OF that]]]] by simp
  have "shrinking s (snd (py_fold ?step () (external_queue s) s))"
    by (rule fold_shrinking [OF step ok])
  then show ?thesis by (simp add: drain_def py_for_def)
qed

lemma drain_one_external_shrinking: "refs_ok s \<Longrightarrow> shrinking s (snd (drain_one_external s))"
proof -
  assume ok: "refs_ok s"
  have *: "shrinking s (snd (py_bind (deliver msg) (\<lambda>_. py_ret True) s1))" if "shrinking s s1" for msg s1
    using shrinking_trans [OF that deliver_shrinking, of msg] that
    by (auto simp: py_bind_def shrinking_def split: prod.splits sum.splits)
  show ?thesis
    using ok *[OF queue_shrinking(1) [OF ok]] *[OF queue_shrinking(2) [OF ok]] shrinking_same [OF ok, of s]
    by (auto simp: drain_one_external_def split: list.splits prod.splits)
qed

lemma block_for_external_shrinking:
  assumes "refs_ok s"
  shows "shrinking s (snd (block_for_external s))"
proof -
  obtain r s1 where one: "drain_one_external s = (r, s1)" by (cases "drain_one_external s")
  have s1: "shrinking s s1" using drain_one_external_shrinking [OF assms] one by simp
  then have "shrinking s (snd (drain s1))"
    by (rule shrinking_trans [OF _ drain_shrinking [OF shrinkingD [OF s1]]])
  with s1 one show ?thesis
    by (cases r) (auto simp: block_for_external_def py_bind_def split: prod.splits sum.splits)
qed

end
