(* ===== verification/Sched_Run.thy ===== *)
theory Sched_Run
  imports Sched_Handle
begin

text \<open>
  The dispatch loop as a relation: \<open>dispatch held shield s r s'\<close> has one rule per path through
  the body of \<open>pick_next\<close>'s loop, and \<open>pick_loop_dispatch\<close> shows that the executable loop takes
  exactly these paths. Properties of the loop are proved by induction over the rules.
\<close>

definition restored :: "(int, entry) heap_item list \<Rightarrow> sched \<Rightarrow> sched" where
  "restored held s = s\<lparr>ready := fold heappush held (ready s)\<rparr>"

lemma restore_held_restored: "restore_held held r s = (r, restored held s)"
  by (simp add: restore_held_def restored_def)

text \<open>Entries the loop throws away without further ado.\<close>

primrec dead_entry :: "sched \<Rightarrow> entry \<Rightarrow> bool" where
  "dead_entry s (ENew t) = task_is s t Cancelled"
| "dead_entry s (EResume w k v) = is_owner_cancelled s w"
| "dead_entry s (ESemResume w k i) = False"
| "dead_entry s (ERaise w k e) = is_owner_cancelled s w"
| "dead_entry s (EWaitExternal w ko wk c) = (cells s ! c \<or> is_owner_cancelled s w)"

text \<open>Live daemon entries that a pending placeholder keeps back.\<close>

definition shielded :: "bool \<Rightarrow> sched \<Rightarrow> entry \<Rightarrow> bool" where
  "shielded shield s e \<longleftrightarrow> shield \<and> \<not> is_wait_external e \<and> is_live_daemon_entry s e"

text \<open>The state after the heap's least entry was popped.\<close>

definition popped :: "sched \<Rightarrow> (int, entry) heap_item \<Rightarrow> sched \<Rightarrow> bool" where
  "popped s it s1 \<longleftrightarrow> (\<exists>rest. ready s = it # rest \<and> s1 = s\<lparr>ready := rest\<rparr>)"

inductive dispatch ::
    "(int, entry) heap_item list \<Rightarrow> bool \<Rightarrow> sched \<Rightarrow> exc + picked \<Rightarrow> sched \<Rightarrow> bool" where
  IdleError: "ready s = [] \<Longrightarrow> live_semaphore_waiters s = (blocked, s1) \<Longrightarrow>
     idle_error blocked s1 = Some e \<Longrightarrow> dispatch held shield s (Inl e) (restored held s1)"
| IdleDone: "ready s = [] \<Longrightarrow> live_semaphore_waiters s = (blocked, s1) \<Longrightarrow>
     idle_error blocked s1 = None \<Longrightarrow> waiters s1 = [] \<Longrightarrow>
     dispatch held shield s (Inr PPureNone) (restored held s1)"
| IdleStuck: "ready s = [] \<Longrightarrow> live_semaphore_waiters s = (blocked, s1) \<Longrightarrow>
     idle_error blocked s1 = None \<Longrightarrow> waiters s1 \<noteq> [] \<Longrightarrow>
     block_for_external s1 = (Inr False, s2) \<Longrightarrow>
     dispatch held shield s (Inr PBlocked) (restored held s2)"
| IdleRaised: "ready s = [] \<Longrightarrow> live_semaphore_waiters s = (blocked, s1) \<Longrightarrow>
     idle_error blocked s1 = None \<Longrightarrow> waiters s1 \<noteq> [] \<Longrightarrow>
     block_for_external s1 = (Inl e, s2) \<Longrightarrow>
     dispatch held shield s (Inl e) (restored held s2)"
| IdleWoken: "ready s = [] \<Longrightarrow> live_semaphore_waiters s = (blocked, s1) \<Longrightarrow>
     idle_error blocked s1 = None \<Longrightarrow> waiters s1 \<noteq> [] \<Longrightarrow>
     block_for_external s1 = (Inr True, s2) \<Longrightarrow>
     dispatch held shield s2 r s' \<Longrightarrow> dispatch held shield s r s'"
| Hold: "popped s it s1 \<Longrightarrow> shielded shield s1 (hentry it) \<Longrightarrow>
     dispatch (held @ [it]) shield s1 r s' \<Longrightarrow> dispatch held shield s r s'"
| Skip: "popped s it s1 \<Longrightarrow> \<not> shielded shield s1 (hentry it) \<Longrightarrow> dead_entry s1 (hentry it) \<Longrightarrow>
     dispatch held shield s1 r s' \<Longrightarrow> dispatch held shield s r s'"
| NoTask: "popped s it s1 \<Longrightarrow> \<not> shielded shield s1 (hentry it) \<Longrightarrow> hentry it = ENew t \<Longrightarrow>
     dget (tasks s1) t = None \<Longrightarrow>
     dispatch held shield s (Inl (tasks_key_error t)) (restored held s1)"
| Start: "popped s it s1 \<Longrightarrow> \<not> shielded shield s1 (hentry it) \<Longrightarrow> hentry it = ENew t \<Longrightarrow>
     dget (tasks s1) t = Some m \<Longrightarrow> t_status m \<noteq> Cancelled \<Longrightarrow> start_task t m s1 = (r, s2) \<Longrightarrow>
     dispatch held shield s r (restored held s2)"
| Transfer: "popped s it s1 \<Longrightarrow> \<not> shielded shield s1 (hentry it) \<Longrightarrow> hentry it = EResume w k v \<Longrightarrow>
     \<not> is_owner_cancelled s1 w \<Longrightarrow>
     dispatch held shield s (Inr (PTransfer k v)) (restored held s1)"
| Permit: "popped s it s1 \<Longrightarrow> \<not> shielded shield s1 (hentry it) \<Longrightarrow> hentry it = ESemResume w k i \<Longrightarrow>
     \<not> is_owner_cancelled s1 w \<Longrightarrow>
     dispatch held shield s (Inr (PTransfer k VNone)) (restored held s1)"
| PermitBack: "popped s it s1 \<Longrightarrow> \<not> shielded shield s1 (hentry it) \<Longrightarrow> hentry it = ESemResume w k i \<Longrightarrow>
     is_owner_cancelled s1 w \<Longrightarrow> return_inflight_permit i w s1 = (Inr u, s2) \<Longrightarrow>
     dispatch held shield s2 r s' \<Longrightarrow> dispatch held shield s r s'"
| PermitRaised: "popped s it s1 \<Longrightarrow> \<not> shielded shield s1 (hentry it) \<Longrightarrow> hentry it = ESemResume w k i \<Longrightarrow>
     is_owner_cancelled s1 w \<Longrightarrow> return_inflight_permit i w s1 = (Inl e, s2) \<Longrightarrow>
     dispatch held shield s (Inl e) (restored held s2)"
| Throw: "popped s it s1 \<Longrightarrow> \<not> shielded shield s1 (hentry it) \<Longrightarrow> hentry it = ERaise w k e \<Longrightarrow>
     \<not> is_owner_cancelled s1 w \<Longrightarrow>
     dispatch held shield s (Inr (PThrow k e)) (restored held s1)"
| Defer: "popped s it s1 \<Longrightarrow> hentry it = EWaitExternal w ko wk c \<Longrightarrow> \<not> dead_entry s1 (hentry it) \<Longrightarrow>
     has_live_ready_entry False s1 \<Longrightarrow>
     dispatch (held @ [it]) True s1 r s' \<Longrightarrow> dispatch held shield s r s'"
| WaitDeadlock: "popped s it s1 \<Longrightarrow> hentry it = EWaitExternal w ko wk c \<Longrightarrow> \<not> dead_entry s1 (hentry it) \<Longrightarrow>
     \<not> has_live_ready_entry False s1 \<Longrightarrow> placeholder_deadlock s1 = (Some e, s2) \<Longrightarrow>
     dispatch held shield s (Inl e) (restored held s2)"
| WaitRaised: "popped s it s1 \<Longrightarrow> hentry it = EWaitExternal w ko wk c \<Longrightarrow> \<not> dead_entry s1 (hentry it) \<Longrightarrow>
     \<not> has_live_ready_entry False s1 \<Longrightarrow> placeholder_deadlock s1 = (None, s2) \<Longrightarrow>
     block_for_external s2 = (Inl e, s3) \<Longrightarrow>
     dispatch held shield s (Inl e) (restored held s3)"
| WaitStuck: "popped s it s1 \<Longrightarrow> hentry it = EWaitExternal w ko wk c \<Longrightarrow> \<not> dead_entry s1 (hentry it) \<Longrightarrow>
     \<not> has_live_ready_entry False s1 \<Longrightarrow> placeholder_deadlock s1 = (None, s2) \<Longrightarrow>
     block_for_external s2 = (Inr False, s3) \<Longrightarrow>
     dispatch held shield s (Inr PBlocked) (restored held s3)"
| WaitWoken: "popped s it s1 \<Longrightarrow> hentry it = EWaitExternal w ko wk c \<Longrightarrow> \<not> dead_entry s1 (hentry it) \<Longrightarrow>
     \<not> has_live_ready_entry False s1 \<Longrightarrow> placeholder_deadlock s1 = (None, s2) \<Longrightarrow>
     block_for_external s2 = (Inr True, s3) \<Longrightarrow>
     dispatch held shield (if cells s3 ! c then s3 else enqueue (hentry it) PRIORITY_EXTERNAL_WAIT s3) r s' \<Longrightarrow>
     dispatch held shield s r s'"

lemma shielded_external [simp]: "\<not> shielded shield s (EWaitExternal w ko wk c)"
  by (simp add: shielded_def)

lemma shielded_unfold:
  "(shield \<and> \<not> is_wait_external e \<and> is_live_daemon_entry s e) = shielded shield s e"
  by (simp add: shielded_def)

text \<open>The order in which the loop makes progress.\<close>

definition lighter :: "sched \<Rightarrow> sched \<Rightarrow> bool" where
  "lighter s' s \<longleftrightarrow> msgs s' < msgs s \<or> msgs s' = msgs s \<and> work_load s' < work_load s"

lemma lighter_induct:
  assumes "\<And>held shield s. (\<And>held' shield' s'. lighter s' s \<Longrightarrow> P held' shield' s') \<Longrightarrow> P held shield s"
  shows "P held shield s"
proof (induction s arbitrary: held shield rule: wf_induct [OF wf_measures [of "[msgs, work_load]"]])
  case (1 s)
  show ?case by (rule assms) (use 1 in \<open>auto simp: lighter_def\<close>)
qed

lemma popped_lighter: "popped s it s1 \<Longrightarrow> lighter s1 s"
  by (auto simp: popped_def lighter_def pop_ready_load)

lemma permit_lighter:
  "popped s it s1 \<Longrightarrow> return_inflight_permit i w s1 = (Inr u, s2) \<Longrightarrow> lighter s2 s"
  by (drule popped_lighter, drule return_inflight_load) (auto simp: lighter_def)

lemma idle_lighter:
  "live_semaphore_waiters s = (b, s1) \<Longrightarrow> block_for_external s1 = (Inr True, s2) \<Longrightarrow> lighter s2 s"
  by (drule live_semaphore_waiters_msgs, drule block_for_external_msgs) (simp add: lighter_def)

lemma wait_lighter:
  "popped s it s1 \<Longrightarrow> placeholder_deadlock s1 = (e, s2) \<Longrightarrow> block_for_external s2 = (Inr True, s3) \<Longrightarrow>
   lighter (if c then s3 else enqueue x p s3) s"
  by (drule placeholder_deadlock_msgs, drule block_for_external_msgs) (auto simp: lighter_def popped_def)

abbreviation loop_ok :: "(int, entry) heap_item list \<Rightarrow> bool \<Rightarrow> sched \<Rightarrow> bool" where
  "loop_ok held shield s \<equiv> (case pick_loop held shield s of (r, s') \<Rightarrow> dispatch held shield s r s')"

lemma pick_loop_idle:
  assumes "ready s = []" and IH: "\<And>held shield s'. lighter s' s \<Longrightarrow> loop_ok held shield s'"
  shows "loop_ok held shield s"
proof -
  obtain blocked s1 where live: "live_semaphore_waiters s = (blocked, s1)"
    by (cases "live_semaphore_waiters s")
  obtain rb s2 where block: "block_for_external s1 = (rb, s2)" by (cases "block_for_external s1")
  note loop = pick_loop.simps [of held shield s]
  show ?thesis
  proof (cases "idle_error blocked s1")
    case (Some e)
    then show ?thesis using assms(1) live by (simp add: loop restore_held_restored dispatch.IdleError)
  next
    case None
    show ?thesis
    proof (cases "waiters s1 = []")
      case True
      then show ?thesis using assms(1) live None
        by (simp add: loop restore_held_restored dispatch.IdleDone)
    next
      case False
      show ?thesis
        using IH [OF idle_lighter [OF live], of s2 held shield] assms(1) live None False block
          dispatch.IdleRaised [OF assms(1) live None False, of _ s2 held shield]
          dispatch.IdleStuck [OF assms(1) live None False, of s2 held shield]
          dispatch.IdleWoken [OF assms(1) live None False, of s2 held shield]
        by (cases rb) (auto simp: loop restore_held_restored)
    qed
  qed
qed

lemma pick_loop_popped:
  assumes pop: "popped s it s1" and unshielded: "\<not> shielded shield s1 (hentry it)"
    and IH: "\<And>held shield s'. lighter s' s \<Longrightarrow> loop_ok held shield s'"
  shows "loop_ok held shield s"
proof -
  from pop obtain rest where rest: "ready s = it # rest" "s1 = s\<lparr>ready := rest\<rparr>"
    by (auto simp: popped_def)
  note s1 = rest(2) [symmetric]
  note loop = pick_loop.simps [of held shield s, unfolded shielded_unfold, simplified rest(1)
      Let_def list.case s1 unshielded if_False, simplified]
  note next1 = IH [OF popped_lighter [OF pop]]
  show ?thesis
  proof (cases "hentry it")
    case (ENew t)
    show ?thesis
    proof (cases "dget (tasks s1) t")
      case None
      then show ?thesis using ENew dispatch.NoTask [OF pop unshielded ENew None, of held]
        by (simp add: loop restore_held_restored)
    next
      case (Some m)
      obtain r s2 where start: "start_task t m s1 = (r, s2)" by (cases "start_task t m s1")
      show ?thesis
        using ENew Some start next1 [of held shield]
          dispatch.Start [OF pop unshielded ENew Some _ start, of held]
          dispatch.Skip [OF pop unshielded, of held]
        by (auto simp: loop restore_held_restored task_is_def)
    qed
  next
    case (EResume w k v)
    then show ?thesis
      using next1 [of held shield] dispatch.Transfer [OF pop unshielded EResume, of held]
        dispatch.Skip [OF pop unshielded, of held]
      by (auto simp: loop restore_held_restored)
  next
    case (ERaise w k e)
    then show ?thesis
      using next1 [of held shield] dispatch.Throw [OF pop unshielded ERaise, of held]
        dispatch.Skip [OF pop unshielded, of held]
      by (auto simp: loop restore_held_restored)
  next
    case (ESemResume w k i)
    obtain r s2 where ret: "return_inflight_permit i w s1 = (r, s2)"
      by (cases "return_inflight_permit i w s1")
    show ?thesis
    proof (cases "is_owner_cancelled s1 w")
      case True
      show ?thesis
      proof (cases r)
        case (Inl e)
        with ret show ?thesis
            using ESemResume True
            dispatch.PermitRaised [OF pop unshielded ESemResume True, of e s2 held]
          by (simp add: loop restore_held_restored)
      next
        case (Inr u)
        with ret have b: "return_inflight_permit i w s1 = (Inr u, s2)" by simp
        show ?thesis
          using ESemResume True b IH [OF permit_lighter [OF pop b], of held shield]
            dispatch.PermitBack [OF pop unshielded ESemResume True b, of held]
          by (auto simp: loop)
      qed
    next
      case False
      then show ?thesis using ESemResume dispatch.Permit [OF pop unshielded ESemResume, of held]
        by (simp add: loop restore_held_restored)
    qed
  next
    case (EWaitExternal w ko wk c)
    obtain e s2 where pd: "placeholder_deadlock s1 = (e, s2)" by (cases "placeholder_deadlock s1")
    obtain r s3 where block: "block_for_external s2 = (r, s3)" by (cases "block_for_external s2")
    show ?thesis
    proof (cases "dead_entry s1 (hentry it) \<or> has_live_ready_entry False s1")
      case True
      then show ?thesis
        using EWaitExternal next1 [of held shield] next1 [of "held @ [it]" True]
          dispatch.Skip [OF pop unshielded, of held]
          dispatch.Defer [OF pop EWaitExternal, of held]
        by (auto simp: loop)
    next
      case False
      then have live: "\<not> dead_entry s1 (hentry it)" "\<not> has_live_ready_entry False s1" by simp_all
      show ?thesis
      proof (cases e)
        case (Some x)
        with live pd EWaitExternal show ?thesis
          using dispatch.WaitDeadlock [OF pop EWaitExternal live, of x s2 held]
          by (simp add: loop restore_held_restored)
      next
        case None
        with pd have pd': "placeholder_deadlock s1 = (None, s2)" by simp
        show ?thesis
          using live pd' EWaitExternal block IH [OF wait_lighter [OF pop pd', of s3 "cells s3 ! c"], of held shield "hentry it" PRIORITY_EXTERNAL_WAIT]
            dispatch.WaitRaised [OF pop EWaitExternal live pd', of _ s3 held]
            dispatch.WaitStuck [OF pop EWaitExternal live pd', of s3 held]
            dispatch.WaitWoken [OF pop EWaitExternal live pd', of s3 held]
          by (cases r) (auto simp: loop restore_held_restored)
      qed
    qed
  qed
qed

lemma pick_loop_ok: "loop_ok held shield s"
proof (induction held shield s rule: lighter_induct)
  case (1 held shield s)
  show ?case
  proof (cases "ready s")
    case Nil
    then show ?thesis by (rule pick_loop_idle [OF _ 1])
  next
    case (Cons it rest)
    then have pop: "popped s it (s\<lparr>ready := rest\<rparr>)" by (simp add: popped_def)
    show ?thesis
    proof (cases "shielded shield (s\<lparr>ready := rest\<rparr>) (hentry it)")
      case True
      then show ?thesis
        using 1 [OF popped_lighter [OF pop], of "held @ [it]" shield] Cons
          dispatch.Hold [OF pop True, of held] True
        by (auto simp: pick_loop.simps [of held shield s, unfolded shielded_unfold])
    next
      case False
      then show ?thesis by (rule pick_loop_popped [OF pop _ 1])
    qed
  qed
qed

lemma pick_loop_dispatch: "pick_loop held shield s = (r, s') \<Longrightarrow> dispatch held shield s r s'"
  using pick_loop_ok [of held shield s] by simp

text \<open>A predicate closed under the three writes of a registration survives the registration.\<close>

lemma register_keeps:
  assumes "\<And>s. P s \<Longrightarrow> P (s\<lparr>cells := cells s @ [False]\<rparr>)"
    and "\<And>s wk c. P s \<Longrightarrow> P (enqueue (EWaitExternal w None wk c) PRIORITY_EXTERNAL_WAIT s)"
    and "\<And>s c. P s \<Longrightarrow> P (add_waiter wk (mk c) s)"
  shows "keeps P (register_pending_waiter wk mk w)"
proof -
  have "keeps P (is_external wk)"
    unfolding is_external_def by (cases wk) (auto intro: keeps_intro)
  moreover have "keeps P new_cell" by (rule keepsI) (simp add: new_cell_def assms(1))
  ultimately show ?thesis
    unfolding register_pending_waiter_def by (intro keeps_intro keeps_modify assms)
qed

end
