(* ===== verification/Sched_OneShot.thy ===== *)
theory Sched_OneShot
  imports Sched_Conts Sched_Run
begin

text \<open>
  Continuations are one-shot. Every handler activation, whatever it does to the queues and
  however many entries \<open>pick_next\<close> goes through, hands over at most one continuation, one the
  scheduler held (or the one it was just given), gives it up, and never hands over a cancelled
  task's.
\<close>

section \<open>Permits and the diagnostics\<close>

lemma pop_live_conts:
  "pop_live_semaphore_waiter s ws = (found, rest) \<Longrightarrow>
   (case found of None \<Rightarrow> {#} | Some w \<Rightarrow> {#w#}) + mset rest \<subseteq># mset ws"
proof (induction s ws arbitrary: found rest rule: pop_live_semaphore_waiter.induct)
  case (2 s w k ws)
  show ?case
  proof (cases "is_owner_cancelled s w")
    case True
    with 2 have "(case found of None \<Rightarrow> {#} | Some w \<Rightarrow> {#w#}) + mset rest \<subseteq># mset ws" by simp
    then have "(case found of None \<Rightarrow> {#} | Some w \<Rightarrow> {#w#}) + mset rest \<subseteq># {#(w, k)#} + mset ws"
      by (rule subset_mset.add_increasing [rotated]) simp
    then show ?thesis by simp
  qed (use 2 in auto)
qed simp

lemma refs_set_sem: "refs_ok (set_sem i m s) = refs_ok s"
proof -
  have "same_heaps s (set_sem i m s)" by (simp add: same_heaps_def set_sem_def)
  from waiter_ok_heaps [OF this] show ?thesis by (simp add: refs_ok_def set_sem_def)
qed

lemma refs_enqueue: "refs_ok (enqueue e p s) = refs_ok s"
proof -
  have "same_heaps s (enqueue e p s)" by (simp add: same_heaps_def enqueue_def)
  from waiter_ok_heaps [OF this] show ?thesis by (simp add: refs_ok_def enqueue_def)
qed

lemma conts_set_sem_le:
  assumes "dget (semaphores s) i = Some m" and "C + mset (s_waiters m') \<subseteq># mset (s_waiters m)"
  shows "C + conts (set_sem i m' s) \<subseteq># conts s"
proof -
  have "C + conts (set_sem i m' s) + mset (s_waiters m) = (C + mset (s_waiters m')) + conts s"
    using conts_set_sem [OF assms(1), of m'] by (simp add: ac_simps)
  also have "\<dots> \<subseteq># mset (s_waiters m) + conts s" using assms(2) by simp
  finally show ?thesis by (simp add: ac_simps)
qed

lemma grant_shrinking:
  assumes "refs_ok s" and "grant_permit_to_next_waiter i s = (r, s')"
  shows "shrinking s s'"
  using assms(2)
proof (cases rule: grant_cases)
  case (NoSemaphore e)
  then show ?thesis using shrinking_same [OF assms(1), of s] by simp
next
  case (NoWaiter sem rest)
  then show ?thesis
    using conts_set_sem_le [OF NoWaiter(1), of "{#}" "sem\<lparr>s_waiters := rest\<rparr>"]
      pop_live_conts [OF NoWaiter(2)] assms(1) by (simp add: shrinking_def refs_set_sem)
next
  case (Granted sem w k rest p)
  then show ?thesis
    using conts_set_sem_le [OF Granted(1), of "{#(w, k)#}"
        "sem\<lparr>s_waiters := rest, s_holders := s_holders sem @ [w]\<rparr>"]
      pop_live_conts [OF Granted(2)] assms(1) by (simp add: shrinking_def refs_set_sem refs_enqueue)
next
  case (UnknownTask sem w k rest e)
  have "mset rest \<subseteq># mset (s_waiters sem)"
    using pop_live_conts [OF UnknownTask(2)] by (auto dest: mset_subset_eq_insertD)
  then show ?thesis
    using UnknownTask(5) assms(1) conts_set_sem_le [OF UnknownTask(1), of "{#}"
        "sem\<lparr>s_waiters := rest, s_holders := s_holders sem @ [w]\<rparr>"]
    by (simp add: shrinking_def refs_set_sem)
qed

lemma set_sem_same_waiters:
  assumes "refs_ok s" and "dget (semaphores s) i = Some m" and "s_waiters m' = s_waiters m"
  shows "shrinking s (set_sem i m' s)"
  using conts_set_sem_le [OF assms(2), of "{#}" m'] assms by (simp add: shrinking_def refs_set_sem)

lemma return_inflight_shrinking:
  assumes "refs_ok s" and "return_inflight_permit i w s = (r, s')"
  shows "shrinking s s'"
  using assms(2)
proof (cases rule: return_inflight_cases)
  case (Passed sem s1)
  have one: "shrinking s s1"
    unfolding Passed(3) by (rule set_sem_same_waiters [OF assms(1) Passed(1)]) simp
  then show ?thesis by (rule shrinking_trans) (rule grant_shrinking [OF shrinkingD [OF one] Passed(4)])
next
  case (Failed sem s1 e)
  have one: "shrinking s s1"
    unfolding Failed(3) by (rule set_sem_same_waiters [OF assms(1) Failed(1)]) simp
  then show ?thesis by (rule shrinking_trans) (rule grant_shrinking [OF shrinkingD [OF one] Failed(4)])
next
  case (Banked sem s1 s2 sem')
  have one: "shrinking s s1"
    unfolding Banked(3) by (rule set_sem_same_waiters [OF assms(1) Banked(1)]) simp
  have two: "shrinking s1 s2" by (rule grant_shrinking [OF shrinkingD [OF one] Banked(4)])
  have "shrinking s2 s'"
    unfolding Banked(7) by (rule set_sem_same_waiters [OF shrinkingD [OF two] Banked(5)]) simp
  with one two show ?thesis by (meson shrinking_trans)
qed (use shrinking_same [OF assms(1), of s] in simp_all)

lemma live_semaphore_waiters_shrinking:
  assumes "refs_ok s" and "live_semaphore_waiters s = (b, s')"
  shows "shrinking s s'"
proof -
  have s': "s' = s\<lparr>semaphores := map (\<lambda>(i, sem). (i, sem\<lparr>s_waiters := live_sem_waiters s sem\<rparr>)) (semaphores s)\<rparr>"
    using assms(2) by (simp add: live_semaphore_waiters_def)
  have "sem_conts (semaphores s') \<subseteq># sem_conts (semaphores s)"
    unfolding sem_conts_def s'
    by (auto simp: msum_map live_sem_waiters_def comp_def mset_filter intro!: msum_mono)
  moreover have "refs_ok s'"
    by (rule refs_ok_shrink [OF assms(1)]) (simp_all add: s' same_heaps_def)
  ultimately show ?thesis by (simp add: shrinking_def conts_def s')
qed

lemma placeholder_deadlock_shrinking:
  "refs_ok s \<Longrightarrow> placeholder_deadlock s = (e, s') \<Longrightarrow> shrinking s s'"
  using live_semaphore_waiters_shrinking [of s _ s'] shrinking_same [of s s]
  by (auto simp: placeholder_deadlock_def split: if_splits prod.splits)

lemma start_task_shrinking: "refs_ok s \<Longrightarrow> start_task t m s = (r, s') \<Longrightarrow> shrinking s s'"
  by (rule shrinking_same) (auto simp: start_task_def same_heaps_def split: option.splits)

lemma start_task_result:
  "start_task t m s = (r, s') \<Longrightarrow> task_is s' t Running \<and> ((\<exists>e. r = Inl e) \<or> (\<exists>p. r = Inr (PStart t p)))"
  by (auto simp: start_task_def task_is_def split: option.splits sum.splits)

section \<open>The dispatch loop\<close>

text \<open>
  What may come out of the loop when the continuations in \<open>C\<close> were the scheduler's: a transfer
  or a throw takes one of them, of an owner that is not cancelled, and the rest stays.
\<close>

definition spends :: "owned multiset \<Rightarrow> exc + picked \<Rightarrow> sched \<Rightarrow> bool" where
  "spends C r s' \<longleftrightarrow> (case r of
      Inr (PTransfer k v) \<Rightarrow> \<exists>w. \<not> is_owner_cancelled s' w \<and> add_mset (w, k) (conts s') \<subseteq># C
    | Inr (PThrow k e) \<Rightarrow> \<exists>w. \<not> is_owner_cancelled s' w \<and> add_mset (w, k) (conts s') \<subseteq># C
    | Inr (PStart t p) \<Rightarrow> task_is s' t Running \<and> conts s' \<subseteq># C
    | _ \<Rightarrow> conts s' \<subseteq># C)"

lemma spends_mono: "spends C r s' \<Longrightarrow> C \<subseteq># D \<Longrightarrow> spends D r s'"
  unfolding spends_def by (auto split: sum.splits picked.splits intro: subset_mset.order_trans)

lemma conts_restored: "conts (restored held s) = ready_conts held + conts s"
  by (simp add: restored_def conts_def ac_simps)

lemma refs_restored [simp]: "refs_ok (restored held s) = refs_ok s"
proof -
  have "same_heaps s (restored held s)" by (simp add: same_heaps_def restored_def)
  from waiter_ok_heaps [OF this] show ?thesis by (simp add: refs_ok_def restored_def)
qed

lemma cancelled_restored [simp]: "is_owner_cancelled (restored held s) w = is_owner_cancelled s w"
  by (cases w) (simp_all add: restored_def is_owner_cancelled_def)

lemma task_is_restored [simp]: "task_is (restored held s) t st = task_is s t st"
  by (simp add: restored_def task_is_def)

lemma popped_conts: "popped s it s1 \<Longrightarrow> conts s = entry_conts (hentry it) + conts s1"
  by (auto simp: popped_def conts_def ac_simps)

lemma popped_shrinking:
  assumes "refs_ok s" and "popped s it s1"
  shows "shrinking s s1"
proof -
  have "refs_ok s1"
    by (rule refs_ok_shrink [OF assms(1)]) (use assms(2) in \<open>auto simp: popped_def same_heaps_def\<close>)
  then show ?thesis using popped_conts [OF assms(2)] by (simp add: shrinking_def)
qed

text \<open>The end of a path: what was spent, seen from the state in which the path began.\<close>

lemma spends_after:
  assumes "shrinking s s1" and "refs_ok s1 \<Longrightarrow> refs_ok s' \<and> spends (ready_conts held + conts s1) r s'"
  shows "refs_ok s' \<and> spends (ready_conts held + conts s) r s'"
  using assms spends_mono [of "ready_conts held + conts s1" r s' "ready_conts held + conts s"]
  by (auto simp: shrinking_def)

lemma spends_nothing:
  assumes "shrinking s s1" and "\<And>k v. r \<noteq> Inr (PTransfer k v)" and "\<And>k v. r \<noteq> Inr (PThrow k v)"
    and "\<And>t p. r = Inr (PStart t p) \<Longrightarrow> task_is s1 t Running"
  shows "refs_ok (restored held s1) \<and> spends (ready_conts held + conts s) r (restored held s1)"
  using assms by (auto simp: shrinking_def spends_def conts_restored split: sum.splits picked.splits)

lemmas path_shrinking =
  live_semaphore_waiters_shrinking placeholder_deadlock_shrinking popped_shrinking
  return_inflight_shrinking start_task_shrinking

lemma block_shrinking: "refs_ok s \<Longrightarrow> block_for_external s = (r, s') \<Longrightarrow> shrinking s s'"
  using block_for_external_shrinking [of s] by simp

lemma shrinking_two: "refs_ok s \<Longrightarrow> (refs_ok s \<Longrightarrow> shrinking s s1) \<Longrightarrow> (refs_ok s1 \<Longrightarrow> shrinking s1 s2) \<Longrightarrow> shrinking s s2"
  by (meson shrinkingD shrinking_trans)

lemma dispatch_spends:
  assumes "dispatch held shield s r s'" and "refs_ok s"
  shows "refs_ok s' \<and> spends (ready_conts held + conts s) r s'"
  using assms
proof (induction rule: dispatch.induct)
  case (IdleError s blocked s1 e held shield)
  show ?case by (rule spends_nothing [OF path_shrinking(1) [OF IdleError.prems IdleError.hyps(2)]]) simp_all
next
  case (IdleDone s blocked s1 held shield)
  show ?case by (rule spends_nothing [OF path_shrinking(1) [OF IdleDone.prems IdleDone.hyps(2)]]) simp_all
next
  case (IdleStuck s blocked s1 s2 held shield)
  have "shrinking s s2"
    by (rule shrinking_two [OF IdleStuck.prems path_shrinking(1) [OF _ IdleStuck.hyps(2)] block_shrinking [OF _ IdleStuck.hyps(5)]])
  then show ?case by (rule spends_nothing) simp_all
next
  case (IdleRaised s blocked s1 e s2 held shield)
  have "shrinking s s2"
    by (rule shrinking_two [OF IdleRaised.prems path_shrinking(1) [OF _ IdleRaised.hyps(2)] block_shrinking [OF _ IdleRaised.hyps(5)]])
  then show ?case by (rule spends_nothing) simp_all
next
  case (IdleWoken s blocked s1 s2 held shield r s')
  have "shrinking s s2"
    by (rule shrinking_two [OF IdleWoken.prems path_shrinking(1) [OF _ IdleWoken.hyps(2)] block_shrinking [OF _ IdleWoken.hyps(5)]])
  then show ?case by (rule spends_after) (rule IdleWoken.IH)
next
  case (Hold s it s1 shield held r s')
  have "refs_ok s1" by (rule shrinkingD [OF popped_shrinking [OF Hold.prems Hold.hyps(1)]])
  with Hold.IH popped_conts [OF Hold.hyps(1)] show ?case by (simp add: ready_conts_def ac_simps)
next
  case (Skip s it s1 shield held r s')
  show ?case by (rule spends_after [OF popped_shrinking [OF Skip.prems Skip.hyps(1)] Skip.IH])
next
  case (NoTask s it s1 shield t held)
  show ?case by (rule spends_nothing [OF popped_shrinking [OF NoTask.prems NoTask.hyps(1)]]) simp_all
next
  case (Start s it s1 shield t m r s2 held)
  have "shrinking s s2"
    by (rule shrinking_two [OF Start.prems popped_shrinking [OF _ Start.hyps(1)] start_task_shrinking [OF _ Start.hyps(6)]])
  then show ?case by (rule spends_nothing) (use start_task_result [OF Start.hyps(6)] in auto)
next
  case (Transfer s it s1 shield w k v held)
  then show ?case
    using popped_conts [OF Transfer.hyps(1)] popped_shrinking [OF Transfer.prems Transfer.hyps(1)]
    by (auto simp: spends_def conts_restored shrinking_def intro!: exI [of _ w])
next
  case (Permit s it s1 shield w k i held)
  then show ?case
    using popped_conts [OF Permit.hyps(1)] popped_shrinking [OF Permit.prems Permit.hyps(1)]
    by (auto simp: spends_def conts_restored shrinking_def intro!: exI [of _ w])
next
  case (PermitBack s it s1 shield w k i u s2 held r s')
  have "shrinking s s2"
    by (rule shrinking_two [OF PermitBack.prems popped_shrinking [OF _ PermitBack.hyps(1)] path_shrinking(4) [OF _ PermitBack.hyps(5)]])
  then show ?case by (rule spends_after) (rule PermitBack.IH)
next
  case (PermitRaised s it s1 shield w k i e s2 held)
  have "shrinking s s2"
    by (rule shrinking_two [OF PermitRaised.prems popped_shrinking [OF _ PermitRaised.hyps(1)] path_shrinking(4) [OF _ PermitRaised.hyps(5)]])
  then show ?case by (rule spends_nothing) simp_all
next
  case (Throw s it s1 shield w k e held)
  then show ?case
    using popped_conts [OF Throw.hyps(1)] popped_shrinking [OF Throw.prems Throw.hyps(1)]
    by (auto simp: spends_def conts_restored shrinking_def intro!: exI [of _ w])
next
  case (Defer s it s1 w ko wk c held r s' shield)
  have "refs_ok s1" by (rule shrinkingD [OF popped_shrinking [OF Defer.prems Defer.hyps(1)]])
  with Defer.IH popped_conts [OF Defer.hyps(1)] Defer.hyps(2) show ?case by (simp add: ready_conts_def ac_simps)
next
  case (WaitDeadlock s it s1 w ko wk c e s2 held shield)
  have "shrinking s s2"
    by (rule shrinking_two [OF WaitDeadlock.prems popped_shrinking [OF _ WaitDeadlock.hyps(1)] path_shrinking(2) [OF _ WaitDeadlock.hyps(5)]])
  then show ?case by (rule spends_nothing) simp_all
next
  case (WaitRaised s it s1 w ko wk c s2 e s3 held shield)
  have "shrinking s s2"
    by (rule shrinking_two [OF WaitRaised.prems popped_shrinking [OF _ WaitRaised.hyps(1)] path_shrinking(2) [OF _ WaitRaised.hyps(5)]])
  then have "shrinking s s3" by (rule shrinking_two [OF WaitRaised.prems _ block_shrinking [OF _ WaitRaised.hyps(6)]])
  then show ?case by (rule spends_nothing) simp_all
next
  case (WaitStuck s it s1 w ko wk c s2 s3 held shield)
  have "shrinking s s2"
    by (rule shrinking_two [OF WaitStuck.prems popped_shrinking [OF _ WaitStuck.hyps(1)] path_shrinking(2) [OF _ WaitStuck.hyps(5)]])
  then have "shrinking s s3" by (rule shrinking_two [OF WaitStuck.prems _ block_shrinking [OF _ WaitStuck.hyps(6)]])
  then show ?case by (rule spends_nothing) simp_all
next
  case (WaitWoken s it s1 w ko wk c s2 s3 held shield r s')
  have "shrinking s s2"
    by (rule shrinking_two [OF WaitWoken.prems popped_shrinking [OF _ WaitWoken.hyps(1)] path_shrinking(2) [OF _ WaitWoken.hyps(5)]])
  then have "shrinking s s3" by (rule shrinking_two [OF WaitWoken.prems _ block_shrinking [OF _ WaitWoken.hyps(6)]])
  then have "shrinking s (if cells s3 ! c then s3 else enqueue (hentry it) PRIORITY_EXTERNAL_WAIT s3)"
    using WaitWoken.hyps(2) by (simp add: shrinking_def refs_enqueue)
  then show ?case by (rule spends_after) (rule WaitWoken.IH)
qed

lemma pick_next_spends:
  assumes "refs_ok s" and "pick_next s = (r, s')"
  shows "refs_ok s' \<and> spends (conts s) r s'"
proof -
  obtain d s1 where drained: "drain s = (d, s1)" by (cases "drain s")
  have s1: "shrinking s s1" using drain_shrinking [OF assms(1)] drained by simp
  show ?thesis
  proof (cases d)
    case (Inl e)
    then show ?thesis using assms(2) drained s1 by (auto simp: pick_next_def shrinking_def spends_def)
  next
    case (Inr u)
    then have "dispatch [] False s1 r s'"
      using assms(2) drained by (auto simp: pick_next_def intro: pick_loop_dispatch)
    from dispatch_spends [OF this shrinkingD [OF s1]] show ?thesis
      using spends_mono s1 by (auto simp: shrinking_def)
  qed
qed

end
