(* ===== verification/Sched_Spend.thy ===== *)
theory Sched_Spend
  imports Sched_OneShot
begin

text \<open>
  The effect handler hands over at most one continuation: the triples below carry the bound on
  what the scheduler holds through every handler of \<open>handle_scheduler_effect\<close>.
\<close>

definition within :: "owned multiset \<Rightarrow> sched \<Rightarrow> bool" where
  "within C s \<longleftrightarrow> refs_ok s \<and> conts s \<subseteq># C"

definition offers :: "owned multiset \<Rightarrow> exc + action \<Rightarrow> sched \<Rightarrow> bool" where
  "offers C r s' \<longleftrightarrow> (case r of
      Inr (Resume k v) \<Rightarrow> \<exists>w. add_mset (w, k) (conts s') \<subseteq># C
    | Inr (ResumeThrow k e) \<Rightarrow> \<exists>w. add_mset (w, k) (conts s') \<subseteq># C
    | Inr (PassEffect e k) \<Rightarrow> \<exists>w. add_mset (w, k) (conts s') \<subseteq># C
    | Inr (Dispatch p) \<Rightarrow> spends C (Inr p) s'
    | Inl e \<Rightarrow> conts s' \<subseteq># C)"

abbreviation answers :: "owned multiset \<Rightarrow> action sch \<Rightarrow> owned multiset \<Rightarrow> bool" where
  "answers D m C \<equiv> triple (within D) m (\<lambda>a s. refs_ok s \<and> offers C (Inr a) s) (\<lambda>_. within C)"

abbreviation stays :: "owned multiset \<Rightarrow> 'a sch \<Rightarrow> bool" where
  "stays C m \<equiv> keeps (within C) m"

lemma within_mono: "within C s \<Longrightarrow> C \<subseteq># D \<Longrightarrow> within D s"
  by (auto simp: within_def)

lemma within_add: "within C s \<Longrightarrow> within (add_mset x C) s"
  by (erule within_mono) (rule add_mset_eq_le [OF refl])

lemma shrinking_stays: "(\<And>s. refs_ok s \<Longrightarrow> shrinking s (snd (m s))) \<Longrightarrow> stays C m"
  by (rule keepsI) (auto simp: within_def shrinking_def intro: subset_mset.order_trans)

lemma within_frame:
  "within C s \<Longrightarrow> conts s' = conts s \<Longrightarrow> waiters s' = waiters s \<Longrightarrow> same_heaps s s' \<Longrightarrow> within C s'"
  using refs_ok_shrink [of s s'] by (simp add: within_def)

lemma within_frame_modify:
  "(\<And>s. conts (h s) = conts s \<and> waiters (h s) = waiters s \<and> same_heaps s (h s)) \<Longrightarrow> stays C (py_modify h)"
  by (rule keeps_modify) (meson within_frame)

named_theorems stays_intro "operations that hold on to nothing new"

lemmas stays_wake [stays_intro] = shrinking_stays [OF wake_waiters_shrinking]
lemmas stays_drain [stays_intro] = shrinking_stays [OF drain_shrinking]

lemma stays_grant [stays_intro]: "stays C (grant_permit_to_next_waiter i)"
  by (rule shrinking_stays, erule grant_shrinking) (rule prod.collapse [symmetric])

lemma forget_conts [simp]:
  "conts (forget_handles ks s) = conts s" "waiters (forget_handles ks s) = waiters s"
  "same_heaps s0 (forget_handles ks s) = same_heaps s0 s"
  by (simp_all add: forget_handles_def same_heaps_def)

lemma sweep_conts [simp]:
  "conts (sweep_terminal_unobserved_entries s) = conts s"
  "waiters (sweep_terminal_unobserved_entries s) = waiters s"
  "same_heaps s0 (sweep_terminal_unobserved_entries s) = same_heaps s0 s"
  by (simp_all add: sweep_terminal_unobserved_entries_def sweep_tasks_def sweep_promises_def Let_def
      same_heaps_def forget_handles_def)

lemma same_heaps_next_id: "same_heaps s (s\<lparr>next_id := n\<rparr>)"
  by (simp add: same_heaps_def)

lemma stays_fresh_id [stays_intro]: "stays C fresh_id"
  by (rule keepsI, erule within_frame) (simp_all add: fresh_id_def Let_def same_heaps_next_id)

lemma enqueue_fields:
  "waiters (enqueue e p s) = waiters s" "gathers (enqueue e p s) = gathers s"
  "races (enqueue e p s) = races s"
  by (simp_all add: enqueue_def)

lemma stays_frames [stays_intro]:
  "stays C (py_modify (set_task t m))" "stays C (py_modify (release_task_refs t))"
  "stays C (py_modify (set_spawn_site t site))" "stays C (py_modify (register_handle key))"
  "stays C (py_modify (set_promise p pm))" "stays C (py_modify (enqueue (ENew t) prio))"
  "stays C (py_modify (\<lambda>s. s\<lparr>tasks := dput t tm (tasks s)\<rparr>))"
  "stays C (py_modify (\<lambda>s. s\<lparr>promises := dput p pm (promises s)\<rparr>))"
  by (rule within_frame_modify;
      simp add: set_task_def release_task_refs_def set_spawn_site_def register_handle_def
        set_promise_def Let_def same_heaps_def enqueue_fields split: option.split)+

section \<open>Steps of the handlers\<close>

lemma stays_triple: "stays D m \<Longrightarrow> D \<subseteq># C \<Longrightarrow> triple (within D) m (\<lambda>_. within D) (\<lambda>_. within C)"
  by (erule triple_keeps) (rule within_mono)

lemma stays_state: "(\<And>s r s'. m s = (r, s') \<Longrightarrow> s' = s) \<Longrightarrow> stays D m"
  by (rule keepsI) (metis prod.collapse)

lemma waitable_key_state: "waitable_key obj s = (r, s') \<Longrightarrow> s' = s"
  by (auto simp: waitable_key_def split: val.splits)

lemma py_map_state:
  assumes "\<And>x s r s'. f x s = (r, s') \<Longrightarrow> s' = s"
  shows "py_map f xs s = (r, s') \<Longrightarrow> s' = s"
  by (induction xs arbitrary: r) (auto elim!: py_bindE dest: assms)

lemma waitable_keys_state: "py_map waitable_key objs s = (r, s') \<Longrightarrow> s' = s"
  by (rule py_map_state) (rule waitable_key_state)

lemma gather_scan_state: "gather_scan wks s = (r, s') \<Longrightarrow> s' = s"
  by (induction wks arbitrary: r)
    (auto elim!: py_bindE dest!: waitable_status_state split: prod.splits if_splits)

lemma race_scan_state: "race_scan objs s = (r, s') \<Longrightarrow> s' = s"
  by (induction objs arbitrary: r)
    (auto elim!: py_bindE dest!: waitable_status_state waitable_key_state split: prod.splits if_splits)

lemma get_state: "get_task t s = (r, s') \<Longrightarrow> s' = s" "get_sem i s = (r1, s') \<Longrightarrow> s' = s"
  by (auto simp: get_task_def py_need_def split: option.splits dest: get_sem_state)

lemma stays_reads [stays_intro]:
  "stays D (waitable_key obj)" "stays D (waitable_status key)" "stays D (py_map waitable_key objs)"
  "stays D (gather_scan wks)" "stays D (race_scan objs)" "stays D (get_task t)" "stays D (get_sem i)"
  "stays D (gather_results keys)"
  by ((rule stays_state), (erule waitable_key_state waitable_status_state gather_scan_state
      race_scan_state get_state gather_results_state waitable_keys_state))+

lemma answers_bind:
  "stays D m \<Longrightarrow> D \<subseteq># C \<Longrightarrow> (\<And>x. answers D (f x) C) \<Longrightarrow> answers D (py_bind m f) C"
  by (rule triple_bind [OF stays_triple])

lemma answers_own:
  "answers D (py_ret (Resume k v)) (add_mset (w, k) D)"
  "answers D (py_ret (ResumeThrow k v)) (add_mset (w, k) D)"
  "answers D (py_ret (PassEffect e k)) (add_mset (w, k) D)"
  by (auto intro!: triple_ret exI [of _ w] simp: within_def offers_def)

lemma answers_deliver: "answers D (py_ret (deliver_terminal k st res)) (add_mset (w, k) D)"
  by (simp add: deliver_terminal_def answers_own)

lemma tail_answers: "answers C tail_pick_next C"
  unfolding tail_pick_next_def
proof (rule triple_bind)
  show "triple (within C) pick_next (\<lambda>p s. refs_ok s \<and> spends C (Inr p) s) (\<lambda>_. within C)"
    by (rule tripleI; drule pick_next_spends [rotated])
      (auto simp: within_def spends_def split: picked.splits intro: subset_mset.order_trans)
  show "triple (\<lambda>s. refs_ok s \<and> spends C (Inr p) s) (py_ret (Dispatch p))
      (\<lambda>a s. refs_ok s \<and> offers C (Inr a) s) (\<lambda>_. within C)" for p
    by (rule triple_ret) (simp add: offers_def)
qed

lemma le_add_one: "C \<subseteq># add_mset x C"
  by (rule add_mset_eq_le [OF refl])

lemma answers_weaken: "triple P m (\<lambda>a s. refs_ok s \<and> offers C (Inr a) s) (\<lambda>_. within C) \<Longrightarrow>
   (\<And>s. within D s \<Longrightarrow> P s) \<Longrightarrow> answers D m C"
  by (erule triple_weaken)

lemma spends_le: "spends D r s \<Longrightarrow> D \<subseteq># C \<Longrightarrow> spends C r s"
  by (rule spends_mono)

lemma tail_answers_add: "answers D tail_pick_next (add_mset x D)"
  by (rule answers_weaken [OF tail_answers within_add])

text \<open>Parking the performer's continuation, then handing control to the next runnable.\<close>

lemma answers_park:
  assumes "triple (within D) m (\<lambda>_. within (add_mset (w, k) D)) (\<lambda>_. within (add_mset (w, k) D))"
  shows "answers D (py_bind m (\<lambda>_. tail_pick_next)) (add_mset (w, k) D)"
  by (rule triple_bind [OF assms tail_answers])

lemma add_waiter_conts: "conts (add_waiter wk x s) = waiter_conts x + conts s"
proof (cases "dget (waiters s) wk")
  case None
  then show ?thesis
    using msum_dput_new [OF None, of "\<lambda>kv. msum waiter_conts (snd kv)" "[x]"]
    by (simp add: add_waiter_def dappend_def conts_def parked_conts_def ac_simps)
next
  case (Some es)
  have "parked_conts (dput wk (es @ [x]) (waiters s)) + msum waiter_conts es =
        waiter_conts x + parked_conts (waiters s) + msum waiter_conts es"
    using msum_dput [OF Some, of "\<lambda>kv. msum waiter_conts (snd kv)" "es @ [x]"]
    by (simp add: parked_conts_def ac_simps)
  then show ?thesis using Some by (simp add: add_waiter_def dappend_def conts_def ac_simps)
qed

lemma refs_add_waiter: "refs_ok s \<Longrightarrow> waiter_ok s x \<Longrightarrow> refs_ok (add_waiter wk x s)"
proof -
  assume ok: "refs_ok s" "waiter_ok s x"
  have heaps: "same_heaps s (add_waiter wk x s)" by (simp add: same_heaps_def add_waiter_def)
  have "waiter_ok s y" if "(key, ws) \<in> set (waiters (add_waiter wk x s))" and "y \<in> set ws" for key ws y
    using that ok set_dput [of wk _ "waiters s"] map_of_SomeD [of "waiters s" wk]
    unfolding refs_ok_def add_waiter_def dappend_def by (fastforce split: option.splits)
  then show ?thesis unfolding refs_ok_def using waiter_ok_heaps [OF heaps] by fastforce
qed

lemma within_add_waiter:
  "within D s \<Longrightarrow> waiter_ok s x \<Longrightarrow> within (waiter_conts x + D) (add_waiter wk x s)"
  by (simp add: within_def add_waiter_conts refs_add_waiter)

lemma within_placeholder: "within D s \<Longrightarrow> within D (enqueue (EWaitExternal w ko wk c) p s)"
  by (simp add: within_def refs_enqueue)

lemma within_cells: "within D s \<Longrightarrow> within D (s\<lparr>cells := cs\<rparr>)"
  by (rule within_frame) (simp_all add: same_heaps_def)

lemma new_cell_stays: "stays D new_cell"
  by (rule keepsI) (simp add: new_cell_def within_cells)

lemma park_wait_triple:
  "triple (within D) (park_wait w k wk prio) (\<lambda>_. within (add_mset (w, k) D)) (\<lambda>_. within (add_mset (w, k) D))"
proof (rule tripleI)
  have "within (add_mset (w, k) D) (snd (park_wait w k wk prio s))" if D: "within D s" for s
    using within_add_waiter [OF D, of "WtWait w k None" wk] within_add_waiter [OF D, of "WtWait w k prio" wk]
      within_placeholder [OF within_add_waiter [OF within_cells [OF D], where x = "WtExternal w k (length (cells s)) prio"]]
    by (simp add: park_wait_def new_cell_def py_bind_Inr)
  then show "within (add_mset (w, k) D) s'" if "within D s" "park_wait w k wk prio s = (r, s')" for s r s'
    using that by (metis snd_conv)
  then show "within (add_mset (w, k) D) s'" if "within D s" "park_wait w k wk prio s = (r, s')" for s r s'
    using that by blast
qed

lemma handle_wait_answers: "answers D (handle_wait w k obj prio) (add_mset (w, k) D)"
  unfolding handle_wait_def
  by (intro answers_bind stays_intro le_add_one triple_prod triple_if answers_deliver
      answers_park park_wait_triple)

section \<open>The handlers\<close>

lemma enqueue_resume_triple:
  "triple (within D) (enqueue_resume w k v pr) (\<lambda>_. within (add_mset (w, k) D)) (\<lambda>_. within (add_mset (w, k) D))"
proof (rule tripleI)
  have "within (add_mset (w, k) D) s'" if "within D s" and "enqueue_resume w k v pr s = (r, s')" for s r s'
  proof -
    have "refs_ok s'"
      using keepsD [OF valid.enqueue_resume_P [of s w k v pr] _ that(2)] that(1)
      by (auto simp: within_def)
    then show ?thesis
      using that enqueue_resume_conts [OF that(2)]
      by (auto simp: within_def intro: subset_mset.order_trans)
  qed
  then show "within (add_mset (w, k) D) s'" if "within D s" "enqueue_resume w k v pr s = (Inr x, s')" for s x s'
    using that by blast
  show "within (add_mset (w, k) D) s'" if "within D s" "enqueue_resume w k v pr s = (Inl e, s')" for s e s'
    using that \<open>\<And>s' s r. within D s \<Longrightarrow> enqueue_resume w k v pr s = (r, s') \<Longrightarrow> within (add_mset (w, k) D) s'\<close>
    by blast
qed

lemma alloc_stays [stays_intro]: "stays D (alloc_task p prio bs daemon)" "stays D alloc_promise"
  unfolding alloc_task_def alloc_promise_def by (intro keeps_intro stays_intro)+

lemma handle_spawn_answers: "answers D (handle_spawn vm w k p prio daemon) (add_mset (w, k) D)"
  unfolding handle_spawn_def
  by (intro answers_bind stays_intro le_add_one answers_park enqueue_resume_triple)

lemma handle_task_completed_answers: "answers D (handle_task_completed t r) (add_mset (w, k) D)"
  unfolding handle_task_completed_def
  by (intro answers_bind stays_intro keeps_intro le_add_one tail_answers_add)

lemma handle_cancel_answers: "answers D (handle_cancel k obj) (add_mset (w, k) D)"
  unfolding handle_cancel_def
  by (cases obj; simp; (rule triple_raise, erule within_add)?)
    (intro answers_bind stays_intro keeps_intro le_add_one answers_own)

lemma create_promise_answers:
  "answers D (handle_create_promise k) (add_mset (w, k) D)"
  "answers D (handle_create_external_promise k) (add_mset (w, k) D)"
proof -
  have ext: "stays D (py_modify (\<lambda>s. case dget (promises s) p of None \<Rightarrow> s
      | Some m \<Rightarrow> set_promise p (m\<lparr>p_external := True\<rparr>) s))" for p
    by (rule within_frame_modify) (simp add: set_promise_def same_heaps_def split: option.split)
  show "answers D (handle_create_promise k) (add_mset (w, k) D)"
    "answers D (handle_create_external_promise k) (add_mset (w, k) D)"
    unfolding handle_create_promise_def handle_create_external_promise_def
    by (intro answers_bind stays_intro ext le_add_one answers_own)+
qed

lemma task_priority_stays [stays_intro]: "stays D (task_priority w)"
  by (rule stays_state) (metis snd_conv task_priority_state)

lemma resolve_promise_answers: "answers D (resolve_promise name hint st w k p v) (add_mset (w, k) D)"
proof -
  have resolve: "triple (within D) (resolve_and_requeue st w k p m v)
      (\<lambda>_. within (add_mset (w, k) D)) (\<lambda>_. within (add_mset (w, k) D))" for m
    unfolding resolve_and_requeue_def
    by (rule triple_bind [OF stays_triple [OF stays_frames(5) le_add_one]]
          triple_bind [OF stays_triple [OF stays_wake le_add_one]]
          triple_bind [OF stays_triple [OF task_priority_stays le_add_one]]
          triple_bind [OF enqueue_resume_triple] triple_ret | assumption)+
  show ?thesis
    unfolding resolve_promise_def
    by (intro answers_bind keeps_intro le_add_one triple_if answers_own answers_park resolve)
qed

lemma set_sem_stays [stays_intro]:
  "s_waiters m' = [] \<Longrightarrow> stays D (py_modify (set_sem i m'))"
proof (rule keeps_modify)
  fix s assume empty: "s_waiters m' = []" and D: "within D s"
  have "conts (set_sem i m' s) \<subseteq># conts s"
  proof (cases "dget (semaphores s) i")
    case None
    then show ?thesis
      using empty msum_dput_new [OF None, of "\<lambda>kv. mset (s_waiters (snd kv))" m']
      by (simp add: conts_def set_sem_def sem_conts_def)
  next
    case (Some m)
    then show ?thesis using conts_set_sem_le [OF Some, of "{#}" m'] empty by simp
  qed
  with D show "within D (set_sem i m' s)"
    by (auto simp: within_def refs_set_sem intro: subset_mset.order_trans)
qed

lemma handle_create_semaphore_answers: "answers D (handle_create_semaphore k n) (add_mset (w, k) D)"
  unfolding handle_create_semaphore_def
  by (intro triple_if answers_own answers_bind stays_intro le_add_one) simp

text \<open>A semaphore record read and written back with other waiters.\<close>

lemma get_sem_triple: "triple (within D) (get_sem i)
    (\<lambda>m s. within D s \<and> dget (semaphores s) i = Some m) (\<lambda>_. within (add_mset x D))"
  by (rule tripleI) (auto dest!: get_sem_state intro: within_add)

lemma within_set_sem:
  assumes "within D s" and "dget (semaphores s) i = Some m" and "mset (s_waiters m') = C + mset (s_waiters m)"
  shows "within (C + D) (set_sem i m' s)"
proof -
  have "conts (set_sem i m' s) = C + conts s" using conts_set_sem [OF assms(2), of m'] assms(3) by simp
  with assms(1) show ?thesis by (simp add: within_def refs_set_sem)
qed

lemma set_sem_then:
  assumes "triple (within (C + D)) (f ()) Q E"
    and "mset (s_waiters m') = C + mset (s_waiters m)"
  shows "triple (\<lambda>s. within D s \<and> dget (semaphores s) i = Some m) (py_bind (py_modify (set_sem i m')) f) Q E"
  by (rule triple_modify_bind, rule assms(1)) (use assms(2) within_set_sem in blast)

lemma handle_acquire_answers: "answers D (handle_acquire w k i) (add_mset (w, k) D)"
  unfolding handle_acquire_def
  by (rule triple_bind [OF get_sem_triple], rule triple_if)
    (rule set_sem_then [where C = "{#}"], simp add: answers_own, simp,
     rule set_sem_then [where C = "{#(w, k)#}"], simp add: tail_answers, simp)

lemma handle_release_answers: "answers D (handle_release w k i) (add_mset (w, k) D)"
  unfolding handle_release_def
  by (rule answers_bind [OF stays_reads(7) le_add_one], rule answers_bind [OF stays_grant le_add_one],
      rule triple_bind [OF get_sem_triple], rule triple_if)
    (rule triple_weaken, rule answers_own(2) [where w = w and D = D], simp, simp, simp,
     rule set_sem_then [where C = "{#}"], simp add: answers_own, simp)

text \<open>A fresh Gather or Race state takes the performer's continuation; its registrations do not.\<close>

definition with_gathers :: "nat \<Rightarrow> owned multiset \<Rightarrow> sched \<Rightarrow> bool" where
  "with_gathers g C s \<longleftrightarrow> within C s \<and> g < length (gathers s)"

definition with_races :: "nat \<Rightarrow> owned multiset \<Rightarrow> sched \<Rightarrow> bool" where
  "with_races r C s \<longleftrightarrow> within C s \<and> r < length (races s)"

lemma new_gather_triple:
  "triple (within D) (new_gather w k keys pending) (\<lambda>g. with_gathers g (add_mset (w, k) D)) E"
proof (rule tripleI)
  fix s g s' assume D: "within D s" and run: "new_gather w k keys pending s = (Inr g, s')"
  have "waiter_ok s' x" if "waiter_ok s x" for x
    using that run by (cases x) (auto simp: new_gather_def)
  moreover have "waiters s' = waiters s" using run by (auto simp: new_gather_def)
  ultimately have "refs_ok s'" using D by (fastforce simp: within_def refs_ok_def)
  then show "with_gathers g (add_mset (w, k) D) s'"
    using D run by (auto simp: new_gather_def with_gathers_def within_def conts_def gather_conts_def ac_simps)
qed (auto simp: new_gather_def)

lemma new_race_triple:
  "triple (within D) (new_race w k pending) (\<lambda>r. with_races r (add_mset (w, k) D)) E"
proof (rule tripleI)
  fix s r s' assume D: "within D s" and run: "new_race w k pending s = (Inr r, s')"
  have "waiter_ok s' x" if "waiter_ok s x" for x
    using that run by (cases x) (auto simp: new_race_def)
  moreover have "waiters s' = waiters s" using run by (auto simp: new_race_def)
  ultimately have "refs_ok s'" using D by (fastforce simp: within_def refs_ok_def)
  then show "with_races r (add_mset (w, k) D) s'"
    using D run by (auto simp: new_race_def with_races_def within_def conts_def race_conts_def ac_simps)
qed (auto simp: new_race_def)

lemma register_gather_keeps: "keeps (with_gathers g C) (register_pending_waiter wk (WtGather w g) w)"
proof (rule register_keeps)
  show "with_gathers g C (add_waiter wk (WtGather w g c) s)" if "with_gathers g C s" for s c
    using that within_add_waiter [of C s "WtGather w g c" wk]
    by (simp add: with_gathers_def) (simp add: add_waiter_def)
qed (simp_all add: with_gathers_def within_cells within_placeholder enqueue_fields)

lemma register_race_keeps: "keeps (with_races r C) (register_pending_waiter wk (WtRace w r) w)"
proof (rule register_keeps)
  show "with_races r C (add_waiter wk (WtRace w r c) s)" if "with_races r C s" for s c
    using that within_add_waiter [of C s "WtRace w r c" wk]
    by (simp add: with_races_def) (simp add: add_waiter_def)
qed (simp_all add: with_races_def within_cells within_placeholder enqueue_fields)

lemma registrations_triple:
  "triple (with_gathers g C) (py_for wks (\<lambda>wk. register_pending_waiter wk (WtGather w g) w))
     (\<lambda>_. within C) (\<lambda>_. within C)"
  "triple (with_races r C) (py_for wks (\<lambda>wk. register_pending_waiter wk (WtRace w r) w))
     (\<lambda>_. within C) (\<lambda>_. within C)"
  by (rule triple_weaken, rule triple_keeps, rule keeps_for,
      rule register_gather_keeps register_race_keeps, assumption, assumption,
      simp_all add: with_gathers_def with_races_def)+

lemma handle_gather_answers: "answers D (handle_gather w k objs) (add_mset (w, k) D)"
  unfolding handle_gather_def
  by (rule answers_bind [OF stays_reads(3) le_add_one], rule answers_bind [OF stays_reads(4) le_add_one],
      rule triple_sum, rule answers_own, rule triple_if,
      rule answers_bind [OF stays_reads(8) le_add_one answers_own(1)])
    (rule triple_bind [OF new_gather_triple triple_bind [OF registrations_triple(1) tail_answers]])

lemma handle_race_answers: "answers D (handle_race w k objs) (add_mset (w, k) D)"
  unfolding handle_race_def
  by (rule triple_if, rule answers_own, rule answers_bind [OF stays_reads(5) le_add_one],
      rule triple_sum, rule triple_prod, rule answers_deliver)
    (rule triple_bind [OF new_race_triple triple_bind [OF registrations_triple(2) tail_answers]])

lemmas handlers_answer =
  handle_spawn_answers handle_task_completed_answers handle_wait_answers handle_gather_answers
  handle_race_answers handle_cancel_answers create_promise_answers resolve_promise_answers
  handle_create_semaphore_answers handle_acquire_answers handle_release_answers answers_own

lemma introspect_stays: "stays D (py_gets introspect)"
  by (rule keeps_gets)

lemma handle_scheduler_effect_answers:
  "answers D (handle_scheduler_effect vm w eff k) (add_mset (w, k) D)"
  unfolding handle_scheduler_effect_def
  by (rule answers_bind [OF stays_drain le_add_one])
    (auto simp: handle_effect_def handle_complete_promise_def handle_fail_promise_def
      handlers_answer answers_bind [OF introspect_stays le_add_one] split: effect.split)

end
