(* ===== verification/Sched_Closed.thy ===== *)
theory Sched_Closed
  imports Sched_Run
begin

text \<open>
  The contracts that carry a state predicate through the dispatch loop (\<open>dispatch_closed\<close>) and
  through every handler of an effect (\<open>handler_closed\<close>): a predicate is checked on the writes the
  code makes, in the situations in which it makes them, and holds after the whole activation.
  Only activations that do not end with an exception of the scheduler itself are covered.
\<close>

abbreviation returns :: "(sched \<Rightarrow> bool) \<Rightarrow> 'a sch \<Rightarrow> bool" where
  "returns P m \<equiv> triple P m (\<lambda>_. P) (\<lambda>_ _. True)"

lemma keeps_returns: "keeps P m \<Longrightarrow> returns P m"
  by (rule triple_keeps) auto

lemma pure_returns: "(\<And>s r s'. m s = (r, s') \<Longrightarrow> s' = s) \<Longrightarrow> returns P m"
  by (rule tripleI) auto

locale dispatch_closed = deliver_closed +
  assumes heap: "P s \<Longrightarrow> P (s\<lparr>ready := h\<rparr>)"
    and coming: "P s \<Longrightarrow> P (s\<lparr>external_queue := q, arrivals := a\<rparr>)"
    and pruned: "P s \<Longrightarrow> live_semaphore_waiters s = (b, s') \<Longrightarrow> P s'"
    and begun: "P s \<Longrightarrow> dget (tasks s) t = Some m \<Longrightarrow> t_status m \<noteq> Cancelled \<Longrightarrow>
      start_task t m s = (r, s') \<Longrightarrow> P s'"
    and returned: "P s \<Longrightarrow> is_owner_cancelled s w \<Longrightarrow>
      return_inflight_permit i w s = (Inr u, s') \<Longrightarrow> P s'"
begin

lemma drain_one_external_P: "keeps P drain_one_external"
proof (rule keepsI)
  fix s assume P: "P s"
  have deliver: "P (snd (py_bind (deliver msg) (\<lambda>_. py_ret True) s1))" if "P s1" for msg s1
    using keeps_bind [OF deliver_P [of msg] keeps_ret [of P True]] that unfolding keeps_def by blast
  have "P (s\<lparr>external_queue := q\<rparr>)" for q
    using coming [OF P, where q = q and a = "arrivals s"] by simp
  then show "P (snd (drain_one_external s))"
    using P deliver coming [OF P] by (auto simp: drain_one_external_def split: list.split prod.split)
qed

lemma block_for_external_P: "keeps P block_for_external"
  unfolding block_for_external_def by (intro keeps_intro drain_one_external_P drain_P)

lemma blocked_P: "P s \<Longrightarrow> block_for_external s = (r, s') \<Longrightarrow> P s'"
  by (rule keepsD [OF block_for_external_P])

lemma popped_P: "P s \<Longrightarrow> popped s it s1 \<Longrightarrow> P s1"
  by (auto simp: popped_def heap)

lemma placeholder_P: "P s \<Longrightarrow> placeholder_deadlock s = (e, s') \<Longrightarrow> P s'"
  by (auto simp: placeholder_deadlock_def split: if_splits prod.splits dest: pruned)

lemma restored_P: "P s \<Longrightarrow> P (restored held s)"
  by (simp add: restored_def heap)

lemma dispatch_P: "dispatch held shield s r s' \<Longrightarrow> P s \<Longrightarrow> r = Inr x \<Longrightarrow> P s'"
proof (induction rule: dispatch.induct)
  case (Start s it s1 shield t m r s2 held)
  then show ?case by (meson begun popped_P restored_P)
next
  case (WaitWoken s it s1 w ko wk c s2 s3 held shield r s')
  have "P s3"
    by (rule blocked_P [OF placeholder_P [OF popped_P [OF WaitWoken.prems(1) WaitWoken.hyps(1)]
          WaitWoken.hyps(5)] WaitWoken.hyps(6)])
  then show ?case using WaitWoken.IH WaitWoken.prems(2) by (simp add: enq)
next
  case (PermitBack s it s1 shield w k i u s2 held r s')
  then show ?case by (meson returned popped_P)
next
  case (IdleWoken s blocked s1 s2 held shield r s')
  then show ?case by (meson pruned blocked_P)
next
  case (WaitStuck s it s1 w ko wk c s2 s3 held shield)
  then show ?case by (meson blocked_P placeholder_P popped_P restored_P)
next
  case (IdleStuck s blocked s1 s2 held shield)
  then show ?case by (meson blocked_P pruned restored_P)
next
  case (IdleDone s blocked s1 held shield)
  then show ?case by (meson pruned restored_P)
qed (auto intro: popped_P restored_P)

lemma pick_next_P: "returns P pick_next"
proof (rule tripleI)
  fix s x s' assume P: "P s" and run: "pick_next s = (Inr x, s')"
  then obtain u s1 where "drain s = (Inr u, s1)" and "dispatch [] False s1 (Inr x) s'"
    by (auto simp: pick_next_def split: prod.splits sum.splits intro: pick_loop_dispatch)
  then show "P s'" using dispatch_P [OF _ keepsD [OF drain_P P]] by blast
qed simp

lemma tail_P: "returns P tail_pick_next"
  unfolding tail_pick_next_def by (rule triple_bind [OF pick_next_P]) (simp add: triple_ret)

end

text \<open>An example: a delivery touches no semaphore.\<close>

interpretation sems_wake: wake_closed "\<lambda>s. semaphores s = x" for x
  by unfold_locales (simp_all add: enqueue_def claim_cell_def set_gather_def set_race_def)

interpretation sems: deliver_closed "\<lambda>s. semaphores s = x" for x
  by unfold_locales (rule sems_wake.after_wake, simp_all add: set_promise_def)

lemma drain_semaphores: "drain s = (r, s') \<Longrightarrow> semaphores s' = semaphores s"
  using keepsD [OF sems.drain_P, of s "semaphores s"] by blast

section \<open>The handlers\<close>

abbreviation fresh_task :: "prog \<Rightarrow> int \<Rightarrow> bool \<Rightarrow> (string \<times> nat) list \<Rightarrow> task_meta" where
  "fresh_task p prio daemon bs \<equiv>
     \<lparr>t_status = Pending, t_result = VNone, t_program = Some p, t_priority = prio,
      t_daemon = daemon, t_boundaries = Some bs, t_spawn_site = None\<rparr>"

abbreviation fresh_promise :: promise_meta where
  "fresh_promise \<equiv> \<lparr>p_status = Pending, p_result = VNone, p_external = False\<rparr>"

abbreviation fresh_sem :: "int \<Rightarrow> sem_meta" where
  "fresh_sem n \<equiv> \<lparr>s_permits = n, s_max_permits = n, s_waiters = [], s_holders = []\<rparr>"

text \<open>\<open>strict\<close> restricts the predicate to programs that release only permits they hold.\<close>

definition releases_own :: "sched \<Rightarrow> owner \<Rightarrow> effect \<Rightarrow> bool" where
  "releases_own s w eff \<longleftrightarrow> (\<forall>i. eff = ReleaseSemaphore i \<longrightarrow> w \<in> set (sem_holders_of s i))"

definition unresolved :: "sched \<Rightarrow> waitable \<Rightarrow> bool" where
  "unresolved s wk \<longleftrightarrow> (case lookup_status s wk of None \<Rightarrow> False | Some (st, v) \<Rightarrow> \<not> terminal st)"

text \<open>The keys that a Gather or Race is about to be registered under are still unresolved.\<close>

definition registering :: "(sched \<Rightarrow> bool) \<Rightarrow> waitable list \<Rightarrow> sched \<Rightarrow> bool" where
  "registering P wks s \<longleftrightarrow> P s \<and> (\<forall>wk \<in> set wks. unresolved s wk)"

lemma unresolved_same:
  "tasks s' = tasks s \<Longrightarrow> promises s' = promises s \<Longrightarrow> unresolved s' wk = unresolved s wk"
  by (simp add: unresolved_def lookup_status_def split: waitable.splits)

lemma waitable_keys_pure: "py_map waitable_key objs s = (r, s') \<Longrightarrow> s' = s"
  by (induction objs arbitrary: r s')
    (auto elim!: py_bindE simp: waitable_key_def split: val.splits)

lemma status_pure: "waitable_status wk s = (r, s') \<Longrightarrow> s' = s"
  by (auto simp: waitable_status_def py_need_def split: option.splits)

lemma status_unresolved:
  "waitable_status wk s = (Inr (st, res), s1) \<Longrightarrow> \<not> terminal st \<Longrightarrow> unresolved s wk \<and> s1 = s"
  by (auto simp: waitable_status_def py_need_def unresolved_def split: option.splits)

lemma gather_results_pure: "gather_results keys s = (r, s') \<Longrightarrow> s' = s"
  unfolding gather_results_def
  by (induction keys arbitrary: r s') (auto elim!: py_bindE dest!: status_pure split: prod.splits)

text \<open>A state with \<open>P\<close> in which the pending keys of a scan are unresolved.\<close>

definition scanned :: "(sched \<Rightarrow> bool) \<Rightarrow> 'a + waitable list \<Rightarrow> sched \<Rightarrow> bool" where
  "scanned P r s \<longleftrightarrow> P s \<and> (\<forall>pending. r = Inr pending \<longrightarrow> (\<forall>wk \<in> set pending. unresolved s wk))"

lemma gather_scan_pending:
  "gather_scan wks s = (Inr r, s') \<Longrightarrow> s' = s \<and> (\<forall>pending. r = Inr pending \<longrightarrow> (\<forall>wk \<in> set pending. unresolved s wk))"
proof (induction wks arbitrary: r s')
  case (Cons wk wks)
  obtain x s1 where status: "waitable_status wk s = (Inr x, s1)"
    and rest: "(case x of (st, res) \<Rightarrow>
       if st = Failed then py_ret (Inl res)
       else if st = Cancelled then py_ret (Inl cancelled_error)
       else py_bind (gather_scan wks) (\<lambda>r.
              py_ret (case r of Inl e \<Rightarrow> Inl e
                      | Inr pending \<Rightarrow> Inr (if terminal st then pending else wk # pending)))) s1 = (Inr r, s')"
    using Cons.prems unfolding gather_scan.simps py_bind_eq_Inr by blast
  obtain st res where x: "x = (st, res)" by (cases x)
  note s1 = status_pure [OF status]
  show ?case
  proof (cases "st = Failed \<or> st = Cancelled")
    case True
    then show ?thesis using rest s1 by (auto simp: x split: if_splits)
  next
    case False
    then obtain r0 s2 where more: "gather_scan wks s = (Inr r0, s2)"
      and last: "s' = s2" "r = (case r0 of Inl e \<Rightarrow> Inl e
        | Inr pending \<Rightarrow> Inr (if terminal st then pending else wk # pending))"
      using rest s1 by (auto simp: x py_bind_eq_Inr)
    show ?thesis
      using Cons.IH [OF more] last status_unresolved [OF status [unfolded x]]
      by (auto split: sum.splits if_splits)
  qed
qed simp

lemma race_scan_pending:
  "race_scan objs s = (Inr r, s') \<Longrightarrow> s' = s \<and> (\<forall>pending. r = Inr pending \<longrightarrow> (\<forall>wk \<in> set pending. unresolved s wk))"
proof (induction objs arbitrary: r s')
  case (Cons obj objs)
  obtain wk s0 x s1 where key: "waitable_key obj s = (Inr wk, s0)"
    and status: "waitable_status wk s0 = (Inr x, s1)"
    and rest: "(case x of (st, res) \<Rightarrow>
       if terminal st then py_ret (Inl (st, res))
       else py_bind (race_scan objs) (\<lambda>r.
              py_ret (case r of Inl x \<Rightarrow> Inl x | Inr wks \<Rightarrow> Inr (wk # wks)))) s1 = (Inr r, s')"
    using Cons.prems unfolding race_scan.simps py_bind_eq_Inr by blast
  obtain st res where x: "x = (st, res)" by (cases x)
  have s0: "s0 = s" using key by (auto simp: waitable_key_def split: val.splits)
  note s1 = status_pure [OF status]
  show ?case
  proof (cases "terminal st")
    case True
    then show ?thesis using rest s0 s1 by (auto simp: x)
  next
    case False
    then obtain r0 s2 where more: "race_scan objs s = (Inr r0, s2)"
      and last: "s' = s2" "r = (case r0 of Inl x \<Rightarrow> Inl x | Inr wks \<Rightarrow> Inr (wk # wks))"
      using rest s0 s1 by (auto simp: x py_bind_eq_Inr)
    show ?thesis
      using Cons.IH [OF more] last status_unresolved [OF status [unfolded x] False] s0
      by (auto split: sum.splits)
  qed
qed simp

locale handler_closed = dispatch_closed P for P :: "sched \<Rightarrow> bool" +
  fixes strict :: bool
  assumes new_task: "P s \<Longrightarrow> fresh_id s = (Inr t, s1) \<Longrightarrow>
      P (s1\<lparr>tasks := dput t (fresh_task pg prio daemon bs) (tasks s1)\<rparr>)"
    and new_promise: "P s \<Longrightarrow> fresh_id s = (Inr p, s1) \<Longrightarrow>
      P (s1\<lparr>promises := dput p fresh_promise (promises s1)\<rparr>)"
    and new_sem: "P s \<Longrightarrow> fresh_id s = (Inr i, s1) \<Longrightarrow> 1 \<le> n \<Longrightarrow> P (set_sem i (fresh_sem n) s1)"
    and make_external: "P s \<Longrightarrow> dget (promises s) p = Some m \<Longrightarrow> P (set_promise p (m\<lparr>p_external := True\<rparr>) s)"
    and site: "P s \<Longrightarrow> P (set_spawn_site t x s)"
    and released: "P s \<Longrightarrow> P (release_task_refs t s)"
    and handles: "P s \<Longrightarrow> P (register_handle key s)"
    and finish: "P s \<Longrightarrow> dget (tasks s) t = Some tm \<Longrightarrow> t_status tm \<noteq> Cancelled \<Longrightarrow> terminal st \<Longrightarrow>
      P (snd (wake_waiters (WTask t) (set_task t (tm\<lparr>t_status := st, t_result := v\<rparr>) s)))"
    and cells: "P s \<Longrightarrow> P (s\<lparr>cells := cs\<rparr>)"
    and gather: "P s \<Longrightarrow> P (s\<lparr>gathers := gathers s @ [g]\<rparr>)"
    and racing: "P s \<Longrightarrow> P (s\<lparr>races := races s @ [rc]\<rparr>)"
    and parking: "P s \<Longrightarrow> unresolved s wk \<Longrightarrow> P (add_waiter wk wt s)"
    and take_permit: "P s \<Longrightarrow> dget (semaphores s) i = Some sem \<Longrightarrow> s_permits sem > 0 \<Longrightarrow>
      P (set_sem i (sem\<lparr>s_permits := s_permits sem - 1, s_holders := s_holders sem @ [w]\<rparr>) s)"
    and await_permit: "P s \<Longrightarrow> dget (semaphores s) i = Some sem \<Longrightarrow> \<not> s_permits sem > 0 \<Longrightarrow>
      P (set_sem i (sem\<lparr>s_waiters := s_waiters sem @ [(w, k)]\<rparr>) s)"
    and give_permit: "P s \<Longrightarrow> (strict \<longrightarrow> w \<in> set (sem_holders_of s i)) \<Longrightarrow>
      handle_release w k i s = (Inr a, s') \<Longrightarrow> P s'"
begin

lemma task_state: "get_task t s = (r, s') \<Longrightarrow> s' = s \<and> (\<forall>m. r = Inr m \<longrightarrow> dget (tasks s) t = Some m)"
  by (auto simp: get_task_def py_need_def split: option.splits)

lemma get_task_P: "triple P (get_task t) (\<lambda>m s. P s \<and> dget (tasks s) t = Some m) (\<lambda>_ _. True)"
  by (rule tripleI) (auto dest: task_state)

lemma get_sem_P: "triple P (get_sem i) (\<lambda>m s. P s \<and> dget (semaphores s) i = Some m) (\<lambda>_ _. True)"
  by (rule tripleI) (auto dest: get_sem_state)

lemma modify_P: "(\<And>s. P s \<Longrightarrow> P (h s)) \<Longrightarrow> returns P (py_modify h)"
  by (rule triple_modify)

lemma alloc_P: "returns P (alloc_task p prio bs daemon)" "returns P alloc_promise"
  unfolding alloc_task_def alloc_promise_def
  by (rule tripleI; auto simp: py_bind_eq_Inr new_task new_promise)+

lemma resume_tail_P: "returns P (py_bind (enqueue_resume w k v pr) (\<lambda>_. tail_pick_next))"
  by (rule triple_bind [OF keeps_returns [OF enqueue_resume_P] tail_P])

lemma handle_spawn_P: "returns P (handle_spawn vm w k p prio daemon)"
  unfolding handle_spawn_def
  by (intro triple_bind [OF alloc_P(1)] triple_bind [OF modify_P] resume_tail_P site enq handles)

text \<open>Finishing a task: the write of its result, the wake, the release of its references.\<close>

lemma finish_P:
  assumes "terminal st"
  shows "triple (\<lambda>s. P s \<and> dget (tasks s) t = Some m \<and> t_status m \<noteq> Cancelled)
    (py_bind (py_modify (set_task t (m\<lparr>t_status := st, t_result := v\<rparr>))) (\<lambda>_. wake_waiters (WTask t)))
    (\<lambda>_. P) (\<lambda>_ _. True)"
proof (rule tripleI)
  fix s x s'
  assume "P s \<and> dget (tasks s) t = Some m \<and> t_status m \<noteq> Cancelled"
    and "py_bind (py_modify (set_task t (m\<lparr>t_status := st, t_result := v\<rparr>))) (\<lambda>_. wake_waiters (WTask t)) s = (Inr x, s')"
  then show "P s'" using finish [of s t m st v] assms by simp
qed simp

lemma release_tail_P: "returns P (py_bind (py_modify (release_task_refs t)) (\<lambda>_. tail_pick_next))"
  by (rule triple_bind [OF modify_P tail_P]) (rule released)

lemma completed_meta_cases:
  obtains st v where "terminal st" and "completed_meta t r m = m\<lparr>t_status := st, t_result := v\<rparr>"
  by (cases r) (auto simp: completed_meta_def terminal_iff)

lemma completed_P: "triple (\<lambda>s. P s \<and> dget (tasks s) t = Some m)
    (if t_status m = Cancelled then py_modify (release_task_refs t)
     else py_bind (py_modify (set_task t (completed_meta t r m))) (\<lambda>_.
          py_bind (wake_waiters (WTask t)) (\<lambda>_. py_modify (release_task_refs t))))
    (\<lambda>_. P) (\<lambda>_ _. True)"
proof (rule tripleI)
  fix s x s'
  assume pre: "P s \<and> dget (tasks s) t = Some m"
    and run: "(if t_status m = Cancelled then py_modify (release_task_refs t)
     else py_bind (py_modify (set_task t (completed_meta t r m))) (\<lambda>_.
          py_bind (wake_waiters (WTask t)) (\<lambda>_. py_modify (release_task_refs t)))) s = (Inr x, s')"
  obtain st v where st: "terminal st" and meta: "completed_meta t r m = m\<lparr>t_status := st, t_result := v\<rparr>"
    by (rule completed_meta_cases)
  show "P s'"
    using pre run finish [of s t m st v] st
    by (auto simp: meta py_bind_eq_Inr released split: if_splits)
qed simp

lemma handle_task_completed_P: "returns P (handle_task_completed t r)"
  unfolding handle_task_completed_def
  by (rule triple_bind [OF get_task_P], rule triple_bind [OF completed_P tail_P])

lemma handle_cancel_P: "returns P (handle_cancel k obj)"
proof (rule tripleI)
  fix s a s' assume P: "P s" and run: "handle_cancel k obj s = (Inr a, s')"
  then obtain t where obj: "obj = VTask t" by (auto simp: handle_cancel_def split: val.splits)
  show "P s'"
  proof (cases "\<exists>m. dget (tasks s) t = Some m \<and> t_status m \<in> {Pending, Running, Suspended}")
    case True
    then obtain m where m: "dget (tasks s) t = Some m" "t_status m \<in> {Pending, Running, Suspended}" by blast
    from m(2) have live: "t_status m \<noteq> Cancelled" by auto
    show ?thesis
      using run obj m finish [OF P m(1) live, of Cancelled cancelled_error]
      by (auto simp: handle_cancel_def py_bind_eq_Inr released terminal_iff)
  next
    case False
    then show ?thesis using P run obj
      by (cases "dget (tasks s) t") (auto simp: handle_cancel_def py_bind_eq_Inr)
  qed
qed simp

lemma interrupt_P: "returns P (interrupt_task t e)"
proof (rule tripleI)
  fix s y s' assume P: "P s" and run: "interrupt_task t e s = (Inr y, s')"
  then obtain m where m: "dget (tasks s) t = Some m" and rest:
    "py_bind (if \<not> terminal (t_status m) then
          py_bind (py_modify (set_task t (m\<lparr>t_status := Failed, t_result := VExc e\<rparr>))) (\<lambda>_.
          py_bind (wake_waiters (WTask t)) (\<lambda>_. py_ret ()))
        else py_ret ()) (\<lambda>_. py_bind (py_modify (release_task_refs t)) (\<lambda>_. py_ret (Reraises e))) s = (Inr y, s')"
    unfolding interrupt_task_def py_bind_eq_Inr [where m = "get_task t"] using task_state by blast
  show "P s'"
    using P m rest finish [of s t m Failed "VExc e"]
    by (cases "terminal (t_status m)") (auto simp: py_bind_eq_Inr released terminal_iff)
qed simp

lemma wrap_task_exit_P: "returns P (wrap_task_exit t x)"
  unfolding wrap_task_exit_def by (cases x) (auto intro: triple_ret interrupt_P)

lemma park_wait_P:
  assumes "P s" and "unresolved s wk" and "park_wait w k wk prio s = (r, s')"
  shows "P s'"
proof -
  have "unresolved (s\<lparr>cells := cs\<rparr>) wk" for cs
    using assms(2) by (simp add: unresolved_def lookup_status_def split: waitable.splits)
  then show ?thesis
    using assms parking [OF assms(1,2)] parking [OF cells [OF assms(1)]] enq
    by (auto simp: park_wait_def new_cell_def py_bind_Inr split: if_splits)
qed

lemma handle_wait_P: "returns P (handle_wait w k obj prio)"
proof (rule tripleI)
  fix s a s' assume P: "P s" and run: "handle_wait w k obj prio s = (Inr a, s')"
  then obtain wk s1 st res s2 where steps: "waitable_key obj s = (Inr wk, s1)"
    "waitable_status wk s1 = (Inr (st, res), s2)"
    and rest: "(if terminal st then py_ret (deliver_terminal k st res)
       else py_bind (park_wait w k wk prio) (\<lambda>_. tail_pick_next)) s2 = (Inr a, s')"
    by (auto simp: handle_wait_def py_bind_eq_Inr)
  have "s1 = s" using steps(1) by (auto simp: waitable_key_def split: val.splits)
  moreover have "s2 = s1" using steps(2) by (auto simp: waitable_status_def py_need_def split: option.splits)
  ultimately show "P s'"
    using P rest status_unresolved [OF steps(2)] park_wait_P [OF P, of wk w k prio]
    by (auto simp: py_bind_eq_Inr split: if_splits dest: triple_Inr [OF tail_P])
qed simp

lemma registering_other:
  assumes "registering P wks s" and "P s'" and "tasks s' = tasks s" and "promises s' = promises s"
  shows "registering P wks s'"
  using assms(1,2) unresolved_same [OF assms(3,4)] by (simp add: registering_def)

lemma register_P:
  assumes "wk \<in> set wks"
  shows "keeps (registering P wks) (register_pending_waiter wk mk w)"
proof -
  have ext: "keeps (registering P wks) (is_external wk)"
    unfolding is_external_def by (cases wk) (auto intro: keeps_intro)
  have cell: "keeps (registering P wks) new_cell"
    by (rule keepsI, rule registering_other, assumption)
      (simp_all add: new_cell_def cells registering_def)
  have reg: "registering P wks (add_waiter wk x s)" if "registering P wks s" for x s
    by (rule registering_other [OF that])
      (use that assms parking in \<open>simp_all add: registering_def, simp_all add: add_waiter_def\<close>)
  have enq: "registering P wks (enqueue e p s)" if "registering P wks s" for e p s
    by (rule registering_other [OF that])
      (use that enq in \<open>simp_all add: registering_def, simp_all add: enqueue_def\<close>)
  show ?thesis
    unfolding register_pending_waiter_def by (intro keeps_intro keeps_modify ext cell reg enq)
qed

lemma registrations_P:
  "triple (registering P wks) (py_for wks (\<lambda>wk. register_pending_waiter wk (mk) w)) (\<lambda>_. P) (\<lambda>_ _. True)"
  by (rule triple_weaken [OF triple_for [OF triple_keeps [OF register_P]]])
    (auto simp: registering_def)

lemma new_gather_P: "triple (\<lambda>s. P s \<and> (\<forall>wk \<in> set wks. unresolved s wk)) (new_gather w k keys wks)
    (\<lambda>_. registering P wks) (\<lambda>_ _. True)"
  by (rule tripleI) (auto simp: new_gather_def registering_def gather unresolved_def lookup_status_def
      split: waitable.splits)

lemma new_race_P: "triple (\<lambda>s. P s \<and> (\<forall>wk \<in> set wks. unresolved s wk)) (new_race w k wks)
    (\<lambda>_. registering P wks) (\<lambda>_ _. True)"
  by (rule tripleI) (auto simp: new_race_def registering_def racing unresolved_def lookup_status_def
      split: waitable.splits)

lemma keys_P: "returns P (py_map waitable_key objs)"
  by (rule pure_returns) (rule waitable_keys_pure)

lemma gather_scan_P: "triple P (gather_scan wks) (\<lambda>r. scanned P r) (\<lambda>_ _. True)"
  by (rule tripleI) (auto simp: scanned_def dest: gather_scan_pending)

lemma race_scan_P: "triple P (race_scan objs) (\<lambda>r. scanned P r) (\<lambda>_ _. True)"
  by (rule tripleI) (auto simp: scanned_def dest: race_scan_pending)

lemma scanned_ret: "triple (scanned P r) (py_ret a) (\<lambda>_. P) (\<lambda>_ _. True)"
  by (rule triple_ret) (simp add: scanned_def)

lemma scanned_gather:
  "triple (scanned P (Inr wks)) (py_bind (new_gather w k keys wks) (\<lambda>g.
     py_bind (py_for wks (\<lambda>wk. register_pending_waiter wk (WtGather w g) w)) (\<lambda>_. tail_pick_next)))
   (\<lambda>_. P) (\<lambda>_ _. True)"
  by (rule triple_weaken [OF triple_bind [OF new_gather_P triple_bind [OF registrations_P tail_P]]])
    (simp_all add: scanned_def)

lemma scanned_race:
  "triple (scanned P (Inr wks)) (py_bind (new_race w k wks) (\<lambda>r.
     py_bind (py_for wks (\<lambda>wk. register_pending_waiter wk (WtRace w r) w)) (\<lambda>_. tail_pick_next)))
   (\<lambda>_. P) (\<lambda>_ _. True)"
  by (rule triple_weaken [OF triple_bind [OF new_race_P triple_bind [OF registrations_P tail_P]]])
    (simp_all add: scanned_def)

lemma scanned_results:
  "triple (scanned P r) (py_bind (gather_results wks) f) (\<lambda>_. P) (\<lambda>_ _. True)"
  if "\<And>x. triple (scanned P r) (f x) (\<lambda>_. P) (\<lambda>_ _. True)"
  using that by (fastforce simp: triple_def py_bind_def split: prod.splits sum.splits dest: gather_results_pure)

lemma handle_gather_P: "returns P (handle_gather w k objs)"
  unfolding handle_gather_def
  by (rule triple_bind [OF keys_P], rule triple_bind [OF gather_scan_P], rule triple_sum, rule scanned_ret,
      rule triple_if, rule scanned_results, rule scanned_ret) (simp add: scanned_gather)

lemma handle_race_P: "returns P (handle_race w k objs)"
  unfolding handle_race_def
  by (rule triple_if, rule triple_ret, assumption, rule triple_bind [OF race_scan_P], rule triple_sum,
      rule triple_prod, rule scanned_ret) (simp add: scanned_race)

lemma handle_create_promise_P: "returns P (handle_create_promise k)"
  unfolding handle_create_promise_def
  by (intro triple_bind [OF alloc_P(2)] triple_bind [OF modify_P] triple_ret handles)

lemma handle_create_external_promise_P: "returns P (handle_create_external_promise k)"
  unfolding handle_create_external_promise_def
  by (intro triple_bind [OF alloc_P(2)] triple_bind [OF modify_P] triple_ret handles)
    (auto simp: make_external split: option.split)

lemma resolve_and_requeue_P:
  assumes "terminal st"
  shows "triple (\<lambda>s. P s \<and> dget (promises s) p = Some m \<and> p_status m = Pending)
    (resolve_and_requeue st w k p m v) (\<lambda>_. P) (\<lambda>_ _. True)"
proof (rule tripleI)
  fix s x s' assume pre: "P s \<and> dget (promises s) p = Some m \<and> p_status m = Pending"
    and run: "resolve_and_requeue st w k p m v s = (Inr x, s')"
  then obtain q s1 o1 s2 q2 where steps: "wake_waiters (WPromise p) (set_promise p (resolved m st v) s) = (Inr q, s1)"
    "task_priority w s1 = (Inr o1, s2)" "enqueue_resume w k VNone (Some (completer_priority o1 q)) s2 = (Inr q2, s')"
    by (auto simp: resolve_and_requeue_def py_bind_eq_Inr)
  have "P s1" using resolve [of s p m st v] pre assms steps(1) by simp
  moreover have "s2 = s1" using steps(2) by (metis snd_conv task_priority_state)
  ultimately show "P s'" using keepsD [OF enqueue_resume_P] steps(3) by blast
qed simp

lemma resolve_promise_P: "terminal st \<Longrightarrow> returns P (resolve_promise name hint st w k p v)"
proof (rule tripleI)
  fix s a s' assume st: "terminal st" and P: "P s"
    and run: "resolve_promise name hint st w k p v s = (Inr a, s')"
  obtain m where m: "dget (promises s) p = Some m"
    using run by (auto simp: resolve_promise_def py_bind_eq_Inr py_need_eq_Inr)
  show "P s'"
    using run P m triple_Inr [OF triple_bind [OF resolve_and_requeue_P [OF st] tail_P], of s p m]
    by (auto simp: resolve_promise_def split: if_splits)
qed simp

lemma handle_create_semaphore_P: "returns P (handle_create_semaphore k n)"
  unfolding handle_create_semaphore_def
  by (rule tripleI) (auto simp: py_bind_eq_Inr new_sem split: if_splits)

lemma handle_acquire_P: "returns P (handle_acquire w k i)"
  unfolding handle_acquire_def
proof (rule triple_bind [OF get_sem_P], rule triple_if)
  fix m :: sem_meta assume "s_permits m > 0"
  then show "triple (\<lambda>s. P s \<and> dget (semaphores s) i = Some m)
     (py_bind (py_modify (set_sem i (m\<lparr>s_permits := s_permits m - 1, s_holders := s_holders m @ [w]\<rparr>)))
       (\<lambda>_. py_ret (Resume k VNone))) (\<lambda>_. P) (\<lambda>_ _. True)"
    by (intro triple_modify_bind [where R = P] triple_ret) (auto intro: take_permit)
next
  fix m :: sem_meta assume "\<not> s_permits m > 0"
  then show "triple (\<lambda>s. P s \<and> dget (semaphores s) i = Some m)
     (py_bind (py_modify (set_sem i (m\<lparr>s_waiters := s_waiters m @ [(w, k)]\<rparr>))) (\<lambda>_. tail_pick_next))
     (\<lambda>_. P) (\<lambda>_ _. True)"
    by (intro triple_modify_bind [where R = P] tail_P) (auto intro: await_permit)
qed

lemma handle_release_P:
  "triple (\<lambda>s. P s \<and> (strict \<longrightarrow> w \<in> set (sem_holders_of s i))) (handle_release w k i) (\<lambda>_. P) (\<lambda>_ _. True)"
  by (rule tripleI) (auto intro: give_permit)

lemma introspect_P: "returns P (py_bind (py_gets introspect) (\<lambda>v. py_ret (Resume k v)))"
  by (rule tripleI) (auto simp: py_bind_eq_Inr)

lemma handle_effect_P:
  "triple (\<lambda>s. P s \<and> (strict \<longrightarrow> releases_own s w eff)) (handle_effect vm w eff k) (\<lambda>_. P) (\<lambda>_ _. True)"
proof -
  have "returns P (handle_effect vm w eff k)" if "\<And>i. eff \<noteq> ReleaseSemaphore i"
    using that handle_spawn_P handle_task_completed_P handle_wait_P handle_gather_P handle_race_P
      handle_cancel_P handle_create_promise_P handle_create_external_promise_P resolve_promise_P
      handle_create_semaphore_P handle_acquire_P introspect_P
    by (cases eff)
      (auto simp: handle_effect_def handle_complete_promise_def handle_fail_promise_def terminal_iff
        intro: triple_ret)
  then show ?thesis
    using handle_release_P [of w _ k]
    by (cases eff) (auto simp: handle_effect_def releases_own_def elim!: triple_weaken)
qed

lemma handle_scheduler_effect_P:
  assumes "P s" and "strict \<longrightarrow> releases_own s w eff" and "handle_scheduler_effect vm w eff k s = (Inr a, s')"
  shows "P s'"
proof -
  obtain u s1 where drained: "drain s = (Inr u, s1)" and run: "handle_effect vm w eff k s1 = (Inr a, s')"
    using assms(3) by (auto simp: handle_scheduler_effect_def py_bind_eq_Inr)
  have "P s1" by (rule keepsD [OF drain_P assms(1) drained])
  moreover have "releases_own s1 w eff = releases_own s w eff"
    using drain_semaphores [OF drained] by (simp add: releases_own_def sem_holders_of_def)
  ultimately show ?thesis using triple_Inr [OF handle_effect_P _ run] assms(2) by blast
qed

end

end
