(* ===== verification/Sched_System.thy ===== *)
theory Sched_System
  imports Sched_Spend Sched_Closed
begin

text \<open>
  The scheduler as a transition system. Its steps are the activations of the effect handler, the
  ends of task wrappers, and what happens outside: completions posted by foreign threads, minted
  futures, the garbage collector and the arrival of more completions. A handler activation is
  given a continuation the scheduler does not hold: the VM mints it at the perform. With \<open>strict\<close>
  the steps are those of programs that release only semaphore permits they hold.
\<close>

definition held_conts :: "sched \<Rightarrow> cont set" where
  "held_conts s = snd ` set_mset (conts s)"

inductive sched_step :: "bool \<Rightarrow> vm \<Rightarrow> sched \<Rightarrow> sched \<Rightarrow> bool" for strict vm where
  Activation: "k \<notin> held_conts s \<Longrightarrow> (strict \<longrightarrow> releases_own s w eff) \<Longrightarrow>
     handle_scheduler_effect vm w eff k s = (Inr a, s') \<Longrightarrow> sched_step strict vm s s'"
| Exit: "wrap_task_exit t x s = (Inr y, s') \<Longrightarrow> sched_step strict vm s s'"
| Posted: "s' = external_complete p v s \<or> s' = external_fail p v s \<Longrightarrow> sched_step strict vm s s'"
| Minted: "mint_future p s = (f, s') \<Longrightarrow> sched_step strict vm s s'"
| Collected: "sched_step strict vm s (s\<lparr>obj_dead := al\<rparr>)"
| Arriving: "sched_step strict vm s (s\<lparr>arrivals := ar\<rparr>)"

inductive reachable :: "bool \<Rightarrow> vm \<Rightarrow> sched \<Rightarrow> bool" for strict vm where
  Start: "reachable strict vm init_sched"
| Step: "reachable strict vm s \<Longrightarrow> sched_step strict vm s s' \<Longrightarrow> reachable strict vm s'"

inductive_cases sched_stepE: "sched_step strict vm s s'"

text \<open>The contract of an invariant of the scheduler, and the induction it buys.\<close>

locale sched_invariant =
  fixes I :: "sched \<Rightarrow> bool" and strict :: bool and vm :: vm
  assumes init: "I init_sched"
    and activation: "I s \<Longrightarrow> k \<notin> held_conts s \<Longrightarrow> (strict \<longrightarrow> releases_own s w eff) \<Longrightarrow>
      handle_scheduler_effect vm w eff k s = (Inr a, s') \<Longrightarrow> I s'"
    and exit: "I s \<Longrightarrow> wrap_task_exit t x s = (Inr y, s') \<Longrightarrow> I s'"
    and queued: "I s \<Longrightarrow> I (s\<lparr>external_queue := q\<rparr>)"
    and handles: "I s \<Longrightarrow> I (register_handle key s)"
    and alive: "I s \<Longrightarrow> I (s\<lparr>obj_dead := al\<rparr>)"
    and coming: "I s \<Longrightarrow> I (s\<lparr>arrivals := ar\<rparr>)"
begin

lemma step: "sched_step strict vm s s' \<Longrightarrow> I s \<Longrightarrow> I s'"
  by (erule sched_stepE)
    (auto simp: external_complete_def external_fail_def mint_future_def
      intro: activation exit queued handles alive coming)

lemma invariant: "reachable strict vm s \<Longrightarrow> I s"
  by (induction rule: reachable.induct) (auto intro: init step)

end

text \<open>A predicate closed under the writes of the handlers is an invariant.\<close>

locale system_closed = handler_closed +
  assumes init: "P init_sched"
    and alive: "P s \<Longrightarrow> P (s\<lparr>obj_dead := al\<rparr>)"
begin

lemma exit_P: "P s \<Longrightarrow> wrap_task_exit t x s = (Inr y, s') \<Longrightarrow> P s'"
  by (rule triple_Inr [OF wrap_task_exit_P])

lemma queue_P: "P s \<Longrightarrow> P (s\<lparr>external_queue := q\<rparr>)" "P s \<Longrightarrow> P (s\<lparr>arrivals := ar\<rparr>)"
  using coming [of s "arrivals s" q] coming [of s ar "external_queue s"] by simp_all

end

sublocale system_closed \<subseteq> sys: sched_invariant P strict vm for vm
  by unfold_locales
    (auto intro: init alive exit_P queue_P handles handle_scheduler_effect_P)

section \<open>One-shot continuations\<close>

definition single :: "sched \<Rightarrow> bool" where
  "single s \<longleftrightarrow> refs_ok s \<and> (\<forall>k. count (image_mset snd (conts s)) k \<le> 1)"

text \<open>The continuation that an activation resumes, throws into, or passes on.\<close>

definition handed :: "exc + action \<Rightarrow> cont option" where
  "handed r = (case r of
      Inr (Resume k v) \<Rightarrow> Some k | Inr (ResumeThrow k e) \<Rightarrow> Some k | Inr (PassEffect e k) \<Rightarrow> Some k
    | Inr (Dispatch (PTransfer k v)) \<Rightarrow> Some k | Inr (Dispatch (PThrow k e)) \<Rightarrow> Some k
    | _ \<Rightarrow> None)"

lemma offers_handed:
  assumes "offers C r s'"
  shows "image_mset snd (conts s') + (case handed r of None \<Rightarrow> {#} | Some k \<Rightarrow> {#k#}) \<subseteq># image_mset snd C"
  using assms image_mset_subseteq_mono [of "conts s'" C snd]
    image_mset_subseteq_mono [of "add_mset (w, k) (conts s')" C snd for w k]
  by (fastforce simp: offers_def spends_def handed_def split: sum.splits action.splits picked.splits)

lemma activation_offers:
  assumes "refs_ok s" and "handle_scheduler_effect vm w eff k s = (r, s')"
  shows "refs_ok s' \<and> offers (add_mset (w, k) (conts s)) r s'"
  using handle_scheduler_effect_answers [of "conts s" vm w eff k] assms
  by (cases r) (auto simp: within_def offers_def dest: triple_Inl triple_Inr)

lemma single_activation:
  assumes "single s" and "k \<notin> held_conts s" and "handle_scheduler_effect vm w eff k s = (r, s')"
  shows "single s'" and "handed r = Some k' \<Longrightarrow> k' \<notin> held_conts s'"
proof -
  let ?C = "image_mset snd (add_mset (w, k) (conts s))"
  have act: "refs_ok s'" "offers (add_mset (w, k) (conts s)) r s'"
    using activation_offers [OF _ assms(3)] assms(1) by (auto simp: single_def)
  have "count (image_mset snd (conts s)) k = 0"
    using assms(2) by (simp add: held_conts_def count_eq_zero_iff)
  then have "count ?C x \<le> 1" for x
    using assms(1) by (auto simp: single_def)
  then have le: "count (image_mset snd (conts s') + (case handed r of None \<Rightarrow> {#} | Some k \<Rightarrow> {#k#})) x \<le> 1" for x
    using mset_subset_eq_count [OF offers_handed [OF act(2)], of x] order_trans by blast
  have "count (image_mset snd (conts s')) x \<le> 1" for x using le [of x] by simp
  with act(1) show "single s'" by (simp add: single_def)
  show "k' \<notin> held_conts s'" if "handed r = Some k'"
    using le [of k'] that by (simp add: held_conts_def count_eq_zero_iff)
qed

lemma single_mono:
  assumes "single s" and "within (conts s) s'"
  shows "single s'"
  using assms mset_subset_eq_count [OF image_mset_subseteq_mono [of "conts s'" "conts s" snd]]
  by (fastforce simp: single_def within_def intro: order_trans)

lemma exit_stays: "stays C (wrap_task_exit t x)"
  unfolding wrap_task_exit_def interrupt_task_def
  by (cases x) (auto intro!: keeps_intro stays_intro split: option.split)

lemma register_handle_same:
  "conts (register_handle key s) = conts s" "refs_ok (register_handle key s) = refs_ok s"
proof -
  have heaps: "same_heaps s (register_handle key s)"
    by (simp add: same_heaps_def register_handle_def Let_def split: option.split)
  show "conts (register_handle key s) = conts s"
    by (simp add: register_handle_def Let_def conts_def)
  show "refs_ok (register_handle key s) = refs_ok s"
    using waiter_ok_heaps [OF heaps] by (simp add: refs_ok_def) (simp add: register_handle_def Let_def)
qed

lemma refs_ok_fields [simp]:
  "refs_ok (s\<lparr>external_queue := q\<rparr>) = refs_ok s" "refs_ok (s\<lparr>obj_dead := al\<rparr>) = refs_ok s"
  "refs_ok (s\<lparr>arrivals := ar\<rparr>) = refs_ok s"
proof -
  have "waiter_ok (s\<lparr>external_queue := q\<rparr>) w = waiter_ok s w" "waiter_ok (s\<lparr>obj_dead := al\<rparr>) w = waiter_ok s w"
    "waiter_ok (s\<lparr>arrivals := ar\<rparr>) w = waiter_ok s w" for w
    by (cases w; simp)+
  then show "refs_ok (s\<lparr>external_queue := q\<rparr>) = refs_ok s" "refs_ok (s\<lparr>obj_dead := al\<rparr>) = refs_ok s"
    "refs_ok (s\<lparr>arrivals := ar\<rparr>) = refs_ok s"
    by (simp_all add: refs_ok_def)
qed

interpretation once: sched_invariant single strict vm for strict vm
proof unfold_locales
  show "single init_sched"
    by (simp add: single_def refs_ok_def conts_def init_sched_def parked_conts_def sem_conts_def)
  show "single s'" if "single s" "k \<notin> held_conts s" "handle_scheduler_effect vm w eff k s = (Inr a, s')" for s k w eff a s'
    by (rule single_activation [OF that])
  show "single s'" if "single s" "wrap_task_exit t x s = (Inr y, s')" for s t x y s'
    using keepsD [OF exit_stays [of "conts s" t x] _ that(2)] single_mono [OF that(1)] that(1)
    by (simp add: within_def single_def)
  show "single (register_handle key s)" if "single s" for s key
    using that by (simp add: single_def register_handle_same)
qed (simp_all add: single_def)

text \<open>
  C1: continuations are one-shot. In every reachable state no continuation is held twice, and an
  activation that resumes, throws into or passes on a continuation hands over the one it was given
  or one the scheduler held, and keeps no copy of it.
\<close>

theorem continuations_are_one_shot:
  assumes "reachable strict vm s" and "k \<notin> held_conts s" and "handle_scheduler_effect vm w eff k s = (r, s')"
  shows "(\<forall>x. count (image_mset snd (conts s)) x \<le> 1) \<and> held_conts s' \<subseteq> insert k (held_conts s) \<and>
         (\<forall>k'. handed r = Some k' \<longrightarrow> k' \<in> insert k (held_conts s) \<and> k' \<notin> held_conts s')"
proof -
  note ok = once.invariant [OF assms(1)]
  have "offers (add_mset (w, k) (conts s)) r s'"
    using activation_offers [OF _ assms(3)] ok by (simp add: single_def)
  note sub = set_mset_mono [OF offers_handed [OF this]]
  then have "k' \<in> insert k (held_conts s)" if "handed r = Some k'" for k'
    using that by (auto simp: held_conts_def)
  with sub ok single_activation(2) [OF ok assms(2,3)] show ?thesis
    by (auto simp: held_conts_def single_def)
qed

end
