(* ===== verification/Sched_Demo.thy ===== *)
theory Sched_Demo
  imports Sched_System
begin

text \<open>
  An example run, at which the witnesses evaluate the scheduler's theorems. The root creates
  promise 0 and spawns task 1, which waits for the promise; then the root cancels the task. In a
  second run the root creates a semaphore and acquires its only permit.
\<close>

definition demo_vm :: vm where
  "demo_vm = \<lparr>vm_boundaries = (\<lambda>k. []), vm_traceback = (\<lambda>k. [])\<rparr>"

definition demo_task :: "status \<Rightarrow> val \<Rightarrow> string option option \<Rightarrow> task_meta" where
  "demo_task st v site = \<lparr>t_status = st, t_result = v, t_program = None, t_priority = 10, t_daemon = False,
     t_boundaries = None, t_spawn_site = site\<rparr>"

definition demo_promise :: sched where
  "demo_promise = init_sched\<lparr>next_id := 1, promises := [(0, fresh_promise)],
     handle_refs := [(WPromise 0, [0])], next_obj := 1\<rparr>"

definition demo_spawned :: sched where
  "demo_spawned = init_sched\<lparr>next_id := 2, insertion_seq := 2, tasks := [(1, demo_task Running VNone (Some None))],
     promises := [(0, fresh_promise)], ready := [(-10, 1, EResume None 5 (VTask 1))],
     handle_refs := [(WPromise 0, [0]), (WTask 1, [1])], next_obj := 2\<rparr>"

definition demo_waiting :: sched where
  "demo_waiting = demo_spawned\<lparr>ready := [], waiters := [(WPromise 0, [WtWait (Some 1) 2 None])]\<rparr>"

definition demo_cancelled :: sched where
  "demo_cancelled = demo_waiting\<lparr>tasks := [(1, demo_task Cancelled cancelled_error None)]\<rparr>"

definition demo_sem :: sched where
  "demo_sem = init_sched\<lparr>next_id := 1, semaphores := [(0, fresh_sem 1)]\<rparr>"

definition demo_held :: sched where
  "demo_held = init_sched\<lparr>next_id := 1, semaphores :=
     [(0, \<lparr>s_permits = 0, s_max_permits = 1, s_waiters = [], s_holders = [None]\<rparr>)]\<rparr>"

lemma demo_runs:
  "handle_scheduler_effect demo_vm None CreatePromise 10 init_sched = (Inr (Resume 10 (VPromise 0)), demo_promise)"
  "handle_scheduler_effect demo_vm None (Spawn (PUser 7) 10 False) 5 demo_promise =
     (Inr (Dispatch (PStart 1 (PUser 7))), demo_spawned)"
  "handle_scheduler_effect demo_vm (Some 1) (Wait (VFuture 0) None) 2 demo_spawned =
     (Inr (Dispatch (PTransfer 5 (VTask 1))), demo_waiting)"
  "handle_scheduler_effect demo_vm None (Cancel (VTask 1)) 3 demo_waiting = (Inr (Resume 3 VNone), demo_cancelled)"
  "handle_scheduler_effect demo_vm None (CreateSemaphore 1) 5 init_sched = (Inr (Resume 5 (VSemaphore 0)), demo_sem)"
  "handle_scheduler_effect demo_vm None (AcquireSemaphore 0) 2 demo_sem = (Inr (Resume 2 VNone), demo_held)"
  by code_simp+

lemma demo_fresh:
  "10 \<notin> held_conts init_sched" "5 \<notin> held_conts init_sched" "5 \<notin> held_conts demo_promise"
  "2 \<notin> held_conts demo_spawned" "3 \<notin> held_conts demo_waiting" "2 \<notin> held_conts demo_sem"
  by code_simp+

lemma reachable_activation:
  assumes "reachable strict vm s" and "k \<notin> held_conts s"
    and "handle_scheduler_effect vm w eff k s = (Inr a, s')" and "\<And>i. eff \<noteq> ReleaseSemaphore i"
  shows "reachable strict vm s'"
  by (rule reachable.Step [OF assms(1) sched_step.Activation [OF assms(2) _ assms(3)]])
    (use assms(4) in \<open>simp add: releases_own_def\<close>)

lemma demo_reachable:
  "reachable strict demo_vm demo_promise" "reachable strict demo_vm demo_spawned"
  "reachable strict demo_vm demo_waiting" "reachable strict demo_vm demo_cancelled"
proof -
  show p: "reachable strict demo_vm demo_promise"
    by (rule reachable_activation [OF reachable.Start demo_fresh(1) demo_runs(1)]) simp
  show s: "reachable strict demo_vm demo_spawned"
    by (rule reachable_activation [OF p demo_fresh(3) demo_runs(2)]) simp
  show w: "reachable strict demo_vm demo_waiting"
    by (rule reachable_activation [OF s demo_fresh(4) demo_runs(3)]) simp
  show "reachable strict demo_vm demo_cancelled"
    by (rule reachable_activation [OF w demo_fresh(5) demo_runs(4)]) simp
qed

lemma demo_sem_reachable: "reachable strict demo_vm demo_sem" "reachable strict demo_vm demo_held"
proof -
  show s: "reachable strict demo_vm demo_sem"
    by (rule reachable_activation [OF reachable.Start demo_fresh(2) demo_runs(5)]) simp
  show "reachable strict demo_vm demo_held"
    by (rule reachable_activation [OF s demo_fresh(6) demo_runs(6)]) simp
qed

lemma continuations_are_one_shot_witness:
  "handed (fst (handle_scheduler_effect demo_vm (Some 1) (Wait (VFuture 0) None) 2 demo_spawned)) = Some 5 \<and>
   5 \<notin> held_conts demo_waiting"
proof -
  have "handed (Inr (Dispatch (PTransfer 5 (VTask 1)))) = Some 5" by (simp add: handed_def)
  with continuations_are_one_shot [OF demo_reachable(2) [of False] demo_fresh(4) demo_runs(3)] show ?thesis
    unfolding demo_runs fst_conv by blast
qed

end
