(* ===== verification/Sched_World.thy ===== *)
theory Sched_World
  imports Sched_Demo
begin

text \<open>
  What no activation can undo: ids are never reused, a cancelled task stays cancelled with its
  result, and a promise is resolved once (afterwards it keeps its outcome until it is swept).
\<close>

definition ids_ok :: "sched \<Rightarrow> bool" where
  "ids_ok s \<longleftrightarrow> (\<forall>t. dget (tasks s) t \<noteq> None \<longrightarrow> t < next_id s) \<and>
                (\<forall>p. dget (promises s) p \<noteq> None \<longrightarrow> p < next_id s) \<and>
                (\<forall>i. dget (semaphores s) i \<noteq> None \<longrightarrow> i < next_id s) \<and>
                distinct (dkeys (tasks s)) \<and> distinct (dkeys (promises s))"

definition task_kept :: "task_meta option \<Rightarrow> task_meta option \<Rightarrow> bool" where
  "task_kept m0 m \<longleftrightarrow> (m0 = None \<longrightarrow> m = None) \<and>
     (\<forall>x. m0 = Some x \<longrightarrow> t_status x = Cancelled \<longrightarrow>
        (\<exists>y. m = Some y \<and> t_status y = Cancelled \<and> t_result y = t_result x))"

definition promise_kept :: "promise_meta option \<Rightarrow> promise_meta option \<Rightarrow> bool" where
  "promise_kept m0 m \<longleftrightarrow> (m0 = None \<longrightarrow> m = None) \<and>
     (\<forall>x. m0 = Some x \<longrightarrow> terminal (p_status x) \<longrightarrow>
        (\<forall>y. m = Some y \<longrightarrow> p_status y = p_status x \<and> p_result y = p_result x))"

lemma task_kept_trans: "task_kept a b \<Longrightarrow> task_kept b c \<Longrightarrow> task_kept a c"
  by (fastforce simp: task_kept_def)

lemma promise_kept_trans: "promise_kept a b \<Longrightarrow> promise_kept b c \<Longrightarrow> promise_kept a c"
  by (cases a; cases b; cases c) (simp_all add: promise_kept_def)

lemma task_kept_refl [simp]: "task_kept a a"
  by (simp add: task_kept_def)

lemma promise_kept_refl [simp]: "promise_kept a a"
  by (simp add: promise_kept_def)

definition later :: "sched \<Rightarrow> sched \<Rightarrow> bool" where
  "later s0 s \<longleftrightarrow> ids_ok s \<and> next_id s0 \<le> next_id s \<and>
     (\<forall>t < next_id s0. task_kept (dget (tasks s0) t) (dget (tasks s) t)) \<and>
     (\<forall>p < next_id s0. promise_kept (dget (promises s0) p) (dget (promises s) p))"

lemma later_refl: "ids_ok s \<Longrightarrow> later s s"
  by (auto simp: later_def task_kept_def promise_kept_def)

lemma later_frame:
  assumes "later s0 s" and "tasks s' = tasks s" and "promises s' = promises s"
    and "next_id s' = next_id s" and "semaphores s' = semaphores s"
  shows "later s0 s'"
  using assms by (simp add: later_def ids_ok_def)

lemma later_sems:
  assumes "later s0 s" and "\<And>i. dget sems i \<noteq> None \<Longrightarrow> dget (semaphores s) i \<noteq> None"
  shows "later s0 (s\<lparr>semaphores := sems\<rparr>)"
  using assms by (simp add: later_def ids_ok_def)

lemma later_tasks:
  assumes "later s0 s" and "distinct (dkeys ts)"
    and "\<And>t. dget ts t \<noteq> None \<Longrightarrow> t < next_id s"
    and "\<And>t. t < next_id s0 \<Longrightarrow> task_kept (dget (tasks s) t) (dget ts t)"
  shows "later s0 (s\<lparr>tasks := ts\<rparr>)"
proof -
  have "task_kept (dget (tasks s0) t) (dget ts t)" if "t < next_id s0" for t
    using assms(1) that by (intro task_kept_trans [OF _ assms(4) [OF that]]) (simp add: later_def)
  with assms(1,2,3) show ?thesis by (simp add: later_def ids_ok_def)
qed

lemma later_promises:
  assumes "later s0 s" and "distinct (dkeys ps)"
    and "\<And>p. dget ps p \<noteq> None \<Longrightarrow> p < next_id s"
    and "\<And>p. p < next_id s0 \<Longrightarrow> promise_kept (dget (promises s) p) (dget ps p)"
  shows "later s0 (s\<lparr>promises := ps\<rparr>)"
proof -
  have "promise_kept (dget (promises s0) p) (dget ps p)" if p: "p < next_id s0" for p
    using assms(1) p by (intro promise_kept_trans [OF _ assms(4) [OF p]]) (simp add: later_def)
  with assms(1,2,3) show ?thesis by (simp add: later_def ids_ok_def)
qed

lemma later_ids:
  assumes "later s0 s"
  shows "dget (tasks s) t \<noteq> None \<Longrightarrow> t < next_id s" "dget (promises s) p \<noteq> None \<Longrightarrow> p < next_id s"
    "dget (semaphores s) i \<noteq> None \<Longrightarrow> i < next_id s"
    "distinct (dkeys (tasks s))" "distinct (dkeys (promises s))" "next_id s0 \<le> next_id s"
  using assms by (simp_all add: later_def ids_ok_def)

text \<open>The ids in use after an entry was added under a valid id.\<close>

lemma ids_after_put:
  assumes "\<And>x. dget d x \<noteq> None \<Longrightarrow> x < n" and "k < n" and "dget (dput k v d) x \<noteq> None"
  shows "x < (n :: nat)"
  using assms by (cases "x = k") simp_all

lemma later_task:
  assumes "later s0 s" and "dget (tasks s) t = Some m"
    and "t_status m = Cancelled \<Longrightarrow> t_status m' = Cancelled \<and> t_result m' = t_result m"
  shows "later s0 (s\<lparr>tasks := dput t m' (tasks s)\<rparr>)"
proof (rule later_tasks [OF assms(1)])
  have kept: "task_kept (Some m) (Some m')" using assms(3) by (simp add: task_kept_def)
  show "task_kept (dget (tasks s) x) (dget (dput t m' (tasks s)) x)" for x
    using kept assms(2) by (cases "x = t") simp_all
  show "x < next_id s" if "dget (dput t m' (tasks s)) x \<noteq> None" for x
    using that later_ids(1) [OF assms(1)] assms(2) by (cases "x = t") auto
qed (rule distinct_dput, rule later_ids(4) [OF assms(1)])

lemma later_promise:
  assumes "later s0 s" and "dget (promises s) p = Some m"
    and "terminal (p_status m) \<Longrightarrow> p_status m' = p_status m \<and> p_result m' = p_result m"
  shows "later s0 (set_promise p m' s)"
  unfolding set_promise_def
proof (rule later_promises [OF assms(1)])
  have kept: "promise_kept (Some m) (Some m')" using assms(3) by (simp add: promise_kept_def)
  show "promise_kept (dget (promises s) x) (dget (dput p m' (promises s)) x)" for x
    using kept assms(2) by (cases "x = p") simp_all
  show "x < next_id s" if "dget (dput p m' (promises s)) x \<noteq> None" for x
    using that later_ids(2) [OF assms(1)] assms(2) by (cases "x = p") auto
qed (rule distinct_dput, rule later_ids(5) [OF assms(1)])

interpretation later: wake_closed "later s0" for s0
  by unfold_locales
    (erule later_frame; simp add: enqueue_def claim_cell_def set_gather_def set_race_def)+

interpretation later_delivery: deliver_closed "later s0" for s0
proof unfold_locales
  show "later s0 (snd (wake_waiters (WPromise p) (set_promise p (resolved m st v) s)))"
    if "later s0 s" "dget (promises s) p = Some m" "p_status m = Pending" "terminal st" for s p m st v
    by (rule later.after_wake, rule later_promise [OF that(1,2)]) (use that(3) in \<open>simp add: terminal_iff\<close>)
  show "later s0 (s\<lparr>external_queue := tl (external_queue s)\<rparr>)" if "later s0 s" for s
    by (rule later_frame [OF that]) simp_all
qed

lemma dget_map_values: "dget (map (\<lambda>(k, v). (k, f v)) d) k = map_option f (dget d k)"
  by (induction d) auto

lemma later_set_sem: "later s0 s \<Longrightarrow> dget (semaphores s) i = Some m \<Longrightarrow> later s0 (set_sem i m' s)"
  unfolding set_sem_def by (erule later_sems) (simp split: if_splits)

lemma grant_later: "later s0 s \<Longrightarrow> grant_permit_to_next_waiter i s = (r, s') \<Longrightarrow> later s0 s'"
  by (erule grant_cases) (auto intro: later_set_sem later.enq)

lemma return_later: "later s0 s \<Longrightarrow> return_inflight_permit i w s = (r, s') \<Longrightarrow> later s0 s'"
  by (erule return_inflight_cases) (auto intro: later_set_sem grant_later)

interpretation later_dispatch: dispatch_closed "later s0" for s0
proof unfold_locales
  show "later s0 (s\<lparr>ready := h\<rparr>)" if "later s0 s" for s h
    by (rule later_frame [OF that]) simp_all
  show "later s0 (s\<lparr>external_queue := q, arrivals := a\<rparr>)" if "later s0 s" for s q a
    by (rule later_frame [OF that]) simp_all
  show "later s0 s'" if "later s0 s" "live_semaphore_waiters s = (b, s')" for s b s'
    using that by (auto simp: live_semaphore_waiters_def dget_map_values [where f = "\<lambda>sem. sem\<lparr>s_waiters := live_sem_waiters s sem\<rparr>"] intro!: later_sems)
  show "later s0 s'" if "later s0 s" "dget (tasks s) t = Some m" "t_status m \<noteq> Cancelled"
    "start_task t m s = (r, s')" for s t m r s'
    using that later_task [OF that(1,2)] by (auto simp: start_task_def split: option.splits)
  show "later s0 s'" if "later s0 s" "is_owner_cancelled s w" "return_inflight_permit i w s = (Inr u, s')" for s w i u s'
    using that return_later by blast
qed

section \<open>The sweep\<close>

lemma dget_fold_ddel: "dget (fold ddel ks d) k = (if k \<in> set ks then None else dget d k)"
  by (induction ks arbitrary: d) auto

lemma distinct_fold_ddel: "distinct (dkeys d) \<Longrightarrow> distinct (dkeys (fold ddel ks d))"
  by (induction ks arbitrary: d) auto


lemma dead_ids_terminal:
  assumes "distinct (dkeys store)" and "k \<in> set (dead_ids s mk st store)" and "dget store k = Some m"
  shows "st m = Completed \<or> st m = Failed"
proof -
  obtain m' where "(k, m') \<in> set store" and "st m' = Completed \<or> st m' = Failed"
    using assms(2) by (auto simp: dead_ids_def sweepable_def)
  moreover have "m' = m"
    using map_of_is_SomeI [OF assms(1) \<open>(k, m') \<in> set store\<close>] assms(3) by simp
  ultimately show ?thesis by simp
qed

lemma later_forget: "later s0 s \<Longrightarrow> later s0 (forget_handles ks s)"
  by (erule later_frame) (simp_all add: forget_handles_def)

lemma sweep_tasks_later:
  assumes "later s0 s"
  shows "later s0 (sweep_tasks s)"
proof -
  let ?dead = "dead_ids s WTask t_status (tasks s)"
  have "later s0 (s\<lparr>tasks := fold ddel ?dead (tasks s)\<rparr>)"
  proof (rule later_tasks [OF assms])
    show "t < next_id s" if "dget (fold ddel ?dead (tasks s)) t \<noteq> None" for t
      using that later_ids(1) [OF assms] by (auto simp: dget_fold_ddel split: if_splits)
    show "task_kept (dget (tasks s) t) (dget (fold ddel ?dead (tasks s)) t)" for t
      using dead_ids_terminal [OF later_ids(4) [OF assms], of t s WTask t_status]
      by (auto simp: dget_fold_ddel task_kept_def)
  qed (rule distinct_fold_ddel, rule later_ids(4) [OF assms])
  then show ?thesis by (simp add: sweep_tasks_def Let_def later_forget)
qed

lemma sweep_promises_later:
  assumes "later s0 s"
  shows "later s0 (sweep_promises s)"
proof -
  let ?dead = "dead_ids s WPromise p_status (promises s)"
  have "later s0 (s\<lparr>promises := fold ddel ?dead (promises s)\<rparr>)"
  proof (rule later_promises [OF assms])
    show "p < next_id s" if "dget (fold ddel ?dead (promises s)) p \<noteq> None" for p
      using that later_ids(2) [OF assms] by (auto simp: dget_fold_ddel split: if_splits)
    show "promise_kept (dget (promises s) p) (dget (fold ddel ?dead (promises s)) p)" for p
      by (simp add: dget_fold_ddel promise_kept_def)
  qed (rule distinct_fold_ddel, rule later_ids(5) [OF assms])
  then show ?thesis by (simp add: sweep_promises_def Let_def later_forget)
qed

lemma sweep_next_id [simp]:
  "next_id (sweep_terminal_unobserved_entries s) = next_id s"
  by (simp add: sweep_terminal_unobserved_entries_def sweep_tasks_def sweep_promises_def
      forget_handles_def Let_def)

lemma fresh_id_later:
  assumes "later s0 s" and "fresh_id s = (r, s')"
  shows "later s0 s'" and "r = Inr (next_id s)" and "next_id s' = Suc (next_id s)"
proof -
  have "later s0 (s\<lparr>next_id := Suc (next_id s)\<rparr>)"
    using assms(1) by (fastforce simp: later_def ids_ok_def intro: less_SucI)
  then have "later s0 (sweep_terminal_unobserved_entries (s\<lparr>next_id := Suc (next_id s)\<rparr>))"
    unfolding sweep_terminal_unobserved_entries_def by (intro sweep_promises_later sweep_tasks_later)
  with \<open>later s0 (s\<lparr>next_id := Suc (next_id s)\<rparr>)\<close>
  show "later s0 s'" and "r = Inr (next_id s)" and "next_id s' = Suc (next_id s)"
    using assms(2) by (auto simp: fresh_id_def Let_def split: if_splits)
qed

lemma fresh_id_facts:
  assumes "later s0 s" and "fresh_id s = (Inr t, s1)"
  shows "later s0 s1" "t = next_id s" "next_id s1 = Suc (next_id s)" "next_id s0 \<le> next_id s"
  using fresh_id_later [OF assms] later_ids(6) [OF assms(1)] by simp_all

section \<open>The handlers\<close>

lemma release_later: "later s0 s \<Longrightarrow> handle_release w k i s = (Inr a, s') \<Longrightarrow> later s0 s'"
  unfolding handle_release_def py_bind_eq_Inr
  by (auto simp: py_bind_eq_Inr split: if_splits dest!: get_sem_state intro: later_set_sem grant_later)

lemma later_add_waiter: "later s0 s \<Longrightarrow> later s0 (add_waiter wk x s)"
  by (erule later_frame) (simp_all add: add_waiter_def)

interpretation world: handler_closed "later s0" False for s0
proof unfold_locales
  fix s t s1 and pg :: prog and prio :: int and daemon :: bool and bs :: "(string \<times> nat) list"
  assume fresh: "later s0 s" "fresh_id s = (Inr t, s1)"
  note s1 = fresh_id_facts(1) [OF fresh] and t = fresh_id_facts(2,3) [OF fresh] and le = fresh_id_facts(4) [OF fresh]
  show "later s0 (s1\<lparr>tasks := dput t (fresh_task pg prio daemon bs) (tasks s1)\<rparr>)"
  proof (rule later_tasks [OF s1])
    show "x < next_id s1" if "dget (dput t (fresh_task pg prio daemon bs) (tasks s1)) x \<noteq> None" for x
      by (rule ids_after_put [OF _ _ that], erule later_ids(1) [OF s1]) (simp add: t)
    show "task_kept (dget (tasks s1) x) (dget (dput t (fresh_task pg prio daemon bs) (tasks s1)) x)"
      if "x < next_id s0" for x using that t le by simp
  qed (rule distinct_dput, rule later_ids(4) [OF s1])
next
  fix s p s1
  assume fresh: "later s0 s" "fresh_id s = (Inr p, s1)"
  note s1 = fresh_id_facts(1) [OF fresh] and p = fresh_id_facts(2,3) [OF fresh] and le = fresh_id_facts(4) [OF fresh]
  show "later s0 (s1\<lparr>promises := dput p fresh_promise (promises s1)\<rparr>)"
  proof (rule later_promises [OF s1])
    show "x < next_id s1" if "dget (dput p fresh_promise (promises s1)) x \<noteq> None" for x
      by (rule ids_after_put [OF _ _ that], erule later_ids(2) [OF s1]) (simp add: p)
    show "promise_kept (dget (promises s1) x) (dget (dput p fresh_promise (promises s1)) x)"
      if "x < next_id s0" for x using that p le by simp
  qed (rule distinct_dput, rule later_ids(5) [OF s1])
next
  fix s i s1 and n :: int
  assume fresh: "later s0 s" "fresh_id s = (Inr i, s1)"
  note s1 = fresh_id_facts(1) [OF fresh] and i = fresh_id_facts(2,3) [OF fresh] and le = fresh_id_facts(4) [OF fresh]
  show "later s0 (set_sem i (fresh_sem n) s1)"
    using s1 i by (simp add: later_def ids_ok_def set_sem_def)
next
  fix s p m assume "later s0 s" and "dget (promises s) p = Some m"
  then show "later s0 (set_promise p (m\<lparr>p_external := True\<rparr>) s)"
    by (rule later_promise) simp
next
  fix s t x assume "later s0 s"
  then show "later s0 (set_spawn_site t x s)"
    using later_task by (auto simp: set_spawn_site_def split: option.split)
next
  fix s t assume "later s0 s"
  then show "later s0 (release_task_refs t s)"
    using later_task by (auto simp: release_task_refs_def split: option.split)
next
  fix s key assume "later s0 s"
  then show "later s0 (register_handle key s)"
    by (rule later_frame) (simp_all add: register_handle_def Let_def)
next
  fix s t tm st v
  assume "later s0 s" "dget (tasks s) t = Some tm" "t_status tm \<noteq> Cancelled" "terminal st"
  then show "later s0 (snd (wake_waiters (WTask t) (set_task t (tm\<lparr>t_status := st, t_result := v\<rparr>) s)))"
    unfolding set_task_def by (intro later.after_wake) (erule later_task, assumption, blast)
qed (erule later_frame later_add_waiter later_set_sem release_later; simp)+


lemma ids_ok_step:
  "ids_ok s \<Longrightarrow> handle_scheduler_effect vm w eff k s = (Inr a, s') \<Longrightarrow> later s s'"
  "ids_ok s \<Longrightarrow> wrap_task_exit t x s = (Inr y, s') \<Longrightarrow> later s s'"
  by (auto intro: world.handle_scheduler_effect_P [OF later_refl] triple_Inr [OF world.wrap_task_exit_P later_refl])

lemma ids_ok_same:
  "ids_ok s \<Longrightarrow> tasks s' = tasks s \<Longrightarrow> promises s' = promises s \<Longrightarrow> semaphores s' = semaphores s \<Longrightarrow>
   next_id s' = next_id s \<Longrightarrow> ids_ok s'"
  by (simp add: ids_ok_def)

interpretation ids: sched_invariant ids_ok strict vm for strict vm
proof unfold_locales
  show "ids_ok init_sched" by (simp add: ids_ok_def init_sched_def)
  show "ids_ok s'" if "ids_ok s" "handle_scheduler_effect vm w eff k s = (Inr a, s')" for s k w eff a s'
    using ids_ok_step(1) [OF that] by (simp add: later_def)
  show "ids_ok s'" if "ids_ok s" "wrap_task_exit t x s = (Inr y, s')" for s t x y s'
    using ids_ok_step(2) [OF that] by (simp add: later_def)
qed (erule ids_ok_same; simp add: register_handle_def Let_def)+

text \<open>
  C4: what an activation of a reachable scheduler can never undo. A cancelled task stays cancelled
  with the same result; a resolved promise keeps its status and result for as long as it is stored;
  and an id that was handed out before is never given to a new task or promise.
\<close>

theorem outcomes_are_final:
  assumes "reachable strict vm s" and "handle_scheduler_effect vm w eff k s = (Inr a, s')"
  shows "(\<forall>t m. dget (tasks s) t = Some m \<and> t_status m = Cancelled \<longrightarrow>
            (\<exists>m'. dget (tasks s') t = Some m' \<and> t_status m' = Cancelled \<and> t_result m' = t_result m)) \<and>
         (\<forall>p m m'. dget (promises s) p = Some m \<and> terminal (p_status m) \<and> dget (promises s') p = Some m' \<longrightarrow>
            p_status m' = p_status m \<and> p_result m' = p_result m) \<and>
         (\<forall>i. i < next_id s \<longrightarrow> (dget (tasks s) i = None \<longrightarrow> dget (tasks s') i = None) \<and>
                               (dget (promises s) i = None \<longrightarrow> dget (promises s') i = None))"
proof -
  note ok = ids.invariant [OF assms(1)]
  note kept = ids_ok_step(1) [OF ok assms(2)] and ids = later_ids [OF later_refl [OF ok]]
  have tk: "task_kept (dget (tasks s) t) (dget (tasks s') t)" if "t < next_id s" for t
    using kept that by (simp add: later_def)
  have pk: "promise_kept (dget (promises s) p) (dget (promises s') p)" if "p < next_id s" for p
    using kept that by (simp add: later_def)
  have "\<exists>m'. dget (tasks s') t = Some m' \<and> t_status m' = Cancelled \<and> t_result m' = t_result m"
    if "dget (tasks s) t = Some m" "t_status m = Cancelled" for t m
    using tk [of t] ids(1) [of t] that by (simp add: task_kept_def)
  moreover have "p_status m' = p_status m \<and> p_result m' = p_result m"
    if "dget (promises s) p = Some m" "terminal (p_status m)" "dget (promises s') p = Some m'" for p m m'
    using pk [of p] ids(2) [of p] that by (simp add: promise_kept_def)
  moreover have "dget (tasks s') i = None" if "i < next_id s" "dget (tasks s) i = None" for i
    using tk [OF that(1)] that(2) by (simp add: task_kept_def)
  moreover have "dget (promises s') i = None" if "i < next_id s" "dget (promises s) i = None" for i
    using pk [OF that(1)] that(2) by (simp add: promise_kept_def)
  ultimately show ?thesis by blast
qed

definition demo_completed :: sched where
  "demo_completed = snd (handle_scheduler_effect demo_vm None (CompletePromise 0 (VObj 9)) 4 demo_cancelled)"

lemma outcomes_are_final_witness:
  "\<exists>m. dget (tasks demo_completed) 1 = Some m \<and> t_status m = Cancelled"
proof -
  have "fst (handle_scheduler_effect demo_vm None (CompletePromise 0 (VObj 9)) 4 demo_cancelled) =
      Inr (Dispatch (PTransfer 4 VNone))" by code_simp
  then have run: "handle_scheduler_effect demo_vm None (CompletePromise 0 (VObj 9)) 4 demo_cancelled =
      (Inr (Dispatch (PTransfer 4 VNone)), demo_completed)"
    by (metis demo_completed_def prod.collapse)
  have "dget (tasks demo_cancelled) 1 = Some (demo_task Cancelled cancelled_error None)"
    by (simp add: demo_cancelled_def)
  moreover have "t_status (demo_task Cancelled cancelled_error None) = Cancelled" by (simp add: demo_task_def)
  ultimately show ?thesis using outcomes_are_final [OF demo_reachable(4) [of False] run] by blast
qed

end
