(* ===== verification/Sched_Parked.thy ===== *)
theory Sched_Parked
  imports Sched_World
begin

text \<open>
  No lost wake-up: in every reachable state every registration in \<open>waiters\<close> is under a task or
  promise that is known and not yet resolved. Whatever resolves one wakes all its waiters, and
  nothing is ever registered under a resolved one.
\<close>

definition parked_unresolved :: "sched \<Rightarrow> bool" where
  "parked_unresolved s \<longleftrightarrow> (\<forall>(key, ws) \<in> set (waiters s). unresolved s key)"

lemma parked_shrink:
  assumes "parked_unresolved s" and "shrinks (waiters s') (waiters s)"
    and "\<And>key. unresolved s key \<Longrightarrow> unresolved s' key"
  shows "parked_unresolved s'"
  using assms unfolding parked_unresolved_def shrinks_def by fastforce

lemma unresolved_put_task:
  "unresolved (set_task t m s) key \<longleftrightarrow> (if key = WTask t then \<not> terminal (t_status m) else unresolved s key)"
  by (cases key) (auto simp: unresolved_def lookup_status_def set_task_def)

lemma unresolved_put_promise:
  "unresolved (set_promise p m s) key \<longleftrightarrow> (if key = WPromise p then \<not> terminal (p_status m) else unresolved s key)"
  by (cases key) (auto simp: unresolved_def lookup_status_def set_promise_def)

lemma parked_frame:
  assumes "parked_unresolved s" and "shrinks (waiters s') (waiters s)"
    and "tasks s' = tasks s" and "promises s' = promises s"
  shows "parked_unresolved s'"
  by (rule parked_shrink [OF assms(1,2)]) (simp add: unresolved_same [OF assms(3,4)])

interpretation parked_wake: wake_closed parked_unresolved
  by unfold_locales
    (erule parked_frame; simp add: enqueue_def claim_cell_def set_gather_def set_race_def)+

text \<open>A resolution followed by the wake of the resolved key.\<close>

lemma wake_resolved:
  assumes "parked_unresolved s" and "waiters s1 = waiters s"
    and "\<And>k. k \<noteq> key \<Longrightarrow> unresolved s k \<Longrightarrow> unresolved s1 k"
  shows "parked_unresolved (snd (wake_waiters key s1))"
proof (rule parked_wake.after_pop)
  have "unresolved s1 k" if "(k, ws) \<in> set (ddel key (waiters s))" for k ws
    using that assms(1,3) by (auto simp: parked_unresolved_def AList.delete_eq)
  moreover have "unresolved (s1\<lparr>waiters := x\<rparr>) k = unresolved s1 k" for x k
    by (rule unresolved_same) simp_all
  ultimately show "parked_unresolved (s1\<lparr>waiters := ddel key (waiters s1)\<rparr>)"
    using assms(2) by (auto simp: parked_unresolved_def)
qed

interpretation parked_delivery: deliver_closed parked_unresolved
proof unfold_locales
  show "parked_unresolved (snd (wake_waiters (WPromise p) (set_promise p (resolved m st v) s)))"
    if "parked_unresolved s" for s p m st v
    by (rule wake_resolved [OF that]) (simp_all add: unresolved_put_promise, simp add: set_promise_def)
qed (erule parked_frame; simp)

lemma set_sem_fields [simp]:
  "waiters (set_sem i m s) = waiters s" "tasks (set_sem i m s) = tasks s" "promises (set_sem i m s) = promises s"
  by (simp_all add: set_sem_def)

lemma enqueue_more [simp]:
  "waiters (enqueue e p s) = waiters s" "tasks (enqueue e p s) = tasks s" "promises (enqueue e p s) = promises s"
  by (simp_all add: enqueue_def)

lemma grant_fields:
  "grant_permit_to_next_waiter i s = (r, s') \<Longrightarrow>
   waiters s' = waiters s \<and> tasks s' = tasks s \<and> promises s' = promises s"
  by (erule grant_cases) simp_all

lemma return_fields:
  "return_inflight_permit i w s = (r, s') \<Longrightarrow>
   waiters s' = waiters s \<and> tasks s' = tasks s \<and> promises s' = promises s"
  by (erule return_inflight_cases) (auto dest!: grant_fields)

lemma release_fields:
  "handle_release w k i s = (Inr a, s') \<Longrightarrow>
   waiters s' = waiters s \<and> tasks s' = tasks s \<and> promises s' = promises s"
  unfolding handle_release_def py_bind_eq_Inr
  by (auto simp: py_bind_eq_Inr split: if_splits dest!: get_sem_state grant_fields)

lemma parked_task:
  assumes "parked_unresolved s" and "\<not> terminal (t_status m)"
  shows "parked_unresolved (s\<lparr>tasks := dput t m (tasks s)\<rparr>)"
  by (rule parked_shrink [OF assms(1)])
    (use assms(2) unresolved_put_task [of t m s] in \<open>simp_all add: set_task_def\<close>)

lemma parked_promise:
  assumes "parked_unresolved s" and "\<not> terminal (p_status m)"
  shows "parked_unresolved (s\<lparr>promises := dput p m (promises s)\<rparr>)"
  by (rule parked_shrink [OF assms(1)])
    (use assms(2) unresolved_put_promise [of p m s] in \<open>simp_all add: set_promise_def\<close>)

interpretation parked_dispatch: dispatch_closed parked_unresolved
proof unfold_locales
  show "parked_unresolved s'" if "parked_unresolved s" "live_semaphore_waiters s = (b, s')" for s b s'
    by (rule parked_frame [OF that(1)]) (use that(2) in \<open>auto simp: live_semaphore_waiters_def\<close>)
  show "parked_unresolved s'" if "parked_unresolved s" "dget (tasks s) t = Some m" "t_status m \<noteq> Cancelled"
    "start_task t m s = (r, s')" for s t m r s'
    using that(4) parked_task [OF that(1)] by (auto simp: start_task_def terminal_iff split: option.splits)
  show "parked_unresolved s'" if "parked_unresolved s" "is_owner_cancelled s w"
    "return_inflight_permit i w s = (Inr u, s')" for s w i u s'
    by (rule parked_frame [OF that(1)]) (use return_fields [OF that(3)] in simp_all)
qed (erule parked_frame; simp)+

section \<open>The sweep spares what somebody waits for\<close>

lemma dead_not_waited:
  assumes "k \<in> set (dead_ids s mk st store)"
  shows "mk k \<notin> fst ` set (waiters s)"
proof -
  have "dget (waiters s) (mk k) = None" using assms by (auto simp: dead_ids_def sweepable_def)
  then show ?thesis by (simp add: map_of_eq_None_iff)
qed

lemma parked_forget: "parked_unresolved (forget_handles ks s) = parked_unresolved s"
proof -
  have "unresolved (forget_handles ks s) key = unresolved s key" for key
    by (rule unresolved_same) (simp_all add: forget_handles_def)
  then show ?thesis by (simp add: parked_unresolved_def)
qed

lemma parked_sweep_tasks: "parked_unresolved s \<Longrightarrow> parked_unresolved (sweep_tasks s)"
proof -
  assume P: "parked_unresolved s"
  let ?dead = "dead_ids s WTask t_status (tasks s)"
  have "unresolved (s\<lparr>tasks := fold ddel ?dead (tasks s)\<rparr>) key" if "(key, ws) \<in> set (waiters s)" for key ws
  proof -
    have "t \<notin> set ?dead" if "key = WTask t" for t
      using dead_not_waited [of t s WTask t_status "tasks s"] \<open>(key, ws) \<in> set (waiters s)\<close> that
      by force
    moreover have "unresolved s key" using P that by (auto simp: parked_unresolved_def)
    ultimately show ?thesis
      by (cases key) (auto simp: unresolved_def lookup_status_def dget_fold_ddel)
  qed
  then have "parked_unresolved (s\<lparr>tasks := fold ddel ?dead (tasks s)\<rparr>)"
    by (auto simp: parked_unresolved_def)
  then show ?thesis by (simp add: sweep_tasks_def Let_def parked_forget)
qed

lemma parked_sweep_promises: "parked_unresolved s \<Longrightarrow> parked_unresolved (sweep_promises s)"
proof -
  assume P: "parked_unresolved s"
  let ?dead = "dead_ids s WPromise p_status (promises s)"
  have "unresolved (s\<lparr>promises := fold ddel ?dead (promises s)\<rparr>) key" if "(key, ws) \<in> set (waiters s)" for key ws
  proof -
    have "p \<notin> set ?dead" if "key = WPromise p" for p
      using dead_not_waited [of p s WPromise p_status "promises s"] \<open>(key, ws) \<in> set (waiters s)\<close> that
      by force
    moreover have "unresolved s key" using P that by (auto simp: parked_unresolved_def)
    ultimately show ?thesis
      by (cases key) (auto simp: unresolved_def lookup_status_def dget_fold_ddel)
  qed
  then have "parked_unresolved (s\<lparr>promises := fold ddel ?dead (promises s)\<rparr>)"
    by (auto simp: parked_unresolved_def)
  then show ?thesis by (simp add: sweep_promises_def Let_def parked_forget)
qed

lemma parked_fresh_id: "parked_unresolved s \<Longrightarrow> fresh_id s = (r, s') \<Longrightarrow> parked_unresolved s'"
proof -
  assume P: "parked_unresolved s" and run: "fresh_id s = (r, s')"
  have "parked_unresolved (s\<lparr>next_id := Suc (next_id s)\<rparr>)"
    by (rule parked_frame [OF P]) simp_all
  then show ?thesis
    using run parked_sweep_promises [OF parked_sweep_tasks]
    by (auto simp: fresh_id_def Let_def sweep_terminal_unobserved_entries_def)
qed

section \<open>The invariant\<close>

lemma parked_same_status:
  assumes "parked_unresolved s" and "waiters s' = waiters s"
    and "\<And>key. unresolved s' key = unresolved s key"
  shows "parked_unresolved s'"
  using assms by (simp add: parked_unresolved_def)

lemma unresolved_field:
  assumes "dget (tasks s) t = Some m" and "t_status m' = t_status m"
  shows "unresolved (s\<lparr>tasks := dput t m' (tasks s)\<rparr>) key = unresolved s key"
  using assms by (cases key) (auto simp: unresolved_def lookup_status_def)

lemma parked_add_waiter:
  assumes "parked_unresolved s" and "unresolved s wk"
  shows "parked_unresolved (add_waiter wk x s)"
proof -
  have "unresolved (add_waiter wk x s) key = unresolved s key" for key
    by (rule unresolved_same) (simp_all add: add_waiter_def)
  moreover have "(key, ws) \<in> set (waiters (add_waiter wk x s)) \<Longrightarrow> key = wk \<or> (key, ws) \<in> set (waiters s)" for key ws
    by (simp add: add_waiter_def dappend_def, drule subsetD [OF set_dput], elim insertE) simp_all
  ultimately show ?thesis using assms unfolding parked_unresolved_def by blast
qed

interpretation parked: system_closed parked_unresolved strict for strict
proof unfold_locales
  fix s t s1 and pg :: prog and prio :: int and daemon :: bool and bs :: "(string \<times> nat) list"
  assume P: "parked_unresolved s" and fresh: "fresh_id s = (Inr t, s1)"
  show "parked_unresolved (s1\<lparr>tasks := dput t (fresh_task pg prio daemon bs) (tasks s1)\<rparr>)"
    by (rule parked_task [OF parked_fresh_id [OF P fresh]]) (simp add: terminal_iff)
next
  fix s p s1 assume P: "parked_unresolved s" and fresh: "fresh_id s = (Inr p, s1)"
  show "parked_unresolved (s1\<lparr>promises := dput p fresh_promise (promises s1)\<rparr>)"
    by (rule parked_promise [OF parked_fresh_id [OF P fresh]]) (simp add: terminal_iff)
next
  fix s i s1 and n :: int assume "parked_unresolved s" and "fresh_id s = (Inr i, s1)"
  then have "parked_unresolved s1" by (rule parked_fresh_id)
  then show "parked_unresolved (set_sem i (fresh_sem n) s1)" by (rule parked_frame) simp_all
next
  fix s p m assume P: "parked_unresolved s" and m: "dget (promises s) p = Some m"
  have "unresolved (set_promise p (m\<lparr>p_external := True\<rparr>) s) key = unresolved s key" for key
    using m by (cases key) (auto simp: unresolved_def lookup_status_def set_promise_def)
  then show "parked_unresolved (set_promise p (m\<lparr>p_external := True\<rparr>) s)"
    by (intro parked_same_status [OF P]) (simp_all add: set_promise_def)
next
  fix s t x assume P: "parked_unresolved s"
  then show "parked_unresolved (set_spawn_site t x s)"
    by (auto simp: set_spawn_site_def unresolved_field split: option.split intro!: parked_same_status [OF P])
next
  fix s t assume P: "parked_unresolved s"
  then show "parked_unresolved (release_task_refs t s)"
    by (auto simp: release_task_refs_def unresolved_field split: option.split intro!: parked_same_status [OF P])
next
  fix s key assume "parked_unresolved s"
  then show "parked_unresolved (register_handle key s)"
    by (rule parked_frame) (simp_all add: register_handle_def Let_def)
next
  fix s t tm st v assume P: "parked_unresolved s" and "dget (tasks s) t = Some tm"
  show "parked_unresolved (snd (wake_waiters (WTask t) (set_task t (tm\<lparr>t_status := st, t_result := v\<rparr>) s)))"
    by (rule wake_resolved [OF P]) (simp_all add: unresolved_put_task, simp add: set_task_def)
next
  fix s wk wt assume "parked_unresolved s" "unresolved s wk"
  then show "parked_unresolved (add_waiter wk wt s)" by (rule parked_add_waiter)
next
  fix s w i k a s' assume P: "parked_unresolved s" and run: "handle_release w k i s = (Inr a, s')"
  show "parked_unresolved s'" by (rule parked_frame [OF P]) (use release_fields [OF run] in simp_all)
next
  show "parked_unresolved init_sched" by (simp add: parked_unresolved_def init_sched_def)
qed (erule parked_frame; simp)+

text \<open>
  C2: no lost wake-ups. Every continuation that a reachable scheduler keeps registered under a
  task or promise waits for something that is stored and not yet resolved. In particular the
  sweep never drops an entry that somebody waits for, and a resolution leaves no waiter behind.
\<close>

theorem waiters_wait_for_unresolved:
  assumes "reachable strict vm s" and "dget (waiters s) key = Some ws"
  shows "\<exists>st v. lookup_status s key = Some (st, v) \<and> \<not> terminal st"
proof -
  have "parked_unresolved s" by (rule parked.sys.invariant [OF assms(1)])
  then have "unresolved s key" using map_of_SomeD [OF assms(2)] by (auto simp: parked_unresolved_def)
  then show ?thesis by (auto simp: unresolved_def split: option.splits)
qed

lemma waiters_wait_for_unresolved_witness:
  "\<exists>st v. lookup_status demo_waiting (WPromise 0) = Some (st, v) \<and> \<not> terminal st"
proof -
  have "dget (waiters demo_waiting) (WPromise 0) = Some [WtWait (Some 1) 2 None]"
    by (simp add: demo_waiting_def)
  from waiters_wait_for_unresolved [OF demo_reachable(3) [of False] this] show ?thesis .
qed

end
