(* ===== verification/Sched_Permits.thy ===== *)
theory Sched_Permits
  imports Sched_Parked
begin

text \<open>
  Semaphore permits under programs that release only what they hold: none is lost or duplicated
  by acquire, release, hand-over or the return of a permit in flight to a cancelled task, and a
  permit is never idle while a task that is not cancelled waits for one.
\<close>

definition sem_ok :: "sched \<Rightarrow> sem_meta \<Rightarrow> bool" where
  "sem_ok s sem \<longleftrightarrow> 0 \<le> s_permits sem \<and> s_permits sem + int (length (s_holders sem)) = s_max_permits sem \<and>
     (s_permits sem > 0 \<longrightarrow> (\<forall>(w, k) \<in> set (s_waiters sem). is_owner_cancelled s w))"

definition permits_ok :: "sched \<Rightarrow> bool" where
  "permits_ok s \<longleftrightarrow> ids_ok s \<and> (\<forall>i sem. dget (semaphores s) i = Some sem \<longrightarrow> sem_ok s sem)"

lemma permits_okD: "permits_ok s \<Longrightarrow> dget (semaphores s) i = Some sem \<Longrightarrow> sem_ok s sem"
  by (simp add: permits_ok_def)

lemma later_task_kept: "later s0 s \<Longrightarrow> t < next_id s0 \<Longrightarrow> task_kept (dget (tasks s0) t) (dget (tasks s) t)"
  by (simp add: later_def)

lemma later_cancelled:
  assumes "ids_ok s" and "later s s'" and "is_owner_cancelled s w"
  shows "is_owner_cancelled s' w"
proof -
  obtain t m where w: "w = Some t" and m: "dget (tasks s) t = Some m" "t_status m = Cancelled"
    using assms(3) by (auto simp: is_owner_cancelled_def split: option.splits)
  have "task_kept (dget (tasks s) t) (dget (tasks s') t)"
    by (rule later_task_kept [OF assms(2)], rule later_ids(1) [OF later_refl [OF assms(1)]])
      (simp add: m(1))
  with w m show ?thesis by (auto simp: is_owner_cancelled_def task_kept_def)
qed

lemma sem_ok_later: "ids_ok s \<Longrightarrow> later s s' \<Longrightarrow> sem_ok s sem \<Longrightarrow> sem_ok s' sem"
  using later_cancelled [of s s'] by (auto simp: sem_ok_def)

text \<open>A step that leaves the semaphores alone.\<close>

lemma permits_keep:
  assumes "permits_ok s" and "later s s'" and "semaphores s' = semaphores s"
  shows "permits_ok s'"
  using assms sem_ok_later [of s s'] by (auto simp: permits_ok_def later_def)

lemma permits_frame:
  assumes "permits_ok s" and "tasks s' = tasks s" and "promises s' = promises s"
    and "next_id s' = next_id s" and "semaphores s' = semaphores s"
  shows "permits_ok s'"
proof (rule permits_keep [OF assms(1)])
  show "later s s'"
    by (rule later_frame [OF later_refl assms(2-5)]) (use assms(1) in \<open>simp add: permits_ok_def\<close>)
qed (rule assms(5))

lemma permits_start: "permits_ok s \<Longrightarrow> later s s"
  by (rule later_refl) (simp add: permits_ok_def)

text \<open>A step that rewrites one semaphore.\<close>

lemma permits_put:
  assumes "permits_ok s" and "ids_ok (set_sem i sem s)" and "sem_ok s sem"
  shows "permits_ok (set_sem i sem s)"
proof -
  have "is_owner_cancelled (set_sem i sem s) w = is_owner_cancelled s w" for w
    by (simp add: is_owner_cancelled_def set_sem_def split: option.split)
  then have "sem_ok (set_sem i sem s) x = sem_ok s x" for x by (simp add: sem_ok_def)
  then show ?thesis using assms by (auto simp: permits_ok_def) (auto simp: set_sem_def split: if_splits)
qed

lemma permits_set_sem:
  assumes "permits_ok s" and "dget (semaphores s) i \<noteq> None" and "sem_ok s sem"
  shows "permits_ok (set_sem i sem s)"
  by (rule permits_put [OF assms(1) _ assms(3)])
    (use assms(1,2) in \<open>auto simp: permits_ok_def ids_ok_def set_sem_def\<close>)

interpretation permits_wake: wake_closed permits_ok
  by unfold_locales
    (erule permits_frame; simp add: enqueue_def claim_cell_def set_gather_def set_race_def)+

interpretation permits_delivery: deliver_closed permits_ok
proof unfold_locales
  fix s p m st v
  assume P: "permits_ok s" "dget (promises s) p = Some m" "p_status m = Pending" "terminal st"
  show "permits_ok (snd (wake_waiters (WPromise p) (set_promise p (resolved m st v) s)))"
    by (rule permits_keep [OF P(1) later_delivery.resolve [OF permits_start [OF P(1)] P(2-4)]])
      (simp add: set_promise_def)
qed (erule permits_frame; simp)

text \<open>A hand-over, seen from the state in which one holder was taken off the list.\<close>

lemma pop_live_none: "pop_live_semaphore_waiter s ws = (None, rest) \<Longrightarrow> rest = []"
  by (induction s ws rule: pop_live_semaphore_waiter.induct) (auto split: if_splits)

lemma pop_live_found:
  "pop_live_semaphore_waiter s ws = (Some (w, k), rest) \<Longrightarrow>
   \<not> is_owner_cancelled s w \<and> (w, k) \<in> set ws \<and> set rest \<subseteq> set ws"
  by (induction s ws rule: pop_live_semaphore_waiter.induct) (auto split: if_splits)

lemma cancelled_set_sem [simp]: "is_owner_cancelled (set_sem i m s) w = is_owner_cancelled s w"
  by (simp add: is_owner_cancelled_def set_sem_def split: option.split)

lemma pop_live_set_sem [simp]: "pop_live_semaphore_waiter (set_sem i m s) ws = pop_live_semaphore_waiter s ws"
  by (induction s ws rule: pop_live_semaphore_waiter.induct) auto

lemma set_sem_twice: "set_sem i a (set_sem i b s) = set_sem i a s"
  by (simp add: set_sem_def)

lemma enqueue_set_sem: "set_sem i a (enqueue e p s) = enqueue e p (set_sem i a s)"
  by (simp add: set_sem_def enqueue_def)

lemma int_remove1: "w \<in> set hs \<Longrightarrow> int (length (remove1 w hs)) = int (length hs) - 1"
  by (induction hs) auto

lemma returned_permits:
  assumes "permits_ok s" and "return_inflight_permit i w s = (Inr u, s')"
  shows "permits_ok s'"
  using assms(2)
proof (cases rule: return_inflight_cases)
  case (Passed sem s1)
  note ok = permits_okD [OF assms(1) Passed(1)]
  from Passed(4) show ?thesis
  proof (cases rule: grant_cases)
    case (Granted sem1 w1 k1 rest p)
    have sem1: "sem1 = sem\<lparr>s_holders := remove1 w (s_holders sem)\<rparr>"
      using Granted(1) Passed(3) by (simp add: set_sem_def)
    have "\<not> s_permits sem > 0"
      using pop_live_found [OF Granted(2)] ok by (auto simp: sem1 Passed(3) sem_ok_def)
    with ok Passed(2) have "sem_ok s (sem\<lparr>s_waiters := rest, s_holders := remove1 w (s_holders sem) @ [w1]\<rparr>)"
      by (simp add: sem_ok_def int_remove1)
    then show ?thesis
      using Granted(5) Passed(1,3) assms(1)
      by (auto simp: sem1 set_sem_twice intro!: permits_wake.enq permits_set_sem)
  qed simp_all
next
  case (Banked sem s1 s2 sem')
  note ok = permits_okD [OF assms(1) Banked(1)]
  from Banked(4) show ?thesis
  proof (cases rule: grant_cases)
    case (NoWaiter sem1 rest)
    have sem1: "sem1 = sem\<lparr>s_holders := remove1 w (s_holders sem)\<rparr>"
      using NoWaiter(1) Banked(3) by (simp add: set_sem_def)
    have rest: "rest = []" by (rule pop_live_none [OF NoWaiter(2)])
    have sem': "sem' = sem1\<lparr>s_waiters := []\<rparr>"
      using NoWaiter(4) Banked(5) rest by (simp add: set_sem_def)
    have "sem_ok s (sem'\<lparr>s_permits := s_permits sem' + 1\<rparr>)"
      using ok Banked(2) by (simp add: sem' sem1 sem_ok_def int_remove1)
    then show ?thesis
      using NoWaiter(4) Banked(1,3,7) assms(1) by (auto simp: set_sem_twice intro!: permits_set_sem)
  qed simp_all
qed simp_all

lemma fresh_id_sems: "fresh_id s = (r, s') \<Longrightarrow> semaphores s' = semaphores s"
  by (auto simp: fresh_id_def Let_def sweep_terminal_unobserved_entries_def sweep_tasks_def
      sweep_promises_def forget_handles_def)

lemma release_cases:
  assumes "handle_release w k i s = (Inr a, s')" and "w \<in> set (sem_holders_of s i)" and "permits_ok s"
  shows "permits_ok s' \<and> a = Resume k VNone"
proof -
  obtain sem where sem: "dget (semaphores s) i = Some sem"
    using assms(1) by (auto simp: handle_release_def py_bind_eq_Inr dest: get_sem_state)
  obtain b s1 sem1 where grant: "grant_permit_to_next_waiter i s = (Inr b, s1)"
    and sem1: "dget (semaphores s1) i = Some sem1"
    and rest: "(if \<not> b \<and> s_permits sem1 \<ge> s_max_permits sem1 then
         throw_to k (RuntimeError ''semaphore released too many times'')
       else py_bind (py_modify (set_sem i
           (sem1\<lparr>s_holders := remove1 w (s_holders sem1),
                 s_permits := (if b then s_permits sem1 else s_permits sem1 + 1)\<rparr>))) (\<lambda>_.
         py_ret (Resume k VNone))) s1 = (Inr a, s')"
    using assms(1) unfolding handle_release_def py_bind_eq_Inr
    by (auto dest!: get_sem_state)
  note ok = permits_okD [OF assms(3) sem]
  have holds: "w \<in> set (s_holders sem)" using assms(2) sem by (simp add: sem_holders_of_def)
  then have few: "s_permits sem < s_max_permits sem"
    using ok by (cases "s_holders sem") (auto simp: sem_ok_def)
  from grant show ?thesis
  proof (cases rule: grant_cases)
    case (NoWaiter sem0 ws)
    have sem0: "sem0 = sem" and ws: "ws = []"
      using NoWaiter(1) sem pop_live_none [OF NoWaiter(2)] by simp_all
    have sem1': "sem1 = sem\<lparr>s_waiters := []\<rparr>" using sem1 NoWaiter(4) sem0 ws by (simp add: set_sem_def)
    have "sem_ok s (sem1\<lparr>s_holders := remove1 w (s_holders sem1), s_permits := s_permits sem1 + 1\<rparr>)"
      using ok holds by (simp add: sem1' sem_ok_def int_remove1)
    then show ?thesis
      using rest NoWaiter(3,4) few sem assms(3) by (auto simp: sem1' set_sem_twice intro!: permits_set_sem)
  next
    case (Granted sem0 w1 k1 ws p)
    have sem0: "sem0 = sem" using Granted(1) sem by simp
    let ?sem1 = "sem\<lparr>s_waiters := ws, s_holders := s_holders sem @ [w1]\<rparr>"
    have sem1': "sem1 = ?sem1" using sem1 Granted(5) sem0 by (simp add: set_sem_def enqueue_def)
    have none: "\<not> s_permits sem > 0"
      using pop_live_found [OF Granted(2)] ok by (auto simp: sem0 sem_ok_def)
    have "sem_ok s (sem1\<lparr>s_holders := remove1 w (s_holders sem1)\<rparr>)"
      using ok holds none by (simp add: sem1' sem_ok_def int_remove1)
    then show ?thesis
      using rest Granted(3,5) sem assms(3)
      by (auto simp: sem0 set_sem_twice enqueue_set_sem intro!: permits_wake.enq permits_set_sem)
  qed simp_all
qed

interpretation permits: system_closed permits_ok True
proof unfold_locales
  fix s b s' assume P: "permits_ok s" and run: "live_semaphore_waiters s = (b, s')"
  have s': "s' = s\<lparr>semaphores := map (\<lambda>(i, sem). (i, sem\<lparr>s_waiters := live_sem_waiters s sem\<rparr>)) (semaphores s)\<rparr>"
    using run by (simp add: live_semaphore_waiters_def)
  have "ids_ok s'" using later_dispatch.pruned [OF permits_start [OF P] run] by (simp add: later_def)
  moreover have "is_owner_cancelled s' w = is_owner_cancelled s w" for w
    by (simp add: s' is_owner_cancelled_def split: option.split)
  moreover have "dget (semaphores s') i = map_option (\<lambda>sem. sem\<lparr>s_waiters := live_sem_waiters s sem\<rparr>)
      (dget (semaphores s) i)" for i
    by (simp add: s' dget_map_values)
  moreover have "sem_ok s' (sem\<lparr>s_waiters := live_sem_waiters s sem\<rparr>)" if "sem_ok s sem" for sem
    using that calculation(2) by (auto simp: sem_ok_def live_sem_waiters_def)
  ultimately show "permits_ok s'"
    using P by (auto simp: permits_ok_def)
next
  fix s t m r s'
  assume P: "permits_ok s" "dget (tasks s) t = Some m" "t_status m \<noteq> Cancelled" "start_task t m s = (r, s')"
  show "permits_ok s'"
    by (rule permits_keep [OF P(1) later_dispatch.begun [OF permits_start [OF P(1)] P(2-4)]])
      (use P(4) in \<open>auto simp: start_task_def split: option.splits\<close>)
next
  fix s w i u s' assume "permits_ok s" "return_inflight_permit i w s = (Inr u, s')"
  then show "permits_ok s'" by (rule returned_permits)
next
  fix s t s1 and pg :: prog and prio :: int and daemon :: bool and bs :: "(string \<times> nat) list"
  assume P: "permits_ok s" and fresh: "fresh_id s = (Inr t, s1)"
  show "permits_ok (s1\<lparr>tasks := dput t (fresh_task pg prio daemon bs) (tasks s1)\<rparr>)"
    by (rule permits_keep [OF P world.new_task [OF permits_start [OF P] fresh]])
      (simp add: fresh_id_sems [OF fresh])
next
  fix s p s1 assume P: "permits_ok s" and fresh: "fresh_id s = (Inr p, s1)"
  show "permits_ok (s1\<lparr>promises := dput p fresh_promise (promises s1)\<rparr>)"
    by (rule permits_keep [OF P world.new_promise [OF permits_start [OF P] fresh]])
      (simp add: fresh_id_sems [OF fresh])
next
  fix s i s1 and n :: int assume P: "permits_ok s" and fresh: "fresh_id s = (Inr i, s1)" and n: "1 \<le> n"
  have "permits_ok s1"
    by (rule permits_keep [OF P fresh_id_facts(1) [OF permits_start [OF P] fresh]])
      (simp add: fresh_id_sems [OF fresh])
  moreover have "ids_ok (set_sem i (fresh_sem n) s1)"
    using world.new_sem [OF permits_start [OF P] fresh n] by (simp add: later_def)
  ultimately show "permits_ok (set_sem i (fresh_sem n) s1)"
    using n by (intro permits_put) (simp_all add: sem_ok_def)
next
  fix s p m assume P: "permits_ok s" and m: "dget (promises s) p = Some m"
  show "permits_ok (set_promise p (m\<lparr>p_external := True\<rparr>) s)"
    by (rule permits_keep [OF P world.make_external [OF permits_start [OF P] m]]) (simp add: set_promise_def)
next
  fix s t x assume P: "permits_ok s"
  show "permits_ok (set_spawn_site t x s)"
    by (rule permits_keep [OF P world.site [OF permits_start [OF P]]])
      (simp add: set_spawn_site_def split: option.split)
next
  fix s t assume P: "permits_ok s"
  show "permits_ok (release_task_refs t s)"
    by (rule permits_keep [OF P world.released [OF permits_start [OF P]]])
      (simp add: release_task_refs_def split: option.split)
next
  fix s t tm st v
  assume P: "permits_ok s" "dget (tasks s) t = Some tm" "t_status tm \<noteq> Cancelled" "terminal st"
  show "permits_ok (snd (wake_waiters (WTask t) (set_task t (tm\<lparr>t_status := st, t_result := v\<rparr>) s)))"
    by (rule permits_keep [OF P(1) world.finish [OF permits_start [OF P(1)] P(2-4)]]) (simp add: set_task_def)
next
  fix s i sem w
  assume P: "permits_ok s" and sem: "dget (semaphores s) i = Some sem" "s_permits sem > 0"
  show "permits_ok (set_sem i (sem\<lparr>s_permits := s_permits sem - 1, s_holders := s_holders sem @ [w]\<rparr>) s)"
    by (rule permits_set_sem [OF P]) (use permits_okD [OF P sem(1)] sem in \<open>auto simp: sem_ok_def\<close>)
next
  fix s i sem w k
  assume P: "permits_ok s" and sem: "dget (semaphores s) i = Some sem" "\<not> s_permits sem > 0"
  show "permits_ok (set_sem i (sem\<lparr>s_waiters := s_waiters sem @ [(w, k)]\<rparr>) s)"
    by (rule permits_set_sem [OF P]) (use permits_okD [OF P sem(1)] sem in \<open>auto simp: sem_ok_def\<close>)
next
  fix s w i k a s'
  assume "permits_ok s" "True \<longrightarrow> w \<in> set (sem_holders_of s i)" "handle_release w k i s = (Inr a, s')"
  then show "permits_ok s'" using release_cases by blast
next
  show "permits_ok init_sched" by (simp add: permits_ok_def ids_ok_def init_sched_def)
qed (erule permits_frame; simp add: add_waiter_def register_handle_def Let_def)+

text \<open>
  C3: permits are conserved. While every task releases only permits it holds, each semaphore of a
  reachable scheduler accounts for all its permits (free ones and holders, those in flight to a
  woken waiter included), and a permit is free only when nobody waits but cancelled tasks.
\<close>

theorem permits_are_conserved:
  assumes "reachable True vm s" and "dget (semaphores s) i = Some sem"
  shows "0 \<le> s_permits sem \<and> s_permits sem + int (length (s_holders sem)) = s_max_permits sem \<and>
         (s_permits sem > 0 \<longrightarrow> (\<forall>(w, k) \<in> set (s_waiters sem). is_owner_cancelled s w))"
  using permits_okD [OF permits.sys.invariant [OF assms(1)] assms(2)] by (simp add: sem_ok_def)

text \<open>
  As long as every task releases only permits it holds, a release by a holder never fails: it is resumed with
  \<open>None\<close>, never refused with "semaphore released too many times". (The code lets any task release, and after a
  release by a task that holds nothing a holder can be refused.)
\<close>

theorem holder_may_release:
  assumes "reachable True vm s" and "w \<in> set (sem_holders_of s i)"
    and "handle_release w k i s = (Inr a, s')"
  shows "a = Resume k VNone"
  using release_cases [OF assms(3,2) permits.sys.invariant [OF assms(1)]] by simp

lemma permits_are_conserved_witness:
  "\<exists>sem. dget (semaphores demo_held) 0 = Some sem \<and> s_permits sem + int (length (s_holders sem)) = s_max_permits sem"
proof -
  have "dget (semaphores demo_held) 0 =
      Some \<lparr>s_permits = 0, s_max_permits = 1, s_waiters = [], s_holders = [None]\<rparr>"
    by (simp add: demo_held_def)
  from permits_are_conserved [OF demo_sem_reachable(2) this] this show ?thesis by blast
qed

lemma holder_may_release_witness:
  "fst (handle_release None 3 0 demo_held) = Inr (Resume 3 VNone)"
proof -
  have holds: "None \<in> set (sem_holders_of demo_held 0)" by (simp add: sem_holders_of_def demo_held_def)
  have run: "handle_release None 3 0 demo_held = (Inr (Resume 3 VNone), demo_sem)" by code_simp
  from holder_may_release [OF demo_sem_reachable(2) holds run] run show ?thesis by simp
qed

end
