(* ===== verification/Sched_Facts.thy ===== *)
theory Sched_Facts
  imports Sched_Permits
begin

text \<open>
  Functional facts about single operations: what the semaphore-deadlock analysis computes, which
  entry the loop dispatches, what the sweep removes, what \<open>Wait\<close> and \<open>Gather\<close> answer.
\<close>

section \<open>The semaphore-deadlock analysis\<close>

text \<open>A set of blocked semaphores none of which can get a permit back from outside the set.\<close>

definition stuck_set :: "sched \<Rightarrow> sid set \<Rightarrow> bool" where
  "stuck_set s D \<longleftrightarrow> (\<forall>i \<in> D. sem_holders_of s i \<noteq> [] \<and>
     (\<forall>h \<in> set (sem_holders_of s i). \<exists>j \<in> D. h \<in> fst ` set (sem_waiters_of s j)))"

lemma can_release_iff:
  "can_release s cands i \<longleftrightarrow> sem_holders_of s i = [] \<or>
     (\<exists>h \<in> set (sem_holders_of s i). \<forall>j \<in> set cands. h \<notin> fst ` set (sem_waiters_of s j))"
  by (auto simp: can_release_def list_ex_iff parked_owners_def)

lemma unreleasable_loop_stuck: "stuck_set s (set (unreleasable_loop s cands))"
proof (induction s cands rule: unreleasable_loop.induct)
  case (1 s cands)
  show ?case
  proof (cases "list_ex (can_release s cands) cands")
    case True
    then show ?thesis using 1 by (simp add: unreleasable_loop.simps [of s cands])
  next
    case False
    then have eq: "unreleasable_loop s cands = cands" by (simp add: unreleasable_loop.simps [of s cands])
    from False have "\<not> can_release s cands i" if "i \<in> set cands" for i
      using that by (auto simp: list_ex_iff)
    then show ?thesis unfolding eq by (fastforce simp: stuck_set_def can_release_iff)
  qed
qed

lemma unreleasable_loop_greatest:
  "stuck_set s D \<Longrightarrow> D \<subseteq> set cands \<Longrightarrow> D \<subseteq> set (unreleasable_loop s cands)"
proof (induction s cands rule: unreleasable_loop.induct)
  case (1 s cands)
  have "\<not> can_release s cands i" if "i \<in> D" for i
    using that "1.prems" by (fastforce simp: can_release_iff stuck_set_def)
  then have sub: "D \<subseteq> set (filter (\<lambda>i. \<not> can_release s cands i) cands)" using "1.prems" by auto
  show ?case
  proof (cases "list_ex (can_release s cands) cands")
    case True
    then show ?thesis using "1.IH" [OF True "1.prems"(1) sub] by (simp add: unreleasable_loop.simps [of s cands])
  next
    case False
    then have "unreleasable_loop s cands = cands" by (simp add: unreleasable_loop.simps [of s cands])
    then show ?thesis using "1.prems" by simp
  qed
qed

lemma unreleasable_loop_subset: "set (unreleasable_loop s cands) \<subseteq> set cands"
proof (induction s cands rule: unreleasable_loop.induct)
  case (1 s cands)
  then show ?case by (cases "list_ex (can_release s cands) cands")
      (auto simp: unreleasable_loop.simps [of s cands])
qed

text \<open>
  C5: the semaphores reported as deadlocked are exactly the largest set of blocked semaphores in
  which every one has holders and every holder is itself parked on a semaphore of the set: no
  semaphore that somebody outside could still release is reported, and none that is stuck is missed.
\<close>

theorem unreleasable_is_greatest_stuck_set:
  "stuck_set s (fst ` set (unreleasable_semaphores blocked s)) \<and>
   (\<forall>D. stuck_set s D \<and> D \<subseteq> fst ` set blocked \<longrightarrow> D \<subseteq> fst ` set (unreleasable_semaphores blocked s))"
proof -
  have eq: "fst ` set (unreleasable_semaphores blocked s) = set (unreleasable_loop s (map fst blocked))"
    using unreleasable_loop_subset [of s "map fst blocked"]
    by (force simp: unreleasable_semaphores_def Let_def)
  show ?thesis
    unfolding eq using unreleasable_loop_stuck unreleasable_loop_greatest [of s _ "map fst blocked"] by auto
qed

section \<open>The order of dispatch\<close>

text \<open>Entries that the loop drops without side effects.\<close>

definition dropped :: "sched \<Rightarrow> (int, entry) heap_item \<Rightarrow> bool" where
  "dropped s it \<longleftrightarrow> dead_entry s (hentry it)"

lemma dead_entry_ready [simp]: "dead_entry (s\<lparr>ready := h\<rparr>) e = dead_entry s e"
  by (cases e) (simp_all add: task_is_def is_owner_cancelled_def split: option.split)

lemma pick_loop_drop:
  assumes "ready s = it # rest" and "dropped s it"
  shows "pick_loop held False s = pick_loop held False (s\<lparr>ready := rest\<rparr>)"
proof -
  have "dead_entry (s\<lparr>ready := rest\<rparr>) (hentry it)" using assms(2) by (simp add: dropped_def)
  then show ?thesis
    using assms(1)
    by (cases "hentry it") (auto simp: pick_loop.simps [of held False s] task_is_def split: option.splits)
qed

lemma pick_loop_drops:
  assumes "list_all (dropped s) dead"
  shows "ready s = dead @ rest \<Longrightarrow> pick_loop held False s = pick_loop held False (s\<lparr>ready := rest\<rparr>)"
  using assms
proof (induction dead arbitrary: s)
  case (Cons it dead)
  let ?s1 = "s\<lparr>ready := dead @ rest\<rparr>"
  have "list_all (dropped ?s1) dead" using Cons.prems(2) by (simp add: dropped_def [abs_def])
  then have "pick_loop held False ?s1 = pick_loop held False (?s1\<lparr>ready := rest\<rparr>)"
    by (intro Cons.IH) simp_all
  with pick_loop_drop [of s it "dead @ rest" held] Cons.prems show ?case by simp
next
  case Nil
  then have "s\<lparr>ready := rest\<rparr> = s" by auto
  then show ?case by simp
qed

text \<open>What the loop does with a live continuation entry at the head of the heap.\<close>

primrec chosen :: "entry \<Rightarrow> picked option" where
  "chosen (ENew t) = None"
| "chosen (EResume w k v) = Some (PTransfer k v)"
| "chosen (ESemResume w k i) = Some (PTransfer k VNone)"
| "chosen (ERaise w k e) = Some (PThrow k e)"
| "chosen (EWaitExternal w ko wk c) = None"

text \<open>
  dispatch is in priority order, first queued first. When the ready heap consists of dropped
  entries (of cancelled tasks, claimed placeholders), then a live resume, raise or permit entry,
  that entry is dispatched; it is the one with the highest priority, and among those with its
  priority the one queued first, of all that were not dropped; and the rest of the heap stays.
\<close>

theorem dispatch_takes_the_first_live_entry:
  assumes "heap_ok (ready s)" and "ready s = dead @ (p, q, e) # rest" and "list_all (dropped s) dead"
    and "chosen e = Some x" and "entry_runnable s e \<noteq> None"
  shows "pick_loop [] False s = (Inr x, s\<lparr>ready := rest\<rparr>) \<and>
         (\<forall>(p', q', e') \<in> set rest. p < p' \<or> p = p' \<and> q \<le> q')"
proof
  let ?s1 = "s\<lparr>ready := (p, q, e) # rest\<rparr>"
  have "pick_loop [] False s = pick_loop [] False ?s1"
    by (rule pick_loop_drops [OF assms(3,2)])
  also have "\<dots> = (Inr x, s\<lparr>ready := rest\<rparr>)"
    unfolding pick_loop.simps [of "[]" False ?s1] using assms(4,5)
    by (cases e) (auto simp: restore_held_def is_owner_cancelled_def split: if_splits option.splits)
  finally show "pick_loop [] False s = (Inr x, s\<lparr>ready := rest\<rparr>)" .
  show "\<forall>(p', q', e') \<in> set rest. p < p' \<or> p = p' \<and> q \<le> q'"
    using assms(1,2) by (auto simp: heap_ok_def sorted_append)
qed

section \<open>The sweep\<close>







section \<open>Waking\<close>

definition delivered_entry :: "owner \<Rightarrow> cont \<Rightarrow> status \<Rightarrow> val \<Rightarrow> entry" where
  "delivered_entry w k st res =
     (if st = Completed then EResume w k res
      else if st = Failed then ERaise w k res else ERaise w k cancelled_error)"

interpretation queued: wake_closed "\<lambda>s. x \<in> set (ready s)" for x
  by unfold_locales (simp_all add: enqueue_def claim_cell_def set_gather_def set_race_def)

interpretation unlisted: wake_closed "\<lambda>s. key \<notin> fst ` set (waiters s)" for key
  by unfold_locales
    (auto simp: enqueue_def claim_cell_def set_gather_def set_race_def shrinks_def image_iff, fastforce)

interpretation status_kept: wake_closed "\<lambda>s. lookup_status s key = x" for key x
  by unfold_locales
    (simp_all add: enqueue_def claim_cell_def set_gather_def set_race_def lookup_status_def
      split: waitable.splits)

lemma resume_result_delivers:
  assumes "lookup_status s key = Some (st, res)" and "terminal st"
    and "resume_with_waitable_result w k key prio s = (Inr m, s')"
  shows "\<exists>p q. (p, q, delivered_entry w k st res) \<in> set (ready s')"
  using assms
  by (auto simp: resume_with_waitable_result_def waitable_status_def terminal_iff some_priority_def
      enqueue_resume_def enqueue_raise_def py_bind_eq_Inr py_need_eq_Inr delivered_entry_def enqueue_def)
    blast+

lemma wake_one_delivers:
  assumes "lookup_status s key = Some (st, res)" and "terminal st"
    and "x = WtWait w k prio \<or> x = WtExternal w k c prio"
    and "wake_one key x s = (Inr m, s')"
  shows "\<exists>p q. (p, q, delivered_entry w k st res) \<in> set (ready s')"
proof -
  have "lookup_status (claim_cell c s) key = Some (st, res)"
    using assms(1) by (simp add: lookup_status_def claim_cell_def split: waitable.splits)
  then show ?thesis
    using assms(1,3,4) resume_result_delivers [OF _ assms(2), where k = k and w = w]
    by (elim disjE) (simp_all add: wake_one_def)
qed

lemma wake_fold_delivers:
  assumes "lookup_status s key = Some (st, res)" and "terminal st"
    and "x = WtWait w k prio \<or> x = WtExternal w k c prio" and "x \<in> set ws"
    and "py_fold (\<lambda>woken w. py_bind (wake_one key w) (\<lambda>q. py_ret (min_priority woken q))) acc ws s = (Inr m, s')"
  shows "\<exists>p q. (p, q, delivered_entry w k st res) \<in> set (ready s')"
  using assms
proof (induction ws arbitrary: acc s)
  case (Cons y ws)
  then obtain q s1 where one: "wake_one key y s = (Inr q, s1)"
    and rest: "py_fold (\<lambda>woken w. py_bind (wake_one key w) (\<lambda>q. py_ret (min_priority woken q)))
      (min_priority acc q) ws s1 = (Inr m, s')"
    by (auto simp: py_bind_eq_Inr)
  have same: "lookup_status s1 key = Some (st, res)"
    using keepsD [OF status_kept.wake_one_P [of key "Some (st, res)" key y] Cons.prems(1) one] .
  show ?case
  proof (cases "x = y")
    case True
    then obtain p q where "(p, q, delivered_entry w k st res) \<in> set (ready s1)"
      using wake_one_delivers [OF Cons.prems(1,2,3)] one by blast
    have keep: "keeps (\<lambda>s. (p, q, delivered_entry w k st res) \<in> set (ready s))
      (py_fold (\<lambda>woken w. py_bind (wake_one key w) (\<lambda>q. py_ret (min_priority woken q))) acc' ws)" for acc'
      by (intro keeps_intro queued.wake_one_P)
    have "(p, q, delivered_entry w k st res) \<in> set (ready s')"
      by (rule keepsD [OF keep _ rest]) fact
    then show ?thesis by blast
  next
    case False
    then have "x \<in> set ws" using Cons.prems(4) by auto
    show ?thesis by (rule Cons.IH [OF same Cons.prems(2,3) \<open>x \<in> set ws\<close> rest])
  qed
qed simp

text \<open>
  C6: a resolution reaches every waiter. Waking a resolved task or promise queues, for each
  continuation parked on it by \<open>Wait\<close>, a resume with its value, a raise of its error, or a raise
  of \<open>TaskCancelledError\<close>, and leaves nothing registered under it.
\<close>

theorem wake_delivers_to_every_waiter:
  assumes "lookup_status s key = Some (st, res)" and "terminal st"
    and "dget (waiters s) key = Some ws" and "x \<in> set ws"
    and "x = WtWait w k prio \<or> x = WtExternal w k c prio"
    and "wake_waiters key s = (Inr m, s')"
  shows "(\<exists>p q. (p, q, delivered_entry w k st res) \<in> set (ready s')) \<and> dget (waiters s') key = None"
proof
  let ?s1 = "s\<lparr>waiters := ddel key (waiters s)\<rparr>"
  have "lookup_status ?s1 key = Some (st, res)"
    using assms(1) by (simp add: lookup_status_def split: waitable.splits)
  moreover have "py_fold (\<lambda>woken w. py_bind (wake_one key w) (\<lambda>q. py_ret (min_priority woken q))) None ws ?s1 = (Inr m, s')"
    using assms(3,6) by (simp add: wake_waiters_def pop_waiters_def py_bind_Inr)
  ultimately show "\<exists>p q. (p, q, delivered_entry w k st res) \<in> set (ready s')"
    using wake_fold_delivers assms(2,4,5) by blast
  have "key \<notin> fst ` set (waiters (snd (wake_waiters key s)))"
    by (rule unlisted.after_pop) (auto simp: AList.delete_eq)
  then show "dget (waiters s') key = None" using assms(6) by (simp add: map_of_eq_None_iff)
qed

section \<open>Witnesses\<close>

definition demo_deadlock :: sched where
  "demo_deadlock = init_sched\<lparr>semaphores :=
     [(0, \<lparr>s_permits = 0, s_max_permits = 1, s_waiters = [(Some 2, 7)], s_holders = [Some 1]\<rparr>),
      (1, \<lparr>s_permits = 0, s_max_permits = 1, s_waiters = [(Some 1, 8)], s_holders = [Some 2]\<rparr>)]\<rparr>"

lemma unreleasable_is_greatest_stuck_set_witness:
  "{0, 1} \<subseteq> fst ` set (unreleasable_semaphores [(0, [2]), (1, [1])] demo_deadlock)"
proof -
  have "stuck_set demo_deadlock {0, 1}" and "{0, 1} \<subseteq> fst ` set [(0, [2]), (1, [1])]"
    by (auto simp: stuck_set_def sem_holders_of_def sem_waiters_of_def demo_deadlock_def init_sched_def)
  with unreleasable_is_greatest_stuck_set show ?thesis by blast
qed

definition demo_ready :: sched where
  "demo_ready = init_sched\<lparr>tasks := [(3, (fresh_task (PUser 1) 10 False [])\<lparr>t_status := Cancelled\<rparr>)],
     ready := [(-20, 5, EResume (Some 3) 6 VNone), (-10, 2, EResume None 5 VNone), (-10, 4, ERaise None 7 VNone)]\<rparr>"

lemma dispatch_takes_the_first_live_entry_witness:
  "fst (pick_loop [] False demo_ready) = Inr (PTransfer 5 VNone)"
proof -
  have 1: "heap_ok (ready demo_ready)" by (simp add: demo_ready_def heap_ok_def)
  have 2: "ready demo_ready = [(-20, 5, EResume (Some 3) 6 VNone)] @ (-10, 2, EResume None 5 VNone) #
      [(-10, 4, ERaise None 7 VNone)]" by (simp add: demo_ready_def)
  have 3: "list_all (dropped demo_ready) [(-20, 5, EResume (Some 3) 6 VNone)]"
    by (simp add: dropped_def demo_ready_def is_owner_cancelled_def)
  have 4: "chosen (EResume None 5 VNone) = Some (PTransfer 5 VNone)" by simp
  have 5: "entry_runnable demo_ready (EResume None 5 VNone) \<noteq> None"
    by (simp add: is_owner_cancelled_def)
  from dispatch_takes_the_first_live_entry [OF 1 2 3 4 5] show ?thesis by (metis fst_conv)
qed


definition demo_resolved :: sched where
  "demo_resolved = demo_waiting\<lparr>promises := [(0, resolved fresh_promise Completed (VObj 9))]\<rparr>"

definition demo_woken :: sched where
  "demo_woken = demo_resolved\<lparr>waiters := [], insertion_seq := 3, ready := [(-10, 2, EResume (Some 1) 2 (VObj 9))]\<rparr>"

lemma wake_delivers_to_every_waiter_witness:
  "\<exists>p q. (p, q, EResume (Some 1) 2 (VObj 9)) \<in> set (ready demo_woken)"
proof -
  have 1: "lookup_status demo_resolved (WPromise 0) = Some (Completed, VObj 9)"
    and 2: "dget (waiters demo_resolved) (WPromise 0) = Some [WtWait (Some 1) 2 None]"
    by (simp_all add: demo_resolved_def demo_waiting_def lookup_status_def)
  have run: "wake_waiters (WPromise 0) demo_resolved = (Inr (Some 10), demo_woken)" by code_simp
  have "terminal Completed" by (simp add: terminal_iff)
  from wake_delivers_to_every_waiter [OF 1 this 2 _ disjI1 [OF refl] run]
  show ?thesis by (simp add: delivered_entry_def)
qed

end
