(* ===== verification/Dsl_Syntax.thy ===== *)
theory Dsl_Syntax
  imports Prelude Complex_Main "HOL-Library.List_Lexorder" "HOL-Library.Char_ord"
begin

text \<open>
  The closed workflow language of doeff-conductor (\<open>doeff_conductor/dsl.py\<close>): the Python objects a
  workflow is built from, and the functions that build them (\<open>agent_bang\<close>, \<open>parallel\<close>, ...). One
  datatype \<open>obj\<close> holds plain values and DSL specs, since the code nests them freely and tells
  them apart by \<open>isinstance\<close>. \<open>OOther\<close> stands for an object of any other class. Strings are
  Latin-1. \<open>str()\<close> of an object that is not a string is the parameter \<open>sr\<close>: it runs
  \<open>__str__\<close> of the object's class.
\<close>

section \<open>Objects\<close>

datatype flt = Fin rat | PosInf | NegInf | NaN

datatype 'a agent_spec = AgentSpec
  (ag_role: "string option") (ag_class: "string option") (ag_prompt: 'a) (ag_schema: 'a)
  (ag_workspace: 'a) (ag_files: "'a list option") (ag_profile: "string option")
  (ag_persona: "string option") (ag_retry: 'a) (ag_budget: 'a) (ag_deadline: 'a)
  (ag_label: 'a) (ag_phase: 'a)

datatype target = TName string | TNames "string list"

datatype (plugins only: code size) obj =
    ONone
  | OBool bool
  | OInt int
  | OFloat flt
  | OStr string
  | OList "obj list"
  | OTuple "obj list"
  | OSet "obj list"
  | ODict "(obj \<times> obj) list"
  | ORef string
  | OField obj obj
  | OOks obj
  | OPrompt "obj list"
  | OWorkspace obj obj nat \<comment> \<open>repo, from, occurrence\<close>
  | OMerge "obj list" obj obj obj \<comment> \<open>workspaces, strategy, budget, phase\<close>
  | OAgent "obj agent_spec"
  | OGate obj obj obj obj obj \<comment> \<open>cmd, workspace, timeout, budget, phase\<close>
  | OTime obj obj \<comment> \<open>label, budget\<close>
  | ORandom obj obj obj \<comment> \<open>spec, label, budget\<close>
  | OParallel "obj list" obj obj \<comment> \<open>branches, quorum, budget\<close>
  | OParallelFor string "obj list" "obj list" obj \<comment> \<open>variable, values, branches, budget\<close>
  | OLoop obj obj "obj list" obj \<comment> \<open>max, until, body, budget\<close>
  | OBind target obj
  | OPhase string string "obj list" \<comment> \<open>name, stakes, body\<close>
  | OArtifact obj
  | OForbidden string string
  | ORaw obj
  | OOther nat

fun type_name :: "obj \<Rightarrow> string" where
  "type_name ONone = ''NoneType''"
| "type_name (OBool b) = ''bool''"
| "type_name (OInt i) = ''int''"
| "type_name (OFloat f) = ''float''"
| "type_name (OStr s) = ''str''"
| "type_name (OList xs) = ''list''"
| "type_name (OTuple xs) = ''tuple''"
| "type_name (OSet xs) = ''frozenset''"
| "type_name (ODict d) = ''dict''"
| "type_name (ORef n) = ''Ref''"
| "type_name (OField x f) = ''FieldRef''"
| "type_name (OOks x) = ''OksProjection''"
| "type_name (OPrompt ps) = ''PromptExpr''"
| "type_name (OWorkspace r f n) = ''WorkspaceSpec''"
| "type_name (OMerge ws s b p) = ''MergeSpec''"
| "type_name (OAgent a) = ''AgentSpec''"
| "type_name (OGate c w t b p) = ''GateSpec''"
| "type_name (OTime l b) = ''TimeSpec''"
| "type_name (ORandom s l b) = ''RandomSpec''"
| "type_name (OParallel bs q b) = ''ParallelSpec''"
| "type_name (OParallelFor v vs bs b) = ''ParallelForSpec''"
| "type_name (OLoop m u bs b) = ''LoopSpec''"
| "type_name (OBind t e) = ''BindSpec''"
| "type_name (OPhase n s b) = ''PhaseSpec''"
| "type_name (OArtifact v) = ''ArtifactSpec''"
| "type_name (OForbidden n r) = ''ForbiddenSpec''"
| "type_name (ORaw d) = ''RawNodeSpec''"
| "type_name (OOther n) = ''object''"

text \<open>\<open>bool(x)\<close>\<close>

fun truthy :: "obj \<Rightarrow> bool" where
  "truthy ONone = False"
| "truthy (OBool b) = b"
| "truthy (OInt i) = (i \<noteq> 0)"
| "truthy (OFloat f) = (f \<noteq> Fin 0)"
| "truthy (OStr s) = (s \<noteq> [])"
| "truthy (OList xs) = (xs \<noteq> [])"
| "truthy (OTuple xs) = (xs \<noteq> [])"
| "truthy (OSet xs) = (xs \<noteq> [])"
| "truthy (ODict d) = (d \<noteq> [])"
| "truthy x = True"

text \<open>The items of an iterable; \<open>None\<close> is a \<open>TypeError\<close>.\<close>

fun items_of :: "obj \<Rightarrow> obj list option" where
  "items_of (OList xs) = Some xs"
| "items_of (OTuple xs) = Some xs"
| "items_of (OSet xs) = Some xs"
| "items_of (ODict d) = Some (map fst d)"
| "items_of (OStr s) = Some (map (\<lambda>c. OStr [c]) s)"
| "items_of x = None"

section \<open>Errors\<close>

text \<open>
  Every \<open>WorkflowExpansionError\<close> the module raises, with the data its message carries, and the
  exceptions of the language it can raise instead.
\<close>

datatype (plugins only: code size) dsl_error =
    MissingAgentRole | MissingAgentClass | MissingAgentSchema
  | MissingArgument string string
  | UnknownKeywords string "string list"
  | DuplicateKeyword string
  | ParallelForString
  | UnnamedPhase | DuplicatePhase string | InvalidStakes string string | OrphanedPhase string
  | Forbidden string
  | RawNode obj
  | UnsupportedForm string
  | JoinArity "string list" nat
  | QuorumJoinTuple
  | UnresolvedRole string
  | EmptyJoin string | QuorumNotInteger string | QuorumOutside string int nat
  | LoopMaxNotInteger | LoopMaxNotPositive
  | EmptyTarget | DuplicateBinding string
  | UndefinedReference string | UnhandledTry string | TryDereferenced string
  | UndeclaredPhase obj
  | WritersWithoutFiles string | OverlappingFiles string
  | MissingMerge "string list"
  | Unconsumed "string list"
  | BudgetNotNumeric string | BudgetNegative string | BudgetNotInteger string
  | BudgetInvalid obj | BudgetType string
  | BudgetExceeded int int
  | DeadlineNotNumeric string | DeadlineNotFinite string | DeadlineNotPositive string
  | PyTypeError | PyValueError | PyOverflowError

section \<open>Names and keyword arguments\<close>

definition normalize_text :: "string \<Rightarrow> string" where
  "normalize_text t = (if starts_with t '':'' then drop 1 t else t)"

definition str_of :: "(obj \<Rightarrow> string) \<Rightarrow> obj \<Rightarrow> string" where
  "str_of sr x = (case x of OStr s \<Rightarrow> s | _ \<Rightarrow> sr x)"

definition normalize_name :: "(obj \<Rightarrow> string) \<Rightarrow> obj \<Rightarrow> string" where
  "normalize_name sr x = normalize_text (str_of sr x)"

definition hy_key :: "string \<Rightarrow> string" where
  "hy_key raw =
     (let k1 = remove_prefix raw ''hyx_XcolonX'';
          k2 = (if starts_with k1 '':'' then drop 1 k1 else k1);
          k3 = str_replace ''XhyphenX'' ''_'' k2;
          k4 = str_replace ''-'' ''_'' k3
      in if k4 = ''class'' then ''class_'' else if k4 = ''from'' then ''from_'' else k4)"

fun normalize_hy_kwargs :: "(string, obj) dict \<Rightarrow> (string, obj) dict \<Rightarrow> dsl_error + (string, obj) dict" where
  "normalize_hy_kwargs acc [] = Inr acc"
| "normalize_hy_kwargs acc ((raw, v) # extra) =
     (if dget acc (hy_key raw) \<noteq> None then Inl (DuplicateKeyword (hy_key raw))
      else normalize_hy_kwargs (dput (hy_key raw) v acc) extra)"

text \<open>\<open>_pop_kw\<close>: the value and the dictionary without the key.\<close>

definition pop_kw :: "(string, obj) dict \<Rightarrow> string \<Rightarrow> obj \<Rightarrow> obj \<times> (string, obj) dict" where
  "pop_kw kwargs name current =
     (case dget kwargs name of None \<Rightarrow> (current, kwargs) | Some v \<Rightarrow> (v, ddel name kwargs))"

fun pop_kws :: "(string, obj) dict \<Rightarrow> (string \<times> obj) list \<Rightarrow> obj list \<times> (string, obj) dict" where
  "pop_kws kwargs [] = ([], kwargs)"
| "pop_kws kwargs ((name, current) # more) =
     (let (v, kw1) = pop_kw kwargs name current; (vs, kw2) = pop_kws kw1 more in (v # vs, kw2))"

text \<open>
  The shared head of the constructors: normalise the extra keywords, pop the expected ones over
  the arguments given, refuse the rest.
\<close>

definition take_kwargs ::
    "string \<Rightarrow> (string \<times> obj) list \<Rightarrow> (string, obj) dict \<Rightarrow> dsl_error + obj list" where
  "take_kwargs context args extra =
     (case normalize_hy_kwargs [] extra of
        Inl e \<Rightarrow> Inl e
      | Inr kwargs \<Rightarrow>
          (let (vs, rest) = pop_kws kwargs args
           in if rest \<noteq> [] then Inl (UnknownKeywords context (sort (map fst rest))) else Inr vs))"

section \<open>Constructors\<close>

text \<open>The arguments a call gives by name; the rest have the default \<open>None\<close> (or the one stated).\<close>

definition kwarg :: "(string, obj) dict \<Rightarrow> string \<Rightarrow> obj \<Rightarrow> obj" where
  "kwarg given name dflt = (case dget given name of None \<Rightarrow> dflt | Some v \<Rightarrow> v)"

definition opt_args :: "(string, obj) dict \<Rightarrow> string list \<Rightarrow> (string \<times> obj) list" where
  "opt_args given names = map (\<lambda>n. (n, kwarg given n ONone)) names"

definition opt_name :: "(obj \<Rightarrow> string) \<Rightarrow> obj \<Rightarrow> string option" where
  "opt_name sr x = (if x = ONone then None else Some (normalize_name sr x))"

text \<open>Frozen dataclasses hash their fields, tuples their items; lists and dictionaries do not hash.\<close>

fun hashable :: "obj \<Rightarrow> bool" where
  "hashable (OList xs) = False"
| "hashable (ODict d) = False"
| "hashable (OTuple xs) = list_all hashable xs"
| "hashable (OField x f) = (hashable x \<and> hashable f)"
| "hashable (OOks x) = hashable x"
| "hashable (OPrompt ps) = list_all hashable ps"
| "hashable (OWorkspace r f n) = (hashable r \<and> hashable f)"
| "hashable (OMerge ws s b p) = (list_all hashable ws \<and> hashable s \<and> hashable b \<and> hashable p)"
| "hashable (OAgent (AgentSpec r c p s w f pf ps rt b d l ph)) =
     (hashable p \<and> hashable s \<and> hashable w \<and> hashable rt \<and> hashable b \<and> hashable d \<and> hashable l \<and> hashable ph)"
| "hashable (OGate c w t b p) = (hashable c \<and> hashable w \<and> hashable t \<and> hashable b \<and> hashable p)"
| "hashable (OTime l b) = (hashable l \<and> hashable b)"
| "hashable (ORandom s l b) = (hashable s \<and> hashable l \<and> hashable b)"
| "hashable (OParallel bs q b) = (list_all hashable bs \<and> hashable q \<and> hashable b)"
| "hashable (OParallelFor v vs bs b) = (list_all hashable vs \<and> list_all hashable bs \<and> hashable b)"
| "hashable (OLoop m u bs b) = (hashable m \<and> hashable u \<and> list_all hashable bs \<and> hashable b)"
| "hashable (OBind t e) = hashable e"
| "hashable (OPhase n s b) = list_all hashable b"
| "hashable (OArtifact v) = hashable v"
| "hashable (ORaw d) = hashable d"
| "hashable x = True"

text \<open>\<open>frozenset(files)\<close>, on objects told apart by their class as well as their value.\<close>

definition frozen :: "obj \<Rightarrow> dsl_error + obj list option" where
  "frozen x =
     (if x = ONone then Inr None
      else case items_of x of
             None \<Rightarrow> Inl PyTypeError
           | Some xs \<Rightarrow> if list_all hashable xs then Inr (Some (remdups xs)) else Inl PyTypeError)"

definition agent_bang :: "(obj \<Rightarrow> string) \<Rightarrow> (string, obj) dict \<Rightarrow> (string, obj) dict \<Rightarrow> dsl_error + obj" where
  "agent_bang sr given extra =
     (case take_kwargs ''agent!'' (opt_args given
         [''role'', ''verification_class'', ''prompt'', ''schema'', ''workspace'', ''files'', ''profile'',
          ''persona'', ''retry'', ''budget'', ''deadline_seconds'', ''label'', ''phase'', ''class_'']) extra of
        Inl e \<Rightarrow> Inl e
      | Inr v \<Rightarrow>
          (case frozen (v ! 5) of
             Inl e \<Rightarrow> Inl e
           | Inr files \<Rightarrow>
               Inr (OAgent (AgentSpec (opt_name sr (v ! 0))
                 (opt_name sr (if v ! 1 = ONone then v ! 13 else v ! 1))
                 (v ! 2) (v ! 3) (v ! 4) files (opt_name sr (v ! 6)) (opt_name sr (v ! 7))
                 (v ! 8) (v ! 9) (v ! 10) (v ! 11) (v ! 12)))))"

definition gate_bang :: "(string, obj) dict \<Rightarrow> (string, obj) dict \<Rightarrow> dsl_error + obj" where
  "gate_bang given extra =
     (case take_kwargs ''gate!'' (opt_args given [''cmd'', ''workspace'', ''timeout'', ''budget'', ''phase'']) extra of
        Inl e \<Rightarrow> Inl e
      | Inr v \<Rightarrow> if v ! 0 = ONone then Inl (MissingArgument ''gate!'' '':cmd'')
                 else Inr (OGate (v ! 0) (v ! 1) (v ! 2) (v ! 3) (v ! 4)))"

text \<open>\<open>workspace_bang\<close> draws the next occurrence number from the module's counter.\<close>

definition workspace_bang ::
    "(string, obj) dict \<Rightarrow> (string, obj) dict \<Rightarrow> nat \<Rightarrow> (dsl_error + obj) \<times> nat" where
  "workspace_bang given extra occ =
     (case take_kwargs ''workspace!'' (opt_args given [''repo'', ''from_'']) extra of
        Inl e \<Rightarrow> (Inl e, occ)
      | Inr v \<Rightarrow> (Inr (OWorkspace (v ! 0) (v ! 1) occ), Suc occ))"

definition reset_workspace_occurrences :: nat where
  "reset_workspace_occurrences = 0"

definition tuple_of :: "obj \<Rightarrow> dsl_error + obj list" where
  "tuple_of x = (case items_of x of None \<Rightarrow> Inl PyTypeError | Some xs \<Rightarrow> Inr xs)"

definition merge_bang :: "(string, obj) dict \<Rightarrow> (string, obj) dict \<Rightarrow> dsl_error + obj" where
  "merge_bang given extra =
     (case take_kwargs ''merge!'' [(''workspaces'', kwarg given ''workspaces'' ONone),
         (''strategy'', kwarg given ''strategy'' (OStr ''merge'')), (''budget'', kwarg given ''budget'' ONone),
         (''phase'', kwarg given ''phase'' ONone)] extra of
        Inl e \<Rightarrow> Inl e
      | Inr v \<Rightarrow>
          if v ! 0 = ONone then Inl (MissingArgument ''merge!'' '':workspaces'')
          else case tuple_of (v ! 0) of Inl e \<Rightarrow> Inl e | Inr ws \<Rightarrow> Inr (OMerge ws (v ! 1) (v ! 2) (v ! 3)))"

definition time_bang :: "(string, obj) dict \<Rightarrow> (string, obj) dict \<Rightarrow> dsl_error + obj" where
  "time_bang given extra =
     (case take_kwargs ''time!'' (opt_args given [''label'', ''budget'']) extra of
        Inl e \<Rightarrow> Inl e | Inr v \<Rightarrow> Inr (OTime (v ! 0) (v ! 1)))"

definition random_bang :: "(string, obj) dict \<Rightarrow> (string, obj) dict \<Rightarrow> dsl_error + obj" where
  "random_bang given extra =
     (case take_kwargs ''random!'' (opt_args given [''spec'', ''label'', ''budget'']) extra of
        Inl e \<Rightarrow> Inl e
      | Inr v \<Rightarrow> Inr (ORandom (v ! 0) (v ! 1) (v ! 2)))"

definition parallel :: "obj list \<Rightarrow> (string, obj) dict \<Rightarrow> (string, obj) dict \<Rightarrow> dsl_error + obj" where
  "parallel branches given extra =
     (case take_kwargs ''parallel'' (opt_args given [''quorum'', ''budget'']) extra of
        Inl e \<Rightarrow> Inl e | Inr v \<Rightarrow> Inr (OParallel branches (v ! 0) (v ! 1)))"

definition parallel_for ::
    "(obj \<Rightarrow> string) \<Rightarrow> obj \<Rightarrow> obj \<Rightarrow> (obj \<Rightarrow> obj) \<Rightarrow> (string, obj) dict \<Rightarrow> (string, obj) dict \<Rightarrow> dsl_error + obj" where
  "parallel_for sr var_name values body given extra =
     (case take_kwargs ''parallel-for'' (opt_args given [''budget'']) extra of
        Inl e \<Rightarrow> Inl e
      | Inr v \<Rightarrow>
          (case values of
             OStr s \<Rightarrow> Inl ParallelForString
           | _ \<Rightarrow>
               (case tuple_of values of
                  Inl e \<Rightarrow> Inl e
                | Inr vals \<Rightarrow> Inr (OParallelFor (normalize_name sr var_name) vals (map body vals) (v ! 0)))))"

text \<open>The keyword of the iteration bound is \<open>max\<close>; the parameter is \<open>max_iterations\<close>.\<close>

definition loop :: "(string, obj) dict \<Rightarrow> (string, obj) dict \<Rightarrow> dsl_error + obj" where
  "loop given extra =
     (case take_kwargs ''loop'' [(''max'', kwarg given ''max_iterations'' ONone), (''until'', kwarg given ''until'' ONone),
         (''body'', kwarg given ''body'' ONone), (''budget'', kwarg given ''budget'' ONone)] extra of
        Inl e \<Rightarrow> Inl e
      | Inr v \<Rightarrow>
          if v ! 0 = ONone then Inl (MissingArgument ''loop'' '':max'')
          else if v ! 1 = ONone then Inl (MissingArgument ''loop'' '':until'')
          else if v ! 2 = ONone then Inl (MissingArgument ''loop'' ''body'')
          else case tuple_of (v ! 2) of Inl e \<Rightarrow> Inl e | Inr body \<Rightarrow> Inr (OLoop (v ! 0) (v ! 1) body (v ! 3)))"

definition bind_form :: "(obj \<Rightarrow> string) \<Rightarrow> obj \<Rightarrow> obj \<Rightarrow> dsl_error + obj" where
  "bind_form sr tgt expr =
     (case tgt of
        OStr s \<Rightarrow> Inr (OBind (TName s) expr)
      | _ \<Rightarrow> (case tuple_of tgt of Inl e \<Rightarrow> Inl e
              | Inr xs \<Rightarrow> Inr (OBind (TNames (map (str_of sr) xs)) expr)))"

definition pipeline :: "obj list \<Rightarrow> obj" where
  "pipeline forms = OForbidden ''pipeline'' ''pipeline is OPEN for v1; use static parallel or parallel-for''"

definition ask_form :: "(obj \<Rightarrow> string) \<Rightarrow> obj \<Rightarrow> obj" where
  "ask_form rp name = OForbidden ''ask''
     (''binding locality violation: ask('' @ rp name @ '') is not in the closed DSL'')"

definition local_form :: "obj \<Rightarrow> obj \<Rightarrow> obj" where
  "local_form bindings body = OForbidden ''Local''
     ''binding locality violation: Local/dynamic scoping is not in the closed DSL''"

definition defphase :: "(obj \<Rightarrow> string) \<Rightarrow> obj \<Rightarrow> obj \<Rightarrow> obj \<Rightarrow> dsl_error + obj" where
  "defphase sr name stakes body =
     (case (if truthy body then tuple_of body else Inr []) of
        Inl e \<Rightarrow> Inl e
      | Inr forms \<Rightarrow> Inr (OPhase (normalize_name sr name) (normalize_name sr stakes) forms))"

record workflow =
  w_name :: string
  w_params :: "(string, obj) dict"
  w_roles :: "(string, obj) dict"
  w_body :: "obj list"
  w_budget :: obj

definition defworkflow ::
    "(obj \<Rightarrow> string) \<Rightarrow> obj \<Rightarrow> (string, obj) dict \<Rightarrow> (obj, obj) dict \<Rightarrow> obj list \<Rightarrow> obj \<Rightarrow> workflow" where
  "defworkflow sr name params roles body budget =
     \<lparr>w_name = normalize_name sr name, w_params = params,
      w_roles = fold (\<lambda>(r, spec). dput (normalize_name sr r) spec) roles [],
      w_body = body, w_budget = budget\<rparr>"

section \<open>Budget and deadline annotations\<close>

text \<open>
  \<open>str.lower\<close> and \<open>str.isdigit\<close> on Latin-1 text. The superscript digits 2, 3 and 1
  (code points 178, 179, 185) are \<open>isdigit\<close> but not decimal, so \<open>int()\<close> refuses them.
\<close>

definition lower_char :: "char \<Rightarrow> char" where
  "lower_char c = (let n = of_char c :: nat in
     if 65 \<le> n \<and> n \<le> 90 \<or> 192 \<le> n \<and> n \<le> 222 \<and> n \<noteq> 215 then char_of (n + 32) else c)"

definition is_decimal :: "char \<Rightarrow> bool" where
  "is_decimal c = (let n = of_char c :: nat in 48 \<le> n \<and> n \<le> 57)"

definition is_digit :: "char \<Rightarrow> bool" where
  "is_digit c = (is_decimal c \<or> (of_char c :: nat) \<in> {178, 179, 185})"

definition digit_val :: "char \<Rightarrow> int" where
  "digit_val c = int (of_char c :: nat) - 48"

definition decimal_value :: "string \<Rightarrow> int" where
  "decimal_value s = foldl (\<lambda>acc c. acc * 10 + digit_val c) 0 s"

definition budget_text :: "string \<Rightarrow> string" where
  "budget_text s = str_replace ''_'' [] (map lower_char (strip s))"

definition budget_suffix :: "string \<Rightarrow> string \<times> int" where
  "budget_suffix t =
     (if ends_with t ''k'' then (butlast t, 1000)
      else if ends_with t ''m'' then (butlast t, 1000000) else (t, 1))"

definition parse_budget :: "obj \<Rightarrow> string \<Rightarrow> dsl_error + int" where
  "parse_budget budget context =
     (case budget of
        ONone \<Rightarrow> Inr 0
      | OBool b \<Rightarrow> Inl (BudgetNotNumeric context)
      | OInt i \<Rightarrow> if i < 0 then Inl (BudgetNegative context) else Inr i
      | OFloat (Fin q) \<Rightarrow> if q < 0 \<or> of_int \<lfloor>q\<rfloor> \<noteq> q then Inl (BudgetNotInteger context) else Inr \<lfloor>q\<rfloor>
      | OFloat f \<Rightarrow> Inl (BudgetNotInteger context)
      | OStr s \<Rightarrow>
          (let (text, multiplier) = budget_suffix (budget_text s) in
           if text = [] \<or> \<not> list_all is_digit text then Inl (BudgetInvalid budget)
           else if \<not> list_all is_decimal text then Inl PyValueError
           else Inr (decimal_value text * multiplier))
      | _ \<Rightarrow> Inl (BudgetType (type_name budget)))"

text \<open>
  \<open>float(i)\<close>: the nearest number of 53 significant bits, ties to even; \<open>None\<close> is the
  \<open>OverflowError\<close> of an integer that rounds to \<open>2 ^ 1024\<close> or more.
\<close>

fun bit_length :: "nat \<Rightarrow> nat" where
  "bit_length n = (if n = 0 then 0 else Suc (bit_length (n div 2)))"

declare bit_length.simps [simp del]

definition round_nat :: "nat \<Rightarrow> nat" where
  "round_nat n =
     (let e = bit_length n - 53; q = n div 2 ^ e; r = n mod 2 ^ e
      in if 2 * r > 2 ^ e \<or> 2 * r = 2 ^ e \<and> odd q then (q + 1) * 2 ^ e else q * 2 ^ e)"

definition float_of_int :: "int \<Rightarrow> rat option" where
  "float_of_int i =
     (let n = round_nat (nat \<bar>i\<bar>)
      in if n \<ge> 2 ^ 1024 then None else Some (if i < 0 then - of_nat n else of_nat n))"

definition deadline_value :: "rat \<Rightarrow> string \<Rightarrow> dsl_error + rat option" where
  "deadline_value q context = (if q \<le> 0 then Inl (DeadlineNotPositive context) else Inr (Some q))"

definition parse_deadline :: "obj \<Rightarrow> string \<Rightarrow> dsl_error + rat option" where
  "parse_deadline deadline context =
     (case deadline of
        ONone \<Rightarrow> Inr None
      | OInt i \<Rightarrow> (case float_of_int i of None \<Rightarrow> Inl PyOverflowError | Some q \<Rightarrow> deadline_value q context)
      | OFloat (Fin q) \<Rightarrow> deadline_value q context
      | OFloat f \<Rightarrow> Inl (DeadlineNotFinite context)
      | _ \<Rightarrow> Inl (DeadlineNotNumeric context))"

end
