(* ===== verification/Dsl_Expand.thy ===== *)
theory Dsl_Expand
  imports Dsl_Syntax
begin

text \<open>
  Expansion of a workflow into nodes (\<open>WorkflowSpec.expand\<close> and the functions it calls in
  \<open>doeff_conductor/dsl.py\<close>): the checks that a workflow is closed, and the nodes, bindings and
  budget it expands to. The expansion state is threaded by the computations of the prelude; the
  table \<open>_EXPAND_EXPR_HANDLERS\<close> and the table \<open>_EXPR_REF_COLLECTORS\<close> are the pattern matches of
  \<open>expand_expr\<close> and \<open>collect_expr_refs\<close>. \<open>rp\<close> is \<open>repr\<close>.
\<close>

section \<open>State\<close>

text \<open>The effects of \<open>effects/dsl.py\<close> that expansion attaches to nodes.\<close>

datatype (plugins only: code size) call =
    AgentCall string string obj obj obj "obj list" "string option" "string option" obj "rat option" obj obj
    \<comment> \<open>role, class, prompt, schema, workspace, files, profile, persona, retry, deadline, label, phase\<close>
  | GateCall obj obj obj obj \<comment> \<open>cmd, workspace, timeout, phase\<close>
  | MergeCall "obj list" obj
  | WorkspaceCall obj obj
  | TimeCall obj
  | RandomCall obj obj

record binding_info =
  b_node :: string
  b_kind :: string
  b_try :: bool
  b_phase :: "string option"
  b_consumed :: bool

record expanded_node =
  n_id :: string
  n_kind :: string
  n_phase :: obj
  n_deps :: "string list"
  n_effect :: "call option"
  n_budget :: int

record expansion =
  x_workflow :: string
  x_roles :: "(string, obj) dict"
  x_phases :: "(string, string \<times> obj list) dict"
  x_limit :: "int option"
  x_nodes :: "expanded_node list"
  x_bindings :: "(string, binding_info) dict"
  x_total :: int
  x_groups :: "string list list"
  x_merged :: "string list"

record expr_info =
  e_node :: string
  e_kind :: string
  e_count :: nat
  e_try :: bool
  e_branches :: "string list"

type_synonym 'a xpy = "(dsl_error, expansion, 'a) py"

definition node_id :: "string \<Rightarrow> string \<Rightarrow> string \<Rightarrow> string" where
  "node_id w path kind = (if path \<noteq> [] then w @ ''/'' @ path @ ''/'' @ kind else w @ ''/'' @ kind)"

definition path_join :: "string \<Rightarrow> string \<Rightarrow> string" where
  "path_join prefix child = (if prefix = [] then child else prefix @ ''/'' @ child)"

definition phase_obj :: "string option \<Rightarrow> obj" where
  "phase_obj p = (case p of None \<Rightarrow> ONone | Some s \<Rightarrow> OStr s)"

text \<open>\<open>spec.phase or current_phase\<close>\<close>

definition effective_phase :: "obj \<Rightarrow> string option \<Rightarrow> obj" where
  "effective_phase p current = (if truthy p then p else phase_obj current)"

definition sorted_set :: "string list \<Rightarrow> string list" where
  "sorted_set xs = sort (remdups xs)"

section \<open>Effects of the specs\<close>

definition agent_to_effect :: "obj agent_spec \<Rightarrow> obj \<Rightarrow> dsl_error + call" where
  "agent_to_effect a phase =
     (case ag_role a of
        None \<Rightarrow> Inl MissingAgentRole
      | Some role \<Rightarrow>
          (case ag_class a of
             None \<Rightarrow> Inl MissingAgentClass
           | Some cls \<Rightarrow>
               if ag_schema a = ONone then Inl MissingAgentSchema
               else
                 (case parse_deadline (ag_deadline a) ''agent! deadline-seconds'' of
                    Inl e \<Rightarrow> Inl e
                  | Inr d \<Rightarrow>
                      Inr (AgentCall role cls (ag_prompt a) (ag_schema a) (ag_workspace a)
                        (case ag_files a of None \<Rightarrow> [] | Some fs \<Rightarrow> fs)
                        (ag_profile a) (ag_persona a) (ag_retry a) d (ag_label a)
                        (if truthy (ag_phase a) then ag_phase a else phase)))))"

section \<open>References\<close>

definition use_binding :: "bool \<Rightarrow> string \<Rightarrow> string list xpy" where
  "use_binding allow_try name =
     py_bind (py_need (UndefinedReference name) (\<lambda>s. dget (x_bindings s) name)) (\<lambda>b.
     if b_try b \<and> \<not> allow_try then py_raise (UnhandledTry name)
     else
       py_bind (py_modify (x_bindings_update (dput name (b\<lparr>b_consumed := True\<rparr>)))) (\<lambda>_.
       py_ret [b_node b]))"

definition check_field_source :: "obj \<Rightarrow> unit xpy" where
  "check_field_source source =
     (case source of
        ORef name \<Rightarrow>
          py_bind (py_need (UndefinedReference name) (\<lambda>s. dget (x_bindings s) name)) (\<lambda>b.
          if b_try b then py_raise (TryDereferenced name) else py_ret ())
      | _ \<Rightarrow> py_ret ())"

text \<open>
  The dependencies an expression adds, in the order the code adds them to its set. An argument
  that is \<open>None\<close> is in no collector's class and adds none, as \<open>_validate_expr_refs\<close> skips it.
\<close>

fun collect_expr_refs :: "bool \<Rightarrow> obj \<Rightarrow> string list xpy"
  and collect_iterable :: "bool \<Rightarrow> obj list \<Rightarrow> string list xpy"
  and collect_mapping :: "bool \<Rightarrow> (obj \<times> obj) list \<Rightarrow> string list xpy" where
  "collect_expr_refs allow_try (ORef name) = use_binding allow_try name"
| "collect_expr_refs allow_try (OField source f) =
     py_bind (check_field_source source) (\<lambda>_. collect_expr_refs allow_try source)"
| "collect_expr_refs allow_try (OOks source) = collect_expr_refs True source"
| "collect_expr_refs allow_try (OPrompt parts) = collect_iterable allow_try parts"
| "collect_expr_refs allow_try (OWorkspace repo from n) = collect_expr_refs allow_try from"
| "collect_expr_refs allow_try (OMerge ws strategy budget phase) = collect_iterable allow_try ws"
| "collect_expr_refs allow_try (OAgent (AgentSpec role cls prompt schema ws files pf ps rt budget d l ph)) =
     py_bind (collect_expr_refs allow_try prompt) (\<lambda>ds.
     py_bind (collect_expr_refs allow_try ws) (\<lambda>ds'. py_ret (ds @ ds')))"
| "collect_expr_refs allow_try (OGate cmd ws timeout budget phase) = collect_expr_refs allow_try ws"
| "collect_expr_refs allow_try (ORandom spec l budget) = collect_expr_refs allow_try spec"
| "collect_expr_refs allow_try (ODict d) = collect_mapping allow_try d"
| "collect_expr_refs allow_try (OList xs) = collect_iterable allow_try xs"
| "collect_expr_refs allow_try (OTuple xs) = collect_iterable allow_try xs"
| "collect_expr_refs allow_try (OSet xs) = collect_iterable allow_try xs"
| "collect_expr_refs allow_try x = py_ret []"
| "collect_iterable allow_try [] = py_ret []"
| "collect_iterable allow_try (x # xs) =
     py_bind (collect_expr_refs allow_try x) (\<lambda>ds.
     py_bind (collect_iterable allow_try xs) (\<lambda>ds'. py_ret (ds @ ds')))"
| "collect_mapping allow_try [] = py_ret []"
| "collect_mapping allow_try ((k, v) # d) =
     py_bind (collect_expr_refs allow_try v) (\<lambda>ds.
     py_bind (collect_mapping allow_try d) (\<lambda>ds'. py_ret (ds @ ds')))"

definition validate_expr_refs :: "bool \<Rightarrow> obj \<Rightarrow> string list xpy" where
  "validate_expr_refs allow_try expr =
     (if expr = ONone then py_ret [] else collect_expr_refs allow_try expr)"

section \<open>Workspace keys\<close>

fun stable_key :: "(obj \<Rightarrow> string) \<Rightarrow> obj \<Rightarrow> string"
  and stable_keys :: "(obj \<Rightarrow> string) \<Rightarrow> obj list \<Rightarrow> string list" where
  "stable_key rp (ORef name) = ''ref:'' @ name"
| "stable_key rp (OWorkspace repo from n) =
     ''workspace:'' @ stable_key rp repo @ '':'' @ stable_key rp from"
| "stable_key rp (OPrompt parts) = ''prompt:'' @ str_join ''|'' (stable_keys rp parts)"
| "stable_key rp (OList xs) = ''['' @ str_join '','' (stable_keys rp xs) @ '']''"
| "stable_key rp (OTuple xs) = ''['' @ str_join '','' (stable_keys rp xs) @ '']''"
| "stable_key rp (OSet xs) = ''{'' @ str_join '','' (sort (stable_keys rp xs)) @ ''}''"
| "stable_key rp x = rp x"
| "stable_keys rp [] = []"
| "stable_keys rp (x # xs) = stable_key rp x # stable_keys rp xs"

definition workspace_key :: "(obj \<Rightarrow> string) \<Rightarrow> obj \<Rightarrow> string option" where
  "workspace_key rp ws =
     (case ws of
        ONone \<Rightarrow> None
      | OWorkspace repo from n \<Rightarrow> Some (''workspace:'' @ stable_key rp repo @ '':'' @ stable_key rp from)
      | ORef name \<Rightarrow> Some (''ref:'' @ name)
      | _ \<Rightarrow> Some (''value:'' @ stable_key rp ws))"

section \<open>Checks\<close>

definition add_budget :: "obj \<Rightarrow> string \<Rightarrow> int xpy" where
  "add_budget budget context s =
     (case parse_budget budget context of
        Inl e \<Rightarrow> (Inl e, s)
      | Inr units \<Rightarrow>
          (let s' = s\<lparr>x_total := x_total s + units\<rparr> in
           case x_limit s of
             None \<Rightarrow> (Inr units, s')
           | Some limit \<Rightarrow>
               if x_total s' > limit then (Inl (BudgetExceeded (x_total s') limit), s') else (Inr units, s')))"

definition validate_phase_use :: "obj \<Rightarrow> unit xpy" where
  "validate_phase_use phase s =
     (case phase of
        ONone \<Rightarrow> (Inr (), s)
      | OStr name \<Rightarrow> if dget (x_phases s) name = None then (Inl (UndeclaredPhase phase), s) else (Inr (), s)
      | _ \<Rightarrow> if hashable phase then (Inl (UndeclaredPhase phase), s) else (Inl PyTypeError, s))"

definition collect_phase ::
    "(string, string \<times> obj list) dict \<Rightarrow> obj \<Rightarrow> dsl_error + (string, string \<times> obj list) dict" where
  "collect_phase phases form =
     (case form of
        OPhase name stakes body \<Rightarrow>
          if name = [] then Inl UnnamedPhase
          else if dget phases name \<noteq> None then Inl (DuplicatePhase name)
          else if stakes \<notin> {''low'', ''normal'', ''high''} then Inl (InvalidStakes name stakes)
          else if body = [] then Inl (OrphanedPhase name)
          else Inr (dput name (stakes, body) phases)
      | _ \<Rightarrow> Inr phases)"

fun collect_phases ::
    "(string, string \<times> obj list) dict \<Rightarrow> obj list \<Rightarrow> dsl_error + (string, string \<times> obj list) dict" where
  "collect_phases phases [] = Inr phases"
| "collect_phases phases (form # forms) =
     (case collect_phase phases form of Inl e \<Rightarrow> Inl e | Inr phases' \<Rightarrow> collect_phases phases' forms)"

text \<open>The agents of a parallel join that write a workspace, grouped by the workspace's key.\<close>

fun workspace_agents :: "obj list \<Rightarrow> obj agent_spec list" where
  "workspace_agents [] = []"
| "workspace_agents (OAgent a # bs) =
     (if ag_workspace a = ONone then workspace_agents bs else a # workspace_agents bs)"
| "workspace_agents (b # bs) = workspace_agents bs"

definition group_by_workspace :: "(obj \<Rightarrow> string) \<Rightarrow> obj agent_spec list \<Rightarrow> (string, obj agent_spec list) dict" where
  "group_by_workspace rp agents =
     fold (\<lambda>a d. case workspace_key rp (ag_workspace a) of None \<Rightarrow> d | Some k \<Rightarrow> dappend k a d) agents []"

fun disjoint_files :: "string \<Rightarrow> obj list \<Rightarrow> obj agent_spec list \<Rightarrow> dsl_error + unit" where
  "disjoint_files key seen [] = Inr ()"
| "disjoint_files key seen (a # agents) =
     (case ag_files a of
        None \<Rightarrow> Inl (WritersWithoutFiles key)
      | Some files \<Rightarrow>
          if files = [] then Inl (WritersWithoutFiles key)
          else if \<exists>f \<in> set files. f \<in> set seen then Inl (OverlappingFiles key)
          else disjoint_files key (seen @ files) agents)"

fun check_groups :: "bool \<Rightarrow> (string, obj agent_spec list) dict \<Rightarrow> dsl_error + bool" where
  "check_groups shared [] = Inr shared"
| "check_groups shared ((key, agents) # groups) =
     (if length agents < 2 then check_groups shared groups
      else case disjoint_files key [] agents of
             Inl e \<Rightarrow> Inl e
           | Inr _ \<Rightarrow> check_groups True groups)"

definition validate_parallel_workspace_writes :: "(obj \<Rightarrow> string) \<Rightarrow> obj list \<Rightarrow> unit xpy" where
  "validate_parallel_workspace_writes rp branches s =
     (let agents = workspace_agents branches in
      if length agents < 2 then (Inr (), s)
      else
        (let groups = group_by_workspace rp agents in
         case check_groups False groups of
           Inl e \<Rightarrow> (Inl e, s)
         | Inr shared \<Rightarrow>
             if \<not> shared \<and> length groups > 1
             then (Inr (), s\<lparr>x_groups := x_groups s @ [dkeys groups]\<rparr>) else (Inr (), s)))"

fun validate_groups :: "string list \<Rightarrow> string list list \<Rightarrow> dsl_error + unit" where
  "validate_groups merged [] = Inr ()"
| "validate_groups merged (g # groups) =
     (let missing = filter (\<lambda>k. k \<notin> set merged) g
      in if missing \<noteq> [] then Inl (MissingMerge (sort missing)) else validate_groups merged groups)"

definition validate_required_merges :: "unit xpy" where
  "validate_required_merges s = (validate_groups (x_merged s) (x_groups s), s)"

definition validate_local_bindings_consumed :: "string list \<Rightarrow> unit xpy" where
  "validate_local_bindings_consumed names s =
     (let unconsumed = sort (filter (\<lambda>n. case dget (x_bindings s) n of None \<Rightarrow> False | Some b \<Rightarrow> \<not> b_consumed b) names)
      in if unconsumed \<noteq> [] then (Inl (Unconsumed unconsumed), s) else (Inr (), s))"

definition validate_unconsumed_bindings :: "unit xpy" where
  "validate_unconsumed_bindings s = validate_local_bindings_consumed (dkeys (x_bindings s)) s"

definition bind_name ::
    "string \<Rightarrow> string \<Rightarrow> string \<Rightarrow> bool \<Rightarrow> string option \<Rightarrow> unit xpy" where
  "bind_name name node kind is_try phase s =
     (if name = [] then (Inl EmptyTarget, s)
      else if dget (x_bindings s) name \<noteq> None then (Inl (DuplicateBinding name), s)
      else (Inr (), s\<lparr>x_bindings := dput name
        \<lparr>b_node = node, b_kind = kind, b_try = is_try, b_phase = phase, b_consumed = False\<rparr> (x_bindings s)\<rparr>))"

section \<open>Nodes\<close>

definition append_node :: "string \<Rightarrow> string \<Rightarrow> obj \<Rightarrow> string list \<Rightarrow> call option \<Rightarrow> int \<Rightarrow> string xpy" where
  "append_node path kind phase deps effect units s =
     (let node = node_id (x_workflow s) path kind
      in (Inr node, s\<lparr>x_nodes := x_nodes s @ [\<lparr>n_id = node, n_kind = kind, n_phase = phase, n_deps = deps,
           n_effect = effect, n_budget = units\<rparr>]\<rparr>))"

definition simple_info :: "string \<Rightarrow> string \<Rightarrow> expr_info" where
  "simple_info kind node = \<lparr>e_node = node, e_kind = kind, e_count = 1, e_try = False, e_branches = []\<rparr>"

definition leaf_node :: "string \<Rightarrow> string \<Rightarrow> obj \<Rightarrow> string list \<Rightarrow> call option \<Rightarrow> int \<Rightarrow> expr_info xpy" where
  "leaf_node path kind phase deps effect units =
     py_bind (append_node path kind phase (sorted_set deps) effect units) (\<lambda>node. py_ret (simple_info kind node))"

definition expand_glue :: "string option \<Rightarrow> string \<Rightarrow> obj \<Rightarrow> expr_info xpy" where
  "expand_glue current path expr =
     py_bind (validate_expr_refs False expr) (\<lambda>deps.
     leaf_node path ''glue'' (phase_obj current) deps None 0)"

definition expand_artifact :: "string option \<Rightarrow> string \<Rightarrow> obj \<Rightarrow> expr_info xpy" where
  "expand_artifact current path v =
     py_bind (validate_expr_refs False v) (\<lambda>deps.
     leaf_node path ''artifact'' (phase_obj current) deps None 0)"

definition expand_agent :: "string option \<Rightarrow> string \<Rightarrow> obj agent_spec \<Rightarrow> expr_info xpy" where
  "expand_agent current path a =
     (let phase = effective_phase (ag_phase a) current in
      py_bind (validate_phase_use phase) (\<lambda>_.
      if ag_schema a = ONone then py_raise MissingAgentSchema
      else case ag_class a of None \<Rightarrow> py_raise MissingAgentClass | Some cls \<Rightarrow>
      (case ag_role a of None \<Rightarrow> py_raise MissingAgentRole | Some role \<Rightarrow>
      py_bind (py_need (UnresolvedRole role) (\<lambda>s. dget (x_roles s) role)) (\<lambda>_.
      py_bind (validate_expr_refs False (ag_prompt a)) (\<lambda>deps.
      py_bind (validate_expr_refs False (ag_workspace a)) (\<lambda>deps'.
      py_bind (add_budget (ag_budget a) ''agent! budget'') (\<lambda>units.
      case parse_deadline (ag_deadline a) ''agent! deadline-seconds'' of Inl e \<Rightarrow> py_raise e | Inr _ \<Rightarrow>
      (case agent_to_effect a phase of Inl e \<Rightarrow> py_raise e | Inr call \<Rightarrow>
      leaf_node path ''agent'' phase (deps @ deps') (Some call) units))))))))"

definition expand_gate :: "string option \<Rightarrow> string \<Rightarrow> obj \<Rightarrow> obj \<Rightarrow> obj \<Rightarrow> obj \<Rightarrow> obj \<Rightarrow> expr_info xpy" where
  "expand_gate current path cmd ws timeout budget spec_phase =
     (let phase = effective_phase spec_phase current in
      py_bind (validate_phase_use phase) (\<lambda>_.
      py_bind (validate_expr_refs False ws) (\<lambda>deps.
      py_bind (add_budget budget ''gate! budget'') (\<lambda>units.
      leaf_node path ''gate'' phase deps
        (Some (GateCall cmd ws timeout (if truthy spec_phase then spec_phase else phase))) units))))"

definition merge_workspace :: "(obj \<Rightarrow> string) \<Rightarrow> string list \<Rightarrow> obj \<Rightarrow> string list xpy" where
  "merge_workspace rp deps ws =
     py_bind (validate_expr_refs False ws) (\<lambda>deps'.
     py_bind (case workspace_key rp ws of
                None \<Rightarrow> py_ret ()
              | Some key \<Rightarrow> py_modify (x_merged_update (\<lambda>ms. ms @ [key]))) (\<lambda>_.
     py_ret (deps @ deps')))"

definition expand_merge ::
    "(obj \<Rightarrow> string) \<Rightarrow> string option \<Rightarrow> string \<Rightarrow> obj list \<Rightarrow> obj \<Rightarrow> obj \<Rightarrow> obj \<Rightarrow> expr_info xpy" where
  "expand_merge rp current path ws strategy budget spec_phase =
     (let phase = effective_phase spec_phase current in
      py_bind (validate_phase_use phase) (\<lambda>_.
      py_bind (py_fold (merge_workspace rp) [] ws) (\<lambda>deps.
      py_bind (add_budget budget ''merge! budget'') (\<lambda>units.
      leaf_node path ''merge'' phase deps (Some (MergeCall ws strategy)) units))))"

definition expand_time :: "string option \<Rightarrow> string \<Rightarrow> obj \<Rightarrow> obj \<Rightarrow> expr_info xpy" where
  "expand_time current path label budget =
     py_bind (add_budget budget ''time! budget'') (\<lambda>units.
     leaf_node path ''time'' (phase_obj current) [] (Some (TimeCall label)) units)"

definition expand_random :: "string option \<Rightarrow> string \<Rightarrow> obj \<Rightarrow> obj \<Rightarrow> obj \<Rightarrow> expr_info xpy" where
  "expand_random current path spec label budget =
     py_bind (validate_expr_refs False spec) (\<lambda>deps.
     py_bind (add_budget budget ''random! budget'') (\<lambda>units.
     leaf_node path ''random'' (phase_obj current) deps (Some (RandomCall spec label)) units))"

definition expand_workspace :: "string option \<Rightarrow> string \<Rightarrow> obj \<Rightarrow> obj \<Rightarrow> expr_info xpy" where
  "expand_workspace current path repo from_ref =
     py_bind (validate_expr_refs False from_ref) (\<lambda>deps.
     leaf_node path ''workspace'' (phase_obj current) deps (Some (WorkspaceCall repo from_ref)) 0)"

text \<open>The quorum of a join over \<open>n\<close> branches.\<close>

definition resolve_quorum :: "string \<Rightarrow> nat \<Rightarrow> obj \<Rightarrow> dsl_error + nat" where
  "resolve_quorum label n quorum =
     (if n = 0 then Inl (EmptyJoin label)
      else case quorum of
             ONone \<Rightarrow> Inr n
           | OInt q \<Rightarrow> if q < 1 \<or> q > int n then Inl (QuorumOutside label q n) else Inr (nat q)
           | _ \<Rightarrow> Inl (QuorumNotInteger label))"

text \<open>\<open>run_branches\<close> is the loop over the branches, which returns their node ids.\<close>

definition expand_parallel ::
    "(obj \<Rightarrow> string) \<Rightarrow> string \<Rightarrow> string option \<Rightarrow> string \<Rightarrow> obj list \<Rightarrow> obj \<Rightarrow> obj \<Rightarrow> string list xpy \<Rightarrow> expr_info xpy" where
  "expand_parallel rp label current path branches quorum budget run_branches =
     (case resolve_quorum label (length branches) quorum of Inl e \<Rightarrow> py_raise e | Inr q \<Rightarrow>
      py_bind (validate_parallel_workspace_writes rp branches) (\<lambda>_.
      py_bind (add_budget budget (label @ '' budget'')) (\<lambda>units.
      py_bind run_branches (\<lambda>ids.
      py_bind (append_node path label (phase_obj current) ids None units) (\<lambda>node.
      py_ret \<lparr>e_node = node, e_kind = label, e_count = length branches, e_try = q < length branches,
              e_branches = ids\<rparr>)))))"

text \<open>The end of a loop: the body's bindings must be consumed and go out of scope.\<close>

definition close_loop :: "string list \<Rightarrow> unit xpy" where
  "close_loop outer_names =
     py_bind (py_gets (\<lambda>s. filter (\<lambda>n. n \<notin> set outer_names) (dkeys (x_bindings s)))) (\<lambda>local_names.
     py_bind (validate_local_bindings_consumed local_names) (\<lambda>_.
     py_modify (x_bindings_update (filter (\<lambda>kv. fst kv \<notin> set local_names)))))"

definition loop_bound :: "obj \<Rightarrow> dsl_error + int" where
  "loop_bound max_iterations =
     (case max_iterations of
        OInt m \<Rightarrow> if m < 1 then Inl LoopMaxNotPositive else Inr m
      | _ \<Rightarrow> Inl LoopMaxNotInteger)"

definition expand_loop :: "string option \<Rightarrow> string \<Rightarrow> obj \<Rightarrow> obj \<Rightarrow> obj \<Rightarrow> unit xpy \<Rightarrow> expr_info xpy" where
  "expand_loop current path max_iterations until budget run_body =
     (case loop_bound max_iterations of Inl e \<Rightarrow> py_raise e | Inr _ \<Rightarrow>
      py_bind (validate_expr_refs False until) (\<lambda>deps.
      py_bind (add_budget budget ''loop budget'') (\<lambda>units.
      py_bind (py_gets (\<lambda>s. (dkeys (x_bindings s), length (x_nodes s)))) (\<lambda>(outer_names, start).
      py_bind run_body (\<lambda>_.
      py_bind (close_loop outer_names) (\<lambda>_.
      py_bind (py_gets (\<lambda>s. map n_id (drop start (x_nodes s)))) (\<lambda>body_ids.
      leaf_node path ''loop'' (phase_obj current) (body_ids @ deps) None units)))))))"

section \<open>Forms\<close>

fun bind_names :: "nat \<Rightarrow> string list \<Rightarrow> expr_info \<Rightarrow> string option \<Rightarrow> unit xpy" where
  "bind_names i [] info phase = py_ret ()"
| "bind_names i (name # names) info phase =
     py_bind (bind_name name (e_node info @ ''['' @ nat_str i @ '']'') (e_kind info) False phase) (\<lambda>_.
     bind_names (Suc i) names info phase)"

definition bind_target :: "target \<Rightarrow> expr_info \<Rightarrow> string option \<Rightarrow> unit xpy" where
  "bind_target target info phase =
     (case target of
        TNames names \<Rightarrow>
          if e_count info \<noteq> length names then py_raise (JoinArity names (e_count info))
          else if e_try info then py_raise QuorumJoinTuple
          else bind_names 0 names info phase
      | TName name \<Rightarrow> bind_name name (e_node info) (e_kind info) (e_try info) phase)"

function (sequential) expand_expr :: "(obj \<Rightarrow> string) \<Rightarrow> string option \<Rightarrow> string \<Rightarrow> obj \<Rightarrow> expr_info xpy"
  and expand_branches :: "(obj \<Rightarrow> string) \<Rightarrow> string option \<Rightarrow> string \<Rightarrow> string \<Rightarrow> nat \<Rightarrow> obj list \<Rightarrow> string list xpy"
  and expand_form :: "(obj \<Rightarrow> string) \<Rightarrow> string option \<Rightarrow> string \<Rightarrow> obj \<Rightarrow> unit xpy"
  and expand_forms :: "(obj \<Rightarrow> string) \<Rightarrow> string option \<Rightarrow> string \<Rightarrow> nat \<Rightarrow> obj list \<Rightarrow> unit xpy" where
  "expand_expr rp ph path expr =
     (case expr of
        OForbidden name reason \<Rightarrow> py_raise (Forbidden reason)
      | ORaw d \<Rightarrow> py_raise (RawNode d)
      | OAgent a \<Rightarrow> expand_agent ph path a
      | OGate cmd ws t budget p \<Rightarrow> expand_gate ph path cmd ws t budget p
      | OMerge ws strategy budget p \<Rightarrow> expand_merge rp ph path ws strategy budget p
      | OTime l budget \<Rightarrow> expand_time ph path l budget
      | ORandom spec l budget \<Rightarrow> expand_random ph path spec l budget
      | OWorkspace repo from n \<Rightarrow> expand_workspace ph path repo from
      | OParallel bs quorum budget \<Rightarrow>
          expand_parallel rp ''parallel'' ph path bs quorum budget (expand_branches rp ph path ''parallel'' 0 bs)
      | OParallelFor v vs bs budget \<Rightarrow>
          expand_parallel rp ''parallel-for'' ph path bs ONone budget (expand_branches rp ph path ''parallel-for'' 0 bs)
      | OLoop m until body budget \<Rightarrow>
          expand_loop ph path m until budget (expand_forms rp ph (path_join path ''loop'') 0 body)
      | ORef n \<Rightarrow> expand_glue ph path expr
      | OField x f \<Rightarrow> expand_glue ph path expr
      | OOks x \<Rightarrow> expand_glue ph path expr
      | OPrompt ps \<Rightarrow> expand_glue ph path expr
      | _ \<Rightarrow> py_raise (UnsupportedForm (type_name expr)))"
| "expand_branches rp ph path label i [] = py_ret []"
| "expand_branches rp ph path label i (b # bs) =
     py_bind (expand_expr rp ph (path_join path (label @ ''['' @ nat_str i @ '']'')) b) (\<lambda>info.
     py_bind (expand_branches rp ph path label (Suc i) bs) (\<lambda>ids. py_ret (e_node info # ids)))"
| "expand_form rp ph path form =
     (case form of
        OPhase name stakes body \<Rightarrow> expand_forms rp (Some name) (path_join path name) 0 body
      | OBind target e \<Rightarrow> py_bind (expand_expr rp ph path e) (\<lambda>info. bind_target target info ph)
      | OArtifact v \<Rightarrow> py_bind (expand_artifact ph path v) (\<lambda>_. py_ret ())
      | _ \<Rightarrow> py_bind (expand_expr rp ph path form) (\<lambda>_. py_ret ()))"
| "expand_forms rp ph prefix i [] = py_ret ()"
| "expand_forms rp ph prefix i (form # forms) =
     py_bind (expand_form rp ph (path_join prefix (nat_str i)) form) (\<lambda>_.
     expand_forms rp ph prefix (Suc i) forms)"
  by pat_completeness auto

termination
  by (relation "measure (\<lambda>x. case x of
        Inl (Inl (_, _, _, e)) \<Rightarrow> 2 * size e
      | Inl (Inr (_, _, _, _, _, bs)) \<Rightarrow> 2 * size_list size bs
      | Inr (Inl (_, _, _, f)) \<Rightarrow> 2 * size f + 1
      | Inr (Inr (_, _, _, _, fs)) \<Rightarrow> 2 * size_list size fs)") auto

declare expand_expr.simps [simp del] expand_form.simps [simp del]

section \<open>Workflows\<close>

record expanded_workflow =
  ew_name :: string
  ew_params :: "(string, obj) dict"
  ew_roles :: "(string, obj) dict"
  ew_phases :: "(string, string \<times> obj list) dict"
  ew_nodes :: "expanded_node list"
  ew_bindings :: "(string, binding_info) dict"
  ew_total :: int

definition param_bindings :: "(string, obj) dict \<Rightarrow> (string, binding_info) dict" where
  "param_bindings params =
     fold (\<lambda>p. dput p \<lparr>b_node = ''param:'' @ p, b_kind = ''param'', b_try = False, b_phase = None,
                       b_consumed = True\<rparr>) (dkeys params) []"

definition initial_expansion ::
    "workflow \<Rightarrow> (string, string \<times> obj list) dict \<Rightarrow> int option \<Rightarrow> expansion" where
  "initial_expansion w phases limit =
     \<lparr>x_workflow = w_name w, x_roles = w_roles w, x_phases = phases, x_limit = limit, x_nodes = [],
      x_bindings = param_bindings (w_params w), x_total = 0, x_groups = [], x_merged = []\<rparr>"

definition budget_limit :: "workflow \<Rightarrow> dsl_error + int option" where
  "budget_limit w =
     (if w_budget w = ONone then Inr None
      else case parse_budget (w_budget w) ''workflow budget'' of Inl e \<Rightarrow> Inl e | Inr l \<Rightarrow> Inr (Some l))"

definition expand_body :: "(obj \<Rightarrow> string) \<Rightarrow> obj list \<Rightarrow> unit xpy" where
  "expand_body rp body =
     py_bind (expand_forms rp None [] 0 body) (\<lambda>_.
     py_bind validate_required_merges (\<lambda>_. validate_unconsumed_bindings))"

definition expand :: "(obj \<Rightarrow> string) \<Rightarrow> workflow \<Rightarrow> dsl_error + expanded_workflow" where
  "expand rp w =
     (case collect_phases [] (w_body w) of Inl e \<Rightarrow> Inl e | Inr phases \<Rightarrow>
      (case budget_limit w of Inl e \<Rightarrow> Inl e | Inr limit \<Rightarrow>
       (case expand_body rp (w_body w) (initial_expansion w phases limit) of
          (Inl e, s) \<Rightarrow> Inl e
        | (Inr _, s) \<Rightarrow>
            Inr \<lparr>ew_name = w_name w, ew_params = w_params w, ew_roles = w_roles w, ew_phases = phases,
                 ew_nodes = x_nodes s, ew_bindings = x_bindings s, ew_total = x_total s\<rparr>)))"

end
