(* ===== verification/Dsl_Order.thy ===== *)
theory Dsl_Order
  imports Dsl_Expand
begin

text \<open>
  One invariant of workflow expansion (\<open>doeff_conductor/dsl.py\<close>), carried through every function
  that expands a form: the budget units of the nodes and of the forms still open add up to the
  total, which stays within the limit; every binding and every dependency names a parameter or a
  node expanded before; agent, gate and merge nodes run in a declared phase, and agent nodes
  carry a resolved role, a class, a schema and a positive deadline.
\<close>

section \<open>The invariant\<close>

definition fanout :: "expanded_node \<Rightarrow> nat" where
  "fanout n = (if n_kind n \<in> {''parallel'', ''parallel-for''} then length (n_deps n) else 1)"

definition item_ref :: "string \<Rightarrow> nat \<Rightarrow> string" where
  "item_ref node k = node @ ''['' @ nat_str k @ '']''"

definition refs_of :: "string \<Rightarrow> nat \<Rightarrow> string set" where
  "refs_of node k = insert node (item_ref node ` {..<k})"

definition refers :: "string set \<Rightarrow> expanded_node list \<Rightarrow> string \<Rightarrow> bool" where
  "refers ps nodes d \<longleftrightarrow> d \<in> ps \<or> (\<exists>n \<in> set nodes. d \<in> refs_of (n_id n) (fanout n))"

definition in_order :: "string set \<Rightarrow> expanded_node list \<Rightarrow> bool" where
  "in_order ps nodes \<longleftrightarrow> (\<forall>i < length nodes. \<forall>d \<in> set (n_deps (nodes ! i)). refers ps (take i nodes) d)"

definition phase_declared :: "(string, string \<times> obj list) dict \<Rightarrow> obj \<Rightarrow> bool" where
  "phase_declared phases p \<longleftrightarrow> p = ONone \<or> (\<exists>name. p = OStr name \<and> dget phases name \<noteq> None)"

fun call_specified :: "(string, obj) dict \<Rightarrow> call \<Rightarrow> bool" where
  "call_specified roles (AgentCall role cls prompt schema ws files pf ps rt deadline l ph) \<longleftrightarrow>
     dget roles role \<noteq> None \<and> schema \<noteq> ONone \<and> (\<forall>q. deadline = Some q \<longrightarrow> q > 0)"
| "call_specified roles c \<longleftrightarrow> False"

definition node_ok :: "(string, obj) dict \<Rightarrow> (string, string \<times> obj list) dict \<Rightarrow> expanded_node \<Rightarrow> bool" where
  "node_ok roles phases n \<longleftrightarrow>
     (n_kind n \<in> {''agent'', ''gate'', ''merge''} \<longrightarrow> phase_declared phases (n_phase n)) \<and>
     (n_kind n = ''agent'' \<longrightarrow> (\<exists>c. n_effect n = Some c \<and> call_specified roles c))"

record plan =
  p_params :: "string set"
  p_roles :: "(string, obj) dict"
  p_phases :: "(string, string \<times> obj list) dict"
  p_limit :: "int option"

definition xinv :: "plan \<Rightarrow> int \<Rightarrow> string set \<Rightarrow> expansion \<Rightarrow> bool" where
  "xinv p c D s \<longleftrightarrow>
     x_roles s = p_roles p \<and> x_phases s = p_phases p \<and> x_limit s = p_limit p \<and>
     x_total s = sum_list (map n_budget (x_nodes s)) + c \<and>
     (\<forall>l. p_limit p = Some l \<longrightarrow> x_total s \<le> l) \<and>
     (\<forall>(k, b) \<in> set (x_bindings s). refers (p_params p) (x_nodes s) (b_node b)) \<and>
     in_order (p_params p) (x_nodes s) \<and>
     (\<forall>n \<in> set (x_nodes s). node_ok (p_roles p) (p_phases p) n) \<and>
     (\<forall>d \<in> D. refers (p_params p) (x_nodes s) d)"

abbreviation xtriple :: "(expansion \<Rightarrow> bool) \<Rightarrow> 'a xpy \<Rightarrow> ('a \<Rightarrow> expansion \<Rightarrow> bool) \<Rightarrow> bool" where
  "xtriple P m Q \<equiv> triple P m Q (\<lambda>_ _. True)"

lemma refers_append: "refers ps ns d \<Longrightarrow> refers ps (ns @ ms) d"
  by (auto simp: refers_def)

lemma in_order_snoc:
  "in_order ps (ns @ [n]) \<longleftrightarrow> in_order ps ns \<and> (\<forall>d \<in> set (n_deps n). refers ps ns d)"
  unfolding in_order_def
  by (auto simp: less_Suc_eq nth_append)

lemma xinv_mono: "xinv p c D s \<Longrightarrow> D' \<subseteq> D \<Longrightarrow> xinv p c D' s"
  by (auto simp: xinv_def)

lemma xinv_binding: "xinv p c D s \<Longrightarrow> dget (x_bindings s) k = Some b \<Longrightarrow> refers (p_params p) (x_nodes s) (b_node b)"
  unfolding xinv_def by (drule map_of_SomeD) fastforce

lemma xinv_bind:
  assumes "xinv p c D s" and "refers (p_params p) (x_nodes s) (b_node b)"
  shows "xinv p c D (x_bindings_update (dput k b) s)"
  using assms set_dput [of k b "x_bindings s"] unfolding xinv_def by fastforce

lemma xinv_fields [simp]:
  "xinv p c D (x_groups_update g s) = xinv p c D s"
  "xinv p c D (x_merged_update ms s) = xinv p c D s"
  by (simp_all add: xinv_def)

lemma xinv_filter: "xinv p c D s \<Longrightarrow> xinv p c D (x_bindings_update (filter P) s)"
  by (auto simp: xinv_def)

lemma xinv_refs_insert:
  "xinv p c (D \<union> D') s \<longleftrightarrow> xinv p c D s \<and> (\<forall>d \<in> D'. refers (p_params p) (x_nodes s) d)"
  by (auto simp: xinv_def)

lemma xtriple_mono:
  "xtriple (xinv p c D) m (\<lambda>x. xinv p c' (D' x)) \<Longrightarrow> (\<And>x. D'' x \<subseteq> D' x) \<Longrightarrow>
   xtriple (xinv p c D) m (\<lambda>x. xinv p c' (D'' x))"
  by (erule triple_weaken) (auto intro: xinv_mono)

lemma triple_gets_bind:
  "(\<And>x. triple (\<lambda>s. P s \<and> x = f s) (g x) Q E) \<Longrightarrow> triple P (py_bind (py_gets f) g) Q E"
  by (auto simp: triple_def)

lemma triple_gets_ignore: "(\<And>x. triple P (g x) Q E) \<Longrightarrow> triple P (py_bind (py_gets f) g) Q E"
  by (auto simp: triple_def)

lemma triple_need_bind:
  "(\<And>x. triple (\<lambda>s. P s \<and> f s = Some x) (g x) Q E) \<Longrightarrow> (\<And>s. P s \<Longrightarrow> E e s) \<Longrightarrow>
   triple P (py_bind (py_need e f) g) Q E"
  by (auto simp: triple_def py_bind_def py_need_def split: option.split)

section \<open>References and budgets\<close>

lemma use_binding_inv:
  "xtriple (xinv p c D) (use_binding t name) (\<lambda>ds. xinv p c (D \<union> set ds))"
  unfolding use_binding_def
  by (rule tripleI)
    (auto simp: py_bind_eq_Inr py_need_eq_Inr xinv_refs_insert split: if_splits
      intro!: xinv_bind dest: xinv_binding)

lemma check_field_source_inv: "xtriple (xinv p c D) (check_field_source x) (\<lambda>_. xinv p c D)"
proof (cases x)
  case (ORef name)
  then show ?thesis
    by (auto simp: check_field_source_def intro!: triple_need_bind triple_if triple_raise triple_ret)
qed (auto simp: check_field_source_def intro!: triple_ret)

lemma refs_pair_inv:
  assumes "\<And>D. xtriple (xinv p c D) m (\<lambda>ds. xinv p c (D \<union> set ds))"
    and "\<And>D. xtriple (xinv p c D) m' (\<lambda>ds. xinv p c (D \<union> set ds))"
  shows "xtriple (xinv p c D) (py_bind m (\<lambda>ds. py_bind m' (\<lambda>ds'. py_ret (ds @ ds')))) (\<lambda>ds. xinv p c (D \<union> set ds))"
  by (rule triple_bind [OF assms(1)], rule triple_bind [OF assms(2)], rule triple_ret) (simp add: Un_assoc)

lemma collect_inv:
  "xtriple (xinv p c D) (collect_expr_refs t x) (\<lambda>ds. xinv p c (D \<union> set ds))"
  "xtriple (xinv p c D) (collect_iterable t xs) (\<lambda>ds. xinv p c (D \<union> set ds))"
  "xtriple (xinv p c D) (collect_mapping t kvs) (\<lambda>ds. xinv p c (D \<union> set ds))"
  by (induction t x and t xs and t kvs arbitrary: D and D and D
      rule: collect_expr_refs_collect_iterable_collect_mapping.induct)
    (auto intro!: triple_ret use_binding_inv refs_pair_inv triple_bind [OF check_field_source_inv])

lemma validate_refs_inv:
  "xtriple (xinv p c D) (validate_expr_refs t x) (\<lambda>ds. xinv p c (D \<union> set ds))"
  by (simp add: validate_expr_refs_def collect_inv triple_ret)

lemma add_budget_inv: "xtriple (xinv p c D) (add_budget b ctx) (\<lambda>u. xinv p (c + u) D)"
  by (rule tripleI) (auto simp: add_budget_def xinv_def Let_def split: sum.splits option.splits if_splits)

lemma phase_use_inv:
  "xtriple (xinv p c D) (validate_phase_use ph) (\<lambda>_ s. xinv p c D s \<and> phase_declared (p_phases p) ph)"
  by (rule tripleI)
    (auto simp: validate_phase_use_def phase_declared_def xinv_def split: obj.splits if_splits)

section \<open>Nodes\<close>

abbreviation new_node ::
    "string \<Rightarrow> string \<Rightarrow> obj \<Rightarrow> string list \<Rightarrow> call option \<Rightarrow> int \<Rightarrow> expanded_node" where
  "new_node i kind phase deps effect units \<equiv>
     \<lparr>n_id = i, n_kind = kind, n_phase = phase, n_deps = deps, n_effect = effect, n_budget = units\<rparr>"

lemma xinv_append:
  assumes "xinv p c D s" and "set (n_deps n) \<subseteq> D" and "node_ok (p_roles p) (p_phases p) n"
  shows "xinv p (c - n_budget n) (D \<union> refs_of (n_id n) (fanout n)) (s\<lparr>x_nodes := x_nodes s @ [n]\<rparr>)"
  using assms by (auto simp: xinv_def in_order_snoc intro: refers_append) (auto simp: refers_def)

lemma append_node_inv:
  assumes "set deps \<subseteq> D" and "\<And>i. node_ok (p_roles p) (p_phases p) (new_node i kind phase deps effect units)"
  shows "xtriple (xinv p c D) (append_node path kind phase deps effect units)
    (\<lambda>node. xinv p (c - units) (D \<union> refs_of node (fanout (new_node node kind phase deps effect units))))"
  using assms xinv_append [where n = "new_node _ kind phase deps effect units"]
  by (intro tripleI) (auto simp: append_node_def Let_def)

definition info_refs :: "expr_info \<Rightarrow> string set" where
  "info_refs info = refs_of (e_node info) (e_count info)"

lemma set_sorted_set [simp]: "set (sorted_set xs) = set xs"
  by (simp add: sorted_set_def)

lemma leaf_node_inv:
  assumes "set deps \<subseteq> D" and "kind \<notin> {''parallel'', ''parallel-for''}"
    and "\<And>i. node_ok (p_roles p) (p_phases p) (new_node i kind phase (sorted_set deps) effect units)"
    and "c' = c - units"
  shows "xtriple (xinv p c D) (leaf_node path kind phase deps effect units)
    (\<lambda>info. xinv p c' (D \<union> info_refs info))"
  unfolding leaf_node_def
  by (rule triple_bind [OF append_node_inv])
    (use assms in \<open>auto intro!: triple_ret simp: simple_info_def info_refs_def fanout_def\<close>)

lemma node_ok_plain:
  "kind \<notin> {''agent'', ''gate'', ''merge''} \<Longrightarrow> node_ok r ph (new_node i kind phase deps effect units)"
  by (simp add: node_ok_def)

lemma node_ok_phase:
  "kind \<in> {''gate'', ''merge''} \<Longrightarrow> phase_declared ph phase \<Longrightarrow> node_ok r ph (new_node i kind phase deps effect units)"
  by (auto simp: node_ok_def)

lemma node_ok_agent:
  "phase_declared ph phase \<Longrightarrow> call_specified r call \<Longrightarrow>
   node_ok r ph (new_node i ''agent'' phase deps (Some call) units)"
  by (simp add: node_ok_def)

lemma xtriple_leaf:
  assumes "\<And>s. P s \<Longrightarrow> xinv p c D s" and "set deps \<subseteq> D" and "kind \<notin> {''parallel'', ''parallel-for''}"
    and "\<And>i. node_ok (p_roles p) (p_phases p) (new_node i kind phase (sorted_set deps) effect units)"
    and "c' = c - units" and "D' \<subseteq> D"
  shows "xtriple P (leaf_node path kind phase deps effect units) (\<lambda>info. xinv p c' (D' \<union> info_refs info))"
  by (rule triple_weaken [OF leaf_node_inv [OF assms(2-5)]])
    (use assms in \<open>auto elim!: xinv_mono\<close>)

lemma glue_inv:
  "xtriple (xinv p c D) (expand_glue ph path x) (\<lambda>info. xinv p c (D \<union> info_refs info))"
  unfolding expand_glue_def
  by (rule triple_bind [OF validate_refs_inv], rule xtriple_leaf) (auto intro: node_ok_plain)

lemma artifact_inv:
  "xtriple (xinv p c D) (expand_artifact ph path x) (\<lambda>info. xinv p c (D \<union> info_refs info))"
  unfolding expand_artifact_def
  by (rule triple_bind [OF validate_refs_inv], rule xtriple_leaf) (auto intro: node_ok_plain)

lemma time_inv:
  "xtriple (xinv p c D) (expand_time ph path l b) (\<lambda>info. xinv p c (D \<union> info_refs info))"
  unfolding expand_time_def
  by (rule triple_bind [OF add_budget_inv], rule xtriple_leaf) (auto intro: node_ok_plain)

lemma workspace_inv:
  "xtriple (xinv p c D) (expand_workspace ph path r f) (\<lambda>info. xinv p c (D \<union> info_refs info))"
  unfolding expand_workspace_def
  by (rule triple_bind [OF validate_refs_inv], rule xtriple_leaf) (auto intro: node_ok_plain)

lemma random_inv:
  "xtriple (xinv p c D) (expand_random ph path sp l b) (\<lambda>info. xinv p c (D \<union> info_refs info))"
  unfolding expand_random_def
  by (rule triple_bind [OF validate_refs_inv], rule triple_bind [OF add_budget_inv], rule xtriple_leaf)
    (auto intro: node_ok_plain)

text \<open>A fact about the plan that holds after a step may be assumed of the steps that follow.\<close>

lemma xtriple_fact: "(F \<Longrightarrow> xtriple P m Q) \<Longrightarrow> xtriple (\<lambda>s. P s \<and> F) m Q"
  by (auto simp: triple_def)

lemma gate_inv:
  "xtriple (xinv p c D) (expand_gate ph path cmd ws t b sp) (\<lambda>info. xinv p c (D \<union> info_refs info))"
  unfolding expand_gate_def Let_def
  by (rule triple_bind [OF phase_use_inv], rule xtriple_fact, rule triple_bind [OF validate_refs_inv],
      rule triple_bind [OF add_budget_inv], rule xtriple_leaf) (auto intro: node_ok_phase)

lemma merge_workspace_inv:
  "xtriple (xinv p c (D \<union> set deps)) (merge_workspace rp deps w) (\<lambda>ds. xinv p c (D \<union> set ds))"
  unfolding merge_workspace_def
proof (rule triple_bind [OF validate_refs_inv])
  fix ds'
  let ?D = "D \<union> set deps \<union> set ds'"
  have "xtriple (xinv p c ?D) (case workspace_key rp w of None \<Rightarrow> py_ret ()
      | Some key \<Rightarrow> py_modify (x_merged_update (\<lambda>ms. ms @ [key]))) (\<lambda>_. xinv p c ?D)"
    by (auto intro!: triple_option triple_ret triple_modify)
  then show "xtriple (xinv p c ?D)
      (py_bind (case workspace_key rp w of None \<Rightarrow> py_ret ()
         | Some key \<Rightarrow> py_modify (x_merged_update (\<lambda>ms. ms @ [key]))) (\<lambda>_. py_ret (deps @ ds')))
      (\<lambda>ds. xinv p c (D \<union> set ds))"
    by (rule triple_bind) (rule triple_ret, simp add: Un_assoc)
qed

lemma merge_fold_inv:
  "xtriple (xinv p c (D \<union> set deps)) (py_fold (merge_workspace rp) deps ws) (\<lambda>ds. xinv p c (D \<union> set ds))"
  by (induction ws arbitrary: deps) (auto intro!: triple_ret triple_bind [OF merge_workspace_inv])

lemma merge_inv:
  "xtriple (xinv p c D) (expand_merge rp ph path ws st b sp) (\<lambda>info. xinv p c (D \<union> info_refs info))"
  unfolding expand_merge_def Let_def
  by (rule triple_bind [OF phase_use_inv], rule xtriple_fact,
      rule triple_bind [OF merge_fold_inv [where deps = "[]", simplified]],
      rule triple_bind [OF add_budget_inv], rule xtriple_leaf) (auto intro: node_ok_phase)

lemma parse_deadline_pos: "parse_deadline d ctx = Inr (Some q) \<Longrightarrow> q > 0"
  by (auto simp: parse_deadline_def deadline_value_def split: obj.splits flt.splits option.splits if_splits)

lemma agent_effect_specified:
  "agent_to_effect a ph = Inr call \<Longrightarrow> ag_role a = Some role \<Longrightarrow> dget r role \<noteq> None \<Longrightarrow> call_specified r call"
  by (auto simp: agent_to_effect_def dest: parse_deadline_pos split: option.splits if_splits sum.splits)

lemma role_inv:
  assumes "\<And>b. dget (p_roles p) role = Some b \<Longrightarrow> xtriple (xinv p c D) (k b) Q"
  shows "xtriple (xinv p c D) (py_bind (py_need e (\<lambda>s. dget (x_roles s) role)) k) Q"
proof (rule triple_need_bind)
  fix b
  have roles: "x_roles s = p_roles p" if "xinv p c D s" for s
    using that by (simp add: xinv_def)
  show "xtriple (\<lambda>s. xinv p c D s \<and> dget (x_roles s) role = Some b) (k b) Q"
    by (rule tripleI) (use assms in \<open>auto simp: roles dest: triple_Inr\<close>)
qed simp

lemma agent_inv:
  "xtriple (xinv p c D) (expand_agent ph path a) (\<lambda>info. xinv p c (D \<union> info_refs info))"
  unfolding expand_agent_def Let_def
  by (rule triple_bind [OF phase_use_inv], rule xtriple_fact)
    (auto intro!: triple_if triple_raise triple_option triple_sum role_inv triple_bind [OF validate_refs_inv]
      triple_bind [OF add_budget_inv] xtriple_leaf node_ok_agent elim: agent_effect_specified)

section \<open>Joins, loops and forms\<close>

lemma parallel_writes_inv:
  "xtriple (xinv p c D) (validate_parallel_workspace_writes rp bs) (\<lambda>_. xinv p c D)"
  by (rule tripleI)
    (auto simp: validate_parallel_workspace_writes_def Let_def split: if_splits sum.splits)

lemma parallel_inv:
  assumes branches: "\<And>c D. xtriple (xinv p c D) m (\<lambda>ids s. xinv p c (D \<union> set ids) s \<and> length ids = length bs)"
    and label: "label \<in> {''parallel'', ''parallel-for''}"
  shows "xtriple (xinv p c D) (expand_parallel rp label ph path bs q b m) (\<lambda>info. xinv p c (D \<union> info_refs info))"
proof -
  have finish: "xtriple (\<lambda>s. xinv p (c + u) (D \<union> set ids) s \<and> length ids = length bs)
      (py_bind (append_node path label (phase_obj ph) ids None u) (\<lambda>node.
       py_ret \<lparr>e_node = node, e_kind = label, e_count = length bs, e_try = qn < length bs, e_branches = ids\<rparr>))
      (\<lambda>info. xinv p c (D \<union> info_refs info))" for u ids qn
  proof (rule xtriple_fact)
    assume len: "length ids = length bs"
    have ok: "node_ok (p_roles p) (p_phases p) (new_node i label (phase_obj ph) ids None u)" for i
      using label by (auto intro: node_ok_plain)
    show "xtriple (xinv p (c + u) (D \<union> set ids))
      (py_bind (append_node path label (phase_obj ph) ids None u) (\<lambda>node.
       py_ret \<lparr>e_node = node, e_kind = label, e_count = length bs, e_try = qn < length bs, e_branches = ids\<rparr>))
      (\<lambda>info. xinv p c (D \<union> info_refs info))"
      by (rule triple_bind [OF append_node_inv [OF _ ok]])
        (use len label in \<open>auto intro!: triple_ret elim!: xinv_mono simp: fanout_def info_refs_def\<close>)
  qed
  show ?thesis
    unfolding expand_parallel_def
    by (auto intro!: triple_sum triple_raise triple_bind [OF parallel_writes_inv] triple_bind [OF add_budget_inv]
        triple_bind [OF branches] finish)
qed

lemma consumed_check_inv:
  "xtriple (xinv p c D) (validate_local_bindings_consumed names) (\<lambda>_. xinv p c D)"
  by (rule tripleI) (auto simp: validate_local_bindings_consumed_def Let_def split: if_splits)

lemma close_loop_inv: "xtriple (xinv p c D) (close_loop outer_names) (\<lambda>_. xinv p c D)"
  unfolding close_loop_def
  by (auto intro!: triple_gets_ignore triple_bind [OF consumed_check_inv] triple_modify xinv_filter)

lemma loop_inv:
  assumes body: "\<And>c D. xtriple (xinv p c D) m (\<lambda>_. xinv p c D)"
  shows "xtriple (xinv p c D) (expand_loop ph path mx u b m) (\<lambda>info. xinv p c (D \<union> info_refs info))"
proof -
  have finish: "xtriple (xinv p (c + units) (D \<union> set deps))
      (py_bind (py_gets (\<lambda>s. map n_id (drop start (x_nodes s)))) (\<lambda>ids.
       leaf_node path ''loop'' (phase_obj ph) (ids @ deps) None units))
      (\<lambda>info. xinv p c (D \<union> info_refs info))" for start deps units
  proof (rule triple_gets_bind)
    fix ids
    show "xtriple (\<lambda>s. xinv p (c + units) (D \<union> set deps) s \<and> ids = map n_id (drop start (x_nodes s)))
      (leaf_node path ''loop'' (phase_obj ph) (ids @ deps) None units) (\<lambda>info. xinv p c (D \<union> info_refs info))"
      by (rule xtriple_leaf [where D = "D \<union> set deps \<union> set ids" and c = "c + units"])
        (auto simp: xinv_refs_insert refers_def refs_of_def intro: node_ok_plain dest: in_set_dropD)
  qed
  show ?thesis
    unfolding expand_loop_def
    by (auto intro!: triple_sum triple_raise triple_bind [OF validate_refs_inv] triple_bind [OF add_budget_inv]
        triple_gets_ignore triple_bind [OF body] triple_bind [OF close_loop_inv] finish)
qed

lemma bind_name_inv:
  "d \<in> D \<Longrightarrow> xtriple (xinv p c D) (bind_name name d kind t ph) (\<lambda>_. xinv p c D)"
  by (rule tripleI)
    (auto simp: bind_name_def xinv_def split: if_splits dest!: set_dput [THEN subsetD])

lemma bind_names_inv:
  "(\<And>k. i \<le> k \<Longrightarrow> k < i + length names \<Longrightarrow> item_ref (e_node info) k \<in> D) \<Longrightarrow>
   xtriple (xinv p c D) (bind_names i names info ph) (\<lambda>_. xinv p c D)"
  by (induction i names info ph rule: bind_names.induct)
    (auto intro!: triple_ret triple_bind [OF bind_name_inv] simp: item_ref_def)

lemma bind_target_inv:
  "info_refs info \<subseteq> D \<Longrightarrow> xtriple (xinv p c D) (bind_target t info ph) (\<lambda>_. xinv p c D)"
  unfolding bind_target_def info_refs_def refs_of_def
  by (cases t) (auto intro!: triple_if triple_raise bind_name_inv bind_names_inv)

lemma expand_inv:
  "xtriple (xinv p c D) (expand_expr rp ph path x) (\<lambda>info. xinv p c (D \<union> info_refs info))"
  "xtriple (xinv p c D) (expand_branches rp ph path label i bs)
     (\<lambda>ids s. xinv p c (D \<union> set ids) s \<and> length ids = length bs)"
  "xtriple (xinv p c D) (expand_form rp ph path f) (\<lambda>_. xinv p c D)"
  "xtriple (xinv p c D) (expand_forms rp ph prefix i fs) (\<lambda>_. xinv p c D)"
proof (induction rp ph path x and rp ph path label i bs and rp ph path f and rp ph prefix i fs
    arbitrary: c D and c D and c D and c D
    rule: expand_expr_expand_branches_expand_form_expand_forms.induct)
  case (1 rp ph path expr)
  then show ?case
    by (cases expr)
      (auto simp: expand_expr.simps intro!: triple_raise agent_inv gate_inv merge_inv time_inv random_inv
        workspace_inv parallel_inv loop_inv glue_inv)
next
  case (2 rp ph path label i)
  then show ?case by (auto intro!: triple_ret)
next
  case (3 rp ph path label i b bs)
  have rest: "xtriple (xinv p c (D \<union> info_refs info))
      (py_bind (expand_branches rp ph path label (Suc i) bs) (\<lambda>ids. py_ret (e_node info # ids)))
      (\<lambda>ids s. xinv p c (D \<union> set ids) s \<and> length ids = length (b # bs))" for info
    by (rule triple_bind [OF "3.IH"(2)], rule triple_ret)
      (auto elim!: xinv_mono simp: info_refs_def refs_of_def)
  show ?case
    unfolding expand_branches.simps by (rule triple_bind [OF "3.IH"(1) rest])
next
  case (4 rp ph path form)
  have plain: "xtriple (xinv p c D) (py_bind (expand_expr rp ph path e) (\<lambda>_. py_ret ())) (\<lambda>_. xinv p c D)"
    if "\<And>c D. xtriple (xinv p c D) (expand_expr rp ph path e) (\<lambda>info. xinv p c (D \<union> info_refs info))" for e
    by (rule triple_bind [OF that], rule triple_ret) (auto elim!: xinv_mono)
  have bound: "xtriple (xinv p c D) (py_bind (expand_expr rp ph path e) (\<lambda>info. bind_target t info ph)) (\<lambda>_. xinv p c D)"
    if "\<And>c D. xtriple (xinv p c D) (expand_expr rp ph path e) (\<lambda>info. xinv p c (D \<union> info_refs info))" for e t
    by (rule triple_bind [OF that], rule xtriple_mono [OF bind_target_inv]) auto
  have art: "xtriple (xinv p c D) (py_bind (expand_artifact ph path v) (\<lambda>_. py_ret ())) (\<lambda>_. xinv p c D)" for v
    by (rule triple_bind [OF artifact_inv], rule triple_ret) (auto elim!: xinv_mono)
  show ?case
    using "4.IH" by (cases form) (auto simp: expand_form.simps intro!: plain bound art)
next
  case (5 rp ph prefix i)
  then show ?case by (auto intro!: triple_ret)
next
  case (6 rp ph prefix i form forms)
  then show ?case by (auto intro!: triple_bind)
qed

section \<open>Expanded workflows\<close>

lemma decimal_value_nonneg:
  assumes "list_all is_decimal t"
  shows "decimal_value t \<ge> 0"
proof -
  have "foldl (\<lambda>acc c. acc * 10 + digit_val c) a t \<ge> 0" if "a \<ge> 0" for a
    using assms that
    by (induction t arbitrary: a) (auto simp: is_decimal_def digit_val_def Let_def)
  then show ?thesis by (simp add: decimal_value_def)
qed

lemma parse_budget_nonneg: "parse_budget b ctx = Inr u \<Longrightarrow> u \<ge> 0"
  by (auto simp: parse_budget_def Let_def budget_suffix_def decimal_value_nonneg
      split: obj.splits flt.splits if_splits)

lemma budget_limit_nonneg: "budget_limit w = Inr (Some l) \<Longrightarrow> l \<ge> 0"
  by (auto simp: budget_limit_def dest: parse_budget_nonneg split: if_splits sum.splits)

definition param_refs :: "workflow \<Rightarrow> string set" where
  "param_refs w = (\<lambda>p. ''param:'' @ p) ` set (dkeys (w_params w))"

definition plan_of :: "workflow \<Rightarrow> (string, string \<times> obj list) dict \<Rightarrow> int option \<Rightarrow> plan" where
  "plan_of w phases limit =
     \<lparr>p_params = param_refs w, p_roles = w_roles w, p_phases = phases, p_limit = limit\<rparr>"

lemma set_fold_dput: "set (fold (\<lambda>p. dput p (f p)) ps d) \<subseteq> set d \<union> (\<lambda>p. (p, f p)) ` set ps"
proof (induction ps arbitrary: d)
  case (Cons p ps)
  have "set (dput p (f p) d) \<subseteq> insert (p, f p) (set d)" by (rule set_dput)
  with Cons.IH [of "dput p (f p) d"] show ?case by auto
qed simp

lemma param_bindings_refer:
  "(k, b) \<in> set (param_bindings params) \<Longrightarrow> b_node b \<in> (\<lambda>p. ''param:'' @ p) ` set (dkeys params)"
  using set_fold_dput [of "\<lambda>p. \<lparr>b_node = ''param:'' @ p, b_kind = ''param'', b_try = False, b_phase = None,
                       b_consumed = True\<rparr>" "dkeys params" "[]"]
  unfolding param_bindings_def by fastforce

lemma initial_xinv:
  "budget_limit w = Inr limit \<Longrightarrow> xinv (plan_of w phases limit) 0 {} (initial_expansion w phases limit)"
  using param_bindings_refer [of _ _ "w_params w"] budget_limit_nonneg [of w]
  by (fastforce simp: xinv_def plan_of_def initial_expansion_def in_order_def refers_def param_refs_def)

lemma expandE:
  assumes "expand rp w = Inr ew"
  obtains phases limit s1 s2 where "collect_phases [] (w_body w) = Inr phases" and "budget_limit w = Inr limit"
    and "expand_forms rp None [] 0 (w_body w) (initial_expansion w phases limit) = (Inr (), s1)"
    and "validate_required_merges s1 = (Inr (), s2)" and "validate_unconsumed_bindings s2 = (Inr (), s2)"
    and "s2 = s1"
    and "ew_phases ew = phases" and "ew_nodes ew = x_nodes s1" and "ew_bindings ew = x_bindings s1"
    and "ew_total ew = x_total s1"
proof -
  from assms obtain phases limit s where "collect_phases [] (w_body w) = Inr phases" "budget_limit w = Inr limit"
      "expand_body rp (w_body w) (initial_expansion w phases limit) = (Inr (), s)"
      "ew_phases ew = phases" "ew_nodes ew = x_nodes s" "ew_bindings ew = x_bindings s" "ew_total ew = x_total s"
    by (auto simp: expand_def split: sum.splits prod.splits)
  moreover from this(3) obtain s1 where
      "expand_forms rp None [] 0 (w_body w) (initial_expansion w phases limit) = (Inr (), s1)"
      "validate_required_merges s1 = (Inr (), s1)" "validate_unconsumed_bindings s1 = (Inr (), s)"
    by (auto simp: expand_body_def py_bind_eq_Inr validate_required_merges_def)
  moreover from this(3) have "s = s1"
    by (auto simp: validate_unconsumed_bindings_def validate_local_bindings_consumed_def Let_def split: if_splits)
  ultimately show ?thesis using that by metis
qed

lemma expand_facts:
  assumes "expand rp w = Inr ew"
  shows expand_total: "ew_total ew = sum_list (map n_budget (ew_nodes ew))"
    and expand_limit: "\<And>l. budget_limit w = Inr (Some l) \<Longrightarrow> ew_total ew \<le> l"
    and expand_in_order: "in_order (param_refs w) (ew_nodes ew)"
    and expand_node_ok: "\<And>n. n \<in> set (ew_nodes ew) \<Longrightarrow> node_ok (w_roles w) (ew_phases ew) n"
    and expand_phases: "collect_phases [] (w_body w) = Inr (ew_phases ew)"
proof -
  from assms obtain phases limit s where *: "collect_phases [] (w_body w) = Inr phases" "budget_limit w = Inr limit"
    "expand_forms rp None [] 0 (w_body w) (initial_expansion w phases limit) = (Inr (), s)"
    "ew_phases ew = phases" "ew_nodes ew = x_nodes s" "ew_total ew = x_total s"
    by (rule expandE)
  have inv: "xinv (plan_of w phases limit) 0 {} s"
    by (rule triple_Inr [OF expand_inv(4) initial_xinv [OF *(2)] *(3)])
  from inv * show "ew_total ew = sum_list (map n_budget (ew_nodes ew))"
    by (simp add: xinv_def)
  from inv * show "\<And>l. budget_limit w = Inr (Some l) \<Longrightarrow> ew_total ew \<le> l"
    unfolding xinv_def by (simp add: plan_of_def)
  from inv * show "in_order (param_refs w) (ew_nodes ew)"
    by (simp add: xinv_def plan_of_def)
  from inv * show "\<And>n. n \<in> set (ew_nodes ew) \<Longrightarrow> node_ok (w_roles w) (ew_phases ew) n"
    by (simp add: xinv_def plan_of_def)
  from * show "collect_phases [] (w_body w) = Inr (ew_phases ew)" by simp
qed

lemma collect_phases_valid:
  assumes "collect_phases d forms = Inr phases" and "dget phases name = Some (stakes, body)"
    and "\<And>n s b. dget d n = Some (s, b) \<Longrightarrow> n \<noteq> [] \<and> s \<in> {''low'', ''normal'', ''high''} \<and> b \<noteq> []"
  shows "name \<noteq> [] \<and> stakes \<in> {''low'', ''normal'', ''high''} \<and> body \<noteq> []"
  using assms
proof (induction forms arbitrary: d)
  case (Cons form forms)
  then obtain d' where step: "collect_phase d form = Inr d'" and rest: "collect_phases d' forms = Inr phases"
    by (auto split: sum.splits)
  have "n \<noteq> [] \<and> s \<in> {''low'', ''normal'', ''high''} \<and> b \<noteq> []" if "dget d' n = Some (s, b)" for n s b
    using step that Cons.prems(3) [of n s b]
    by (auto simp: collect_phase_def split: obj.splits if_splits)
  then show ?case
    using Cons.IH [OF rest Cons.prems(2)] by blast
qed auto

section \<open>A workflow\<close>

definition demo_agent :: "obj agent_spec" where
  "demo_agent = AgentSpec (Some ''dev'') (Some ''c'') (ORef ''p'') (ODict []) ONone None None None
     ONone (OInt 4) ONone ONone ONone"

definition demo_workflow :: workflow where
  "demo_workflow = \<lparr>w_name = ''w'', w_params = [(''p'', ONone)], w_roles = [(''dev'', ONone)],
     w_body = [OPhase ''b'' ''high''
       [OBind (TName ''a'') (OAgent demo_agent),
        OBind (TNames [''x'', ''y'']) (OParallel [OGate (OStr ''t'') (ORef ''a'') ONone (OInt 1) ONone, OTime ONone ONone]
          (OInt 2) (OInt 3)),
        OArtifact (OList [ORef ''x'', ORef ''y''])]],
     w_budget = OInt 9\<rparr>"

definition demo_repr :: "obj \<Rightarrow> string" where
  "demo_repr x = []"

lemma demo_expands: "\<exists>ew. expand demo_repr demo_workflow = Inr ew \<and> ew_total ew = 8 \<and> n_kind (ew_nodes ew ! 0) = ''agent'' \<and>
  length (ew_nodes ew) = 5"
proof -
  have "case expand demo_repr demo_workflow of Inl e \<Rightarrow> False | Inr ew \<Rightarrow> ew_total ew = 8 \<and> n_kind (ew_nodes ew ! 0) = ''agent'' \<and>
  length (ew_nodes ew) = 5"
    by code_simp
  then show ?thesis by (auto split: sum.splits)
qed

section \<open>What an expanded workflow promises\<close>

text \<open>
  C11: The budget of an expanded workflow is the sum of the units of its nodes, and a workflow with a
  budget annotation expands only if that sum is at most the annotated limit.
\<close>

theorem expansion_respects_the_budget:
  assumes "expand rp w = Inr ew"
  shows "ew_total ew = sum_list (map n_budget (ew_nodes ew)) \<and>
    (\<forall>l. budget_limit w = Inr (Some l) \<longrightarrow> ew_total ew \<le> l)"
  using expand_total [OF assms] expand_limit [OF assms] by blast

theorem expansion_respects_the_budget_witness:
  "\<exists>ew. expand demo_repr demo_workflow = Inr ew \<and> sum_list (map n_budget (ew_nodes ew)) = 8"
  using demo_expands expansion_respects_the_budget by metis

text \<open>
  C9: Expanded nodes are listed in dependency order: every dependency of a node is a launch
  parameter, a node listed before it, or an item of a join listed before it, and the item's
  index is within that join's branches.
\<close>

theorem dependencies_are_expanded_before:
  assumes "expand rp w = Inr ew" and "i < length (ew_nodes ew)" and "d \<in> set (n_deps (ew_nodes ew ! i))"
  shows "(\<exists>p \<in> set (dkeys (w_params w)). d = ''param:'' @ p) \<or>
    (\<exists>j < i. d = n_id (ew_nodes ew ! j) \<or>
       (\<exists>k < fanout (ew_nodes ew ! j). d = item_ref (n_id (ew_nodes ew ! j)) k))"
proof -
  have "refers (param_refs w) (take i (ew_nodes ew)) d"
    using expand_in_order [OF assms(1)] assms(2,3) unfolding in_order_def by blast
  then show ?thesis
    unfolding refers_def
  proof
    assume "\<exists>n \<in> set (take i (ew_nodes ew)). d \<in> refs_of (n_id n) (fanout n)"
    then obtain j where "j < i" and "d \<in> refs_of (n_id (ew_nodes ew ! j)) (fanout (ew_nodes ew ! j))"
      by (auto simp: in_set_conv_nth)
    then show ?thesis by (auto simp: refs_of_def)
  qed (auto simp: param_refs_def)
qed

theorem dependencies_are_expanded_before_witness:
  "\<exists>ew. expand demo_repr demo_workflow = Inr ew \<and>
     (\<forall>i < length (ew_nodes ew). \<forall>d \<in> set (n_deps (ew_nodes ew ! i)).
        d = ''param:p'' \<or> (\<exists>j < i. d = n_id (ew_nodes ew ! j) \<or>
          (\<exists>k < fanout (ew_nodes ew ! j). d = item_ref (n_id (ew_nodes ew ! j)) k)))"
proof -
  obtain ew where ew: "expand demo_repr demo_workflow = Inr ew" using demo_expands by blast
  have "w_params demo_workflow = [(''p'', ONone)]" by (simp add: demo_workflow_def)
  with dependencies_are_expanded_before [OF ew] ew show ?thesis by simp
qed

text \<open>
  Agents, gates and merges of an expanded workflow run outside phases or in a phase declared
  with a name, one of the three stakes and a body; and each agent node carries a call with a
  role of the workflow, a schema and, where it has a deadline, a positive one.
\<close>

theorem calls_are_specified:
  assumes "expand rp w = Inr ew" and "n \<in> set (ew_nodes ew)" and "n_kind n \<in> {''agent'', ''gate'', ''merge''}"
  shows "(n_phase n = ONone \<or> (\<exists>name stakes body. n_phase n = OStr name \<and>
            dget (ew_phases ew) name = Some (stakes, body) \<and> name \<noteq> [] \<and>
            stakes \<in> {''low'', ''normal'', ''high''} \<and> body \<noteq> [])) \<and>
         (n_kind n \<noteq> ''agent'' \<or> (\<exists>c. n_effect n = Some c \<and> call_specified (w_roles w) c))"
proof -
  have ok: "node_ok (w_roles w) (ew_phases ew) n"
    using expand_node_ok [OF assms(1,2)] .
  have phase: "name \<noteq> [] \<and> stakes \<in> {''low'', ''normal'', ''high''} \<and> body \<noteq> []"
    if "dget (ew_phases ew) name = Some (stakes, body)" for name stakes body
    by (rule collect_phases_valid [OF expand_phases [OF assms(1)] that]) simp
  from ok assms(3) have "phase_declared (ew_phases ew) (n_phase n)"
    and "n_kind n \<noteq> ''agent'' \<or> (\<exists>c. n_effect n = Some c \<and> call_specified (w_roles w) c)"
    by (auto simp: node_ok_def)
  with phase show ?thesis
    unfolding phase_declared_def by fast
qed

theorem calls_are_specified_witness:
  "\<exists>ew n. expand demo_repr demo_workflow = Inr ew \<and> n \<in> set (ew_nodes ew) \<and>
     (\<exists>c. n_effect n = Some c \<and> call_specified (w_roles demo_workflow) c)"
proof -
  obtain ew where ew: "expand demo_repr demo_workflow = Inr ew" "n_kind (ew_nodes ew ! 0) = ''agent''"
      "ew_nodes ew ! 0 \<in> set (ew_nodes ew)"
    using demo_expands by fastforce
  with calls_are_specified [OF ew(1,3)] show ?thesis by auto
qed

end
