(* ===== verification/Dsl_Ids.thy ===== *)
theory Dsl_Ids
  imports Dsl_Order
begin

text \<open>
  Node ids of an expanded workflow (\<open>doeff_conductor/dsl.py\<close>) are unique: \<open>adds R m\<close> says that
  \<open>m\<close> only appends nodes, with distinct ids that satisfy \<open>R\<close>, and every function that expands a
  form adds ids under that form's path. The second part follows the check on parallel writers
  through the nesting of forms.
\<close>

section \<open>Computations that only append nodes\<close>

type_synonym id_pred = "string \<Rightarrow> string \<Rightarrow> bool"

definition adds :: "id_pred \<Rightarrow> 'a xpy \<Rightarrow> bool" where
  "adds R m \<longleftrightarrow> (\<forall>s x s'. m s = (Inr x, s') \<longrightarrow> x_workflow s' = x_workflow s \<and>
     (\<exists>ns. x_nodes s' = x_nodes s @ ns \<and> distinct (map n_id ns) \<and> (\<forall>n \<in> set ns. R (x_workflow s) (n_id n))))"

abbreviation no_id :: id_pred where
  "no_id \<equiv> \<lambda>_ _. False"

named_theorems adds_intro "what a computation adds to the nodes"

lemma addsD:
  assumes "adds R m" and "m s = (Inr x, s')"
  obtains ns where "x_workflow s' = x_workflow s" "x_nodes s' = x_nodes s @ ns" "distinct (map n_id ns)"
    "\<And>n. n \<in> set ns \<Longrightarrow> R (x_workflow s) (n_id n)"
  using assms unfolding adds_def by blast

lemma adds_mono: "adds R m \<Longrightarrow> (\<And>w i. R w i \<Longrightarrow> R' w i) \<Longrightarrow> adds R' m"
  unfolding adds_def by blast

lemma adds_none:
  "(\<And>s. x_nodes (snd (m s)) = x_nodes s \<and> x_workflow (snd (m s)) = x_workflow s) \<Longrightarrow> adds no_id m"
  unfolding adds_def by (metis append_Nil2 distinct.simps(1) empty_iff list.set(1) list.simps(8) snd_conv)

lemma adds_raise [adds_intro]: "adds R (py_raise e)"
  by (simp add: adds_def)

lemma adds_ret [adds_intro]: "adds R (py_ret x)"
  by (simp add: adds_def)

lemma adds_bind2:
  assumes "adds R1 m" and "\<And>x. adds R2 (f x)" and "\<And>w i. R1 w i \<Longrightarrow> R2 w i \<Longrightarrow> False"
    and "\<And>w i. R1 w i \<Longrightarrow> R w i" and "\<And>w i. R2 w i \<Longrightarrow> R w i"
  shows "adds R (py_bind m f)"
  unfolding adds_def
proof (intro allI impI)
  fix s y s''
  assume "py_bind m f s = (Inr y, s'')"
  then obtain x s' where m: "m s = (Inr x, s')" and f: "f x s' = (Inr y, s'')"
    by (auto simp: py_bind_eq_Inr)
  obtain ns where ns: "x_workflow s' = x_workflow s" "x_nodes s' = x_nodes s @ ns" "distinct (map n_id ns)"
      "\<And>n. n \<in> set ns \<Longrightarrow> R1 (x_workflow s) (n_id n)"
    using addsD [OF assms(1) m] by metis
  obtain ms where ms: "x_workflow s'' = x_workflow s'" "x_nodes s'' = x_nodes s' @ ms" "distinct (map n_id ms)"
      "\<And>n. n \<in> set ms \<Longrightarrow> R2 (x_workflow s') (n_id n)"
    using addsD [OF assms(2) f] by metis
  have "n_id ` set ns \<inter> n_id ` set ms = {}"
    using ns(1,4) ms(4) assms(3) by fastforce
  then have "distinct (map n_id (ns @ ms))" using ns(3) ms(3) by simp
  moreover have "\<forall>n \<in> set (ns @ ms). R (x_workflow s) (n_id n)"
    using ns(1,4) ms(4) assms(4,5) by auto
  ultimately show "x_workflow s'' = x_workflow s \<and> (\<exists>ns. x_nodes s'' = x_nodes s @ ns \<and>
      distinct (map n_id ns) \<and> (\<forall>n \<in> set ns. R (x_workflow s) (n_id n)))"
    using ns(1,2) ms(1,2) by (intro conjI exI [of _ "ns @ ms"]) simp_all
qed

lemma adds_bind_left [adds_intro]:
  "adds no_id m \<Longrightarrow> (\<And>x. adds R (f x)) \<Longrightarrow> adds R (py_bind m f)"
  by (rule adds_bind2 [where ?R1.0 = no_id and ?R2.0 = R]) auto

lemma adds_bind_right: "adds R m \<Longrightarrow> (\<And>x. adds no_id (f x)) \<Longrightarrow> adds R (py_bind m f)"
  by (rule adds_bind2 [where ?R1.0 = R and ?R2.0 = no_id]) auto

lemma adds_if [adds_intro]: "adds R a \<Longrightarrow> adds R b \<Longrightarrow> adds R (if c then a else b)"
  by simp

lemma adds_option [adds_intro]:
  "adds R a \<Longrightarrow> (\<And>y. adds R (b y)) \<Longrightarrow> adds R (case x of None \<Rightarrow> a | Some y \<Rightarrow> b y)"
  by (cases x) simp_all

lemma adds_sum [adds_intro]:
  "(\<And>y. adds R (a y)) \<Longrightarrow> (\<And>y. adds R (b y)) \<Longrightarrow> adds R (case x of Inl y \<Rightarrow> a y | Inr y \<Rightarrow> b y)"
  by (cases x) simp_all

lemma adds_prod [adds_intro]: "(\<And>x y. adds R (f x y)) \<Longrightarrow> adds R (case p of (x, y) \<Rightarrow> f x y)"
  by (cases p) simp

lemma adds_need [adds_intro]: "adds no_id (py_need e f)"
  by (rule adds_none) (simp add: py_need_def split: option.split)

lemma adds_gets [adds_intro]: "adds no_id (py_gets f)"
  by (rule adds_none) simp

lemma adds_modify: "(\<And>s. x_nodes (h s) = x_nodes s \<and> x_workflow (h s) = x_workflow s) \<Longrightarrow> adds no_id (py_modify h)"
  by (rule adds_none) simp

lemma adds_checks [adds_intro]:
  "adds no_id (add_budget b ctx)"
  "adds no_id (validate_phase_use ph)"
  "adds no_id (validate_parallel_workspace_writes rp bs)"
  "adds no_id (validate_local_bindings_consumed names)"
  "adds no_id (bind_name name d kind t p)"
  by (rule adds_none, auto simp: add_budget_def validate_phase_use_def validate_parallel_workspace_writes_def
      validate_local_bindings_consumed_def bind_name_def Let_def split: sum.split option.split obj.split)+

lemma adds_refs [adds_intro]:
  "adds no_id (collect_expr_refs t x)"
  "adds no_id (collect_iterable t xs)"
  "adds no_id (collect_mapping t kvs)"
proof -
  have "adds no_id (use_binding u name)" for u name
    unfolding use_binding_def by (auto intro!: adds_intro adds_modify)
  moreover have "adds no_id (check_field_source y)" for y
    unfolding check_field_source_def by (cases y) (auto intro!: adds_intro)
  ultimately show "adds no_id (collect_expr_refs t x)" "adds no_id (collect_iterable t xs)"
      "adds no_id (collect_mapping t kvs)"
    by (induction t x and t xs and t kvs rule: collect_expr_refs_collect_iterable_collect_mapping.induct)
      (auto intro!: adds_intro)
qed

lemma adds_validate [adds_intro]: "adds no_id (validate_expr_refs t x)"
  unfolding validate_expr_refs_def by (auto intro: adds_intro)

section \<open>Ids under a path\<close>

definition under :: "string \<Rightarrow> id_pred" where
  "under path w i \<longleftrightarrow> (\<exists>r. i = w @ ''/'' @ path @ ''/'' @ r)"

definition id_at :: "string \<Rightarrow> string \<Rightarrow> id_pred" where
  "id_at path kind w i \<longleftrightarrow> i = node_id w path kind"

lemma adds_append [adds_intro]: "adds (id_at path kind) (append_node path kind ph deps eff u)"
  unfolding adds_def append_node_def id_at_def Let_def by auto

lemma id_at_under: "path \<noteq> [] \<Longrightarrow> id_at path kind w i \<Longrightarrow> under path w i"
  by (auto simp: id_at_def under_def node_id_def)

lemma adds_leaf [adds_intro]: "adds (id_at path kind) (leaf_node path kind ph deps eff u)"
  unfolding leaf_node_def by (rule adds_bind_right) (auto intro: adds_intro)

lemma adds_leaf_under:
  "path \<noteq> [] \<Longrightarrow> adds (under path) (leaf_node path kind ph deps eff u)"
  using id_at_under by (rule adds_mono [OF adds_leaf])

lemma adds_leaves:
  assumes "path \<noteq> []"
  shows "adds (under path) (expand_glue ph path x)"
    and "adds (under path) (expand_artifact ph path x)"
    and "adds (under path) (expand_agent ph path a)"
    and "adds (under path) (expand_gate ph path cmd ws t b sp)"
    and "adds (under path) (expand_time ph path l b)"
    and "adds (under path) (expand_random ph path x l b)"
    and "adds (under path) (expand_workspace ph path x y)"
  unfolding expand_glue_def expand_artifact_def expand_agent_def expand_gate_def expand_time_def
    expand_random_def expand_workspace_def Let_def
  by (auto intro!: adds_intro adds_leaf_under [OF assms] split: sum.split)

lemma adds_merge:
  assumes "path \<noteq> []"
  shows "adds (under path) (expand_merge rp ph path ws st b sp)"
proof -
  have "adds no_id (merge_workspace rp deps w)" for deps w
    unfolding merge_workspace_def by (auto intro!: adds_intro adds_modify)
  then have "adds no_id (py_fold (merge_workspace rp) deps ws)" for deps
    by (induction ws arbitrary: deps) (auto intro!: adds_intro)
  then show ?thesis
    unfolding expand_merge_def Let_def by (auto intro!: adds_intro adds_leaf_under [OF assms])
qed

lemma no_digit_split:
  "xs @ c # r = ys @ c # r' \<Longrightarrow> c \<notin> set xs \<Longrightarrow> c \<notin> set ys \<Longrightarrow> xs = ys"
  by (induction xs arbitrary: ys) (auto simp: Cons_eq_append_conv append_eq_Cons_conv)

lemma nat_str_no [simp]: "CHR ''/'' \<notin> set (nat_str n)" "CHR '']'' \<notin> set (nat_str n)"
  using nat_str_set [of n] by auto

definition branch_ids :: "string \<Rightarrow> string \<Rightarrow> nat \<Rightarrow> id_pred" where
  "branch_ids path label i w d \<longleftrightarrow> (\<exists>j \<ge> i. under (path_join path (label @ ''['' @ nat_str j @ '']'')) w d)"

definition form_ids :: "string \<Rightarrow> nat \<Rightarrow> id_pred" where
  "form_ids prefix i w d \<longleftrightarrow> (\<exists>j \<ge> i. under (path_join prefix (nat_str j)) w d)"

lemma path_join_nonempty [simp]: "child \<noteq> [] \<Longrightarrow> path_join prefix child \<noteq> []"
  by (simp add: path_join_def)

lemma branch_under_step:
  assumes "path \<noteq> []" and "under (path_join path (label @ ''['' @ nat_str i @ '']'')) w d"
    and "branch_ids path label (Suc i) w d"
  shows False
proof -
  from assms obtain j r r' where "Suc i \<le> j" and "nat_str i @ CHR '']'' # r = nat_str j @ CHR '']'' # r'"
    by (auto simp: branch_ids_def under_def path_join_def)
  then show False by (auto dest!: no_digit_split nat_str_inj)
qed

lemma form_under_step:
  assumes "under (path_join prefix (nat_str i)) w d" and "form_ids prefix (Suc i) w d"
  shows False
proof -
  from assms obtain j r r' where "Suc i \<le> j" and "nat_str j @ CHR ''/'' # r = nat_str i @ CHR ''/'' # r'"
    by (auto simp: form_ids_def under_def path_join_def split: if_splits)
  then show False by (auto dest!: no_digit_split nat_str_inj)
qed

lemma branch_ids_under: "path \<noteq> [] \<Longrightarrow> branch_ids path label i w d \<Longrightarrow> under path w d"
  by (auto simp: branch_ids_def under_def path_join_def)

lemma form_ids_under: "path \<noteq> [] \<Longrightarrow> form_ids (path_join path child) i w d \<Longrightarrow> under path w d"
  by (auto simp: form_ids_def under_def path_join_def split: if_splits)

section \<open>Joins, loops and forms\<close>

lemma adds_parallel:
  assumes "path \<noteq> []" and "adds (branch_ids path label 0) m"
  shows "adds (under path) (expand_parallel rp label ph path bs q b m)"
proof -
  have last: "adds (id_at path label) (py_bind (append_node path label p ids None u) (\<lambda>node. py_ret (g node)))"
    for p ids u and g :: "string \<Rightarrow> expr_info"
    by (rule adds_bind_right) (auto intro: adds_intro)
  have body: "adds (under path) (py_bind m (\<lambda>ids. py_bind (append_node path label p ids None u) (\<lambda>node. py_ret (g ids node))))"
    for p u and g :: "string list \<Rightarrow> string \<Rightarrow> expr_info"
  proof (rule adds_bind2 [OF assms(2) last])
    fix w i
    assume "branch_ids path label 0 w i" and "id_at path label w i"
    with assms(1) show False
      by (auto simp: branch_ids_def under_def id_at_def node_id_def path_join_def)
  qed (use assms(1) in \<open>auto intro: branch_ids_under id_at_under\<close>)
  show ?thesis
    unfolding expand_parallel_def by (auto intro!: body adds_intro)
qed

lemma adds_loop:
  assumes "path \<noteq> []" and "adds (form_ids (path_join path ''loop'') 0) m"
  shows "adds (under path) (expand_loop ph path mx u b m)"
proof -
  have last: "adds (id_at path ''loop'') (py_bind (close_loop names) (\<lambda>_. py_bind (py_gets f) (\<lambda>ids.
      leaf_node path ''loop'' p (ids @ deps) None units)))" for names f p deps units
    unfolding close_loop_def by (auto intro!: adds_intro adds_modify)
  have body: "adds (under path) (py_bind m (\<lambda>_. py_bind (close_loop names) (\<lambda>_. py_bind (py_gets f) (\<lambda>ids.
      leaf_node path ''loop'' p (ids @ deps) None units))))" for names f p deps units
  proof (rule adds_bind2 [OF assms(2) last])
    fix w i
    assume "form_ids (path_join path ''loop'') 0 w i" and "id_at path ''loop'' w i"
    with assms(1) show False
      by (auto simp: form_ids_def under_def id_at_def node_id_def path_join_def)
  qed (use assms(1) in \<open>auto intro: form_ids_under id_at_under\<close>)
  show ?thesis
    unfolding expand_loop_def by (auto intro!: body adds_intro)
qed

lemma adds_bind_target [adds_intro]: "adds no_id (bind_target t info ph)"
proof -
  have "adds no_id (bind_names i names info ph)" for i names
    by (induction i names info ph rule: bind_names.induct) (auto intro!: adds_intro)
  then show ?thesis
    unfolding bind_target_def by (cases t) (auto intro!: adds_intro)
qed

lemma adds_expand:
  "path \<noteq> [] \<Longrightarrow> adds (under path) (expand_expr rp ph path x)"
  "path \<noteq> [] \<Longrightarrow> adds (branch_ids path label i) (expand_branches rp ph path label i bs)"
  "path \<noteq> [] \<Longrightarrow> adds (under path) (expand_form rp ph path f)"
  "adds (form_ids prefix i) (expand_forms rp ph prefix i fs)"
proof (induction rp ph path x and rp ph path label i bs and rp ph path f and rp ph prefix i fs
    rule: expand_expr_expand_branches_expand_form_expand_forms.induct)
  case (1 rp ph path expr)
  then show ?case
    by (cases expr)
      (auto simp: expand_expr.simps intro!: adds_raise adds_leaves adds_merge adds_parallel adds_loop)
next
  case (2 rp ph path label i)
  then show ?case by (auto intro: adds_intro)
next
  case (3 rp ph path label i b bs)
  let ?sub = "path_join path (label @ ''['' @ nat_str i @ '']'')"
  have rest: "adds (branch_ids path label (Suc i))
      (py_bind (expand_branches rp ph path label (Suc i) bs) (\<lambda>ids. py_ret (e_node info # ids)))" for info
    by (rule adds_bind_right [OF "3.IH"(2) [OF "3.prems"]]) (rule adds_ret)
  show ?case
    unfolding expand_branches.simps
  proof (rule adds_bind2 [OF "3.IH"(1) rest])
    show "?sub \<noteq> []" by simp
  next
    fix w d
    assume "under ?sub w d" and "branch_ids path label (Suc i) w d"
    then show False by (rule branch_under_step [OF "3.prems"])
  qed (auto simp: branch_ids_def intro: le_refl elim: Suc_leD)
next
  case (4 rp ph path form)
  have plain: "adds (under path) (py_bind m (\<lambda>_. py_ret ()))" if "adds (under path) m" for m :: "expr_info xpy"
    by (rule adds_bind_right [OF that]) (rule adds_ret)
  have bound: "adds (under path) (py_bind m (\<lambda>info. bind_target t info ph))" if "adds (under path) m" for m t
    by (rule adds_bind_right [OF that]) (rule adds_bind_target)
  show ?case
    using "4.IH" "4.prems"
    by (cases form)
      (auto simp: expand_form.simps intro!: plain bound adds_leaves elim!: adds_mono intro: form_ids_under)
next
  case (5 rp ph prefix i)
  then show ?case by (auto intro: adds_intro)
next
  case (6 rp ph prefix i form forms)
  let ?sub = "path_join prefix (nat_str i)"
  show ?case
    unfolding expand_forms.simps
  proof (rule adds_bind2 [OF "6.IH"(1) "6.IH"(2)])
    show "?sub \<noteq> []" by simp
  next
    fix w d
    assume "under ?sub w d" and "form_ids prefix (Suc i) w d"
    then show False by (rule form_under_step)
  qed (auto simp: form_ids_def intro: le_refl elim: Suc_leD)
qed

text \<open>
  C10: Node ids are unique: no two nodes of an expanded workflow have the same id, whatever the
  nesting of phases, joins and loops and whatever names the workflow gives to its phases.
\<close>

theorem node_ids_are_unique:
  assumes "expand rp w = Inr ew"
  shows "distinct (map n_id (ew_nodes ew))"
proof -
  from assms obtain phases limit s where
      "expand_forms rp None [] 0 (w_body w) (initial_expansion w phases limit) = (Inr (), s)"
      and "ew_nodes ew = x_nodes s"
    by (rule expandE)
  then show ?thesis
    by (elim addsD [OF adds_expand(4)]) (simp add: initial_expansion_def)
qed

theorem node_ids_are_unique_witness:
  "\<exists>ew. expand demo_repr demo_workflow = Inr ew \<and> length (ew_nodes ew) = 5 \<and> distinct (map n_id (ew_nodes ew))"
  using demo_expands node_ids_are_unique by metis

end
