(* ===== verification/Dsl_Writers.thy ===== *)
theory Dsl_Writers
  imports Dsl_Ids
begin

text \<open>
  Parallel writers (\<open>_validate_parallel_workspace_writes\<close> and \<open>_validate_required_merges\<close> of
  \<open>doeff_conductor/dsl.py\<close>): in every join an expanded workflow contains, agents that share a
  workspace declare disjoint files, and agents in workspaces of their own have each workspace
  reconciled by a merge node.
\<close>

section \<open>Joins of a form\<close>

fun joins :: "obj \<Rightarrow> obj list list" and joins_of :: "obj list \<Rightarrow> obj list list" where
  "joins (OParallel bs q b) = bs # joins_of bs"
| "joins (OParallelFor v vs bs b) = bs # joins_of bs"
| "joins (OLoop m u body b) = joins_of body"
| "joins (OBind t e) = joins e"
| "joins (OPhase n s body) = joins_of body"
| "joins x = []"
| "joins_of [] = []"
| "joins_of (x # xs) = joins x @ joins_of xs"

section \<open>The check on one join\<close>

definition shares_files :: "obj agent_spec \<Rightarrow> obj agent_spec \<Rightarrow> bool" where
  "shares_files a b \<longleftrightarrow>
     (case (ag_files a, ag_files b) of (Some fs, Some gs) \<Rightarrow> fs = [] \<or> gs = [] \<or> (\<exists>f \<in> set fs. f \<in> set gs) | _ \<Rightarrow> True)"

fun writer :: "(obj \<Rightarrow> string) \<Rightarrow> obj \<Rightarrow> (string \<times> obj agent_spec) option" where
  "writer rp (OAgent a) = (case workspace_key rp (ag_workspace a) of None \<Rightarrow> None | Some k \<Rightarrow> Some (k, a))"
| "writer rp x = None"

text \<open>Two branches that write the same workspace declare files, and have none in common.\<close>

definition compatible :: "(obj \<Rightarrow> string) \<Rightarrow> obj \<Rightarrow> obj \<Rightarrow> bool" where
  "compatible rp x y \<longleftrightarrow>
     (case (writer rp x, writer rp y) of (Some (k, a), Some (k', b)) \<Rightarrow> k \<noteq> k' \<or> \<not> shares_files a b | _ \<Rightarrow> True)"

definition with_key :: "(obj \<Rightarrow> string) \<Rightarrow> string \<Rightarrow> obj agent_spec list \<Rightarrow> obj agent_spec list" where
  "with_key rp key agents = filter (\<lambda>a. workspace_key rp (ag_workspace a) = Some key) agents"

definition writer_keys :: "(obj \<Rightarrow> string) \<Rightarrow> obj list \<Rightarrow> string list" where
  "writer_keys rp bs = map fst (List.map_filter (writer rp) bs)"

lemma workspace_key_None: "workspace_key rp x = None \<longleftrightarrow> x = ONone"
  by (simp add: workspace_key_def split: obj.split)

lemma group_fold:
  "dget (fold (\<lambda>a d. case workspace_key rp (ag_workspace a) of None \<Rightarrow> d | Some k \<Rightarrow> dappend k a d) agents d) key =
     (let old = (case dget d key of None \<Rightarrow> [] | Some as \<Rightarrow> as); new = old @ with_key rp key agents
      in if dget d key = None \<and> with_key rp key agents = [] then None else Some new)"
  by (induction agents arbitrary: d)
    (auto simp: with_key_def dget_dappend Let_def split: option.splits)

lemma dget_group:
  "dget (group_by_workspace rp agents) key =
     (if with_key rp key agents = [] then None else Some (with_key rp key agents))"
  by (simp add: group_by_workspace_def group_fold)

lemma disjoint_files_pairs:
  "disjoint_files key seen agents = Inr () \<Longrightarrow>
     sorted_wrt (\<lambda>a b. \<not> shares_files a b) agents \<and>
     (\<forall>a \<in> set agents. \<exists>fs. ag_files a = Some fs \<and> fs \<noteq> [] \<and> set fs \<inter> set seen = {})"
proof (induction agents arbitrary: seen)
  case (Cons a agents)
  then obtain fs where fs: "ag_files a = Some fs" "fs \<noteq> []" "set fs \<inter> set seen = {}"
    and rest: "disjoint_files key (seen @ fs) agents = Inr ()"
    by (auto split: option.splits if_splits)
  note IH = Cons.IH [OF rest]
  have "\<forall>b \<in> set agents. \<not> shares_files a b"
  proof
    fix b
    assume "b \<in> set agents"
    with IH obtain gs where "ag_files b = Some gs" "gs \<noteq> []" "set gs \<inter> set (seen @ fs) = {}" by blast
    with fs show "\<not> shares_files a b" by (auto simp: shares_files_def)
  qed
  moreover have "set gs \<inter> set seen = {}" if "set gs \<inter> set (seen @ fs) = {}" for gs
    using that by auto
  ultimately show ?case
    using IH fs by (auto 0 3)
qed simp

lemma check_groups_ok:
  "check_groups sh groups = Inr sh' \<Longrightarrow> (key, agents) \<in> set groups \<Longrightarrow> 2 \<le> length agents \<Longrightarrow>
     disjoint_files key [] agents = Inr ()"
  by (induction sh groups rule: check_groups.induct) (auto split: if_splits sum.splits)

lemma check_groups_not_shared:
  "check_groups sh groups = Inr False \<longleftrightarrow> \<not> sh \<and> (\<forall>(key, agents) \<in> set groups. length agents < 2)"
  by (induction sh groups rule: check_groups.induct) (auto split: sum.splits)

lemma set_workspace_agents: "set (workspace_agents bs) = {a. OAgent a \<in> set bs \<and> ag_workspace a \<noteq> ONone}"
  by (induction bs rule: workspace_agents.induct) auto

lemma key_of_ONone [simp]: "workspace_key rp ONone = None"
  by (simp add: workspace_key_def)

lemma with_key_agents:
  "set (with_key rp k (workspace_agents bs)) = {a. OAgent a \<in> set bs \<and> workspace_key rp (ag_workspace a) = Some k}"
  unfolding with_key_def by (auto simp: set_workspace_agents)

lemma compatible_branches:
  "(\<And>key. sorted_wrt (\<lambda>a b. \<not> shares_files a b) (with_key rp key (workspace_agents bs))) \<Longrightarrow>
   sorted_wrt (compatible rp) bs"
proof (induction bs rule: workspace_agents.induct)
  case (2 a bs)
  have sub: "sorted_wrt (\<lambda>a b. \<not> shares_files a b) (with_key rp key (workspace_agents bs))" for key
    using "2.prems" [of key]
    by (cases "workspace_key rp (ag_workspace a) = Some key") (auto simp: with_key_def split: if_splits)
  have tail: "sorted_wrt (compatible rp) bs"
    using "2.IH" sub by blast
  have "compatible rp (OAgent a) y" if "y \<in> set bs" for y
  proof (cases "writer rp (OAgent a)")
    case (Some ka)
    then obtain k where k: "workspace_key rp (ag_workspace a) = Some k" "ka = (k, a)"
      by (auto split: option.splits)
    then have ne: "ag_workspace a \<noteq> ONone" by (auto simp: workspace_key_def)
    have "\<not> shares_files a b" if "y = OAgent b" "workspace_key rp (ag_workspace b) = Some k" for b
    proof -
      have "b \<in> set (with_key rp k (workspace_agents bs))"
        using that \<open>y \<in> set bs\<close> by (simp add: with_key_agents)
      with "2.prems" [of k] ne k show ?thesis by (simp add: with_key_def)
    qed
    with k show ?thesis
      by (cases "y") (auto simp: compatible_def split: option.splits)
  qed (simp add: compatible_def)
  with tail show ?case by simp
qed (auto simp: compatible_def)

lemma parallel_writes_compatible:
  assumes "validate_parallel_workspace_writes rp bs s = (Inr (), s')"
  shows "sorted_wrt (compatible rp) bs"
proof (rule compatible_branches)
  fix key
  let ?as = "workspace_agents bs" and ?ks = "with_key rp key (workspace_agents bs)"
  show "sorted_wrt (\<lambda>a b. \<not> shares_files a b) ?ks"
  proof (cases "length ?ks < 2")
    case True
    then show ?thesis by (cases ?ks) (auto simp: numeral_2_eq_2)
  next
    case False
    then have two: "\<not> length ?as < 2"
      using length_filter_le [of "\<lambda>a. workspace_key rp (ag_workspace a) = Some key" ?as]
      unfolding with_key_def by linarith
    with assms obtain sh where ok: "check_groups False (group_by_workspace rp ?as) = Inr sh"
      by (auto simp: validate_parallel_workspace_writes_def Let_def split: sum.splits)
    have "dget (group_by_workspace rp ?as) key = Some ?ks"
      using False by (auto simp: dget_group)
    then have "disjoint_files key [] ?ks = Inr ()"
      using check_groups_ok [OF ok map_of_SomeD] False by auto
    then show ?thesis using disjoint_files_pairs by blast
  qed
qed

section \<open>Isolated writers\<close>

definition isolated :: "(obj \<Rightarrow> string) \<Rightarrow> obj list \<Rightarrow> bool" where
  "isolated rp bs \<longleftrightarrow> distinct (writer_keys rp bs) \<and> 2 \<le> length (writer_keys rp bs)"

lemma writer_keys_agents:
  "writer_keys rp bs = map (\<lambda>a. the (workspace_key rp (ag_workspace a))) (workspace_agents bs)"
  by (induction bs rule: workspace_agents.induct)
    (auto simp: writer_keys_def map_filter_simps workspace_key_None split: option.split)

lemma distinct_group: "distinct (dkeys (group_by_workspace rp agents))"
proof -
  have "distinct (dkeys (fold (\<lambda>a d. case workspace_key rp (ag_workspace a) of None \<Rightarrow> d
      | Some k \<Rightarrow> dappend k a d) agents d))" if "distinct (dkeys d)" for d
    using that by (induction agents arbitrary: d) (auto split: option.split)
  then show ?thesis by (simp add: group_by_workspace_def)
qed

lemma with_key_single:
  assumes "distinct (map (\<lambda>a. the (workspace_key rp (ag_workspace a))) agents)"
  shows "length (with_key rp k agents) < 2"
  using assms
proof (induction agents)
  case (Cons a agents)
  show ?case
  proof (cases "workspace_key rp (ag_workspace a) = Some k")
    case True
    with Cons.prems have "with_key rp k agents = []"
      by (force simp: with_key_def filter_empty_conv)
    with True show ?thesis by (simp add: with_key_def)
  next
    case False
    with Cons show ?thesis by (simp add: with_key_def)
  qed
qed (simp add: with_key_def)

lemma isolated_recorded:
  assumes "validate_parallel_workspace_writes rp bs s = (Inr (), s')" and "isolated rp bs"
  shows "\<exists>g. set g = set (writer_keys rp bs) \<and> x_groups s' = x_groups s @ [g]"
proof -
  let ?as = "workspace_agents bs"
  let ?gs = "group_by_workspace rp ?as"
  have keyed: "workspace_key rp (ag_workspace a) \<noteq> None" if "a \<in> set ?as" for a
    using that by (simp add: set_workspace_agents workspace_key_None)
  have iso: "distinct (map (\<lambda>a. the (workspace_key rp (ag_workspace a))) ?as)" "2 \<le> length ?as"
    using assms(2) by (simp_all add: isolated_def writer_keys_agents)
  have "\<forall>(k, as) \<in> set ?gs. length as < 2"
    using with_key_single [OF iso(1)] distinct_group [of rp ?as]
    by (auto simp: dget_group split: if_splits dest!: map_of_is_SomeI)
  then have ok: "check_groups False ?gs = Inr False" by (simp add: check_groups_not_shared)
  have "k \<in> set (dkeys ?gs) \<longleftrightarrow> with_key rp k ?as \<noteq> []" for k
    using dget_group [of rp ?as k] map_of_eq_None_iff [of ?gs k] by (simp split: if_splits)
  moreover have "with_key rp k ?as \<noteq> [] \<longleftrightarrow> k \<in> set (writer_keys rp bs)" for k
    using keyed by (force simp: with_key_def filter_empty_conv writer_keys_agents)
  ultimately have keys: "set (dkeys ?gs) = set (writer_keys rp bs)" by blast
  have "card (set (writer_keys rp bs)) \<ge> 2"
    using assms(2) by (simp add: isolated_def distinct_card)
  then have "length ?gs > 1"
    using card_length [of "dkeys ?gs"] by (simp add: keys del: set_map)
  with ok iso(2) assms(1) have "x_groups s' = x_groups s @ [dkeys ?gs]"
    by (auto simp: validate_parallel_workspace_writes_def Let_def)
  with keys show ?thesis by blast
qed

definition merge_keys :: "(obj \<Rightarrow> string) \<Rightarrow> expanded_node list \<Rightarrow> string set" where
  "merge_keys rp nodes = {k. \<exists>n \<in> set nodes. \<exists>ws strategy. n_effect n = Some (MergeCall ws strategy) \<and>
     (\<exists>w \<in> set ws. workspace_key rp w = Some k)}"

text \<open>Groups already recorded stay, and every merged key is the key of a merge node's workspace.\<close>

definition ginv :: "(obj \<Rightarrow> string) \<Rightarrow> string set \<Rightarrow> string set set \<Rightarrow> expansion \<Rightarrow> bool" where
  "ginv rp M G s \<longleftrightarrow> G \<subseteq> set ` set (x_groups s) \<and> set (x_merged s) \<subseteq> merge_keys rp (x_nodes s) \<union> M"

lemma merge_keys_append: "merge_keys rp (ns @ ms) = merge_keys rp ns \<union> merge_keys rp ms"
  by (auto simp: merge_keys_def)

lemma ginv_updates [simp]:
  "ginv rp M G (x_bindings_update f s) = ginv rp M G s"
  "ginv rp M G (x_total_update g s) = ginv rp M G s"
  by (simp_all add: ginv_def)

lemma ginv_checks [keeps_intro]:
  "keeps (ginv rp M G) (add_budget b ctx)"
  "keeps (ginv rp M G) (validate_phase_use ph)"
  "keeps (ginv rp M G) (validate_local_bindings_consumed names)"
  "keeps (ginv rp M G) (append_node path kind p deps eff u)"
  by (rule keepsI, auto simp: add_budget_def validate_phase_use_def validate_local_bindings_consumed_def
      append_node_def ginv_def merge_keys_append Let_def split: sum.split option.split obj.split)+

lemma ginv_bind_name [keeps_intro]: "keeps (ginv rp M G) (bind_name name d kind t p)"
  by (rule keepsI) (auto simp: bind_name_def)

lemma ginv_refs [keeps_intro]:
  "keeps (ginv rp M G) (collect_expr_refs t x)"
  "keeps (ginv rp M G) (collect_iterable t xs)"
  "keeps (ginv rp M G) (collect_mapping t kvs)"
proof -
  have "keeps (ginv rp M G) (use_binding u name)" for u name
    unfolding use_binding_def by (auto intro!: keeps_intro keeps_modify)
  moreover have "keeps (ginv rp M G) (check_field_source y)" for y
    unfolding check_field_source_def by (cases y) (auto intro!: keeps_intro)
  ultimately show "keeps (ginv rp M G) (collect_expr_refs t x)" "keeps (ginv rp M G) (collect_iterable t xs)"
      "keeps (ginv rp M G) (collect_mapping t kvs)"
    by (induction t x and t xs and t kvs rule: collect_expr_refs_collect_iterable_collect_mapping.induct)
      (auto intro!: keeps_intro)
qed

lemma keeps_sum [keeps_intro]:
  "(\<And>y. keeps P (a y)) \<Longrightarrow> (\<And>y. keeps P (b y)) \<Longrightarrow> keeps P (case x of Inl y \<Rightarrow> a y | Inr y \<Rightarrow> b y)"
  by (cases x) simp_all

lemma ginv_validate [keeps_intro]: "keeps (ginv rp M G) (validate_expr_refs t x)"
  unfolding validate_expr_refs_def by (auto intro: keeps_intro)

lemma ginv_leaf [keeps_intro]: "keeps (ginv rp M G) (leaf_node path kind p deps eff u)"
  unfolding leaf_node_def by (auto intro!: keeps_intro)

lemma ginv_leaves [keeps_intro]:
  "keeps (ginv rp M G) (expand_glue ph path x)"
  "keeps (ginv rp M G) (expand_artifact ph path x)"
  "keeps (ginv rp M G) (expand_agent ph path a)"
  "keeps (ginv rp M G) (expand_gate ph path cmd ws t b sp)"
  "keeps (ginv rp M G) (expand_time ph path l b)"
  "keeps (ginv rp M G) (expand_random ph path x l b)"
  "keeps (ginv rp M G) (expand_workspace ph path x y)"
  unfolding expand_glue_def expand_artifact_def expand_agent_def expand_gate_def expand_time_def
    expand_random_def expand_workspace_def Let_def
  by (auto intro!: keeps_intro split: sum.split)

lemma ginv_bind_target [keeps_intro]: "keeps (ginv rp M G) (bind_target t info ph)"
proof -
  have "keeps (ginv rp M G) (bind_names i names info ph)" for i names
    by (induction i names info ph rule: bind_names.induct) (auto intro!: keeps_intro)
  then show ?thesis
    unfolding bind_target_def by (cases t) (auto intro!: keeps_intro)
qed

lemma ginv_close_loop [keeps_intro]: "keeps (ginv rp M G) (close_loop names)"
  unfolding close_loop_def by (auto intro!: keeps_intro keeps_modify)

section \<open>Through the nesting of forms\<close>

definition required :: "(obj \<Rightarrow> string) \<Rightarrow> obj list list \<Rightarrow> string set set" where
  "required rp js = {set (writer_keys rp bs) | bs. bs \<in> set js \<and> isolated rp bs}"

definition checked :: "(obj \<Rightarrow> string) \<Rightarrow> obj list list \<Rightarrow> bool" where
  "checked rp js \<longleftrightarrow> (\<forall>bs \<in> set js. sorted_wrt (compatible rp) bs)"

definition secures :: "(obj \<Rightarrow> string) \<Rightarrow> obj list list \<Rightarrow> 'a xpy \<Rightarrow> bool" where
  "secures rp js m \<longleftrightarrow>
     (\<forall>G. xtriple (ginv rp {} G) m (\<lambda>_ s. ginv rp {} (G \<union> required rp js) s \<and> checked rp js))"

lemma required_append [simp]: "required rp (js @ js') = required rp js \<union> required rp js'"
  by (auto simp: required_def)

lemma required_Nil [simp]: "required rp [] = {}"
  by (simp add: required_def)

lemma checked_append [simp]: "checked rp (js @ js') \<longleftrightarrow> checked rp js \<and> checked rp js'"
  by (auto simp: checked_def)

lemma checked_Nil [simp]: "checked rp []"
  by (simp add: checked_def)

lemma secures_keeps: "(\<And>G. keeps (ginv rp {} G) m) \<Longrightarrow> secures rp [] m"
  unfolding secures_def
  by (intro allI, rule tripleI) (auto dest: keepsD)

lemma secures_bind:
  assumes "secures rp js m" and "\<And>x. secures rp js' (f x)"
  shows "secures rp (js @ js') (py_bind m f)"
  unfolding secures_def
proof
  fix G
  have step: "xtriple (\<lambda>s. ginv rp {} (G \<union> required rp js) s \<and> checked rp js) (f x)
      (\<lambda>_ s. ginv rp {} (G \<union> required rp (js @ js')) s \<and> checked rp (js @ js'))" for x
  proof (rule xtriple_fact)
    assume "checked rp js"
    then show "xtriple (ginv rp {} (G \<union> required rp js)) (f x)
        (\<lambda>_ s. ginv rp {} (G \<union> required rp (js @ js')) s \<and> checked rp (js @ js'))"
      using spec [OF assms(2) [of x, unfolded secures_def], of "G \<union> required rp js"] by (simp add: Un_assoc)
  qed
  show "xtriple (ginv rp {} G) (py_bind m f)
      (\<lambda>_ s. ginv rp {} (G \<union> required rp (js @ js')) s \<and> checked rp (js @ js'))"
    by (rule triple_bind [OF _ step]) (use assms(1) in \<open>simp add: secures_def\<close>)
qed

lemma secures_bind_left:
  "(\<And>G. keeps (ginv rp {} G) m) \<Longrightarrow> (\<And>x. secures rp js (f x)) \<Longrightarrow> secures rp js (py_bind m f)"
  using secures_bind [of rp "[]" m js f] secures_keeps [of rp m] by simp

lemma secures_bind_right:
  "secures rp js m \<Longrightarrow> (\<And>x G. keeps (ginv rp {} G) (f x)) \<Longrightarrow> secures rp js (py_bind m f)"
  using secures_bind [of rp js m "[]" f] secures_keeps by fastforce

lemma secures_raise: "secures rp js (py_raise e)"
  by (simp add: secures_def triple_raise)

lemma secures_ret: "secures rp [] (py_ret x)"
  by (simp add: secures_def triple_ret)

lemma secures_merge: "secures rp [] (expand_merge rp ph path ws st b sp)"
proof -
  define K where "K us = {k. \<exists>w \<in> set us. workspace_key rp w = Some k}" for us
  have one: "xtriple (ginv rp M G) (merge_workspace rp deps w) (\<lambda>_. ginv rp (M \<union> K [w]) G)" for M G deps w
    unfolding merge_workspace_def
    by (rule triple_bind [OF triple_keeps [OF ginv_validate]], simp,
        rule triple_bind [where R = "\<lambda>_. ginv rp (M \<union> K [w]) G"])
      (auto intro!: triple_option triple_ret triple_modify simp: ginv_def K_def)
  have K_Cons: "K (u # us) = K [u] \<union> K us" for u us
    by (auto simp: K_def)
  have fold: "xtriple (ginv rp M G) (py_fold (merge_workspace rp) deps us) (\<lambda>_. ginv rp (M \<union> K us) G)"
    for M G deps us
  proof (induction us arbitrary: M deps)
    case (Cons u us)
    from Cons.IH [where M = "M \<union> K [u]"] show ?case
      by (auto intro!: triple_bind [OF one] simp: K_Cons [of u us] Un_assoc)
  qed (auto intro!: triple_ret simp: K_def)
  have leaf: "xtriple (ginv rp (K ws) G) (leaf_node path ''merge'' p deps (Some (MergeCall ws st)) u) (\<lambda>_. ginv rp {} G)"
    for p deps u G
    by (rule tripleI)
      (auto simp: leaf_node_def py_bind_eq_Inr append_node_def Let_def ginv_def K_def merge_keys_def)
  have "xtriple (ginv rp {} G) (expand_merge rp ph path ws st b sp) (\<lambda>_. ginv rp {} G)" for G
    unfolding expand_merge_def Let_def
    by (rule triple_bind [OF triple_keeps [OF ginv_checks(2)]], simp, rule triple_bind [OF fold],
        rule triple_bind [OF triple_keeps [OF ginv_checks(1)]], simp, simp, rule leaf)
  then show ?thesis by (simp add: secures_def)
qed

lemma secures_writes: "secures rp [bs] (validate_parallel_workspace_writes rp bs)"
  unfolding secures_def
proof (intro allI tripleI TrueI)
  fix G s x s'
  assume inv: "ginv rp {} G s" and run: "validate_parallel_workspace_writes rp bs s = (Inr x, s')"
  have same: "set (x_groups s) \<subseteq> set (x_groups s')" "x_merged s' = x_merged s" "x_nodes s' = x_nodes s"
    using run by (auto simp: validate_parallel_workspace_writes_def Let_def split: if_splits sum.splits)
  have "required rp [bs] \<subseteq> set ` set (x_groups s')"
    using isolated_recorded [of rp bs s s'] run by (auto simp: required_def)
  moreover have "G \<subseteq> set ` set (x_groups s')"
    by (rule subset_trans [OF _ image_mono [OF same(1)]]) (use inv in \<open>simp add: ginv_def\<close>)
  ultimately have "ginv rp {} (G \<union> required rp [bs]) s'"
    using inv same unfolding ginv_def by simp
  moreover have "checked rp [bs]"
    using parallel_writes_compatible [of rp bs s s'] run by (simp add: checked_def)
  ultimately show "ginv rp {} (G \<union> required rp [bs]) s' \<and> checked rp [bs]" ..
qed

lemma secures_parallel:
  assumes "secures rp js m"
  shows "secures rp (bs # js) (expand_parallel rp label ph path bs q b m)"
proof -
  have rest: "secures rp js (py_bind (add_budget b ctx) (\<lambda>units. py_bind m (\<lambda>ids.
      py_bind (append_node path label p ids None units) (\<lambda>node. py_ret (g ids node)))))"
    for ctx p and g :: "string list \<Rightarrow> string \<Rightarrow> expr_info"
    by (rule secures_bind_left, rule ginv_checks, rule secures_bind_right [OF assms]) (auto intro!: keeps_intro)
  show ?thesis
    unfolding expand_parallel_def
    by (cases "resolve_quorum label (length bs) q")
      (auto intro: secures_raise secures_bind [OF secures_writes [of rp bs] rest, simplified])
qed

lemma secures_loop:
  assumes "secures rp js m"
  shows "secures rp js (expand_loop ph path mx u b m)"
proof -
  have body: "secures rp js (py_bind m (\<lambda>_. py_bind (close_loop names) (\<lambda>_. py_bind (py_gets f) (\<lambda>ids.
      leaf_node path ''loop'' p (ids @ deps) None units))))" for names f p deps units
    by (rule secures_bind_right [OF assms]) (auto intro!: keeps_intro)
  show ?thesis
    unfolding expand_loop_def
    by (cases "loop_bound mx")
      (auto intro!: secures_raise body secures_bind_left keeps_intro split: prod.split)
qed

lemma secures_expand:
  "secures rp (joins x) (expand_expr rp ph path x)"
  "secures rp (joins_of bs) (expand_branches rp ph path label i bs)"
  "secures rp (joins f) (expand_form rp ph path f)"
  "secures rp (joins_of fs) (expand_forms rp ph prefix i fs)"
proof (induction rp ph path x and rp ph path label i bs and rp ph path f and rp ph prefix i fs
    rule: expand_expr_expand_branches_expand_form_expand_forms.induct)
  case (1 rp ph path expr)
  then show ?case
    by (cases expr)
      (auto simp: expand_expr.simps intro!: secures_raise secures_merge secures_parallel secures_loop
        secures_keeps ginv_leaves)
next
  case (3 rp ph path label i b bs)
  then show ?case
    by (auto intro!: secures_bind secures_bind_right [where js = "joins_of bs"] keeps_intro)
next
  case (4 rp ph path form)
  have plain: "secures rp js (py_bind m (\<lambda>_. py_ret ()))" if "secures rp js m" for js and m :: "expr_info xpy"
    by (rule secures_bind_right [OF that]) (rule keeps_intro)
  have bound: "secures rp js (py_bind m (\<lambda>info. bind_target t info ph))" if "secures rp js m" for js m t
    by (rule secures_bind_right [OF that]) (rule keeps_intro)
  have art: "secures rp [] (py_bind (expand_artifact ph path v) (\<lambda>_. py_ret ()))" for v
    by (rule plain, rule secures_keeps, rule ginv_leaves)
  from 4 show ?case
    by (cases form) (auto simp: expand_form.simps intro!: plain bound art)
next
  case (6 rp ph prefix i form forms)
  then show ?case by (auto intro!: secures_bind)
qed (auto intro: secures_ret)

section \<open>Expanded workflows\<close>

lemma validate_groups_ok: "validate_groups merged groups = Inr () \<Longrightarrow> g \<in> set groups \<Longrightarrow> set g \<subseteq> set merged"
  by (induction merged groups rule: validate_groups.induct)
    (auto simp: Let_def filter_empty_conv split: if_splits)

text \<open>
  C8: Parallel writers are safe. In every join that occurs in an expanded workflow, two agent
  branches that write the same workspace both declare files and have no file in common; and when
  all its agents write different workspaces (at least two), each of these workspaces is handed
  to a merge node of the workflow.
\<close>

theorem parallel_writers_are_safe:
  assumes "expand rp w = Inr ew" and "bs \<in> set (joins_of (w_body w))"
  shows "sorted_wrt (compatible rp) bs \<and>
    (isolated rp bs \<longrightarrow> set (writer_keys rp bs) \<subseteq> merge_keys rp (ew_nodes ew))"
proof -
  from assms(1) obtain phases limit s where
      run: "expand_forms rp None [] 0 (w_body w) (initial_expansion w phases limit) = (Inr (), s)"
      and merges: "validate_required_merges s = (Inr (), s)" and nodes: "ew_nodes ew = x_nodes s"
    by (rule expandE) simp
  have "ginv rp {} {} (initial_expansion w phases limit)"
    by (simp add: ginv_def initial_expansion_def)
  then have fin: "ginv rp {} (required rp (joins_of (w_body w))) s" "checked rp (joins_of (w_body w))"
    using triple_Inr [OF spec [OF secures_expand(4) [unfolded secures_def], where x = "{}"] _ run] by simp_all
  have "set (writer_keys rp bs) \<subseteq> merge_keys rp (x_nodes s)" if "isolated rp bs"
  proof -
    have "set (writer_keys rp bs) \<in> required rp (joins_of (w_body w))"
      using that assms(2) by (auto simp: required_def)
    then obtain g where g: "g \<in> set (x_groups s)" "set (writer_keys rp bs) = set g"
      using fin(1) by (auto simp: ginv_def)
    have "set g \<subseteq> set (x_merged s)"
      using validate_groups_ok [OF _ g(1)] merges by (simp add: validate_required_merges_def)
    with fin(1) g show ?thesis by (auto simp: ginv_def)
  qed
  with fin(2) assms(2) nodes show ?thesis by (simp add: checked_def)
qed

definition demo_writer :: "string \<Rightarrow> obj" where
  "demo_writer ws = OAgent (AgentSpec (Some ''d'') (Some ''c'') (OStr ''p'') (ODict []) (ORef ws) None None None
     ONone ONone ONone ONone ONone)"

definition demo_writers :: workflow where
  "demo_writers = \<lparr>w_name = ''w'', w_params = [], w_roles = [(''d'', ONone)],
     w_body = [OBind (TName ''a'') (OWorkspace ONone ONone 0), OBind (TName ''b'') (OWorkspace ONone ONone 1),
       OParallel [demo_writer ''a'', demo_writer ''b''] ONone ONone,
       OMerge [ORef ''a'', ORef ''b''] (OStr ''merge'') ONone ONone],
     w_budget = ONone\<rparr>"

lemma demo_writers_expand: "\<exists>ew. expand demo_repr demo_writers = Inr ew"
proof -
  have "case expand demo_repr demo_writers of Inl e \<Rightarrow> False | Inr ew \<Rightarrow> True"
    by code_simp
  then show ?thesis by (auto split: sum.splits)
qed

theorem parallel_writers_are_safe_witness:
  "\<exists>ew. expand demo_repr demo_writers = Inr ew \<and>
     {''ref:a'', ''ref:b''} \<subseteq> merge_keys demo_repr (ew_nodes ew)"
proof -
  obtain ew where ew: "expand demo_repr demo_writers = Inr ew" using demo_writers_expand ..
  have bs: "[demo_writer ''a'', demo_writer ''b''] \<in> set (joins_of (w_body demo_writers))"
    by (simp add: demo_writers_def)
  have "isolated demo_repr [demo_writer ''a'', demo_writer ''b'']"
    and "set (writer_keys demo_repr [demo_writer ''a'', demo_writer ''b'']) = {''ref:a'', ''ref:b''}"
    by (simp_all add: isolated_def writer_keys_def demo_writer_def workspace_key_def map_filter_simps)
  with parallel_writers_are_safe [OF ew bs] ew show ?thesis by auto
qed

end
