(* ===== verification/Dsl_Text.thy ===== *)
theory Dsl_Text
  imports Dsl_Syntax
begin

text \<open>
  The textual annotations of \<open>doeff_conductor/dsl.py\<close>: decimal budgets are read back, with their
  suffixes; keyword arguments are accepted exactly once under either spelling.
\<close>

section \<open>Budgets\<close>

definition plain_char :: "char \<Rightarrow> bool" where
  "plain_char c \<longleftrightarrow> \<not> is_space c \<and> lower_char c = c \<and> c \<noteq> CHR ''_''"

lemma digits_plain: "c \<in> set ''0123456789km'' \<Longrightarrow> plain_char c"
  by (auto simp: plain_char_def is_space_def lower_char_def Let_def)

lemma digits_decimal: "c \<in> set ''0123456789'' \<Longrightarrow> is_decimal c"
  by (auto simp: is_decimal_def Let_def)

lemma strip_plain: "\<forall>c \<in> set s. plain_char c \<Longrightarrow> strip s = s"
proof -
  assume plain: "\<forall>c \<in> set s. plain_char c"
  have keep: "dropWhile is_space t = t" if "\<forall>c \<in> set t. plain_char c" for t
    using that by (cases t) (auto simp: plain_char_def)
  from keep [OF plain] keep [of "rev s"] plain show ?thesis by (simp add: strip_def)
qed

lemma replace_absent: "c \<notin> set s \<Longrightarrow> str_replace [c] new s = s"
  by (induction s) (auto simp: starts_with_def)

lemma budget_text_plain: "\<forall>c \<in> set s. plain_char c \<Longrightarrow> budget_text s = s"
proof -
  assume plain: "\<forall>c \<in> set s. plain_char c"
  then have "map lower_char s = s" by (induction s) (auto simp: plain_char_def)
  moreover have "CHR ''_'' \<notin> set s" using plain by (auto simp: plain_char_def)
  ultimately show ?thesis by (simp add: budget_text_def strip_plain [OF plain] replace_absent)
qed

lemma decimal_value_nat_str: "decimal_value (nat_str n) = int n"
  using foldl_nat_str [of n] by (simp add: decimal_value_def digit_val_def)

lemma nat_str_digits: "list_all is_decimal (nat_str n)" "list_all is_digit (nat_str n)"
  "\<forall>c \<in> set (nat_str n). plain_char c" "last (nat_str n) \<noteq> CHR ''k''" "last (nat_str n) \<noteq> CHR ''m''"
proof -
  have digits: "c \<in> set ''0123456789''" if "c \<in> set (nat_str n)" for c
    using nat_str_set [of n] that by blast
  show "list_all is_decimal (nat_str n)" "list_all is_digit (nat_str n)"
    using digits digits_decimal by (auto simp: list_all_iff is_digit_def)
  show "\<forall>c \<in> set (nat_str n). plain_char c"
    using digits digits_plain by fastforce
  show "last (nat_str n) \<noteq> CHR ''k''" "last (nat_str n) \<noteq> CHR ''m''"
    using digits [OF last_in_set [OF nat_str_nonempty]] by auto
qed

lemma ends_with_char: "ends_with s [c] \<longleftrightarrow> s \<noteq> [] \<and> last s = c"
  by (cases s rule: rev_cases) (auto simp: ends_with_def)

lemma suffix_plain: "budget_suffix (nat_str n) = (nat_str n, 1)"
  by (simp add: budget_suffix_def ends_with_char nat_str_digits)

lemma suffix_k: "budget_suffix (nat_str n @ ''k'') = (nat_str n, 1000)"
  and suffix_m: "budget_suffix (nat_str n @ ''m'') = (nat_str n, 1000000)"
  by (simp_all add: budget_suffix_def ends_with_char)

text \<open>
  Budget annotations read back: the decimal text of \<open>n\<close> parses to \<open>n\<close>, with the suffix \<open>k\<close> to
  \<open>1000 n\<close> and with the suffix \<open>m\<close> to \<open>1000000 n\<close>, without error.
\<close>

theorem budget_text_roundtrip:
  shows "parse_budget (OStr (nat_str n)) ctx = Inr (int n) \<and>
    parse_budget (OStr (nat_str n @ ''k'')) ctx = Inr (int n * 1000) \<and>
    parse_budget (OStr (nat_str n @ ''m'')) ctx = Inr (int n * 1000000)"
proof -
  have km: "plain_char CHR ''k''" "plain_char CHR ''m''" by (simp_all add: digits_plain)
  have "budget_text (nat_str n) = nat_str n" "budget_text (nat_str n @ ''k'') = nat_str n @ ''k''"
      "budget_text (nat_str n @ ''m'') = nat_str n @ ''m''"
    using nat_str_digits(3) [of n] km by (simp_all add: budget_text_plain)
  then show ?thesis
    by (simp add: parse_budget_def suffix_plain suffix_k suffix_m nat_str_digits decimal_value_nat_str)
qed

text \<open>A superscript digit passes the check on digits and is refused by \<open>int()\<close> instead.\<close>

lemma superscript_budget_escapes: "parse_budget (OStr [CHR 0xB2]) ctx = Inl PyValueError"
  by (simp add: parse_budget_def budget_text_def strip_def is_space_def lower_char_def budget_suffix_def
      ends_with_char is_digit_def is_decimal_def starts_with_def)

end
