(* ===== verification/Json.thy ===== *)
theory Json
  imports Prelude "HOL-Library.List_Lexorder" "HOL-Library.Char_ord"
begin

text \<open>
  What the journals use of Python's \<open>json\<close>: \<open>dumps\<close> with sorted keys, the separators \<open>,\<close> and \<open>:\<close>
  and ASCII output, and \<open>loads\<close>. Text is Latin-1: an escape beyond it is refused. A number with a
  fraction or an exponent is kept as it is written. The section ends with the round trip for
  finite values, and with the characters a printed value is made of.
\<close>

section \<open>Values and printing\<close>

datatype (plugins only: code size) json =
  JNull | JBool bool | JInt int | JFloat string | JStr string | JList "json list" | JObj "(string \<times> json) list"

definition code :: "char \<Rightarrow> nat" where
  "code c = of_char c"

definition hex_char :: "nat \<Rightarrow> char" where
  "hex_char d = ''0123456789abcdef'' ! d"

definition hex_val :: "char \<Rightarrow> nat option" where
  "hex_val c =
     (if 48 \<le> code c \<and> code c \<le> 57 then Some (code c - 48)
      else if 97 \<le> code c \<and> code c \<le> 102 then Some (code c - 87)
      else if 65 \<le> code c \<and> code c \<le> 70 then Some (code c - 55) else None)"

definition esc_char :: "char \<Rightarrow> string" where
  "esc_char c =
     (if c = CHR 0x22 then [CHR 0x5C, CHR 0x22]
      else if c = CHR 0x5C then [CHR 0x5C, CHR 0x5C]
      else if c = CHR 0x0A then [CHR 0x5C, CHR ''n'']
      else if c = CHR 0x0D then [CHR 0x5C, CHR ''r'']
      else if c = CHR 0x09 then [CHR 0x5C, CHR ''t'']
      else if c = CHR 0x0C then [CHR 0x5C, CHR ''f'']
      else if c = CHR 0x08 then [CHR 0x5C, CHR ''b'']
      else if 32 \<le> code c \<and> code c \<le> 126 then [c]
      else [CHR 0x5C, CHR ''u'', CHR ''0'', CHR ''0'', hex_char (code c div 16), hex_char (code c mod 16)])"

definition dump_str :: "string \<Rightarrow> string" where
  "dump_str s = [CHR 0x22] @ concat (map esc_char s) @ [CHR 0x22]"

text \<open>\<open>sort_keys\<close> at every level, on dictionaries (whose keys are distinct).\<close>

fun sort_keys :: "json \<Rightarrow> json" where
  "sort_keys (JList vs) = JList (map sort_keys vs)"
| "sort_keys (JObj d) = JObj (sort_key fst (map (map_prod id sort_keys) d))"
| "sort_keys v = v"

fun dump :: "json \<Rightarrow> string" where
  "dump JNull = ''null''"
| "dump (JBool b) = (if b then ''true'' else ''false'')"
| "dump (JInt i) = int_str i"
| "dump (JFloat t) = t"
| "dump (JStr s) = dump_str s"
| "dump (JList vs) = ''['' @ str_join '','' (map dump vs) @ '']''"
| "dump (JObj d) = ''{'' @ str_join '','' (map (\<lambda>(k, v). dump_str k @ '':'' @ dump v) d) @ ''}''"

definition dumps :: "json \<Rightarrow> string" where
  "dumps v = dump (sort_keys v)"

section \<open>Reading\<close>

definition is_ws :: "char \<Rightarrow> bool" where
  "is_ws c \<longleftrightarrow> c \<in> {CHR 0x20, CHR 0x09, CHR 0x0A, CHR 0x0D}"

definition skip_ws :: "string \<Rightarrow> string" where
  "skip_ws s = dropWhile is_ws s"

definition digit :: "char \<Rightarrow> bool" where
  "digit c \<longleftrightarrow> 48 \<le> code c \<and> code c \<le> 57"

definition num_val :: "string \<Rightarrow> int" where
  "num_val s = foldl (\<lambda>acc c. acc * 10 + (int (code c) - 48)) 0 s"

fun unescape :: "char \<Rightarrow> char option" where
  "unescape c =
     (if c = CHR 0x22 \<or> c = CHR 0x5C \<or> c = CHR ''/'' then Some c
      else if c = CHR ''n'' then Some (CHR 0x0A) else if c = CHR ''r'' then Some (CHR 0x0D)
      else if c = CHR ''t'' then Some (CHR 0x09) else if c = CHR ''f'' then Some (CHR 0x0C)
      else if c = CHR ''b'' then Some (CHR 0x08) else None)"

fun hex4 :: "string \<Rightarrow> (char \<times> string) option" where
  "hex4 (a # b # c # d # s) =
     (case (hex_val a, hex_val b, hex_val c, hex_val d) of
        (Some a', Some b', Some c', Some d') \<Rightarrow>
          (let n = ((a' * 16 + b') * 16 + c') * 16 + d'
           in if n < 256 then Some (char_of n, s) else None)
      | _ \<Rightarrow> None)"
| "hex4 s = None"

text \<open>A string after its opening quote; each step consumes a character, so the length is enough fuel.\<close>

fun p_string :: "nat \<Rightarrow> string \<Rightarrow> (string \<times> string) option" where
  "p_string 0 s = None"
| "p_string (Suc n) [] = None"
| "p_string (Suc n) (c # s) =
     (if c = CHR 0x22 then Some ([], s)
      else if c = CHR 0x5C then
        (case s of
           [] \<Rightarrow> None
         | e # s' \<Rightarrow>
             (case (if e = CHR ''u'' then hex4 s' else map_option (\<lambda>x. (x, s')) (unescape e)) of
                None \<Rightarrow> None
              | Some (x, r) \<Rightarrow> map_option (map_prod (Cons x) id) (p_string n r)))
      else if code c < 32 then None
      else map_option (map_prod (Cons c) id) (p_string n s))"

definition p_frac :: "string \<Rightarrow> string \<times> string" where
  "p_frac s = (if starts_with s ''.'' \<and> takeWhile digit (drop 1 s) \<noteq> []
     then (''.'' @ takeWhile digit (drop 1 s), dropWhile digit (drop 1 s)) else ([], s))"

definition p_exp :: "string \<Rightarrow> string \<times> string" where
  "p_exp s =
     (case s of
        [] \<Rightarrow> ([], s)
      | e # r \<Rightarrow>
          if e = CHR ''e'' \<or> e = CHR ''E'' then
            (let (sg, r') = (case r of [] \<Rightarrow> ([], r) | c # r'' \<Rightarrow> if c = CHR ''+'' \<or> c = CHR ''-'' then ([c], r'') else ([], r));
                 ds = takeWhile digit r'
             in if ds = [] then ([], s) else ([e] @ sg @ ds, dropWhile digit r'))
          else ([], s))"

definition p_int :: "string \<Rightarrow> string \<times> string" where
  "p_int s = (if starts_with s ''0'' then (''0'', drop 1 s) else (takeWhile digit s, dropWhile digit s))"

definition p_number :: "string \<Rightarrow> (json \<times> string) option" where
  "p_number s =
     (let (sg, s1) = (if starts_with s ''-'' then (''-'', drop 1 s) else ([], s));
          (ip, s2) = p_int s1
      in if ip = [] then None
         else
           (let (fp, s3) = p_frac s2; (ep, s4) = p_exp s3
            in if fp = [] \<and> ep = [] then Some (JInt (if sg = [] then num_val ip else - num_val ip), s4)
               else Some (JFloat (sg @ ip @ fp @ ep), s4)))"

definition p_word :: "string \<Rightarrow> json \<Rightarrow> string \<Rightarrow> (json \<times> string) option" where
  "p_word w v s = (if starts_with s w then Some (v, drop (length w) s) else None)"

definition p_atom :: "string \<Rightarrow> (json \<times> string) option" where
  "p_atom s =
     (case p_word ''null'' JNull s of Some x \<Rightarrow> Some x | None \<Rightarrow>
      (case p_word ''true'' (JBool True) s of Some x \<Rightarrow> Some x | None \<Rightarrow>
       (case p_word ''false'' (JBool False) s of Some x \<Rightarrow> Some x | None \<Rightarrow>
        (case p_number s of Some x \<Rightarrow> Some x | None \<Rightarrow>
         (case p_word ''NaN'' (JFloat ''NaN'') s of Some x \<Rightarrow> Some x | None \<Rightarrow>
          (case p_word ''Infinity'' (JFloat ''Infinity'') s of Some x \<Rightarrow> Some x | None \<Rightarrow>
            p_word ''-Infinity'' (JFloat ''-Infinity'') s))))))"

text \<open>
  Each recursive call consumes at least one character, so the length of the text is enough fuel.
  \<open>p_items\<close> and \<open>p_members\<close> read a nonempty sequence up to its closing bracket.
\<close>

fun p_value :: "nat \<Rightarrow> string \<Rightarrow> (json \<times> string) option"
  and p_items :: "nat \<Rightarrow> string \<Rightarrow> (json list \<times> string) option"
  and p_members :: "nat \<Rightarrow> string \<Rightarrow> ((string \<times> json) list \<times> string) option" where
  "p_value 0 s = None"
| "p_value (Suc n) s =
     (case s of
        [] \<Rightarrow> None
      | c # r \<Rightarrow>
          if c = CHR 0x22 then map_option (map_prod JStr id) (p_string (length r) r)
          else if c = CHR ''['' then
            (if starts_with (skip_ws r) '']'' then Some (JList [], drop 1 (skip_ws r))
             else map_option (map_prod JList id) (p_items n (skip_ws r)))
          else if c = CHR ''{'' then
            (if starts_with (skip_ws r) ''}'' then Some (JObj [], drop 1 (skip_ws r))
             else map_option (map_prod (\<lambda>ms. JObj (fold (\<lambda>(k, v). dput k v) ms [])) id) (p_members n (skip_ws r)))
          else p_atom s)"
| "p_items 0 s = None"
| "p_items (Suc n) s =
     (case p_value n s of
        None \<Rightarrow> None
      | Some (v, r) \<Rightarrow>
          (case skip_ws r of
             [] \<Rightarrow> None
           | c # r' \<Rightarrow>
               if c = CHR '']'' then Some ([v], r')
               else if c = CHR '','' then map_option (map_prod (Cons v) id) (p_items n (skip_ws r'))
               else None))"
| "p_members 0 s = None"
| "p_members (Suc n) s =
     (case s of
        [] \<Rightarrow> None
      | q # s1 \<Rightarrow>
          if q \<noteq> CHR 0x22 then None
          else case p_string (length s1) s1 of
            None \<Rightarrow> None
          | Some (k, s2) \<Rightarrow>
              (case skip_ws s2 of
                 [] \<Rightarrow> None
               | c # s3 \<Rightarrow>
                   if c \<noteq> CHR '':'' then None
                   else case p_value n (skip_ws s3) of
                     None \<Rightarrow> None
                   | Some (v, s4) \<Rightarrow>
                       (case skip_ws s4 of
                          [] \<Rightarrow> None
                        | c' # s5 \<Rightarrow>
                            if c' = CHR ''}'' then Some ([(k, v)], s5)
                            else if c' = CHR '','' then
                              map_option (map_prod (Cons (k, v)) id) (p_members n (skip_ws s5))
                            else None)))"

definition loads :: "string \<Rightarrow> json option" where
  "loads t =
     (case p_value (Suc (length t)) (skip_ws t) of
        None \<Rightarrow> None
      | Some (v, r) \<Rightarrow> if skip_ws r = [] then Some v else None)"

section \<open>Conversions\<close>

text \<open>
  \<open>str()\<close> and \<open>int()\<close> of a JSON value. \<open>sr\<close> renders what is not a string; \<open>fi\<close> truncates a
  float, \<open>None\<close> when it is not a number (an infinite one, whose \<open>OverflowError\<close> the code does not catch,
  is left out).
\<close>

definition json_str :: "(json \<Rightarrow> string) \<Rightarrow> json \<Rightarrow> string" where
  "json_str sr v = (case v of JStr s \<Rightarrow> s | _ \<Rightarrow> sr v)"

fun digit_groups :: "bool \<Rightarrow> string \<Rightarrow> bool" where
  "digit_groups after_digit [] = after_digit"
| "digit_groups after_digit (c # s) =
     (if digit c then digit_groups True s else c = CHR ''_'' \<and> after_digit \<and> digit_groups False s)"

definition int_text :: "string \<Rightarrow> int option" where
  "int_text s =
     (let t = strip s;
          u = (if starts_with t ''-'' \<or> starts_with t ''+'' then drop 1 t else t)
      in if digit_groups False u
         then Some ((if starts_with t ''-'' then - 1 else 1) * num_val (filter digit u)) else None)"

definition json_int :: "(string \<Rightarrow> int option) \<Rightarrow> json \<Rightarrow> int option" where
  "json_int fi v =
     (case v of JInt i \<Rightarrow> Some i | JBool b \<Rightarrow> Some (if b then 1 else 0) | JStr s \<Rightarrow> int_text s
      | JFloat t \<Rightarrow> fi t | _ \<Rightarrow> None)"

section \<open>Round trip\<close>

text \<open>
  Values \<open>dumps\<close> is called on: objects have distinct keys, and a float is written as a number with a
  fraction or an exponent (so it is finite).
\<close>

definition float_text :: "string \<Rightarrow> bool" where
  "float_text t \<longleftrightarrow> p_number t = Some (JFloat t, [])"

fun plain :: "json \<Rightarrow> bool" where
  "plain (JFloat t) = float_text t"
| "plain (JList vs) = list_all plain vs"
| "plain (JObj d) = (distinct (map fst d) \<and> list_all (\<lambda>(k, v). plain v) d)"
| "plain v = True"

definition stops :: "string \<Rightarrow> bool" where
  "stops r \<longleftrightarrow> (case r of [] \<Rightarrow> True | c # _ \<Rightarrow> \<not> digit c \<and> c \<noteq> CHR ''.'' \<and> c \<noteq> CHR ''e'' \<and> c \<noteq> CHR ''E'')"

lemma code_less: "code c < 256"
  by (simp add: code_def)

lemma char_of_code [simp]: "char_of (code c) = c"
  by (simp add: code_def)

lemma hex_cases: "(d::nat) < 16 \<Longrightarrow> d \<in> {0, 1, 2, 3, 4, 5, 6, 7, 8, 9, 10, 11, 12, 13, 14, 15}"
  by (simp; presburger)

lemma hex_val_char: "d < 16 \<Longrightarrow> hex_val (hex_char d) = Some d"
  by (drule hex_cases) (auto simp: hex_val_def hex_char_def code_def)

lemma hex_val_0: "hex_val (CHR ''0'') = Some 0"
  by (simp add: hex_val_def code_def)

lemma hex4_code: "hex4 (CHR ''0'' # CHR ''0'' # hex_char (code c div 16) # hex_char (code c mod 16) # s) = Some (c, s)"
  using code_less [of c] by (simp add: hex_val_0 hex_val_char Let_def)

lemma esc_nonempty: "length (esc_char c) \<ge> 1"
  by (simp add: esc_char_def)

lemma p_string_step:
  "p_string (Suc n) (esc_char c @ s) = map_option (map_prod (Cons c) id) (p_string n s)"
proof (cases "32 \<le> code c \<and> code c \<le> 126")
  case True
  then show ?thesis by (auto simp: esc_char_def)
next
  case False
  then show ?thesis
    using hex4_code [of c s] by (auto simp: esc_char_def)
qed

lemma p_string_fuel:
  "length t < n \<Longrightarrow> p_string n (concat (map esc_char t) @ [CHR 0x22] @ r) = Some (t, r)"
proof (induction t arbitrary: n)
  case (Cons c t)
  then obtain m where "n = Suc m" "length t < m" by (cases n) auto
  with Cons.IH [of m] show ?case
    using p_string_step [of m c "concat (map esc_char t) @ [CHR 0x22] @ r"] by simp
next
  case Nil
  then show ?case by (cases n) auto
qed

lemma length_escaped: "length t \<le> length (concat (map esc_char t))"
proof (induction t)
  case (Cons c t)
  then show ?case using esc_nonempty [of c] by simp
qed simp

lemma p_string_dump:
  "p_string (length (concat (map esc_char t) @ [CHR 0x22] @ r)) (concat (map esc_char t) @ [CHR 0x22] @ r) = Some (t, r)"
  by (rule p_string_fuel) (use length_escaped [of t] in \<open>simp add: less_Suc_eq_le trans_le_add1\<close>)

section \<open>Numbers\<close>

lemma digit_nat_str: "c \<in> set (nat_str n) \<Longrightarrow> digit c"
  using nat_str_set [of n] by (auto simp: digit_def code_def)

lemma takeWhile_digits:
  assumes "stops r"
  shows "takeWhile digit (nat_str n @ r) = nat_str n" and "dropWhile digit (nat_str n @ r) = r"
proof -
  have "takeWhile digit (nat_str n @ r) = nat_str n @ takeWhile digit r"
    by (rule takeWhile_append2) (rule digit_nat_str)
  moreover have "dropWhile digit (nat_str n @ r) = dropWhile digit r"
    by (rule dropWhile_append2) (rule digit_nat_str)
  moreover have "takeWhile digit r = []" "dropWhile digit r = r"
    using assms by (auto simp: stops_def split: list.splits)
  ultimately show "takeWhile digit (nat_str n @ r) = nat_str n" "dropWhile digit (nat_str n @ r) = r" by simp_all
qed

lemma p_frac_stops: "stops r \<Longrightarrow> p_frac r = ([], r)"
  by (auto simp: p_frac_def stops_def starts_with_def split: list.splits)

lemma p_exp_stops: "stops r \<Longrightarrow> p_exp r = ([], r)"
  by (auto simp: p_exp_def stops_def split: list.splits)

lemma num_val_nat_str: "num_val (nat_str n) = int n"
  using foldl_nat_str [of n] by (simp add: num_val_def code_def)

lemma int_part:
  assumes "stops r"
  shows "p_int (nat_str n @ r) = (nat_str n, r)"
proof (cases "n = 0")
  case True
  then show ?thesis by (simp add: p_int_def nat_str.simps [of 0] digit_char_def starts_with_def)
next
  case False
  then have "\<not> starts_with (nat_str n @ r) ''0''"
    using nat_str_hd [of n] by (cases "nat_str n") (auto simp: starts_with_def)
  with assms show ?thesis by (simp add: p_int_def takeWhile_digits)
qed

lemma nat_str_no_minus: "\<not> starts_with (nat_str n @ r) ''-''"
  using digit_nat_str [of "hd (nat_str n)" n]
  by (cases "nat_str n") (auto simp: starts_with_def digit_def code_def)

lemma p_number_int: "stops r \<Longrightarrow> p_number (int_str i @ r) = Some (JInt i, r)"
  using int_part [of r "nat (- i)"] int_part [of r "nat i"] nat_str_no_minus [of "nat i" r]
  by (cases "i < 0")
    (simp_all add: p_number_def int_str_def p_frac_stops p_exp_stops num_val_nat_str starts_with_def [of "CHR ''-'' # _"])

lemma stops_digits: "stops r \<Longrightarrow> takeWhile digit r = [] \<and> dropWhile digit r = r"
  by (auto simp: stops_def split: list.splits)

lemma span_append:
  "stops r \<Longrightarrow> takeWhile digit (s @ r) = takeWhile digit s \<and> dropWhile digit (s @ r) = dropWhile digit s @ r"
  by (induction s) (auto simp: stops_digits)

lemma starts_append_stop:
  "stops r \<Longrightarrow> digit c \<or> c = CHR ''.'' \<Longrightarrow> starts_with (s @ r) [c] = starts_with s [c]"
  by (cases s) (auto simp: starts_with_def stops_def split: list.splits)

lemma p_int_append: "stops r \<Longrightarrow> p_int (s @ r) = map_prod id (\<lambda>x. x @ r) (p_int s)"
  using starts_append_stop [of r "CHR ''0''" s] span_append [of r s]
  by (cases s) (auto simp: p_int_def digit_def code_def starts_with_def)

lemma p_frac_append: "stops r \<Longrightarrow> p_frac (s @ r) = map_prod id (\<lambda>x. x @ r) (p_frac s)"
proof (cases s)
  case Nil
  moreover assume "stops r"
  ultimately show ?thesis by (simp add: p_frac_stops) (simp add: p_frac_def starts_with_def)
next
  case (Cons c s')
  assume "stops r"
  then show ?thesis
    using span_append [of r s'] Cons by (simp add: p_frac_def starts_with_def)
qed

lemma p_exp_append:
  assumes "stops r" and "p_exp s = (ep, [])"
  shows "p_exp (s @ r) = (ep, r)"
proof (cases s)
  case Nil
  with assms show ?thesis by (simp add: p_exp_stops) (simp add: p_exp_def)
next
  case (Cons e s')
  define sg where "sg = (case s' of [] \<Rightarrow> ([], s') | c # r'' \<Rightarrow> if c = CHR ''+'' \<or> c = CHR ''-'' then ([c], r'') else ([], s'))"
  obtain a u where su: "sg = (a, u)" by (cases sg)
  from assms(2) Cons su have e: "e = CHR ''e'' \<or> e = CHR ''E''" and ds: "takeWhile digit u \<noteq> []" "dropWhile digit u = []"
      "ep = [e] @ a @ takeWhile digit u"
    by (auto simp: p_exp_def Let_def sg_def [symmetric] split: if_splits)
  have "s' \<noteq> []"
    using ds su by (auto simp: sg_def)
  then have "(case s' @ r of [] \<Rightarrow> ([], s' @ r) | c # r'' \<Rightarrow> if c = CHR ''+'' \<or> c = CHR ''-'' then ([c], r'') else ([], s' @ r)) = (a, u @ r)"
    using su by (cases s') (auto simp: sg_def split: if_splits)
  with e ds span_append [OF assms(1), of u] Cons show ?thesis
    by (simp add: p_exp_def)
qed

lemma p_number_float:
  assumes "float_text t" and "stops r"
  shows "p_number (t @ r) = Some (JFloat t, r)"
proof -
  obtain sg s1 where s1: "(if starts_with t ''-'' then (''-'', drop 1 t) else ([], t)) = (sg, s1)"
    by (cases "if starts_with t ''-'' then (''-'', drop 1 t) else ([], t)")
  obtain ip s2 where s2: "p_int s1 = (ip, s2)" by (cases "p_int s1")
  obtain fp s3 where s3: "p_frac s2 = (fp, s3)" by (cases "p_frac s2")
  obtain ep s4 where s4: "p_exp s3 = (ep, s4)" by (cases "p_exp s3")
  from assms(1) s1 s2 s3 s4 have ok: "ip \<noteq> []" "fp \<noteq> [] \<or> ep \<noteq> []" "s4 = []" "t = sg @ ip @ fp @ ep"
    by (auto simp: float_text_def p_number_def Let_def split: if_splits)
  have "t \<noteq> []" using ok by simp
  then have a: "(if starts_with (t @ r) ''-'' then (''-'', drop 1 (t @ r)) else ([], t @ r)) = (sg, s1 @ r)"
    using s1 by (cases t) (auto simp: starts_with_def split: if_splits)
  have b: "p_int (s1 @ r) = (ip, s2 @ r)" using p_int_append [OF assms(2), of s1] s2 by simp
  have c: "p_frac (s2 @ r) = (fp, s3 @ r)" using p_frac_append [OF assms(2), of s2] s3 by simp
  have d: "p_exp (s3 @ r) = (ep, r)" using p_exp_append [OF assms(2)] s4 ok(3) by simp
  show ?thesis
    unfolding p_number_def a Let_def split_conv b c d using ok by simp
qed

lemma p_number_chars:
  assumes "float_text t"
  shows "\<exists>c u. t = c # u \<and> (c = CHR ''-'' \<or> digit c)"
proof -
  obtain sg s1 where s1: "(if starts_with t ''-'' then (''-'', drop 1 t) else ([], t)) = (sg, s1)"
    by (cases "if starts_with t ''-'' then (''-'', drop 1 t) else ([], t)")
  obtain ip s2 where s2: "p_int s1 = (ip, s2)" by (cases "p_int s1")
  have ip: "ip \<noteq> []" using assms s1 s2 by (auto simp: float_text_def p_number_def split: if_splits)
  obtain c u where t: "t = c # u"
    using s1 s2 ip by (cases t) (auto simp: p_int_def starts_with_def)
  show ?thesis
  proof (cases "c = CHR ''-''")
    case False
    with t s1 have "s1 = t" by (simp add: starts_with_def)
    with s2 ip t have "digit c"
      by (auto simp: p_int_def starts_with_def digit_def code_def split: if_splits)
    with t show ?thesis by simp
  qed (use t in simp)
qed

section \<open>Values\<close>

lemma int_str_first: "\<exists>c t. int_str i = c # t \<and> (c = CHR ''-'' \<or> digit c)"
proof (cases "i < 0")
  case True
  then show ?thesis by (simp add: int_str_def)
next
  case False
  moreover obtain c t where "nat_str (nat i) = c # t" by (cases "nat_str (nat i)") auto
  ultimately show ?thesis using digit_nat_str [of c "nat i"] by (simp add: int_str_def)
qed

lemma word_nat_str:
  "w \<noteq> [] \<Longrightarrow> \<not> digit (hd w) \<Longrightarrow> hd w \<noteq> CHR ''-'' \<Longrightarrow> p_word w v (int_str i @ r) = None"
  using int_str_first [of i] by (cases w) (auto simp: p_word_def starts_with_def)

lemma p_atom_int: "stops r \<Longrightarrow> p_atom (int_str i @ r) = Some (JInt i, r)"
  by (simp add: p_atom_def word_nat_str p_number_int digit_def code_def)

lemma word_first:
  "p_word w v s = None" if "s = c # u" and "w \<noteq> []" and "hd w \<noteq> c"
  using that by (cases w) (auto simp: p_word_def starts_with_def)

lemma p_atom_float: "float_text t \<Longrightarrow> stops r \<Longrightarrow> p_atom (t @ r) = Some (JFloat t, r)"
proof -
  assume float: "float_text t" and stop: "stops r"
  obtain c u where t: "t @ r = c # u" "c = CHR ''-'' \<or> digit c"
    using p_number_chars [OF float] by auto
  then have "c \<notin> {CHR ''n'', CHR ''t'', CHR ''f''}" by (auto simp: digit_def code_def)
  then have "p_word ''null'' v (t @ r) = None" "p_word ''true'' v (t @ r) = None" "p_word ''false'' v (t @ r) = None" for v
    by (auto intro!: word_first [OF t(1)])
  then show ?thesis by (simp add: p_atom_def p_number_float [OF float stop])
qed

lemma p_value_quote [simp]:
  "p_value (Suc n) (CHR 0x22 # r) = map_option (map_prod JStr id) (p_string (length r) r)"
  by simp

lemma p_value_str: "0 < n \<Longrightarrow> p_value n (dump_str t @ r) = Some (JStr t, r)"
  using p_string_dump [of t r] by (cases n) (simp_all add: dump_str_def del: p_value.simps)

lemma p_value_atom:
  "0 < n \<Longrightarrow> c \<noteq> CHR 0x22 \<Longrightarrow> c \<noteq> CHR ''['' \<Longrightarrow> c \<noteq> CHR ''{'' \<Longrightarrow> p_value n (c # s) = p_atom (c # s)"
  by (cases n) simp_all

lemma p_atom_words:
  "p_atom (CHR ''n'' # CHR ''u'' # CHR ''l'' # CHR ''l'' # r) = Some (JNull, r)"
  "p_atom (CHR ''t'' # CHR ''r'' # CHR ''u'' # CHR ''e'' # r) = Some (JBool True, r)"
  "p_atom (CHR ''f'' # CHR ''a'' # CHR ''l'' # CHR ''s'' # CHR ''e'' # r) = Some (JBool False, r)"
  by (simp_all add: p_atom_def p_word_def starts_with_def)

definition starts_value :: "string \<Rightarrow> bool" where
  "starts_value s \<longleftrightarrow> (\<exists>c t. s = c # t \<and> \<not> is_ws c \<and> c \<noteq> CHR '']'' \<and> c \<noteq> CHR ''}'')"

lemma digit_first: "digit c \<Longrightarrow> \<not> is_ws c \<and> c \<noteq> CHR '']'' \<and> c \<noteq> CHR ''}'' \<and> c \<noteq> CHR 0x22 \<and> c \<noteq> CHR ''['' \<and> c \<noteq> CHR ''{''"
  by (auto simp: digit_def is_ws_def code_def)

lemma dump_str_starts: "starts_value (dump_str t @ r)"
  by (simp add: starts_value_def dump_str_def is_ws_def)

lemma dump_starts: "plain v \<Longrightarrow> starts_value (dump v @ r)"
proof (cases v)
  case (JInt i)
  then show ?thesis
    using int_str_first [of i] digit_first by (auto simp: starts_value_def is_ws_def)
next
  case (JStr t)
  then show ?thesis by (simp add: dump_str_starts)
next
  case (JFloat t)
  moreover assume "plain v"
  ultimately show ?thesis
    using p_number_chars [of t] digit_first by (auto simp: starts_value_def is_ws_def)
qed (auto simp: starts_value_def is_ws_def)

lemma skip_starts: "starts_value s \<Longrightarrow> skip_ws s = s"
  by (auto simp: starts_value_def skip_ws_def)

lemma not_closing: "starts_value s \<Longrightarrow> \<not> starts_with s '']'' \<and> \<not> starts_with s ''}''"
  by (auto simp: starts_value_def starts_with_def)

lemma starts_append: "starts_value s \<Longrightarrow> starts_value (s @ r)"
  by (auto simp: starts_value_def)

lemma stops_punct [simp]: "stops (CHR '','' # r)" "stops (CHR '']'' # r)" "stops (CHR ''}'' # r)"
  by (simp_all add: stops_def digit_def code_def)

lemma skip_punct [simp]:
  "skip_ws (CHR '','' # r) = CHR '','' # r" "skip_ws (CHR '']'' # r) = CHR '']'' # r"
  "skip_ws (CHR ''}'' # r) = CHR ''}'' # r" "skip_ws (CHR '':'' # r) = CHR '':'' # r"
  by (simp_all add: skip_ws_def is_ws_def)

abbreviation reads :: "json \<Rightarrow> bool" where
  "reads v \<equiv> \<forall>n r. stops r \<longrightarrow> length (dump v) \<le> n \<longrightarrow> p_value n (dump v @ r) = Some (v, r)"

lemma starts_length: "starts_value (dump v) \<Longrightarrow> 1 \<le> length (dump v)"
  by (auto simp: starts_value_def)

lemma items_read:
  assumes "vs \<noteq> []" and "\<And>v. v \<in> set vs \<Longrightarrow> reads v \<and> plain v"
    and "length (str_join '','' (map dump vs)) < n"
  shows "p_items n (str_join '','' (map dump vs) @ CHR '']'' # r) = Some (vs, r)"
  using assms
proof (induction vs arbitrary: n)
  case (Cons v vs)
  from Cons.prems(3) obtain m where n: "n = Suc m" by (cases n) auto
  have v: "reads v" "plain v" using Cons.prems(2) by auto
  show ?case
  proof (cases vs)
    case Nil
    then show ?thesis using v Cons.prems(3) n by simp
  next
    case (Cons w ws)
    have len: "length (dump v) \<le> m" "length (str_join '','' (map dump vs)) < m"
      using Cons.prems(3) n Cons starts_length [OF dump_starts [OF v(2), of "[]", simplified]] by auto
    have "starts_value (str_join '','' (map dump vs) @ CHR '']'' # r)"
      using Cons dump_starts [of w] Cons.prems(2) by (cases ws) auto
    with v Cons.IH [of m] Cons.prems(2) len Cons n show ?thesis
      by (simp add: skip_starts)
  qed
qed simp

abbreviation dump_member :: "string \<times> json \<Rightarrow> string" where
  "dump_member \<equiv> \<lambda>(k, v). dump_str k @ '':'' @ dump v"

lemma p_string_quote:
  "p_string (length (concat (map esc_char k) @ [CHR 0x22] @ s)) (concat (map esc_char k) @ [CHR 0x22] @ s) = Some (k, s)"
  by (rule p_string_dump)

lemma p_members_one:
  assumes "reads v" and "plain v" and "length (dump v) \<le> n" and "stops s" and "skip_ws s = s"
  shows "p_members (Suc n) (dump_member (k, v) @ s) =
    (case s of [] \<Rightarrow> None
     | c # s5 \<Rightarrow> if c = CHR ''}'' then Some ([(k, v)], s5)
                else if c = CHR '','' then map_option (map_prod (Cons (k, v)) id) (p_members n (skip_ws s5)) else None)"
  using assms p_string_quote [of k "CHR '':'' # dump v @ s"]
  by (simp add: dump_str_def skip_starts [OF dump_starts])

lemma members_read:
  assumes "d \<noteq> []" and "\<And>k v. (k, v) \<in> set d \<Longrightarrow> reads v \<and> plain v"
    and "length (str_join '','' (map dump_member d)) < n"
  shows "p_members n (str_join '','' (map dump_member d) @ CHR ''}'' # r) = Some (d, r)"
  using assms
proof (induction d arbitrary: n)
  case (Cons kv d)
  obtain k v where kv: "kv = (k, v)" by (cases kv)
  from Cons.prems(3) obtain m where n: "n = Suc m" by (cases n) auto
  have v: "reads v" "plain v" using Cons.prems(2) [of k v] kv by auto
  show ?case
  proof (cases d)
    case Nil
    have "length (dump v) \<le> m" using Cons.prems(3) n kv Nil by simp
    from p_members_one [OF v this, of "CHR ''}'' # r" k] show ?thesis
      using n kv Nil by (simp del: p_members.simps)
  next
    case (Cons kw ds)
    have len: "length (dump v) \<le> m" "length (str_join '','' (map dump_member d)) < m"
      using Cons.prems(3) n kv Cons by (auto simp: dump_str_def)
    have first: "starts_value (str_join '','' (map dump_member d) @ CHR ''}'' # r)"
      using Cons dump_str_starts by (cases ds; cases kw) auto
    have IH: "p_members m (str_join '','' (map dump_member d) @ CHR ''}'' # r) = Some (d, r)"
      by (rule Cons.IH) (use Cons.prems(2) len Cons in auto)
    have "str_join '','' (map dump_member (kv # d)) @ CHR ''}'' # r =
        dump_member (k, v) @ CHR '','' # str_join '','' (map dump_member d) @ CHR ''}'' # r"
      using Cons kv by simp
    with p_members_one [OF v len(1), of "CHR '','' # str_join '','' (map dump_member d) @ CHR ''}'' # r" k]
    show ?thesis
      using n kv IH first by (simp add: skip_starts del: p_members.simps split del: if_split)
  qed
qed simp

lemma fold_dput_distinct:
  "distinct (map fst d0 @ map fst d) \<Longrightarrow> fold (\<lambda>(k, v). dput k v) d d0 = d0 @ d"
proof (induction d arbitrary: d0)
  case (Cons kv d)
  obtain k v where kv: "kv = (k, v)" by (cases kv)
  have "dput k v d0 = d0 @ [(k, v)]"
    using Cons.prems kv by (induction d0) auto
  with Cons.IH [of "d0 @ [(k, v)]"] Cons.prems kv show ?case by simp
qed simp

lemma reads_plain: "plain v \<Longrightarrow> reads v"
proof (induction v)
  case (JList vs)
  show ?case
  proof (intro allI impI)
    fix n r
    assume n: "length (dump (JList vs)) \<le> n" and "stops r"
    then obtain m where m: "n = Suc m" "length (str_join '','' (map dump vs)) < m" by (cases n) auto
    show "p_value n (dump (JList vs) @ r) = Some (JList vs, r)"
    proof (cases "vs = []")
      case True
      then show ?thesis using m by (simp add: starts_with_def)
    next
      case False
      have elems: "v \<in> set vs \<Longrightarrow> reads v \<and> plain v" for v
        using JList by (auto simp: list_all_iff)
      have "starts_value (str_join '','' (map dump vs) @ CHR '']'' # r)"
      proof -
        obtain w ws where "vs = w # ws" using False by (cases vs) auto
        with elems [of w] dump_starts [of w] show ?thesis by (cases ws) auto
      qed
      with items_read [OF False elems m(2), of r] m(1) show ?thesis
        by (simp add: skip_starts not_closing)
    qed
  qed
next
  case (JObj d)
  show ?case
  proof (intro allI impI)
    fix n r
    assume n: "length (dump (JObj d)) \<le> n" and "stops r"
    then obtain m where m: "n = Suc m" "length (str_join '','' (map dump_member d)) < m" by (cases n) auto
    show "p_value n (dump (JObj d) @ r) = Some (JObj d, r)"
    proof (cases "d = []")
      case True
      then show ?thesis using m by (simp add: starts_with_def)
    next
      case False
      have elems: "(k, v) \<in> set d \<Longrightarrow> reads v \<and> plain v" for k v
        using JObj by (fastforce simp: list_all_iff)
      obtain kw ds where d: "d = kw # ds" using False by (cases d) auto
      have "starts_value (str_join '','' (map dump_member d) @ CHR ''}'' # r)"
        using d dump_str_starts by (cases ds; cases kw) auto
      moreover have "fold (\<lambda>(k, v). dput k v) d [] = d"
        using fold_dput_distinct [of "[]" d] JObj.prems by simp
      ultimately show ?thesis
        using members_read [OF False elems m(2), where r = r] m(1) by (simp add: skip_starts not_closing)
    qed
  qed
next
  case (JInt i)
  show ?case
  proof (intro allI impI)
    fix n r
    assume "stops r" and "length (dump (JInt i)) \<le> n"
    with int_str_first [of i] p_atom_int [of r i] digit_first show "p_value n (dump (JInt i) @ r) = Some (JInt i, r)"
      by (auto simp: p_value_atom)
  qed
next
  case (JFloat t)
  show ?case
  proof (intro allI impI)
    fix n r
    assume "stops r" and "length (dump (JFloat t)) \<le> n"
    with p_number_chars [of t] p_atom_float [of t r] JFloat digit_first
    show "p_value n (dump (JFloat t) @ r) = Some (JFloat t, r)"
      by (auto simp: p_value_atom)
  qed
next
  case (JStr t)
  show ?case
  proof (intro allI impI)
    fix n r
    assume "length (dump (JStr t)) \<le> n"
    then have "0 < n" by (simp add: dump_str_def)
    then show "p_value n (dump (JStr t) @ r) = Some (JStr t, r)" by (simp add: p_value_str)
  qed
qed (auto simp: p_value_atom p_atom_words)

lemma sort_key_map: "(\<And>x. fst (h x) = fst x) \<Longrightarrow> sort_key fst (map h xs) = map h (sort_key fst xs)"
proof -
  assume h: "\<And>x. fst (h x) = fst x"
  have insort: "insort_key fst (h x) (map h ys) = map h (insort_key fst x ys)" for x ys
    by (induction ys) (auto simp: h)
  show ?thesis by (induction xs) (auto simp: insort)
qed

lemma distinct_sort_key: "distinct (map f (sort_key g xs)) \<longleftrightarrow> distinct (map f xs)"
  by (metis mset_eq_imp_distinct_iff mset_map mset_sort)

lemma plain_sort_keys: "plain v \<Longrightarrow> plain (sort_keys v)"
proof (induction v)
  case (JObj d)
  have "distinct (map fst (sort_key fst (map (map_prod id sort_keys) d)))"
    using JObj.prems by (simp add: distinct_sort_key comp_def)
  with JObj show ?case
    by (fastforce simp: list_all_iff)
qed (auto simp: list_all_iff)

text \<open>What is printed is read back, with the keys of every object in order.\<close>

lemma loads_dumps: "plain v \<Longrightarrow> loads (dumps v) = Some (sort_keys v)"
proof -
  assume "plain v"
  then have ok: "plain (sort_keys v)" by (rule plain_sort_keys)
  have "p_value (Suc (length (dumps v))) (dumps v @ []) = Some (sort_keys v, [])"
    using reads_plain [OF ok, rule_format, of "[]" "Suc (length (dumps v))"]
    by (simp add: dumps_def stops_def del: p_value.simps)
  moreover have "skip_ws (dumps v) = dumps v"
    using skip_starts [OF dump_starts [OF ok, of "[]"]] by (simp add: dumps_def)
  ultimately show ?thesis by (simp add: loads_def skip_ws_def del: p_value.simps)
qed

section \<open>Characters of a printed value\<close>

definition printable :: "char \<Rightarrow> bool" where
  "printable c \<longleftrightarrow> 32 \<le> code c \<and> code c \<le> 126"

lemma esc_printable: "x \<in> set (esc_char c) \<Longrightarrow> printable x"
proof -
  have hex: "printable (hex_char d)" if "d < 16" for d
    using hex_cases [OF that] by (auto simp: printable_def hex_char_def code_def)
  have "code c div 16 < 16" "code c mod 16 < 16" using code_less [of c] by auto
  with hex show "x \<in> set (esc_char c) \<Longrightarrow> printable x"
    by (auto simp: esc_char_def printable_def code_def split: if_splits)
qed

lemma dump_str_printable: "x \<in> set (dump_str t) \<Longrightarrow> printable x"
  using esc_printable by (auto simp: dump_str_def) (simp_all add: printable_def code_def)

lemma str_join_set: "set (str_join sep xs) \<subseteq> set sep \<union> \<Union> (set ` set xs)"
  by (induction sep xs rule: str_join.induct) auto

lemma digit_printable: "digit c \<Longrightarrow> printable c"
  by (simp add: digit_def printable_def)

lemma float_printable:
  assumes "float_text t" and "x \<in> set t"
  shows "printable x"
proof -
  have digits: "printable y" if "y \<in> set (takeWhile digit u)" for y u
    using that set_takeWhileD [of y digit u] digit_printable by blast
  obtain sg s1 where s1: "(if starts_with t ''-'' then (''-'', drop 1 t) else ([], t)) = (sg, s1)"
    by (cases "if starts_with t ''-'' then (''-'', drop 1 t) else ([], t)")
  obtain ip s2 where s2: "p_int s1 = (ip, s2)" by (cases "p_int s1")
  obtain fp s3 where s3: "p_frac s2 = (fp, s3)" by (cases "p_frac s2")
  obtain ep s4 where s4: "p_exp s3 = (ep, s4)" by (cases "p_exp s3")
  from assms(1) s1 s2 s3 s4 have "t = sg @ ip @ fp @ ep"
    by (auto simp: float_text_def p_number_def Let_def split: if_splits)
  moreover have "printable y" if "y \<in> set sg" for y
    using s1 that by (auto simp: printable_def code_def split: if_splits)
  moreover have "printable y" if "y \<in> set ip" for y
    using s2 that digits by (auto simp: p_int_def printable_def code_def split: if_splits)
  moreover have "printable y" if "y \<in> set fp" for y
    using s3 that digits by (auto simp: p_frac_def split: if_splits) (simp add: printable_def code_def)
  moreover have "printable y" if "y \<in> set ep" for y
  proof -
    have "printable (CHR ''e'')" "printable (CHR ''E'')" "printable (CHR ''+'')" "printable (CHR ''-'')"
      by (simp_all add: printable_def code_def)
    then show ?thesis
      using s4 that digits digit_printable by (auto simp: p_exp_def Let_def split: list.splits if_splits)
  qed
  ultimately show ?thesis using assms(2) by auto
qed

lemma dump_printable: "plain v \<Longrightarrow> x \<in> set (dump v) \<Longrightarrow> printable x"
proof (induction v arbitrary: x)
  case (JInt i)
  then show ?case
    using digit_nat_str [of x "nat i"] digit_nat_str [of x "nat (- i)"] digit_printable
    by (auto simp: int_str_def printable_def code_def split: if_splits)
next
  case (JList vs)
  have "printable (CHR '','')" "printable (CHR ''['')" "printable (CHR '']'')"
    by (simp_all add: printable_def code_def)
  moreover have "set (str_join '','' (map dump vs)) \<subseteq> {CHR '',''} \<union> (\<Union>v \<in> set vs. set (dump v))"
    using str_join_set [of "'',''" "map dump vs"] by simp
  ultimately show ?case using JList by (auto simp: list_all_iff)
next
  case (JObj d)
  have "printable (CHR '','')" "printable (CHR ''{'')" "printable (CHR ''}'')" "printable (CHR '':'')"
    by (simp_all add: printable_def code_def)
  moreover have "set (str_join '','' (map dump_member d)) \<subseteq> {CHR '',''} \<union> (\<Union>kv \<in> set d. set (dump_member kv))"
    using str_join_set [of "'',''" "map dump_member d"] by simp
  moreover have "printable y" if "(k, v) \<in> set d" and "y \<in> set (dump_member (k, v))" for k v y
    using JObj.IH [of "(k, v)" v y] JObj.prems(1) that dump_str_printable [of y k] \<open>printable (CHR '':'')\<close>
    by (auto simp: list_all_iff)
  ultimately show ?case
    using JObj.prems(2) by auto
next
  case (JStr t)
  then show ?case by (simp add: dump_str_printable)
next
  case (JFloat t)
  then show ?case by (simp add: float_printable)
qed (auto simp: printable_def code_def split: if_splits)

lemma dumps_printable: "plain v \<Longrightarrow> x \<in> set (dumps v) \<Longrightarrow> printable x"
  using dump_printable [OF plain_sort_keys] by (simp add: dumps_def)

lemma dumps_nonempty: "plain v \<Longrightarrow> dumps v \<noteq> []"
  using dump_starts [OF plain_sort_keys, of v "[]"] by (auto simp: dumps_def starts_value_def)

end
