(* ===== verification/Result_Schema.thy ===== *)
theory Result_Schema
  imports Json
begin

text \<open>
  Validation of an agent's structured result against the JSON-Schema subset of
  \<open>doeff_agents/result_validation.py\<close>. A \<open>ValueError\<close> is a \<open>Reason\<close>, with the location and the data of
  its message; any other exception (\<open>int(None)\<close>) is a \<open>Crash\<close>, which \<open>validate_result_payload\<close> lets
  through. Regular expressions, the comparison of a float with a number and the truncation of a float
  are parameters.
\<close>

type_synonym payload = "(string, json) dict"

section \<open>Equality of values\<close>

definition is_number :: "json \<Rightarrow> bool" where
  "is_number v = (case v of JInt _ \<Rightarrow> True | JBool _ \<Rightarrow> True | JFloat _ \<Rightarrow> True | _ \<Rightarrow> False)"

definition whole :: "json \<Rightarrow> int option" where
  "whole v = (case v of JInt i \<Rightarrow> Some i | JBool b \<Rightarrow> Some (of_bool b) | _ \<Rightarrow> None)"

text \<open>\<open>==\<close>: dictionaries compare without order; \<open>True == 1\<close>; \<open>feq\<close> decides where a float is involved.\<close>

definition number_eq :: "(json \<Rightarrow> json \<Rightarrow> bool) \<Rightarrow> json \<Rightarrow> json \<Rightarrow> bool" where
  "number_eq feq a b =
     (case (whole a, whole b) of (Some i, Some j) \<Rightarrow> i = j | _ \<Rightarrow> is_number a \<and> is_number b \<and> feq a b)"

lemma dget_size: "dget d k = Some v \<Longrightarrow> size v < size (JObj d)"
proof (induction d)
  case (Cons kv d)
  obtain a b where kv: "kv = (a, b)" by (cases kv)
  show ?case using Cons unfolding kv by (cases "k = a") (auto split: if_splits)
qed simp

lemma pair_size: "(k, v) \<in> set d \<Longrightarrow> size v < size (JObj d)"
  by (induction d) auto

function (sequential) py_eq :: "(json \<Rightarrow> json \<Rightarrow> bool) \<Rightarrow> json \<Rightarrow> json \<Rightarrow> bool" where
  "py_eq feq JNull b = (b = JNull)"
| "py_eq feq (JStr s) b = (b = JStr s)"
| "py_eq feq (JList xs) (JList ys) = (length xs = length ys \<and> list_all (\<lambda>(x, y). py_eq feq x y) (zip xs ys))"
| "py_eq feq (JObj d) (JObj e) =
     (length d = length e \<and>
      list_all (\<lambda>(k, v). case dget e k of None \<Rightarrow> False | Some w \<Rightarrow> py_eq feq v w) d)"
| "py_eq feq a b = number_eq feq a b"
  by pat_completeness auto
termination
  by (relation "measure (\<lambda>(feq, a, b). size a)")
    (auto dest!: set_zip_leftD pair_size simp: less_Suc_eq_le size_list_estimation')

section \<open>Validation\<close>

datatype (plugins only: code size) reason =
    SchemaNotObject string | OneOfNotArray string | NoVariant string "reason list" | ManyVariants string nat
  | NotConst string json | NotOfType string json | UnsupportedType json | EnumNotArray string
  | NotInEnum string "json list" | MinLengthNotInt json | TooShort string int | PatternNotString string
  | PatternInvalid string string | PatternMismatch string string | RequiredNotArray string
  | RequiredOnNonObject string | RequiredNonString string | MissingRequired string string
  | PropertiesNotObject string | UnexpectedFields string "string list"

datatype (plugins only: code size) invalid = Reason reason | Crash

record python_lib =
  pl_float_eq :: "json \<Rightarrow> json \<Rightarrow> bool"
  pl_float_int :: "string \<Rightarrow> int option" \<comment> \<open>\<open>None\<close> for \<open>NaN\<close> and the infinities\<close>
  pl_regex :: "string \<Rightarrow> (string \<Rightarrow> bool) option" \<comment> \<open>\<open>search\<close> of the compiled pattern\<close>

type_synonym check = "invalid + unit"

fun first_error :: "check list \<Rightarrow> check" where
  "first_error [] = Inr ()"
| "first_error (c # cs) = rbind c (\<lambda>_. first_error cs)"

fun matches_scalar :: "json \<Rightarrow> string \<Rightarrow> bool option" where
  "matches_scalar v t =
     (if t = ''object'' then Some (case v of JObj _ \<Rightarrow> True | _ \<Rightarrow> False)
      else if t = ''array'' then Some (case v of JList _ \<Rightarrow> True | _ \<Rightarrow> False)
      else if t = ''string'' then Some (case v of JStr _ \<Rightarrow> True | _ \<Rightarrow> False)
      else if t = ''number'' then Some (case v of JInt _ \<Rightarrow> True | JFloat _ \<Rightarrow> True | _ \<Rightarrow> False)
      else if t = ''integer'' then Some (case v of JInt _ \<Rightarrow> True | _ \<Rightarrow> False)
      else if t = ''boolean'' then Some (case v of JBool _ \<Rightarrow> True | _ \<Rightarrow> False)
      else if t = ''null'' then Some (v = JNull) else None)"

text \<open>\<open>any\<close> stops at the first match; a type it does not know raises when it is reached.\<close>

fun any_match :: "(invalid + bool) list \<Rightarrow> invalid + bool" where
  "any_match [] = Inr False"
| "any_match (r # rs) = rbind r (\<lambda>b. if b then Inr True else any_match rs)"

fun matches_type :: "json \<Rightarrow> json \<Rightarrow> invalid + bool" where
  "matches_type v (JList ts) = any_match (map (matches_type v) ts)"
| "matches_type v (JStr t) =
     (case matches_scalar v t of None \<Rightarrow> Inl (Reason (UnsupportedType (JStr t))) | Some b \<Rightarrow> Inr b)"
| "matches_type v t = Inl (Reason (UnsupportedType t))"

definition one_of :: "string \<Rightarrow> check list \<Rightarrow> check" where
  "one_of loc rs =
     (if Inl Crash \<in> set rs then Inl Crash
      else
        (let n = length (filter (\<lambda>r. r = Inr ()) rs)
         in if n = 0 then Inl (Reason (NoVariant loc (concat (map (\<lambda>r. case r of Inl (Reason e) \<Rightarrow> [e] | _ \<Rightarrow> []) rs))))
            else if n > 1 then Inl (Reason (ManyVariants loc n)) else Inr ()))"

definition check_const :: "python_lib \<Rightarrow> json \<Rightarrow> payload \<Rightarrow> string \<Rightarrow> check" where
  "check_const L v schema loc =
     (case dget schema ''const'' of
        Some c \<Rightarrow> if py_eq (pl_float_eq L) v c then Inr () else Inl (Reason (NotConst loc c)) | None \<Rightarrow> Inr ())"

text \<open>\<open>schema.get(k)\<close>, where an absent key and \<open>None\<close> are the same.\<close>

definition given :: "payload \<Rightarrow> string \<Rightarrow> json option" where
  "given schema k = (case dget schema k of Some JNull \<Rightarrow> None | x \<Rightarrow> x)"

definition check_type :: "json \<Rightarrow> payload \<Rightarrow> string \<Rightarrow> check" where
  "check_type v schema loc =
     (case given schema ''type'' of
        Some t \<Rightarrow> rbind (matches_type v t) (\<lambda>b. if b then Inr () else Inl (Reason (NotOfType loc t))) | None \<Rightarrow> Inr ())"

definition check_enum :: "python_lib \<Rightarrow> json \<Rightarrow> payload \<Rightarrow> string \<Rightarrow> check" where
  "check_enum L v schema loc =
     (case given schema ''enum'' of
        Some (JList vs) \<Rightarrow>
          if list_ex (py_eq (pl_float_eq L) v) vs then Inr () else Inl (Reason (NotInEnum loc vs))
      | Some _ \<Rightarrow> Inl (Reason (EnumNotArray loc)) | None \<Rightarrow> Inr ())"

definition python_int :: "python_lib \<Rightarrow> json \<Rightarrow> invalid + int" where
  "python_int L v =
     (case v of
        JInt i \<Rightarrow> Inr i | JBool b \<Rightarrow> Inr (of_bool b)
      | JStr s \<Rightarrow> (case int_text s of Some i \<Rightarrow> Inr i | None \<Rightarrow> Inl (Reason (MinLengthNotInt v)))
      | JFloat t \<Rightarrow>
          (case pl_float_int L t of
             Some i \<Rightarrow> Inr i | None \<Rightarrow> Inl (if t = ''NaN'' then Reason (MinLengthNotInt v) else Crash))
      | _ \<Rightarrow> Inl Crash)"

definition check_min_length :: "python_lib \<Rightarrow> json \<Rightarrow> payload \<Rightarrow> string \<Rightarrow> check" where
  "check_min_length L v schema loc =
     (case (dget schema ''minLength'', v) of
        (Some m, JStr s) \<Rightarrow>
          rbind (python_int L m) (\<lambda>n. if int (length s) < n then Inl (Reason (TooShort loc n)) else Inr ())
      | _ \<Rightarrow> Inr ())"

definition check_pattern :: "python_lib \<Rightarrow> json \<Rightarrow> payload \<Rightarrow> string \<Rightarrow> check" where
  "check_pattern L v schema loc =
     (case (given schema ''pattern'', v) of
        (Some (JStr p), JStr s) \<Rightarrow>
          (case pl_regex L p of
             None \<Rightarrow> Inl (Reason (PatternInvalid loc p))
           | Some found \<Rightarrow> if found s then Inr () else Inl (Reason (PatternMismatch loc p)))
      | (Some _, JStr s) \<Rightarrow> Inl (Reason (PatternNotString loc))
      | _ \<Rightarrow> Inr ())"

definition check_required :: "json \<Rightarrow> payload \<Rightarrow> string \<Rightarrow> check" where
  "check_required v schema loc =
     (case given schema ''required'' of
        Some (JList ks) \<Rightarrow>
          (case v of
             JObj d \<Rightarrow>
               first_error (map (\<lambda>k. case k of
                   JStr name \<Rightarrow> (case dget d name of None \<Rightarrow> Inl (Reason (MissingRequired loc name)) | Some _ \<Rightarrow> Inr ())
                 | _ \<Rightarrow> Inl (Reason (RequiredNonString loc))) ks)
           | _ \<Rightarrow> Inl (Reason (RequiredOnNonObject loc)))
      | Some _ \<Rightarrow> Inl (Reason (RequiredNotArray loc)) | None \<Rightarrow> Inr ())"

definition check_additional :: "json \<Rightarrow> payload \<Rightarrow> string \<Rightarrow> check" where
  "check_additional v schema loc =
     (case v of
        JObj d \<Rightarrow>
          if dget schema ''additionalProperties'' \<noteq> Some (JBool False) then Inr ()
          else
            (let allowed = (case given schema ''properties'' of Some (JObj ps) \<Rightarrow> map fst ps | _ \<Rightarrow> []);
                 extra = sorted_list_of_set (set (map fst d) - set allowed)
             in if extra = [] then Inr () else Inl (Reason (UnexpectedFields loc extra)))
      | _ \<Rightarrow> Inr ())"

definition item_loc :: "string \<Rightarrow> nat \<Rightarrow> string" where
  "item_loc loc i = loc @ ''['' @ nat_str i @ '']''"

function validate :: "python_lib \<Rightarrow> json \<Rightarrow> json \<Rightarrow> string \<Rightarrow> check" where
  "validate L v schema loc =
     (case schema of
        JObj s \<Rightarrow>
          rbind (case dget s ''oneOf'' of
                   None \<Rightarrow> Inr ()
                 | Some (JList bs) \<Rightarrow> one_of loc (map (\<lambda>b. validate L v b loc) bs)
                 | Some _ \<Rightarrow> Inl (Reason (OneOfNotArray loc))) (\<lambda>_.
          rbind (check_const L v s loc) (\<lambda>_.
          rbind (check_type v s loc) (\<lambda>_.
          rbind (check_enum L v s loc) (\<lambda>_.
          rbind (check_min_length L v s loc) (\<lambda>_.
          rbind (check_pattern L v s loc) (\<lambda>_.
          rbind (check_required v s loc) (\<lambda>_.
          rbind (case given s ''properties'' of
                   None \<Rightarrow> Inr ()
                 | Some (JObj ps) \<Rightarrow>
                     (case v of
                        JObj d \<Rightarrow>
                          first_error (map (\<lambda>(k, child).
                            case dget d k of None \<Rightarrow> Inr () | Some x \<Rightarrow> validate L x child (loc @ ''.'' @ k)) ps)
                      | _ \<Rightarrow> Inr ())
                 | Some _ \<Rightarrow> Inl (Reason (PropertiesNotObject loc))) (\<lambda>_.
          rbind (check_additional v s loc) (\<lambda>_.
          (case (given s ''items'', v) of
             (Some items, JList xs) \<Rightarrow>
               first_error (map (\<lambda>(i, x). validate L x items (item_loc loc i)) (enumerate 0 xs))
           | _ \<Rightarrow> Inr ()))))))))))
      | _ \<Rightarrow> Inl (Reason (SchemaNotObject loc)))"
  by pat_completeness auto

lemma given_size: "given d k = Some v \<Longrightarrow> size v < size (JObj d)"
  by (auto simp: given_def split: option.splits json.splits dest: dget_size)

lemma branch_size: "b \<in> set bs \<Longrightarrow> dget s k = Some (JList bs) \<Longrightarrow> size b < size (JObj s)"
  by (rule less_trans [OF _ dget_size]) (auto simp: less_Suc_eq_le size_list_estimation')

lemma child_size: "(k, c) \<in> set ps \<Longrightarrow> given s n = Some (JObj ps) \<Longrightarrow> size c < size (JObj s)"
  by (rule less_trans [OF pair_size given_size])

termination validate
  by (relation "measure (\<lambda>(L, v, schema, loc). size schema)")
    (auto dest: branch_size child_size given_size [OF sym] simp del: json.size)

declare validate.simps [simp del]

definition validate_result_payload :: "python_lib \<Rightarrow> json \<Rightarrow> json \<Rightarrow> check" where
  "validate_result_payload L v schema = validate L v schema ''result''"

section \<open>Validation ignores the order of keys\<close>

lemma is_number_sorted [simp]: "is_number (sort_keys v) = is_number v" "whole (sort_keys v) = whole v"
  by (cases v; simp add: is_number_def whole_def)+

lemma dget_sorted:
  assumes "distinct (map fst d)"
  shows "dget (sort_key fst (map (map_prod id sort_keys) d)) k = map_option sort_keys (dget d k)"
proof -
  let ?e = "map (map_prod id sort_keys) d"
  have e: "distinct (map fst ?e)" using assms by (simp add: comp_def)
  moreover have "distinct (map fst (sort_key fst ?e))"
    using e by (simp only: distinct_sort_key)
  ultimately have "map_of (sort_key fst ?e) = map_of ?e"
    using map_of_inject_set [of "sort_key fst ?e" ?e] by simp
  moreover have "map_of ?e k = map_option sort_keys (dget d k)"
    by (induction d) auto
  ultimately show ?thesis by simp
qed

lemma py_eq_sorted: "plain v \<Longrightarrow> py_eq feq (sort_keys v) b = py_eq feq v b"
proof (induction feq v b rule: py_eq.induct)
  case (3 feq xs ys)
  have "py_eq feq (sort_keys x) y = py_eq feq x y" if "(x, y) \<in> set (zip xs ys)" for x y
    using "3.IH" [OF that refl] "3.prems" that by (auto simp: list_all_iff dest: set_zip_leftD)
  then show ?case
    by (auto simp: list_all_iff zip_map1)
next
  case (4 feq d e)
  have "(case dget e k of None \<Rightarrow> False | Some w \<Rightarrow> py_eq feq (sort_keys x) w) =
      (case dget e k of None \<Rightarrow> False | Some w \<Rightarrow> py_eq feq x w)" if "(k, x) \<in> set d" for k x
    using "4.IH" [OF that refl] "4.prems" that by (auto simp: list_all_iff split: option.split)
  then show ?case
    by (auto simp: list_all_iff split: prod.splits)
qed (simp_all add: number_eq_def whole_def is_number_def)

lemma sorted_shape:
  "(sort_keys v = JNull) = (v = JNull)" "(JNull = sort_keys v) = (v = JNull)"
  by (cases v; simp)+

lemma matches_scalar_sorted: "matches_scalar (sort_keys v) t = matches_scalar v t"
  by (cases v) auto

lemma matches_type_sorted: "matches_type (sort_keys v) t = matches_type v t"
proof (induction t)
  case (JList ts)
  then have "map (matches_type (sort_keys v)) ts = map (matches_type v) ts" by simp
  then show ?case by (simp only: matches_type.simps)
qed (simp_all add: matches_scalar_sorted del: matches_scalar.simps)

lemma checks_sorted:
  assumes "plain v"
  shows "check_const L (sort_keys v) s loc = check_const L v s loc" 
    and "check_type (sort_keys v) s loc = check_type v s loc"
    and "check_enum L (sort_keys v) s loc = check_enum L v s loc"
    and "check_min_length L (sort_keys v) s loc = check_min_length L v s loc"
    and "check_pattern L (sort_keys v) s loc = check_pattern L v s loc"
    and "check_required (sort_keys v) s loc = check_required v s loc"
    and "check_additional (sort_keys v) s loc = check_additional v s loc"
proof -
  show "check_const L (sort_keys v) s loc = check_const L v s loc"
    by (simp add: check_const_def py_eq_sorted [OF assms] split: option.split)
  show "check_type (sort_keys v) s loc = check_type v s loc"
    by (simp add: check_type_def matches_type_sorted split: option.split)
  show "check_enum L (sort_keys v) s loc = check_enum L v s loc"
    using py_eq_sorted [OF assms] by (auto simp: check_enum_def list_ex_iff split: option.splits json.splits)
  show "check_min_length L (sort_keys v) s loc = check_min_length L v s loc"
    by (cases v) (simp_all add: check_min_length_def split: option.split)
  show "check_pattern L (sort_keys v) s loc = check_pattern L v s loc"
    by (cases v) (simp_all add: check_pattern_def split: option.split json.split)
  show "check_required (sort_keys v) s loc = check_required v s loc"
  proof (cases v)
    case (JObj d)
    have same: "(case dget (sort_key fst (map (map_prod id sort_keys) d)) name of None \<Rightarrow> a | Some _ \<Rightarrow> b) =
        (case dget d name of None \<Rightarrow> a | Some _ \<Rightarrow> b)" for name and a b :: check
      using assms JObj by (simp add: dget_sorted split: option.split)
    show ?thesis by (simp only: JObj check_required_def json.simps sort_keys.simps same)
  qed (simp_all only: check_required_def json.simps sort_keys.simps)
  show "check_additional (sort_keys v) s loc = check_additional v s loc"
  proof (cases v)
    case (JObj d)
    have "set (dkeys (sort_key fst (map (map_prod id sort_keys) d))) = set (dkeys d)"
      by (simp add: image_image)
    then show ?thesis by (simp only: JObj check_additional_def json.simps sort_keys.simps)
  qed (simp_all only: check_additional_def json.simps sort_keys.simps)
qed

lemma plain_member: "plain (JObj d) \<Longrightarrow> dget d k = Some x \<Longrightarrow> plain x"
  by (auto simp: list_all_iff dest: map_of_SomeD)

lemma validate_sorted: "plain v \<Longrightarrow> validate L (sort_keys v) schema loc = validate L v schema loc"
proof (induction "size schema" arbitrary: v schema loc rule: less_induct)
  case less
  show ?case
  proof (cases schema)
    case (JObj s)
    have B1: "(case dget s ''oneOf'' of
          None \<Rightarrow> Inr ()
        | Some (JList bs) \<Rightarrow> one_of loc (map (\<lambda>b. validate L (sort_keys v) b loc) bs)
        | Some _ \<Rightarrow> Inl (Reason (OneOfNotArray loc))) =
       (case dget s ''oneOf'' of
          None \<Rightarrow> Inr ()
        | Some (JList bs) \<Rightarrow> one_of loc (map (\<lambda>b. validate L v b loc) bs)
        | Some _ \<Rightarrow> Inl (Reason (OneOfNotArray loc)))"
    proof (cases "\<exists>bs. dget s ''oneOf'' = Some (JList bs)")
      case True
      then obtain bs where bs: "dget s ''oneOf'' = Some (JList bs)" ..
      have m: "map (\<lambda>b. validate L (sort_keys v) b loc) bs = map (\<lambda>b. validate L v b loc) bs"
        using less branch_size [OF _ bs] JObj by (auto simp del: json.size)
      show ?thesis by (simp only: bs option.simps json.simps m)
    qed (auto split: option.splits json.splits)
    have B2: "(case given s ''properties'' of
          None \<Rightarrow> Inr ()
        | Some (JObj ps) \<Rightarrow>
            (case sort_keys v of
               JObj d \<Rightarrow>
                 first_error (map (\<lambda>(k, child).
                   case dget d k of None \<Rightarrow> Inr () | Some x \<Rightarrow> validate L x child (loc @ ''.'' @ k)) ps)
             | _ \<Rightarrow> Inr ())
        | Some _ \<Rightarrow> Inl (Reason (PropertiesNotObject loc))) =
       (case given s ''properties'' of
          None \<Rightarrow> Inr ()
        | Some (JObj ps) \<Rightarrow>
            (case v of
               JObj d \<Rightarrow>
                 first_error (map (\<lambda>(k, child).
                   case dget d k of None \<Rightarrow> Inr () | Some x \<Rightarrow> validate L x child (loc @ ''.'' @ k)) ps)
             | _ \<Rightarrow> Inr ())
        | Some _ \<Rightarrow> Inl (Reason (PropertiesNotObject loc)))"
    proof (cases "\<exists>ps d. given s ''properties'' = Some (JObj ps) \<and> v = JObj d")
      case True
      then obtain ps d where ps: "given s ''properties'' = Some (JObj ps)" "v = JObj d" by blast
      then have d: "distinct (map fst d)" using less by simp
      have m: "map (\<lambda>(k, child). case dget (sort_key fst (map (map_prod id sort_keys) d)) k of None \<Rightarrow> Inr ()
              | Some x \<Rightarrow> validate L x child (loc @ ''.'' @ k)) ps =
          map (\<lambda>(k, child). case dget d k of None \<Rightarrow> Inr () | Some x \<Rightarrow> validate L x child (loc @ ''.'' @ k)) ps"
        unfolding dget_sorted [OF d]
        using less child_size [OF _ ps(1)] ps(2) JObj plain_member [of d]
        by (auto simp del: json.size plain.simps split: option.split)
      show ?thesis by (simp only: ps option.simps json.simps sort_keys.simps m)
    qed (cases v; auto split: option.splits json.splits)
    have B3: "(case (given s ''items'', sort_keys v) of
          (Some items, JList xs) \<Rightarrow>
            first_error (map (\<lambda>(i, x). validate L x items (item_loc loc i)) (enumerate 0 xs))
        | _ \<Rightarrow> Inr ()) =
       (case (given s ''items'', v) of
          (Some items, JList xs) \<Rightarrow>
            first_error (map (\<lambda>(i, x). validate L x items (item_loc loc i)) (enumerate 0 xs))
        | _ \<Rightarrow> Inr ())"
    proof (cases "\<exists>items xs. given s ''items'' = Some items \<and> v = JList xs")
      case True
      then obtain items xs where items: "given s ''items'' = Some items" "v = JList xs" by blast
      have "map (\<lambda>(i, x). validate L x items (item_loc loc i)) (enumerate n (map sort_keys ys)) =
          map (\<lambda>(i, x). validate L x items (item_loc loc i)) (enumerate n ys)" if "list_all plain ys" for n ys
        using that less given_size [OF items(1)] JObj by (induction ys arbitrary: n) (auto simp del: json.size)
      from this [of xs 0] less.prems items show ?thesis by simp
    qed (cases v; auto split: option.splits)
    have "validate L (sort_keys v) (JObj s) loc = validate L v (JObj s) loc"
      by (simp only: validate.simps [of L _ "JObj s"] json.simps checks_sorted [OF less.prems] B1 B2 B3)
    then show ?thesis by (simp only: JObj)
  qed (simp_all add: validate.simps)
qed

text \<open>
  Whether a result is accepted, and the reason when it is not, does not depend on the order of
  the keys of its objects, at any depth.
\<close>

theorem validation_ignores_key_order:
  assumes "plain v" and "plain w" and "sort_keys v = sort_keys w"
  shows "validate_result_payload L v schema = validate_result_payload L w schema"
  using validate_sorted [OF assms(1), of L schema "''result''"] validate_sorted [OF assms(2), of L schema "''result''"] assms(3)
  by (simp add: validate_result_payload_def)

definition demo_lib :: python_lib where
  "demo_lib = \<lparr>pl_float_eq = (\<lambda>a b. a = b), pl_float_int = (\<lambda>t. None), pl_regex = (\<lambda>p. None)\<rparr>"

theorem validation_ignores_key_order_witness:
  "validate_result_payload demo_lib (JObj [(''b'', JInt 1), (''a'', JNull)]) (JObj [(''required'', JList [JStr ''c''])]) =
   validate_result_payload demo_lib (JObj [(''a'', JNull), (''b'', JInt 1)]) (JObj [(''required'', JList [JStr ''c''])])"
proof (rule validation_ignores_key_order)
  show "sort_keys (JObj [(''b'', JInt 1), (''a'', JNull)]) = sort_keys (JObj [(''a'', JNull), (''b'', JInt 1)])"
    by code_simp
qed simp_all

section \<open>What an accepted result satisfies\<close>

lemma first_error_ok: "first_error cs = Inr () \<longleftrightarrow> (\<forall>c \<in> set cs. c = Inr ())"
proof (induction cs)
  case (Cons c cs)
  then show ?case by (cases c) auto
qed simp

lemma one_of_ok: "one_of loc rs = Inr () \<longleftrightarrow> Inl Crash \<notin> set rs \<and> length (filter (\<lambda>r. r = Inr ()) rs) = 1"
  by (cases "filter (\<lambda>r. r = Inr ()) rs") (auto simp: one_of_def Let_def)

lemma dget_key: "dget d k = Some x \<Longrightarrow> k \<in> fst ` set d"
  by (metis domI dom_map_of_conv_image_fst)

lemma validate_parts:
  assumes "validate L v (JObj s) loc = Inr ()"
  shows "check_const L v s loc = Inr ()" "check_type v s loc = Inr ()" "check_enum L v s loc = Inr ()"
    "check_required v s loc = Inr ()" "check_additional v s loc = Inr ()"
    and "dget s ''oneOf'' = Some (JList bs) \<Longrightarrow> one_of loc (map (\<lambda>b. validate L v b loc) bs) = Inr ()"
    and "given s ''properties'' = Some (JObj ps) \<Longrightarrow> v = JObj d \<Longrightarrow>
      first_error (map (\<lambda>(k, child). case dget d k of None \<Rightarrow> Inr () | Some x \<Rightarrow> validate L x child (loc @ ''.'' @ k)) ps) = Inr ()"
    and "given s ''items'' = Some items \<Longrightarrow> v = JList xs \<Longrightarrow>
      first_error (map (\<lambda>(i, x). validate L x items (item_loc loc i)) (enumerate 0 xs)) = Inr ()"
  using assms unfolding validate.simps [of L v "JObj s"] by (simp_all add: rbind_eq_Inr)

text \<open>
  C18: An accepted result conforms to its schema. For an object schema: exactly one \<open>oneOf\<close> branch
  accepts it and it equals a \<open>const\<close>; it is an object holding every required field; every declared
  property it holds is accepted by the property's schema, and with \<open>additionalProperties: false\<close> it
  holds no other; and every item of an array is accepted by \<open>items\<close>.
\<close>

theorem accepted_results_conform:
  assumes "validate L v (JObj s) loc = Inr ()"
  shows "(\<forall>bs. dget s ''oneOf'' = Some (JList bs) \<longrightarrow> length (filter (\<lambda>b. validate L v b loc = Inr ()) bs) = 1) \<and>
    (\<forall>c. dget s ''const'' = Some c \<longrightarrow> py_eq (pl_float_eq L) v c) \<and>
    (\<forall>ks. given s ''required'' = Some (JList ks) \<longrightarrow>
       (\<exists>d. v = JObj d \<and> (\<forall>k \<in> set ks. \<exists>name. k = JStr name \<and> name \<in> set (map fst d)))) \<and>
    (\<forall>ps d k c x. given s ''properties'' = Some (JObj ps) \<longrightarrow> v = JObj d \<longrightarrow> (k, c) \<in> set ps \<longrightarrow> dget d k = Some x \<longrightarrow>
       validate L x c (loc @ ''.'' @ k) = Inr ()) \<and>
    (\<forall>ps d. dget s ''additionalProperties'' = Some (JBool False) \<longrightarrow> given s ''properties'' = Some (JObj ps) \<longrightarrow>
       v = JObj d \<longrightarrow> set (map fst d) \<subseteq> set (map fst ps)) \<and>
    (\<forall>items xs i. given s ''items'' = Some items \<longrightarrow> v = JList xs \<longrightarrow> i < length xs \<longrightarrow>
       validate L (xs ! i) items (item_loc loc i) = Inr ())"
proof (intro conjI allI impI)
  fix bs assume "dget s ''oneOf'' = Some (JList bs)"
  from validate_parts(6) [OF assms this] show "length (filter (\<lambda>b. validate L v b loc = Inr ()) bs) = 1"
    by (simp add: one_of_ok filter_map comp_def)
next
  fix c assume "dget s ''const'' = Some c"
  with validate_parts(1) [OF assms] show "py_eq (pl_float_eq L) v c"
    by (simp add: check_const_def split: if_splits)
next
  fix ks assume ks: "given s ''required'' = Some (JList ks)"
  with validate_parts(4) [OF assms] obtain d where d: "v = JObj d"
    by (cases v) (auto simp: check_required_def)
  have "\<exists>name. k = JStr name \<and> name \<in> set (map fst d)" if "k \<in> set ks" for k
    using validate_parts(4) [OF assms] that ks d
    by (cases k) (auto simp: check_required_def first_error_ok split: option.splits dest!: bspec [of _ _ k] dget_key)
  with d show "\<exists>d. v = JObj d \<and> (\<forall>k \<in> set ks. \<exists>name. k = JStr name \<and> name \<in> set (map fst d))" by blast
next
  fix ps d k c x
  assume p: "given s ''properties'' = Some (JObj ps)" "v = JObj d" and m: "(k, c) \<in> set ps" "dget d k = Some x"
  from validate_parts(7) [OF assms p] m show "validate L x c (loc @ ''.'' @ k) = Inr ()"
    by (auto simp: first_error_ok dest!: bspec [of _ _ "(k, c)"])
next
  fix ps d
  assume "dget s ''additionalProperties'' = Some (JBool False)" "given s ''properties'' = Some (JObj ps)" "v = JObj d"
  with validate_parts(5) [OF assms] show "set (map fst d) \<subseteq> set (map fst ps)"
    by (auto simp: check_additional_def Let_def split: if_splits)
next
  fix items xs i
  assume p: "given s ''items'' = Some items" "v = JList xs" and i: "i < length xs"
  from validate_parts(8) [OF assms p] i show "validate L (xs ! i) items (item_loc loc i) = Inr ()"
    by (auto simp: first_error_ok in_set_enumerate_eq dest!: bspec [of _ _ "(i, xs ! i)"])
qed

definition demo_schema :: payload where
  "demo_schema =
     [(''required'', JList [JStr ''ok'']), (''additionalProperties'', JBool False),
      (''properties'', JObj [(''ok'', JObj [(''type'', JStr ''boolean'')])])]"

theorem accepted_results_conform_witness:
  "(\<exists>d. JObj [(''ok'', JBool True)] = JObj d \<and> ''ok'' \<in> set (map fst d)) \<and>
   validate demo_lib (JBool True) (JObj [(''type'', JStr ''boolean'')]) ''result.ok'' = Inr ()"
proof -
  have "validate demo_lib (JObj [(''ok'', JBool True)]) (JObj demo_schema) ''result'' = Inr ()"
    by (simp add: validate.simps demo_schema_def check_const_def check_type_def check_enum_def check_min_length_def
        check_pattern_def check_required_def check_additional_def given_def)
  from accepted_results_conform [OF this] show ?thesis
    by (simp add: demo_schema_def given_def)
qed

end
