(* ===== verification/Journal.thy ===== *)
theory Journal
  imports Result_Schema
begin

text \<open>
  The append-only JSONL journals of a conductor run (\<open>doeff_conductor/journal.py\<close> and the entry and
  journal classes of \<open>workflow_effect_journal.py\<close>): a journal is the text of its file, absent
  before the first append; an entry is one printed JSON object per line. Reading refuses a
  corrupted file with the error and the line the code reports (the path is the journal's own and
  is left out). A value stored in an entry is a JSON value.
\<close>

section \<open>Errors and lines\<close>

datatype (plugins only: code size) journal_error =
    InvalidJson nat | NotAnObject nat | UnsupportedVersion nat int
  | MissingField nat string | NotAString nat string | NotAStringOrNull nat string | NotAnObjectField nat string
  | NotAnInteger nat string | NegativeField nat string
  | BlankLine nat | DuplicateEntry int int | NonContiguous int int nat
  | KeyMismatch int | FingerprintMismatch int | EffectKindMismatch int | NodeMismatch int
  | UnsupportedTerminal int | InvalidArtifact int reason

text \<open>\<open>str.splitlines\<close> on Latin-1 text; \<open>acc\<close> is the line read so far.\<close>

definition line_break :: "char \<Rightarrow> bool" where
  "line_break c \<longleftrightarrow> code c \<in> {10, 11, 12, 13, 28, 29, 30, 133}"

fun lines_from :: "string \<Rightarrow> string \<Rightarrow> string list" where
  "lines_from acc [] = (if acc = [] then [] else [acc])"
| "lines_from acc (c # s) =
     (if line_break c
      then acc # lines_from [] (if code c = 13 \<and> s \<noteq> [] \<and> code (hd s) = 10 then tl s else s)
      else lines_from (acc @ [c]) s)"

definition splitlines :: "string \<Rightarrow> string list" where
  "splitlines s = lines_from [] s"

section \<open>Fields\<close>

definition require_field :: "payload \<Rightarrow> string \<Rightarrow> nat \<Rightarrow> journal_error + json" where
  "require_field p name n = (case dget p name of None \<Rightarrow> Inl (MissingField n name) | Some v \<Rightarrow> Inr v)"

definition require_str :: "payload \<Rightarrow> string \<Rightarrow> nat \<Rightarrow> journal_error + string" where
  "require_str p name n =
     rbind (require_field p name n) (\<lambda>v. case v of JStr s \<Rightarrow> Inr s | _ \<Rightarrow> Inl (NotAString n name))"

definition optional_str :: "payload \<Rightarrow> string \<Rightarrow> nat \<Rightarrow> journal_error + string option" where
  "optional_str p name n =
     rbind (require_field p name n)
       (\<lambda>v. case v of JNull \<Rightarrow> Inr None | JStr s \<Rightarrow> Inr (Some s) | _ \<Rightarrow> Inl (NotAStringOrNull n name))"

definition optional_dict :: "payload \<Rightarrow> string \<Rightarrow> nat \<Rightarrow> journal_error + payload" where
  "optional_dict p name n =
     (case dget p name of
        None \<Rightarrow> Inr []
      | Some v \<Rightarrow> (case v of JObj d \<Rightarrow> Inr d | _ \<Rightarrow> Inl (NotAnObjectField n name)))"

definition require_int :: "payload \<Rightarrow> string \<Rightarrow> nat \<Rightarrow> journal_error + int" where
  "require_int p name n =
     rbind (require_field p name n)
       (\<lambda>v. case v of JInt i \<Rightarrow> if i < 0 then Inl (NegativeField n name) else Inr i | _ \<Rightarrow> Inl (NotAnInteger n name))"

text \<open>The head of every \<open>from_json_line\<close>: parse, require an object and version 1.\<close>

definition read_payload :: "nat \<Rightarrow> string \<Rightarrow> journal_error + payload" where
  "read_payload n line =
     (case loads line of
        None \<Rightarrow> Inl (InvalidJson n)
      | Some (JObj p) \<Rightarrow>
          rbind (require_int p ''version'' n) (\<lambda>v. if v \<noteq> 1 then Inl (UnsupportedVersion n v) else Inr p)
      | Some _ \<Rightarrow> Inl (NotAnObject n))"

definition json_opt :: "string option \<Rightarrow> json" where
  "json_opt x = (case x of None \<Rightarrow> JNull | Some s \<Rightarrow> JStr s)"

section \<open>Entries\<close>

record agent_entry =
  ae_generation :: int
  ae_index :: int
  ae_key :: string
  ae_fingerprint :: string
  ae_node :: string
  ae_artifact :: json
  ae_terminal :: string

definition agent_payload :: "agent_entry \<Rightarrow> payload" where
  "agent_payload e =
     [(''version'', JInt 1), (''generation'', JInt (ae_generation e)), (''entry_index'', JInt (ae_index e)),
      (''cache_key'', JStr (ae_key e)), (''resolved_identity_fingerprint'', JStr (ae_fingerprint e)),
      (''node_identity'', JStr (ae_node e)), (''result_artifact'', ae_artifact e),
      (''terminal_kind'', JStr (ae_terminal e))]"

definition agent_to_line :: "agent_entry \<Rightarrow> string" where
  "agent_to_line e = dumps (JObj (agent_payload e))"

definition agent_from_line :: "nat \<Rightarrow> string \<Rightarrow> journal_error + agent_entry" where
  "agent_from_line n line =
     rbind (read_payload n line) (\<lambda>p.
     rbind (require_int p ''generation'' n) (\<lambda>g.
     rbind (require_int p ''entry_index'' n) (\<lambda>i.
     rbind (require_str p ''cache_key'' n) (\<lambda>k.
     rbind (require_str p ''resolved_identity_fingerprint'' n) (\<lambda>f.
     rbind (require_str p ''node_identity'' n) (\<lambda>d.
     rbind (require_field p ''result_artifact'' n) (\<lambda>a.
     rbind (require_str p ''terminal_kind'' n) (\<lambda>t.
     Inr \<lparr>ae_generation = g, ae_index = i, ae_key = k, ae_fingerprint = f, ae_node = d, ae_artifact = a,
          ae_terminal = t\<rparr>))))))))"

record effect_entry =
  ee_generation :: int
  ee_index :: int
  ee_key :: string
  ee_kind :: string
  ee_node :: string
  ee_value :: json
  ee_terminal :: string

definition effect_payload :: "effect_entry \<Rightarrow> payload" where
  "effect_payload e =
     [(''version'', JInt 1), (''generation'', JInt (ee_generation e)), (''entry_index'', JInt (ee_index e)),
      (''cache_key'', JStr (ee_key e)), (''effect_kind'', JStr (ee_kind e)), (''node_id'', JStr (ee_node e)),
      (''value'', ee_value e), (''terminal_kind'', JStr (ee_terminal e))]"

definition effect_to_line :: "effect_entry \<Rightarrow> string" where
  "effect_to_line e = dumps (JObj (effect_payload e))"

definition effect_from_line :: "nat \<Rightarrow> string \<Rightarrow> journal_error + effect_entry" where
  "effect_from_line n line =
     rbind (read_payload n line) (\<lambda>p.
     rbind (require_int p ''generation'' n) (\<lambda>g.
     rbind (require_int p ''entry_index'' n) (\<lambda>i.
     rbind (require_str p ''cache_key'' n) (\<lambda>k.
     rbind (require_str p ''effect_kind'' n) (\<lambda>f.
     rbind (require_str p ''node_id'' n) (\<lambda>d.
     rbind (require_field p ''value'' n) (\<lambda>v.
     rbind (require_str p ''terminal_kind'' n) (\<lambda>t.
     Inr \<lparr>ee_generation = g, ee_index = i, ee_key = k, ee_kind = f, ee_node = d, ee_value = v,
          ee_terminal = t\<rparr>))))))))"

record gate_answer =
  ga_gate :: string
  ga_workflow :: string
  ga_option :: string
  ga_outcome :: string
  ga_note :: string
  ga_at :: string
  ga_reason :: string
  ga_stakes :: payload
  ga_terminal :: string

definition answer_payload :: "gate_answer \<Rightarrow> payload" where
  "answer_payload e =
     [(''version'', JInt 1), (''gate_id'', JStr (ga_gate e)), (''workflow_id'', JStr (ga_workflow e)),
      (''option'', JStr (ga_option e)), (''outcome'', JStr (ga_outcome e)), (''note'', JStr (ga_note e)),
      (''answered_at'', JStr (ga_at e)), (''gate_reason'', JStr (ga_reason e)),
      (''gate_stakes'', JObj (ga_stakes e)), (''terminal_kind'', JStr (ga_terminal e))]"

definition answer_to_line :: "gate_answer \<Rightarrow> string" where
  "answer_to_line e = dumps (JObj (answer_payload e))"

text \<open>\<open>gate_reason\<close> goes through \<open>str()\<close>, here \<open>sr\<close> on what is not a string.\<close>

definition answer_from_line :: "(json \<Rightarrow> string) \<Rightarrow> nat \<Rightarrow> string \<Rightarrow> journal_error + gate_answer" where
  "answer_from_line sr n line =
     rbind (read_payload n line) (\<lambda>p.
     rbind (require_str p ''gate_id'' n) (\<lambda>g.
     rbind (require_str p ''workflow_id'' n) (\<lambda>w.
     rbind (require_str p ''option'' n) (\<lambda>opt.
     rbind (require_str p ''outcome'' n) (\<lambda>out.
     rbind (require_str p ''note'' n) (\<lambda>note.
     rbind (require_str p ''answered_at'' n) (\<lambda>ans.
     rbind (optional_dict p ''gate_stakes'' n) (\<lambda>st.
     rbind (require_str p ''terminal_kind'' n) (\<lambda>t.
     Inr \<lparr>ga_gate = g, ga_workflow = w, ga_option = opt, ga_outcome = out, ga_note = note, ga_at = ans,
          ga_reason = (case dget p ''gate_reason'' of None \<Rightarrow> [] | Some (JStr s) \<Rightarrow> s | Some v \<Rightarrow> sr v),
          ga_stakes = st, ga_terminal = t\<rparr>)))))))))"

record workspace_entry =
  we_id :: string
  we_repo :: string
  we_branch :: string
  we_path :: string
  we_base :: string
  we_issue :: "string option"
  we_at :: string
  we_terminal :: string

definition workspace_payload :: "workspace_entry \<Rightarrow> payload" where
  "workspace_payload e =
     [(''version'', JInt 1), (''workspace_id'', JStr (we_id e)), (''repo'', JStr (we_repo e)),
      (''branch'', JStr (we_branch e)), (''worktree_path'', JStr (we_path e)), (''base_ref'', JStr (we_base e)),
      (''issue_id'', json_opt (we_issue e)), (''created_at'', JStr (we_at e)),
      (''terminal_kind'', JStr (we_terminal e))]"

definition workspace_to_line :: "workspace_entry \<Rightarrow> string" where
  "workspace_to_line e = dumps (JObj (workspace_payload e))"

definition workspace_from_line :: "nat \<Rightarrow> string \<Rightarrow> journal_error + workspace_entry" where
  "workspace_from_line n line =
     rbind (read_payload n line) (\<lambda>p.
     rbind (require_str p ''workspace_id'' n) (\<lambda>w.
     rbind (require_str p ''repo'' n) (\<lambda>r.
     rbind (require_str p ''branch'' n) (\<lambda>b.
     rbind (require_str p ''worktree_path'' n) (\<lambda>wp.
     rbind (require_str p ''base_ref'' n) (\<lambda>base.
     rbind (optional_str p ''issue_id'' n) (\<lambda>issue.
     rbind (require_str p ''created_at'' n) (\<lambda>c.
     rbind (require_str p ''terminal_kind'' n) (\<lambda>t.
     Inr \<lparr>we_id = w, we_repo = r, we_branch = b, we_path = wp, we_base = base, we_issue = issue, we_at = c,
          we_terminal = t\<rparr>)))))))))"

record progress_entry =
  pe_node_id :: string
  pe_node_identity :: string
  pe_session_key :: string
  pe_session :: string
  pe_attempt :: int
  pe_phase :: "string option"
  pe_status :: string
  pe_terminal :: "string option"
  pe_at :: string

definition progress_payload :: "progress_entry \<Rightarrow> payload" where
  "progress_payload e =
     [(''version'', JInt 1), (''node_id'', JStr (pe_node_id e)), (''node_identity'', JStr (pe_node_identity e)),
      (''session_node_key'', JStr (pe_session_key e)), (''session_id'', JStr (pe_session e)),
      (''attempt'', JInt (pe_attempt e)), (''phase'', json_opt (pe_phase e)), (''status'', JStr (pe_status e)),
      (''terminal_kind'', json_opt (pe_terminal e)), (''at'', JStr (pe_at e))]"

definition progress_to_line :: "progress_entry \<Rightarrow> string" where
  "progress_to_line e = dumps (JObj (progress_payload e))"

definition str_field :: "(json \<Rightarrow> string) \<Rightarrow> payload \<Rightarrow> string \<Rightarrow> string" where
  "str_field sr p name = (case dget p name of None \<Rightarrow> [] | Some v \<Rightarrow> json_str sr v)"

definition opt_field :: "(json \<Rightarrow> string) \<Rightarrow> payload \<Rightarrow> string \<Rightarrow> string option" where
  "opt_field sr p name = (case dget p name of None \<Rightarrow> None | Some JNull \<Rightarrow> None | Some v \<Rightarrow> Some (json_str sr v))"

definition progress_from_line ::
    "(json \<Rightarrow> string) \<Rightarrow> (string \<Rightarrow> int option) \<Rightarrow> string \<Rightarrow> progress_entry option" where
  "progress_from_line sr fi line =
     (case loads line of
        Some (JObj p) \<Rightarrow>
          (case (dget p ''node_id'', dget p ''status'',
                 json_int fi (case dget p ''attempt'' of None \<Rightarrow> JInt 0 | Some v \<Rightarrow> v)) of
             (Some node, Some status, Some attempt) \<Rightarrow>
               Some \<lparr>pe_node_id = json_str sr node, pe_node_identity = str_field sr p ''node_identity'',
                     pe_session_key = str_field sr p ''session_node_key'', pe_session = str_field sr p ''session_id'',
                     pe_attempt = attempt, pe_phase = opt_field sr p ''phase'', pe_status = json_str sr status,
                     pe_terminal = opt_field sr p ''terminal_kind'', pe_at = str_field sr p ''at''\<rparr>
           | _ \<Rightarrow> None)
      | _ \<Rightarrow> None)"

section \<open>Files\<close>

type_synonym journal_file = "string option"

definition append_line :: "string \<Rightarrow> journal_file \<Rightarrow> journal_file" where
  "append_line line f = Some ((case f of None \<Rightarrow> [] | Some t \<Rightarrow> t) @ line @ [CHR 0x0A])"

definition file_lines :: "journal_file \<Rightarrow> string list" where
  "file_lines f = (case f of None \<Rightarrow> [] | Some t \<Rightarrow> splitlines t)"

fun parse_lines ::
    "(nat \<Rightarrow> string \<Rightarrow> journal_error + 'e) \<Rightarrow> nat \<Rightarrow> string list \<Rightarrow> journal_error + 'e list" where
  "parse_lines from_line n [] = Inr []"
| "parse_lines from_line n (l # ls) =
     (if l = [] then Inl (BlankLine n)
      else rbind (from_line n l) (\<lambda>e. rbind (parse_lines from_line (Suc n) ls) (\<lambda>es. Inr (e # es))))"

fun validate_entry_sequence :: "(int \<times> int) list \<Rightarrow> (int \<times> int) list \<Rightarrow> journal_error + unit" where
  "validate_entry_sequence seen [] = Inr ()"
| "validate_entry_sequence seen (k # ks) =
     (if k \<in> set seen then Inl (DuplicateEntry (fst k) (snd k)) else validate_entry_sequence (k # seen) ks)"

fun validate_contiguous_generation :: "nat \<Rightarrow> (int \<times> int) list \<Rightarrow> journal_error + unit" where
  "validate_contiguous_generation expected [] = Inr ()"
| "validate_contiguous_generation expected ((g, i) # ks) =
     (if i \<noteq> int expected then Inl (NonContiguous g i expected)
      else validate_contiguous_generation (Suc expected) ks)"

text \<open>The entries of the highest generation, by index; \<open>key\<close> gives an entry's generation and index.\<close>

definition latest_generation :: "('e \<Rightarrow> int \<times> int) \<Rightarrow> 'e list \<Rightarrow> journal_error + 'e list" where
  "latest_generation key entries =
     (if entries = [] then Inr []
      else
        (let g = Max (fst ` set (map key entries));
             latest = sort_key (snd \<circ> key) (filter (\<lambda>e. fst (key e) = g) entries)
         in rbind (validate_contiguous_generation 0 (map key latest)) (\<lambda>_. Inr latest)))"

definition agent_key :: "agent_entry \<Rightarrow> int \<times> int" where
  "agent_key e = (ae_generation e, ae_index e)"

definition agent_load_entries :: "journal_file \<Rightarrow> journal_error + agent_entry list" where
  "agent_load_entries f =
     rbind (parse_lines agent_from_line 1 (file_lines f)) (\<lambda>es.
     rbind (validate_entry_sequence [] (map agent_key es)) (\<lambda>_. Inr es))"

definition agent_latest_entries :: "journal_file \<Rightarrow> journal_error + agent_entry list" where
  "agent_latest_entries f = rbind (agent_load_entries f) (latest_generation agent_key)"

definition agent_append :: "agent_entry \<Rightarrow> journal_file \<Rightarrow> journal_file" where
  "agent_append e f = append_line (agent_to_line e) f"

definition effect_key :: "effect_entry \<Rightarrow> int \<times> int" where
  "effect_key e = (ee_generation e, ee_index e)"

definition effect_load_entries :: "journal_file \<Rightarrow> journal_error + effect_entry list" where
  "effect_load_entries f =
     rbind (parse_lines effect_from_line 1 (file_lines f)) (\<lambda>es.
     rbind (validate_entry_sequence [] (map effect_key es)) (\<lambda>_. Inr es))"

definition effect_latest_entries :: "journal_file \<Rightarrow> journal_error + effect_entry list" where
  "effect_latest_entries f = rbind (effect_load_entries f) (latest_generation effect_key)"

definition effect_append :: "effect_entry \<Rightarrow> journal_file \<Rightarrow> journal_file" where
  "effect_append e f = append_line (effect_to_line e) f"

definition answer_load_entries :: "(json \<Rightarrow> string) \<Rightarrow> journal_file \<Rightarrow> journal_error + gate_answer list" where
  "answer_load_entries sr f = parse_lines (answer_from_line sr) 1 (file_lines f)"

definition answer_append :: "gate_answer \<Rightarrow> journal_file \<Rightarrow> journal_file" where
  "answer_append e f = append_line (answer_to_line e) f"

text \<open>Dictionaries built in file order, the last entry of a key winning.\<close>

definition latest_by :: "('e \<Rightarrow> string) \<Rightarrow> ('e \<Rightarrow> 'v) \<Rightarrow> 'e list \<Rightarrow> (string, 'v) dict" where
  "latest_by k v es = fold (\<lambda>e. dput (k e) (v e)) es []"

definition latest_answers :: "(json \<Rightarrow> string) \<Rightarrow> journal_file \<Rightarrow> journal_error + (string, string) dict" where
  "latest_answers sr f = rbind (answer_load_entries sr f) (\<lambda>es. Inr (latest_by ga_gate ga_option es))"

definition option_counts :: "(json \<Rightarrow> string) \<Rightarrow> string \<Rightarrow> journal_file \<Rightarrow> journal_error + (string, nat) dict" where
  "option_counts sr opt f = rbind (answer_load_entries sr f) (\<lambda>es.
     Inr (fold (\<lambda>e d. if ga_option e \<noteq> opt then d
                     else dput (ga_gate e) ((case dget d (ga_gate e) of None \<Rightarrow> 0 | Some n \<Rightarrow> n) + 1) d) es []))"

definition latest_gate_stakes :: "(json \<Rightarrow> string) \<Rightarrow> journal_file \<Rightarrow> journal_error + (string, payload) dict" where
  "latest_gate_stakes sr f = rbind (answer_load_entries sr f) (\<lambda>es. Inr (latest_by ga_gate ga_stakes es))"

definition workspace_load_entries :: "journal_file \<Rightarrow> journal_error + workspace_entry list" where
  "workspace_load_entries f = parse_lines workspace_from_line 1 (file_lines f)"

definition workspace_append :: "workspace_entry \<Rightarrow> journal_file \<Rightarrow> journal_file" where
  "workspace_append e f = append_line (workspace_to_line e) f"

definition latest_workspaces :: "journal_file \<Rightarrow> journal_error + (string, workspace_entry) dict" where
  "latest_workspaces f = rbind (workspace_load_entries f) (\<lambda>es. Inr (latest_by we_id (\<lambda>e. e) es))"

definition progress_load_entries ::
    "(json \<Rightarrow> string) \<Rightarrow> (string \<Rightarrow> int option) \<Rightarrow> journal_file \<Rightarrow> progress_entry list" where
  "progress_load_entries sr fi f =
     List.map_filter (progress_from_line sr fi) (filter (\<lambda>l. l \<noteq> []) (file_lines f))"

definition progress_append :: "progress_entry \<Rightarrow> journal_file \<Rightarrow> journal_file" where
  "progress_append e f = append_line (progress_to_line e) f"

definition latest_by_node ::
    "(json \<Rightarrow> string) \<Rightarrow> (string \<Rightarrow> int option) \<Rightarrow> journal_file \<Rightarrow> (string, progress_entry) dict" where
  "latest_by_node sr fi f = latest_by pe_node_id (\<lambda>e. e) (progress_load_entries sr fi f)"

end
