(* ===== verification/Replay.thy ===== *)
theory Replay
  imports Journal
begin

text \<open>
  Replay of a conductor run from its journals: the identities of \<open>replay_keying.py\<close>, the cursor over
  the workflow effect journal (\<open>WorkflowEffectReplaySession\<close>, \<open>JournaledWorkflowEffectHandler\<close>) and
  the cursor over the agent journal (\<open>AgentReplaySession\<close>, \<open>JournaledAgentHandler\<close>). A session owns
  the file of its run. SHA-256 in hexadecimal is the parameter \<open>sha\<close>; prompts, schemas, specs and
  results are JSON values.
\<close>

section \<open>Identities\<close>

record resolved_identity =
  ri_adapter :: string
  ri_model :: "string option"
  ri_identity :: "string option"
  ri_effort :: "string option"

definition canonical_payload :: "json \<Rightarrow> json" where
  "canonical_payload v = sort_keys v"

definition canonical_json :: "json \<Rightarrow> string" where
  "canonical_json v = dumps (canonical_payload v)"

definition sha256_payload :: "(string \<Rightarrow> string) \<Rightarrow> json \<Rightarrow> string" where
  "sha256_payload sha v = sha (canonical_json v)"

definition resolved_identity_fingerprint :: "(string \<Rightarrow> string) \<Rightarrow> resolved_identity \<Rightarrow> string" where
  "resolved_identity_fingerprint sha i =
     sha256_payload sha (JObj
       [(''adapter'', JStr (ri_adapter i)),
        (''model'', JStr (case ri_model i of None \<Rightarrow> ''adapter-default'' | Some m \<Rightarrow> m)),
        (''identity'', json_opt (ri_identity i)), (''effort'', json_opt (ri_effort i))])"

definition agent_cache_key :: "(string \<Rightarrow> string) \<Rightarrow> json \<Rightarrow> json \<Rightarrow> resolved_identity \<Rightarrow> string" where
  "agent_cache_key sha prompt schema i =
     sha256_payload sha (JObj
       [(''prompt'', prompt), (''schema'', schema),
        (''resolved_identity'', JStr (resolved_identity_fingerprint sha i))])"

definition workflow_effect_cache_key :: "(string \<Rightarrow> string) \<Rightarrow> string \<Rightarrow> string \<Rightarrow> string option \<Rightarrow> json \<Rightarrow> string" where
  "workflow_effect_cache_key sha effect_kind node label spec =
     sha256_payload sha (JObj
       [(''effect_kind'', JStr effect_kind), (''node_id'', JStr node), (''label'', json_opt label), (''spec'', spec)])"

definition node_identity_fingerprint :: "(string \<Rightarrow> string) \<Rightarrow> string \<Rightarrow> string list \<Rightarrow> int list \<Rightarrow> string" where
  "node_identity_fingerprint sha workflow_name node_path loop_indices =
     sha256_payload sha (JObj
       [(''workflow_name'', JStr workflow_name), (''node_path'', JList (map JStr node_path)),
        (''loop_indices'', JList (map JInt loop_indices))])"

fun prefix_loop :: "nat \<Rightarrow> (string \<times> string) list \<Rightarrow> nat" where
  "prefix_loop n [] = n"
| "prefix_loop n ((p, c) # rest) = (if p \<noteq> c then n else prefix_loop (n + 1) rest)"

definition longest_valid_prefix :: "string list \<Rightarrow> string list \<Rightarrow> nat" where
  "longest_valid_prefix previous current = prefix_loop 0 (zip previous current)"

section \<open>Workflow effects\<close>

datatype (plugins only: code size) replay_error =
    JournalError journal_error | RunIdRequired | NodeIdRequired | NotASequence | EmptyChoice
  | InvalidResult reason | ValidatorCrashed | AttemptsExhausted json | DeadlineExceeded json | DelegateRaised string

datatype wf_effect =
    WfTime "string option" "string option" "string option" \<comment> \<open>label, run id, node id\<close>
  | WfRandom json "string option" "string option" "string option" \<comment> \<open>spec, label, run id, node id\<close>

record decision =
  dc_key :: string
  dc_kind :: string
  dc_node :: string

record session =
  rs_file :: journal_file
  rs_previous :: "effect_entry list"
  rs_previous_generation :: int
  rs_generation :: int
  rs_keys :: "string list"
  rs_replayed :: "effect_entry list"
  rs_started :: bool
  rs_calls :: nat

text \<open>\<open>rs_calls\<close> counts the values produced; \<open>produce n\<close> is the outcome of the \<open>n\<close>-th production.\<close>

type_synonym 'a spy = "(replay_error, session, 'a) py"

definition open_session :: "journal_file \<Rightarrow> journal_error + session" where
  "open_session f =
     rbind (effect_latest_entries f) (\<lambda>previous.
       (let g = (case previous of [] \<Rightarrow> 0 | e # _ \<Rightarrow> ee_generation e)
        in Inr \<lparr>rs_file = f, rs_previous = previous, rs_previous_generation = g, rs_generation = g, rs_keys = [],
                rs_replayed = [], rs_started = False, rs_calls = 0\<rparr>))"

definition validate_replay_entry :: "effect_entry \<Rightarrow> decision \<Rightarrow> journal_error + unit" where
  "validate_replay_entry e d =
     (if ee_key e \<noteq> dc_key d then Inl (KeyMismatch (ee_index e))
      else if ee_kind e \<noteq> dc_kind d then Inl (EffectKindMismatch (ee_index e))
      else if ee_node e \<noteq> dc_node d then Inl (NodeMismatch (ee_index e))
      else if ee_terminal e \<noteq> ''succeeded'' then Inl (UnsupportedTerminal (ee_index e)) else Inr ())"

definition append_effect :: "effect_entry \<Rightarrow> unit spy" where
  "append_effect e = py_modify (rs_file_update (effect_append e))"

fun append_replayed :: "int \<Rightarrow> nat \<Rightarrow> effect_entry list \<Rightarrow> unit spy" where
  "append_replayed g i [] = py_ret ()"
| "append_replayed g i (e # es) =
     py_bind (append_effect (e\<lparr>ee_generation := g, ee_index := int i\<rparr>)) (\<lambda>_. append_replayed g (Suc i) es)"

definition start_new_generation :: "unit spy" where
  "start_new_generation =
     py_bind (py_gets rs_started) (\<lambda>started.
     if started then py_ret ()
     else
       py_bind (py_gets (\<lambda>s. rs_previous_generation s + 1)) (\<lambda>g.
       py_bind (py_modify (rs_generation_update (\<lambda>_. g))) (\<lambda>_.
       py_bind (py_gets rs_replayed) (\<lambda>replayed.
       py_bind (append_replayed g 0 replayed) (\<lambda>_.
       py_modify (rs_started_update (\<lambda>_. True)))))))"

definition produce_value :: "(nat \<Rightarrow> replay_error + json) \<Rightarrow> json spy" where
  "produce_value produce s = (produce (rs_calls s), s\<lparr>rs_calls := rs_calls s + 1\<rparr>)"

definition run_or_replay :: "(nat \<Rightarrow> replay_error + json) \<Rightarrow> decision \<Rightarrow> json spy" where
  "run_or_replay produce d =
     py_bind (py_modify (rs_keys_update (\<lambda>ks. ks @ [dc_key d]))) (\<lambda>_.
     py_bind (py_gets (\<lambda>s. length (rs_keys s) - 1)) (\<lambda>i.
     py_bind (py_gets (\<lambda>s. (rs_previous s, longest_valid_prefix (map ee_key (rs_previous s)) (rs_keys s)))) (\<lambda>(previous, valid).
     if i < valid
     then
       (case validate_replay_entry (previous ! i) d of
          Inl e \<Rightarrow> py_raise (JournalError e)
        | Inr _ \<Rightarrow>
            py_bind (py_modify (rs_replayed_update (\<lambda>es. es @ [previous ! i]))) (\<lambda>_.
            py_ret (ee_value (previous ! i))))
     else
       py_bind (if i < length previous then start_new_generation else py_ret ()) (\<lambda>_.
       py_bind (produce_value produce) (\<lambda>v.
       py_bind (py_gets rs_generation) (\<lambda>g.
       py_bind (append_effect \<lparr>ee_generation = g, ee_index = int i, ee_key = dc_key d, ee_kind = dc_kind d,
                               ee_node = dc_node d, ee_value = v, ee_terminal = ''succeeded''\<rparr>) (\<lambda>_.
       py_ret v)))))))"

definition workflow_effect_replay_decision :: "(string \<Rightarrow> string) \<Rightarrow> wf_effect \<Rightarrow> replay_error + decision" where
  "workflow_effect_replay_decision sha eff =
     (let (kind, spec, label, node) =
            (case eff of WfTime l r n \<Rightarrow> (''time'', JNull, l, n) | WfRandom spec l r n \<Rightarrow> (''random'', spec, l, n))
      in case node of
           None \<Rightarrow> Inl NodeIdRequired
         | Some nd \<Rightarrow> Inr \<lparr>dc_key = workflow_effect_cache_key sha kind nd label spec, dc_kind = kind, dc_node = nd\<rparr>)"

text \<open>The outside world: the clock's ISO text, the index a choice draws and the text of a random float.\<close>

record world =
  wo_clock :: "nat \<Rightarrow> string"
  wo_pick :: "nat \<Rightarrow> nat \<Rightarrow> nat"
  wo_float :: "nat \<Rightarrow> string"

definition evaluate_random_spec :: "world \<Rightarrow> nat \<Rightarrow> json \<Rightarrow> replay_error + json" where
  "evaluate_random_spec w n spec =
     (case spec of
        JObj d \<Rightarrow>
          if dget d ''kind'' = Some (JStr ''choice'')
          then (case dget d ''values'' of
                  Some (JList vs) \<Rightarrow> if vs = [] then Inl EmptyChoice else Inr (vs ! wo_pick w n (length vs))
                | _ \<Rightarrow> Inl NotASequence)
          else Inr (JFloat (wo_float w n))
      | _ \<Rightarrow> Inr (JFloat (wo_float w n)))"

definition produce_of :: "world \<Rightarrow> wf_effect \<Rightarrow> nat \<Rightarrow> replay_error + json" where
  "produce_of w eff n =
     (case eff of WfTime l r d \<Rightarrow> Inr (JStr (wo_clock w n)) | WfRandom spec l r d \<Rightarrow> evaluate_random_spec w n spec)"

record wf_handler =
  wh_run :: "string option"
  wh_disk :: "(string, journal_file) dict"
  wh_sessions :: "(string, session) dict"

definition resolve_run_id :: "wf_handler \<Rightarrow> wf_effect \<Rightarrow> replay_error + string" where
  "resolve_run_id h eff =
     (case wh_run h of
        Some r \<Rightarrow> Inr r
      | None \<Rightarrow> (case (case eff of WfTime l r n \<Rightarrow> r | WfRandom spec l r n \<Rightarrow> r) of
                  Some r \<Rightarrow> Inr r | None \<Rightarrow> Inl RunIdRequired))"

definition handle_workflow_effect ::
    "(string \<Rightarrow> string) \<Rightarrow> world \<Rightarrow> wf_effect \<Rightarrow> (replay_error, wf_handler, json) py" where
  "handle_workflow_effect sha w eff h =
     (case resolve_run_id h eff of
        Inl e \<Rightarrow> (Inl e, h)
      | Inr run \<Rightarrow>
          (case (case dget (wh_sessions h) run of
                   Some s \<Rightarrow> Inr s
                 | None \<Rightarrow> open_session (case dget (wh_disk h) run of None \<Rightarrow> None | Some f \<Rightarrow> f)) of
             Inl e \<Rightarrow> (Inl (JournalError e), h)
           | Inr s \<Rightarrow>
               (case workflow_effect_replay_decision sha eff of
                  Inl e \<Rightarrow> (Inl e, h\<lparr>wh_sessions := dput run s (wh_sessions h)\<rparr>)
                | Inr d \<Rightarrow>
                    (let (r, s') = run_or_replay (produce_of w eff) d s
                     in (r, h\<lparr>wh_sessions := dput run s' (wh_sessions h)\<rparr>)))))"

end
