(* ===== verification/Journal_Format.thy ===== *)
theory Journal_Format
  imports Journal
begin

text \<open>
  What the journals promise. The locale \<open>journal_format\<close> is the interface between an entry type and
  the file: an entry's line is printable and reads back. Its lemmas say that appending to a file
  that ends with a line break adds exactly the entry; it is interpreted on the entry types of
  \<open>journal.py\<close> and \<open>workflow_effect_journal.py\<close>.
\<close>

section \<open>Lines\<close>

definition intact :: "journal_file \<Rightarrow> bool" where
  "intact f \<longleftrightarrow> (case f of None \<Rightarrow> True | Some t \<Rightarrow> t = [] \<or> last t = CHR 0x0A)"

lemma intact_append [simp]: "intact (append_line l f)"
  by (simp add: intact_def append_line_def)

lemma printable_no_break: "printable c \<Longrightarrow> \<not> line_break c"
  by (auto simp: printable_def line_break_def)

lemma code_newline [simp]: "code (CHR 0x0A) = 10" "line_break (CHR 0x0A)"
  by (simp_all add: code_def line_break_def)

lemma lines_from_single: "\<forall>c \<in> set l. \<not> line_break c \<Longrightarrow> lines_from acc (l @ [CHR 0x0A]) = [acc @ l]"
  by (induction l arbitrary: acc) auto

lemma lines_from_append:
  assumes "t \<noteq> []" and "last t = CHR 0x0A"
  shows "lines_from acc (t @ x) = lines_from acc t @ lines_from [] x"
  using assms
proof (induction acc t rule: lines_from.induct)
  case (2 acc c s)
  show ?case
  proof (cases "s = []")
    case True
    with 2 show ?thesis by simp
  next
    case False
    with "2.prems" have last: "last s = CHR 0x0A" by simp
    show ?thesis
    proof (cases "line_break c")
      case True
      let ?skip = "code c = 13 \<and> code (hd s) = 10"
      have rest: "lines_from [] ((if ?skip then tl s else s) @ x) =
          lines_from [] (if ?skip then tl s else s) @ lines_from [] x"
      proof (cases "?skip \<and> tl s = []")
        case False
        then show ?thesis
          using "2.IH"(1) [OF True] \<open>s \<noteq> []\<close> last by (auto simp: last_tl)
      qed simp
      then show ?thesis using True False by (auto split: if_splits)
    next
      case break: False
      with "2.IH"(2) [OF break False last] show ?thesis by simp
    qed
  qed
qed simp

lemma file_lines_append:
  assumes "intact f" and "\<forall>c \<in> set l. printable c"
  shows "file_lines (append_line l f) = file_lines f @ [l]"
proof -
  have single: "lines_from [] (l @ [CHR 0x0A]) = [l]"
    using lines_from_single [of l "[]"] assms(2) printable_no_break by auto
  show ?thesis
  proof (cases f)
    case (Some t)
    with assms(1) single lines_from_append [of t "[]" "l @ [CHR 0x0A]"] show ?thesis
      by (cases "t = []") (auto simp: file_lines_def append_line_def splitlines_def intact_def)
  qed (simp add: file_lines_def append_line_def splitlines_def single)
qed

lemma parse_lines_snoc:
  "parse_lines from_line n (ls @ [l]) =
     rbind (parse_lines from_line n ls) (\<lambda>es.
     if l = [] then Inl (BlankLine (n + length ls)) else rbind (from_line (n + length ls) l) (\<lambda>e. Inr (es @ [e])))"
proof (induction from_line n ls rule: parse_lines.induct)
  case (2 from_line n l' ls)
  then show ?case by (cases "from_line n l'") (auto simp: rbind_def split: sum.split)
qed (simp add: rbind_def split: sum.split)

section \<open>The interface\<close>

locale journal_format =
  fixes to_line :: "'e \<Rightarrow> string" and from_line :: "nat \<Rightarrow> string \<Rightarrow> journal_error + 'e"
    and ok :: "'e \<Rightarrow> bool" and norm :: "'e \<Rightarrow> 'e"
  assumes read_back: "ok e \<Longrightarrow> from_line n (to_line e) = Inr (norm e)"
    and nonempty: "ok e \<Longrightarrow> to_line e \<noteq> []"
    and print: "ok e \<Longrightarrow> c \<in> set (to_line e) \<Longrightarrow> printable c"
begin

lemma parse_append:
  assumes "intact f" and "ok e" and "parse_lines from_line n (file_lines f) = Inr es"
  shows "parse_lines from_line n (file_lines (append_line (to_line e) f)) = Inr (es @ [norm e])"
  using assms by (simp add: file_lines_append print parse_lines_snoc nonempty read_back)

lemma parse_appends:
  assumes "intact f" and "list_all ok new" and "parse_lines from_line n (file_lines f) = Inr es"
  shows "parse_lines from_line n (file_lines (fold (\<lambda>e. append_line (to_line e)) new f)) = Inr (es @ map norm new)"
  using assms
proof (induction new arbitrary: f es)
  case (Cons e new)
  then show ?case using parse_append [of f e n es] by simp
qed simp

end

section \<open>Entries read back\<close>

lemma read_payload_dumps:
  assumes "plain (JObj d)" and "dget d ''version'' = Some (JInt 1)"
  obtains p where "\<And>n. read_payload n (dumps (JObj d)) = Inr p" and "\<And>k. dget p k = map_option sort_keys (dget d k)"
proof
  let ?p = "sort_key fst (map (map_prod id sort_keys) d)"
  show get: "dget ?p k = map_option sort_keys (dget d k)" for k
    using assms(1) by (intro dget_sorted) simp
  show "read_payload n (dumps (JObj d)) = Inr ?p" for n
    using assms get by (simp add: read_payload_def loads_dumps require_int_def require_field_def)
qed

lemmas field_defs = require_str_def require_int_def require_field_def optional_str_def optional_dict_def json_opt_def

definition agent_ok :: "agent_entry \<Rightarrow> bool" where
  "agent_ok e \<longleftrightarrow> ae_generation e \<ge> 0 \<and> ae_index e \<ge> 0 \<and> plain (ae_artifact e)"

definition agent_norm :: "agent_entry \<Rightarrow> agent_entry" where
  "agent_norm e = e\<lparr>ae_artifact := sort_keys (ae_artifact e)\<rparr>"

lemma agent_plain: "agent_ok e \<Longrightarrow> plain (JObj (agent_payload e))"
  by (simp add: agent_payload_def agent_ok_def)

interpretation agent_journal: journal_format agent_to_line agent_from_line agent_ok agent_norm
proof
  fix e n
  assume ok: "agent_ok e"
  obtain p where "read_payload n (agent_to_line e) = Inr p"
      and "\<And>k. dget p k = map_option sort_keys (dget (agent_payload e) k)"
    by (rule read_payload_dumps [OF agent_plain [OF ok]]) (auto simp: agent_payload_def agent_to_line_def)
  with ok show "agent_from_line n (agent_to_line e) = Inr (agent_norm e)"
    by (simp add: agent_from_line_def field_defs agent_payload_def agent_norm_def agent_ok_def)
qed (auto simp: agent_to_line_def dest: dumps_nonempty [OF agent_plain] dumps_printable [OF agent_plain])

definition effect_ok :: "effect_entry \<Rightarrow> bool" where
  "effect_ok e \<longleftrightarrow> ee_generation e \<ge> 0 \<and> ee_index e \<ge> 0 \<and> plain (ee_value e)"

definition effect_norm :: "effect_entry \<Rightarrow> effect_entry" where
  "effect_norm e = e\<lparr>ee_value := sort_keys (ee_value e)\<rparr>"

lemma effect_plain: "effect_ok e \<Longrightarrow> plain (JObj (effect_payload e))"
  by (simp add: effect_payload_def effect_ok_def)

interpretation effect_journal: journal_format effect_to_line effect_from_line effect_ok effect_norm
proof
  fix e n
  assume ok: "effect_ok e"
  obtain p where "read_payload n (effect_to_line e) = Inr p"
      and "\<And>k. dget p k = map_option sort_keys (dget (effect_payload e) k)"
    by (rule read_payload_dumps [OF effect_plain [OF ok]]) (auto simp: effect_payload_def effect_to_line_def)
  with ok show "effect_from_line n (effect_to_line e) = Inr (effect_norm e)"
    by (simp add: effect_from_line_def field_defs effect_payload_def effect_norm_def effect_ok_def)
qed (auto simp: effect_to_line_def dest: dumps_nonempty [OF effect_plain] dumps_printable [OF effect_plain])

definition answer_ok :: "gate_answer \<Rightarrow> bool" where
  "answer_ok e \<longleftrightarrow> plain (JObj (ga_stakes e))"

definition sort_payload :: "payload \<Rightarrow> payload" where
  "sort_payload d = (case sort_keys (JObj d) of JObj d' \<Rightarrow> d' | _ \<Rightarrow> [])"

definition answer_norm :: "gate_answer \<Rightarrow> gate_answer" where
  "answer_norm e = e\<lparr>ga_stakes := sort_payload (ga_stakes e)\<rparr>"

lemma answer_plain: "answer_ok e \<Longrightarrow> plain (JObj (answer_payload e))"
  by (simp add: answer_payload_def answer_ok_def)

interpretation answer_journal: journal_format answer_to_line "answer_from_line sr" answer_ok answer_norm for sr
proof
  fix e n
  assume ok: "answer_ok e"
  obtain p where "read_payload n (answer_to_line e) = Inr p"
      and "\<And>k. dget p k = map_option sort_keys (dget (answer_payload e) k)"
    by (rule read_payload_dumps [OF answer_plain [OF ok]]) (auto simp: answer_payload_def answer_to_line_def)
  then show "answer_from_line sr n (answer_to_line e) = Inr (answer_norm e)"
    by (simp add: answer_from_line_def field_defs answer_payload_def answer_norm_def sort_payload_def)
qed (auto simp: answer_to_line_def dest: dumps_nonempty [OF answer_plain] dumps_printable [OF answer_plain])

lemma workspace_plain: "plain (JObj (workspace_payload e))"
  by (simp add: workspace_payload_def json_opt_def split: option.split)

interpretation workspace_journal: journal_format workspace_to_line workspace_from_line "\<lambda>_. True" "\<lambda>e. e"
proof
  fix e n
  obtain p where "read_payload n (workspace_to_line e) = Inr p"
      and "\<And>k. dget p k = map_option sort_keys (dget (workspace_payload e) k)"
    by (rule read_payload_dumps [OF workspace_plain]) (auto simp: workspace_payload_def workspace_to_line_def)
  then show "workspace_from_line n (workspace_to_line e) = Inr e"
    by (cases "we_issue e") (simp_all add: workspace_from_line_def field_defs workspace_payload_def)
qed (simp_all add: workspace_to_line_def dumps_nonempty [OF workspace_plain] dumps_printable [OF workspace_plain])

lemma sequence_ok:
  "validate_entry_sequence seen ks = Inr () \<longleftrightarrow> distinct ks \<and> set ks \<inter> set seen = {}"
  by (induction seen ks rule: validate_entry_sequence.induct) auto


text \<open>
  C15: What is appended is read back. In a journal of complete lines, an entry with a fresh generation
  and index is read back after those already there, unchanged but for the order of the keys in its
  JSON value; so is a gate answer, and a created workspace is read back exactly.
\<close>

theorem appended_entries_are_read_back:
  assumes "intact f"
  shows "(agent_load_entries f = Inr as \<longrightarrow> agent_ok a \<longrightarrow> agent_key a \<notin> set (map agent_key as) \<longrightarrow>
      agent_load_entries (agent_append a f) = Inr (as @ [agent_norm a])) \<and>
    (effect_load_entries f = Inr es \<longrightarrow> effect_ok e \<longrightarrow> effect_key e \<notin> set (map effect_key es) \<longrightarrow>
      effect_load_entries (effect_append e f) = Inr (es @ [effect_norm e])) \<and>
    (answer_load_entries sr f = Inr gs \<longrightarrow> answer_ok g \<longrightarrow>
      answer_load_entries sr (answer_append g f) = Inr (gs @ [answer_norm g])) \<and>
    (workspace_load_entries f = Inr ws \<longrightarrow> workspace_load_entries (workspace_append w f) = Inr (ws @ [w]))"
proof (intro conjI)
  show "agent_load_entries f = Inr as \<longrightarrow> agent_ok a \<longrightarrow> agent_key a \<notin> set (map agent_key as) \<longrightarrow>
      agent_load_entries (agent_append a f) = Inr (as @ [agent_norm a])"
    using agent_journal.parse_append [OF assms, of a 1 as]
    by (auto simp: agent_load_entries_def agent_append_def rbind_eq_Inr sequence_ok agent_norm_def agent_key_def)
  show "effect_load_entries f = Inr es \<longrightarrow> effect_ok e \<longrightarrow> effect_key e \<notin> set (map effect_key es) \<longrightarrow>
      effect_load_entries (effect_append e f) = Inr (es @ [effect_norm e])"
    using effect_journal.parse_append [OF assms, of e 1 es]
    by (auto simp: effect_load_entries_def effect_append_def rbind_eq_Inr sequence_ok effect_norm_def effect_key_def)
  show "answer_load_entries sr f = Inr gs \<longrightarrow> answer_ok g \<longrightarrow>
      answer_load_entries sr (answer_append g f) = Inr (gs @ [answer_norm g])"
    using answer_journal.parse_append [OF assms, of g sr 1 gs]
    by (simp add: answer_load_entries_def answer_append_def)
  show "workspace_load_entries f = Inr ws \<longrightarrow> workspace_load_entries (workspace_append w f) = Inr (ws @ [w])"
    using workspace_journal.parse_append [OF assms, where e = w and n = 1 and es = ws]
    by (simp add: workspace_load_entries_def workspace_append_def)
qed

definition demo_answer :: gate_answer where
  "demo_answer = \<lparr>ga_gate = ''g'', ga_workflow = ''w'', ga_option = ''approve'', ga_outcome = ''ok'', ga_note = [], ga_at = ''t'',
     ga_reason = ''r'', ga_stakes = [(''b'', JInt 1), (''a'', JNull)], ga_terminal = ''gate-answer''\<rparr>"

theorem appended_entries_are_read_back_witness:
  "answer_load_entries (\<lambda>v. []) (answer_append demo_answer None) =
     Inr [demo_answer\<lparr>ga_stakes := [(''a'', JNull), (''b'', JInt 1)]\<rparr>]"
proof -
  have load: "answer_load_entries (\<lambda>v. []) None = Inr []" by (simp add: answer_load_entries_def file_lines_def)
  have norm: "answer_norm demo_answer = demo_answer\<lparr>ga_stakes := [(''a'', JNull), (''b'', JInt 1)]\<rparr>"
    by code_simp
  have "intact None" "answer_ok demo_answer" by (simp_all add: intact_def answer_ok_def demo_answer_def)
  with appended_entries_are_read_back [of None] load norm show ?thesis by fastforce
qed

end
