(* ===== verification/Generations.thy ===== *)
theory Generations
  imports Replay Journal_Format
begin

text \<open>
  Journals with generations: what appending the next entry of a generation, or an entry past a gap,
  does to the entries read back; and the prefix of a generation that a new session can replay. The
  locale \<open>generation_journal\<close> extends the interface of a journal by the generation and index of an entry
  and by the copy of an entry into another generation; it is interpreted on the agent and on the
  workflow effect journal.
\<close>

section \<open>Generations\<close>

abbreviation index :: "('e \<Rightarrow> int \<times> int) \<Rightarrow> 'e \<Rightarrow> int" where
  "index key \<equiv> \<lambda>e. snd (key e)"

text \<open>
  \<open>generation_at\<close>: no entry of \<open>es\<close> is of a generation beyond \<open>g\<close>, and \<open>L\<close> are the entries of
  generation \<open>g\<close> in index order, without gaps; \<open>generation_ok\<close>: \<open>g\<close> is moreover the highest.
\<close>

definition generation_at :: "('e \<Rightarrow> int \<times> int) \<Rightarrow> 'e list \<Rightarrow> int \<Rightarrow> 'e list \<Rightarrow> bool" where
  "generation_at key es g L \<longleftrightarrow>
     distinct (map key es) \<and> (\<forall>e \<in> set es. fst (key e) \<le> g) \<and> 0 \<le> g \<and>
     L = sort_key (index key) (filter (\<lambda>e. fst (key e) = g) es) \<and> map (index key) L = map int [0..<length L]"

definition generation_ok :: "('e \<Rightarrow> int \<times> int) \<Rightarrow> 'e list \<Rightarrow> int \<Rightarrow> 'e list \<Rightarrow> bool" where
  "generation_ok key es g L \<longleftrightarrow> generation_at key es g L \<and> (es \<noteq> [] \<longrightarrow> L \<noteq> [])"

lemmas generation_defs = generation_ok_def generation_at_def

lemma sort_key_snoc:
  "(\<And>y. y \<in> set xs \<Longrightarrow> f y \<le> f x) \<Longrightarrow> sort_key f (xs @ [x]) = sort_key f xs @ [x]"
proof -
  assume le: "\<And>y. y \<in> set xs \<Longrightarrow> f y \<le> f x"
  have insort: "f y \<le> f x \<Longrightarrow> insort_key f y (zs @ [x]) = insort_key f y zs @ [x]" for y zs
    by (induction zs) auto
  from le show ?thesis by (induction xs) (auto simp: insort)
qed

lemma contiguous_ok:
  "validate_contiguous_generation n ks = Inr () \<longleftrightarrow> map snd ks = map int [n..<n + length ks]"
  by (induction n ks rule: validate_contiguous_generation.induct)
    (auto simp: upt_conv_Cons simp del: upt_Suc)

lemma generation_latest:
  assumes "generation_ok key es g L"
  shows "latest_generation key es = Inr L"
proof (cases "es = []")
  case False
  with assms have "L \<noteq> []" unfolding generation_ok_def by blast
  moreover have "set L = {e \<in> set es. fst (key e) = g}"
    using assms by (simp add: generation_defs)
  ultimately have "\<exists>e \<in> set es. fst (key e) = g" by (metis (mono_tags) ex_in_conv mem_Collect_eq set_empty)
  then have "Max (fst ` set (map key es)) = g"
    using assms by (intro Max_eqI) (auto simp: generation_defs)
  moreover have "map (index key) L = map int [0..<length L]"
    using assms unfolding generation_defs by blast
  then have "map snd (map key L) = map int [0..<length L]" by (simp add: comp_def)
  then have "validate_contiguous_generation 0 (map key L) = Inr ()" by (simp add: contiguous_ok)
  ultimately show ?thesis
    using False assms by (simp add: latest_generation_def generation_defs Let_def comp_def)
qed (use assms in \<open>simp add: latest_generation_def generation_defs\<close>)

lemma generation_index:
  assumes "generation_at key es g L" and "e \<in> set es" and "fst (key e) = g"
  shows "0 \<le> index key e \<and> index key e < int (length L)"
proof -
  have "e \<in> set L" using assms by (simp add: generation_at_def)
  then have "index key e \<in> set (map (index key) L)" by simp
  moreover have "map (index key) L = map int [0..<length L]"
    using assms(1) unfolding generation_at_def by blast
  ultimately have "index key e \<in> set (map int [0..<length L])" by (simp only:)
  then show ?thesis by auto
qed

lemma generation_at_ok: "generation_ok key es g L \<Longrightarrow> generation_at key es g L"
  by (simp add: generation_ok_def)

lemma generation_at_next:
  assumes "generation_at key es g L"
  shows "generation_at key es (g + 1) []"
proof -
  have less: "fst (key y) < g + 1" if "y \<in> set es" for y
    using assms that by (auto simp: generation_at_def)
  then have "filter (\<lambda>e. fst (key e) = g + 1) es = []"
    by (force simp: filter_empty_conv)
  with assms less show ?thesis by (auto simp: generation_at_def less_imp_le)
qed

text \<open>An entry of generation \<open>g\<close> whose index is at least the number of entries of \<open>g\<close> comes last.\<close>

lemma generation_last:
  assumes "generation_at key es g L" and "key e = (g, i)" and "int (length L) \<le> i"
  shows "key e \<notin> set (map key es)" and "sort_key (index key) (filter (\<lambda>e. fst (key e) = g) (es @ [e])) = L @ [e]"
proof -
  show "key e \<notin> set (map key es)"
  proof
    assume "key e \<in> set (map key es)"
    then obtain e' where "e' \<in> set es" "key e' = key e" by auto
    with generation_index [OF assms(1), of e'] assms(2,3) show False by simp
  qed
  have "index key y \<le> index key e" if "y \<in> set es" "fst (key y) = g" for y
    using generation_index [OF assms(1) that] assms(2,3) by simp
  then have "sort_key (index key) (filter (\<lambda>e. fst (key e) = g) es @ [e]) = L @ [e]"
    using assms(1) by (subst sort_key_snoc) (auto simp: generation_at_def)
  then show "sort_key (index key) (filter (\<lambda>e. fst (key e) = g) (es @ [e])) = L @ [e]"
    using assms(2) by simp
qed

lemma generation_append:
  assumes "generation_at key es g L" and "key e = (g, int (length L))"
  shows "generation_ok key (es @ [e]) g (L @ [e])"
proof -
  have "map (index key) L = map int [0..<length L]"
    using assms(1) unfolding generation_at_def by blast
  then have "map (index key) (L @ [e]) = map int [0..<length (L @ [e])]"
    using assms(2) by simp
  with generation_last [OF assms] assms show ?thesis
    by (auto simp: generation_defs)
qed

lemma contiguous_gap:
  "map snd ks = map int [n..<n + length ks] \<Longrightarrow> n + length ks < i \<Longrightarrow>
   validate_contiguous_generation n (ks @ [(g, int i)]) = Inl (NonContiguous g (int i) (n + length ks))"
  by (induction n ks rule: validate_contiguous_generation.induct) (auto simp: upt_conv_Cons simp del: upt_Suc)

lemma generation_gap:
  assumes "generation_at key es g L" and "key e = (g, int i)" and "length L < i"
  shows "latest_generation key (es @ [e]) = Inl (NonContiguous g (int i) (length L))"
proof -
  have "Max (fst ` set (map key (es @ [e]))) = g"
    using assms(1,2) by (intro Max_eqI) (auto simp: generation_at_def)
  moreover have "map (index key) L = map int [0..<length L]"
    using assms(1) unfolding generation_at_def by blast
  then have "map snd (map key L) = map int [0..<0 + length (map key L)]" by (simp add: comp_def)
  from contiguous_gap [OF this, of i g] assms(2,3)
  have "validate_contiguous_generation 0 (map key (L @ [e])) = Inl (NonContiguous g (int i) (length L))" by simp
  ultimately show ?thesis
    using generation_last(2) [OF assms(1,2)] assms(3)
    by (simp add: latest_generation_def Let_def comp_def del: filter_append)
qed

lemma latest_generation_ok:
  assumes "distinct (map key es)" and "\<forall>e \<in> set es. 0 \<le> fst (key e)"
    and "latest_generation key es = Inr L"
  shows "generation_ok key es (case L of [] \<Rightarrow> 0 | e # _ \<Rightarrow> fst (key e)) L"
proof (cases "es = []")
  case True
  with assms(3) show ?thesis by (simp add: latest_generation_def generation_defs)
next
  case False
  define g where "g = Max (fst ` set (map key es))"
  from False assms(3) have L: "L = sort_key (snd \<circ> key) (filter (\<lambda>e. fst (key e) = g) es)"
      "validate_contiguous_generation 0 (map key L) = Inr ()"
    by (auto simp: latest_generation_def Let_def g_def rbind_eq_Inr)
  have "g \<in> fst ` set (map key es)" unfolding g_def using False by (intro Max_in) auto
  then obtain e where e: "e \<in> set es" "fst (key e) = g" by auto
  then have "e \<in> set L" using L(1) by simp
  then have ne: "L \<noteq> []" by auto
  have gens: "fst (key e') = g" if "e' \<in> set L" for e' using that L(1) by simp
  have "\<forall>e \<in> set es. fst (key e) \<le> g" unfolding g_def by simp
  moreover have "0 \<le> g" using e assms(2) by auto
  moreover have "map (index key) L = map int [0..<length L]"
    using L(2) by (simp add: contiguous_ok comp_def)
  moreover have "(case L of [] \<Rightarrow> 0 | e # _ \<Rightarrow> fst (key e)) = g"
    using ne gens by (cases L) auto
  ultimately show ?thesis
    using assms(1) L(1) ne by (simp add: generation_defs comp_def)
qed

section \<open>The prefix that replays\<close>

lemma prefix_loop_shift: "prefix_loop n ps = n + prefix_loop 0 ps"
proof (induction ps arbitrary: n)
  case (Cons p ps)
  obtain a b where "p = (a, b)" by (cases p)
  with Cons.IH [of "n + 1"] Cons.IH [of 1] show ?case by simp
qed simp

lemma longest_valid_prefix_simps [simp]:
  "longest_valid_prefix [] cs = 0"
  "longest_valid_prefix ps [] = 0"
  "longest_valid_prefix (p # ps) (c # cs) = (if p = c then Suc (longest_valid_prefix ps cs) else 0)"
  using prefix_loop_shift [of 1 "zip ps cs"] by (simp_all add: longest_valid_prefix_def)

lemma less_longest_valid_prefix:
  "i < longest_valid_prefix ps cs \<longleftrightarrow>
     i < length ps \<and> i < length cs \<and> take (Suc i) ps = take (Suc i) cs"
proof (induction ps arbitrary: cs i)
  case (Cons p ps)
  show ?case
  proof (cases cs)
    case (Cons c cs')
    then show ?thesis using Cons.IH [of "i - 1" cs'] by (cases i) auto
  qed simp
qed simp

lemma prefix_le: "longest_valid_prefix ps cs \<le> length ps" "longest_valid_prefix ps cs \<le> length cs"
  by (induction ps arbitrary: cs) (auto, (case_tac cs; simp)+)

section \<open>Sorting keys twice\<close>

lemma sort_key_same: "sort_key fst (sort_key fst xs) = sort_key fst xs"
  by (rule sort_key_id_if_sorted) simp

lemma sort_keys_idem [simp]: "sort_keys (sort_keys v) = sort_keys v"
proof (induction v)
  case (JObj d)
  let ?h = "map_prod id sort_keys"
  have twice: "map ?h (map ?h d) = map ?h d"
    using JObj by (fastforce simp: comp_def)
  have "map ?h (sort_key fst (map ?h d)) = sort_key fst (map ?h (map ?h d))"
    by (rule sort_key_map [symmetric]) simp
  then show ?case by (simp only: sort_keys.simps twice sort_key_same)
qed auto

section \<open>Reading and writing a generation\<close>

definition load_with :: "(nat \<Rightarrow> string \<Rightarrow> journal_error + 'e) \<Rightarrow> ('e \<Rightarrow> int \<times> int) \<Rightarrow> journal_file \<Rightarrow> journal_error + 'e list" where
  "load_with from_line key f =
     rbind (parse_lines from_line 1 (file_lines f)) (\<lambda>es. rbind (validate_entry_sequence [] (map key es)) (\<lambda>_. Inr es))"

lemma load_with_Inr:
  "load_with from_line key f = Inr es \<longleftrightarrow>
     parse_lines from_line 1 (file_lines f) = Inr es \<and> distinct (map key es)"
  by (auto simp: load_with_def rbind_eq_Inr sequence_ok)

text \<open>
  \<open>ready_for\<close>: the file is ready for the next entry of generation \<open>g\<close>, after the entries \<open>L\<close>;
  \<open>reads_as\<close>: moreover \<open>g\<close> is its latest generation. \<open>T\<close> is the entry type's reader, key and
  well-formedness.
\<close>

type_synonym 'e entry_type = "(nat \<Rightarrow> string \<Rightarrow> journal_error + 'e) \<times> ('e \<Rightarrow> int \<times> int) \<times> ('e \<Rightarrow> bool)"

definition ready_for :: "'e entry_type \<Rightarrow> journal_file \<Rightarrow> 'e list \<Rightarrow> int \<Rightarrow> 'e list \<Rightarrow> bool" where
  "ready_for T f es g L \<longleftrightarrow>
     (case T of (from_line, key, ok) \<Rightarrow>
        intact f \<and> load_with from_line key f = Inr es \<and> generation_at key es g L \<and> (\<forall>e \<in> set es. ok e))"

definition reads_as :: "'e entry_type \<Rightarrow> journal_file \<Rightarrow> 'e list \<Rightarrow> int \<Rightarrow> 'e list \<Rightarrow> bool" where
  "reads_as T f es g L \<longleftrightarrow>
     (case T of (from_line, key, ok) \<Rightarrow>
        intact f \<and> load_with from_line key f = Inr es \<and> generation_ok key es g L \<and> (\<forall>e \<in> set es. ok e))"

definition well_formed :: "'e entry_type \<Rightarrow> journal_file \<Rightarrow> bool" where
  "well_formed T f \<longleftrightarrow>
     (case T of (from_line, key, ok) \<Rightarrow>
        intact f \<and> (\<forall>es. load_with from_line key f = Inr es \<longrightarrow> (\<forall>e \<in> set es. ok e)))"

text \<open>The entries of a replayed prefix, copied into generation \<open>g\<close> from index \<open>i\<close> on.\<close>

fun renumber_with ::
    "('e \<Rightarrow> string) \<Rightarrow> (int \<Rightarrow> int \<Rightarrow> 'e \<Rightarrow> 'e) \<Rightarrow> int \<Rightarrow> nat \<Rightarrow> 'e list \<Rightarrow> journal_file \<Rightarrow> journal_file" where
  "renumber_with to_line reindex g i [] f = f"
| "renumber_with to_line reindex g i (e # es) f =
     renumber_with to_line reindex g (Suc i) es (append_line (to_line (reindex g (int i) e)) f)"

lemma reads_ready: "reads_as T f es g L \<Longrightarrow> ready_for T f es g L"
  by (cases T) (auto simp: reads_as_def ready_for_def generation_at_ok)

lemma reads_ready_next: "reads_as T f es g L \<Longrightarrow> ready_for T f es (g + 1) []"
  unfolding reads_as_def ready_for_def by (cases T) (auto intro: generation_at_next generation_at_ok)

lemma reads_generation: "reads_as T f es g L \<Longrightarrow> 0 \<le> g" "ready_for T f es g L \<Longrightarrow> 0 \<le> g"
  by (cases T; simp add: reads_as_def ready_for_def generation_defs)+

lemma reads_latest: "reads_as (from_line, key, ok) f es g L \<Longrightarrow> rbind (load_with from_line key f) (latest_generation key) = Inr L"
  unfolding reads_as_def by (auto dest: generation_latest)

locale generation_journal = journal_format to_line from_line ok norm
  for to_line :: "'e \<Rightarrow> string" and from_line :: "nat \<Rightarrow> string \<Rightarrow> journal_error + 'e" and ok and norm +
  fixes key :: "'e \<Rightarrow> int \<times> int" and reindex :: "int \<Rightarrow> int \<Rightarrow> 'e \<Rightarrow> 'e" and same :: "'e \<Rightarrow> 'e \<Rightarrow> bool"
  assumes norm_key [simp]: "key (norm e) = key e" and norm_ok: "ok e \<Longrightarrow> ok (norm e)"
    and ok_key: "ok e \<Longrightarrow> 0 \<le> fst (key e)"
    and reindex_key [simp]: "key (reindex g i e) = (g, i)"
    and reindex_ok: "ok e \<Longrightarrow> 0 \<le> g \<Longrightarrow> 0 \<le> i \<Longrightarrow> ok (reindex g i e)"
    and copied: "ok e \<Longrightarrow> same (norm (reindex g i e)) e"
begin

lemma ready_parse:
  assumes "ready_for (from_line, key, ok) f es g L" and "ok e"
  shows "parse_lines from_line 1 (file_lines (append_line (to_line e) f)) = Inr (es @ [norm e])"
  using assms by (intro parse_append) (simp_all add: ready_for_def load_with_Inr)

lemma reads_append:
  assumes "ready_for (from_line, key, ok) f es g L" and "ok e" and "key e = (g, int (length L))"
  shows "reads_as (from_line, key, ok) (append_line (to_line e) f) (es @ [norm e]) g (L @ [norm e])"
proof -
  have gen: "generation_ok key (es @ [norm e]) g (L @ [norm e])"
    using assms by (intro generation_append) (auto simp: ready_for_def)
  moreover have "distinct (map key (es @ [norm e]))"
    using gen unfolding generation_defs by blast
  ultimately show ?thesis
    using ready_parse [OF assms(1,2)] assms norm_ok by (auto simp: reads_as_def ready_for_def load_with_Inr)
qed

lemma reads_gap:
  assumes "ready_for (from_line, key, ok) f es g L" and "ok e" and "key e = (g, int i)" and "length L < i"
  shows "rbind (load_with from_line key (append_line (to_line e) f)) (latest_generation key) =
    Inl (NonContiguous g (int i) (length L))"
proof -
  have at: "generation_at key es g L" using assms(1) by (simp add: ready_for_def)
  have k: "key (norm e) = (g, int i)" using assms(3) by simp
  have "key (norm e) \<notin> set (map key es)"
    using generation_last(1) [OF at k] assms(4) by simp
  moreover have "distinct (map key es)" using at unfolding generation_at_def by blast
  ultimately have "load_with from_line key (append_line (to_line e) f) = Inr (es @ [norm e])"
    using ready_parse [OF assms(1,2)] by (auto simp: load_with_Inr)
  with generation_gap [OF at k assms(4)] show ?thesis by simp
qed

lemma latest_reads:
  assumes "rbind (load_with from_line key f) (latest_generation key) = Inr L" and "well_formed (from_line, key, ok) f"
  shows "\<exists>es. reads_as (from_line, key, ok) f es (case L of [] \<Rightarrow> 0 | e # _ \<Rightarrow> fst (key e)) L \<and> (\<forall>e \<in> set L. ok e)"
proof -
  from assms(1) obtain es where es: "load_with from_line key f = Inr es" "latest_generation key es = Inr L"
    by (auto simp: rbind_eq_Inr)
  with assms(2) have ok: "intact f" "\<forall>e \<in> set es. ok e" by (auto simp: well_formed_def)
  have gen: "generation_ok key es (case L of [] \<Rightarrow> 0 | e # _ \<Rightarrow> fst (key e)) L"
    by (rule latest_generation_ok) (use es ok ok_key in \<open>auto simp: load_with_Inr\<close>)
  then have "L = sort_key (index key) (filter (\<lambda>e. fst (key e) = (case L of [] \<Rightarrow> 0 | e # _ \<Rightarrow> fst (key e))) es)"
    unfolding generation_defs by blast
  then have "set L \<subseteq> set es" by (metis filter_is_subset set_sort)
  with gen es(1) ok show ?thesis by (auto simp: reads_as_def)
qed

lemma renumber_append:
  assumes "reads_as (from_line, key, ok) f es g L" and "\<forall>e \<in> set rs. ok e"
  shows "\<exists>es' L'. reads_as (from_line, key, ok) (renumber_with to_line reindex g (length L) rs f) es' g (L @ L') \<and> list_all2 same L' rs"
  using assms
proof (induction rs arbitrary: f es L)
  case (Cons e rs)
  let ?e = "reindex g (int (length L)) e"
  have ok: "ok ?e"
    using Cons.prems(2) reads_generation(1) [OF Cons.prems(1)] by (auto intro: reindex_ok)
  have "reads_as (from_line, key, ok) (append_line (to_line ?e) f) (es @ [norm ?e]) g (L @ [norm ?e])"
    by (rule reads_append [OF reads_ready [OF Cons.prems(1)] ok]) simp
  from Cons.IH [OF this] Cons.prems(2) obtain es' L' where
    "reads_as (from_line, key, ok) (renumber_with to_line reindex g (Suc (length L)) rs (append_line (to_line ?e) f)) es' g
       ((L @ [norm ?e]) @ L')"
    "list_all2 same L' rs" by auto
  then show ?case
    using Cons.prems(2) by (intro exI [of _ es'] exI [of _ "norm ?e # L'"]) (simp add: copied)
qed auto

lemma renumber_new:
  assumes "reads_as (from_line, key, ok) f es g L" and "\<forall>e \<in> set rs. ok e"
  shows "\<exists>es' L'. ready_for (from_line, key, ok) (renumber_with to_line reindex (g + 1) 0 rs f) es' (g + 1) L' \<and> list_all2 same L' rs"
proof (cases rs)
  case (Cons e rs')
  let ?e = "reindex (g + 1) (int 0) e"
  have ok: "ok ?e"
    using assms Cons reads_generation(1) [OF assms(1)] by (auto intro!: reindex_ok)
  have first: "reads_as (from_line, key, ok) (append_line (to_line ?e) f) (es @ [norm ?e]) (g + 1) [norm ?e]"
    using reads_append [OF reads_ready_next [OF assms(1)] ok] by simp
  obtain es' L' where "reads_as (from_line, key, ok)
      (renumber_with to_line reindex (g + 1) (length [norm ?e]) rs' (append_line (to_line ?e) f)) es' (g + 1) ([norm ?e] @ L')"
      "list_all2 same L' rs'"
    using renumber_append [OF first, of rs'] assms(2) Cons by auto
  then show ?thesis
    using Cons assms(2) by (intro exI [of _ es'] exI [of _ "norm ?e # L'"]) (simp add: reads_ready copied)
qed (use reads_ready_next [OF assms(1)] in auto)

end

end
