(* ===== verification/Replay_Facts.thy ===== *)
theory Replay_Facts
  imports Generations
begin

text \<open>
  The replay of workflow effects (\<open>WorkflowEffectReplaySession\<close>): the values a session returned are
  the values the next session over the same decisions returns, without producing any.
\<close>

section \<open>Sessions of workflow effects\<close>

lemma effect_norm_simps [simp]:
  "effect_key (effect_norm e) = effect_key e" "effect_ok e \<Longrightarrow> effect_ok (effect_norm e)"
  "ee_key (effect_norm e) = ee_key e" "ee_kind (effect_norm e) = ee_kind e" "ee_node (effect_norm e) = ee_node e"
  "ee_terminal (effect_norm e) = ee_terminal e" "ee_value (effect_norm e) = sort_keys (ee_value e)"
  by (auto simp: effect_norm_def effect_key_def effect_ok_def plain_sort_keys)

definition same_entry :: "effect_entry \<Rightarrow> effect_entry \<Rightarrow> bool" where
  "same_entry a b \<longleftrightarrow> ee_key a = ee_key b \<and> ee_kind a = ee_kind b \<and> ee_node a = ee_node b \<and>
     ee_terminal a = ee_terminal b \<and> sort_keys (ee_value a) = sort_keys (ee_value b)"

definition effect_reindex :: "int \<Rightarrow> int \<Rightarrow> effect_entry \<Rightarrow> effect_entry" where
  "effect_reindex g i e = e\<lparr>ee_generation := g, ee_index := i\<rparr>"

interpretation effects: generation_journal effect_to_line effect_from_line effect_ok effect_norm effect_key effect_reindex same_entry
  by unfold_locales (auto simp: effect_ok_def effect_key_def effect_reindex_def same_entry_def effect_norm_def plain_sort_keys)

text \<open>The journal as the locale sees it.\<close>

abbreviation effect_type :: "effect_entry entry_type" where
  "effect_type \<equiv> (effect_from_line, effect_key, effect_ok)"

lemma effect_load: "effect_load_entries f = load_with effect_from_line effect_key f"
  by (simp add: effect_load_entries_def load_with_def)

lemma effect_latest: "effect_latest_entries f = rbind (load_with effect_from_line effect_key f) (latest_generation effect_key)"
  by (simp add: effect_latest_entries_def effect_load)

lemma effect_reads_latest: "reads_as effect_type f es g L \<Longrightarrow> effect_latest_entries f = Inr L"
  using reads_latest by (simp add: effect_latest)

lemma effect_gap:
  "ready_for effect_type f es g L \<Longrightarrow> effect_ok e \<Longrightarrow> effect_key e = (g, int i) \<Longrightarrow> length L < i \<Longrightarrow>
   effect_latest_entries (effect_append e f) = Inl (NonContiguous g (int i) (length L))"
  using effects.reads_gap by (simp add: effect_latest effect_append_def)

lemma effect_opened:
  assumes "open_session f = Inr s" and "well_formed effect_type f"
  obtains es where "reads_as effect_type f es (rs_generation s) (rs_previous s)" and "\<forall>e \<in> set (rs_previous s). effect_ok e"
    and "rs_previous_generation s = rs_generation s"
    and "rs_file s = f" "rs_keys s = []" "rs_replayed s = []" "\<not> rs_started s" "rs_calls s = 0"
proof -
  from assms(1) obtain L where L: "rbind (load_with effect_from_line effect_key f) (latest_generation effect_key) = Inr L"
      and s: "s = \<lparr>rs_file = f, rs_previous = L, rs_previous_generation = (case L of [] \<Rightarrow> 0 | e # _ \<Rightarrow> ee_generation e),
        rs_generation = (case L of [] \<Rightarrow> 0 | e # _ \<Rightarrow> ee_generation e), rs_keys = [],
        rs_replayed = [], rs_started = False, rs_calls = 0\<rparr>"
    by (auto simp: open_session_def rbind_eq_Inr effect_latest Let_def)
  have "(case L of [] \<Rightarrow> 0 | e # _ \<Rightarrow> fst (effect_key e)) = (case L of [] \<Rightarrow> 0 | e # _ \<Rightarrow> ee_generation e)"
    by (cases L) (simp_all add: effect_key_def)
  with effects.latest_reads [OF L assms(2)] obtain es where
    "reads_as effect_type f es (rs_generation s) (rs_previous s)" "\<forall>e \<in> set (rs_previous s). effect_ok e"
    by (auto simp: s)
  then show ?thesis by (rule that) (simp_all add: s)
qed

section \<open>What a session has recorded\<close>

definition entry_for :: "effect_entry \<Rightarrow> decision \<Rightarrow> json \<Rightarrow> bool" where
  "entry_for e d v \<longleftrightarrow> ee_key e = dc_key d \<and> ee_kind e = dc_kind d \<and> ee_node e = dc_node d \<and>
     ee_terminal e = ''succeeded'' \<and> sort_keys (ee_value e) = sort_keys v"

definition recorded :: "effect_entry list \<Rightarrow> decision list \<Rightarrow> json list \<Rightarrow> bool" where
  "recorded L ds vs \<longleftrightarrow> length vs = length ds \<and> length ds \<le> length L \<and>
     (\<forall>i < length ds. entry_for (L ! i) (ds ! i) (vs ! i))"

definition matches :: "effect_entry list \<Rightarrow> decision list \<Rightarrow> bool" where
  "matches P ds \<longleftrightarrow> (\<forall>i. i < length P \<longrightarrow> i < length ds \<longrightarrow> ee_key (P ! i) = dc_key (ds ! i))"

lemma same_entry_for: "same_entry a b \<Longrightarrow> entry_for b d v \<Longrightarrow> entry_for a d v"
  by (auto simp: same_entry_def entry_for_def)

lemma recorded_snoc:
  "recorded L ds vs \<Longrightarrow> length ds < length L \<Longrightarrow> entry_for (L ! length ds) d v \<Longrightarrow> recorded L (ds @ [d]) (vs @ [v])"
  by (auto simp: recorded_def nth_append less_Suc_eq)

lemma recorded_append: "recorded L ds vs \<Longrightarrow> recorded (L @ L') ds vs"
  by (auto simp: recorded_def nth_append)

lemma matches_snoc: "matches P (ds @ [d]) \<Longrightarrow> matches P ds"
  by (auto simp: matches_def nth_append split: if_splits)

lemma valid_iff:
  "length ds < longest_valid_prefix (map ee_key P) (map dc_key (ds @ [d])) \<longleftrightarrow>
     length ds < length P \<and> matches P (ds @ [d])"
proof -
  have nths: "xs = ys \<longleftrightarrow> (\<forall>i < length ys. xs ! i = ys ! i)" if "length xs = length ys" for xs ys :: "string list"
    using that by (auto intro: nth_equalityI)
  have "take (Suc (length ds)) (map ee_key P) = map dc_key ds' \<longleftrightarrow> matches P ds'"
    if "length ds < length P" and "length ds' = Suc (length ds)" for ds'
    using that by (subst nths) (auto simp: matches_def)
  from this [of "ds @ [d]"] show ?thesis by (auto simp: less_longest_valid_prefix)
qed

abbreviation renumber :: "int \<Rightarrow> nat \<Rightarrow> effect_entry list \<Rightarrow> journal_file \<Rightarrow> journal_file" where
  "renumber \<equiv> renumber_with effect_to_line effect_reindex"

lemma append_replayed_run: "append_replayed g i rs s = (Inr (), s\<lparr>rs_file := renumber g i rs (rs_file s)\<rparr>)"
  by (induction g i rs arbitrary: s rule: append_replayed.induct) (simp_all add: append_effect_def effect_append_def effect_reindex_def py_defs)

definition sinv :: "decision list \<Rightarrow> json list \<Rightarrow> session \<Rightarrow> bool" where
  "sinv ds vs s \<longleftrightarrow>
     (\<exists>es L. reads_as effect_type (rs_file s) es (rs_generation s) L \<and> recorded L ds vs \<and>
        (if rs_started s then length L = length ds \<and> \<not> matches (rs_previous s) ds
         else matches (rs_previous s) ds \<and> rs_generation s = rs_previous_generation s \<and>
              rs_replayed s = take (length ds) (rs_previous s) \<and>
              (\<exists>new. L = rs_previous s @ new \<and> length new = length ds - length (rs_previous s)))) \<and>
     rs_keys s = map dc_key ds \<and> (\<forall>e \<in> set (rs_previous s). effect_ok e)"

lemma open_sinv:
  assumes "open_session f = Inr s" and "well_formed effect_type f"
  shows "sinv [] [] s"
  using assms by (rule effect_opened) (auto simp: sinv_def recorded_def matches_def)

section \<open>One step\<close>

definition begin_generation :: "session \<Rightarrow> session" where
  "begin_generation s =
     (if rs_started s then s
      else s\<lparr>rs_generation := rs_previous_generation s + 1,
             rs_file := renumber (rs_previous_generation s + 1) 0 (rs_replayed s) (rs_file s), rs_started := True\<rparr>)"

lemma start_new_generation_run: "start_new_generation s = (Inr (), begin_generation s)"
  by (simp add: start_new_generation_def begin_generation_def append_replayed_run py_bind_def)

abbreviation effect_of :: "session \<Rightarrow> nat \<Rightarrow> decision \<Rightarrow> json \<Rightarrow> effect_entry" where
  "effect_of s i d v \<equiv>
     \<lparr>ee_generation = rs_generation s, ee_index = int i, ee_key = dc_key d, ee_kind = dc_kind d,
      ee_node = dc_node d, ee_value = v, ee_terminal = ''succeeded''\<rparr>"

definition with_key :: "session \<Rightarrow> decision \<Rightarrow> session" where
  "with_key s d = s\<lparr>rs_keys := rs_keys s @ [dc_key d]\<rparr>"

definition replays :: "session \<Rightarrow> decision \<Rightarrow> bool" where
  "replays s d \<longleftrightarrow> length (rs_keys s) < longest_valid_prefix (map ee_key (rs_previous s)) (rs_keys s @ [dc_key d])"

definition before_produce :: "session \<Rightarrow> decision \<Rightarrow> session" where
  "before_produce s d =
     (if length (rs_keys s) < length (rs_previous s) then begin_generation (with_key s d) else with_key s d)"

lemma updates:
  "rs_keys_update (\<lambda>ks. ks @ [dc_key d]) s = with_key s d"
  "rs_calls_update f s = s\<lparr>rs_calls := f (rs_calls s)\<rparr>"
  "rs_replayed_update (\<lambda>es. es @ [e]) s = s\<lparr>rs_replayed := rs_replayed s @ [e]\<rparr>"
  "rs_file_update (effect_append x) s = s\<lparr>rs_file := effect_append x (rs_file s)\<rparr>"
  by (cases s; simp add: with_key_def)+

lemma with_key_fields [simp]:
  "rs_previous (with_key s d) = rs_previous s" "rs_keys (with_key s d) = rs_keys s @ [dc_key d]"
  "rs_calls (with_key s d) = rs_calls s" "rs_file (with_key s d) = rs_file s" "rs_started (with_key s d) = rs_started s"
  "rs_generation (with_key s d) = rs_generation s" "rs_replayed (with_key s d) = rs_replayed s"
  "rs_previous_generation (with_key s d) = rs_previous_generation s"
  by (simp_all add: with_key_def)

lemma run_replays:
  "replays s d \<Longrightarrow> run_or_replay produce d s =
     (case validate_replay_entry (rs_previous s ! length (rs_keys s)) d of
        Inl e \<Rightarrow> (Inl (JournalError e), with_key s d)
      | Inr _ \<Rightarrow> (Inr (ee_value (rs_previous s ! length (rs_keys s))),
                  (with_key s d)\<lparr>rs_replayed := rs_replayed s @ [rs_previous s ! length (rs_keys s)]\<rparr>))"
  by (simp add: run_or_replay_def replays_def py_raise_def py_ret_def py_bind_def py_modify_def py_gets_def
      updates(1,3) split: sum.split)

lemma run_produces:
  "\<not> replays s d \<Longrightarrow> run_or_replay produce d s =
     (let s2 = before_produce s d; s3 = s2\<lparr>rs_calls := rs_calls s2 + 1\<rparr>
      in case produce (rs_calls s2) of
           Inl e \<Rightarrow> (Inl e, s3)
         | Inr v \<Rightarrow> (Inr v, s3\<lparr>rs_file := effect_append (effect_of s2 (length (rs_keys s)) d v) (rs_file s2)\<rparr>))"
  by (simp add: run_or_replay_def replays_def before_produce_def start_new_generation_run
      produce_value_def append_effect_def py_bind_def py_ret_def py_modify_def py_gets_def Let_def
      updates(1,4) split: sum.split)

lemma begin_fields [simp]:
  "rs_previous (begin_generation s) = rs_previous s" "rs_keys (begin_generation s) = rs_keys s"
  "rs_calls (begin_generation s) = rs_calls s" "rs_previous_generation (begin_generation s) = rs_previous_generation s"
  by (simp_all add: begin_generation_def)

lemma before_fields [simp]:
  "rs_previous (before_produce s d) = rs_previous s" "rs_keys (before_produce s d) = rs_keys s @ [dc_key d]"
  "rs_calls (before_produce s d) = rs_calls s" "rs_previous_generation (before_produce s d) = rs_previous_generation s"
  by (simp_all add: before_produce_def)

lemma sinv_replays: "sinv ds vs s \<Longrightarrow> replays s d \<longleftrightarrow> length ds < length (rs_previous s) \<and> matches (rs_previous s) (ds @ [d])"
  using valid_iff [of ds "rs_previous s" d] by (simp add: replays_def sinv_def)

lemma validated: "validate_replay_entry e d = Inr u \<Longrightarrow> entry_for e d (ee_value e)"
  by (auto simp: validate_replay_entry_def entry_for_def split: if_splits)

lemma sinv_replay_step:
  assumes "sinv ds vs s" and "replays s d" and "run_or_replay produce d s = (Inr v, s')"
  shows "sinv (ds @ [d]) (vs @ [v]) s'"
proof -
  let ?P = "rs_previous s" and ?i = "length ds"
  have i: "?i < length ?P" and m: "matches ?P (ds @ [d])"
    using assms(1,2) sinv_replays by auto
  have keys: "rs_keys s = map dc_key ds" using assms(1) by (simp add: sinv_def)
  from assms(2,3) keys have ok: "entry_for (?P ! ?i) d v" and s': "s' = (with_key s d)\<lparr>rs_replayed := rs_replayed s @ [?P ! ?i]\<rparr>"
    by (auto simp: run_replays split: sum.splits dest: validated)
  have "\<not> rs_started s"
    using assms(1) matches_snoc [OF m] by (auto simp: sinv_def)
  with assms(1) i obtain es where *: "reads_as effect_type (rs_file s) es (rs_generation s) ?P" "recorded ?P ds vs"
      "rs_generation s = rs_previous_generation s" "rs_replayed s = take ?i ?P"
    by (auto simp: sinv_def)
  have "recorded ?P (ds @ [d]) (vs @ [v])"
    by (rule recorded_snoc [OF *(2) i ok])
  with * s' m i assms(1) keys \<open>\<not> rs_started s\<close> show ?thesis
    by (auto simp: sinv_def take_Suc_conv_app_nth)
qed

lemma recorded_same:
  assumes "recorded P ds vs" and "list_all2 same_entry L (take (length ds) P)"
  shows "recorded L ds vs" and "length L = length ds"
proof -
  show len: "length L = length ds"
    using assms by (auto simp: recorded_def dest!: list_all2_lengthD)
  have "same_entry (L ! i) (P ! i)" if "i < length ds" for i
    using list_all2_nthD [OF assms(2), of i] that len by simp
  with assms(1) len show "recorded L ds vs"
    by (auto simp: recorded_def intro: same_entry_for)
qed

lemma produced_entry_for: "plain v \<Longrightarrow> entry_for (effect_norm (effect_of s i d v)) d v"
  by (simp add: entry_for_def effect_norm_def)

text \<open>What the file holds when the value of the next call is produced.\<close>

lemma before_produce_ready:
  assumes "sinv ds vs s" and "\<not> replays s d"
  shows "\<exists>es L. ready_for effect_type (rs_file (before_produce s d)) es (rs_generation (before_produce s d)) L \<and>
    recorded L ds vs \<and> length L = length ds \<and>
    (rs_started (before_produce s d) \<longrightarrow> \<not> matches (rs_previous s) (ds @ [d])) \<and>
    (\<not> rs_started (before_produce s d) \<longrightarrow> matches (rs_previous s) (ds @ [d]) \<and>
       rs_generation (before_produce s d) = rs_previous_generation s \<and>
       rs_replayed (before_produce s d) = rs_previous s \<and> (\<exists>new. L = rs_previous s @ new))"
proof -
  let ?P = "rs_previous s" and ?i = "length ds"
  obtain es L where r: "reads_as effect_type (rs_file s) es (rs_generation s) L" and rec: "recorded L ds vs"
      and st: "if rs_started s then length L = ?i \<and> \<not> matches ?P ds
        else matches ?P ds \<and> rs_generation s = rs_previous_generation s \<and> rs_replayed s = take ?i ?P \<and>
          (\<exists>new. L = ?P @ new \<and> length new = ?i - length ?P)"
      and keys: "rs_keys s = map dc_key ds" and ok: "\<forall>e \<in> set ?P. effect_ok e"
    using assms(1) unfolding sinv_def by blast
  have nm: "?i < length ?P \<Longrightarrow> \<not> matches ?P (ds @ [d])"
    using assms(2) sinv_replays [OF assms(1)] by blast
  consider (started) "rs_started s" | (fresh) "\<not> rs_started s" "?i < length ?P" | (past) "\<not> rs_started s" "length ?P \<le> ?i"
    by linarith
  then show ?thesis
  proof cases
    case started
    then have b: "before_produce s d = with_key s d"
      by (simp add: before_produce_def begin_generation_def)
    from started st have "length L = ?i" "\<not> matches ?P (ds @ [d])" using matches_snoc by auto
    with r rec started show ?thesis
      by (intro exI [of _ es] exI [of _ L]) (simp add: b reads_ready)
  next
    case fresh
    then have L: "L = ?P" using st by auto
    have b: "before_produce s d = (with_key s d)\<lparr>rs_generation := rs_generation s + 1,
        rs_file := renumber (rs_generation s + 1) 0 (take ?i ?P) (rs_file s), rs_started := True\<rparr>"
      using fresh st keys by (simp add: before_produce_def begin_generation_def)
    obtain es1 L1 where 1: "ready_for effect_type (renumber (rs_generation s + 1) 0 (take ?i ?P) (rs_file s)) es1 (rs_generation s + 1) L1"
        "list_all2 same_entry L1 (take ?i ?P)"
      using effects.renumber_new [OF r, of "take ?i ?P"] ok by (meson in_set_takeD)
    have "recorded L1 ds vs" "length L1 = ?i" using recorded_same [OF _ 1(2)] rec L by auto
    with 1 nm fresh show ?thesis
      by (intro exI [of _ es1] exI [of _ L1]) (auto simp: b)
  next
    case past
    then have b: "before_produce s d = with_key s d" using keys by (simp add: before_produce_def)
    have "length L = ?i" "\<exists>new. L = ?P @ new" using past st by auto
    moreover have "matches ?P (ds @ [d])"
      using past st by (auto simp: matches_def nth_append)
    ultimately show ?thesis
      using r rec past st
      by (intro exI [of _ es] exI [of _ L]) (auto simp: b reads_ready)
  qed
qed

lemma sinv_generation: "sinv ds vs s \<Longrightarrow> 0 \<le> rs_generation s"
  by (auto simp: sinv_def dest: reads_generation(1))

lemma before_generation: "sinv ds vs s \<Longrightarrow> 0 \<le> rs_generation (before_produce s d)"
proof -
  assume s: "sinv ds vs s"
  then have "\<not> rs_started s \<Longrightarrow> rs_generation s = rs_previous_generation s"
    unfolding sinv_def by (auto split: if_splits)
  with sinv_generation [OF s] show ?thesis
    by (auto simp: before_produce_def begin_generation_def)
qed

lemma sinv_produce_step:
  assumes "sinv ds vs s" and "\<not> replays s d" and "run_or_replay produce d s = (Inr v, s')" and "plain v"
  shows "sinv (ds @ [d]) (vs @ [v]) s'"
proof -
  let ?b = "before_produce s d" and ?P = "rs_previous s"
  let ?e = "effect_of ?b (length ds) d v"
  have keys: "rs_keys s = map dc_key ds" and okP: "\<forall>e \<in> set ?P. effect_ok e"
    using assms(1) by (auto simp: sinv_def)
  have s': "s' = ?b\<lparr>rs_calls := rs_calls s + 1, rs_file := effect_append ?e (rs_file ?b)\<rparr>"
    using assms(3) keys by (auto simp: run_produces [OF assms(2)] Let_def split: sum.splits)
  have ok: "effect_ok ?e" using assms(4) before_generation [OF assms(1)] by (simp add: effect_ok_def)
  from before_produce_ready [OF assms(1,2)] obtain es L where
    ready: "ready_for effect_type (rs_file ?b) es (rs_generation ?b) L"
    and rec: "recorded L ds vs" "length L = length ds"
    and started: "rs_started ?b \<Longrightarrow> \<not> matches ?P (ds @ [d])"
    and other: "\<not> rs_started ?b \<Longrightarrow> matches ?P (ds @ [d]) \<and> rs_generation ?b = rs_previous_generation s \<and>
      rs_replayed ?b = ?P \<and> (\<exists>new. L = ?P @ new)"
    by blast
  have r: "reads_as effect_type (effect_append ?e (rs_file ?b)) (es @ [effect_norm ?e]) (rs_generation ?b) (L @ [effect_norm ?e])"
    unfolding effect_append_def by (rule effects.reads_append [OF ready ok]) (simp add: effect_key_def rec(2))
  have "recorded (L @ [effect_norm ?e]) (ds @ [d]) (vs @ [v])"
    using rec by (intro recorded_snoc recorded_append) (auto simp: nth_append produced_entry_for [OF assms(4)])
  moreover have "\<exists>new. L @ [effect_norm ?e] = ?P @ new \<and> length new = Suc (length ds) - length ?P" 
    and "length ?P \<le> length ds" if "\<not> rs_started ?b"
    using other [OF that] rec(2) by auto
  ultimately show ?thesis
    using r rec(2) started other keys okP unfolding sinv_def s'
    by (intro conjI exI [of _ "es @ [effect_norm ?e]"] exI [of _ "L @ [effect_norm ?e]"]) auto
qed

section \<open>Whole sessions\<close>

text \<open>A session over a list of calls: each has its decision and what its producer would return.\<close>

type_synonym call = "(nat \<Rightarrow> replay_error + json) \<times> decision"

fun run_session :: "call list \<Rightarrow> json list spy" where
  "run_session [] = py_ret []"
| "run_session ((produce, d) # cs) =
     py_bind (run_or_replay produce d) (\<lambda>v. py_bind (run_session cs) (\<lambda>vs. py_ret (v # vs)))"

lemma run_session_Cons:
  "run_session ((produce, d) # cs) s = (Inr ws, s') \<longleftrightarrow>
     (\<exists>v s1 vs. run_or_replay produce d s = (Inr v, s1) \<and> run_session cs s1 = (Inr vs, s') \<and> ws = v # vs)"
  by (auto simp: py_bind_def py_ret_def split: prod.splits sum.splits)

definition produced :: "session \<Rightarrow> nat" where
  "produced s = length (rs_keys s) - longest_valid_prefix (map ee_key (rs_previous s)) (rs_keys s)"

lemma prefix_snoc:
  "longest_valid_prefix ps (cs @ [c]) =
     (if length cs < longest_valid_prefix ps (cs @ [c]) then Suc (length cs) else longest_valid_prefix ps cs)"
proof (induction ps arbitrary: cs)
  case (Cons p ps)
  show ?case
  proof (cases cs)
    case Nil
    then show ?thesis by simp
  next
    case (Cons c' cs')
    with Cons.IH [of cs'] show ?thesis by auto
  qed
qed simp

lemma prefix_full: "length cs < longest_valid_prefix ps (cs @ [c]) \<Longrightarrow> longest_valid_prefix ps cs = length cs"
  by (induction ps arbitrary: cs) (auto, case_tac cs, auto split: if_splits)

lemma produced_step:
  assumes "run_or_replay produce d s = (Inr v, s')" and "rs_calls s = produced s"
  shows "rs_calls s' = produced s'"
proof (cases "replays s d")
  case True
  with assms(1) have s': "s' = (with_key s d)\<lparr>rs_replayed := rs_replayed s @ [rs_previous s ! length (rs_keys s)]\<rparr>"
    by (auto simp: run_replays split: sum.splits)
  from True have less: "length (rs_keys s) < longest_valid_prefix (map ee_key (rs_previous s)) (rs_keys s @ [dc_key d])"
    by (simp add: replays_def)
  show ?thesis
    using assms(2) prefix_full [OF less] less prefix_snoc [of "map ee_key (rs_previous s)" "rs_keys s" "dc_key d"]
    by (simp add: s' produced_def)
next
  case False
  with assms(1) have s': "rs_calls s' = rs_calls s + 1" "rs_keys s' = rs_keys s @ [dc_key d]" "rs_previous s' = rs_previous s"
    by (auto simp: run_produces Let_def split: sum.splits)
  from False have "longest_valid_prefix (map ee_key (rs_previous s)) (rs_keys s @ [dc_key d]) =
      longest_valid_prefix (map ee_key (rs_previous s)) (rs_keys s)"
    using prefix_snoc [of "map ee_key (rs_previous s)" "rs_keys s" "dc_key d"] by (simp add: replays_def)
  then show ?thesis
    using assms(2) s' prefix_le(2) [of "map ee_key (rs_previous s)" "rs_keys s"] by (simp add: produced_def Suc_diff_le)
qed

lemma sinv_step:
  assumes "sinv ds vs s" and "run_or_replay produce d s = (Inr v, s')" and "plain v"
  shows "sinv (ds @ [d]) (vs @ [v]) s'"
  using assms sinv_replay_step sinv_produce_step by (cases "replays s d") blast+

lemma run_session_keeps:
  assumes "run_session cs s = (Inr ws, s')" and "sinv ds vs s" and "\<forall>v \<in> set ws. plain v" and "rs_calls s = produced s"
  shows "sinv (ds @ map snd cs) (vs @ ws) s' \<and> rs_calls s' = produced s'"
  using assms
proof (induction cs arbitrary: s ws ds vs)
  case (Cons c cs)
  obtain produce d where c: "c = (produce, d)" by (cases c)
  with Cons.prems(1) obtain v s1 vs1 where 1: "run_or_replay produce d s = (Inr v, s1)"
      "run_session cs s1 = (Inr vs1, s')" "ws = v # vs1"
    using run_session_Cons by auto
  with Cons.prems have "sinv (ds @ [d]) (vs @ [v]) s1" "rs_calls s1 = produced s1"
    using sinv_step produced_step by auto
  with Cons.IH [OF 1(2), of "ds @ [d]" "vs @ [v]"] Cons.prems(3) 1(3) c show ?case by simp
qed (auto simp: py_ret_def)

section \<open>Replaying a session\<close>

text \<open>A session that has only replayed the entries of its previous generation.\<close>

definition replaying :: "effect_entry list \<Rightarrow> journal_file \<Rightarrow> decision list \<Rightarrow> session \<Rightarrow> bool" where
  "replaying L f ds s \<longleftrightarrow> rs_previous s = L \<and> rs_file s = f \<and> rs_keys s = map dc_key ds \<and> rs_calls s = 0 \<and> \<not> rs_started s"

lemma entry_validates: "entry_for e d v \<Longrightarrow> validate_replay_entry e d = Inr ()"
  by (simp add: entry_for_def validate_replay_entry_def)

lemma replaying_step:
  assumes "replaying L f ds s" and "recorded L (ds @ d # ds') (vs @ v # vs')" and "length vs = length ds"
  shows "\<exists>w s'. run_or_replay produce d s = (Inr w, s') \<and> sort_keys w = sort_keys v \<and> replaying L f (ds @ [d]) s'"
proof -
  have i: "length ds < length L" and e: "entry_for (L ! length ds) d v"
    and keys: "\<And>i. i < length ds \<Longrightarrow> ee_key (L ! i) = dc_key (ds ! i)"
  proof -
    show "length ds < length L" using assms(2) by (simp add: recorded_def)
    have "\<forall>i < length (ds @ d # ds'). entry_for (L ! i) ((ds @ d # ds') ! i) ((vs @ v # vs') ! i)"
      using assms(2) unfolding recorded_def by blast
    from spec [OF this, of "length ds"] have "entry_for (L ! length ds) d ((vs @ v # vs') ! length vs)"
      by (simp add: assms(3))
    then show "entry_for (L ! length ds) d v" by simp
    fix i assume "i < length ds"
    then have "entry_for (L ! i) ((ds @ d # ds') ! i) ((vs @ v # vs') ! i)"
      using assms(2) unfolding recorded_def by simp
    with \<open>i < length ds\<close> show "ee_key (L ! i) = dc_key (ds ! i)" by (simp add: nth_append entry_for_def)
  qed
  have "matches L (ds @ [d])"
    using keys e by (auto simp: matches_def nth_append entry_for_def less_Suc_eq)
  with i assms(1) have "replays s d"
    using valid_iff [of ds L d] by (simp add: replays_def replaying_def)
  with e assms(1) show ?thesis
    by (auto simp: run_replays replaying_def entry_validates entry_for_def)
qed

lemma replaying_session:
  assumes "replaying L f ds s" and "recorded L (ds @ map snd cs) (vs @ vs')" and "length vs = length ds"
  shows "\<exists>ws s'. run_session cs s = (Inr ws, s') \<and> map sort_keys ws = map sort_keys vs' \<and> rs_calls s' = 0 \<and> rs_file s' = f"
  using assms
proof (induction cs arbitrary: s ds vs vs')
  case Nil
  then show ?case by (auto simp: py_ret_def replaying_def recorded_def)
next
  case (Cons c cs)
  obtain produce d where c: "c = (produce, d)" by (cases c)
  with Cons.prems(2,3) obtain v vs'' where vs': "vs' = v # vs''" by (cases vs') (auto simp: recorded_def)
  obtain w s1 where 1: "run_or_replay produce d s = (Inr w, s1)" "sort_keys w = sort_keys v" "replaying L f (ds @ [d]) s1"
    using replaying_step [OF Cons.prems(1), of d "map snd cs" vs v vs'' produce] Cons.prems(2,3) c vs' by auto
  from Cons.IH [OF 1(3), of "vs @ [v]" vs''] Cons.prems(2,3) c vs' obtain ws s' where
    "run_session cs s1 = (Inr ws, s')" "map sort_keys ws = map sort_keys vs''" "rs_calls s' = 0" "rs_file s' = f"
    by auto
  with 1 c vs' show ?case
    by (intro exI [of _ "w # ws"] exI [of _ s']) (simp add: py_bind_def py_ret_def)
qed

lemma reopened:
  assumes "sinv ds vs s"
  shows "\<exists>L s2. open_session (rs_file s) = Inr s2 \<and> replaying L (rs_file s) [] s2 \<and> recorded L ds vs"
proof -
  obtain es L where "reads_as effect_type (rs_file s) es (rs_generation s) L" "recorded L ds vs"
    using assms unfolding sinv_def by blast
  then show ?thesis
    by (intro exI [of _ L]) (auto simp: open_session_def effect_reads_latest Let_def replaying_def)
qed

lemma session_keeps:
  assumes "well_formed effect_type f" and "open_session f = Inr s" and "run_session cs s = (Inr vs, s')" and "\<forall>v \<in> set vs. plain v"
  shows "sinv (map snd cs) vs s'" and "rs_calls s' = produced s'"
proof -
  have s: "sinv [] [] s" "rs_calls s = produced s"
    using assms(1,2) open_sinv [OF assms(2)] 
    by (auto simp: well_formed_def produced_def open_session_def rbind_eq_Inr Let_def)
  from run_session_keeps [OF assms(3) s(1) assms(4) s(2)] show "sinv (map snd cs) vs s'" "rs_calls s' = produced s'"
    by simp_all
qed

text \<open>
  C13: Replay is faithful. Take a run whose effect journal is a sequence of complete lines with
  well-formed entries, and a session over it that returned the values \<open>vs\<close> for the calls \<open>cs\<close>. Then the
  journal opens again, and a new session over the same decisions, whatever its producers would now
  return, gives the same values (equal as Python values: up to the order of dictionary keys), calls
  no producer and writes nothing.
\<close>

theorem a_second_session_replays_the_values:
  assumes "well_formed effect_type f" and "open_session f = Inr s" and "run_session cs s = (Inr vs, s')"
    and "\<forall>v \<in> set vs. plain v" and "map snd cs' = map snd cs"
  shows "\<exists>s2 ws s3. open_session (rs_file s') = Inr s2 \<and> run_session cs' s2 = (Inr ws, s3) \<and>
    map sort_keys ws = map sort_keys vs \<and> rs_calls s3 = 0 \<and> rs_file s3 = rs_file s'"
proof -
  obtain L s2 where 2: "open_session (rs_file s') = Inr s2" "replaying L (rs_file s') [] s2" "recorded L (map snd cs) vs"
    using reopened [OF session_keeps(1) [OF assms(1-4)]] by blast
  with replaying_session [of L "rs_file s'" "[]" s2 cs' "[]" vs] assms(5) show ?thesis by auto
qed

text \<open>
  C14: Replay recomputes as little as it can. Over a session the number of values produced is the
  number of calls past the longest prefix of keys that the previous generation and the new one
  share; the latest generation of the journal then starts with the session's calls and values.
\<close>

theorem only_calls_past_the_shared_prefix_are_produced:
  assumes "well_formed effect_type f" and "open_session f = Inr s" and "run_session cs s = (Inr vs, s')" and "\<forall>v \<in> set vs. plain v"
  shows "rs_calls s' = length cs - longest_valid_prefix (map ee_key (rs_previous s)) (map (dc_key \<circ> snd) cs) \<and>
    (\<exists>L. effect_latest_entries (rs_file s') = Inr L \<and> recorded L (map snd cs) vs)"
proof -
  note k = session_keeps [OF assms]
  have keys: "rs_keys s' = map (dc_key \<circ> snd) cs" using k(1) by (simp add: sinv_def)
  have "rs_previous s1 = rs_previous s" if "run_session cs s = (Inr vs, s1)" for cs vs s s1
    using that
  proof (induction cs arbitrary: s vs)
    case (Cons c cs)
    obtain produce d where c: "c = (produce, d)" by (cases c)
    with Cons.prems obtain v s2 vs2 where 1: "run_or_replay produce d s = (Inr v, s2)" "run_session cs s2 = (Inr vs2, s1)"
      using run_session_Cons by auto
    have "rs_previous s2 = rs_previous s"
      using 1(1) by (cases "replays s d") (auto simp: run_replays run_produces Let_def split: sum.splits)
    with Cons.IH [OF 1(2)] show ?case by simp
  qed (simp add: py_ret_def)
  with assms(3) have "rs_previous s' = rs_previous s" by blast
  moreover obtain es L where "reads_as effect_type (rs_file s') es (rs_generation s') L" "recorded L (map snd cs) vs"
    using k(1) unfolding sinv_def by blast
  ultimately show ?thesis
    using k(2) keys by (auto simp: produced_def dest: effect_reads_latest)
qed

section \<open>A value that is not produced\<close>

lemma begin_twice: "begin_generation (begin_generation s) = begin_generation s"
  by (simp add: begin_generation_def)

lemma unproduced_then_produced:
  assumes "sinv ds vs s" and "run_or_replay produce d s = (Inl err, s1)" and "rs_calls s1 = Suc (rs_calls s)"
    and "run_or_replay produce' d' s1 = (Inr v, s2)" and "plain v"
  shows "open_session (rs_file s2) = Inl (NonContiguous (rs_generation s1) (int (Suc (length ds))) (length ds))"
proof -
  let ?P = "map ee_key (rs_previous s)" and ?b = "before_produce s d"
  have keys: "rs_keys s = map dc_key ds" using assms(1) by (simp add: sinv_def)
  have nr: "\<not> replays s d"
    using assms(2,3) by (auto simp: run_replays split: sum.splits)
  then have s1: "s1 = ?b\<lparr>rs_calls := Suc (rs_calls s)\<rparr>"
    using assms(2) by (auto simp: run_produces Let_def split: sum.splits)
  have "\<not> replays s1 d'"
    using nr prefix_full [of "rs_keys s @ [dc_key d]" ?P "dc_key d'"] by (auto simp: replays_def s1)
  moreover have "rs_file (before_produce s1 d') = rs_file s1 \<and> rs_generation (before_produce s1 d') = rs_generation s1"
    using keys by (auto simp: before_produce_def s1 begin_generation_def)
  ultimately have s2: "rs_file s2 = effect_append (effect_of s1 (Suc (length ds)) d' v) (rs_file s1)"
    using assms(4) keys by (auto simp: run_produces Let_def s1 split: sum.splits)
  obtain es L where ready: "ready_for effect_type (rs_file ?b) es (rs_generation ?b) L" "length L = length ds"
    using before_produce_ready [OF assms(1) nr] by blast
  have "effect_ok (effect_of s1 (Suc (length ds)) d' v)"
    using assms(5) before_generation [OF assms(1), of d] by (simp add: effect_ok_def s1)
  from effect_gap [OF ready(1) this, of "Suc (length ds)"] ready(2)
  have "effect_latest_entries (rs_file s2) = Inl (NonContiguous (rs_generation s1) (int (Suc (length ds))) (length ds))"
    by (simp add: s2 s1 effect_key_def)
  then show ?thesis by (simp add: open_session_def)
qed

text \<open>
  A production that raises uses up its position. After calls \<open>cs\<close> that succeeded, let a
  producer be called and raise, and let the session continue with a call whose value is produced:
  that value is journalled at the position after the gap, and the journal can never be opened again.
\<close>

theorem a_raising_producer_spoils_the_journal:
  assumes "well_formed effect_type f" and "open_session f = Inr s" and "run_session cs s = (Inr vs, s')" and "\<forall>v \<in> set vs. plain v"
    and "run_or_replay produce d s' = (Inl err, s1)" and "rs_calls s1 = Suc (rs_calls s')"
    and "run_or_replay produce' d' s1 = (Inr v, s2)" and "plain v"
  shows "open_session (rs_file s2) = Inl (NonContiguous (rs_generation s1) (int (Suc (length cs))) (length cs))"
  using unproduced_then_produced [OF session_keeps(1) [OF assms(1-4)] assms(5-8)] by simp

section \<open>Witnesses\<close>

definition demo_calls :: "call list" where
  "demo_calls =
     [(\<lambda>n. Inr (JStr ''2026-01-01''), \<lparr>dc_key = ''k0'', dc_kind = ''time'', dc_node = ''n0''\<rparr>),
      (\<lambda>n. Inr (JFloat ''0.5''), \<lparr>dc_key = ''k1'', dc_kind = ''random'', dc_node = ''n1''\<rparr>)]"

definition demo_start :: session where
  "demo_start = (case open_session None of Inr s \<Rightarrow> s)"

lemma demo_open: "well_formed effect_type None" "open_session None = Inr demo_start"
  by (simp_all add: well_formed_def intact_def load_with_def effect_load_entries_def file_lines_def demo_start_def open_session_def
      effect_latest_entries_def latest_generation_def splitlines_def)

lemma demo_run: "run_session demo_calls demo_start = (Inr [JStr ''2026-01-01'', JFloat ''0.5''], snd (run_session demo_calls demo_start))"
  by code_simp

lemma demo_plain: "\<forall>v \<in> set [JStr ''2026-01-01'', JFloat ''0.5'']. plain v"
  by (simp add: float_text_def) code_simp

theorem a_second_session_replays_the_values_witness:
  "\<exists>s2 ws s3. open_session (rs_file (snd (run_session demo_calls demo_start))) = Inr s2 \<and>
     run_session demo_calls s2 = (Inr ws, s3) \<and> map sort_keys ws = [JStr ''2026-01-01'', JFloat ''0.5''] \<and>
     rs_calls s3 = 0 \<and> rs_file s3 = rs_file (snd (run_session demo_calls demo_start))"
  using a_second_session_replays_the_values [OF demo_open demo_run demo_plain refl] by simp

theorem only_calls_past_the_shared_prefix_are_produced_witness:
  "rs_calls (snd (run_session demo_calls demo_start)) = 2"
  using only_calls_past_the_shared_prefix_are_produced [OF demo_open demo_run demo_plain]
  by (simp add: demo_calls_def demo_start_def open_session_def effect_latest_entries_def effect_load_entries_def
      file_lines_def latest_generation_def splitlines_def)

definition demo_failed :: session where
  "demo_failed = snd (run_or_replay (\<lambda>n. Inl EmptyChoice) \<lparr>dc_key = ''k0'', dc_kind = ''random'', dc_node = ''n0''\<rparr> demo_start)"

definition demo_next :: session where
  "demo_next = snd (run_or_replay (\<lambda>n. Inr JNull) \<lparr>dc_key = ''k1'', dc_kind = ''random'', dc_node = ''n1''\<rparr> demo_failed)"

theorem a_raising_producer_spoils_the_journal_witness:
  "open_session (rs_file demo_next) = Inl (NonContiguous 0 1 0)"
proof -
  have "run_session [] demo_start = (Inr [], demo_start)" by (simp add: py_ret_def)
  moreover have "run_or_replay (\<lambda>n. Inl EmptyChoice) \<lparr>dc_key = ''k0'', dc_kind = ''random'', dc_node = ''n0''\<rparr> demo_start =
      (Inl EmptyChoice, demo_failed)"
    by code_simp
  moreover have "rs_calls demo_failed = Suc (rs_calls demo_start)" "rs_generation demo_failed = 0" by code_simp+
  moreover have "run_or_replay (\<lambda>n. Inr JNull) \<lparr>dc_key = ''k1'', dc_kind = ''random'', dc_node = ''n1''\<rparr> demo_failed =
      (Inr JNull, demo_next)"
    by code_simp
  ultimately show ?thesis
    using a_raising_producer_spoils_the_journal [OF demo_open, of "[]" "[]"] by simp
qed

end
