(* ===== verification/Replay_Agent.thy ===== *)
theory Replay_Agent
  imports Replay
begin

text \<open>
  Replay of agent tasks: \<open>AgentReplaySession\<close> of \<open>journal.py\<close>, the identity of an \<open>AgentTask\<close>
  (\<open>effects/agent.py\<close>), and the handlers \<open>journaled_agent.py\<close> and \<open>journaled_workspace.py\<close>. A delegate is
  what it does at its \<open>n\<close>-th call. The progress stream is written at the clock's time and may fail.
\<close>

section \<open>Tasks\<close>

record agent_task =
  at_run :: string
  at_node :: string
  at_attempt :: int
  at_prompt :: string
  at_context :: string
  at_schema :: json
  at_agent :: string
  at_phase :: "string option"
  at_profile :: "string option"
  at_model :: "string option"
  at_effort :: "string option"
  at_identity :: "resolved_identity option"

definition is_alnum :: "char \<Rightarrow> bool" where
  "is_alnum c \<longleftrightarrow>
     (let n = code c
      in 48 \<le> n \<and> n \<le> 57 \<or> 65 \<le> n \<and> n \<le> 90 \<or> 97 \<le> n \<and> n \<le> 122 \<or>
         n \<in> {170, 178, 179, 181, 185, 186, 188, 189, 190} \<or> 192 \<le> n \<and> n \<noteq> 215 \<and> n \<noteq> 247)"

definition deterministic_session_id :: "string \<Rightarrow> string \<Rightarrow> int \<Rightarrow> string" where
  "deterministic_session_id run node attempt =
     map (\<lambda>c. if is_alnum c \<or> c \<in> set ''-_.'' then c else CHR ''-'') (run @ ''-'' @ node @ ''-'' @ int_str attempt)"

definition session_node_key :: "(string \<Rightarrow> string) \<Rightarrow> agent_task \<Rightarrow> string" where
  "session_node_key sha t =
     (case at_identity t of
        None \<Rightarrow> at_node t
      | Some i \<Rightarrow> at_node t @ ''-'' @ take 8 (resolved_identity_fingerprint sha i))"

definition worker_prompt :: "agent_task \<Rightarrow> string" where
  "worker_prompt t = at_prompt t @ at_context t"

definition task_session_id :: "(string \<Rightarrow> string) \<Rightarrow> agent_task \<Rightarrow> string" where
  "task_session_id sha t = deterministic_session_id (at_run t) (session_node_key sha t) (at_attempt t)"

fun split_on :: "char \<Rightarrow> string \<Rightarrow> string list" where
  "split_on sep [] = [[]]"
| "split_on sep (c # s) =
     (if c = sep then [] # split_on sep s
      else (case split_on sep s of [] \<Rightarrow> [[c]] | p # ps \<Rightarrow> (c # p) # ps))"

definition resolve_agent_task_identity :: "agent_task \<Rightarrow> resolved_identity" where
  "resolve_agent_task_identity t =
     (case at_identity t of
        Some i \<Rightarrow> i
      | None \<Rightarrow> \<lparr>ri_adapter = at_agent t, ri_model = Some (case at_model t of None \<Rightarrow> [] | Some m \<Rightarrow> m),
                ri_identity = at_profile t, ri_effort = at_effort t\<rparr>)"

record agent_decision =
  ad_key :: string
  ad_fingerprint :: string
  ad_node :: string

definition agent_replay_decision :: "(string \<Rightarrow> string) \<Rightarrow> agent_task \<Rightarrow> agent_decision" where
  "agent_replay_decision sha t =
     (let identity = resolve_agent_task_identity t
      in \<lparr>ad_key = agent_cache_key sha (JStr (at_prompt t)) (at_schema t) identity,
          ad_fingerprint = resolved_identity_fingerprint sha identity,
          ad_node = node_identity_fingerprint sha (at_run t) (filter (\<lambda>p. p \<noteq> []) (split_on (CHR ''/'') (at_node t))) []\<rparr>)"

section \<open>Sessions\<close>

datatype (plugins only: code size) delegate_outcome =
    Returned json
  | Exhausted string int string string \<comment> \<open>session id, attempts, last error's kind and message\<close>
  | PastDeadline string json json \<comment> \<open>session id, deadline and elapsed seconds\<close>
  | Raised string

text \<open>The outside world of a session: SHA-256, the validator's library, the clock, whether a progress write succeeds.\<close>

record agent_world =
  aw_sha :: "string \<Rightarrow> string"
  aw_lib :: python_lib
  aw_clock :: "nat \<Rightarrow> string"
  aw_writable :: "nat \<Rightarrow> bool"

record agent_session =
  as_file :: journal_file
  as_progress :: journal_file
  as_previous :: "agent_entry list"
  as_previous_generation :: int
  as_generation :: int
  as_keys :: "string list"
  as_replayed :: "agent_entry list"
  as_started :: bool
  as_calls :: nat
  as_emits :: nat

type_synonym 'a apy = "(replay_error, agent_session, 'a) py"

definition open_agent_session :: "journal_file \<Rightarrow> journal_file \<Rightarrow> journal_error + agent_session" where
  "open_agent_session f progress =
     rbind (agent_latest_entries f) (\<lambda>previous.
       (let g = (case previous of [] \<Rightarrow> 0 | e # _ \<Rightarrow> ae_generation e)
        in Inr \<lparr>as_file = f, as_progress = progress, as_previous = previous, as_previous_generation = g,
                as_generation = g, as_keys = [], as_replayed = [], as_started = False, as_calls = 0, as_emits = 0\<rparr>))"

definition progress_entry_of ::
    "agent_world \<Rightarrow> nat \<Rightarrow> agent_task \<Rightarrow> agent_decision \<Rightarrow> string \<Rightarrow> string option \<Rightarrow> progress_entry" where
  "progress_entry_of W n t d status terminal =
     \<lparr>pe_node_id = at_node t, pe_node_identity = ad_node d, pe_session_key = session_node_key (aw_sha W) t,
      pe_session = task_session_id (aw_sha W) t, pe_attempt = at_attempt t, pe_phase = at_phase t,
      pe_status = status, pe_terminal = terminal, pe_at = aw_clock W n\<rparr>"

text \<open>Fail-open: a failed write leaves the stream as it is and is swallowed.\<close>

definition emit_progress :: "agent_world \<Rightarrow> agent_task \<Rightarrow> agent_decision \<Rightarrow> string \<Rightarrow> string option \<Rightarrow> unit apy" where
  "emit_progress W t d status terminal =
     py_modify (\<lambda>s. s\<lparr>as_emits := as_emits s + 1,
       as_progress := (if aw_writable W (as_emits s)
          then progress_append (progress_entry_of W (as_emits s) t d status terminal) (as_progress s) else as_progress s)\<rparr>)"

definition append_agent :: "agent_entry \<Rightarrow> unit apy" where
  "append_agent e = py_modify (as_file_update (agent_append e))"

definition append_outcome :: "agent_decision \<Rightarrow> nat \<Rightarrow> json \<Rightarrow> string \<Rightarrow> unit apy" where
  "append_outcome d i artifact terminal =
     py_bind (py_gets as_generation) (\<lambda>g.
     append_agent \<lparr>ae_generation = g, ae_index = int i, ae_key = ad_key d, ae_fingerprint = ad_fingerprint d,
                   ae_node = ad_node d, ae_artifact = artifact, ae_terminal = terminal\<rparr>)"

definition append_open_gate_entry :: "agent_decision \<Rightarrow> nat \<Rightarrow> json \<Rightarrow> unit apy" where
  "append_open_gate_entry d i artifact = append_outcome d i artifact ''open-gate''"

definition append_replayed_entry :: "agent_entry \<Rightarrow> int \<Rightarrow> unit apy" where
  "append_replayed_entry e i =
     py_bind (py_gets as_generation) (\<lambda>g. append_agent (e\<lparr>ae_generation := g, ae_index := i\<rparr>))"

fun append_replayed_entries :: "nat \<Rightarrow> agent_entry list \<Rightarrow> unit apy" where
  "append_replayed_entries i [] = py_ret ()"
| "append_replayed_entries i (e # es) =
     py_bind (append_replayed_entry e (int i)) (\<lambda>_. append_replayed_entries (Suc i) es)"

definition agent_start_new_generation :: "unit apy" where
  "agent_start_new_generation =
     py_bind (py_gets as_started) (\<lambda>started.
     if started then py_ret ()
     else
       py_bind (py_modify (\<lambda>s. s\<lparr>as_generation := as_previous_generation s + 1\<rparr>)) (\<lambda>_.
       py_bind (py_gets as_replayed) (\<lambda>replayed.
       py_bind (append_replayed_entries 0 replayed) (\<lambda>_.
       py_modify (\<lambda>s. s\<lparr>as_started := True\<rparr>)))))"

definition validate_agent_replay_entry ::
    "agent_world \<Rightarrow> agent_entry \<Rightarrow> agent_task \<Rightarrow> agent_decision \<Rightarrow> replay_error + unit" where
  "validate_agent_replay_entry W e t d =
     (if ae_key e \<noteq> ad_key d then Inl (JournalError (KeyMismatch (ae_index e)))
      else if ae_fingerprint e \<noteq> ad_fingerprint d then Inl (JournalError (FingerprintMismatch (ae_index e)))
      else if ae_terminal e \<noteq> ''succeeded'' then Inl (JournalError (UnsupportedTerminal (ae_index e)))
      else
        (case validate_result_payload (aw_lib W) (ae_artifact e) (at_schema t) of
           Inr _ \<Rightarrow> Inr ()
         | Inl (Reason r) \<Rightarrow> Inl (JournalError (InvalidArtifact (ae_index e) r))
         | Inl Crash \<Rightarrow> Inl ValidatorCrashed))"

definition validate_delegate_result :: "agent_world \<Rightarrow> agent_task \<Rightarrow> json \<Rightarrow> replay_error + unit" where
  "validate_delegate_result W t result =
     (case validate_result_payload (aw_lib W) result (at_schema t) of
        Inr _ \<Rightarrow> Inr () | Inl (Reason r) \<Rightarrow> Inl (InvalidResult r) | Inl Crash \<Rightarrow> Inl ValidatorCrashed)"

definition call_delegate :: "(nat \<Rightarrow> delegate_outcome) \<Rightarrow> delegate_outcome apy" where
  "call_delegate delegate s = (Inr (delegate (as_calls s)), s\<lparr>as_calls := as_calls s + 1\<rparr>)"

definition exhausted_artifact :: "string \<Rightarrow> int \<Rightarrow> string \<Rightarrow> string \<Rightarrow> json" where
  "exhausted_artifact sid attempts kind msg =
     JObj [(''session_id'', JStr sid), (''attempts'', JInt attempts), (''last_error_kind'', JStr kind),
           (''last_error_message'', JStr msg)]"

definition deadline_artifact :: "string \<Rightarrow> json \<Rightarrow> json \<Rightarrow> json" where
  "deadline_artifact sid deadline elapsed =
     JObj [(''session_id'', JStr sid), (''deadline_seconds'', deadline), (''elapsed_seconds'', elapsed),
           (''reason'', JStr ''wall-clock deadline exceeded'')]"

definition run_delegate_and_append ::
    "agent_world \<Rightarrow> (nat \<Rightarrow> delegate_outcome) \<Rightarrow> agent_task \<Rightarrow> agent_decision \<Rightarrow> nat \<Rightarrow> json apy" where
  "run_delegate_and_append W delegate t d i =
     py_bind (emit_progress W t d ''running'' None) (\<lambda>_.
     py_bind (call_delegate delegate) (\<lambda>outcome.
     case outcome of
       Exhausted sid attempts kind msg \<Rightarrow>
         py_bind (append_open_gate_entry d i (exhausted_artifact sid attempts kind msg)) (\<lambda>_.
         py_bind (emit_progress W t d ''parked'' (Some ''open-gate'')) (\<lambda>_.
         py_raise (AttemptsExhausted (exhausted_artifact sid attempts kind msg))))
     | PastDeadline sid deadline elapsed \<Rightarrow>
         py_bind (append_open_gate_entry d i (deadline_artifact sid deadline elapsed)) (\<lambda>_.
         py_bind (emit_progress W t d ''parked'' (Some ''open-gate'')) (\<lambda>_.
         py_raise (DeadlineExceeded (deadline_artifact sid deadline elapsed))))
     | Raised e \<Rightarrow>
         py_bind (emit_progress W t d ''failed'' None) (\<lambda>_. py_raise (DelegateRaised e))
     | Returned result \<Rightarrow>
         (case validate_delegate_result W t result of
            Inl e \<Rightarrow> py_bind (emit_progress W t d ''failed'' None) (\<lambda>_. py_raise e)
          | Inr _ \<Rightarrow>
              py_bind (append_outcome d i result ''succeeded'') (\<lambda>_.
              py_bind (emit_progress W t d ''succeeded'' (Some ''succeeded'')) (\<lambda>_.
              py_ret result)))))"

definition agent_run_or_replay :: "agent_world \<Rightarrow> (nat \<Rightarrow> delegate_outcome) \<Rightarrow> agent_task \<Rightarrow> json apy" where
  "agent_run_or_replay W delegate t =
     (let d = agent_replay_decision (aw_sha W) t
      in py_bind (py_modify (as_keys_update (\<lambda>ks. ks @ [ad_key d]))) (\<lambda>_.
         py_bind (py_gets (\<lambda>s. length (as_keys s) - 1)) (\<lambda>i.
         py_bind (py_gets (\<lambda>s. (as_previous s, longest_valid_prefix (map ae_key (as_previous s)) (as_keys s))))
           (\<lambda>(previous, valid).
         if i < valid
         then
           (if ae_terminal (previous ! i) \<noteq> ''succeeded''
            then py_bind agent_start_new_generation (\<lambda>_. run_delegate_and_append W delegate t d i)
            else
              (case validate_agent_replay_entry W (previous ! i) t d of
                 Inl e \<Rightarrow> py_raise e
               | Inr _ \<Rightarrow>
                   py_bind (py_modify (as_replayed_update (\<lambda>es. es @ [previous ! i]))) (\<lambda>_.
                   py_bind (py_gets as_started) (\<lambda>started.
                   py_bind (if started then append_replayed_entry (previous ! i) (ae_index (previous ! i)) else py_ret ()) (\<lambda>_.
                   py_bind (emit_progress W t d ''succeeded'' (Some ''succeeded'')) (\<lambda>_.
                   py_ret (ae_artifact (previous ! i))))))))
         else
           py_bind (if i < length previous then agent_start_new_generation else py_ret ()) (\<lambda>_.
           run_delegate_and_append W delegate t d i)))))"

section \<open>Handlers\<close>

text \<open>\<open>jh_disk\<close> holds the agent journal and the progress stream of each run.\<close>

record agent_handler =
  jh_run :: "string option"
  jh_disk :: "string \<Rightarrow> journal_file \<times> journal_file"
  jh_sessions :: "(string, agent_session) dict"

definition handle_agent ::
    "agent_world \<Rightarrow> (nat \<Rightarrow> delegate_outcome) \<Rightarrow> agent_task \<Rightarrow> (replay_error, agent_handler, json) py" where
  "handle_agent W delegate t h =
     (let run = (case jh_run h of None \<Rightarrow> at_run t | Some r \<Rightarrow> if r = [] then at_run t else r)
      in case (case dget (jh_sessions h) run of
                 Some s \<Rightarrow> Inr s
               | None \<Rightarrow> open_agent_session (fst (jh_disk h run)) (snd (jh_disk h run))) of
           Inl e \<Rightarrow> (Inl (JournalError e), h)
         | Inr s \<Rightarrow>
             (let (r, s') = agent_run_or_replay W delegate t s
              in (r, h\<lparr>jh_sessions := dput run s' (jh_sessions h)\<rparr>)))"

end
