(* ===== verification/Replay_Agent_Facts.thy ===== *)
theory Replay_Agent_Facts
  imports Generations Replay_Agent
begin

text \<open>
  What the replay of agent tasks guarantees: an agent whose result is journalled is not run again by
  a later session over the same tasks, one that was parked at a gate is; and the progress stream
  changes nothing else.
\<close>

section \<open>The agent journal\<close>

definition same_agent :: "agent_entry \<Rightarrow> agent_entry \<Rightarrow> bool" where
  "same_agent a b \<longleftrightarrow> ae_key a = ae_key b \<and> ae_fingerprint a = ae_fingerprint b \<and> ae_terminal a = ae_terminal b \<and>
     sort_keys (ae_artifact a) = sort_keys (ae_artifact b) \<and> plain (ae_artifact a) \<and> plain (ae_artifact b)"

definition agent_reindex :: "int \<Rightarrow> int \<Rightarrow> agent_entry \<Rightarrow> agent_entry" where
  "agent_reindex g i e = e\<lparr>ae_generation := g, ae_index := i\<rparr>"

interpretation agents: generation_journal agent_to_line agent_from_line agent_ok agent_norm agent_key agent_reindex same_agent
  by unfold_locales (auto simp: agent_ok_def agent_key_def agent_reindex_def same_agent_def agent_norm_def plain_sort_keys)

text \<open>The journal as the locale sees it.\<close>

abbreviation agent_type :: "agent_entry entry_type" where
  "agent_type \<equiv> (agent_from_line, agent_key, agent_ok)"

lemma agent_latest: "agent_latest_entries f = rbind (load_with agent_from_line agent_key f) (latest_generation agent_key)"
  by (simp add: agent_latest_entries_def agent_load_entries_def load_with_def)

lemma agent_reads_latest: "reads_as agent_type f es g L \<Longrightarrow> agent_latest_entries f = Inr L"
  using reads_latest by (simp add: agent_latest)

lemma agent_gap:
  "ready_for agent_type f es g L \<Longrightarrow> agent_ok e \<Longrightarrow> agent_key e = (g, int i) \<Longrightarrow> length L < i \<Longrightarrow>
   agent_latest_entries (agent_append e f) = Inl (NonContiguous g (int i) (length L))"
  using agents.reads_gap by (simp add: agent_latest agent_append_def)

lemma reads_indices:
  assumes "reads_as (from_line, key, ok) f es g L" and "i < length L"
  shows "snd (key (L ! i)) = int i"
proof -
  have "map (index key) L = map int [0..<length L]"
    using assms(1) unfolding reads_as_def generation_defs by auto
  then have "map (index key) L ! i = map int [0..<length L] ! i" by simp
  with assms(2) show ?thesis by simp
qed

lemma agent_opened:
  assumes "open_agent_session f p = Inr s" and "well_formed agent_type f"
  obtains es where "reads_as agent_type f es (as_generation s) (as_previous s)" and "\<forall>e \<in> set (as_previous s). agent_ok e"
    and "as_previous_generation s = as_generation s"
    and "as_file s = f" "as_keys s = []" "as_replayed s = []" "\<not> as_started s" "as_calls s = 0"
proof -
  from assms(1) obtain L where L: "rbind (load_with agent_from_line agent_key f) (latest_generation agent_key) = Inr L"
      and s: "s = \<lparr>as_file = f, as_progress = p, as_previous = L, as_previous_generation = (case L of [] \<Rightarrow> 0 | e # _ \<Rightarrow> ae_generation e),
        as_generation = (case L of [] \<Rightarrow> 0 | e # _ \<Rightarrow> ae_generation e), as_keys = [],
        as_replayed = [], as_started = False, as_calls = 0, as_emits = 0\<rparr>"
    by (auto simp: open_agent_session_def rbind_eq_Inr agent_latest Let_def)
  have "(case L of [] \<Rightarrow> 0 | e # _ \<Rightarrow> fst (agent_key e)) = (case L of [] \<Rightarrow> 0 | e # _ \<Rightarrow> ae_generation e)"
    by (cases L) (simp_all add: agent_key_def)
  with agents.latest_reads [OF L assms(2)] obtain es where
    "reads_as agent_type f es (as_generation s) (as_previous s)" "\<forall>e \<in> set (as_previous s). agent_ok e"
    by (auto simp: s)
  then show ?thesis by (rule that) (simp_all add: s)
qed

section \<open>Steps of a session\<close>

definition emitted :: "agent_world \<Rightarrow> agent_task \<Rightarrow> agent_decision \<Rightarrow> string \<Rightarrow> string option \<Rightarrow> agent_session \<Rightarrow> agent_session" where
  "emitted W t d status terminal s = snd (emit_progress W t d status terminal s)"

lemma emit_run: "emit_progress W t d status terminal s = (Inr (), emitted W t d status terminal s)"
  by (simp add: emitted_def emit_progress_def)

lemma emitted_fields [simp]:
  "as_file (emitted W t d st tm s) = as_file s" "as_previous (emitted W t d st tm s) = as_previous s"
  "as_previous_generation (emitted W t d st tm s) = as_previous_generation s"
  "as_generation (emitted W t d st tm s) = as_generation s" "as_keys (emitted W t d st tm s) = as_keys s"
  "as_replayed (emitted W t d st tm s) = as_replayed s" "as_started (emitted W t d st tm s) = as_started s"
  "as_calls (emitted W t d st tm s) = as_calls s"
  by (simp_all add: emitted_def emit_progress_def)

text \<open>What a session is but for the progress stream.\<close>

definition core :: "agent_session \<Rightarrow> agent_session" where
  "core s = s\<lparr>as_progress := None, as_emits := 0\<rparr>"

lemma core_eq: "core s = core s' \<longleftrightarrow>
  as_file s = as_file s' \<and> as_previous s = as_previous s' \<and> as_previous_generation s = as_previous_generation s' \<and>
  as_generation s = as_generation s' \<and> as_keys s = as_keys s' \<and> as_replayed s = as_replayed s' \<and>
  as_started s = as_started s' \<and> as_calls s = as_calls s'"
  by (cases s; cases s') (auto simp: core_def)

definition entry_of :: "int \<Rightarrow> agent_decision \<Rightarrow> nat \<Rightarrow> json \<Rightarrow> string \<Rightarrow> agent_entry" where
  "entry_of g d i artifact terminal =
     \<lparr>ae_generation = g, ae_index = int i, ae_key = ad_key d, ae_fingerprint = ad_fingerprint d,
      ae_node = ad_node d, ae_artifact = artifact, ae_terminal = terminal\<rparr>"

definition journal_entry :: "agent_decision \<Rightarrow> nat \<Rightarrow> json \<Rightarrow> string \<Rightarrow> agent_session \<Rightarrow> agent_session" where
  "journal_entry d i artifact terminal s =
     s\<lparr>as_file := agent_append (entry_of (as_generation s) d i artifact terminal) (as_file s)\<rparr>"

lemma append_outcome_run: "append_outcome d i artifact terminal s = (Inr (), journal_entry d i artifact terminal s)"
  by (cases s) (simp add: append_outcome_def append_agent_def journal_entry_def entry_of_def)

abbreviation renumber_agents :: "int \<Rightarrow> nat \<Rightarrow> agent_entry list \<Rightarrow> journal_file \<Rightarrow> journal_file" where
  "renumber_agents \<equiv> renumber_with agent_to_line agent_reindex"

lemma append_replayed_entry_run:
  "append_replayed_entry e i s = (Inr (), s\<lparr>as_file := agent_append (agent_reindex (as_generation s) i e) (as_file s)\<rparr>)"
  by (cases s) (simp add: append_replayed_entry_def append_agent_def agent_reindex_def)

lemma append_replayed_entries_run:
  "append_replayed_entries i es s = (Inr (), s\<lparr>as_file := renumber_agents (as_generation s) i es (as_file s)\<rparr>)"
  by (induction i es arbitrary: s rule: append_replayed_entries.induct)
    (simp_all add: append_replayed_entry_run agent_append_def py_bind_def py_ret_def)

definition begun :: "agent_session \<Rightarrow> agent_session" where
  "begun s =
     (if as_started s then s
      else s\<lparr>as_generation := as_previous_generation s + 1,
             as_file := renumber_agents (as_previous_generation s + 1) 0 (as_replayed s) (as_file s), as_started := True\<rparr>)"

lemma agent_start_run: "agent_start_new_generation s = (Inr (), begun s)"
  by (simp add: agent_start_new_generation_def begun_def append_replayed_entries_run py_bind_def)

definition keyed :: "agent_session \<Rightarrow> agent_decision \<Rightarrow> agent_session" where
  "keyed s d = s\<lparr>as_keys := as_keys s @ [ad_key d]\<rparr>"

lemma agent_updates:
  "as_keys_update (\<lambda>ks. ks @ [ad_key d]) s = keyed s d"
  "as_replayed_update (\<lambda>es. es @ [e]) s = s\<lparr>as_replayed := as_replayed s @ [e]\<rparr>"
  by (cases s; simp add: keyed_def)+

lemma keyed_fields [simp]:
  "as_previous (keyed s d) = as_previous s" "as_keys (keyed s d) = as_keys s @ [ad_key d]" "as_calls (keyed s d) = as_calls s"
  "as_file (keyed s d) = as_file s" "as_started (keyed s d) = as_started s" "as_generation (keyed s d) = as_generation s"
  "as_replayed (keyed s d) = as_replayed s" "as_previous_generation (keyed s d) = as_previous_generation s"
  by (simp_all add: keyed_def)

lemma begun_fields [simp]:
  "as_previous (begun s) = as_previous s" "as_keys (begun s) = as_keys s" "as_calls (begun s) = as_calls s"
  "as_previous_generation (begun s) = as_previous_generation s" "as_replayed (begun s) = as_replayed s"
  by (simp_all add: begun_def)

definition agent_replays :: "agent_session \<Rightarrow> agent_decision \<Rightarrow> bool" where
  "agent_replays s d \<longleftrightarrow>
     length (as_keys s) < longest_valid_prefix (map ae_key (as_previous s)) (as_keys s @ [ad_key d]) \<and>
     ae_terminal (as_previous s ! length (as_keys s)) = ''succeeded''"

definition prepared :: "agent_session \<Rightarrow> agent_decision \<Rightarrow> agent_session" where
  "prepared s d = (if length (as_keys s) < length (as_previous s) then begun (keyed s d) else keyed s d)"

lemma prepared_fields [simp]:
  "as_previous (prepared s d) = as_previous s" "as_keys (prepared s d) = as_keys s @ [ad_key d]"
  "as_calls (prepared s d) = as_calls s" "as_previous_generation (prepared s d) = as_previous_generation s"
  "as_replayed (prepared s d) = as_replayed s"
  by (simp_all add: prepared_def)

text \<open>The session after the entry \<open>e\<close> of the previous generation is replayed.\<close>

definition replayed_with :: "agent_session \<Rightarrow> agent_decision \<Rightarrow> agent_entry \<Rightarrow> agent_session" where
  "replayed_with s d e =
     (if as_started s
      then (keyed s d)\<lparr>as_replayed := as_replayed s @ [e],
             as_file := agent_append (agent_reindex (as_generation s) (ae_index e) e) (as_file s)\<rparr>
      else (keyed s d)\<lparr>as_replayed := as_replayed s @ [e]\<rparr>)"

lemma agent_run_replays:
  assumes "agent_replays s (agent_replay_decision (aw_sha W) t)"
  shows "\<exists>s'. core s' = core (replayed_with s (agent_replay_decision (aw_sha W) t) (as_previous s ! length (as_keys s))) \<and>
    agent_run_or_replay W delegate t s =
     (case validate_agent_replay_entry W (as_previous s ! length (as_keys s)) t (agent_replay_decision (aw_sha W) t) of
        Inl e \<Rightarrow> (Inl e, keyed s (agent_replay_decision (aw_sha W) t))
      | Inr _ \<Rightarrow> (Inr (ae_artifact (as_previous s ! length (as_keys s))), s'))"
proof -
  let ?d = "agent_replay_decision (aw_sha W) t" and ?e = "as_previous s ! length (as_keys s)"
  let ?s = "emitted W t ?d ''succeeded'' (Some ''succeeded'') (replayed_with s ?d ?e)"
  have "core ?s = core (replayed_with s ?d ?e)" by (simp add: core_eq)
  moreover have "agent_run_or_replay W delegate t s =
     (case validate_agent_replay_entry W ?e t ?d of Inl e \<Rightarrow> (Inl e, keyed s ?d) | Inr _ \<Rightarrow> (Inr (ae_artifact ?e), ?s))"
    using assms
    by (simp add: agent_run_or_replay_def agent_replays_def Let_def agent_updates append_replayed_entry_run replayed_with_def
        emit_run py_raise_def py_ret_def py_bind_def py_modify_def py_gets_def split: sum.split)
  ultimately show ?thesis by blast
qed

lemma agent_run_delegates:
  assumes "\<not> agent_replays s (agent_replay_decision (aw_sha W) t)"
  shows "agent_run_or_replay W delegate t s =
    run_delegate_and_append W delegate t (agent_replay_decision (aw_sha W) t) (length (as_keys s))
      (prepared s (agent_replay_decision (aw_sha W) t))"
proof -
  let ?d = "agent_replay_decision (aw_sha W) t" and ?P = "map ae_key (as_previous s)"
  have "longest_valid_prefix ?P (as_keys s @ [ad_key ?d]) \<le> length (as_previous s)"
    using prefix_le(1) [of ?P "as_keys s @ [ad_key ?d]"] by simp
  with assms show ?thesis
    by (auto simp: agent_run_or_replay_def agent_replays_def Let_def agent_updates prepared_def agent_start_run
        py_bind_def py_modify_def py_gets_def py_ret_def)
qed

text \<open>An outcome the journal records: a result that fits the schema, or a gate.\<close>

definition journals :: "agent_world \<Rightarrow> agent_task \<Rightarrow> delegate_outcome \<Rightarrow> (json \<times> string \<times> (replay_error + json)) option" where
  "journals W t outcome =
     (case outcome of
        Returned r \<Rightarrow> (if validate_result_payload (aw_lib W) r (at_schema t) = Inr () then Some (r, ''succeeded'', Inr r) else None)
      | Exhausted sid n k m \<Rightarrow>
          Some (exhausted_artifact sid n k m, ''open-gate'', Inl (AttemptsExhausted (exhausted_artifact sid n k m)))
      | PastDeadline sid a b \<Rightarrow>
          Some (deadline_artifact sid a b, ''open-gate'', Inl (DeadlineExceeded (deadline_artifact sid a b)))
      | Raised e \<Rightarrow> None)"

definition journalled :: "replay_error + json \<Rightarrow> bool" where
  "journalled r = (case r of Inr v \<Rightarrow> plain v | Inl (AttemptsExhausted a) \<Rightarrow> plain a | Inl (DeadlineExceeded a) \<Rightarrow> plain a | _ \<Rightarrow> False)"

definition refusal :: "agent_world \<Rightarrow> agent_task \<Rightarrow> delegate_outcome \<Rightarrow> replay_error" where
  "refusal W t outcome =
     (case outcome of
        Returned r \<Rightarrow> (case validate_delegate_result W t r of Inl e \<Rightarrow> e | _ \<Rightarrow> RunIdRequired)
      | Raised e \<Rightarrow> DelegateRaised e | _ \<Rightarrow> RunIdRequired)"

lemma refused: "journals W t outcome = None \<Longrightarrow> \<not> journalled (Inl (refusal W t outcome))"
  by (auto simp: refusal_def journalled_def journals_def validate_delegate_result_def
      split: delegate_outcome.splits if_splits sum.splits invalid.splits)

lemma delegate_run:
  "\<exists>s'. run_delegate_and_append W delegate t d i s =
      (case journals W t (delegate (as_calls s)) of
         Some (artifact, terminal, r) \<Rightarrow> (r, s')
       | None \<Rightarrow> (Inl (refusal W t (delegate (as_calls s))), s')) \<and>
    core s' = core ((case journals W t (delegate (as_calls s)) of
         Some (artifact, terminal, r) \<Rightarrow> journal_entry d i artifact terminal s | None \<Rightarrow> s)\<lparr>as_calls := as_calls s + 1\<rparr>)"
  by (cases "delegate (as_calls s)")
    (auto simp: run_delegate_and_append_def emit_run call_delegate_def append_outcome_run append_open_gate_entry_def
      journals_def refusal_def validate_delegate_result_def py_bind_def py_raise_def py_ret_def core_eq journal_entry_def
      split: sum.splits invalid.splits)

section \<open>What a session has journalled\<close>

abbreviation decision_of :: "agent_world \<Rightarrow> agent_task \<Rightarrow> agent_decision" where
  "decision_of W t \<equiv> agent_replay_decision (aw_sha W) t"

definition entry_holds :: "agent_world \<Rightarrow> agent_entry \<Rightarrow> agent_task \<Rightarrow> replay_error + json \<Rightarrow> bool" where
  "entry_holds W e t r \<longleftrightarrow> ae_key e = ad_key (decision_of W t) \<and> ae_fingerprint e = ad_fingerprint (decision_of W t) \<and>
     (case r of
        Inr v \<Rightarrow> ae_terminal e = ''succeeded'' \<and> sort_keys (ae_artifact e) = sort_keys v \<and>
          validate_result_payload (aw_lib W) (ae_artifact e) (at_schema t) = Inr ()
      | Inl _ \<Rightarrow> ae_terminal e \<noteq> ''succeeded'')"

definition kept :: "agent_world \<Rightarrow> agent_entry list \<Rightarrow> agent_task list \<Rightarrow> (replay_error + json) list \<Rightarrow> bool" where
  "kept W L ts rs \<longleftrightarrow> length rs = length ts \<and> length ts \<le> length L \<and>
     (\<forall>i < length ts. entry_holds W (L ! i) (ts ! i) (rs ! i))"

definition agrees :: "agent_world \<Rightarrow> agent_entry list \<Rightarrow> agent_task list \<Rightarrow> bool" where
  "agrees W P ts \<longleftrightarrow> (\<forall>i. i < length P \<longrightarrow> i < length ts \<longrightarrow>
     ae_key (P ! i) = ad_key (decision_of W (ts ! i)) \<and> ae_terminal (P ! i) = ''succeeded'')"

lemma same_agent_holds: "same_agent a b \<Longrightarrow> entry_holds W b t r \<Longrightarrow> entry_holds W a t r"
  using validate_sorted [of "ae_artifact a" "aw_lib W" "at_schema t" "''result''"]
    validate_sorted [of "ae_artifact b" "aw_lib W" "at_schema t" "''result''"]
  by (auto simp: same_agent_def entry_holds_def validate_result_payload_def split: sum.splits)

lemma kept_snoc: "kept W L ts rs \<Longrightarrow> length ts < length L \<Longrightarrow> entry_holds W (L ! length ts) t r \<Longrightarrow> kept W L (ts @ [t]) (rs @ [r])"
  by (auto simp: kept_def nth_append less_Suc_eq)

lemma kept_append: "kept W L ts rs \<Longrightarrow> kept W (L @ L') ts rs"
  by (auto simp: kept_def nth_append)

lemma kept_same:
  assumes "kept W P ts rs" and "list_all2 same_agent L (take (length ts) P)"
  shows "kept W L ts rs" and "length L = length ts"
proof -
  show len: "length L = length ts"
    using assms by (auto simp: kept_def dest!: list_all2_lengthD)
  have "same_agent (L ! i) (P ! i)" if "i < length ts" for i
    using list_all2_nthD [OF assms(2), of i] that len by simp
  with assms(1) len show "kept W L ts rs"
    by (auto simp: kept_def intro: same_agent_holds)
qed

lemma agrees_snoc: "agrees W P (ts @ [t]) \<longleftrightarrow> agrees W P ts \<and>
    (length ts < length P \<longrightarrow> ae_key (P ! length ts) = ad_key (decision_of W t) \<and> ae_terminal (P ! length ts) = ''succeeded'')"
  by (auto simp: agrees_def nth_append less_Suc_eq)

definition ainv :: "agent_world \<Rightarrow> agent_task list \<Rightarrow> (replay_error + json) list \<Rightarrow> agent_session \<Rightarrow> bool" where
  "ainv W ts rs s \<longleftrightarrow>
     (\<exists>es L. reads_as agent_type (as_file s) es (as_generation s) L \<and> kept W L ts rs \<and>
        (if as_started s then length L = length ts
         else agrees W (as_previous s) ts \<and> as_generation s = as_previous_generation s \<and>
              as_replayed s = take (length ts) (as_previous s) \<and>
              (\<exists>new. L = as_previous s @ new \<and> length new = length ts - length (as_previous s)))) \<and>
     as_keys s = map (\<lambda>t. ad_key (decision_of W t)) ts \<and> (\<forall>e \<in> set (as_previous s). agent_ok e) \<and>
     (\<forall>i < length (as_previous s). ae_index (as_previous s ! i) = int i)"

lemma open_ainv:
  assumes "open_agent_session f p = Inr s" and "well_formed agent_type f"
  shows "ainv W [] [] s"
  using assms
proof (rule agent_opened)
  fix es
  assume *: "reads_as agent_type f es (as_generation s) (as_previous s)" "\<forall>e \<in> set (as_previous s). agent_ok e"
    "as_previous_generation s = as_generation s" "as_file s = f" "as_keys s = []" "as_replayed s = []" "\<not> as_started s"
  have "ae_index (as_previous s ! i) = int i" if "i < length (as_previous s)" for i
    using reads_indices [OF *(1) that] by (simp add: agent_key_def)
  with * show ?thesis by (auto simp: ainv_def kept_def agrees_def)
qed

lemma ainv_core: "core s = core s' \<Longrightarrow> ainv W ts rs s \<longleftrightarrow> ainv W ts rs s'"
  by (simp add: ainv_def core_eq)

lemma ainv_calls: "ainv W ts rs (s\<lparr>as_calls := n\<rparr>) \<longleftrightarrow> ainv W ts rs s"
  by (simp add: ainv_def)

lemma ainv_generation:
  "ainv W ts rs s \<Longrightarrow> 0 \<le> as_generation s"
  "ainv W ts rs s \<Longrightarrow> \<not> as_started s \<Longrightarrow> as_previous_generation s = as_generation s"
  by (auto simp: ainv_def dest: reads_generation(1))

lemma validated_holds:
  "validate_agent_replay_entry W e t (decision_of W t) = Inr u \<Longrightarrow> entry_holds W e t (Inr (ae_artifact e))"
  by (auto simp: validate_agent_replay_entry_def entry_holds_def split: if_splits sum.splits invalid.splits)

lemma replay_step:
  assumes "ainv W ts rs s" and "agent_replays s (decision_of W t)" and "agent_run_or_replay W delegate t s = (Inr v, s')"
  shows "ainv W (ts @ [t]) (rs @ [Inr v]) s'"
proof -
  let ?d = "decision_of W t" and ?P = "as_previous s" and ?i = "length ts"
  let ?e = "?P ! ?i" and ?s = "replayed_with s ?d (?P ! ?i)"
  have keys: "as_keys s = map (\<lambda>t. ad_key (decision_of W t)) ts" and okP: "\<forall>e \<in> set ?P. agent_ok e"
    and index: "\<forall>i < length ?P. ae_index (?P ! i) = int i"
    using assms(1) by (simp_all add: ainv_def)
  have i: "?i < length ?P"
    using assms(2) prefix_le(1) [of "map ae_key ?P" "as_keys s @ [ad_key ?d]"] by (simp add: agent_replays_def keys)
  obtain s1 where s1: "core s1 = core ?s" "agent_run_or_replay W delegate t s =
     (case validate_agent_replay_entry W ?e t ?d of Inl e \<Rightarrow> (Inl e, keyed s ?d) | Inr _ \<Rightarrow> (Inr (ae_artifact ?e), s1))"
    using agent_run_replays [OF assms(2), of delegate] unfolding keys length_map by blast
  with assms(3) have v: "v = ae_artifact ?e" "s' = s1" and holds: "entry_holds W ?e t (Inr (ae_artifact ?e))"
    by (auto split: sum.splits dest: validated_holds)
  have "ainv W (ts @ [t]) (rs @ [Inr v]) ?s"
  proof (cases "as_started s")
    case True
    then obtain es L where r: "reads_as agent_type (as_file s) es (as_generation s) L" "kept W L ts rs" "length L = ?i"
      using assms(1) by (auto simp: ainv_def)
    let ?n = "agent_reindex (as_generation s) (int ?i) ?e"
    have e: "agent_ok ?e" using okP i by simp
    then have ok: "agent_ok ?n" using ainv_generation(1) [OF assms(1)] by (intro agents.reindex_ok) auto
    have "reads_as agent_type (agent_append ?n (as_file s)) (es @ [agent_norm ?n]) (as_generation s) (L @ [agent_norm ?n])"
      unfolding agent_append_def by (rule agents.reads_append [OF reads_ready [OF r(1)] ok]) (simp add: r(3))
    moreover have "entry_holds W (agent_norm ?n) t (Inr v)"
      using same_agent_holds [OF agents.copied [OF e] holds] v by simp
    then have "kept W (L @ [agent_norm ?n]) (ts @ [t]) (rs @ [Inr v])"
      using r by (intro kept_snoc kept_append) (simp_all add: nth_append)
    ultimately show ?thesis
      using True keys okP index i r(3) unfolding ainv_def replayed_with_def
      by (intro conjI exI [of _ "es @ [agent_norm ?n]"] exI [of _ "L @ [agent_norm ?n]"]) simp_all
  next
    case False
    then obtain es where r: "reads_as agent_type (as_file s) es (as_generation s) ?P" "kept W ?P ts rs"
        "agrees W ?P ts" "as_generation s = as_previous_generation s" "as_replayed s = take ?i ?P"
      using assms(1) i by (auto simp: ainv_def)
    have "kept W ?P (ts @ [t]) (rs @ [Inr v])"
      using kept_snoc [OF r(2) i] holds v by simp
    moreover have "agrees W ?P (ts @ [t])"
      using r(3) holds by (simp add: agrees_snoc entry_holds_def)
    ultimately show ?thesis
      using False keys okP index i r unfolding ainv_def replayed_with_def
      by (intro conjI exI [of _ es] exI [of _ ?P]) (simp_all add: take_Suc_conv_app_nth)
  qed
  with s1(1) v(2) ainv_core show ?thesis by metis
qed

lemma prepared_ready:
  assumes "ainv W ts rs s" and "\<not> agent_replays s (decision_of W t)"
  shows "\<exists>es L. ready_for agent_type (as_file (prepared s d)) es (as_generation (prepared s d)) L \<and>
    kept W L ts rs \<and> length L = length ts \<and>
    (\<not> as_started (prepared s d) \<longrightarrow> agrees W (as_previous s) (ts @ [t]) \<and>
       as_generation (prepared s d) = as_previous_generation s \<and> as_replayed s = as_previous s \<and>
       (\<exists>new. L = as_previous s @ new))"
proof -
  let ?P = "as_previous s" and ?i = "length ts"
  obtain es L where r: "reads_as agent_type (as_file s) es (as_generation s) L" and rec: "kept W L ts rs"
      and st: "if as_started s then length L = ?i
        else agrees W ?P ts \<and> as_generation s = as_previous_generation s \<and> as_replayed s = take ?i ?P \<and>
          (\<exists>new. L = ?P @ new \<and> length new = ?i - length ?P)"
      and keys: "as_keys s = map (\<lambda>t. ad_key (decision_of W t)) ts" and ok: "\<forall>e \<in> set ?P. agent_ok e"
    using assms(1) unfolding ainv_def by blast
  consider (started) "as_started s" | (fresh) "\<not> as_started s" "?i < length ?P" | (past) "\<not> as_started s" "length ?P \<le> ?i"
    by linarith
  then show ?thesis
  proof cases
    case started
    then have "as_file (prepared s d) = as_file s" "as_generation (prepared s d) = as_generation s" "as_started (prepared s d)"
      by (auto simp: prepared_def begun_def)
    with r rec st started show ?thesis
      by (intro exI [of _ es] exI [of _ L]) (simp add: reads_ready)
  next
    case fresh
    then have L: "L = ?P" using st by auto
    have b: "prepared s d = (keyed s d)\<lparr>as_generation := as_generation s + 1,
        as_file := renumber_agents (as_generation s + 1) 0 (take ?i ?P) (as_file s), as_started := True\<rparr>"
      using fresh st keys by (simp add: prepared_def begun_def)
    obtain es1 L1 where 1: "ready_for agent_type (renumber_agents (as_generation s + 1) 0 (take ?i ?P) (as_file s)) es1
          (as_generation s + 1) L1" "list_all2 same_agent L1 (take ?i ?P)"
      using agents.renumber_new [OF r, of "take ?i ?P"] ok by (meson in_set_takeD)
    have "kept W L1 ts rs" "length L1 = ?i" using kept_same [OF _ 1(2)] rec L by auto
    with 1 fresh show ?thesis
      by (intro exI [of _ es1] exI [of _ L1]) (auto simp: b)
  next
    case past
    then have "prepared s d = keyed s d" using keys by (simp add: prepared_def)
    moreover have "length L = ?i" "\<exists>new. L = ?P @ new" "as_replayed s = ?P" "agrees W ?P (ts @ [t])"
      using past st by (auto simp: agrees_snoc)
    ultimately show ?thesis
      using r rec past st by (intro exI [of _ es] exI [of _ L]) (auto simp: reads_ready)
  qed
qed

lemma prepared_generation: "ainv W ts rs s \<Longrightarrow> 0 \<le> as_generation (prepared s d)"
  using ainv_generation [of W ts rs s] by (auto simp: prepared_def begun_def)

lemma journals_holds:
  assumes "journals W t outcome = Some (a, terminal, r)" and "journalled r"
  shows "plain a" and "entry_holds W (agent_norm (entry_of g (decision_of W t) i a terminal)) t r"
  using assms validate_sorted [of a "aw_lib W" "at_schema t" "''result''"]
  by (auto simp: journals_def journalled_def entry_holds_def agent_norm_def entry_of_def validate_result_payload_def
      split: delegate_outcome.splits if_splits)

text \<open>The session after a delegate's outcome is journalled.\<close>

lemma journal_step:
  assumes "ainv W ts rs s" and "\<not> agent_replays s (decision_of W t)" and "journals W t outcome = Some (a, terminal, r)"
    and "journalled r"
  shows "ainv W (ts @ [t]) (rs @ [r]) (journal_entry (decision_of W t) (length ts) a terminal (prepared s (decision_of W t)))"
proof -
  let ?b = "prepared s (decision_of W t)" and ?P = "as_previous s"
  let ?e = "entry_of (as_generation ?b) (decision_of W t) (length ts) a terminal"
  note h = journals_holds [OF assms(3,4)]
  have keys: "as_keys s = map (\<lambda>t. ad_key (decision_of W t)) ts" and okP: "\<forall>e \<in> set ?P. agent_ok e"
    and index: "\<forall>i < length ?P. ae_index (?P ! i) = int i"
    using assms(1) by (simp_all add: ainv_def)
  have ok: "agent_ok ?e" using h(1) prepared_generation [OF assms(1)] by (simp add: agent_ok_def entry_of_def)
  obtain es L where ready: "ready_for agent_type (as_file ?b) es (as_generation ?b) L"
    and rec: "kept W L ts rs" "length L = length ts"
    and other: "\<not> as_started ?b \<Longrightarrow> agrees W ?P (ts @ [t]) \<and> as_generation ?b = as_previous_generation s \<and>
      as_replayed s = ?P \<and> (\<exists>new. L = ?P @ new)"
    using prepared_ready [OF assms(1,2), of "decision_of W t"] by blast
  have r: "reads_as agent_type (agent_append ?e (as_file ?b)) (es @ [agent_norm ?e]) (as_generation ?b) (L @ [agent_norm ?e])"
    unfolding agent_append_def by (rule agents.reads_append [OF ready ok]) (simp add: agent_key_def entry_of_def rec(2))
  have "kept W (L @ [agent_norm ?e]) (ts @ [t]) (rs @ [r])"
    using rec h(2) by (intro kept_snoc kept_append) (auto simp: nth_append)
  moreover have "\<exists>new. L @ [agent_norm ?e] = ?P @ new \<and> length new = Suc (length ts) - length ?P"
    and "length ?P \<le> length ts" if "\<not> as_started ?b"
    using other [OF that] rec(2) by auto
  ultimately show ?thesis
    using r rec(2) other keys okP index unfolding ainv_def journal_entry_def
    by (intro conjI exI [of _ "es @ [agent_norm ?e]"] exI [of _ "L @ [agent_norm ?e]"]) auto
qed

lemma agent_step:
  assumes "ainv W ts rs s" and "agent_run_or_replay W delegate t s = (r, s')" and "journalled r"
  shows "ainv W (ts @ [t]) (rs @ [r]) s'"
proof (cases "agent_replays s (decision_of W t)")
  case True
  obtain v where "r = Inr v"
    using agent_run_replays [OF True, of delegate] assms(2,3)
    by (cases r) (auto simp: journalled_def validate_agent_replay_entry_def split: sum.splits if_splits invalid.splits)
  with replay_step [OF assms(1) True] assms(2) show ?thesis by simp
next
  case False
  let ?b = "prepared s (decision_of W t)"
  have keys: "length (as_keys s) = length ts" using assms(1) by (simp add: ainv_def)
  note run = delegate_run [of W delegate t "decision_of W t" "length ts" ?b]
  have r: "run_delegate_and_append W delegate t (decision_of W t) (length ts) ?b = (r, s')"
    using assms(2) agent_run_delegates [OF False, of delegate] keys by simp
  show ?thesis
  proof (cases "journals W t (delegate (as_calls ?b))")
    case (Some x)
    obtain a terminal r' where x: "x = (a, terminal, r')" by (cases x)
    with run r Some have "r = r'" and
      c: "core s' = core ((journal_entry (decision_of W t) (length ts) a terminal ?b)\<lparr>as_calls := as_calls ?b + 1\<rparr>)"
      by auto
    with journal_step [OF assms(1) False, of "delegate (as_calls ?b)" a terminal r] Some x assms(3)
    have "ainv W (ts @ [t]) (rs @ [r]) (journal_entry (decision_of W t) (length ts) a terminal ?b)" by simp
    then have "ainv W (ts @ [t]) (rs @ [r])
        ((journal_entry (decision_of W t) (length ts) a terminal ?b)\<lparr>as_calls := as_calls ?b + 1\<rparr>)"
      by (simp only: ainv_calls)
    with c ainv_core show ?thesis by metis
  next
    case None
    with run r assms(3) refused [OF None] show ?thesis by auto
  qed
qed

section \<open>Whole sessions\<close>

text \<open>A session over a list of calls, each with its delegate; an exception does not stop the others.\<close>

type_synonym agent_call = "(nat \<Rightarrow> delegate_outcome) \<times> agent_task"

fun agent_runs :: "agent_world \<Rightarrow> agent_call list \<Rightarrow> agent_session \<Rightarrow> (replay_error + json) list \<times> agent_session" where
  "agent_runs W [] s = ([], s)"
| "agent_runs W ((delegate, t) # cs) s =
     (let (r, s1) = agent_run_or_replay W delegate t s; (rs, s2) = agent_runs W cs s1 in (r # rs, s2))"

lemma runs_keep:
  assumes "agent_runs W cs s = (rs', s')" and "ainv W ts rs s" and "\<forall>r \<in> set rs'. journalled r"
  shows "ainv W (ts @ map snd cs) (rs @ rs') s'"
  using assms
proof (induction cs arbitrary: s ts rs rs')
  case (Cons c cs)
  obtain delegate t where c: "c = (delegate, t)" by (cases c)
  obtain r s1 where 1: "agent_run_or_replay W delegate t s = (r, s1)" by fastforce
  obtain rs2 where 2: "agent_runs W cs s1 = (rs2, s')" "rs' = r # rs2"
    using Cons.prems(1) c 1 by (auto split: prod.splits)
  with Cons.prems have "ainv W (ts @ [t]) (rs @ [r]) s1" using agent_step [OF _ 1] by simp
  with Cons.IH [OF 2(1), of "ts @ [t]" "rs @ [r]"] Cons.prems(3) 2(2) c show ?case by simp
qed simp

definition parked :: "replay_error + json \<Rightarrow> bool" where
  "parked r = (case r of Inl _ \<Rightarrow> True | Inr _ \<Rightarrow> False)"

text \<open>A new session over entries that hold the outcomes \<open>rs\<close> of the tasks.\<close>

definition resuming :: "agent_world \<Rightarrow> agent_entry list \<Rightarrow> agent_task list \<Rightarrow> (replay_error + json) list \<Rightarrow> agent_session \<Rightarrow> bool" where
  "resuming W L ts rs s \<longleftrightarrow> as_previous s = L \<and> as_keys s = map (\<lambda>t. ad_key (decision_of W t)) ts \<and>
     as_calls s = length (filter parked rs)"

lemma holds_validates: "entry_holds W e t (Inr v) \<Longrightarrow> validate_agent_replay_entry W e t (decision_of W t) = Inr ()"
  by (simp add: entry_holds_def validate_agent_replay_entry_def)

lemma resume_step:
  assumes "resuming W L ts rs s" and "kept W L (ts @ t # ts') (rs @ r # rs')" and "length rs = length ts"
    and "agent_run_or_replay W delegate t s = (w, s')"
  shows "resuming W L (ts @ [t]) (rs @ [r]) s' \<and> (\<forall>v. r = Inr v \<longrightarrow> (\<exists>x. w = Inr x \<and> sort_keys x = sort_keys v))"
proof -
  have nth: "entry_holds W (L ! i) ((ts @ t # ts') ! i) ((rs @ r # rs') ! i)" if "i \<le> length ts" for i
    using assms(2) that unfolding kept_def by simp
  have i: "length ts < length L" using assms(2) by (simp add: kept_def)
  from nth [of "length ts"] have e: "entry_holds W (L ! length ts) t r"
    by (simp add: assms(3) [symmetric] nth_append)
  have keys: "ae_key (L ! i) = ad_key (decision_of W ((ts @ [t]) ! i))" if "i \<le> length ts" for i
    using nth [OF that] that by (auto simp: entry_holds_def nth_append split: if_splits)
  have "take (Suc (length ts)) (map ae_key L) = take (Suc (length ts)) (map (\<lambda>t. ad_key (decision_of W t)) (ts @ [t]))"
    by (rule nth_equalityI) (use i keys in \<open>auto simp: nth_append less_Suc_eq\<close>)
  then have valid: "length ts < longest_valid_prefix (map ae_key L) (map (\<lambda>t. ad_key (decision_of W t)) ts @ [ad_key (decision_of W t)])"
    using i by (simp add: less_longest_valid_prefix)
  have s: "as_previous s = L" "as_keys s = map (\<lambda>t. ad_key (decision_of W t)) ts" "as_calls s = length (filter parked rs)"
    using assms(1) by (simp_all add: resuming_def)
  show ?thesis
  proof (cases r)
    case (Inr v)
    with e have "ae_terminal (L ! length ts) = ''succeeded''" and x: "sort_keys (ae_artifact (L ! length ts)) = sort_keys v"
      by (auto simp: entry_holds_def)
    then have "agent_replays s (decision_of W t)" using valid s by (simp add: agent_replays_def)
    from agent_run_replays [OF this, of delegate] assms(4) s holds_validates [of W _ t v] e Inr
    have "core s' = core (replayed_with s (decision_of W t) (L ! length ts))" "w = Inr (ae_artifact (L ! length ts))"
      by auto
    with x Inr s show ?thesis
      by (auto simp: resuming_def core_eq replayed_with_def parked_def split: if_splits)
  next
    case (Inl err)
    with e have "\<not> agent_replays s (decision_of W t)" using s by (simp add: agent_replays_def entry_holds_def)
    from agent_run_delegates [OF this, of delegate] assms(4)
      delegate_run [of W delegate t "decision_of W t" "length (as_keys s)" "prepared s (decision_of W t)"]
    have "as_previous s' = as_previous s" "as_keys s' = as_keys s @ [ad_key (decision_of W t)]" "as_calls s' = as_calls s + 1"
      by (auto simp: core_eq journal_entry_def split: option.splits)
    with Inl s show ?thesis by (simp add: resuming_def parked_def)
  qed
qed

lemma resume_session:
  assumes "resuming W L ts rs s" and "kept W L (ts @ map snd cs) (rs @ rs')" and "length rs = length ts"
    and "agent_runs W cs s = (ws, s')"
  shows "as_calls s' = length (filter parked (rs @ rs')) \<and>
    (\<forall>i v. i < length rs' \<longrightarrow> rs' ! i = Inr v \<longrightarrow> (\<exists>x. ws ! i = Inr x \<and> sort_keys x = sort_keys v))"
  using assms
proof (induction cs arbitrary: s ts rs rs' ws)
  case Nil
  then show ?case by (simp add: resuming_def kept_def)
next
  case (Cons c cs)
  obtain delegate t where c: "c = (delegate, t)" by (cases c)
  obtain r rs2 where r: "rs' = r # rs2" using Cons.prems(2,3) by (cases rs') (auto simp: kept_def)
  obtain w s1 where 1: "agent_run_or_replay W delegate t s = (w, s1)" by fastforce
  obtain ws2 where 2: "agent_runs W cs s1 = (ws2, s')" "ws = w # ws2"
    using Cons.prems(4) c 1 by (auto split: prod.splits)
  have step: "resuming W L (ts @ [t]) (rs @ [r]) s1" "\<And>v. r = Inr v \<Longrightarrow> \<exists>x. w = Inr x \<and> sort_keys x = sort_keys v"
    using resume_step [OF Cons.prems(1) _ Cons.prems(3) 1, of "map snd cs" r rs2] Cons.prems(2) c r by auto
  have "kept W L ((ts @ [t]) @ map snd cs) ((rs @ [r]) @ rs2)" using Cons.prems(2) c r by simp
  from Cons.IH [OF step(1) this _ 2(1)] Cons.prems(3)
  have "as_calls s' = length (filter parked (rs @ r # rs2))"
    and "\<forall>i v. i < length rs2 \<longrightarrow> rs2 ! i = Inr v \<longrightarrow> (\<exists>x. ws2 ! i = Inr x \<and> sort_keys x = sort_keys v)" by simp_all
  with step(2) show ?case
    by (auto simp: r 2(2) nth_Cons split: nat.splits)
qed

text \<open>
  C12: A finished agent is never run again. Take an agent journal of complete, well-formed lines and a
  session over it whose every task ended with a result or parked at a gate. The journal then opens
  again, and in any later session over the same tasks, whatever their delegates do now, a task that
  had a result returns it (up to the order of keys) without its delegate, and each parked task calls
  its delegate once.
\<close>

theorem finished_agents_are_not_run_again:
  assumes "well_formed agent_type f" and "open_agent_session f p = Inr s" and "agent_runs W cs s = (rs, s')"
    and "\<forall>r \<in> set rs. journalled r" and "map snd cs' = map snd cs"
  shows "\<exists>s2. open_agent_session (as_file s') p' = Inr s2 \<and>
    (\<forall>ws s3. agent_runs W cs' s2 = (ws, s3) \<longrightarrow>
       as_calls s3 = length (filter parked rs) \<and>
       (\<forall>i v. i < length rs \<longrightarrow> rs ! i = Inr v \<longrightarrow> (\<exists>x. ws ! i = Inr x \<and> sort_keys x = sort_keys v)))"
proof -
  have "ainv W (map snd cs) rs s'"
    using runs_keep [OF assms(3) open_ainv [OF assms(2,1)] assms(4)] by simp
  then obtain es L where L: "reads_as agent_type (as_file s') es (as_generation s') L" "kept W L (map snd cs) rs"
    unfolding ainv_def by blast
  then obtain s2 where s2: "open_agent_session (as_file s') p' = Inr s2" "resuming W L [] [] s2"
    by (auto simp: open_agent_session_def agent_reads_latest Let_def resuming_def)
  with resume_session [of W L "[]" "[]" s2 cs' rs] L(2) assms(5) show ?thesis by auto
qed

section \<open>The progress stream changes nothing\<close>

lemma core_fields:
  assumes "core s = core s'"
  shows "as_previous s = as_previous s'" "as_keys s = as_keys s'" "as_calls s = as_calls s'"
    "core (prepared s d) = core (prepared s' d)" "core (keyed s d) = core (keyed s' d)"
    "core (replayed_with s d e) = core (replayed_with s' d e)"
    "core ((journal_entry d i a tm s)\<lparr>as_calls := n\<rparr>) = core ((journal_entry d i a tm s')\<lparr>as_calls := n\<rparr>)"
    "core (s\<lparr>as_calls := n\<rparr>) = core (s'\<lparr>as_calls := n\<rparr>)"
  using assms by (auto simp: core_eq prepared_def begun_def replayed_with_def journal_entry_def keyed_def)

lemma run_core:
  assumes "core s = core s'" and "aw_sha W' = aw_sha W" and "aw_lib W' = aw_lib W"
  shows "fst (agent_run_or_replay W' delegate t s') = fst (agent_run_or_replay W delegate t s) \<and>
    core (snd (agent_run_or_replay W' delegate t s')) = core (snd (agent_run_or_replay W delegate t s))"
proof -
  let ?d = "decision_of W t"
  note c = core_fields [OF assms(1)]
  have same: "journals W' t out = journals W t out" "refusal W' t out = refusal W t out"
      "validate_agent_replay_entry W' e t ?d = validate_agent_replay_entry W e t ?d" for out e
    using assms(2,3) by (simp_all add: journals_def refusal_def validate_delegate_result_def validate_agent_replay_entry_def
        cong: delegate_outcome.case_cong)
  have iff: "agent_replays s' ?d = agent_replays s ?d" using c by (simp add: agent_replays_def)
  show ?thesis
  proof (cases "agent_replays s ?d")
    case True
    from agent_run_replays [OF True, of delegate] agent_run_replays [of s' W' t delegate] True iff assms(2) same(3) c
    show ?thesis by (auto split: sum.split)
  next
    case False
    let ?b = "prepared s ?d" and ?b' = "prepared s' ?d" and ?i = "length (as_keys s)"
    have b: "core ?b = core ?b'" using c by simp
    from agent_run_delegates [OF False, of delegate] agent_run_delegates [of s' W' t delegate] False iff assms(2) c
    have "agent_run_or_replay W delegate t s = run_delegate_and_append W delegate t ?d ?i ?b"
      "agent_run_or_replay W' delegate t s' = run_delegate_and_append W' delegate t ?d ?i ?b'" by simp_all
    with delegate_run [of W delegate t ?d ?i ?b] delegate_run [of W' delegate t ?d ?i ?b'] core_fields(3,7,8) [OF b] same(1,2)
    show ?thesis
      by (cases "journals W t (delegate (as_calls ?b))") auto
  qed
qed

text \<open>
  The progress stream is observational. Two runs of the same calls from sessions that differ only
  in their progress stream, with clocks and write failures of their own, give the same outcomes and
  the same journal, and agree on everything but the stream.
\<close>

theorem progress_writes_change_no_outcome:
  assumes "core s' = core s" and "aw_sha W' = aw_sha W" and "aw_lib W' = aw_lib W"
  shows "fst (agent_runs W' cs s') = fst (agent_runs W cs s) \<and>
    core (snd (agent_runs W' cs s')) = core (snd (agent_runs W cs s))"
  using assms(1)
proof (induction cs arbitrary: s s')
  case (Cons c cs)
  obtain delegate t where c: "c = (delegate, t)" by (cases c)
  obtain r s1 where 1: "agent_run_or_replay W delegate t s = (r, s1)" by fastforce
  obtain r' s1' where 2: "agent_run_or_replay W' delegate t s' = (r', s1')" by fastforce
  have "r' = r" "core s1' = core s1"
    using run_core [OF Cons.prems [symmetric] assms(2,3), of delegate t] 1 2 by simp_all
  with Cons.IH [of s1' s1] 1 2 c show ?case by (auto split: prod.split)
qed simp

section \<open>An outcome that is not journalled\<close>

lemma unrecorded_then_recorded:
  assumes "ainv W ts rs s" and "agent_run_or_replay W delegate t s = (r, s1)" and "as_calls s1 = Suc (as_calls s)"
    and "journals W t (delegate (as_calls s)) = None"
    and "agent_run_or_replay W delegate' t' s1 = (r', s2)" and "journalled r'"
  shows "open_agent_session (as_file s2) p = Inl (NonContiguous (as_generation s1) (int (Suc (length ts))) (length ts))"
proof -
  let ?b = "prepared s (decision_of W t)" and ?P = "as_previous s" and ?d' = "decision_of W t'"
  have keys: "length (as_keys s) = length ts" and okP: "\<forall>e \<in> set ?P. agent_ok e"
    and index: "\<forall>i < length ?P. ae_index (?P ! i) = int i"
    using assms(1) by (simp_all add: ainv_def)
  have nr: "\<not> agent_replays s (decision_of W t)"
  proof
    assume "agent_replays s (decision_of W t)"
    from agent_run_replays [OF this, of delegate] assms(2,3) show False
      by (cases "validate_agent_replay_entry W (?P ! length (as_keys s)) t (decision_of W t)")
        (auto simp: core_eq replayed_with_def split: if_splits)
  qed
  have s1: "core s1 = core (?b\<lparr>as_calls := Suc (as_calls s)\<rparr>)"
    using delegate_run [of W delegate t "decision_of W t" "length ts" ?b] agent_run_delegates [OF nr, of delegate]
      assms(2,4) keys by auto
  then have f: "as_file s1 = as_file ?b" "as_generation s1 = as_generation ?b" "as_previous s1 = ?P"
      "length (as_keys s1) = Suc (length ts)" "as_started s1 = as_started ?b"
    using keys by (auto simp: core_eq)
  obtain es L where ready: "ready_for agent_type (as_file s1) es (as_generation s1) L" "length L = length ts"
    using prepared_ready [OF assms(1) nr, of "decision_of W t"] f by auto
  have g: "0 \<le> as_generation s1" using prepared_generation [OF assms(1)] f by simp
  have "\<exists>e. agent_ok e \<and> agent_key e = (as_generation s1, int (Suc (length ts))) \<and> as_file s2 = agent_append e (as_file s1)"
  proof (cases "agent_replays s1 ?d'")
    case True
    then have i: "Suc (length ts) < length ?P"
      using prefix_le(1) [of "map ae_key ?P" "as_keys s1 @ [ad_key ?d']"] f by (simp add: agent_replays_def)
    let ?e = "?P ! Suc (length ts)"
    have "as_started ?b" using i keys by (simp add: prepared_def begun_def)
    moreover obtain x where "r' = Inr x"
      using agent_run_replays [OF True, of delegate'] assms(5,6)
      by (cases r') (auto simp: journalled_def validate_agent_replay_entry_def split: sum.splits if_splits invalid.splits)
    ultimately have "as_file s2 = agent_append (agent_reindex (as_generation s1) (ae_index ?e) ?e) (as_file s1)"
      using agent_run_replays [OF True, of delegate'] assms(5) f
      by (cases "validate_agent_replay_entry W ?e t' ?d'") (auto simp: core_eq replayed_with_def)
    moreover have "agent_ok (agent_reindex (as_generation s1) (ae_index ?e) ?e)"
      using okP i g index by (intro agents.reindex_ok) auto
    ultimately show ?thesis using index i by (intro exI [of _ "agent_reindex (as_generation s1) (ae_index ?e) ?e"]) simp
  next
    case False
    let ?b' = "prepared s1 ?d'"
    have same: "as_file ?b' = as_file s1" "as_generation ?b' = as_generation s1"
      using f keys by (auto simp: prepared_def begun_def)
    have run: "run_delegate_and_append W delegate' t' ?d' (Suc (length ts)) ?b' = (r', s2)"
      using agent_run_delegates [OF False, of delegate'] assms(5) f(4) by simp
    note d = delegate_run [of W delegate' t' ?d' "Suc (length ts)" ?b']
    obtain a terminal where j: "journals W t' (delegate' (as_calls ?b')) = Some (a, terminal, r')"
      using d run assms(6) refused [of W t' "delegate' (as_calls ?b')"]
      by (cases "journals W t' (delegate' (as_calls ?b'))") auto
    let ?e = "entry_of (as_generation s1) ?d' (Suc (length ts)) a terminal"
    have "as_file s2 = agent_append ?e (as_file s1)"
      using d run j same by (auto simp: core_eq journal_entry_def)
    moreover have "agent_ok ?e" using journals_holds(1) [OF j assms(6)] g by (simp add: agent_ok_def entry_of_def)
    ultimately show ?thesis by (intro exI [of _ ?e]) (simp add: agent_key_def entry_of_def)
  qed
  then obtain e where e: "agent_ok e" "agent_key e = (as_generation s1, int (Suc (length ts)))"
      "as_file s2 = agent_append e (as_file s1)" by blast
  have "agent_latest_entries (as_file s2) = Inl (NonContiguous (as_generation s1) (int (Suc (length ts))) (length ts))"
    using agent_gap [OF ready(1) e(1,2)] by (simp add: e(3) ready(2))
  then show ?thesis by (simp add: open_agent_session_def)
qed

text \<open>
  A failed agent that does not end the run spoils its journal. After tasks that all ended with a
  result or a gate, let a delegate raise, or return a result that does not fit its schema; nothing is
  journalled for it. Let the run go on (as a quorum of branches does) with a task whose outcome is
  journalled: the journal then has a gap, and can never be opened again.
\<close>

theorem a_failed_agent_spoils_the_journal:
  assumes "well_formed agent_type f" and "open_agent_session f p = Inr s" and "agent_runs W cs s = (rs, s')"
    and "\<forall>r \<in> set rs. journalled r"
    and "agent_run_or_replay W delegate t s' = (r, s1)" and "as_calls s1 = Suc (as_calls s')"
    and "journals W t (delegate (as_calls s')) = None"
    and "agent_run_or_replay W delegate' t' s1 = (r', s2)" and "journalled r'"
  shows "open_agent_session (as_file s2) p' = Inl (NonContiguous (as_generation s1) (int (Suc (length cs))) (length cs))"
proof -
  have "ainv W (map snd cs) rs s'"
    using runs_keep [OF assms(3) open_ainv [OF assms(2,1)] assms(4)] by simp
  from unrecorded_then_recorded [OF this assms(5-9)] show ?thesis by simp
qed

section \<open>Witnesses\<close>

definition demo_agents :: agent_world where
  "demo_agents = \<lparr>aw_sha = (\<lambda>s. s), aw_lib = \<lparr>pl_float_eq = (\<lambda>a b. a = b), pl_float_int = (\<lambda>t. None), pl_regex = (\<lambda>p. None)\<rparr>,
     aw_clock = (\<lambda>n. ''now''), aw_writable = (\<lambda>n. even n)\<rparr>"

definition demo_task :: "string \<Rightarrow> agent_task" where
  "demo_task node = \<lparr>at_run = ''r'', at_node = node, at_attempt = 1, at_prompt = ''p'', at_context = [],
     at_schema = JObj [(''type'', JStr ''boolean'')], at_agent = ''a'', at_phase = None, at_profile = None, at_model = None,
     at_effort = None, at_identity = None\<rparr>"

definition demo_agent_start :: agent_session where
  "demo_agent_start = (case open_agent_session None None of Inr s \<Rightarrow> s)"

definition demo_agent_calls :: "agent_call list" where
  "demo_agent_calls = [((\<lambda>n. Returned (JBool True)), demo_task ''n/1''), ((\<lambda>n. Exhausted ''s'' 3 ''invalid'' ''m''), demo_task ''n/2'')]"

lemma demo_agent_open: "well_formed agent_type None" "open_agent_session None None = Inr demo_agent_start"
  by (simp_all add: well_formed_def intact_def load_with_def agent_load_entries_def file_lines_def demo_agent_start_def
      open_agent_session_def agent_latest_entries_def latest_generation_def splitlines_def)

lemma demo_validates [simp]: "validate_result_payload L (JBool b) (JObj [(''type'', JStr ''boolean'')]) = Inr ()"
  by (simp add: validate_result_payload_def validate.simps check_const_def check_type_def check_enum_def check_min_length_def
      check_pattern_def check_required_def check_additional_def given_def)

definition demo_parked :: "replay_error + json" where
  "demo_parked = Inl (AttemptsExhausted (exhausted_artifact ''s'' 3 ''invalid'' ''m''))"

text \<open>A session with nothing to replay.\<close>

lemma fresh_run:
  assumes "as_previous s = []" and "journals W t (delegate (as_calls s)) = Some (a, terminal, r)"
  obtains s' where "agent_run_or_replay W delegate t s = (r, s')" and "as_previous s' = []" and "as_calls s' = Suc (as_calls s)"
proof -
  have nr: "\<not> agent_replays s (decision_of W t)" using assms(1) by (simp add: agent_replays_def)
  from delegate_run [of W delegate t "decision_of W t" "length (as_keys s)" "prepared s (decision_of W t)"]
    agent_run_delegates [OF nr, of delegate] assms that
  show ?thesis by (auto simp: core_eq journal_entry_def)
qed

lemma fresh_refused:
  assumes "as_previous s = []" and "journals W t (delegate (as_calls s)) = None"
  obtains s' where "agent_run_or_replay W delegate t s = (Inl (refusal W t (delegate (as_calls s))), s')"
    and "as_previous s' = []" and "as_calls s' = Suc (as_calls s)"
proof -
  have nr: "\<not> agent_replays s (decision_of W t)" using assms(1) by (simp add: agent_replays_def)
  from delegate_run [of W delegate t "decision_of W t" "length (as_keys s)" "prepared s (decision_of W t)"]
    agent_run_delegates [OF nr, of delegate] assms that
  show ?thesis by (auto simp: core_eq journal_entry_def)
qed

lemma demo_start_fields [simp]: "as_previous demo_agent_start = []" "as_calls demo_agent_start = 0"
  by (simp_all add: demo_agent_start_def open_agent_session_def agent_latest_entries_def agent_load_entries_def
      file_lines_def latest_generation_def)

lemma demo_agent_run:
  "agent_runs demo_agents demo_agent_calls demo_agent_start =
     ([Inr (JBool True), demo_parked], snd (agent_runs demo_agents demo_agent_calls demo_agent_start))"
proof -
  have 1: "journals demo_agents (demo_task ''n/1'') (Returned (JBool True)) = Some (JBool True, ''succeeded'', Inr (JBool True))"
    by (simp add: journals_def demo_task_def)
  have 2: "journals demo_agents (demo_task ''n/2'') (Exhausted ''s'' 3 ''invalid'' ''m'') =
      Some (exhausted_artifact ''s'' 3 ''invalid'' ''m'', ''open-gate'', demo_parked)"
    by (simp add: journals_def demo_parked_def)
  from fresh_run [of demo_agent_start demo_agents "demo_task ''n/1''" "\<lambda>n. Returned (JBool True)", OF _ 1] obtain s1
    where s1: "agent_run_or_replay demo_agents (\<lambda>n. Returned (JBool True)) (demo_task ''n/1'') demo_agent_start = (Inr (JBool True), s1)"
      "as_previous s1 = []" by auto
  from fresh_run [of s1 demo_agents "demo_task ''n/2''" "\<lambda>n. Exhausted ''s'' 3 ''invalid'' ''m''", OF s1(2) 2] obtain s2
    where "agent_run_or_replay demo_agents (\<lambda>n. Exhausted ''s'' 3 ''invalid'' ''m'') (demo_task ''n/2'') s1 = (demo_parked, s2)"
    by auto
  with s1(1) show ?thesis by (simp add: demo_agent_calls_def)
qed

lemma demo_journalled: "\<forall>r \<in> set [Inr (JBool True), demo_parked]. journalled r"
  by (simp add: journalled_def demo_parked_def exhausted_artifact_def)

theorem finished_agents_are_not_run_again_witness:
  "\<exists>s2. open_agent_session (as_file (snd (agent_runs demo_agents demo_agent_calls demo_agent_start))) None = Inr s2 \<and>
     (\<forall>ws s3. agent_runs demo_agents demo_agent_calls s2 = (ws, s3) \<longrightarrow> as_calls s3 = 1 \<and> (\<exists>x. ws ! 0 = Inr x \<and> sort_keys x = JBool True))"
proof -
  have one: "length (filter parked [Inr (JBool True), demo_parked]) = 1" by (simp add: parked_def demo_parked_def)
  from finished_agents_are_not_run_again [OF demo_agent_open demo_agent_run demo_journalled refl, of None]
  show ?thesis unfolding one by fastforce
qed

theorem progress_writes_change_no_outcome_witness:
  "fst (agent_runs (demo_agents\<lparr>aw_writable := \<lambda>n. False\<rparr>) demo_agent_calls demo_agent_start) = [Inr (JBool True), demo_parked]"
  using progress_writes_change_no_outcome [of demo_agent_start demo_agent_start "demo_agents\<lparr>aw_writable := \<lambda>n. False\<rparr>" demo_agents
      demo_agent_calls] demo_agent_run
  by (metis agent_world.select_convs(1,2) agent_world.simps(8) agent_world.surjective agent_world.update_convs(4) fst_conv)

theorem a_failed_agent_spoils_the_journal_witness:
  "\<exists>s1 s2. agent_run_or_replay demo_agents (\<lambda>n. Raised ''e'') (demo_task ''n/1'') demo_agent_start = (Inl (DelegateRaised ''e''), s1) \<and>
     agent_run_or_replay demo_agents (\<lambda>n. Returned (JBool True)) (demo_task ''n/2'') s1 = (Inr (JBool True), s2) \<and>
     open_agent_session (as_file s2) None = Inl (NonContiguous (as_generation s1) 1 0)"
proof -
  have 1: "journals demo_agents (demo_task ''n/1'') (Raised ''e'') = None" by (simp add: journals_def)
  have 2: "journals demo_agents (demo_task ''n/2'') (Returned (JBool True)) = Some (JBool True, ''succeeded'', Inr (JBool True))"
    by (simp add: journals_def demo_task_def)
  from fresh_refused [of demo_agent_start demo_agents "demo_task ''n/1''" "\<lambda>n. Raised ''e''", OF _ 1] obtain s1
    where s1: "agent_run_or_replay demo_agents (\<lambda>n. Raised ''e'') (demo_task ''n/1'') demo_agent_start = (Inl (DelegateRaised ''e''), s1)"
      "as_previous s1 = []" "as_calls s1 = Suc (as_calls demo_agent_start)" by (auto simp: refusal_def)
  from fresh_run [of s1 demo_agents "demo_task ''n/2''" "\<lambda>n. Returned (JBool True)", OF s1(2) 2] obtain s2
    where s2: "agent_run_or_replay demo_agents (\<lambda>n. Returned (JBool True)) (demo_task ''n/2'') s1 = (Inr (JBool True), s2)"
    by auto
  from a_failed_agent_spoils_the_journal [OF demo_agent_open, of demo_agents "[]" "[]", OF _ _ s1(1,3) 1 s2] s1 s2
  show ?thesis by (auto simp: journalled_def)
qed

end
