(* ===== verification/Replay_Keys.thy ===== *)
theory Replay_Keys
  imports Generations Replay_Agent
begin

text \<open>
  What a cache key identifies (\<open>replay_keying.py\<close>). A key is the digest of a text, and the text identifies
  the call: two calls share a key exactly when they agree on everything the key is made of, unless the digests
  of these very texts collide. Nothing is assumed of the digest on other texts.
\<close>

lemma dumps_eq: "plain v \<Longrightarrow> plain w \<Longrightarrow> dumps v = dumps w \<longleftrightarrow> sort_keys v = sort_keys w"
  using loads_dumps [of v] loads_dumps [of w] by (metis dumps_def option.inject)

lemma text_eq: "plain v \<Longrightarrow> plain w \<Longrightarrow> canonical_json v = canonical_json w \<longleftrightarrow> sort_keys v = sort_keys w"
  using dumps_eq [of v w] by (simp add: canonical_json_def canonical_payload_def dumps_def)

lemma sorted_member:
  assumes "sort_keys (JObj d) = sort_keys (JObj d')" and "distinct (map fst d)" and "distinct (map fst d')"
  shows "map_option sort_keys (dget d k) = map_option sort_keys (dget d' k)"
  using dget_sorted [OF assms(2), of k] dget_sorted [OF assms(3), of k] assms(1) by simp

lemma json_opt_eq [simp]: "sort_keys (json_opt a) = sort_keys (json_opt b) \<longleftrightarrow> a = b" "plain (json_opt a)"
  by (cases a; cases b; simp add: json_opt_def)+

text \<open>What is hashed.\<close>

definition effect_text :: "string \<Rightarrow> string \<Rightarrow> string option \<Rightarrow> json \<Rightarrow> string" where
  "effect_text kind node label spec =
     canonical_json (JObj [(''effect_kind'', JStr kind), (''node_id'', JStr node), (''label'', json_opt label), (''spec'', spec)])"

lemma effect_text_eq:
  assumes "plain spec" and "plain spec'"
  shows "effect_text kind node label spec = effect_text kind' node' label' spec' \<longleftrightarrow>
    kind = kind' \<and> node = node' \<and> label = label' \<and> sort_keys spec = sort_keys spec'"
proof -
  let ?d = "\<lambda>kind node label spec. [(''effect_kind'', JStr kind), (''node_id'', JStr node), (''label'', json_opt label), (''spec'', spec)]"
  have "sort_keys (JObj (?d kind node label spec)) = sort_keys (JObj (?d kind' node' label' spec')) \<longleftrightarrow>
      kind = kind' \<and> node = node' \<and> label = label' \<and> sort_keys spec = sort_keys spec'" (is "?s = ?s' \<longleftrightarrow> ?same")
  proof
    assume eq: "?s = ?s'"
    note m = sorted_member [OF eq]
    from m [of "''effect_kind''"] m [of "''node_id''"] m [of "''label''"] m [of "''spec''"] show ?same by simp
  next
    assume ?same
    then have "map (map_prod id sort_keys) (?d kind node label spec) = map (map_prod id sort_keys) (?d kind' node' label' spec')"
      by simp
    then show "?s = ?s'" by (simp only: sort_keys.simps)
  qed
  with assms show ?thesis by (simp add: effect_text_def text_eq)
qed

text \<open>
  C17: The cache key of a workflow effect identifies the effect, up to collisions of the digest. For specs that JSON can hold
  (floats printed as \<open>repr\<close> prints them, no key twice): effects with the same kind, node and label and equal specs
  have the same key; and effects with the same key, under any digest, agree on all of these, or their
  two canonical texts differ and are a collision of the digest.
\<close>

theorem effect_keys_identify_the_effect:
  assumes "plain spec" and "plain spec'"
  shows "workflow_effect_cache_key sha kind node label spec = workflow_effect_cache_key sha kind' node' label' spec' \<longleftrightarrow>
    kind = kind' \<and> node = node' \<and> label = label' \<and> sort_keys spec = sort_keys spec' \<or>
    effect_text kind node label spec \<noteq> effect_text kind' node' label' spec' \<and>
      sha (effect_text kind node label spec) = sha (effect_text kind' node' label' spec')"
proof -
  have key: "workflow_effect_cache_key sha k n l v = sha (effect_text k n l v)" for k n l v
    by (simp add: workflow_effect_cache_key_def sha256_payload_def effect_text_def)
  show ?thesis unfolding key using effect_text_eq [OF assms] by metis
qed

theorem effect_keys_identify_the_effect_witness:
  "workflow_effect_cache_key (take 30) ''time'' ''a'' None JNull = workflow_effect_cache_key (take 30) ''time'' ''a'' None JNull \<and>
   workflow_effect_cache_key (\<lambda>x. x) ''time'' ''a'' None JNull \<noteq> workflow_effect_cache_key (\<lambda>x. x) ''time'' ''b'' None JNull"
  using effect_keys_identify_the_effect [of JNull JNull "\<lambda>x. x" "''time''" "''a''" None "''time''" "''b''" None]
  by simp

text \<open>The texts that make the key of an agent task.\<close>

definition identity_text :: "resolved_identity \<Rightarrow> string" where
  "identity_text i = canonical_json (JObj
     [(''adapter'', JStr (ri_adapter i)),
      (''model'', JStr (case ri_model i of None \<Rightarrow> ''adapter-default'' | Some m \<Rightarrow> m)),
      (''identity'', json_opt (ri_identity i)), (''effort'', json_opt (ri_effort i))])"

definition agent_text :: "(string \<Rightarrow> string) \<Rightarrow> agent_task \<Rightarrow> string" where
  "agent_text sha t = canonical_json (JObj
     [(''prompt'', JStr (at_prompt t)), (''schema'', at_schema t),
      (''resolved_identity'', JStr (resolved_identity_fingerprint sha (resolve_agent_task_identity t)))])"

definition agent_texts :: "(string \<Rightarrow> string) \<Rightarrow> agent_task \<Rightarrow> string set" where
  "agent_texts sha t = {identity_text (resolve_agent_task_identity t), agent_text sha t}"

lemma fingerprint_eq:
  assumes "inj_on sha {identity_text i, identity_text j}"
  shows "resolved_identity_fingerprint sha i = resolved_identity_fingerprint sha j \<longleftrightarrow>
    ri_adapter i = ri_adapter j \<and> (case ri_model i of None \<Rightarrow> ''adapter-default'' | Some m \<Rightarrow> m) = (case ri_model j of None \<Rightarrow> ''adapter-default'' | Some m \<Rightarrow> m) \<and>
    ri_identity i = ri_identity j \<and> ri_effort i = ri_effort j"
proof -
  let ?d = "\<lambda>i. [(''adapter'', JStr (ri_adapter i)),
        (''model'', JStr (case ri_model i of None \<Rightarrow> ''adapter-default'' | Some m \<Rightarrow> m)),
        (''identity'', json_opt (ri_identity i)), (''effort'', json_opt (ri_effort i))]"
  have "sort_keys (JObj (?d i)) = sort_keys (JObj (?d j)) \<longleftrightarrow>
      ri_adapter i = ri_adapter j \<and> (case ri_model i of None \<Rightarrow> ''adapter-default'' | Some m \<Rightarrow> m) = (case ri_model j of None \<Rightarrow> ''adapter-default'' | Some m \<Rightarrow> m) \<and>
      ri_identity i = ri_identity j \<and> ri_effort i = ri_effort j" (is "?s = ?s' \<longleftrightarrow> ?same")
  proof
    assume eq: "?s = ?s'"
    note m = sorted_member [OF eq]
    from m [of "''adapter''"] m [of "''model''"] m [of "''identity''"] m [of "''effort''"] show ?same by simp
  next
    assume ?same
    then have "map (map_prod id sort_keys) (?d i) = map (map_prod id sort_keys) (?d j)" by simp
    then show "?s = ?s'" by (simp only: sort_keys.simps)
  qed
  then have "identity_text i = identity_text j \<longleftrightarrow> ?same" by (simp add: identity_text_def text_eq)
  moreover have "resolved_identity_fingerprint sha k = sha (identity_text k)" for k
    by (simp add: resolved_identity_fingerprint_def sha256_payload_def identity_text_def)
  ultimately show ?thesis using assms by (simp add: inj_on_def) metis
qed

text \<open>
  The cache key of an agent task is made of its prompt, its schema and the identity its profile
  resolves to, and of nothing else: two tasks share a key exactly when these agree, where no model
  and the model \<open>adapter-default\<close> are one. The run, the attempt, the phase, the prompt's context and
  the name of the profile do not enter it once the identity is resolved. The digest has to tell the
  texts of these two tasks apart.
\<close>

theorem agent_keys_identify_prompt_schema_and_identity:
  assumes "inj_on sha (agent_texts sha t \<union> agent_texts sha u)" and "plain (at_schema t)" and "plain (at_schema u)"
  shows "ad_key (agent_replay_decision sha t) = ad_key (agent_replay_decision sha u) \<longleftrightarrow>
    at_prompt t = at_prompt u \<and> sort_keys (at_schema t) = sort_keys (at_schema u) \<and>
    ad_fingerprint (agent_replay_decision sha t) = ad_fingerprint (agent_replay_decision sha u) \<and>
    (let i = resolve_agent_task_identity t; j = resolve_agent_task_identity u
     in ri_adapter i = ri_adapter j \<and> ri_identity i = ri_identity j \<and> ri_effort i = ri_effort j \<and>
        (case ri_model i of None \<Rightarrow> ''adapter-default'' | Some m \<Rightarrow> m) = (case ri_model j of None \<Rightarrow> ''adapter-default'' | Some m \<Rightarrow> m))"
proof -
  let ?i = "resolve_agent_task_identity t" and ?j = "resolve_agent_task_identity u"
  let ?d = "\<lambda>t i. [(''prompt'', JStr (at_prompt t)), (''schema'', at_schema t), (''resolved_identity'', JStr (resolved_identity_fingerprint sha i))]"
  have "sort_keys (JObj (?d t ?i)) = sort_keys (JObj (?d u ?j)) \<longleftrightarrow>
      at_prompt t = at_prompt u \<and> sort_keys (at_schema t) = sort_keys (at_schema u) \<and>
      resolved_identity_fingerprint sha ?i = resolved_identity_fingerprint sha ?j" (is "?s = ?s' \<longleftrightarrow> ?same")
  proof
    assume eq: "?s = ?s'"
    note m = sorted_member [OF eq]
    from m [of "''prompt''"] m [of "''schema''"] m [of "''resolved_identity''"] show ?same by simp
  next
    assume ?same
    then have "map (map_prod id sort_keys) (?d t ?i) = map (map_prod id sort_keys) (?d u ?j)" by simp
    then show "?s = ?s'" by (simp only: sort_keys.simps)
  qed
  then have "agent_text sha t = agent_text sha u \<longleftrightarrow> ?same" using assms(2,3) by (simp add: agent_text_def text_eq)
  moreover have inj: "inj_on sha {agent_text sha t, agent_text sha u}" "inj_on sha {identity_text ?i, identity_text ?j}"
    by (rule inj_on_subset [OF assms(1)], simp add: agent_texts_def)+
  moreover have "sha (agent_text sha t) = sha (agent_text sha u) \<longleftrightarrow> agent_text sha t = agent_text sha u"
    by (rule inj_on_eq_iff [OF inj(1)]) simp_all
  moreover have "agent_cache_key sha (JStr (at_prompt x)) (at_schema x) (resolve_agent_task_identity x) = sha (agent_text sha x)" for x
    by (simp add: agent_cache_key_def sha256_payload_def agent_text_def)
  ultimately show ?thesis
    using fingerprint_eq [OF inj(2)] by (simp only: agent_replay_decision_def Let_def agent_decision.select_convs) blast
qed

definition key_task :: "string \<Rightarrow> int \<Rightarrow> string \<Rightarrow> agent_task" where
  "key_task run attempt prompt = \<lparr>at_run = run, at_node = ''n'', at_attempt = attempt, at_prompt = prompt, at_context = [],
     at_schema = JNull, at_agent = ''a'', at_phase = None, at_profile = None, at_model = None,
     at_effort = None, at_identity = None\<rparr>"

theorem agent_keys_identify_prompt_schema_and_identity_witness:
  "ad_key (agent_replay_decision (\<lambda>x. x) (key_task ''r'' 1 ''p'')) = ad_key (agent_replay_decision (\<lambda>x. x) (key_task ''q'' 2 ''p'')) \<and>
   ad_key (agent_replay_decision (\<lambda>x. x) (key_task ''r'' 1 ''p'')) \<noteq> ad_key (agent_replay_decision (\<lambda>x. x) (key_task ''r'' 1 ''q''))"
  using agent_keys_identify_prompt_schema_and_identity [of "\<lambda>x. x" "key_task ''r'' 1 ''p''" "key_task ''q'' 2 ''p''"]
    agent_keys_identify_prompt_schema_and_identity [of "\<lambda>x. x" "key_task ''r'' 1 ''p''" "key_task ''r'' 1 ''q''"]
  by (simp add: key_task_def inj_on_def resolve_agent_task_identity_def agent_replay_decision_def Let_def)

end
