(* ===== verification/Replay_Workspace.thy ===== *)
theory Replay_Workspace
  imports Journal_Format
begin

text \<open>
  The journalled creation of workspaces (\<open>handlers/journaled_workspace.py\<close>): a workspace is journalled
  the first time its id is created; a run that has an agent journal but no workspace journal is
  refused. Site paths come from the parameter \<open>resolve_path\<close>, creation times from \<open>now\<close>.
\<close>

record workspace =
  ws_id :: string
  ws_repo :: string
  ws_ref :: string
  ws_base :: string
  ws_issue :: "string option"

datatype (plugins only: code size) workspace_error =
    WorkspaceJournalError journal_error | PreCoverageRun | EmptyRunId | CreationFailed string

text \<open>\<open>wj_checked\<close>: the run's journal is in the handler's cache; \<open>wj_agents\<close>: the run has an agent journal.\<close>

record workspace_handler =
  wj_run :: string
  wj_file :: journal_file
  wj_agents :: bool
  wj_checked :: bool

definition new_workspace_handler :: "string \<Rightarrow> journal_file \<Rightarrow> bool \<Rightarrow> workspace_error + workspace_handler" where
  "new_workspace_handler run f agents =
     (if run = [] then Inl EmptyRunId
      else Inr \<lparr>wj_run = run, wj_file = f, wj_agents = agents, wj_checked = False\<rparr>)"

definition check_pre_coverage :: "workspace_handler \<Rightarrow> workspace_error + unit" where
  "check_pre_coverage h = (if wj_file h \<noteq> None then Inr () else if wj_agents h then Inl PreCoverageRun else Inr ())"

definition journal_for :: "(workspace_error, workspace_handler, unit) py" where
  "journal_for h =
     (if wj_checked h then (Inr (), h)
      else (case check_pre_coverage h of Inl e \<Rightarrow> (Inl e, h) | Inr _ \<Rightarrow> (Inr (), h\<lparr>wj_checked := True\<rparr>)))"

definition resolve_worktree_path :: "(workspace \<Rightarrow> string) option \<Rightarrow> workspace \<Rightarrow> string" where
  "resolve_worktree_path resolve_path w = (case resolve_path of None \<Rightarrow> [] | Some f \<Rightarrow> f w)"

definition workspace_entry_of :: "(workspace \<Rightarrow> string) option \<Rightarrow> string \<Rightarrow> workspace \<Rightarrow> workspace_entry" where
  "workspace_entry_of resolve_path now w =
     \<lparr>we_id = ws_id w, we_repo = ws_repo w, we_branch = ws_ref w, we_path = resolve_worktree_path resolve_path w,
      we_base = ws_base w, we_issue = ws_issue w, we_at = now, we_terminal = ''workspace-created''\<rparr>"

text \<open>\<open>wid\<close> is the id the effect asks for and \<open>created\<close> what the delegate does.\<close>

definition handle_create_workspace ::
    "(workspace \<Rightarrow> string) option \<Rightarrow> string \<Rightarrow> string \<Rightarrow> workspace_error + workspace \<Rightarrow>
     (workspace_error, workspace_handler, workspace) py" where
  "handle_create_workspace resolve_path now wid created =
     py_bind journal_for (\<lambda>_.
     py_bind (py_gets (\<lambda>h. latest_workspaces (wj_file h))) (\<lambda>r.
     case r of
       Inl e \<Rightarrow> py_raise (WorkspaceJournalError e)
     | Inr known \<Rightarrow>
         (case created of
            Inl e \<Rightarrow> py_raise e
          | Inr w \<Rightarrow>
              py_bind
                (if dget known wid = None
                 then py_modify (\<lambda>h. h\<lparr>wj_file := workspace_append (workspace_entry_of resolve_path now w) (wj_file h)\<rparr>)
                 else py_ret ()) (\<lambda>_.
              py_ret w))))"

section \<open>What is journalled\<close>

lemma latest_by_keys: "set (map fst (latest_by k v es)) = set (map k es)"
proof -
  have "set (map fst (fold (\<lambda>e. dput (k e) (v e)) es d)) = set (map fst d) \<union> set (map k es)" for d
  proof (induction es arbitrary: d)
    case (Cons e es)
    have "set (map fst (dput (k e) (v e) d)) = insert (k e) (set (map fst d))"
      by (induction d) auto
    with Cons show ?case by simp
  qed simp
  from this [of "[]"] show ?thesis by (simp add: latest_by_def)
qed

lemma known_iff: "dget (latest_by k v es) i = None \<longleftrightarrow> i \<notin> set (map k es)"
  using latest_by_keys [of k v es] by (metis map_of_eq_None_iff list.set_map)

lemma workspace_append_load:
  assumes "intact f" and "workspace_load_entries f = Inr es"
  shows "workspace_load_entries (workspace_append e f) = Inr (es @ [e])" and "intact (workspace_append e f)"
  using assms workspace_journal.parse_append [where f = f and e = e and n = 1 and es = es]
  by (simp_all add: workspace_load_entries_def workspace_append_def)

text \<open>A run of creations: the effect's id, the creation time and what the delegate did, each.\<close>

fun create_all ::
    "(workspace \<Rightarrow> string) option \<Rightarrow> (string \<times> string \<times> (workspace_error + workspace)) list \<Rightarrow> workspace_handler \<Rightarrow> workspace_handler" where
  "create_all rp [] h = h"
| "create_all rp ((wid, now, created) # cs) h = create_all rp cs (snd (handle_create_workspace rp now wid created h))"

lemma create_step:
  assumes "intact (wj_file h)" and "workspace_load_entries (wj_file h) = Inr es" and "wj_file h = None \<longrightarrow> \<not> wj_agents h"
    and "\<And>w. created = Inr w \<Longrightarrow> ws_id w = wid"
  shows "\<exists>new. intact (wj_file (snd (handle_create_workspace rp now wid created h))) \<and>
    workspace_load_entries (wj_file (snd (handle_create_workspace rp now wid created h))) = Inr (es @ new) \<and>
    wj_agents (snd (handle_create_workspace rp now wid created h)) = wj_agents h \<and>
    map we_id new = (if isl created \<or> wid \<in> set (map we_id es) then [] else [wid])"
proof -
  obtain h1 where h1: "journal_for h = (Inr (), h1)" "wj_file h1 = wj_file h" "wj_agents h1 = wj_agents h"
    using assms(3) by (cases "wj_checked h"; cases "wj_file h") (simp_all add: journal_for_def check_pre_coverage_def)
  have known: "latest_workspaces (wj_file h1) = Inr (latest_by we_id (\<lambda>e. e) es)"
    using assms(2) h1 by (simp add: latest_workspaces_def)
  show ?thesis
  proof (cases created)
    case (Inl e)
    then show ?thesis using assms(1,2) h1 known
      by (simp add: handle_create_workspace_def py_bind_def py_raise_def)
  next
    case (Inr w)
    let ?e = "workspace_entry_of rp now w"
    have "we_id ?e = wid" using assms(4) Inr by (simp add: workspace_entry_of_def)
    then show ?thesis using assms(1,2) Inr h1 known workspace_append_load [OF assms(1,2), of ?e]
      by (cases "dget (latest_by we_id (\<lambda>e. e) es) wid = None")
        (auto simp: handle_create_workspace_def known_iff py_bind_def py_ret_def)
  qed
qed

text \<open>
  C16: A workspace is journalled exactly once. Over any sequence of creations in which delegates
  return the workspace they are asked for, starting from a journal of complete lines without
  duplicate ids, the journal stays readable, keeps its entries in place, has no duplicate ids, and
  holds the ids of all workspaces created; a creation that fails journals nothing.
\<close>

theorem workspaces_are_journalled_once:
  assumes "intact (wj_file h)" and "workspace_load_entries (wj_file h) = Inr es" and "wj_file h = None \<longrightarrow> \<not> wj_agents h"
    and "\<forall>(wid, now, created) \<in> set cs. \<forall>w. created = Inr w \<longrightarrow> ws_id w = wid" and "distinct (map we_id es)"
  shows "\<exists>new. workspace_load_entries (wj_file (create_all rp cs h)) = Inr (es @ new) \<and> distinct (map we_id (es @ new)) \<and>
    set (map we_id (es @ new)) = set (map we_id es) \<union> {wid. \<exists>now w. (wid, now, Inr w) \<in> set cs}"
  using assms
proof (induction cs arbitrary: h es)
  case (Cons c cs)
  obtain wid now created where c: "c = (wid, now, created)" by (cases c)
  let ?h = "snd (handle_create_workspace rp now wid created h)"
  obtain new where new: "intact (wj_file ?h)" "workspace_load_entries (wj_file ?h) = Inr (es @ new)" "wj_agents ?h = wj_agents h"
      "map we_id new = (if isl created \<or> wid \<in> set (map we_id es) then [] else [wid])"
    using create_step [OF Cons.prems(1-3), of created wid rp now] Cons.prems(4) c by auto
  have "wj_file ?h = None \<longrightarrow> \<not> wj_agents ?h"
  proof
    assume none: "wj_file ?h = None"
    have "wj_file h = None"
    proof (rule ccontr)
      assume "wj_file h \<noteq> None"
      with none show False
        by (auto simp: handle_create_workspace_def journal_for_def check_pre_coverage_def py_bind_def py_ret_def py_raise_def
            workspace_append_def append_line_def split: sum.splits if_splits)
    qed
    with Cons.prems(3) new(3) show "\<not> wj_agents ?h" by simp
  qed
  moreover have "distinct (map we_id (es @ new))" using Cons.prems(5) new(4) by auto
  ultimately obtain new' where "workspace_load_entries (wj_file (create_all rp cs ?h)) = Inr ((es @ new) @ new')"
      "distinct (map we_id ((es @ new) @ new'))"
      "set (map we_id ((es @ new) @ new')) = set (map we_id (es @ new)) \<union> {wid. \<exists>now w. (wid, now, Inr w) \<in> set cs}"
    using Cons.IH [OF new(1,2)] Cons.prems(4) by auto
  moreover have "set (map we_id (es @ new)) = set (map we_id es) \<union> {w'. w' = wid \<and> \<not> isl created}"
    unfolding map_append set_append new(4) by auto
  moreover have "{w'. \<exists>now w. (w', now, Inr w) \<in> set (c # cs)} =
      {w'. w' = wid \<and> \<not> isl created} \<union> {wid. \<exists>now w. (wid, now, Inr w) \<in> set cs}"
    by (cases created) (auto simp: c)
  ultimately show ?case
    unfolding c by (intro exI [of _ "new @ new'"]) (simp add: Un_assoc [symmetric])
qed simp

definition demo_workspaces :: "(string \<times> string \<times> (workspace_error + workspace)) list" where
  "demo_workspaces =
     (let w = \<lparr>ws_id = ''w'', ws_repo = ''r'', ws_ref = ''b'', ws_base = ''main'', ws_issue = None\<rparr>
      in [(''w'', ''t0'', Inr w), (''v'', ''t1'', Inl (CreationFailed ''disk'')), (''w'', ''t2'', Inr w)])"

theorem workspaces_are_journalled_once_witness:
  "\<exists>new. workspace_load_entries
       (wj_file (create_all None demo_workspaces \<lparr>wj_run = ''r'', wj_file = None, wj_agents = False, wj_checked = False\<rparr>)) = Inr new \<and>
     distinct (map we_id new) \<and> set (map we_id new) = {''w''}"
proof -
  let ?h = "\<lparr>wj_run = ''r'', wj_file = None, wj_agents = False, wj_checked = False\<rparr>"
  have load: "workspace_load_entries (wj_file ?h) = Inr []" by (simp add: workspace_load_entries_def file_lines_def)
  have ids: "{wid. \<exists>now w. (wid, now, Inr w) \<in> set demo_workspaces} = {''w''}"
    by (auto simp: demo_workspaces_def Let_def)
  have asked: "\<forall>(wid, now, created) \<in> set demo_workspaces. \<forall>w. created = Inr w \<longrightarrow> ws_id w = wid"
    by (simp add: demo_workspaces_def Let_def)
  from workspaces_are_journalled_once [OF _ load _ asked, of None] show ?thesis
    unfolding ids by (simp add: intact_def)
qed

end
