(* ===== verification/Environment.thy ===== *)
theory Environment
  imports Journal Dsl_Expand
begin

text \<open>
  Agent profiles (\<open>doeff_conductor/environment.py\<close>, \<open>resolve_agent_profile\<close> of \<open>verbs.py\<close>): the bindings a
  run resolves its agents to, how they are read from the process environment, and the cascade
  that picks one for an agent. A mapping is a JSON object; \<open>str()\<close> of a value that is not a string
  is the parameter \<open>sr\<close>. The process environment is the record of the variables the loader reads,
  with the text of the file it names.
\<close>

section \<open>Profiles\<close>

record profile =
  pf_name :: string
  pf_adapter :: string
  pf_model :: "string option"
  pf_capabilities :: "string list"
  pf_budget :: int
  pf_effort :: "string option"

record registry =
  rg_profiles :: "(string, profile) dict"
  rg_default :: string

datatype (plugins only: code size) profile_error =
    NoAdapter string | BadModel string | BadEffort string | BadCapabilities string
  | BudgetNotInt string | BudgetBelowZero string
  | ProfileNotObject string | NotJsonObject | InvalidJson | NoConfigFile
  | UndefinedProfile string | UndefinedDefault string
  | UnknownRole string | RoleNotMapping string

text \<open>A field that must be a non-empty string or \<open>None\<close>.\<close>

definition text_or_none :: "profile_error \<Rightarrow> json option \<Rightarrow> profile_error + string option" where
  "text_or_none e v =
     (case v of
        None \<Rightarrow> Inr None
      | Some JNull \<Rightarrow> Inr None
      | Some (JStr s) \<Rightarrow> if s = [] then Inl e else Inr (Some s)
      | _ \<Rightarrow> Inl e)"

definition read_adapter :: "string \<Rightarrow> payload \<Rightarrow> profile_error + string" where
  "read_adapter name d =
     (case dget d ''adapter'' of
        Some (JStr s) \<Rightarrow> if s = [] then Inl (NoAdapter name) else Inr s
      | _ \<Rightarrow> Inl (NoAdapter name))"

definition read_capabilities :: "(json \<Rightarrow> string) \<Rightarrow> string \<Rightarrow> payload \<Rightarrow> profile_error + string list" where
  "read_capabilities sr name d =
     (case dget d ''capabilities'' of
        None \<Rightarrow> Inr []
      | Some (JList vs) \<Rightarrow> Inr (map (\<lambda>v. case v of JStr s \<Rightarrow> s | _ \<Rightarrow> sr v) vs)
      | _ \<Rightarrow> Inl (BadCapabilities name))"

definition read_budget_units :: "string \<Rightarrow> payload \<Rightarrow> profile_error + int" where
  "read_budget_units name d =
     (case dget d ''budget_units'' of
        None \<Rightarrow> Inr 1
      | Some (JInt i) \<Rightarrow> if i < 0 then Inl (BudgetBelowZero name) else Inr i
      | _ \<Rightarrow> Inl (BudgetNotInt name))"

definition profile_from_mapping :: "(json \<Rightarrow> string) \<Rightarrow> string \<Rightarrow> payload \<Rightarrow> profile_error + profile" where
  "profile_from_mapping sr name d =
     rbind (read_adapter name d) (\<lambda>adapter.
     rbind (text_or_none (BadModel name) (dget d ''model'')) (\<lambda>model.
     rbind (text_or_none (BadEffort name) (dget d ''effort'')) (\<lambda>effort.
     rbind (read_capabilities sr name d) (\<lambda>capabilities.
     rbind (read_budget_units name d) (\<lambda>budget.
     Inr \<lparr>pf_name = name, pf_adapter = adapter, pf_model = model, pf_capabilities = capabilities,
          pf_budget = budget, pf_effort = effort\<rparr>)))))"

definition registry_resolve :: "registry \<Rightarrow> string \<Rightarrow> profile_error + profile" where
  "registry_resolve reg name =
     (case dget (rg_profiles reg) name of None \<Rightarrow> Inl (UndefinedProfile name) | Some p \<Rightarrow> Inr p)"

definition profile_public :: "profile \<Rightarrow> json" where
  "profile_public p =
     JObj [(''name'', JStr (pf_name p)), (''capabilities'', JList (map JStr (pf_capabilities p))),
           (''budget_units'', JInt (pf_budget p))]"

definition registry_public :: "registry \<Rightarrow> json" where
  "registry_public reg =
     JObj [(''profiles'', JList (map profile_public (sort_key pf_name (map snd (rg_profiles reg))))),
           (''default_profile'', JStr (rg_default reg))]"

section \<open>Reading the environment\<close>

record process_env =
  env_profiles_json :: "string option"
  env_profile_config :: "string option" \<comment> \<open>a path\<close>
  env_default_profile :: "string option"

definition default_profile_entry :: "string \<Rightarrow> string list \<Rightarrow> int \<Rightarrow> json" where
  "default_profile_entry adapter capabilities budget =
     JObj [(''adapter'', JStr adapter), (''model'', JNull), (''effort'', JStr ''xhigh''),
           (''capabilities'', JList (map JStr capabilities)), (''budget_units'', JInt budget)]"

definition default_profile_data :: payload where
  "default_profile_data =
     [(''cheap-coder'', default_profile_entry ''codex'' [''durable-sessions'', ''schema-validation''] 1),
      (''cheap-reviewer'', default_profile_entry ''codex'' [''durable-sessions'', ''schema-validation''] 1),
      (''frontier-reviewer'',
         default_profile_entry ''claude'' [''durable-sessions'', ''interactive'', ''schema-validation''] 3),
      (''frontier-author'',
         default_profile_entry ''claude'' [''durable-sessions'', ''interactive'', ''schema-validation''] 3)]"

definition json_object :: "string option \<Rightarrow> profile_error + payload" where
  "json_object text =
     (case text of
        None \<Rightarrow> Inl NoConfigFile
      | Some t \<Rightarrow> (case loads t of None \<Rightarrow> Inl InvalidJson | Some (JObj d) \<Rightarrow> Inr d | Some _ \<Rightarrow> Inl NotJsonObject))"

definition profile_data :: "(string \<Rightarrow> string option) \<Rightarrow> process_env \<Rightarrow> profile_error + payload" where
  "profile_data read_text env =
     (case env_profiles_json env of
        Some t \<Rightarrow> json_object (Some t)
      | None \<Rightarrow>
          (case env_profile_config env of
             Some path \<Rightarrow> json_object (read_text path)
           | None \<Rightarrow> Inr default_profile_data))"

fun build_profiles ::
    "(json \<Rightarrow> string) \<Rightarrow> (string, profile) dict \<Rightarrow> payload \<Rightarrow> profile_error + (string, profile) dict" where
  "build_profiles sr acc [] = Inr acc"
| "build_profiles sr acc ((name, raw) # rest) =
     (case raw of
        JObj d \<Rightarrow> rbind (profile_from_mapping sr name d) (\<lambda>p. build_profiles sr (dput name p acc) rest)
      | _ \<Rightarrow> Inl (ProfileNotObject name))"

definition load_profile_registry ::
    "(json \<Rightarrow> string) \<Rightarrow> (string \<Rightarrow> string option) \<Rightarrow> process_env \<Rightarrow> profile_error + registry" where
  "load_profile_registry sr read_text env =
     rbind (profile_data read_text env) (\<lambda>d.
     rbind (build_profiles sr [] d) (\<lambda>profiles.
     let dflt = (case env_default_profile env of None \<Rightarrow> ''cheap-coder'' | Some s \<Rightarrow> if s = [] then ''cheap-coder'' else s)
     in if dget profiles dflt = None then Inl (UndefinedDefault dflt)
        else Inr \<lparr>rg_profiles = profiles, rg_default = dflt\<rparr>))"

section \<open>The cascade\<close>

definition default_router_policy :: "(string, string) dict" where
  "default_router_policy =
     [(''mechanical'', ''cheap-coder''), (''test-verifiable'', ''cheap-coder''), (''semantic'', ''frontier-reviewer'')]"

text \<open>\<open>roles[role]\<close> and \<open>role_spec.get(key)\<close>\<close>

definition role_entry :: "(string, obj) dict \<Rightarrow> string \<Rightarrow> string \<Rightarrow> profile_error + obj option" where
  "role_entry roles role key =
     (case dget roles role of
        None \<Rightarrow> Inl (UnknownRole role)
      | Some (ODict d) \<Rightarrow> Inr (dget d (OStr key))
      | Some _ \<Rightarrow> Inl (RoleNotMapping role))"

definition resolved_as :: "registry \<Rightarrow> string \<Rightarrow> string \<Rightarrow> profile_error + string \<times> string" where
  "resolved_as reg name source = rbind (registry_resolve reg name) (\<lambda>_. Inr (name, source))"

definition resolve_agent_profile ::
    "string option \<Rightarrow> string \<Rightarrow> string \<Rightarrow> (string, obj) dict \<Rightarrow> registry \<Rightarrow> profile_error + string \<times> string" where
  "resolve_agent_profile explicit role cls roles reg =
     (case explicit of
        Some name \<Rightarrow> resolved_as reg name ''explicit''
      | None \<Rightarrow>
          rbind (role_entry roles role ''profile'') (\<lambda>entry.
          case (case entry of Some (OStr s) \<Rightarrow> if s = [] then None else Some s | _ \<Rightarrow> None) of
            Some name \<Rightarrow> resolved_as reg name ''role''
          | None \<Rightarrow>
              (case dget default_router_policy cls of
                 Some name \<Rightarrow> resolved_as reg name ''router''
               | None \<Rightarrow> resolved_as reg (rg_default reg) ''interpreter-env'')))"

lemma resolved_as_defined: "resolved_as reg n source' = Inr (name, source) \<Longrightarrow> n = name \<and> (\<exists>p. registry_resolve reg name = Inr p)"
  by (auto simp: resolved_as_def rbind_eq_Inr)

lemma resolve_agent_profile_defined:
  assumes "resolve_agent_profile explicit role cls roles reg = Inr (name, source)"
  obtains p where "registry_resolve reg name = Inr p" and "\<And>asked. explicit = Some asked \<Longrightarrow> name = asked"
proof (cases explicit)
  case (Some asked)
  then show thesis using assms that resolved_as_defined by (fastforce simp: resolve_agent_profile_def)
next
  case None
  then have "\<exists>n s. resolved_as reg n s = Inr (name, source)"
    using assms by (auto simp: resolve_agent_profile_def rbind_eq_Inr split: option.splits)
  then show thesis using that None resolved_as_defined by blast
qed

section \<open>Loaded registries are well formed\<close>

definition profile_wf :: "profile \<Rightarrow> bool" where
  "profile_wf p \<longleftrightarrow> pf_adapter p \<noteq> [] \<and> pf_model p \<noteq> Some [] \<and> pf_effort p \<noteq> Some [] \<and> 0 \<le> pf_budget p"

definition registry_wf :: "registry \<Rightarrow> bool" where
  "registry_wf reg \<longleftrightarrow> distinct (dkeys (rg_profiles reg)) \<and>
     (\<forall>(name, p) \<in> set (rg_profiles reg). pf_name p = name \<and> profile_wf p) \<and>
     rg_default reg \<in> set (dkeys (rg_profiles reg))"

lemma text_or_none_wf: "text_or_none e v = Inr r \<Longrightarrow> r \<noteq> Some []"
  by (auto simp: text_or_none_def split: option.splits json.splits if_splits)

lemma profile_from_mapping_wf:
  "profile_from_mapping sr name d = Inr p \<Longrightarrow> pf_name p = name \<and> profile_wf p"
  by (auto simp: profile_from_mapping_def rbind_eq_Inr profile_wf_def read_adapter_def read_budget_units_def
      dest!: text_or_none_wf split: option.splits json.splits if_splits)

lemma set_dput_subset: "set (dput k v d) \<subseteq> insert (k, v) (set d)"
  by (induction d) auto

lemma build_profiles_wf:
  assumes "build_profiles sr acc d = Inr ps" and "distinct (dkeys acc)"
    and "\<forall>(name, p) \<in> set acc. pf_name p = name \<and> profile_wf p"
  shows "distinct (dkeys ps) \<and> (\<forall>(name, p) \<in> set ps. pf_name p = name \<and> profile_wf p)"
  using assms
proof (induction sr acc d rule: build_profiles.induct)
  case (2 sr acc name raw rest)
  from "2.prems"(1) obtain d p where raw: "raw = JObj d" and p: "profile_from_mapping sr name d = Inr p"
      and rest: "build_profiles sr (dput name p acc) rest = Inr ps"
    by (auto simp: rbind_eq_Inr split: json.splits)
  have "\<forall>(name, p) \<in> set (dput name p acc). pf_name p = name \<and> profile_wf p"
    using "2.prems"(3) set_dput_subset [of name p acc] profile_from_mapping_wf [OF p] by fast
  then show ?case
    using "2.IH" [OF raw rest] "2.prems"(2) by simp
qed simp

lemma load_profile_registryE:
  assumes "load_profile_registry sr read_text env = Inr reg"
  obtains d ps where "build_profiles sr [] d = Inr ps" "rg_profiles reg = ps" "rg_default reg \<in> set (dkeys ps)"
proof -
  define dflt where "dflt = (case env_default_profile env of None \<Rightarrow> ''cheap-coder''
    | Some s \<Rightarrow> if s = [] then ''cheap-coder'' else s)"
  from assms obtain d ps where ps: "build_profiles sr [] d = Inr ps"
      and reg: "(if dget ps dflt = None then Inl (UndefinedDefault dflt)
                 else Inr \<lparr>rg_profiles = ps, rg_default = dflt\<rparr>) = Inr reg"
    unfolding load_profile_registry_def rbind_eq_Inr Let_def dflt_def [symmetric] by (elim exE conjE) blast
  show thesis
  proof (cases "dget ps dflt")
    case (Some p)
    then have "(dflt, p) \<in> set ps" by (rule map_of_SomeD)
    with that [OF ps] reg Some show thesis by force
  qed (use reg in simp)
qed

lemma registry_resolve_known:
  "registry_resolve reg name = Inr p \<Longrightarrow> (name, p) \<in> set (rg_profiles reg)"
  by (auto simp: registry_resolve_def dest: map_of_SomeD split: option.splits)

definition demo_profile :: "string \<Rightarrow> string \<Rightarrow> string list \<Rightarrow> int \<Rightarrow> string \<times> profile" where
  "demo_profile name adapter capabilities budget =
     (name, \<lparr>pf_name = name, pf_adapter = adapter, pf_model = None, pf_capabilities = capabilities,
             pf_budget = budget, pf_effort = Some ''xhigh''\<rparr>)"

definition demo_registry :: registry where
  "demo_registry = \<lparr>rg_profiles =
     [demo_profile ''cheap-coder'' ''codex'' [''durable-sessions'', ''schema-validation''] 1,
      demo_profile ''cheap-reviewer'' ''codex'' [''durable-sessions'', ''schema-validation''] 1,
      demo_profile ''frontier-reviewer'' ''claude'' [''durable-sessions'', ''interactive'', ''schema-validation''] 3,
      demo_profile ''frontier-author'' ''claude'' [''durable-sessions'', ''interactive'', ''schema-validation''] 3],
     rg_default = ''frontier-author''\<rparr>"

lemma demo_profile_read:
  "adapter \<noteq> [] \<Longrightarrow> budget \<ge> 0 \<Longrightarrow>
   build_profiles sr acc ((name, default_profile_entry adapter capabilities budget) # rest) =
   build_profiles sr (dput name (snd (demo_profile name adapter capabilities budget)) acc) rest"
  by (simp add: default_profile_entry_def profile_from_mapping_def read_adapter_def text_or_none_def
      read_capabilities_def read_budget_units_def demo_profile_def comp_def)

lemma demo_registry_loads:
  "load_profile_registry (\<lambda>_. []) (\<lambda>_. None)
     \<lparr>env_profiles_json = None, env_profile_config = None, env_default_profile = Some ''frontier-author''\<rparr> =
   Inr demo_registry"
  by (simp add: load_profile_registry_def profile_data_def default_profile_data_def demo_profile_read
      demo_registry_def demo_profile_def Let_def del: build_profiles.simps(2))

lemma demo_reviewer_profile:
  "resolve_agent_profile None ''reviewer'' ''semantic'' [(''reviewer'', ODict [])] demo_registry =
   Inr (''frontier-reviewer'', ''router'')"
  by (simp add: resolve_agent_profile_def role_entry_def default_router_policy_def resolved_as_def
      registry_resolve_def demo_registry_def demo_profile_def)

text \<open>
  C24: An agent is always run under a well-formed profile. Whatever the environment gives, if the
  registry loads then every profile of it is stored under its own name, has an adapter and no empty
  model or effort (\<open>None\<close> leaves the choice to the agent's program) and its budget is not negative,
  and the default profile is one of them; and whatever profile the cascade picks for an agent is
  a profile of that registry, the one the agent asks for when it asks for one.
\<close>

theorem resolved_profiles_are_well_formed:
  assumes "load_profile_registry sr read_text env = Inr reg"
    and "resolve_agent_profile explicit role cls roles reg = Inr (name, source)"
  shows "registry_wf reg \<and> (\<exists>p. registry_resolve reg name = Inr p \<and> pf_name p = name \<and> profile_wf p) \<and>
    (\<forall>asked. explicit = Some asked \<longrightarrow> name = asked)"
proof -
  obtain d ps where ps: "build_profiles sr [] d = Inr ps" and reg: "rg_profiles reg = ps"
      and dflt: "rg_default reg \<in> set (dkeys ps)"
    by (rule load_profile_registryE [OF assms(1)])
  have wf: "registry_wf reg"
    using build_profiles_wf [OF ps] dflt by (simp add: registry_wf_def reg)
  obtain p where p: "registry_resolve reg name = Inr p"
      and asked: "\<And>asked. explicit = Some asked \<Longrightarrow> name = asked"
    using assms(2) by (rule resolve_agent_profile_defined) blast
  have "pf_name p = name \<and> profile_wf p"
    using wf registry_resolve_known [OF p] unfolding registry_wf_def by blast
  with wf p asked show ?thesis by blast
qed

theorem resolved_profiles_are_well_formed_witness:
  "load_profile_registry (\<lambda>_. []) (\<lambda>_. None)
       \<lparr>env_profiles_json = None, env_profile_config = None, env_default_profile = Some ''frontier-author''\<rparr> =
     Inr demo_registry \<and>
   resolve_agent_profile None ''reviewer'' ''semantic'' [(''reviewer'', ODict [])] demo_registry =
     Inr (''frontier-reviewer'', ''router'') \<and> registry_wf demo_registry"
  using resolved_profiles_are_well_formed
    [of "\<lambda>_. []" "\<lambda>_. None"
        "\<lparr>env_profiles_json = None, env_profile_config = None, env_default_profile = Some ''frontier-author''\<rparr>"
        demo_registry None "''reviewer''" "''semantic''" "[(''reviewer'', ODict [])]" "''frontier-reviewer''" "''router''"]
    demo_registry_loads demo_reviewer_profile by blast

end
