(* ===== verification/Gates.thy ===== *)
theory Gates
  imports Journal_Format
begin

text \<open>
  Gates shown to the overseer (\<open>GateOption\<close> and \<open>OpenGateView\<close> of \<open>doeff_conductor/overseer.py\<close>): the point
  at which a run waits for a decision, with its stakes and the options the overseer has. The
  stakes are a JSON object. \<open>sr\<close> is \<open>str()\<close> of a JSON value that is not a string. \<open>dict()\<close> of a
  list is modelled for lists of pairs with string keys.
\<close>

record gate_option =
  go_name :: string
  go_outcome :: string
  go_description :: string

record gate =
  gt_id :: string
  gt_workflow :: string
  gt_node :: string
  gt_phase :: "string option"
  gt_reason :: string
  gt_stakes :: payload
  gt_options :: "gate_option list"

datatype (plugins only: code size) gate_error = GateKeyError string | BadOutcome string | BadOptions | BadStakes

definition valid_gate_outcomes :: "string list" where
  "valid_gate_outcomes = [''resume'', ''abort'']"

definition option_to_dict :: "gate_option \<Rightarrow> json" where
  "option_to_dict x =
     JObj [(''name'', JStr (go_name x)), (''outcome'', JStr (go_outcome x)), (''description'', JStr (go_description x))]"

definition py_str :: "(json \<Rightarrow> string) \<Rightarrow> json \<Rightarrow> string" where
  "py_str sr v = (case v of JStr s \<Rightarrow> s | _ \<Rightarrow> sr v)"

definition field :: "payload \<Rightarrow> string \<Rightarrow> gate_error + json" where
  "field d k = (case dget d k of None \<Rightarrow> Inl (GateKeyError k) | Some v \<Rightarrow> Inr v)"

definition option_from_dict :: "(json \<Rightarrow> string) \<Rightarrow> payload \<Rightarrow> gate_error + gate_option" where
  "option_from_dict sr d =
     rbind (field d ''outcome'') (\<lambda>raw.
     if py_str sr raw \<notin> set valid_gate_outcomes then Inl (BadOutcome (py_str sr raw))
     else
       rbind (field d ''name'') (\<lambda>name.
       rbind (field d ''description'') (\<lambda>description.
       Inr \<lparr>go_name = py_str sr name, go_outcome = py_str sr raw, go_description = py_str sr description\<rparr>)))"

definition gate_to_dict :: "gate \<Rightarrow> payload" where
  "gate_to_dict g =
     [(''gate_id'', JStr (gt_id g)), (''workflow_id'', JStr (gt_workflow g)), (''node_id'', JStr (gt_node g)),
      (''phase'', json_opt (gt_phase g)), (''reason'', JStr (gt_reason g)), (''stakes'', JObj (gt_stakes g)),
      (''options'', JList (map option_to_dict (gt_options g)))]"

text \<open>The items of the list that are dictionaries, read in order up to the first error.\<close>

fun options_from :: "(json \<Rightarrow> string) \<Rightarrow> json list \<Rightarrow> gate_error + gate_option list" where
  "options_from sr [] = Inr []"
| "options_from sr (JObj d # vs) =
     rbind (option_from_dict sr d) (\<lambda>x. rbind (options_from sr vs) (\<lambda>xs. Inr (x # xs)))"
| "options_from sr (v # vs) = options_from sr vs"

fun dict_pairs :: "payload \<Rightarrow> json list \<Rightarrow> gate_error + payload" where
  "dict_pairs acc [] = Inr acc"
| "dict_pairs acc (JList [JStr k, v] # vs) = dict_pairs (dput k v acc) vs"
| "dict_pairs acc (v # vs) = Inl BadStakes"

definition dict_of :: "json \<Rightarrow> gate_error + payload" where
  "dict_of v =
     (case v of JObj d \<Rightarrow> Inr d | JList vs \<Rightarrow> dict_pairs [] vs | JStr [] \<Rightarrow> Inr [] | _ \<Rightarrow> Inl BadStakes)"

definition raw_options :: "payload \<Rightarrow> gate_error + json list" where
  "raw_options d =
     (case dget d ''options'' of None \<Rightarrow> Inr [] | Some (JList vs) \<Rightarrow> Inr vs | Some _ \<Rightarrow> Inl BadOptions)"

definition raw_phase :: "(json \<Rightarrow> string) \<Rightarrow> payload \<Rightarrow> string option" where
  "raw_phase sr d = (case dget d ''phase'' of None \<Rightarrow> None | Some JNull \<Rightarrow> None | Some v \<Rightarrow> Some (py_str sr v))"

definition gate_from_dict :: "(json \<Rightarrow> string) \<Rightarrow> payload \<Rightarrow> gate_error + gate" where
  "gate_from_dict sr d =
     rbind (raw_options d) (\<lambda>raw.
     rbind (options_from sr raw) (\<lambda>options.
     rbind (field d ''gate_id'') (\<lambda>gate_id.
     rbind (field d ''workflow_id'') (\<lambda>workflow_id.
     rbind (field d ''node_id'') (\<lambda>node_id.
     rbind (field d ''reason'') (\<lambda>reason.
     rbind (case dget d ''stakes'' of None \<Rightarrow> Inr [] | Some v \<Rightarrow> dict_of v) (\<lambda>stakes.
     Inr \<lparr>gt_id = py_str sr gate_id, gt_workflow = py_str sr workflow_id, gt_node = py_str sr node_id,
          gt_phase = raw_phase sr d, gt_reason = py_str sr reason, gt_stakes = stakes, gt_options = options\<rparr>)))))))"

section \<open>Gates survive the journal of the run\<close>

lemma py_str_JStr [simp]: "py_str sr (JStr s) = s"
  by (simp add: py_str_def)

lemma option_roundtrip:
  "go_outcome x \<in> set valid_gate_outcomes \<Longrightarrow>
   \<exists>d. option_to_dict x = JObj d \<and> option_from_dict sr d = Inr x"
  by (simp add: option_to_dict_def option_from_dict_def field_def)

lemma options_roundtrip:
  "(\<forall>x \<in> set xs. go_outcome x \<in> set valid_gate_outcomes) \<Longrightarrow>
   options_from sr (map option_to_dict xs) = Inr xs"
proof (induction xs)
  case (Cons x xs)
  then obtain d where "option_to_dict x = JObj d" "option_from_dict sr d = Inr x"
    using option_roundtrip by fastforce
  with Cons show ?case by simp
qed simp

lemma gate_fields:
  "dget (gate_to_dict g) ''gate_id'' = Some (JStr (gt_id g))"
  "dget (gate_to_dict g) ''workflow_id'' = Some (JStr (gt_workflow g))"
  "dget (gate_to_dict g) ''node_id'' = Some (JStr (gt_node g))"
  "dget (gate_to_dict g) ''phase'' = Some (json_opt (gt_phase g))"
  "dget (gate_to_dict g) ''reason'' = Some (JStr (gt_reason g))"
  "dget (gate_to_dict g) ''stakes'' = Some (JObj (gt_stakes g))"
  "dget (gate_to_dict g) ''options'' = Some (JList (map option_to_dict (gt_options g)))"
  by (simp_all add: gate_to_dict_def)

lemma gate_roundtrip:
  assumes "\<forall>x \<in> set (gt_options g). go_outcome x \<in> set valid_gate_outcomes"
  shows "gate_from_dict sr (gate_to_dict g) = Inr g"
  using options_roundtrip [OF assms]
  by (cases "gt_phase g")
     (simp_all add: gate_from_dict_def raw_options_def raw_phase_def field_def dict_of_def gate_fields json_opt_def)

end
