(* ===== verification/Runtime_Values.thy ===== *)
theory Runtime_Values
  imports Environment Gates Replay_Agent Replay_Workspace Result_Schema
begin

text \<open>
  Values of a running workflow (\<open>doeff_conductor/workflow_runtime.py\<close>, \<open>types.py\<close>): what forms evaluate
  to, the exceptions the interpreter raises, and the pure helpers it applies to values. A
  \<open>frozenset\<close> and a \<open>set\<close> are one constructor. What depends on classes outside the interpreter
  (\<open>str()\<close> and \<open>vars()\<close> of their objects, a pydantic schema, a predicate function) is in the record
  \<open>rt_lib\<close>, with SHA-256 and the printing of floats.
\<close>

section \<open>Values\<close>

text \<open>A \<open>ToleratedLoss\<close>\<close>

record loss =
  ls_path :: string
  ls_branch :: nat
  ls_error :: string
  ls_type :: string
  ls_quorum :: int
  ls_total :: nat

text \<open>
  \<open>VOk\<close>, \<open>VErr\<close>, \<open>VQuorum\<close>, \<open>VParked\<close> are the runtime's result classes, \<open>VExec\<close> an \<open>ExecResult\<close>,
  \<open>VMerged\<close> a \<open>MergeWorkspacesResult\<close> (merged, workspace, conflicts, message), \<open>VSpec\<close> a DSL object
  that is not evaluated, \<open>VResult\<close> a \<open>WorkflowRuntimeResult\<close>, \<open>VOther\<close> an object of any other class.
\<close>

datatype (plugins only: code size) rval =
    VNone
  | VBool bool
  | VInt int
  | VFloat flt
  | VStr string
  | VList "rval list"
  | VTuple "rval list"
  | VSet "rval list"
  | VDict "(rval \<times> rval) list"
  | VWorkspace workspace
  | VExec int string string bool \<comment> \<open>exit code, log path, output, timed out\<close>
  | VMerged bool "workspace option" "(workspace \<times> string list) list" "string option"
  | VOk rval nat
  | VErr string string nat \<comment> \<open>error, error type, branch\<close>
  | VQuorum "rval list" int nat \<comment> \<open>entries, quorum, total\<close>
  | VParked "gate list" bool
  | VResult rval "gate list" "loss list"
  | VSpec obj
  | VOther nat

text \<open>
  \<open>RtRaised\<close> is an exception of a handler or a predicate with its class name and text, \<open>RtBase\<close> one
  that is not an \<open>Exception\<close>; a deadline and its elapsed time are the numbers as JSON.
\<close>

datatype (plugins only: code size) exn =
    RtUndefined string | RtNoField rval | RtNoAttribute string rval | RtVars string
  | RtNotWorkspace string | RtUnsupported string | RtNotSequence | RtArity nat nat
  | RtUnhashable string | RtStrategy obj | RtRole string | RtRetry string | RtSchema
  | RtType | RtAnswer | RtProfile profile_error | RtDsl dsl_error | RtSupervision string
  | AgentExhausted string int string string \<comment> \<open>session, attempts, kind, message\<close>
  | AgentDeadline string json json \<comment> \<open>session, deadline, elapsed\<close>
  | RtRaised string string
  | RtBase string

record rt_lib =
  l_str :: "rval \<Rightarrow> string"
  l_json_str :: "json \<Rightarrow> string"
  l_float :: "flt \<Rightarrow> string"
  l_feq :: "json \<Rightarrow> json \<Rightarrow> bool"
  l_created :: "workspace \<Rightarrow> rval"
  l_attrs :: "rval \<Rightarrow> (string, rval) dict option"
  l_json :: "rval \<Rightarrow> json"
  l_model_schema :: "nat \<Rightarrow> json option"
  l_pred :: "nat \<Rightarrow> ((string, rval) dict \<Rightarrow> exn + bool) option"
  l_sha :: "string \<Rightarrow> string"
  l_exc :: "exn \<Rightarrow> string"
  l_obj_str :: "obj \<Rightarrow> string"

abbreviation is_parked :: "rval \<Rightarrow> bool" where
  "is_parked v \<equiv> (case v of VParked gs h \<Rightarrow> True | _ \<Rightarrow> False)"

text \<open>\<open>type(exc).__name__\<close>, and whether \<open>except Exception\<close> catches it\<close>

definition exn_type :: "exn \<Rightarrow> string" where
  "exn_type e =
     (case e of
        RtUndefined n \<Rightarrow> ''KeyError'' | RtNoField k \<Rightarrow> ''KeyError'' | RtRole r \<Rightarrow> ''KeyError''
      | RtProfile p \<Rightarrow> (case p of UnknownRole r \<Rightarrow> ''KeyError'' | RoleNotMapping r \<Rightarrow> ''AttributeError''
                                | _ \<Rightarrow> ''ValueError'')
      | RtNoAttribute c k \<Rightarrow> ''AttributeError'' | RtAnswer \<Rightarrow> ''AttributeError''
      | RtArity n m \<Rightarrow> ''ValueError'' | RtStrategy x \<Rightarrow> ''ValueError'' | RtSupervision s \<Rightarrow> ''ValueError''
      | RtDsl d \<Rightarrow> (case d of PyTypeError \<Rightarrow> ''TypeError'' | PyValueError \<Rightarrow> ''ValueError''
                            | PyOverflowError \<Rightarrow> ''OverflowError'' | _ \<Rightarrow> ''WorkflowExpansionError'')
      | AgentExhausted s n k m \<Rightarrow> ''AgentAttemptExhaustedError''
      | AgentDeadline s d el \<Rightarrow> ''AgentDeadlineExceededError''
      | RtRaised c t \<Rightarrow> c | RtBase c \<Rightarrow> c
      | _ \<Rightarrow> ''TypeError'')"

definition is_exception :: "exn \<Rightarrow> bool" where
  "is_exception e = (case e of RtBase c \<Rightarrow> False | _ \<Rightarrow> True)"

section \<open>Dictionaries of values\<close>

text \<open>Keys are one key when Python compares them equal: \<open>True\<close>, \<open>1\<close> and \<open>1.0\<close> are.\<close>

fun norm_key :: "rval \<Rightarrow> rval" where
  "norm_key (VBool b) = VInt (if b then 1 else 0)"
| "norm_key (VFloat (Fin q)) = (if of_int \<lfloor>q\<rfloor> = q then VInt \<lfloor>q\<rfloor> else VFloat (Fin q))"
| "norm_key (VTuple xs) = VTuple (map norm_key xs)"
| "norm_key v = v"

fun vget :: "(rval \<times> rval) list \<Rightarrow> rval \<Rightarrow> rval option" where
  "vget [] k = None"
| "vget ((k', v) # d) k = (if norm_key k' = norm_key k then Some v else vget d k)"

fun vput :: "rval \<Rightarrow> rval \<Rightarrow> (rval \<times> rval) list \<Rightarrow> (rval \<times> rval) list" where
  "vput k v [] = [(k, v)]"
| "vput k v ((k', v') # d) = (if norm_key k' = norm_key k then (k', v) # d else (k', v') # vput k v d)"

fun vhashable :: "rval \<Rightarrow> bool" where
  "vhashable (VList xs) = False"
| "vhashable (VDict d) = False"
| "vhashable (VTuple xs) = list_all vhashable xs"
| "vhashable (VOk v i) = vhashable v"
| "vhashable (VQuorum es q n) = list_all vhashable es"
| "vhashable (VParked gs h) = (gs = [])"
| "vhashable (VResult v gs ls) = (vhashable v \<and> gs = [])"
| "vhashable (VSpec x) = hashable x"
| "vhashable v = True"

text \<open>\<open>set(items)\<close>: the first of equal items stays.\<close>

fun vset :: "rval list \<Rightarrow> rval list \<Rightarrow> rval list" where
  "vset acc [] = acc"
| "vset acc (x # xs) = vset (if norm_key x \<in> norm_key ` set acc then acc else acc @ [x]) xs"

fun vtype :: "rval \<Rightarrow> string" where
  "vtype VNone = ''NoneType''"
| "vtype (VBool b) = ''bool''"
| "vtype (VInt i) = ''int''"
| "vtype (VFloat f) = ''float''"
| "vtype (VStr s) = ''str''"
| "vtype (VList xs) = ''list''"
| "vtype (VTuple xs) = ''tuple''"
| "vtype (VSet xs) = ''set''"
| "vtype (VDict d) = ''dict''"
| "vtype (VWorkspace w) = ''Workspace''"
| "vtype (VExec c l t b) = ''ExecResult''"
| "vtype (VMerged m w cs t) = ''MergeWorkspacesResult''"
| "vtype (VOk v i) = ''OkValue''"
| "vtype (VErr m t i) = ''ErrValue''"
| "vtype (VQuorum es q n) = ''QuorumResult''"
| "vtype (VParked gs h) = ''ParkedValue''"
| "vtype (VResult v gs ls) = ''WorkflowRuntimeResult''"
| "vtype (VSpec x) = type_name x"
| "vtype (VOther n) = ''object''"

text \<open>\<open>bool(v)\<close>\<close>

fun vtruthy :: "rval \<Rightarrow> bool" where
  "vtruthy VNone = False"
| "vtruthy (VBool b) = b"
| "vtruthy (VInt i) = (i \<noteq> 0)"
| "vtruthy (VFloat f) = (f \<noteq> Fin 0)"
| "vtruthy (VStr s) = (s \<noteq> [])"
| "vtruthy (VList xs) = (xs \<noteq> [])"
| "vtruthy (VTuple xs) = (xs \<noteq> [])"
| "vtruthy (VSet xs) = (xs \<noteq> [])"
| "vtruthy (VDict d) = (d \<noteq> [])"
| "vtruthy v = True"

text \<open>A DSL object that \<open>_evaluate_value\<close> returns as it is.\<close>

fun plain_value :: "obj \<Rightarrow> rval" where
  "plain_value ONone = VNone"
| "plain_value (OBool b) = VBool b"
| "plain_value (OInt i) = VInt i"
| "plain_value (OFloat f) = VFloat f"
| "plain_value (OStr s) = VStr s"
| "plain_value (OOther n) = VOther n"
| "plain_value x = VSpec x"

section \<open>JSON text of values\<close>

definition json_float :: "rt_lib \<Rightarrow> flt \<Rightarrow> json" where
  "json_float L f =
     JFloat (case f of Fin q \<Rightarrow> l_float L f | PosInf \<Rightarrow> ''Infinity'' | NegInf \<Rightarrow> ''-Infinity'' | NaN \<Rightarrow> ''NaN'')"

definition key_text :: "rt_lib \<Rightarrow> rval \<Rightarrow> string" where
  "key_text L k = (case k of VStr s \<Rightarrow> s | _ \<Rightarrow> l_str L k)"

definition workspace_json :: "rt_lib \<Rightarrow> workspace \<Rightarrow> json" where
  "workspace_json L w =
     JObj [(''id'', JStr (ws_id w)), (''repo'', JStr (ws_repo w)), (''ref'', JStr (ws_ref w)),
           (''base_ref'', JStr (ws_base w)), (''issue_id'', json_opt (ws_issue w)),
           (''created_at'', JStr (l_str L (l_created L w)))]"

fun jsonable :: "rt_lib \<Rightarrow> rval \<Rightarrow> json" where
  "jsonable L VNone = JNull"
| "jsonable L (VBool b) = JBool b"
| "jsonable L (VInt i) = JInt i"
| "jsonable L (VFloat f) = json_float L f"
| "jsonable L (VStr s) = JStr s"
| "jsonable L (VList xs) = JList (map (jsonable L) xs)"
| "jsonable L (VTuple xs) = JList (map (jsonable L) xs)"
| "jsonable L (VSet xs) = JList (map (jsonable L) xs)"
| "jsonable L (VDict d) =
     JObj (fold (\<lambda>(k, v). dput k v) (map (map_prod (key_text L) (jsonable L)) d) [])"
| "jsonable L (VWorkspace w) = workspace_json L w"
| "jsonable L (VExec ec lp out timed_out) =
     JObj [(''exit_code'', JInt ec), (''log_path'', JStr lp), (''output'', JStr out), (''timed_out'', JBool timed_out)]"
| "jsonable L (VOk v i) = JObj [(''value'', jsonable L v), (''branch_index'', JInt (int i))]"
| "jsonable L (VErr e t i) =
     JObj [(''error'', JStr e), (''error_type'', JStr t), (''branch_index'', JInt (int i))]"
| "jsonable L (VQuorum es q n) =
     JObj [(''entries'', JList (map (jsonable L) es)), (''quorum'', JInt q), (''total'', JInt (int n))]"
| "jsonable L (VParked gs h) =
     JObj [(''gates'', JList (map (\<lambda>g. JObj (gate_to_dict g)) gs)), (''halt_run'', JBool h)]"
| "jsonable L v = l_json L v"

text \<open>\<open>json.dumps\<close> with its default separators\<close>

fun dump_spaced :: "json \<Rightarrow> string" where
  "dump_spaced (JList vs) = ''['' @ str_join '', '' (map dump_spaced vs) @ '']''"
| "dump_spaced (JObj d) =
     ''{'' @ str_join '', '' (map (\<lambda>(k, v). dump_str k @ '': '' @ dump_spaced v) d) @ ''}''"
| "dump_spaced v = dump v"

definition json_text :: "rt_lib \<Rightarrow> rval \<Rightarrow> string" where
  "json_text L v = dump_spaced (sort_keys (jsonable L v))"

definition stringify_prompt_value :: "rt_lib \<Rightarrow> rval \<Rightarrow> string" where
  "stringify_prompt_value L v =
     (case v of
        VStr s \<Rightarrow> s
      | VInt i \<Rightarrow> int_str i
      | VFloat f \<Rightarrow> l_float L f
      | VBool b \<Rightarrow> (if b then ''True'' else ''False'')
      | VNone \<Rightarrow> ''None''
      | _ \<Rightarrow> json_text L v)"

definition summarize_artifact :: "rt_lib \<Rightarrow> rval \<Rightarrow> string" where
  "summarize_artifact L v =
     (if is_parked v then ''parked behind open gate''
      else (let encoded = json_text L v
            in if length encoded \<le> 160 then encoded else take 157 encoded @ ''...''))"

definition param_as_str :: "rt_lib \<Rightarrow> rval \<Rightarrow> string option" where
  "param_as_str L v = (case v of VNone \<Rightarrow> None | VStr s \<Rightarrow> Some s | _ \<Rightarrow> Some (l_str L v))"

section \<open>Fields and predicates\<close>

text \<open>\<open>vars(v)\<close>; \<open>None\<close> where the object has no \<open>__dict__\<close>. A property of the class is not in it.\<close>

definition vars_of :: "rt_lib \<Rightarrow> rval \<Rightarrow> (string, rval) dict option" where
  "vars_of L v =
     (case v of
        VWorkspace w \<Rightarrow>
          Some [(''id'', VStr (ws_id w)), (''repo'', VStr (ws_repo w)), (''ref'', VStr (ws_ref w)),
                (''base_ref'', VStr (ws_base w)),
                (''issue_id'', case ws_issue w of None \<Rightarrow> VNone | Some i \<Rightarrow> VStr i),
                (''created_at'', l_created L w)]
      | VExec ec lp out timed_out \<Rightarrow>
          Some [(''exit_code'', VInt ec), (''log_path'', VStr lp), (''output'', VStr out), (''timed_out'', VBool timed_out)]
      | VOk x i \<Rightarrow> Some [(''value'', x), (''branch_index'', VInt (int i))]
      | VErr e t i \<Rightarrow> Some [(''error'', VStr e), (''error_type'', VStr t), (''branch_index'', VInt (int i))]
      | VQuorum es q n \<Rightarrow> Some [(''entries'', VTuple es), (''quorum'', VInt q), (''total'', VInt (int n))]
      | VSpec x \<Rightarrow> l_attrs L v
      | VOther n \<Rightarrow> l_attrs L v
      | VMerged m w cs t \<Rightarrow> l_attrs L v
      | _ \<Rightarrow> None)"

definition read_attribute :: "rt_lib \<Rightarrow> rval \<Rightarrow> rval \<Rightarrow> exn + rval" where
  "read_attribute L source name =
     (case vars_of L source of
        None \<Rightarrow> Inl (RtVars (vtype source))
      | Some attrs \<Rightarrow>
          (case (case name of VStr s \<Rightarrow> dget attrs s | _ \<Rightarrow> None) of
             None \<Rightarrow> if vhashable name then Inl (RtNoAttribute (vtype source) name)
                     else Inl (RtUnhashable (vtype name))
           | Some v \<Rightarrow> Inr v))"

definition read_field :: "rt_lib \<Rightarrow> rval \<Rightarrow> rval \<Rightarrow> exn + rval" where
  "read_field L source name =
     (case source of
        VDict d \<Rightarrow>
          if \<not> vhashable name then Inl (RtUnhashable (vtype name))
          else (case vget d name of None \<Rightarrow> Inl (RtNoField name) | Some v \<Rightarrow> Inr v)
      | _ \<Rightarrow> read_attribute L source name)"

definition exec_passed :: "int \<Rightarrow> bool \<Rightarrow> bool" where
  "exec_passed ec timed_out = (ec = 0 \<and> \<not> timed_out)"

definition value_passed :: "rval \<Rightarrow> bool" where
  "value_passed v =
     (case v of
        VParked gs h \<Rightarrow> False
      | VExec ec lp out timed_out \<Rightarrow> exec_passed ec timed_out
      | VDict d \<Rightarrow> (case vget d (VStr ''passed'') of Some (VBool b) \<Rightarrow> b | _ \<Rightarrow> vtruthy v)
      | _ \<Rightarrow> vtruthy v)"

section \<open>Identities\<close>

definition slugify :: "string \<Rightarrow> string" where
  "slugify text = map (\<lambda>c. if is_alnum c then c else CHR ''-'') text"

definition strip_dashes :: "string \<Rightarrow> string" where
  "strip_dashes s = rev (dropWhile (\<lambda>c. c = CHR ''-'') (rev (dropWhile (\<lambda>c. c = CHR ''-'') s)))"

definition last_n :: "nat \<Rightarrow> string \<Rightarrow> string" where
  "last_n n s = drop (length s - n) s"

definition workspace_identity :: "(string \<Rightarrow> string) \<Rightarrow> string \<Rightarrow> string \<Rightarrow> string" where
  "workspace_identity sha run_id node_key =
     (let digest = take 8 (sha (run_id @ [CHR 0x0A] @ node_key));
          slug = strip_dashes (last_n 48 (slugify node_key))
      in slugify run_id @ ''-'' @ slug @ ''-'' @ digest)"

section \<open>Parked values\<close>

text \<open>The gates of the parked values, one per gate id, in the order of their first occurrence.\<close>

definition parked_gates :: "rval list \<Rightarrow> (string, gate) dict" where
  "parked_gates vs =
     fold (\<lambda>v acc. case v of VParked gs h \<Rightarrow> fold (\<lambda>g. dput (gt_id g) g) gs acc | _ \<Rightarrow> acc) vs []"

definition any_halt :: "rval list \<Rightarrow> bool" where
  "any_halt vs = list_ex (\<lambda>v. case v of VParked gs h \<Rightarrow> h | _ \<Rightarrow> False) vs"

definition combine_parked_values :: "rval list \<Rightarrow> rval option" where
  "combine_parked_values vs =
     (if parked_gates vs = [] then None else Some (VParked (map snd (parked_gates vs)) (any_halt vs)))"

end
