(* ===== verification/Runtime_Prog.thy ===== *)
theory Runtime_Prog
  imports Runtime_Values Dsl_Ids
begin

text \<open>
  Programs of the workflow runtime (\<open>doeff_conductor/workflow_runtime.py\<close>). A \<open>@do\<close> function is a tree of
  the effects it yields: a call answered by a handler, an atomic look at the shared context, the
  spawning of a branch, the gathering of spawned branches. The interpreter's functions are
  written with two continuations, for a value and for an exception. Running branches share one
  context and take turns in any order: a pool of programs with one step relation.
\<close>

section \<open>Effects\<close>

record runtime_task = agent_task +
  rt_env :: rval
  rt_class :: string
  rt_name :: obj
  rt_retries :: obj
  rt_deadline :: "rat option"

datatype (plugins only: code size) rcall =
    CTime obj string string \<comment> \<open>label, run id, node id\<close>
  | CRandom rval obj string string \<comment> \<open>spec, label, run id, node id\<close>
  | CWorkspace string obj "string option" "string option" \<comment> \<open>workspace id, repo, from, issue\<close>
  | CAgent runtime_task
  | CCommit rval string \<comment> \<open>workspace, message; skips a clean tree\<close>
  | CExec obj "workspace option" obj \<comment> \<open>cmd, workspace, timeout\<close>
  | CMerge string "workspace list" string \<comment> \<open>workspace id, sources, strategy\<close>

text \<open>The mutable fields of \<open>_RuntimeContext\<close>; the others do not change while a run goes on.\<close>

record rt_state =
  rs_bindings :: "(string, rval) dict"
  rs_gates :: "(string, gate) dict"
  rs_cache :: "(string, rval) dict"
  rs_losses :: "loss list"

definition initial_context :: rt_state where
  "initial_context = \<lparr>rs_bindings = [], rs_gates = [], rs_cache = [], rs_losses = []\<rparr>"

type_synonym outcome = "exn + rval"

datatype (plugins only: size) prog =
    PDone outcome
  | PCall rcall "outcome \<Rightarrow> prog"
  | PLook "rt_state \<Rightarrow> rt_state \<times> prog"
  | PSpawn prog "nat \<Rightarrow> prog"
  | PGather "nat list" "exn + rval list \<Rightarrow> prog"

section \<open>Computations\<close>

type_synonym 'a rt = "('a \<Rightarrow> prog) \<Rightarrow> (exn \<Rightarrow> prog) \<Rightarrow> prog"

definition rt_ret :: "'a \<Rightarrow> 'a rt" where
  "rt_ret x k h = k x"

definition rt_raise :: "exn \<Rightarrow> 'a rt" where
  "rt_raise e k h = h e"

definition rt_bind :: "'a rt \<Rightarrow> ('a \<Rightarrow> 'b rt) \<Rightarrow> 'b rt" where
  "rt_bind m f k h = m (\<lambda>x. f x k h) h"

text \<open>\<open>try: m except e: f(e)\<close>\<close>

definition rt_try :: "'a rt \<Rightarrow> (exn \<Rightarrow> 'a rt) \<Rightarrow> 'a rt" where
  "rt_try m f k h = m k (\<lambda>e. f e k h)"

definition rt_lift :: "exn + 'a \<Rightarrow> 'a rt" where
  "rt_lift r = (case r of Inl e \<Rightarrow> rt_raise e | Inr x \<Rightarrow> rt_ret x)"

text \<open>A look at the context: reads and writes between two yields.\<close>

definition rt_look :: "(rt_state \<Rightarrow> rt_state \<times> (exn + 'a)) \<Rightarrow> 'a rt" where
  "rt_look f k h = PLook (\<lambda>s. case f s of (s', r) \<Rightarrow> (s', case r of Inl e \<Rightarrow> h e | Inr x \<Rightarrow> k x))"

definition rt_get :: "(rt_state \<Rightarrow> 'a) \<Rightarrow> 'a rt" where
  "rt_get f = rt_look (\<lambda>s. (s, Inr (f s)))"

definition rt_put :: "(rt_state \<Rightarrow> rt_state) \<Rightarrow> unit rt" where
  "rt_put f = rt_look (\<lambda>s. (f s, Inr ()))"

definition rt_call :: "rcall \<Rightarrow> rval rt" where
  "rt_call c k h = PCall c (\<lambda>a. case a of Inl e \<Rightarrow> h e | Inr v \<Rightarrow> k v)"

definition rt_run :: "rval rt \<Rightarrow> prog" where
  "rt_run m = m (\<lambda>v. PDone (Inr v)) (\<lambda>e. PDone (Inl e))"

definition rt_spawn :: "rval rt \<Rightarrow> nat rt" where
  "rt_spawn m k h = PSpawn (rt_run m) k"

definition rt_gather :: "nat list \<Rightarrow> rval list rt" where
  "rt_gather ts k h = PGather ts (\<lambda>r. case r of Inl e \<Rightarrow> h e | Inr vs \<Rightarrow> k vs)"

lemmas rt_defs = rt_ret_def rt_raise_def rt_bind_def rt_try_def rt_lift_def rt_look_def rt_get_def rt_put_def
  rt_call_def rt_run_def rt_spawn_def rt_gather_def

section \<open>The pool\<close>

text \<open>
  What a handler may answer: a workspace for a workspace, an \<open>ExecResult\<close> for a command, a merge
  result for a merge, and otherwise any value that holds no gate; or an exception. A run's result is not a
  value inside a run: it counts as holding an empty gate.
\<close>

fun gates_in :: "rval \<Rightarrow> gate list list" where
  "gates_in (VList xs) = concat (map gates_in xs)"
| "gates_in (VTuple xs) = concat (map gates_in xs)"
| "gates_in (VSet xs) = concat (map gates_in xs)"
| "gates_in (VDict d) = concat (map (\<lambda>(a, b). a @ b) (map (map_prod gates_in gates_in) d))"
| "gates_in (VOk v i) = gates_in v"
| "gates_in (VQuorum es q n) = concat (map gates_in es)"
| "gates_in (VParked gs h) = [gs]"
| "gates_in (VResult v gs ls) = [[]]"
| "gates_in v = []"

definition ungated :: "rval \<Rightarrow> bool" where
  "ungated v \<longleftrightarrow> gates_in v = []"

fun may_answer :: "rcall \<Rightarrow> outcome \<Rightarrow> bool" where
  "may_answer c (Inl e) = True"
| "may_answer (CWorkspace wid repo from issue) (Inr v) = (\<exists>w. v = VWorkspace w)"
| "may_answer (CExec cmd ws timeout) (Inr v) = (\<exists>c l t b. v = VExec c l t b)"
| "may_answer (CMerge wid ws st) (Inr v) = (\<exists>m w cs t. v = VMerged m w cs t)"
| "may_answer c (Inr v) = ungated v"

type_synonym pool = "rt_state \<times> prog list"

datatype event = Silent | Answered rcall outcome

definition gathered :: "prog list \<Rightarrow> nat list \<Rightarrow> rval list \<Rightarrow> bool" where
  "gathered ps ts vs \<longleftrightarrow> length vs = length ts \<and>
     (\<forall>j < length ts. ts ! j < length ps \<and> ps ! (ts ! j) = PDone (Inr (vs ! j)))"

text \<open>
  One step of thread \<open>i\<close>. \<open>Gather\<close> returns when every task has returned, and raises when one of them
  has raised, whatever the others do.
\<close>

inductive pstep :: "nat \<Rightarrow> event \<Rightarrow> pool \<Rightarrow> pool \<Rightarrow> bool" where
  Look: "i < length ps \<Longrightarrow> ps ! i = PLook f \<Longrightarrow> f s = (s', p) \<Longrightarrow> pstep i Silent (s, ps) (s', ps[i := p])"
| Call: "i < length ps \<Longrightarrow> ps ! i = PCall c k \<Longrightarrow> may_answer c a \<Longrightarrow>
    pstep i (Answered c a) (s, ps) (s, ps[i := k a])"
| Spawn: "i < length ps \<Longrightarrow> ps ! i = PSpawn p k \<Longrightarrow> pstep i Silent (s, ps) (s, ps[i := k (length ps)] @ [p])"
| Gather: "i < length ps \<Longrightarrow> ps ! i = PGather ts k \<Longrightarrow> gathered ps ts vs \<Longrightarrow>
    pstep i Silent (s, ps) (s, ps[i := k (Inr vs)])"
| Failed: "i < length ps \<Longrightarrow> ps ! i = PGather ts k \<Longrightarrow> t \<in> set ts \<Longrightarrow> t < length ps \<Longrightarrow> ps ! t = PDone (Inl e) \<Longrightarrow>
    pstep i Silent (s, ps) (s, ps[i := k (Inl e)])"

inductive_cases pstepE [elim!]: "pstep i ev (s, ps) c'"

text \<open>Runs with their events, oldest first.\<close>

inductive pruns :: "pool \<Rightarrow> (nat \<times> event) list \<Rightarrow> pool \<Rightarrow> bool" for c where
  Start: "pruns c [] c"
| Step: "pruns c tr c' \<Longrightarrow> pstep i ev c' c'' \<Longrightarrow> pruns c (tr @ [(i, ev)]) c''"

definition start_pool :: "prog \<Rightarrow> pool" where
  "start_pool p = (initial_context, [p])"

section \<open>An executable scheduler\<close>

text \<open>One step of thread \<open>i\<close>, with the answer to give when it calls.\<close>

definition outcomes_of :: "prog list \<Rightarrow> nat list \<Rightarrow> outcome option list" where
  "outcomes_of ps ts = map (\<lambda>t. if t < length ps then (case ps ! t of PDone r \<Rightarrow> Some r | _ \<Rightarrow> None) else None) ts"

definition returned :: "outcome option \<Rightarrow> rval option" where
  "returned r = (case r of Some (Inr v) \<Rightarrow> Some v | _ \<Rightarrow> None)"

definition run_step :: "nat \<Rightarrow> outcome \<Rightarrow> pool \<Rightarrow> (event \<times> pool) option" where
  "run_step i a = (\<lambda>(s, ps).
     if length ps \<le> i then None
     else
       (case ps ! i of
          PDone r \<Rightarrow> None
        | PLook f \<Rightarrow> (case f s of (s', p) \<Rightarrow> Some (Silent, (s', ps[i := p])))
        | PCall c k \<Rightarrow> Some (Answered c a, (s, ps[i := k a]))
        | PSpawn p k \<Rightarrow> Some (Silent, (s, ps[i := k (length ps)] @ [p]))
        | PGather ts k \<Rightarrow>
            (let rs = outcomes_of ps ts in
             if list_all (\<lambda>r. returned r \<noteq> None) rs
             then Some (Silent, (s, ps[i := k (Inr (map (\<lambda>r. the (returned r)) rs))]))
             else
               (case List.find (\<lambda>r. case r of Some (Inl e) \<Rightarrow> True | _ \<Rightarrow> False) rs of
                  Some (Some (Inl e)) \<Rightarrow> Some (Silent, (s, ps[i := k (Inl e)]))
                | _ \<Rightarrow> None))))"

fun run_schedule :: "(nat \<times> outcome) list \<Rightarrow> pool \<Rightarrow> ((nat \<times> event) list \<times> pool) option" where
  "run_schedule [] c = Some ([], c)"
| "run_schedule ((i, a) # sched) c =
     (case run_step i a c of
        None \<Rightarrow> None
      | Some (ev, c') \<Rightarrow> map_option (map_prod (Cons (i, ev)) id) (run_schedule sched c'))"

lemma outcomes_of_nth:
  "j < length ts \<Longrightarrow> outcomes_of ps ts ! j = Some r \<longleftrightarrow> ts ! j < length ps \<and> ps ! (ts ! j) = PDone r"
  by (auto simp: outcomes_of_def split: prog.splits)

lemma run_step_gathers:
  assumes "list_all (\<lambda>r. returned r \<noteq> None) (outcomes_of ps ts)"
  shows "gathered ps ts (map (\<lambda>r. the (returned r)) (outcomes_of ps ts))"
proof -
  have n: "length (outcomes_of ps ts) = length ts" by (simp add: outcomes_of_def)
  have "ts ! j < length ps \<and> ps ! (ts ! j) = PDone (Inr (the (returned (outcomes_of ps ts ! j))))"
    if j: "j < length ts" for j
  proof -
    have "returned (outcomes_of ps ts ! j) \<noteq> None" using assms n j by (simp add: list_all_length)
    then obtain v where v: "outcomes_of ps ts ! j = Some (Inr v)"
      by (auto simp: returned_def split: option.splits sum.splits)
    then have "the (returned (outcomes_of ps ts ! j)) = v" by (simp add: returned_def)
    then show ?thesis using v outcomes_of_nth [OF j, of ps "Inr v"] by blast
  qed
  then show ?thesis by (simp add: gathered_def n)
qed

lemma run_step_sound:
  assumes "run_step i a c = Some (ev, c')" and "\<And>cl. ev = Answered cl a \<Longrightarrow> may_answer cl a"
  shows "pstep i ev c c'"
proof -
  obtain s ps where c: "c = (s, ps)" by force
  from assms(1) have i: "i < length ps" by (auto simp: run_step_def c split: if_splits)
  show ?thesis
  proof (cases "ps ! i")
    case (PGather ts k)
    let ?rs = "outcomes_of ps ts"
    show ?thesis
    proof (cases "list_all (\<lambda>r. returned r \<noteq> None) ?rs")
      case True
      then show ?thesis
        using assms(1) i PGather run_step_gathers [OF True]
        by (auto simp: run_step_def c Let_def intro: pstep.Gather)
    next
      case False
      with assms(1) i PGather obtain e where e: "Some (Inl e) \<in> set ?rs" and
          "ev = Silent" "c' = (s, ps[i := k (Inl e)])"
        by (fastforce simp: run_step_def c Let_def find_Some_iff in_set_conv_nth
            split: option.splits sum.splits)
      moreover from e obtain t where "t \<in> set ts" "t < length ps" "ps ! t = PDone (Inl e)"
        by (fastforce simp: outcomes_of_def split: if_splits prog.splits)
      ultimately show ?thesis using i PGather c by (auto intro: pstep.Failed)
    qed
  qed (use assms i c in \<open>auto simp: run_step_def split: prod.splits intro: pstep.intros\<close>)
qed

lemma pruns_trans:
  assumes "pruns c' tr' c''" and "pruns c tr c'"
  shows "pruns c (tr @ tr') c''"
  using assms
proof (induction rule: pruns.induct)
  case (Step tr'' d i ev d')
  then show ?case using pruns.Step [of c "tr @ tr''" d i ev d'] by simp
qed simp

lemma run_schedule_sound:
  assumes "run_schedule sched c = Some (tr, c')" and "\<forall>(i, ev) \<in> set tr. \<forall>cl a. ev = Answered cl a \<longrightarrow> may_answer cl a"
  shows "pruns c tr c'"
  using assms
proof (induction sched c arbitrary: tr rule: run_schedule.induct)
  case (2 i a sched c)
  then obtain ev c1 tr1 where step: "run_step i a c = Some (ev, c1)"
      and rest: "run_schedule sched c1 = Some (tr1, c')" and tr: "tr = (i, ev) # tr1"
    by (auto split: option.splits)
  have "pruns c1 tr1 c'" using "2.IH" [OF step _ rest] "2.prems"(2) tr by auto
  moreover have "pstep i ev c c1"
    using "2.prems"(2) tr by (intro run_step_sound [OF step]) auto
  then have "pruns c ([] @ [(i, ev)]) c1" by (rule pruns.Step [OF pruns.Start])
  ultimately show ?case using pruns_trans tr by fastforce
qed (auto intro: pruns.Start)

end
