(* ===== verification/Runtime_Gates.thy ===== *)
theory Runtime_Gates
  imports Runtime_Prog
begin

text \<open>
  The gates a run parks on (\<open>doeff_conductor/workflow_runtime.py\<close>): the functions that build an
  \<open>OpenGateView\<close> for a failed agent result, a deadline, a merge conflict, an exhausted loop, a missed
  quorum and a phase checkpoint. A deadline's seconds are the JSON numbers of the exception.
\<close>

text \<open>The fields of \<open>_RuntimeContext\<close> that do not change, and the library.\<close>

record rt_config =
  rc_workflow :: workflow
  rc_run :: string
  rc_params :: "(string, rval) dict"
  rc_registry :: registry
  rc_issue :: "string option"
  rc_supervision :: string
  rc_answers :: "(string, string) dict"
  rc_retries :: "(string, nat) dict"
  rc_stakes :: "(string, payload) dict"
  rc_lib :: rt_lib

definition rt_node :: "rt_config \<Rightarrow> string \<Rightarrow> string \<Rightarrow> string" where
  "rt_node cfg path kind = node_id (w_name (rc_workflow cfg)) path kind"

definition gate_ref :: "rt_config \<Rightarrow> string \<Rightarrow> string \<Rightarrow> string" where
  "gate_ref cfg node suffix = rc_run cfg @ '':'' @ node @ '':'' @ suffix"

definition gate_option_of :: "string \<Rightarrow> string \<Rightarrow> string \<Rightarrow> gate_option" where
  "gate_option_of name outcome description = \<lparr>go_name = name, go_outcome = outcome, go_description = description\<rparr>"

definition abort_option :: "string \<Rightarrow> gate_option" where
  "abort_option description = gate_option_of ''abort'' ''abort'' description"

definition abort_subtree :: gate_option where
  "abort_subtree = abort_option ''Abort the dependent subtree and preserve the gate outcome.''"

section \<open>Agents\<close>

definition result_validation_gate_options :: "gate_option list" where
  "result_validation_gate_options =
     [gate_option_of ''retry-agent'' ''resume'' (''Launch a fresh worker attempt for this agent node with the last '' @
        ''structured-result validation error included in the prompt.''),
      gate_option_of ''redirect'' ''resume'' ''Edit workflow state, result artifacts, or inputs, then resume.'',
      abort_subtree]"

definition validation_gate_id :: "rt_config \<Rightarrow> string \<Rightarrow> string" where
  "validation_gate_id cfg node = gate_ref cfg node ''agent-result-validation-failed''"

definition task_session :: "rt_config \<Rightarrow> runtime_task \<Rightarrow> string" where
  "task_session cfg task = task_session_id (l_sha (rc_lib cfg)) (agent_task.truncate task)"

definition result_validation_failed_gate ::
    "rt_config \<Rightarrow> runtime_task \<Rightarrow> string option \<Rightarrow> int \<Rightarrow> string \<Rightarrow> string \<Rightarrow> gate" where
  "result_validation_failed_gate cfg task phase attempts kind message =
     \<lparr>gt_id = validation_gate_id cfg (at_node task), gt_workflow = rc_run cfg, gt_node = at_node task,
      gt_phase = phase, gt_reason = ''agent result validation failed'',
      gt_stakes =
        [(''verification_class'', JStr (rt_class task)), (''blast_radius'', JStr ''dependent-subtree''),
         (''reversibility'', JStr ''retryable''), (''profile'', json_opt (at_profile task)),
         (''attempts'', JInt attempts), (''session_id'', JStr (task_session cfg task)),
         (''last_error_kind'', JStr kind), (''last_error_message'', JStr message)],
      gt_options = result_validation_gate_options\<rparr>"

definition stake_text :: "rt_lib \<Rightarrow> payload \<Rightarrow> string \<Rightarrow> string \<Rightarrow> string" where
  "stake_text L stakes key missing =
     (case dget stakes key of None \<Rightarrow> missing | Some v \<Rightarrow> py_str (l_json_str L) v)"

definition newline :: string where
  "newline = [CHR 0x0A]"

definition retry_prompt_context :: "rt_lib \<Rightarrow> nat \<Rightarrow> payload \<Rightarrow> string" where
  "retry_prompt_context L attempt stakes =
     newline @ newline @
     ''## Previous structured result failure (managed by doeff-conductor)'' @ newline @
     ''This is retry attempt '' @ nat_str attempt @ '' for the same agent node. '' @
     ''The previous worker attempt finished without a schema-valid structured result.'' @ newline @
     ''- previous_session_id: '' @ stake_text L stakes ''session_id'' ''unknown'' @ newline @
     ''- last_error_kind: '' @ stake_text L stakes ''last_error_kind'' ''unknown'' @ newline @
     ''- last_error_message: '' @ stake_text L stakes ''last_error_message'' ''no prior error detail recorded'' @
     newline @ newline @
     ''Do not repeat the same result-shape mistake. Complete the domain task, then return '' @
     ''one structured result that satisfies the schema shown in the managed result contract.''"

definition deadline_exceeded_gate ::
    "rt_config \<Rightarrow> runtime_task \<Rightarrow> string option \<Rightarrow> json \<Rightarrow> json \<Rightarrow> gate" where
  "deadline_exceeded_gate cfg task phase deadline elapsed =
     \<lparr>gt_id = gate_ref cfg (at_node task) ''deadline-exceeded'', gt_workflow = rc_run cfg, gt_node = at_node task,
      gt_phase = phase, gt_reason = ''wall-clock deadline exceeded'',
      gt_stakes =
        [(''verification_class'', JStr (rt_class task)), (''blast_radius'', JStr ''dependent-subtree''),
         (''reversibility'', JStr ''retryable''), (''profile'', json_opt (at_profile task)),
         (''deadline_seconds'', deadline), (''elapsed_seconds'', elapsed),
         (''session_id'', JStr (task_session cfg task))],
      gt_options =
        [gate_option_of ''extend'' ''resume'' (''Grant one more deadline window and re-await the node '' @
           ''(renewal = this journaled answer; no automatic extension exists).''),
         gate_option_of ''redirect'' ''resume''
           ''Edit workflow state or inputs, then resume from the journal prefix.'',
         abort_subtree]\<rparr>"

section \<open>Merges, loops and quorums\<close>

definition merge_conflict_gate :: "rt_config \<Rightarrow> string \<Rightarrow> (workspace \<times> string list) list \<Rightarrow> string option \<Rightarrow> gate" where
  "merge_conflict_gate cfg node conflicts message =
     \<lparr>gt_id = gate_ref cfg node ''merge-conflict'', gt_workflow = rc_run cfg, gt_node = node,
      gt_phase = None, gt_reason = ''merge conflict'',
      gt_stakes =
        [(''conflicted_files'', JList (map JStr (concat (map snd conflicts)))),
         (''source_workspaces'', JList (map (\<lambda>c. JStr (ws_id (fst c))) conflicts)),
         (''merge_message'', JStr (case message of None \<Rightarrow> [] | Some m \<Rightarrow> m)),
         (''verification_class'', JStr ''merge''), (''blast_radius'', JStr ''dependent-subtree''),
         (''reversibility'', JStr ''retryable'')],
      gt_options =
        [gate_option_of ''retry-merge'' ''resume''
           ''Retry the merge after resolving conflicts in the source workspace(s).'',
         abort_subtree]\<rparr>"

definition loop_gate_id :: "rt_config \<Rightarrow> string \<Rightarrow> string" where
  "loop_gate_id cfg node = gate_ref cfg node ''loop-exhaustion''"

definition loop_exhaustion_gate :: "rt_config \<Rightarrow> string \<Rightarrow> obj \<Rightarrow> int \<Rightarrow> string option \<Rightarrow> gate" where
  "loop_exhaustion_gate cfg node until max_iterations phase =
     \<lparr>gt_id = loop_gate_id cfg node, gt_workflow = rc_run cfg, gt_node = node,
      gt_phase = phase, gt_reason = ''loop predicate exhaustion'',
      gt_stakes =
        [(''predicate'', JStr (str_of (l_obj_str (rc_lib cfg)) until)), (''max_iterations'', JInt max_iterations),
         (''verification_class'', JStr ''loop''), (''blast_radius'', JStr ''dependent-subtree''),
         (''reversibility'', JStr ''retryable'')],
      gt_options =
        [gate_option_of ''proceed'' ''resume'' ''Accept the last loop iteration state and continue.'',
         abort_subtree]\<rparr>"

definition quorum_gate_id :: "rt_config \<Rightarrow> string \<Rightarrow> string" where
  "quorum_gate_id cfg path = gate_ref cfg (rt_node cfg path ''parallel'') ''quorum-not-met''"

definition quorum_not_met_gate ::
    "rt_config \<Rightarrow> string \<Rightarrow> int \<Rightarrow> nat \<Rightarrow> nat \<Rightarrow> nat \<Rightarrow> string option \<Rightarrow> gate" where
  "quorum_not_met_gate cfg path quorum branches succeeded failed phase =
     \<lparr>gt_id = quorum_gate_id cfg path, gt_workflow = rc_run cfg, gt_node = rt_node cfg path ''parallel'',
      gt_phase = phase, gt_reason = ''quorum not met'',
      gt_stakes =
        [(''quorum'', JInt quorum), (''total'', JInt (int branches)), (''succeeded'', JInt (int succeeded)),
         (''failed'', JInt (int failed)), (''verification_class'', JStr ''quorum''),
         (''blast_radius'', JStr ''dependent-subtree''), (''reversibility'', JStr ''non-retryable'')],
      gt_options =
        [gate_option_of ''proceed'' ''resume''
           ''Accept partial results and continue with available successes.'',
         abort_option ''Abort the dependent subtree due to insufficient quorum.'']\<rparr>"

section \<open>Phase checkpoints\<close>

definition gate_options :: "gate_option list" where
  "gate_options =
     [gate_option_of ''proceed'' ''resume'' ''Resume the parked subtree after the blocking condition is cleared.'',
      gate_option_of ''redirect'' ''resume'' ''Edit workflow state or inputs, then resume from the journal prefix.'',
      abort_subtree]"

definition binding_deltas ::
    "rt_lib \<Rightarrow> (string, rval) dict \<Rightarrow> (string, rval) dict \<Rightarrow> string list" where
  "binding_deltas L before_phase after_phase =
     filter (\<lambda>n. case (dget before_phase n, dget after_phase n) of
         (None, _) \<Rightarrow> True
       | (Some a, Some b) \<Rightarrow> \<not> py_eq (l_feq L) (jsonable L a) (jsonable L b)
       | _ \<Rightarrow> False)
       (sort (dkeys after_phase))"

definition checkpoint_gate_id :: "rt_config \<Rightarrow> string \<Rightarrow> string" where
  "checkpoint_gate_id cfg phase = rc_run cfg @ '':checkpoint:'' @ phase"

definition checkpoint_gate_for_phase ::
    "rt_config \<Rightarrow> string \<Rightarrow> string \<Rightarrow> (string, rval) dict \<Rightarrow> (string, rval) dict \<Rightarrow> gate option" where
  "checkpoint_gate_for_phase cfg phase level before_phase bindings =
     (if rc_supervision cfg \<noteq> ''phase-checkpoints'' then None
      else if dget (rc_answers cfg) (checkpoint_gate_id cfg phase) \<in> {Some ''proceed'', Some ''redirect''} then None
      else
        (let deltas = binding_deltas (rc_lib cfg) before_phase bindings
         in Some
              \<lparr>gt_id = checkpoint_gate_id cfg phase, gt_workflow = rc_run cfg, gt_node = ''checkpoint:'' @ phase,
               gt_phase = Some phase, gt_reason = ''phase checkpoint'',
               gt_stakes =
                 [(''phase'', JStr phase), (''level'', JStr level), (''verification_class'', JStr ''checkpoint''),
                  (''blast_radius'', JStr ''dependent-subtree''), (''reversibility'', JStr ''abortable''),
                  (''binding_deltas'', JList (map JStr deltas)),
                  (''artifact_summaries'',
                     JObj (map (\<lambda>n. (n, JStr (case dget bindings n of
                         None \<Rightarrow> [] | Some v \<Rightarrow> summarize_artifact (rc_lib cfg) v))) deltas))],
               gt_options = gate_options\<rparr>))"

section \<open>Every gate can be read back\<close>

lemmas gate_builders = result_validation_failed_gate_def deadline_exceeded_gate_def merge_conflict_gate_def
  loop_exhaustion_gate_def quorum_not_met_gate_def

definition answerable :: "gate \<Rightarrow> bool" where
  "answerable g \<longleftrightarrow> (\<forall>x \<in> set (gt_options g). go_outcome x \<in> set valid_gate_outcomes) \<and>
     ''abort'' \<in> set (map go_name (gt_options g))"

lemma builders_answerable:
  "answerable (result_validation_failed_gate cfg task phase attempts kind message)"
  "answerable (deadline_exceeded_gate cfg task phase deadline elapsed)"
  "answerable (merge_conflict_gate cfg node conflicts text)"
  "answerable (loop_exhaustion_gate cfg node until m phase)"
  "answerable (quorum_not_met_gate cfg path q n s f phase)"
  "checkpoint_gate_for_phase cfg ph level b1 b2 = Some g \<Longrightarrow> answerable g"
  by (auto simp: answerable_def gate_builders checkpoint_gate_for_phase_def Let_def gate_option_of_def
      abort_subtree_def abort_option_def result_validation_gate_options_def gate_options_def
      valid_gate_outcomes_def split: if_splits)

end
