(* ===== verification/Runtime.thy ===== *)
theory Runtime
  imports Runtime_Gates
begin

text \<open>
  The interpreter of workflows (\<open>doeff_conductor/workflow_runtime.py\<close>): how every form and expression
  of the DSL runs. The path argument of \<open>_evaluate_value\<close>, which it only passes on, is left out.
  \<open>_RuntimeContext\<close> is \<open>rt_config\<close> with \<open>rt_state\<close>.
\<close>

section \<open>The shared context\<close>

definition rt_park :: "gate \<Rightarrow> bool \<Rightarrow> rval rt" where
  "rt_park g halt = rt_look (\<lambda>s. (rs_gates_update (dput (gt_id g) g) s, Inr (VParked [g] halt)))"

definition target_names :: "target \<Rightarrow> string list" where
  "target_names t = (case t of TName n \<Rightarrow> [n] | TNames ns \<Rightarrow> ns)"

definition sequence_items :: "rval \<Rightarrow> rval list option" where
  "sequence_items v =
     (case v of VStr s \<Rightarrow> Some (map (\<lambda>c. VStr [c]) s) | VList xs \<Rightarrow> Some xs | VTuple xs \<Rightarrow> Some xs | _ \<Rightarrow> None)"

definition bind_all :: "(string \<times> rval) list \<Rightarrow> rt_state \<Rightarrow> rt_state" where
  "bind_all kvs = rs_bindings_update (fold (\<lambda>(n, v). dput n v) kvs)"

definition bind_runtime_value :: "target \<Rightarrow> rval \<Rightarrow> unit rt" where
  "bind_runtime_value tgt v =
     (case tgt of
        TName n \<Rightarrow> rt_put (bind_all [(n, v)])
      | TNames ns \<Rightarrow>
          (case sequence_items v of
             None \<Rightarrow> rt_raise RtNotSequence
           | Some xs \<Rightarrow>
               if length xs \<noteq> length ns then rt_raise (RtArity (length xs) (length ns))
               else rt_put (bind_all (zip ns xs))))"

definition bind_parked_runtime_value :: "target \<Rightarrow> rval \<Rightarrow> unit rt" where
  "bind_parked_runtime_value tgt v = rt_put (bind_all (map (\<lambda>n. (n, v)) (target_names tgt)))"

definition restore_loop_bindings :: "(string, rval) dict \<Rightarrow> unit rt" where
  "restore_loop_bindings outer = rt_put (rs_bindings_update (\<lambda>_. outer))"

text \<open>A reference: the bindings of the run, then its parameters.\<close>

definition look_up :: "rt_config \<Rightarrow> string \<Rightarrow> rval rt" where
  "look_up cfg n = rt_look (\<lambda>s. (s,
     case dget (rs_bindings s) n of
       Some v \<Rightarrow> Inr v
     | None \<Rightarrow> (case dget (rc_params cfg) n of Some v \<Rightarrow> Inr v | None \<Rightarrow> Inl (RtUndefined n))))"

section \<open>Values\<close>

text \<open>The creation of a workspace once its \<open>from\<close> value is known; the cache is written afterwards.\<close>

definition rt_workspace_key :: "rt_config \<Rightarrow> nat \<Rightarrow> string" where
  "rt_workspace_key cfg occurrence = rt_node cfg (''workspace!'' @ nat_str occurrence) ''workspace''"

definition rt_workspace_id :: "rt_config \<Rightarrow> string \<Rightarrow> string" where
  "rt_workspace_id cfg key = workspace_identity (l_sha (rc_lib cfg)) (rc_run cfg) key"

definition cached_workspace :: "rt_state \<Rightarrow> string \<Rightarrow> rval option" where
  "cached_workspace s key = (case dget (rs_cache s) key of Some VNone \<Rightarrow> None | r \<Rightarrow> r)"

definition create_workspace :: "rt_config \<Rightarrow> obj \<Rightarrow> nat \<Rightarrow> rval \<Rightarrow> rval rt" where
  "create_workspace cfg repo occurrence from_value =
     rt_bind (rt_call (CWorkspace (rt_workspace_id cfg (rt_workspace_key cfg occurrence))
       (if truthy repo then repo else OStr ''default'') (param_as_str (rc_lib cfg) from_value) (rc_issue cfg))) (\<lambda>w.
     rt_bind (rt_put (rs_cache_update (dput (rt_workspace_key cfg occurrence) w))) (\<lambda>_. rt_ret w))"

definition oks_of :: "rval \<Rightarrow> rval" where
  "oks_of v = (case v of
     VQuorum es q n \<Rightarrow> VTuple (concat (map (\<lambda>e. case e of VOk x i \<Rightarrow> [x] | _ \<Rightarrow> []) es)) | _ \<Rightarrow> v)"

text \<open>The parked items of a container win over the container.\<close>

definition or_parked :: "rval list \<Rightarrow> rval rt \<Rightarrow> rval rt" where
  "or_parked vs m = (case combine_parked_values vs of Some p \<Rightarrow> rt_ret p | None \<Rightarrow> m)"

definition set_value :: "rval list \<Rightarrow> rval rt" where
  "set_value vs =
     (case List.find (\<lambda>v. \<not> vhashable v) vs of
        Some v \<Rightarrow> rt_raise (RtUnhashable (vtype v)) | None \<Rightarrow> rt_ret (VSet (vset [] vs)))"

fun unparked_pairs :: "(rval \<times> rval) list \<Rightarrow> (rval \<times> rval) list" where
  "unparked_pairs [] = []"
| "unparked_pairs ((k, v) # d) =
     (if is_parked k \<or> is_parked v then unparked_pairs d else (k, v) # unparked_pairs d)"

text \<open>The parked value an entry contributes: its key's, else its value's.\<close>

definition pair_parked :: "rval \<times> rval \<Rightarrow> rval list" where
  "pair_parked kv = (if is_parked (fst kv) then [fst kv] else if is_parked (snd kv) then [snd kv] else [])"

function (sequential) evaluate_value :: "rt_config \<Rightarrow> obj \<Rightarrow> rval rt"
  and evaluate_items :: "rt_config \<Rightarrow> obj list \<Rightarrow> rval list rt"
  and evaluate_pairs :: "rt_config \<Rightarrow> (obj \<times> obj) list \<Rightarrow> (rval \<times> rval) list rt" where
  "evaluate_value cfg x =
     (case x of
        ORef n \<Rightarrow> look_up cfg n
      | OField source f \<Rightarrow>
          rt_bind (evaluate_value cfg source) (\<lambda>v.
          if is_parked v then rt_ret v else rt_lift (read_field (rc_lib cfg) v (plain_value f)))
      | OOks source \<Rightarrow>
          rt_bind (evaluate_value cfg source) (\<lambda>v. rt_ret (if is_parked v then v else oks_of v))
      | OPrompt parts \<Rightarrow>
          rt_bind (evaluate_items cfg parts) (\<lambda>vs.
          or_parked vs (rt_ret (VStr (concat (map (stringify_prompt_value (rc_lib cfg)) (filter (\<lambda>v. \<not> is_parked v) vs))))))
      | OWorkspace repo from_ref occurrence \<Rightarrow>
          rt_bind (rt_get (\<lambda>s. cached_workspace s (rt_workspace_key cfg occurrence))) (\<lambda>cached.
          case cached of
            Some w \<Rightarrow> rt_ret w
          | None \<Rightarrow>
              rt_bind (if from_ref = ONone then rt_ret VNone else evaluate_value cfg from_ref)
                (create_workspace cfg repo occurrence))
      | OTuple xs \<Rightarrow> rt_bind (evaluate_items cfg xs) (\<lambda>vs. or_parked vs (rt_ret (VTuple vs)))
      | OList xs \<Rightarrow> rt_bind (evaluate_items cfg xs) (\<lambda>vs. or_parked vs (rt_ret (VList vs)))
      | OSet xs \<Rightarrow> rt_bind (evaluate_items cfg xs) (\<lambda>vs. or_parked vs (set_value vs))
      | ODict d \<Rightarrow>
          rt_bind (evaluate_pairs cfg d) (\<lambda>kvs.
          or_parked (concat (map pair_parked kvs))
            (rt_ret (VDict (fold (\<lambda>(k, v). vput k v) (unparked_pairs kvs) []))))
      | _ \<Rightarrow> rt_ret (plain_value x))"
| "evaluate_items cfg [] = rt_ret []"
| "evaluate_items cfg (x # xs) =
     rt_bind (evaluate_value cfg x) (\<lambda>v. rt_bind (evaluate_items cfg xs) (\<lambda>vs. rt_ret (v # vs)))"
| "evaluate_pairs cfg [] = rt_ret []"
| "evaluate_pairs cfg ((k, v) # d) =
     rt_bind (evaluate_value cfg k) (\<lambda>k'. rt_bind (evaluate_value cfg v) (\<lambda>v'.
     if \<not> is_parked k' \<and> \<not> is_parked v' \<and> \<not> vhashable k' then rt_raise (RtUnhashable (vtype k'))
     else rt_bind (evaluate_pairs cfg d) (\<lambda>kvs. rt_ret ((k', v') # kvs))))"
  by pat_completeness auto

termination
  by (relation "measure (\<lambda>x. case x of
        Inl (_, x) \<Rightarrow> 2 * size x
      | Inr (Inl (_, xs)) \<Rightarrow> 2 * size_list size xs
      | Inr (Inr (_, d)) \<Rightarrow> 2 * size_list (size_prod size size) d)") auto

declare evaluate_value.simps [simp del]

definition remove_suffix_passed :: "string \<Rightarrow> string" where
  "remove_suffix_passed s = take (length s - 7) s"

definition until_name :: "string \<Rightarrow> (string, rval) dict \<Rightarrow> bool" where
  "until_name s bindings =
     (let value = (\<lambda>n. case dget bindings n of None \<Rightarrow> VNone | Some v \<Rightarrow> v) in
      if ends_with s ''_passed'' then value_passed (value (remove_suffix_passed s)) else vtruthy (value s))"

definition evaluate_until :: "rt_config \<Rightarrow> obj \<Rightarrow> bool rt" where
  "evaluate_until cfg predicate =
     (case predicate of
        OOther n \<Rightarrow>
          (case l_pred (rc_lib cfg) n of
             Some p \<Rightarrow> rt_look (\<lambda>s. (s, p (rs_bindings s)))
           | None \<Rightarrow> rt_ret (truthy predicate))
      | ORef n \<Rightarrow> rt_bind (evaluate_value cfg predicate) (\<lambda>v. rt_ret (vtruthy v))
      | OStr s \<Rightarrow> rt_get (\<lambda>st. until_name s (rs_bindings st))
      | _ \<Rightarrow> rt_ret (truthy predicate))"

section \<open>Agents\<close>

text \<open>A DSL literal as JSON; a dictionary's keys as text.\<close>

fun obj_json :: "rt_lib \<Rightarrow> obj \<Rightarrow> json" where
  "obj_json L (OList xs) = JList (map (obj_json L) xs)"
| "obj_json L (OTuple xs) = JList (map (obj_json L) xs)"
| "obj_json L (ODict d) = JObj (map (map_prod (\<lambda>k. key_text L (plain_value k)) (obj_json L)) d)"
| "obj_json L x = jsonable L (plain_value x)"

definition schema_to_dict :: "rt_lib \<Rightarrow> obj \<Rightarrow> exn + json" where
  "schema_to_dict L schema =
     (case schema of
        ODict d \<Rightarrow> Inr (obj_json L schema)
      | OOther n \<Rightarrow> (case l_model_schema L n of Some j \<Rightarrow> Inr j | None \<Rightarrow> Inl RtSchema)
      | _ \<Rightarrow> Inl RtSchema)"

definition profile_result :: "profile_error + 'a \<Rightarrow> exn + 'a" where
  "profile_result r = (case r of Inl e \<Rightarrow> Inl (RtProfile e) | Inr x \<Rightarrow> Inr x)"

definition resolve_retry :: "rt_config \<Rightarrow> obj \<Rightarrow> string \<Rightarrow> exn + obj" where
  "resolve_retry cfg explicit role =
     (if explicit \<noteq> ONone then Inr explicit
      else rbind (profile_result (role_entry (w_roles (rc_workflow cfg)) role ''retry'')) (\<lambda>entry.
        case entry of
          None \<Rightarrow> Inr (OInt 2)
        | Some ONone \<Rightarrow> Inr (OInt 2)
        | Some (OInt i) \<Rightarrow> Inr (OInt i)
        | Some _ \<Rightarrow> Inl (RtRetry role)))"

text \<open>The workspace an expression names, or the parked value it evaluates to.\<close>

definition evaluate_workspace :: "rt_config \<Rightarrow> string \<Rightarrow> obj \<Rightarrow> (rval + workspace) rt" where
  "evaluate_workspace cfg what x =
     rt_bind (evaluate_value cfg x) (\<lambda>v.
     if is_parked v then rt_ret (Inl v)
     else (case v of VWorkspace w \<Rightarrow> rt_ret (Inr w) | _ \<Rightarrow> rt_raise (RtNotWorkspace what)))"

definition agent_workspace :: "rt_config \<Rightarrow> string \<Rightarrow> obj \<Rightarrow> (rval + rval) rt" where
  "agent_workspace cfg node ws =
     (if ws = ONone then
        rt_bind (rt_call (CWorkspace (rt_workspace_id cfg (node @ ''/workspace'')) (OStr ''default'')
          (case dget (rc_params cfg) ''base_ref'' of None \<Rightarrow> None | Some v \<Rightarrow> param_as_str (rc_lib cfg) v)
          (rc_issue cfg))) (\<lambda>w. rt_ret (Inr w))
      else
        rt_bind (evaluate_workspace cfg node ws) (\<lambda>r.
        rt_ret (case r of Inl p \<Rightarrow> Inl p | Inr w \<Rightarrow> Inr (VWorkspace w))))"

definition agent_retry_context :: "rt_config \<Rightarrow> string \<Rightarrow> nat \<Rightarrow> string" where
  "agent_retry_context cfg node attempt =
     (if attempt > 0 then
        retry_prompt_context (rc_lib cfg) attempt
          (case dget (rc_stakes cfg) (validation_gate_id cfg node) of None \<Rightarrow> [] | Some d \<Rightarrow> d)
      else [])"

definition answered_retries :: "rt_config \<Rightarrow> string \<Rightarrow> nat" where
  "answered_retries cfg node =
     (case dget (rc_retries cfg) (validation_gate_id cfg node) of None \<Rightarrow> 0 | Some n \<Rightarrow> n)"

definition make_task ::
    "rt_config \<Rightarrow> string option \<Rightarrow> string \<Rightarrow> string \<Rightarrow> json \<Rightarrow> rval \<Rightarrow> string \<Rightarrow> profile \<Rightarrow> string \<Rightarrow> obj \<Rightarrow>
     rat option \<Rightarrow> obj \<Rightarrow> runtime_task" where
  "make_task cfg phase node prompt schema env profile_name profile cls retries deadline label =
     \<lparr>at_run = rc_run cfg, at_node = node, at_attempt = int (answered_retries cfg node), at_prompt = prompt,
      at_context = agent_retry_context cfg node (answered_retries cfg node), at_schema = schema,
      at_agent = pf_adapter profile, at_phase = phase, at_profile = Some profile_name,
      at_model = pf_model profile, at_effort = pf_effort profile,
      at_identity = Some \<lparr>ri_adapter = pf_adapter profile,
        ri_model = Some (case pf_model profile of None \<Rightarrow> [] | Some m \<Rightarrow> m), ri_identity = None,
        ri_effort = pf_effort profile\<rparr>,
      rt_env = env, rt_class = cls, rt_name = label, rt_retries = retries, rt_deadline = deadline\<rparr>"

text \<open>The agent runs, then its workspace is committed; a failed or late agent parks on a gate.\<close>

definition commit_message :: "string \<Rightarrow> string" where
  "commit_message node = ''conductor: '' @ node"

definition commit_agent_workspace :: "rval \<Rightarrow> string \<Rightarrow> rval rt" where
  "commit_agent_workspace workspace node = rt_call (CCommit workspace (commit_message node))"

definition run_agent :: "rt_config \<Rightarrow> string option \<Rightarrow> runtime_task \<Rightarrow> rval rt" where
  "run_agent cfg phase task =
     rt_bind
       (rt_try (rt_bind (rt_call (CAgent task)) (\<lambda>v. rt_ret (Inr v)))
         (\<lambda>e. case e of
            AgentExhausted session attempts kind message \<Rightarrow>
              rt_bind (rt_park (result_validation_failed_gate cfg task phase attempts kind message) False)
                (\<lambda>p. rt_ret (Inl p))
          | AgentDeadline session deadline elapsed \<Rightarrow>
              rt_bind (rt_park (deadline_exceeded_gate cfg task phase deadline elapsed) False) (\<lambda>p. rt_ret (Inl p))
          | _ \<Rightarrow> rt_raise e))
       (\<lambda>r. case r of
          Inl p \<Rightarrow> rt_ret p
        | Inr v \<Rightarrow>
            if rt_env task \<noteq> VNone then rt_bind (commit_agent_workspace (rt_env task) (at_node task)) (\<lambda>_. rt_ret v)
            else rt_ret v)"

definition execute_agent :: "rt_config \<Rightarrow> string option \<Rightarrow> string \<Rightarrow> obj agent_spec \<Rightarrow> rval rt" where
  "execute_agent cfg phase path spec =
     (case agent_to_effect spec (phase_obj phase) of
        Inr (AgentCall role cls prompt schema ws files explicit persona retry deadline label ph) \<Rightarrow>
          (let node = rt_node cfg path ''agent'' in
           rt_bind (evaluate_value cfg prompt) (\<lambda>prompt_value.
           if is_parked prompt_value then rt_ret prompt_value
           else
             rt_bind (rt_lift (schema_to_dict (rc_lib cfg) schema)) (\<lambda>schema_json.
             rt_bind (agent_workspace cfg node ws) (\<lambda>r.
             case r of
               Inl p \<Rightarrow> rt_ret p
             | Inr env \<Rightarrow>
                 rt_bind (rt_lift (profile_result
                   (resolve_agent_profile explicit role cls (w_roles (rc_workflow cfg)) (rc_registry cfg)))) (\<lambda>(name, source).
                 rt_bind (rt_lift (profile_result (registry_resolve (rc_registry cfg) name))) (\<lambda>profile.
                 rt_bind (rt_lift (resolve_retry cfg retry role)) (\<lambda>retries.
                 run_agent cfg phase (make_task cfg phase node
                   (stringify_prompt_value (rc_lib cfg) prompt_value) schema_json env name profile cls retries
                   deadline label))))))))
      | Inr _ \<Rightarrow> rt_raise RtType
      | Inl e \<Rightarrow> rt_raise (RtDsl e))"

section \<open>Gates and merges\<close>

definition execute_gate :: "rt_config \<Rightarrow> obj \<Rightarrow> obj \<Rightarrow> obj \<Rightarrow> rval rt" where
  "execute_gate cfg cmd ws timeout =
     (if ws = ONone then rt_call (CExec cmd None timeout)
      else
        rt_bind (evaluate_workspace cfg ''gate'' ws) (\<lambda>r.
        case r of Inl p \<Rightarrow> rt_ret p | Inr w \<Rightarrow> rt_call (CExec cmd (Some w) timeout)))"

fun merge_sources :: "rt_config \<Rightarrow> obj list \<Rightarrow> (rval + workspace list) rt" where
  "merge_sources cfg [] = rt_ret (Inr [])"
| "merge_sources cfg (x # xs) =
     rt_bind (evaluate_workspace cfg ''merge!'' x) (\<lambda>r.
     case r of
       Inl p \<Rightarrow> rt_ret (Inl p)
     | Inr w \<Rightarrow>
         rt_bind (merge_sources cfg xs) (\<lambda>rs.
         rt_ret (case rs of Inl p \<Rightarrow> Inl p | Inr ws \<Rightarrow> Inr (w # ws))))"

definition merge_strategy :: "obj \<Rightarrow> exn + string" where
  "merge_strategy x =
     (case x of
        OStr s \<Rightarrow> if s \<in> set [''merge'', ''rebase'', ''squash''] then Inr s else Inl (RtStrategy x)
      | _ \<Rightarrow> Inl (RtStrategy x))"

definition merge_outcome :: "rt_config \<Rightarrow> string \<Rightarrow> rval \<Rightarrow> rval rt" where
  "merge_outcome cfg node result =
     (case result of
        VMerged merged w conflicts text \<Rightarrow>
          (case (merged, w) of
             (True, Some ws) \<Rightarrow> rt_ret (VWorkspace ws)
           | _ \<Rightarrow> rt_park (merge_conflict_gate cfg node conflicts text) False)
      | _ \<Rightarrow> rt_raise RtAnswer)"

definition execute_merge :: "rt_config \<Rightarrow> string \<Rightarrow> obj list \<Rightarrow> obj \<Rightarrow> rval rt" where
  "execute_merge cfg path ws strategy =
     (let node = rt_node cfg path ''merge'' in
      rt_bind (merge_sources cfg ws) (\<lambda>r.
      case r of
        Inl p \<Rightarrow> rt_ret p
      | Inr sources \<Rightarrow>
          rt_bind (rt_lift (merge_strategy strategy)) (\<lambda>st.
          rt_bind (rt_call (CMerge (rt_workspace_id cfg node) sources st)) (merge_outcome cfg node))))"

section \<open>Joins\<close>

definition parked_branch :: "nat \<Rightarrow> rval" where
  "parked_branch i = VErr ''branch parked behind open gate'' ''ParkedValue'' i"

definition wrap_branch_for_quorum :: "rt_config \<Rightarrow> nat \<Rightarrow> rval rt \<Rightarrow> rval rt" where
  "wrap_branch_for_quorum cfg i branch =
     rt_try (rt_bind branch (\<lambda>v. rt_ret (if is_parked v then parked_branch i else VOk v i)))
       (\<lambda>e. if is_exception e then rt_ret (VErr (l_exc (rc_lib cfg) e) (exn_type e) i) else rt_raise e)"

definition is_ok :: "rval \<Rightarrow> bool" where
  "is_ok v = (case v of VOk x i \<Rightarrow> True | _ \<Rightarrow> False)"

definition is_err :: "rval \<Rightarrow> bool" where
  "is_err v = (case v of VErr e t i \<Rightarrow> True | _ \<Rightarrow> False)"

definition tolerated_losses :: "rval list \<Rightarrow> int \<Rightarrow> nat \<Rightarrow> string \<Rightarrow> loss list" where
  "tolerated_losses rs quorum n path =
     concat (map (\<lambda>r. case r of
        VErr e t i \<Rightarrow> [\<lparr>ls_path = path, ls_branch = i, ls_error = e, ls_type = t, ls_quorum = quorum, ls_total = n\<rparr>]
      | _ \<Rightarrow> []) rs)"

definition record_tolerated_losses :: "rval list \<Rightarrow> int \<Rightarrow> nat \<Rightarrow> string \<Rightarrow> rt_state \<Rightarrow> rt_state" where
  "record_tolerated_losses rs quorum n path = rs_losses_update (\<lambda>ls. ls @ tolerated_losses rs quorum n path)"

definition decide_quorum ::
    "rt_config \<Rightarrow> string option \<Rightarrow> string \<Rightarrow> int \<Rightarrow> nat \<Rightarrow> rval list \<Rightarrow> rval rt" where
  "decide_quorum cfg phase path quorum n rs =
     (let ok = length (filter is_ok rs); err = length (filter is_err rs);
          accept = rt_bind (rt_put (record_tolerated_losses rs quorum n path)) (\<lambda>_. rt_ret (VQuorum rs quorum n)) in
      if int ok < quorum then
        if dget (rc_answers cfg) (quorum_gate_id cfg path) = Some ''proceed'' then accept
        else rt_park (quorum_not_met_gate cfg path quorum n ok err phase) False
      else accept)"

text \<open>
  \<open>quorum\<close> as a number: expansion has refused anything but \<open>None\<close> and an integer; a Boolean is a
  number, any other value does not compare.
\<close>

definition quorum_number :: "nat \<Rightarrow> obj \<Rightarrow> exn + int" where
  "quorum_number n quorum =
     (case quorum of ONone \<Rightarrow> Inr (int n) | OInt q \<Rightarrow> Inr q | OBool b \<Rightarrow> Inr (if b then 1 else 0) | _ \<Rightarrow> Inl RtType)"

fun spawn_all :: "rval rt list \<Rightarrow> nat list rt" where
  "spawn_all [] = rt_ret []"
| "spawn_all (m # ms) = rt_bind (rt_spawn m) (\<lambda>t. rt_bind (spawn_all ms) (\<lambda>ts. rt_ret (t # ts)))"

definition execute_parallel ::
    "rt_config \<Rightarrow> string option \<Rightarrow> string \<Rightarrow> obj \<Rightarrow> rval rt list \<Rightarrow> rval rt" where
  "execute_parallel cfg phase path quorum branches =
     (let n = length branches in
      rt_bind (rt_lift (quorum_number n quorum)) (\<lambda>q.
      let is_quorum = q < int n;
          programs = (if is_quorum then map2 (wrap_branch_for_quorum cfg) [0..<n] branches else branches) in
      rt_bind (spawn_all programs) (\<lambda>tasks.
      rt_bind (rt_gather tasks) (\<lambda>rs.
      if is_quorum then decide_quorum cfg phase path q n rs else or_parked rs (rt_ret (VTuple rs))))))"

section \<open>Loops\<close>

text \<open>
  One iteration is a computation that says whether the loop is finished and what it returns; it
  is given the value of the form before it. The bindings an iteration added go out of scope.
\<close>

definition drop_local_bindings :: "string list \<Rightarrow> unit rt" where
  "drop_local_bindings before_names = rt_put (rs_bindings_update (filter (\<lambda>kv. fst kv \<in> set before_names)))"

fun loop_iterations :: "nat \<Rightarrow> nat \<Rightarrow> (nat \<Rightarrow> rval \<Rightarrow> (bool \<times> rval) rt) \<Rightarrow> rval \<Rightarrow> (bool \<times> rval) rt" where
  "loop_iterations i 0 body prev = rt_ret (False, prev)"
| "loop_iterations i (Suc n) body prev =
     rt_bind (rt_get (\<lambda>s. dkeys (rs_bindings s))) (\<lambda>before_names.
     rt_bind (body i prev) (\<lambda>(finished, v).
     if finished then rt_ret (True, v)
     else rt_bind (drop_local_bindings before_names) (\<lambda>_. loop_iterations (Suc i) n body v)))"

text \<open>\<open>range(max_iterations)\<close>; expansion has refused anything but a positive integer.\<close>

definition loop_count :: "obj \<Rightarrow> exn + int" where
  "loop_count m = (case m of OInt i \<Rightarrow> Inr i | OBool b \<Rightarrow> Inr (if b then 1 else 0) | _ \<Rightarrow> Inl RtType)"

definition loop_end :: "rt_config \<Rightarrow> string option \<Rightarrow> string \<Rightarrow> int \<Rightarrow> obj \<Rightarrow> (string, rval) dict \<Rightarrow> rval \<Rightarrow> rval rt" where
  "loop_end cfg phase path m until outer v =
     rt_bind (restore_loop_bindings outer) (\<lambda>_.
     let node = rt_node cfg path ''loop'' in
     if dget (rc_answers cfg) (loop_gate_id cfg node) = Some ''proceed'' then rt_ret v
     else rt_park (loop_exhaustion_gate cfg node until m phase) False)"

text \<open>\<open>body\<close> is given the bindings outside the loop, which it restores when it finishes.\<close>

definition execute_loop ::
    "rt_config \<Rightarrow> string option \<Rightarrow> string \<Rightarrow> obj \<Rightarrow> obj \<Rightarrow>
     ((string, rval) dict \<Rightarrow> nat \<Rightarrow> rval \<Rightarrow> (bool \<times> rval) rt) \<Rightarrow> rval rt" where
  "execute_loop cfg phase path max_iterations until body =
     rt_bind (rt_get rs_bindings) (\<lambda>outer.
     rt_bind (rt_lift (loop_count max_iterations)) (\<lambda>m.
     rt_bind (loop_iterations 0 (nat m) (body outer) VNone) (\<lambda>(finished, v).
     if finished then rt_ret v else loop_end cfg phase path m until outer v)))"

section \<open>Forms\<close>

definition phase_end :: "rt_config \<Rightarrow> string \<Rightarrow> string \<Rightarrow> (string, rval) dict \<Rightarrow> rval \<Rightarrow> rval rt" where
  "phase_end cfg name level before_phase v =
     rt_bind (rt_get (\<lambda>s. checkpoint_gate_for_phase cfg name level before_phase (rs_bindings s))) (\<lambda>checkpoint.
     case checkpoint of None \<Rightarrow> rt_ret v | Some g \<Rightarrow> rt_park g True)"

definition bind_value :: "target \<Rightarrow> rval \<Rightarrow> rval rt" where
  "bind_value tgt v =
     rt_bind (if is_parked v then bind_parked_runtime_value tgt v else bind_runtime_value tgt v) (\<lambda>_. rt_ret v)"

definition execute_random :: "rt_config \<Rightarrow> string \<Rightarrow> obj \<Rightarrow> obj \<Rightarrow> rval rt" where
  "execute_random cfg path spec label =
     rt_bind (evaluate_value cfg spec) (\<lambda>v.
     rt_call (CRandom v label (rc_run cfg) (rt_node cfg path ''random'')))"

function (sequential) execute_expr :: "rt_config \<Rightarrow> string option \<Rightarrow> string \<Rightarrow> obj \<Rightarrow> rval rt"
  and execute_branches :: "rt_config \<Rightarrow> string option \<Rightarrow> string \<Rightarrow> string \<Rightarrow> nat \<Rightarrow> obj list \<Rightarrow> rval rt list"
  and execute_form :: "rt_config \<Rightarrow> string option \<Rightarrow> string \<Rightarrow> obj \<Rightarrow> rval rt"
  and execute_forms :: "rt_config \<Rightarrow> string option \<Rightarrow> string \<Rightarrow> nat \<Rightarrow> rval \<Rightarrow> obj list \<Rightarrow> rval rt"
  and execute_loop_forms ::
    "rt_config \<Rightarrow> string option \<Rightarrow> string \<Rightarrow> obj \<Rightarrow> (string, rval) dict \<Rightarrow> nat \<Rightarrow> rval \<Rightarrow> obj list \<Rightarrow>
     (bool \<times> rval) rt" where
  "execute_expr cfg ph path x =
     (case x of
        OAgent spec \<Rightarrow> execute_agent cfg ph path spec
      | OGate cmd ws timeout budget phase \<Rightarrow> execute_gate cfg cmd ws timeout
      | OMerge ws strategy budget phase \<Rightarrow> execute_merge cfg path ws strategy
      | OTime label budget \<Rightarrow> rt_call (CTime label (rc_run cfg) (rt_node cfg path ''time''))
      | ORandom spec label budget \<Rightarrow> execute_random cfg path spec label
      | OWorkspace repo from_ref n \<Rightarrow> evaluate_value cfg x
      | OParallel bs q budget \<Rightarrow> execute_parallel cfg ph path q (execute_branches cfg ph path ''parallel'' 0 bs)
      | OParallelFor var vs bs budget \<Rightarrow>
          execute_parallel cfg ph path ONone (execute_branches cfg ph path ''parallel-for'' 0 bs)
      | OLoop m until body budget \<Rightarrow>
          execute_loop cfg ph path m until (\<lambda>outer i prev.
            execute_loop_forms cfg ph (path_join path (''loop['' @ nat_str i @ '']'')) until outer 0 prev body)
      | ORef n \<Rightarrow> evaluate_value cfg x
      | OField source f \<Rightarrow> evaluate_value cfg x
      | OOks source \<Rightarrow> evaluate_value cfg x
      | OPrompt parts \<Rightarrow> evaluate_value cfg x
      | _ \<Rightarrow> rt_raise (RtUnsupported (type_name x)))"
| "execute_branches cfg ph path label i [] = []"
| "execute_branches cfg ph path label i (b # bs) =
     execute_expr cfg ph (path_join path (label @ ''['' @ nat_str i @ '']'')) b #
     execute_branches cfg ph path label (Suc i) bs"
| "execute_form cfg ph path form =
     (case form of
        OPhase name level body \<Rightarrow>
          rt_bind (rt_get rs_bindings) (\<lambda>before_phase.
          rt_bind (execute_forms cfg (Some name) (path_join path name) 0 VNone body) (\<lambda>v.
          if is_parked v then rt_ret v else phase_end cfg name level before_phase v))
      | OBind tgt e \<Rightarrow> rt_bind (execute_expr cfg ph path e) (bind_value tgt)
      | OArtifact v \<Rightarrow> evaluate_value cfg v
      | _ \<Rightarrow> execute_expr cfg ph path form)"
| "execute_forms cfg ph prefix i prev [] = rt_ret prev"
| "execute_forms cfg ph prefix i prev (form # forms) =
     rt_bind (execute_form cfg ph (path_join prefix (nat_str i)) form) (\<lambda>v.
     if is_parked v then rt_ret v else execute_forms cfg ph prefix (Suc i) v forms)"
| "execute_loop_forms cfg ph prefix until outer i prev [] = rt_ret (False, prev)"
| "execute_loop_forms cfg ph prefix until outer i prev (form # forms) =
     rt_bind (execute_form cfg ph (path_join prefix (nat_str i)) form) (\<lambda>v.
     if is_parked v then rt_bind (restore_loop_bindings outer) (\<lambda>_. rt_ret (True, v))
     else
       rt_bind (evaluate_until cfg until) (\<lambda>satisfied.
       if satisfied then rt_bind (restore_loop_bindings outer) (\<lambda>_. rt_ret (True, v))
       else execute_loop_forms cfg ph prefix until outer (Suc i) v forms))"
  by pat_completeness auto

termination
  by (relation "measure (\<lambda>x. case x of
        Inl (Inl (_, _, _, e)) \<Rightarrow> 2 * size e
      | Inl (Inr (_, _, _, _, _, bs)) \<Rightarrow> 2 * size_list size bs
      | Inr (Inl (_, _, _, f)) \<Rightarrow> 2 * size f + 1
      | Inr (Inr (Inl (_, _, _, _, _, fs))) \<Rightarrow> 2 * size_list size fs
      | Inr (Inr (Inr (_, _, _, _, _, _, _, fs))) \<Rightarrow> 2 * size_list size fs)") auto

declare execute_expr.simps [simp del] execute_form.simps [simp del]

section \<open>Workflows\<close>

definition workflow_program :: "rt_config \<Rightarrow> rval rt" where
  "workflow_program cfg =
     rt_bind (execute_forms cfg None [] 0 VNone (w_body (rc_workflow cfg))) (\<lambda>v.
     rt_get (\<lambda>s. VResult v (map snd (rs_gates s)) (rs_losses s)))"

definition workflow_spec_to_program :: "rt_config \<Rightarrow> exn + prog" where
  "workflow_spec_to_program cfg =
     (case expand (l_obj_str (rc_lib cfg)) (rc_workflow cfg) of
        Inl e \<Rightarrow> Inl (RtDsl e)
      | Inr _ \<Rightarrow>
          if rc_supervision cfg \<in> set [''autonomous'', ''phase-checkpoints''] then Inr (rt_run (workflow_program cfg))
          else Inl (RtSupervision (rc_supervision cfg)))"

end
