(* ===== verification/Runtime_Logic.thy ===== *)
theory Runtime_Logic
  imports Runtime
begin

text \<open>
  A logic for programs of the runtime. \<open>good p G S T\<close> says of a program what holds however the other
  branches and the handlers behave: with the gate ids \<open>G\<close> open, it only keeps parked values whose
  gates are open, calls with a node id only once and only with ids in \<open>S\<close>, gathers only the tasks \<open>T\<close>
  and those it spawns, and follows a successful agent by the commit of the agent's workspace.
  \<open>spec\<close> is the corresponding statement about a computation with its two continuations.
\<close>

section \<open>Gates that are open\<close>

definition known :: "string set \<Rightarrow> rval \<Rightarrow> bool" where
  "known G v \<longleftrightarrow> (\<forall>gs \<in> set (gates_in v). gs \<noteq> [] \<and> gt_id ` set gs \<subseteq> G)"

text \<open>
  The empty id among \<open>S\<close> is the right to end with the result of the run, which spawned branches do
  not have.
\<close>

definition outcome_known :: "string set \<Rightarrow> string set \<Rightarrow> outcome \<Rightarrow> bool" where
  "outcome_known G S r \<longleftrightarrow> (case r of Inl e \<Rightarrow> True
     | Inr v \<Rightarrow> known G v \<or> [] \<in> S \<and> (\<exists>w gs ls. v = VResult w gs ls \<and> known (gt_id ` set gs) w))"

definition open_ids :: "rt_state \<Rightarrow> string set" where
  "open_ids s = set (dkeys (rs_gates s))"

definition state_ok :: "rt_state \<Rightarrow> bool" where
  "state_ok s \<longleftrightarrow> (\<forall>(i, g) \<in> set (rs_gates s). gt_id g = i \<and> answerable g) \<and>
     (\<forall>(n, v) \<in> set (rs_bindings s). known (open_ids s) v) \<and>
     (\<forall>(n, v) \<in> set (rs_cache s). known (open_ids s) v)"

lemma known_mono: "known G v \<Longrightarrow> G \<subseteq> G' \<Longrightarrow> known G' v"
  by (fastforce simp: known_def)

lemma outcome_known_mono: "outcome_known G S r \<Longrightarrow> G \<subseteq> G' \<Longrightarrow> S \<subseteq> S' \<Longrightarrow> outcome_known G' S' r"
  by (auto simp: outcome_known_def intro: known_mono split: sum.splits)

lemma known_ungated: "ungated v \<Longrightarrow> known G v"
  by (simp add: known_def ungated_def)

lemma known_simps [simp]:
  "known G VNone" "known G (VBool b)" "known G (VInt i)" "known G (VFloat f)" "known G (VStr t)"
  "known G (VWorkspace w)" "known G (VExec ec lp out tm)" "known G (VMerged m ws cs tx)" "known G (VErr e t j)"
  "known G (VSpec x)" "known G (VOther n)"
  "known G (VOk v j) = known G v"
  "known G (VResult v gs ls) = False"
  "known G (VParked gs h) = (gs \<noteq> [] \<and> gt_id ` set gs \<subseteq> G)"
  "known G (VList xs) = (\<forall>x \<in> set xs. known G x)"
  "known G (VTuple xs) = (\<forall>x \<in> set xs. known G x)"
  "known G (VSet xs) = (\<forall>x \<in> set xs. known G x)"
  "known G (VQuorum xs q n) = (\<forall>x \<in> set xs. known G x)"
  "known G (VDict d) = (\<forall>(a, b) \<in> set d. known G a \<and> known G b)"
  by (auto simp: known_def ball_Un) fastforce+

section \<open>Programs\<close>

definition call_key :: "rcall \<Rightarrow> string option" where
  "call_key c =
     (case c of
        CTime l r node \<Rightarrow> Some node | CRandom v l r node \<Rightarrow> Some node | CAgent task \<Rightarrow> Some (at_node task)
      | _ \<Rightarrow> None)"

definition call_ids :: "rcall \<Rightarrow> string set" where
  "call_ids c = (case call_key c of None \<Rightarrow> {} | Some i \<Rightarrow> {i})"

definition commits :: "rcall \<Rightarrow> (outcome \<Rightarrow> prog) \<Rightarrow> bool" where
  "commits c k \<longleftrightarrow> (\<forall>task v. c = CAgent task \<longrightarrow> rt_env task \<noteq> VNone \<longrightarrow>
     (\<exists>k'. k (Inr v) = PCall (CCommit (rt_env task) (commit_message (at_node task))) k'))"

definition gathers :: "string set \<Rightarrow> nat list \<Rightarrow> exn + rval list \<Rightarrow> bool" where
  "gathers G ts r \<longleftrightarrow> (case r of Inl e \<Rightarrow> True | Inr vs \<Rightarrow> length vs = length ts \<and> (\<forall>v \<in> set vs. known G v))"

primrec good :: "prog \<Rightarrow> string set \<Rightarrow> string set \<Rightarrow> nat set \<Rightarrow> bool" where
  "good (PDone r) G S T = outcome_known G S r"
| "good (PCall c k) G S T =
     (call_ids c \<subseteq> S \<and> commits c k \<and> (\<forall>a. may_answer c a \<longrightarrow> good (k a) G (S - call_ids c) T))"
| "good (PLook f) G S T =
     (\<forall>s. state_ok s \<longrightarrow> G \<subseteq> open_ids s \<longrightarrow>
        state_ok (fst (f s)) \<and> open_ids s \<subseteq> open_ids (fst (f s)) \<and>
        snd (map_prod id good (f s)) (open_ids (fst (f s))) S T)"
| "good (PSpawn p k) G S T =
     (\<exists>S1 S2. [] \<notin> S1 \<and> S1 \<inter> S2 = {} \<and> S1 \<union> S2 \<subseteq> S \<and> good p G S1 {} \<and> (\<forall>t. good (k t) G S2 (insert t T)))"
| "good (PGather ts k) G S T =
     (set ts \<subseteq> T \<and> (\<forall>G' r. G \<subseteq> G' \<longrightarrow> gathers G' ts r \<longrightarrow> good (k r) G' S T))"

lemma good_mono: "good p G S T \<Longrightarrow> G \<subseteq> G' \<Longrightarrow> S \<subseteq> S' \<Longrightarrow> T \<subseteq> T' \<Longrightarrow> good p G' S' T'"
proof (induction p arbitrary: G G' S S' T T')
  case (PDone r)
  then show ?case using outcome_known_mono by auto
next
  case (PCall c k)
  have "good (k a) G' (S' - call_ids c) T'" if "may_answer c a" for a
  proof (rule PCall.IH [OF rangeI _ PCall.prems(2) _ PCall.prems(4)])
    show "good (k a) G (S - call_ids c) T" using PCall.prems(1) that by simp
    show "S - call_ids c \<subseteq> S' - call_ids c" using PCall.prems(3) by (rule Diff_mono) simp
  qed
  moreover have "call_ids c \<subseteq> S'" and "commits c k" using PCall.prems by auto
  ultimately show ?case by simp
next
  case (PLook f)
  show ?case
    unfolding good.simps
  proof (intro allI impI)
    fix s
    assume s: "state_ok s" "G' \<subseteq> open_ids s"
    with PLook.prems have now: "state_ok (fst (f s)) \<and> open_ids s \<subseteq> open_ids (fst (f s)) \<and>
        good (snd (f s)) (open_ids (fst (f s))) S T" by auto
    have "good (snd (f s)) (open_ids (fst (f s))) S' T'"
    proof (rule PLook.IH [OF rangeI _ _ subset_refl PLook.prems(3,4)])
      show "snd (f s) \<in> Basic_BNFs.snds (f s)" by (simp add: snds.simps)
    qed (use now in simp)
    with now show "state_ok (fst (f s)) \<and> open_ids s \<subseteq> open_ids (fst (f s)) \<and>
        snd (map_prod id good (f s)) (open_ids (fst (f s))) S' T'" by simp
  qed
next
  case (PSpawn p k)
  then obtain S1 S2 where token: "[] \<notin> S1" and split: "S1 \<inter> S2 = {}" "S1 \<union> S2 \<subseteq> S" "good p G S1 {}"
      "\<forall>t. good (k t) G S2 (insert t T)" by auto
  have "good p G' S1 {}" by (rule PSpawn.IH(1) [OF split(3) PSpawn.prems(2)]) simp_all
  moreover have "good (k t) G' S2 (insert t T')" for t
    by (rule PSpawn.IH(2) [OF rangeI split(4) [rule_format] PSpawn.prems(2) subset_refl]) (use PSpawn.prems(4) in auto)
  moreover have "S1 \<union> S2 \<subseteq> S'" using split(2) PSpawn.prems(3) by (rule subset_trans)
  ultimately show ?case
    unfolding good.simps using token split(1) by (intro exI [of _ S1] exI [of _ S2] conjI) simp_all
next
  case (PGather ts k)
  have "good (k r) G'' S' T'" if "G' \<subseteq> G''" "gathers G'' ts r" for G'' r
  proof (rule PGather.IH [OF rangeI _ subset_refl PGather.prems(3,4)])
    show "good (k r) G'' S T" using PGather.prems(1,2) that by (auto simp: subset_trans)
  qed
  with PGather.prems show ?case by auto
qed

section \<open>Computations\<close>

definition spec ::
    "string set \<Rightarrow> nat set \<Rightarrow> string set \<Rightarrow> 'a rt \<Rightarrow> (string set \<Rightarrow> nat set \<Rightarrow> 'a \<Rightarrow> bool) \<Rightarrow> bool" where
  "spec G0 T0 P m Q \<longleftrightarrow>
     (\<forall>G S T k h. G0 \<subseteq> G \<longrightarrow> T0 \<subseteq> T \<longrightarrow> P \<subseteq> S \<longrightarrow>
        (\<forall>G' T' x. G \<subseteq> G' \<longrightarrow> T \<subseteq> T' \<longrightarrow> Q G' T' x \<longrightarrow> good (k x) G' (S - P) T') \<longrightarrow>
        (\<forall>G' T' e. G \<subseteq> G' \<longrightarrow> T \<subseteq> T' \<longrightarrow> good (h e) G' (S - P) T') \<longrightarrow> good (m k h) G S T)"

abbreviation gives :: "string set \<Rightarrow> nat set \<Rightarrow> rval \<Rightarrow> bool" where
  "gives G T v \<equiv> known G v"

named_theorems spec_intro "specifications of the runtime's computations"

lemma specI:
  assumes "\<And>G S T k h. G0 \<subseteq> G \<Longrightarrow> T0 \<subseteq> T \<Longrightarrow> P \<subseteq> S \<Longrightarrow>
      (\<And>G' T' x. G \<subseteq> G' \<Longrightarrow> T \<subseteq> T' \<Longrightarrow> Q G' T' x \<Longrightarrow> good (k x) G' (S - P) T') \<Longrightarrow>
      (\<And>G' T' e. G \<subseteq> G' \<Longrightarrow> T \<subseteq> T' \<Longrightarrow> good (h e) G' (S - P) T') \<Longrightarrow> good (m k h) G S T"
  shows "spec G0 T0 P m Q"
  unfolding spec_def by (intro allI impI) (rule assms; simp)

lemma specD:
  assumes "spec G0 T0 P m Q" and "G0 \<subseteq> G" "T0 \<subseteq> T" "P \<subseteq> S"
    and "\<And>G' T' x. G \<subseteq> G' \<Longrightarrow> T \<subseteq> T' \<Longrightarrow> Q G' T' x \<Longrightarrow> good (k x) G' (S - P) T'"
    and "\<And>G' T' e. G \<subseteq> G' \<Longrightarrow> T \<subseteq> T' \<Longrightarrow> good (h e) G' (S - P) T'"
  shows "good (m k h) G S T"
  by (rule assms(1) [unfolded spec_def, rule_format]) (use assms(2-) in simp_all)

lemma good_rest: "good p G (S - P) T \<Longrightarrow> good p G S T"
  by (rule good_mono) auto

lemma spec_weaken:
  assumes "spec G0 T0 P m Q" and "P \<subseteq> P'" and "\<And>G T x. G0 \<subseteq> G \<Longrightarrow> T0 \<subseteq> T \<Longrightarrow> Q G T x \<Longrightarrow> Q' G T x"
  shows "spec G0 T0 P' m Q'"
proof (rule specI)
  fix G S T and k :: "_ \<Rightarrow> prog" and h :: "exn \<Rightarrow> prog"
  assume a: "G0 \<subseteq> G" "T0 \<subseteq> T" "P' \<subseteq> S"
    and k: "\<And>G' T' x. G \<subseteq> G' \<Longrightarrow> T \<subseteq> T' \<Longrightarrow> Q' G' T' x \<Longrightarrow> good (k x) G' (S - P') T'"
    and h: "\<And>G' T' e. G \<subseteq> G' \<Longrightarrow> T \<subseteq> T' \<Longrightarrow> good (h e) G' (S - P') T'"
  have sub: "S - P' \<subseteq> S - P" using assms(2) by auto
  show "good (m k h) G S T"
  proof (rule specD [OF assms(1) a(1,2)])
    show "P \<subseteq> S" using a(3) assms(2) by auto
    show "good (k x) G' (S - P) T'" if "G \<subseteq> G'" "T \<subseteq> T'" "Q G' T' x" for G' T' x
      using good_mono [OF k [OF that(1,2)]] assms(3) [of G' T' x] that a sub by auto
    show "good (h e) G' (S - P) T'" if "G \<subseteq> G'" "T \<subseteq> T'" for G' T' e
      using good_mono [OF h [OF that]] sub by auto
  qed
qed

lemma spec_ret [spec_intro]:
  assumes "\<And>G T. G0 \<subseteq> G \<Longrightarrow> T0 \<subseteq> T \<Longrightarrow> Q G T x"
  shows "spec G0 T0 P (rt_ret x) Q"
  unfolding rt_ret_def by (rule specI, rule good_rest [where P = P]) (use assms in auto)

lemma spec_raise [spec_intro]: "spec G0 T0 P (rt_raise e) Q"
  unfolding rt_raise_def by (rule specI, rule good_rest [where P = P]) auto

lemma spec_bind_two:
  assumes "spec G0 T0 P1 m Q1" and "\<And>x G T. G0 \<subseteq> G \<Longrightarrow> T0 \<subseteq> T \<Longrightarrow> Q1 G T x \<Longrightarrow> spec G T P2 (f x) Q2"
    and "P1 \<inter> P2 = {}"
  shows "spec G0 T0 (P1 \<union> P2) (rt_bind m f) Q2"
proof (rule specI)
  fix G S T and k :: "_ \<Rightarrow> prog" and h :: "exn \<Rightarrow> prog"
  assume a: "G0 \<subseteq> G" "T0 \<subseteq> T" "P1 \<union> P2 \<subseteq> S"
    and k: "\<And>G' T' x. G \<subseteq> G' \<Longrightarrow> T \<subseteq> T' \<Longrightarrow> Q2 G' T' x \<Longrightarrow> good (k x) G' (S - (P1 \<union> P2)) T'"
    and h: "\<And>G' T' e. G \<subseteq> G' \<Longrightarrow> T \<subseteq> T' \<Longrightarrow> good (h e) G' (S - (P1 \<union> P2)) T'"
  have eq: "S - P1 - P2 = S - (P1 \<union> P2)" by auto
  show "good (rt_bind m f k h) G S T"
    unfolding rt_bind_def
  proof (rule specD [OF assms(1) a(1,2)])
    show "P1 \<subseteq> S" using a(3) by auto
    fix G1 T1 x
    assume g1: "G \<subseteq> G1" "T \<subseteq> T1" and "Q1 G1 T1 x"
    then have f: "spec G1 T1 P2 (f x) Q2"
      using subset_trans [OF a(1)] subset_trans [OF a(2)] by (intro assms(2)) simp_all
    show "good (f x k h) G1 (S - P1) T1"
    proof (rule specD [OF f subset_refl subset_refl])
      show "P2 \<subseteq> S - P1" using a(3) assms(3) by auto
    qed (use g1 k h in \<open>auto simp: eq dest: subset_trans\<close>)
  next
    show "good (h e) G' (S - P1) T'" if "G \<subseteq> G'" "T \<subseteq> T'" for G' T' e
      by (rule good_mono [OF h [OF that] subset_refl _ subset_refl]) auto
  qed
qed

lemma spec_bind [spec_intro]:
  assumes "spec G0 T0 {} m Q1" and "\<And>x G T. G0 \<subseteq> G \<Longrightarrow> T0 \<subseteq> T \<Longrightarrow> Q1 G T x \<Longrightarrow> spec G T P (f x) Q2"
  shows "spec G0 T0 P (rt_bind m f) Q2"
  using spec_bind_two [OF assms] by simp

lemma spec_bind_left:
  assumes "spec G0 T0 P m Q1" and "\<And>x G T. G0 \<subseteq> G \<Longrightarrow> T0 \<subseteq> T \<Longrightarrow> Q1 G T x \<Longrightarrow> spec G T {} (f x) Q2"
  shows "spec G0 T0 P (rt_bind m f) Q2"
  using spec_bind_two [OF assms] by simp

lemma spec_try [spec_intro]:
  assumes "spec G0 T0 P m Q" and "\<And>e G T. G0 \<subseteq> G \<Longrightarrow> T0 \<subseteq> T \<Longrightarrow> spec G T {} (f e) Q"
  shows "spec G0 T0 P (rt_try m f) Q"
proof (rule specI)
  fix G S T and k :: "_ \<Rightarrow> prog" and h :: "exn \<Rightarrow> prog"
  assume a: "G0 \<subseteq> G" "T0 \<subseteq> T" "P \<subseteq> S"
    and k: "\<And>G' T' x. G \<subseteq> G' \<Longrightarrow> T \<subseteq> T' \<Longrightarrow> Q G' T' x \<Longrightarrow> good (k x) G' (S - P) T'"
    and h: "\<And>G' T' e. G \<subseteq> G' \<Longrightarrow> T \<subseteq> T' \<Longrightarrow> good (h e) G' (S - P) T'"
  show "good (rt_try m f k h) G S T"
    unfolding rt_try_def
  proof (rule specD [OF assms(1) a k])
    show "good (f e k h) G' (S - P) T'" if g: "G \<subseteq> G'" "T \<subseteq> T'" for G' T' e
    proof (rule specD [OF assms(2)])
      show "G0 \<subseteq> G'" "T0 \<subseteq> T'" using a g by auto
    qed (use g k h in \<open>auto dest: subset_trans\<close>)
  qed
qed

lemma spec_lift [spec_intro]:
  assumes "\<And>x G T. G0 \<subseteq> G \<Longrightarrow> T0 \<subseteq> T \<Longrightarrow> r = Inr x \<Longrightarrow> Q G T x"
  shows "spec G0 T0 P (rt_lift r) Q"
  by (cases r) (auto simp: rt_lift_def intro!: spec_ret spec_raise assms)

lemma spec_look:
  assumes "\<And>s s' r. state_ok s \<Longrightarrow> G0 \<subseteq> open_ids s \<Longrightarrow> f s = (s', r) \<Longrightarrow>
      state_ok s' \<and> open_ids s \<subseteq> open_ids s' \<and> (\<forall>x T. T0 \<subseteq> T \<longrightarrow> r = Inr x \<longrightarrow> Q (open_ids s') T x)"
  shows "spec G0 T0 P (rt_look f) Q"
proof (rule specI)
  fix G S T and k :: "_ \<Rightarrow> prog" and h :: "exn \<Rightarrow> prog"
  assume a: "G0 \<subseteq> G" "T0 \<subseteq> T" "P \<subseteq> S"
    and k: "\<And>G' T' x. G \<subseteq> G' \<Longrightarrow> T \<subseteq> T' \<Longrightarrow> Q G' T' x \<Longrightarrow> good (k x) G' (S - P) T'"
    and h: "\<And>G' T' e. G \<subseteq> G' \<Longrightarrow> T \<subseteq> T' \<Longrightarrow> good (h e) G' (S - P) T'"
  have "state_ok s' \<and> open_ids s \<subseteq> open_ids s' \<and> good (case r of Inl e \<Rightarrow> h e | Inr x \<Rightarrow> k x) (open_ids s') S T"
    if s: "state_ok s" "G \<subseteq> open_ids s" and f: "f s = (s', r)" for s s' r
  proof -
    have now: "state_ok s' \<and> open_ids s \<subseteq> open_ids s' \<and> (\<forall>x T. T0 \<subseteq> T \<longrightarrow> r = Inr x \<longrightarrow> Q (open_ids s') T x)"
      using assms [OF s(1) _ f] a s by auto
    then have "good (case r of Inl e \<Rightarrow> h e | Inr x \<Rightarrow> k x) (open_ids s') (S - P) T"
      using k h s a by (cases r) auto
    then show ?thesis using now good_rest by blast
  qed
  then show "good (rt_look f k h) G S T"
    by (auto simp: rt_look_def split: prod.split)
qed

lemma spec_get [spec_intro]:
  assumes "\<And>s T. state_ok s \<Longrightarrow> G0 \<subseteq> open_ids s \<Longrightarrow> T0 \<subseteq> T \<Longrightarrow> Q (open_ids s) T (f s)"
  shows "spec G0 T0 P (rt_get f) Q"
  unfolding rt_get_def using assms by (intro spec_look) auto

lemma spec_put:
  assumes "\<And>s. state_ok s \<Longrightarrow> G0 \<subseteq> open_ids s \<Longrightarrow> state_ok (f s) \<and> open_ids s \<subseteq> open_ids (f s)"
    and "\<And>G T. G0 \<subseteq> G \<Longrightarrow> T0 \<subseteq> T \<Longrightarrow> Q G T ()"
  shows "spec G0 T0 P (rt_put f) Q"
  unfolding rt_put_def using assms by (intro spec_look) (auto simp: subset_trans)

lemma spec_call:
  assumes "call_key c = None" and "\<And>v G T. may_answer c (Inr v) \<Longrightarrow> Q G T v"
  shows "spec G0 T0 P (rt_call c) Q"
proof (rule specI)
  fix G S T and k :: "_ \<Rightarrow> prog" and h :: "exn \<Rightarrow> prog"
  assume k: "\<And>G' T' x. G \<subseteq> G' \<Longrightarrow> T \<subseteq> T' \<Longrightarrow> Q G' T' x \<Longrightarrow> good (k x) G' (S - P) T'"
    and h: "\<And>G' T' e. G \<subseteq> G' \<Longrightarrow> T \<subseteq> T' \<Longrightarrow> good (h e) G' (S - P) T'"
  have "commits c k'" for k' using assms(1) by (auto simp: commits_def call_key_def)
  moreover have "good (case a of Inl e \<Rightarrow> h e | Inr v \<Rightarrow> k v) G S T" if "may_answer c a" for a
    using that k h assms(2) by (cases a) (auto intro!: good_rest [of _ G S P T])
  ultimately show "good (rt_call c k h) G S T" by (simp add: rt_call_def call_ids_def assms(1))
qed

lemma spec_call_once:
  assumes "call_key c = Some i" and "\<And>task. c \<noteq> CAgent task" and "\<And>v G T. may_answer c (Inr v) \<Longrightarrow> Q G T v"
  shows "spec G0 T0 {i} (rt_call c) Q"
proof (rule specI)
  fix G S T and k :: "_ \<Rightarrow> prog" and h :: "exn \<Rightarrow> prog"
  assume "{i} \<subseteq> S"
    and k: "\<And>G' T' x. G \<subseteq> G' \<Longrightarrow> T \<subseteq> T' \<Longrightarrow> Q G' T' x \<Longrightarrow> good (k x) G' (S - {i}) T'"
    and h: "\<And>G' T' e. G \<subseteq> G' \<Longrightarrow> T \<subseteq> T' \<Longrightarrow> good (h e) G' (S - {i}) T'"
  moreover have "commits c k'" for k' using assms(2) by (auto simp: commits_def)
  moreover have "good (case a of Inl e \<Rightarrow> h e | Inr v \<Rightarrow> k v) G (S - {i}) T" if "may_answer c a" for a
    using that k h assms(3) by (cases a) auto
  ultimately show "good (rt_call c k h) G S T" by (simp add: rt_call_def call_ids_def assms(1))
qed

lemma spec_split [spec_intro]:
  "(c \<Longrightarrow> spec G0 T0 P m Q) \<Longrightarrow> (\<not> c \<Longrightarrow> spec G0 T0 P m' Q) \<Longrightarrow> spec G0 T0 P (if c then m else m') Q"
  "(x = None \<Longrightarrow> spec G0 T0 P m Q) \<Longrightarrow> (\<And>y. x = Some y \<Longrightarrow> spec G0 T0 P (f y) Q) \<Longrightarrow>
     spec G0 T0 P (case x of None \<Rightarrow> m | Some y \<Rightarrow> f y) Q"
  "(\<And>y. r = Inl y \<Longrightarrow> spec G0 T0 P (g y) Q) \<Longrightarrow> (\<And>y. r = Inr y \<Longrightarrow> spec G0 T0 P (g' y) Q) \<Longrightarrow>
     spec G0 T0 P (case r of Inl y \<Rightarrow> g y | Inr y \<Rightarrow> g' y) Q"
  "(\<And>y z. p = (y, z) \<Longrightarrow> spec G0 T0 P (q y z) Q) \<Longrightarrow> spec G0 T0 P (case p of (y, z) \<Rightarrow> q y z) Q"
  by (auto split: option.split sum.split prod.split)

section \<open>Spawned branches\<close>

lemma good_run:
  assumes "spec {} {} P m gives"
  shows "good (rt_run m) G P {}"
  unfolding rt_run_def by (rule specD [OF assms]) (simp_all add: outcome_known_def)

lemma spec_spawn:
  assumes "spec {} {} P m gives" and "[] \<notin> P"
  shows "spec G0 T0 P (rt_spawn m) (\<lambda>G T t. t \<in> T)"
proof (rule specI)
  fix G S T and k :: "_ \<Rightarrow> prog" and h :: "exn \<Rightarrow> prog"
  assume "P \<subseteq> S"
    and k: "\<And>G' T' x. G \<subseteq> G' \<Longrightarrow> T \<subseteq> T' \<Longrightarrow> x \<in> T' \<Longrightarrow> good (k x) G' (S - P) T'"
  then show "good (rt_spawn m k h) G S T"
    unfolding rt_spawn_def good.simps
    by (intro exI [of _ P] exI [of _ "S - P"]) (auto intro!: good_run [OF assms(1)] k simp: assms(2))
qed

lemma spec_gather:
  assumes "set ts \<subseteq> T0" and "\<And>vs G T. G0 \<subseteq> G \<Longrightarrow> T0 \<subseteq> T \<Longrightarrow> length vs = length ts \<Longrightarrow>
      (\<forall>v \<in> set vs. known G v) \<Longrightarrow> Q G T vs"
  shows "spec G0 T0 P (rt_gather ts) Q"
proof (rule specI)
  fix G S T and k :: "_ \<Rightarrow> prog" and h :: "exn \<Rightarrow> prog"
  assume a: "G0 \<subseteq> G" "T0 \<subseteq> T" "P \<subseteq> S"
    and k: "\<And>G' T' x. G \<subseteq> G' \<Longrightarrow> T \<subseteq> T' \<Longrightarrow> Q G' T' x \<Longrightarrow> good (k x) G' (S - P) T'"
    and h: "\<And>G' T' e. G \<subseteq> G' \<Longrightarrow> T \<subseteq> T' \<Longrightarrow> good (h e) G' (S - P) T'"
  have "good (case r of Inl e \<Rightarrow> h e | Inr vs \<Rightarrow> k vs) G' S T" if "G \<subseteq> G'" "gathers G' ts r" for G' r
    using that a k h assms(2) by (cases r) (auto simp: gathers_def intro!: good_rest [of _ G' S P T])
  then show "good (rt_gather ts k h) G S T"
    using a assms(1) by (auto simp: rt_gather_def)
qed

lemma spec_spawn_all:
  assumes "\<And>j. j < length ms \<Longrightarrow> spec {} {} (Pf (i + j)) (ms ! j) gives"
    and "\<And>j j'. j \<noteq> j' \<Longrightarrow> Pf j \<inter> Pf j' = {}" and "\<And>j. [] \<notin> Pf j"
  shows "spec G0 T0 (\<Union>j \<in> {i ..< i + length ms}. Pf j) (spawn_all ms)
    (\<lambda>G T ts. set ts \<subseteq> T \<and> length ts = length ms)"
  using assms(1)
proof (induction ms arbitrary: i G0 T0)
  case (Cons m ms)
  have rest: "spec G T (\<Union>j \<in> {Suc i ..< Suc i + length ms}. Pf j) (spawn_all ms)
      (\<lambda>G T ts. set ts \<subseteq> T \<and> length ts = length ms)" for G T
    using Cons.prems [of "Suc j" for j] by (intro Cons.IH) auto
  have split: "(\<Union>j \<in> {i ..< i + length (m # ms)}. Pf j) = Pf i \<union> (\<Union>j \<in> {Suc i ..< Suc i + length ms}. Pf j)"
  proof -
    have "{i ..< i + length (m # ms)} = insert i {Suc i ..< Suc i + length ms}" by auto
    then show ?thesis by simp
  qed
  show ?case
    unfolding split spawn_all.simps
  proof (rule spec_bind_two [OF spec_spawn])
    show "spec {} {} (Pf i) m gives" using Cons.prems [of 0] by simp
    show "[] \<notin> Pf i" by (rule assms(3))
    show "Pf i \<inter> (\<Union>j \<in> {Suc i ..< Suc i + length ms}. Pf j) = {}"
      using assms(2) [of i] by (simp add: Int_UN_distrib)
    show "spec G T (\<Union>j \<in> {Suc i ..< Suc i + length ms}. Pf j)
        (rt_bind (spawn_all ms) (\<lambda>ts. rt_ret (x # ts))) (\<lambda>G T ts. set ts \<subseteq> T \<and> length ts = length (m # ms))"
      if "x \<in> T" for x G and T :: "nat set"
      by (intro spec_bind_left [OF rest] spec_ret) (use that in \<open>simp, blast\<close>)
  qed
qed (auto intro: spec_ret)

end
