(* ===== verification/Runtime_Spec.thy ===== *)
theory Runtime_Spec
  imports Runtime_Logic
begin

text \<open>
  Every function of the workflow interpreter (\<open>doeff_conductor/workflow_runtime.py\<close>) meets its \<open>spec\<close>:
  what it returns only holds open gates, and the node ids of its calls lie under its path.
\<close>

section \<open>What the configuration must not contain\<close>

text \<open>Parameters and objects of other classes hold no gates of the runtime.\<close>

definition config_ok :: "rt_config \<Rightarrow> bool" where
  "config_ok cfg \<longleftrightarrow> (\<forall>(n, v) \<in> set (rc_params cfg). ungated v) \<and>
     (\<forall>w. ungated (l_created (rc_lib cfg) w)) \<and>
     (\<forall>v attrs. l_attrs (rc_lib cfg) v = Some attrs \<longrightarrow> (\<forall>(n, x) \<in> set attrs. ungated x))"

definition ids :: "rt_config \<Rightarrow> id_pred \<Rightarrow> string set" where
  "ids cfg R = {i. R (w_name (rc_workflow cfg)) i}"

lemma vget_known: "vget d k = Some v \<Longrightarrow> known G (VDict d) \<Longrightarrow> known G v"
  by (induction d k rule: vget.induct) (auto split: if_splits)

lemma vars_known:
  assumes "config_ok cfg" and "vars_of (rc_lib cfg) v = Some attrs" and "known G v" and "dget attrs n = Some x"
  shows "known G x"
proof -
  have "(n, x) \<in> set attrs" using assms(4) by (rule map_of_SomeD)
  moreover have "l_attrs (rc_lib cfg) v = Some attrs \<Longrightarrow> (n, x) \<in> set attrs \<Longrightarrow> known G x"
    using assms(1) by (force simp: config_ok_def intro: known_ungated)
  moreover have "known G (l_created (rc_lib cfg) w)" for w
    using assms(1) by (simp add: config_ok_def known_ungated)
  ultimately show ?thesis
    using assms(2,3) by (cases v) (auto simp: vars_of_def split: option.splits)
qed

lemma read_attribute_known:
  assumes "config_ok cfg" and "read_attribute (rc_lib cfg) v f = Inr x" and "known G v"
  shows "known G x"
proof -
  obtain attrs s where "vars_of (rc_lib cfg) v = Some attrs" "dget attrs s = Some x"
    using assms(2) by (auto simp: read_attribute_def split: option.splits rval.splits if_splits)
  then show ?thesis using vars_known [OF assms(1) _ assms(3)] by blast
qed

lemma read_field_known:
  assumes "config_ok cfg" and "read_field (rc_lib cfg) v f = Inr x" and "known G v"
  shows "known G x"
proof (cases "\<exists>d. v = VDict d")
  case True
  then show ?thesis using assms(2,3) vget_known by (auto simp: read_field_def split: if_splits option.splits)
next
  case False
  then have "read_attribute (rc_lib cfg) v f = Inr x" using assms(2) by (cases v) (simp_all add: read_field_def)
  then show ?thesis by (rule read_attribute_known [OF assms(1) _ assms(3)])
qed

lemma oks_known: "known G v \<Longrightarrow> known G (oks_of v)"
  by (cases v) (auto simp: oks_of_def split: rval.splits)

section \<open>Parked values\<close>

lemma fold_gates_ids:
  "gt_id ` snd ` set (fold (\<lambda>g. dput (gt_id g) g) gs acc) \<subseteq> gt_id ` set gs \<union> gt_id ` snd ` set acc"
proof (induction gs arbitrary: acc)
  case (Cons g gs)
  have "gt_id ` snd ` set (dput (gt_id g) g acc) \<subseteq> insert (gt_id g) (gt_id ` snd ` set acc)"
    using set_dput_subset [of "gt_id g" g acc] by force
  then have "gt_id ` set gs \<union> gt_id ` snd ` set (dput (gt_id g) g acc) \<subseteq>
      gt_id ` set (g # gs) \<union> gt_id ` snd ` set acc" by auto
  with Cons.IH [of "dput (gt_id g) g acc"] show ?case unfolding fold_simps by (rule subset_trans)
qed simp

lemma parked_gates_step:
  "(case v of VParked gs h \<Rightarrow> fold (\<lambda>g. dput (gt_id g) g) gs acc | _ \<Rightarrow> acc) = d \<Longrightarrow> known G v \<Longrightarrow>
   gt_id ` snd ` set acc \<subseteq> G \<Longrightarrow> gt_id ` snd ` set d \<subseteq> G"
proof (cases v)
  case (VParked gs h)
  assume "(case v of VParked gs h \<Rightarrow> fold (\<lambda>g. dput (gt_id g) g) gs acc | _ \<Rightarrow> acc) = d" "known G v"
    "gt_id ` snd ` set acc \<subseteq> G"
  then show ?thesis using subset_trans [OF fold_gates_ids [of gs acc], of G] VParked by simp
qed simp_all

lemma parked_gates_known:
  assumes "\<forall>v \<in> set vs. known G v"
  shows "gt_id ` snd ` set (parked_gates vs) \<subseteq> G"
proof -
  have "gt_id ` snd ` set acc \<subseteq> G \<Longrightarrow> gt_id ` snd ` set
      (fold (\<lambda>v acc. case v of VParked gs h \<Rightarrow> fold (\<lambda>g. dput (gt_id g) g) gs acc | _ \<Rightarrow> acc) vs acc) \<subseteq> G" for acc
    using assms by (induction vs arbitrary: acc) (simp_all add: parked_gates_step [OF refl])
  then show ?thesis by (simp add: parked_gates_def)
qed

lemma combine_known:
  assumes "combine_parked_values vs = Some p" and "\<forall>v \<in> set vs. known G v"
  shows "known G p"
  using assms(1) parked_gates_known [OF assms(2)] by (auto simp: combine_parked_values_def split: if_splits)

lemma spec_or_parked [spec_intro]:
  assumes "\<forall>v \<in> set vs. known G0 v" and "spec G0 T0 P m gives"
  shows "spec G0 T0 P (or_parked vs m) gives"
  unfolding or_parked_def
  by (rule spec_split(2)) (auto intro!: spec_ret assms(2) dest: combine_known [OF _ assms(1)] intro: known_mono)

lemma open_ids_put: "open_ids (rs_gates_update (dput i g) s) = insert i (open_ids s)"
  by (simp add: open_ids_def dom_map_of_conv_image_fst [symmetric] flip: set_map)
    (metis dom_fun_upd dom_map_of_conv_image_fst option.distinct(1) set_map update_conv')

lemma spec_park [spec_intro]:
  assumes "answerable g"
  shows "spec G0 T0 P (rt_park g h) gives"
  unfolding rt_park_def
proof (rule spec_look)
  fix s s' and r :: "exn + rval"
  assume s: "state_ok s" "G0 \<subseteq> open_ids s"
    and "(rs_gates_update (dput (gt_id g) g) s, Inr (VParked [g] h)) = (s', r)"
  then have s': "s' = rs_gates_update (dput (gt_id g) g) s" and r: "r = Inr (VParked [g] h)" by auto
  have more: "open_ids s \<subseteq> open_ids s'" by (auto simp: s' open_ids_put)
  have "\<forall>(i, g') \<in> set (rs_gates s'). gt_id g' = i \<and> answerable g'"
    using s(1) assms set_dput_subset [of "gt_id g" g "rs_gates s"] by (fastforce simp: s' state_ok_def)
  moreover have "rs_bindings s' = rs_bindings s" "rs_cache s' = rs_cache s" by (simp_all add: s')
  ultimately have "state_ok s'"
    using s(1) more by (fastforce simp: state_ok_def intro: known_mono)
  then show "state_ok s' \<and> open_ids s \<subseteq> open_ids s' \<and>
      (\<forall>x T. T0 \<subseteq> T \<longrightarrow> r = Inr x \<longrightarrow> known (open_ids s') x)"
    using more by (auto simp: r s' open_ids_put)
qed

section \<open>Bindings\<close>

lemma open_ids_other [simp]:
  "open_ids (rs_bindings_update f s) = open_ids s" "open_ids (rs_cache_update f s) = open_ids s"
  "open_ids (rs_losses_update f' s) = open_ids s"
  by (simp_all add: open_ids_def)

lemma state_ok_bindings:
  "state_ok s \<Longrightarrow> (\<And>n v. (n, v) \<in> set (f (rs_bindings s)) \<Longrightarrow> known (open_ids s) v) \<Longrightarrow> state_ok (rs_bindings_update f s)"
  by (auto simp: state_ok_def)

lemma state_ok_cache:
  "state_ok s \<Longrightarrow> known (open_ids s) v \<Longrightarrow> state_ok (rs_cache_update (dput k v) s)"
  using set_dput_subset [of k v "rs_cache s"] by (fastforce simp: state_ok_def)

lemma fold_dput_subset: "set (fold (\<lambda>(n, v). dput n v) kvs d) \<subseteq> set kvs \<union> set d"
proof (induction kvs arbitrary: d)
  case (Cons kv kvs)
  then show ?case using set_dput_subset [of "fst kv" "snd kv" d] by (cases kv) fastforce
qed simp

lemma spec_bind_all:
  assumes "\<forall>(n, v) \<in> set kvs. known G0 v"
  shows "spec G0 T0 P (rt_put (bind_all kvs)) (\<lambda>_ _ _. True)"
proof (rule spec_put)
  fix s
  assume s: "state_ok s" "G0 \<subseteq> open_ids s"
  have "known (open_ids s) v" if "(n, v) \<in> set (fold (\<lambda>(n, v). dput n v) kvs (rs_bindings s))" for n v
  proof -
    have "(n, v) \<in> set kvs \<or> (n, v) \<in> set (rs_bindings s)"
      using subsetD [OF fold_dput_subset that] by blast
    then show ?thesis
    proof (elim disjE)
      assume "(n, v) \<in> set kvs"
      then show ?thesis using assms known_mono [OF _ s(2)] by fast
    next
      assume "(n, v) \<in> set (rs_bindings s)"
      then show ?thesis using s(1) unfolding state_ok_def by fast
    qed
  qed
  then show "state_ok (bind_all kvs s) \<and> open_ids s \<subseteq> open_ids (bind_all kvs s)"
    using s by (auto simp: bind_all_def intro!: state_ok_bindings)
qed simp

lemma sequence_known: "sequence_items v = Some xs \<Longrightarrow> known G v \<Longrightarrow> \<forall>x \<in> set xs. known G x"
  by (cases v) (auto simp: sequence_items_def)

lemma spec_bind_value [spec_intro]:
  assumes "known G0 v"
  shows "spec G0 T0 P (bind_value tgt v) gives"
proof -
  have "spec G0 T0 {} (bind_runtime_value tgt v) (\<lambda>_ _ _. True)"
    unfolding bind_runtime_value_def
    using assms sequence_known [of v _ G0]
    by (cases tgt) (auto intro!: spec_intro spec_bind_all dest!: set_zip_rightD)
  moreover have "spec G0 T0 {} (bind_parked_runtime_value tgt v) (\<lambda>_ _ _. True)"
    unfolding bind_parked_runtime_value_def using assms by (auto intro!: spec_bind_all)
  ultimately show ?thesis
    unfolding bind_value_def using assms
    by (intro spec_bind [where ?Q1.0 = "\<lambda>_ _ _. True"] spec_split(1) spec_ret) (auto intro: known_mono)
qed

lemma spec_restore [spec_intro]:
  assumes "\<forall>(n, v) \<in> set outer. known G0 v"
  shows "spec G0 T0 P (restore_loop_bindings outer) (\<lambda>_ _ _. True)"
  unfolding restore_loop_bindings_def
  by (rule spec_put) (use assms in \<open>auto intro!: state_ok_bindings intro: known_mono\<close>)

lemma spec_drop_local [spec_intro]: "spec G0 T0 P (drop_local_bindings names) (\<lambda>_ _ _. True)"
  unfolding drop_local_bindings_def
  by (rule spec_put) (auto intro!: state_ok_bindings simp: state_ok_def)

lemma spec_look_up [spec_intro]: "config_ok cfg \<Longrightarrow> spec G0 T0 P (look_up cfg n) gives"
  unfolding look_up_def
  by (rule spec_look)
    (auto simp: state_ok_def config_ok_def intro: known_ungated dest!: map_of_SomeD split: option.splits)

section \<open>Values\<close>

lemma spec_create_workspace [spec_intro]: "spec G0 T0 P (create_workspace cfg repo n v) gives"
  unfolding create_workspace_def
proof (rule spec_bind)
  show "spec G0 T0 {} (rt_call (CWorkspace (rt_workspace_id cfg (rt_workspace_key cfg n))
      (if truthy repo then repo else OStr ''default'') (param_as_str (rc_lib cfg) v) (rc_issue cfg)))
      (\<lambda>G T w. \<exists>ws. w = VWorkspace ws)"
    by (rule spec_call) (auto simp: call_key_def)
  fix w G T
  assume "\<exists>ws. w = VWorkspace ws"
  then have k: "known G' w" for G' by auto
  then show "spec G T P (rt_bind (rt_put (rs_cache_update (dput (rt_workspace_key cfg n) w))) (\<lambda>_. rt_ret w)) gives"
    by (intro spec_bind [where ?Q1.0 = "\<lambda>_ _ _. True"] spec_put spec_ret) (auto intro: state_ok_cache)
qed

lemma known_set: "\<forall>v \<in> set acc. known G v \<Longrightarrow> \<forall>v \<in> set vs. known G v \<Longrightarrow> \<forall>v \<in> set (vset acc vs). known G v"
proof (induction acc vs rule: vset.induct)
  case (2 acc x xs)
  have "\<forall>v \<in> set (if norm_key x \<in> norm_key ` set acc then acc else acc @ [x]). known G v"
    using "2.prems" by (cases "norm_key x \<in> norm_key ` set acc") simp_all
  moreover have "\<forall>v \<in> set xs. known G v" using "2.prems"(2) by simp
  ultimately show ?case unfolding vset.simps by (rule "2.IH")
qed simp

lemma spec_set_value [spec_intro]:
  "\<forall>v \<in> set vs. known G0 v \<Longrightarrow> spec G0 T0 P (set_value vs) gives"
  unfolding set_value_def
proof (intro spec_split(2) spec_raise spec_ret)
  fix G
  assume "\<forall>v \<in> set vs. known G0 v" and "G0 \<subseteq> G"
  then show "known G (VSet (vset [] vs))" using known_set [of "[]" G vs] by (auto intro: known_mono)
qed

lemma vput_known: "known G (VDict d) \<Longrightarrow> known G k \<Longrightarrow> known G v \<Longrightarrow> known G (VDict (vput k v d))"
  by (induction k v d rule: vput.induct) auto

lemma fold_vput_known:
  "known G (VDict d) \<Longrightarrow> \<forall>(k, v) \<in> set kvs. known G k \<and> known G v \<Longrightarrow>
   known G (VDict (fold (\<lambda>(k, v). vput k v) kvs d))"
proof (induction kvs arbitrary: d)
  case (Cons kv kvs)
  obtain k v where kv: "kv = (k, v)" by force
  have "known G (VDict (vput k v d))" using Cons.prems vput_known [of G d k v] by (simp add: kv)
  then show ?case using Cons.IH [of "vput k v d"] Cons.prems(2) by (simp add: kv)
qed simp

lemma unparked_subset: "set (unparked_pairs kvs) \<subseteq> set kvs"
  by (induction kvs rule: unparked_pairs.induct) (auto split: if_splits)

lemma cached_known:
  assumes "state_ok s" and "cached_workspace s key = Some w"
  shows "known (open_ids s) w"
proof -
  have "dget (rs_cache s) key = Some w"
    using assms(2) by (auto simp: cached_workspace_def split: option.splits rval.splits)
  then show ?thesis using assms(1) map_of_SomeD unfolding state_ok_def by fast
qed

lemma spec_evaluate:
  assumes "config_ok cfg"
  shows "spec G0 T0 {} (evaluate_value cfg x) gives"
    and "spec G0 T0 {} (evaluate_items cfg xs) (\<lambda>G T vs. \<forall>v \<in> set vs. known G v)"
    and "spec G0 T0 {} (evaluate_pairs cfg d) (\<lambda>G T kvs. \<forall>(k, v) \<in> set kvs. known G k \<and> known G v)"
  using assms
proof (induction cfg x and cfg xs and cfg d arbitrary: G0 T0 and G0 T0 and G0 T0
    rule: evaluate_value_evaluate_items_evaluate_pairs.induct)
  case (1 cfg x)
  note ok = "1.prems"
  show ?case
  proof (cases x)
    case (OField source f)
    have "spec G T {} (if is_parked v then rt_ret v else rt_lift (read_field (rc_lib cfg) v (plain_value f))) gives"
      if "known G v" for G T v
      by (intro spec_split(1) spec_ret spec_lift) (use that read_field_known [OF ok] known_mono in blast)+
    then show ?thesis
      unfolding OField evaluate_value.simps [of cfg "OField source f"] obj.case by (intro spec_bind [OF "1.IH"(5) [OF OField ok]])
  next
    case (OOks source)
    have "spec G T {} (rt_ret (if is_parked v then v else oks_of v)) gives" if "known G v" for G T v
      using that oks_known by (auto intro!: spec_ret intro: known_mono)
    then show ?thesis
      unfolding OOks evaluate_value.simps [of cfg "OOks source"] obj.case by (intro spec_bind [OF "1.IH"(6) [OF OOks ok]])
  next
    case (OPrompt parts)
    show ?thesis
      unfolding OPrompt evaluate_value.simps [of cfg "OPrompt parts"] obj.case
      by (rule spec_bind [OF "1.IH"(7) [OF OPrompt ok]]) (auto intro!: spec_or_parked spec_ret)
  next
    case (OWorkspace repo from_ref n)
    have "spec G T {} (if from_ref = ONone then rt_ret VNone else evaluate_value cfg from_ref) gives" for G T
      by (intro spec_split(1) spec_ret) (auto intro!: "1.IH"(8) [OF OWorkspace _ ok])
    then have create: "spec G T {} (rt_bind (if from_ref = ONone then rt_ret VNone else evaluate_value cfg from_ref)
        (create_workspace cfg repo n)) gives" for G T
      by (rule spec_bind) (rule spec_create_workspace)
    have "spec G0 T0 {} (rt_get (\<lambda>s. cached_workspace s (rt_workspace_key cfg n)))
        (\<lambda>G T r. \<forall>w. r = Some w \<longrightarrow> known G w)"
      by (rule spec_get) (auto intro: cached_known)
    then show ?thesis
      unfolding OWorkspace evaluate_value.simps [of cfg "OWorkspace repo from_ref n"] obj.case
      by (rule spec_bind) (intro spec_split(2) create spec_ret, auto intro: known_mono)
  next
    case (OTuple xs)
    show ?thesis
      unfolding OTuple evaluate_value.simps [of cfg "OTuple xs"] obj.case
      by (rule spec_bind [OF "1.IH"(2) [OF OTuple ok]]) (auto intro!: spec_or_parked spec_ret intro: known_mono)
  next
    case (OList xs)
    show ?thesis
      unfolding OList evaluate_value.simps [of cfg "OList xs"] obj.case
      by (rule spec_bind [OF "1.IH"(1) [OF OList ok]]) (auto intro!: spec_or_parked spec_ret intro: known_mono)
  next
    case (OSet xs)
    show ?thesis
      unfolding OSet evaluate_value.simps [of cfg "OSet xs"] obj.case
      by (rule spec_bind [OF "1.IH"(3) [OF OSet ok]]) (auto intro!: spec_or_parked spec_set_value)
  next
    case (ODict d)
    have "spec G T {} (or_parked (concat (map pair_parked kvs))
        (rt_ret (VDict (fold (\<lambda>(k, v). vput k v) (unparked_pairs kvs) [])))) gives"
      if kvs: "\<forall>(k, v) \<in> set kvs. known G k \<and> known G v" for G T kvs
    proof (rule spec_or_parked)
      show "\<forall>v \<in> set (concat (map pair_parked kvs)). known G v"
        using kvs by (auto simp: pair_parked_def split: if_splits)
      have "known G' (VDict (fold (\<lambda>(k, v). vput k v) (unparked_pairs kvs) []))" if "G \<subseteq> G'" for G'
        by (rule fold_vput_known) (use kvs unparked_subset [of kvs] known_mono [OF _ that] in fastforce)+
      then show "spec G T {} (rt_ret (VDict (fold (\<lambda>(k, v). vput k v) (unparked_pairs kvs) []))) gives"
        by (intro spec_ret)
    qed
    then show ?thesis
      unfolding ODict evaluate_value.simps [of cfg "ODict d"] obj.case by (intro spec_bind [OF "1.IH"(4) [OF ODict ok]])
  qed (auto simp: evaluate_value.simps ok intro!: spec_ret spec_look_up)
next
  case (2 cfg)
  then show ?case by (auto intro: spec_ret)
next
  case (3 cfg x xs)
  have "spec G T {} (rt_bind (evaluate_items cfg xs) (\<lambda>vs. rt_ret (v # vs))) (\<lambda>G T vs. \<forall>v \<in> set vs. known G v)"
    if "known G v" for G T v
    by (rule spec_bind [OF "3.IH"(2) [OF "3.prems"]], rule spec_ret) (use that known_mono in fastforce)
  then show ?case
    unfolding evaluate_items.simps by (intro spec_bind [OF "3.IH"(1) [OF "3.prems"]])
next
  case (4 cfg)
  then show ?case by (auto intro: spec_ret)
next
  case (5 cfg k v d)
  let ?Q = "\<lambda>G T kvs. \<forall>(k, v) \<in> set kvs. known G k \<and> known G v"
  have "spec G T {} (if \<not> is_parked k' \<and> \<not> is_parked v' \<and> \<not> vhashable k' then rt_raise (RtUnhashable (vtype k'))
      else rt_bind (evaluate_pairs cfg d) (\<lambda>kvs. rt_ret ((k', v') # kvs))) ?Q"
    if "known G k'" "known G v'" for G T k' v'
    by (intro spec_split(1) spec_raise spec_bind [OF "5.IH"(3) [OF _ "5.prems"]] spec_ret; assumption?)
      (use that known_mono in fastforce)
  then have "spec G T {} (rt_bind (evaluate_value cfg v) (\<lambda>v'.
      if \<not> is_parked k' \<and> \<not> is_parked v' \<and> \<not> vhashable k' then rt_raise (RtUnhashable (vtype k'))
      else rt_bind (evaluate_pairs cfg d) (\<lambda>kvs. rt_ret ((k', v') # kvs)))) ?Q" if "known G k'" for G T k'
    using that known_mono by (intro spec_bind [OF "5.IH"(2) [OF "5.prems"]]) blast
  then show ?case
    unfolding evaluate_pairs.simps by (intro spec_bind [OF "5.IH"(1) [OF "5.prems"]])
qed

section \<open>Agents, gates and merges\<close>

lemma spec_value:
  assumes "config_ok cfg"
  shows "spec G0 T0 P (evaluate_value cfg x) gives"
  using spec_weaken [OF spec_evaluate(1) [OF assms]] by simp

lemma spec_until: "config_ok cfg \<Longrightarrow> spec G0 T0 P (evaluate_until cfg u) (\<lambda>_ _ _. True)"
  unfolding evaluate_until_def
  by (cases u) (auto intro!: spec_ret spec_get spec_look spec_split(2) spec_bind [OF spec_value])

abbreviation gives_or :: "string set \<Rightarrow> nat set \<Rightarrow> rval + 'a \<Rightarrow> bool" where
  "gives_or G T r \<equiv> (case r of Inl p \<Rightarrow> known G p | Inr w \<Rightarrow> True)"

lemma spec_evaluate_workspace:
  assumes "config_ok cfg"
  shows "spec G0 T0 P (evaluate_workspace cfg what x) gives_or"
proof -
  have "spec G T P (if is_parked v then rt_ret (Inl v)
      else (case v of VWorkspace w \<Rightarrow> rt_ret (Inr w) | _ \<Rightarrow> rt_raise (RtNotWorkspace what))) gives_or"
    if "known G v" for G T v
    using that by (cases v) (auto intro!: spec_ret spec_raise)
  then show ?thesis
    unfolding evaluate_workspace_def by (intro spec_bind [OF spec_value [OF assms]])
qed

lemma spec_agent_workspace:
  assumes "config_ok cfg"
  shows "spec G0 T0 P (agent_workspace cfg node ws) gives_or"
  unfolding agent_workspace_def
  by (intro spec_split(1) spec_bind [OF spec_evaluate_workspace [OF assms]] spec_ret
      spec_bind [OF spec_call [where Q = "\<lambda>_ _ _. True"]])
    (auto simp: call_key_def intro: known_mono split: sum.splits)

text \<open>The one place where an agent is called: its node id is used up and its success is followed by the commit.\<close>

lemma spec_run_agent: "spec G0 T0 {at_node task} (run_agent cfg ph task) gives"
proof (rule specI)
  fix G S T and k :: "rval \<Rightarrow> prog" and h :: "exn \<Rightarrow> prog"
  let ?S = "S - {at_node task}"
  let ?failed = "\<lambda>e. rt_bind (case e of
      AgentExhausted session attempts kind message \<Rightarrow>
        rt_bind (rt_park (result_validation_failed_gate cfg task ph attempts kind message) False) (\<lambda>p. rt_ret (Inl p))
    | AgentDeadline session deadline elapsed \<Rightarrow>
        rt_bind (rt_park (deadline_exceeded_gate cfg task ph deadline elapsed) False) (\<lambda>p. rt_ret (Inl p))
    | _ \<Rightarrow> rt_raise e)
    (\<lambda>r. case r of
          Inl p \<Rightarrow> rt_ret p
        | Inr v \<Rightarrow>
            if rt_env task \<noteq> VNone then rt_bind (commit_agent_workspace (rt_env task) (at_node task)) (\<lambda>_. rt_ret v)
            else rt_ret v)"
  assume S: "{at_node task} \<subseteq> S" and G: "G0 \<subseteq> G" "T0 \<subseteq> T"
    and k: "\<And>G' T' x. G \<subseteq> G' \<Longrightarrow> T \<subseteq> T' \<Longrightarrow> known G' x \<Longrightarrow> good (k x) G' ?S T'"
    and h: "\<And>G' T' e. G \<subseteq> G' \<Longrightarrow> T \<subseteq> T' \<Longrightarrow> good (h e) G' ?S T'"
  have commit: "spec G T {} (commit_agent_workspace e n) (\<lambda>_ _ _. True)" for G T e n
    unfolding commit_agent_workspace_def by (rule spec_call) (auto simp: call_key_def)
  have "spec G T {} (?failed e) gives" for e
  proof (rule spec_bind)
    have park: "spec G T {} (rt_bind (rt_park g False) (\<lambda>p. rt_ret (Inl p)))
        (\<lambda>G T r. \<exists>p. r = (Inl p :: rval + rval) \<and> known G p)" if "answerable g" for g
      by (rule spec_bind [OF spec_park [OF that]], rule spec_ret) (auto intro: known_mono)
    show "spec G T {} (case e of
      AgentExhausted session attempts kind message \<Rightarrow>
        rt_bind (rt_park (result_validation_failed_gate cfg task ph attempts kind message) False) (\<lambda>p. rt_ret (Inl p))
    | AgentDeadline session deadline elapsed \<Rightarrow>
        rt_bind (rt_park (deadline_exceeded_gate cfg task ph deadline elapsed) False) (\<lambda>p. rt_ret (Inl p))
    | _ \<Rightarrow> rt_raise e) (\<lambda>G T r. \<exists>p. r = (Inl p :: rval + rval) \<and> known G p)"
      by (cases e) (auto intro: spec_raise park builders_answerable)
  qed (auto intro!: spec_ret intro: known_mono)
  then have failed: "good (?failed e k h) G ?S T" for e
    by (rule specD) (auto intro: k h)
  have committed: "good (rt_bind (commit_agent_workspace (rt_env task) (at_node task)) (\<lambda>_. rt_ret v) k h) G ?S T"
    if "ungated v" for v
    by (rule specD [where P = "{}", OF spec_bind [OF commit spec_ret [where Q = gives]]])
      (use that in \<open>auto intro: known_ungated k h\<close>)
  have program: "run_agent cfg ph task k h = PCall (CAgent task) (\<lambda>a. case a of
      Inl e \<Rightarrow> ?failed e k h
    | Inr v \<Rightarrow> if rt_env task \<noteq> VNone
        then rt_bind (commit_agent_workspace (rt_env task) (at_node task)) (\<lambda>_. rt_ret v) k h else k v)"
    unfolding run_agent_def rt_bind_def rt_try_def rt_call_def rt_ret_def rt_raise_def
    by (auto intro!: ext split: sum.split exn.split)
  have "commits (CAgent task) (\<lambda>a. case a of
      Inl e \<Rightarrow> ?failed e k h
    | Inr v \<Rightarrow> if rt_env task \<noteq> VNone
        then rt_bind (commit_agent_workspace (rt_env task) (at_node task)) (\<lambda>_. rt_ret v) k h else k v)"
    by (simp add: commits_def commit_agent_workspace_def rt_bind_def rt_call_def)
  moreover have "good (k v) G ?S T" if "ungated v" for v
    by (rule k [OF subset_refl subset_refl known_ungated [OF that]])
  ultimately show "good (run_agent cfg ph task k h) G S T"
    using S failed committed by (simp add: program call_ids_def call_key_def split: sum.split)
qed

lemma make_task_node [simp]: "at_node (make_task cfg ph node p sch env name pf c r d l) = node"
  by (simp add: make_task_def)

lemma spec_execute_agent:
  assumes "config_ok cfg"
  shows "spec G0 T0 {rt_node cfg path ''agent''} (execute_agent cfg ph path a) gives"
proof (cases "agent_to_effect a (phase_obj ph)")
  case (Inr c)
  let ?P = "{rt_node cfg path ''agent''}"
  have run: "spec G T ?P (run_agent cfg ph (make_task cfg ph (rt_node cfg path ''agent'') p sch env name pf cl r d l)) gives"
    for G T p sch env name pf cl r d l
    using spec_run_agent [of G T "make_task cfg ph (rt_node cfg path ''agent'') p sch env name pf cl r d l"] by simp
  show ?thesis
  proof (cases "\<exists>role cls prompt sch ws files explicit persona retry d l p.
      c = AgentCall role cls prompt sch ws files explicit persona retry d l p")
    case True
    then show ?thesis
      unfolding execute_agent_def Inr sum.case
      by (elim exE; simp only: call.case Let_def)
      (intro spec_bind [OF spec_value [OF assms]] spec_split(1) spec_ret spec_bind [OF spec_agent_workspace [OF assms]]
         spec_bind [OF spec_lift [where Q = "\<lambda>_ _ _. True"]] spec_split(3,4) run,
       auto intro: known_mono)
  next
    case False
    then show ?thesis
      unfolding execute_agent_def Inr sum.case by (cases c) (auto intro: spec_raise)
  qed
qed (simp add: execute_agent_def spec_raise)

lemma spec_exec: "spec G0 T0 P (rt_call (CExec cmd w t)) gives"
  by (rule spec_call) (auto simp: call_key_def)

lemma spec_execute_gate:
  assumes "config_ok cfg"
  shows "spec G0 T0 P (execute_gate cfg cmd ws timeout) gives"
  unfolding execute_gate_def
  by (intro spec_split(1,3) spec_exec spec_bind [OF spec_evaluate_workspace [OF assms]] spec_ret)
    (auto intro: known_mono)

lemma spec_merge_sources:
  assumes "config_ok cfg"
  shows "spec G0 T0 P (merge_sources cfg xs) gives_or"
proof (induction xs arbitrary: G0 T0 P)
  case (Cons x xs)
  show ?case
    unfolding merge_sources.simps
    by (intro spec_bind [OF spec_evaluate_workspace [OF assms]] spec_split(3) spec_ret spec_bind [OF Cons.IH])
      (auto intro: known_mono split: sum.splits)
qed (auto intro: spec_ret)

lemma spec_merge_outcome: "spec G0 T0 P (merge_outcome cfg node v) gives"
proof (cases v)
  case (VMerged m w cs t)
  then show ?thesis by (cases m; cases w) (auto simp: merge_outcome_def intro: spec_ret spec_park builders_answerable)
qed (auto simp: merge_outcome_def intro: spec_raise)

lemma spec_execute_merge:
  assumes "config_ok cfg"
  shows "spec G0 T0 P (execute_merge cfg path ws st) gives"
  unfolding execute_merge_def Let_def
  by (intro spec_bind [OF spec_merge_sources [OF assms]] spec_split(3) spec_ret spec_merge_outcome
      spec_bind [OF spec_lift [where Q = "\<lambda>_ _ _. True"]] spec_bind [OF spec_call [where Q = "\<lambda>_ _ _. True"]])
    (auto simp: call_key_def intro: known_mono)

lemma spec_execute_random:
  assumes "config_ok cfg"
  shows "spec G0 T0 {rt_node cfg path ''random''} (execute_random cfg path x l) gives"
  unfolding execute_random_def
  by (intro spec_bind [OF spec_value [OF assms]] spec_call_once) (auto simp: call_key_def intro: known_ungated)

lemma spec_time: "spec G0 T0 {rt_node cfg path ''time''} (rt_call (CTime l (rc_run cfg) (rt_node cfg path ''time''))) gives"
  by (rule spec_call_once) (auto simp: call_key_def intro: known_ungated)

section \<open>Joins and loops\<close>

lemma spec_wrap_branch:
  assumes "spec G0 T0 P m gives"
  shows "spec G0 T0 P (wrap_branch_for_quorum cfg i m) gives"
  unfolding wrap_branch_for_quorum_def
  by (intro spec_try spec_bind_left [OF assms] spec_ret spec_split(1) spec_raise)
    (auto simp: parked_branch_def intro: known_mono)

lemma spec_decide_quorum:
  assumes "\<forall>v \<in> set rs. known G0 v"
  shows "spec G0 T0 P (decide_quorum cfg ph path q n rs) gives"
proof -
  have quorum: "known G (VQuorum rs q n)" if "G0 \<subseteq> G" for G
    using assms that by (auto intro: known_mono)
  have "spec G0 T0 P (rt_bind (rt_put (record_tolerated_losses rs q n path)) (\<lambda>_. rt_ret (VQuorum rs q n))) gives"
    by (intro spec_bind [where ?Q1.0 = "\<lambda>_ _ _. True"] spec_put spec_ret)
      (auto simp: record_tolerated_losses_def state_ok_def simp del: known_simps intro!: quorum)
  then show ?thesis
    unfolding decide_quorum_def Let_def by (intro spec_split(1) spec_park builders_answerable)
qed

lemma spec_execute_parallel:
  assumes "\<And>j. j < length ms \<Longrightarrow> spec {} {} (Pf j) (ms ! j) gives"
    and "\<And>j j'. j \<noteq> j' \<Longrightarrow> Pf j \<inter> Pf j' = {}" and "\<And>j. [] \<notin> Pf j"
  shows "spec G0 T0 (\<Union>j < length ms. Pf j) (execute_parallel cfg ph path q ms) gives"
proof -
  have spawn: "spec G T (\<Union>j < length ms. Pf j) (spawn_all
      (if c then map2 (wrap_branch_for_quorum cfg) [0..<length ms] ms else ms))
      (\<lambda>G T ts. set ts \<subseteq> T)" (is "spec _ _ ?P (spawn_all ?ms) _") for G T c
  proof -
    have "spec {} {} (Pf (0 + j)) (?ms ! j) gives" if "j < length ?ms" for j
      using that assms(1) [of j] by (auto intro: spec_wrap_branch split: if_splits)
    from spec_spawn_all [where i = 0 and Pf = Pf, OF this assms(2,3)]
    have "spec G T (\<Union>j \<in> {0 ..< length ?ms}. Pf j) (spawn_all ?ms) (\<lambda>G T ts. set ts \<subseteq> T \<and> length ts = length ?ms)"
      by simp
    then show ?thesis by (rule spec_weaken) (auto split: if_splits)
  qed
  show ?thesis
    unfolding execute_parallel_def Let_def
    by (intro spec_bind [OF spec_lift [where Q = "\<lambda>_ _ _. True"]] spec_bind_left [OF spawn]
        spec_bind [OF spec_gather [where Q = "\<lambda>G T vs. \<forall>v \<in> set vs. known G v"]] spec_split(1)
        spec_decide_quorum spec_or_parked spec_ret) (auto intro: known_mono)
qed

lemma spec_loop_iterations:
  assumes "\<And>i prev G T. G0 \<subseteq> G \<Longrightarrow> known G prev \<Longrightarrow> spec G T (Pf i) (body i prev) (\<lambda>G T r. known G (snd r))"
    and "\<And>j j'. j \<noteq> j' \<Longrightarrow> Pf j \<inter> Pf j' = {}" and "G0 \<subseteq> G" and "known G prev"
  shows "spec G T (\<Union>j \<in> {i ..< i + n}. Pf j) (loop_iterations i n body prev) (\<lambda>G T r. known G (snd r))"
  using assms(3,4)
proof (induction n arbitrary: i prev G T)
  case (Suc n)
  have split: "(\<Union>j \<in> {i ..< i + Suc n}. Pf j) = Pf i \<union> (\<Union>j \<in> {Suc i ..< Suc i + n}. Pf j)"
  proof -
    have "{i ..< i + Suc n} = insert i {Suc i ..< Suc i + n}" by auto
    then show ?thesis by simp
  qed
  have next_iteration: "spec G' T' (\<Union>j \<in> {Suc i ..< Suc i + n}. Pf j)
      (rt_bind (drop_local_bindings names) (\<lambda>_. loop_iterations (Suc i) n body v)) (\<lambda>G T r. known G (snd r))"
    if "G0 \<subseteq> G'" "known G' v" for G' T' names v
    by (intro spec_bind [OF spec_drop_local] Suc.IH) (use that in \<open>auto intro: known_mono\<close>)
  have "spec G' T' (Pf i \<union> (\<Union>j \<in> {Suc i ..< Suc i + n}. Pf j)) (rt_bind (body i prev) (\<lambda>(finished, v).
     if finished then rt_ret (True, v)
     else rt_bind (drop_local_bindings names) (\<lambda>_. loop_iterations (Suc i) n body v))) (\<lambda>G T r. known G (snd r))"
    if "G \<subseteq> G'" for G' T' names
  proof (rule spec_bind_two [OF assms(1)])
    show "G0 \<subseteq> G'" "known G' prev" using that Suc.prems known_mono by auto
    show "Pf i \<inter> (\<Union>j \<in> {Suc i ..< Suc i + n}. Pf j) = {}" using assms(2) [of i] by (simp add: Int_UN_distrib)
  qed (use that Suc.prems(1) in \<open>intro spec_split(4,1) spec_ret next_iteration; auto intro: known_mono\<close>)
  then show ?case
    unfolding split loop_iterations.simps by (intro spec_bind [OF spec_get [where Q = "\<lambda>_ _ _. True"]]) auto
qed (auto intro!: spec_ret intro: known_mono)

section \<open>Forms\<close>

abbreviation segment :: "string \<Rightarrow> string \<Rightarrow> nat \<Rightarrow> string" where
  "segment path label i \<equiv> path_join path (label @ ''['' @ nat_str i @ '']'')"

lemma segment_disjoint:
  assumes "path \<noteq> []" and "i \<noteq> j"
  shows "ids cfg (under (segment path label i)) \<inter> ids cfg (under (segment path label j)) = {}"
proof -
  have "False" if ij: "i < j" and "under (segment path label i) w d" "under (segment path label j) w d" for i j w d
  proof -
    have "branch_ids path label (Suc i) w d" using that unfolding branch_ids_def by (intro exI [of _ j]) simp
    then show False using branch_under_step [OF assms(1) that(2)] by blast
  qed
  then show ?thesis
    using assms(2) unfolding ids_def by (fastforce simp: neq_iff)
qed

lemma segment_inside:
  assumes "path \<noteq> []"
  shows "ids cfg (under (segment path label i)) \<subseteq> ids cfg (under path)"
    and "ids cfg (form_ids (segment path label i) j) \<subseteq> ids cfg (under (segment path label i))"
  using assms by (auto simp: ids_def form_ids_def under_def path_join_def)

lemma form_ids_inside: "path \<noteq> [] \<Longrightarrow> ids cfg (form_ids (path_join path child) i) \<subseteq> ids cfg (under path)"
  using form_ids_under by (auto simp: ids_def)

lemma ex_from_Suc: "(\<exists>j \<ge> i. P j) \<longleftrightarrow> P i \<or> (\<exists>j \<ge> Suc i. P j)"
  by (metis Suc_leD le_refl not_less_eq_eq nat_less_le not_less)

lemma form_ids_split:
  "ids cfg (form_ids prefix i) =
     ids cfg (under (path_join prefix (nat_str i))) \<union> ids cfg (form_ids prefix (Suc i))"
  "ids cfg (under (path_join prefix (nat_str i))) \<inter> ids cfg (form_ids prefix (Suc i)) = {}"
proof -
  show "ids cfg (form_ids prefix i) =
      ids cfg (under (path_join prefix (nat_str i))) \<union> ids cfg (form_ids prefix (Suc i))"
    unfolding ids_def form_ids_def Collect_disj_eq [symmetric] by (subst ex_from_Suc) (rule refl)
  show "ids cfg (under (path_join prefix (nat_str i))) \<inter> ids cfg (form_ids prefix (Suc i)) = {}"
    using form_under_step unfolding ids_def by blast
qed

lemma node_inside: "path \<noteq> [] \<Longrightarrow> {rt_node cfg path kind} \<subseteq> ids cfg (under path)"
  by (auto simp: ids_def under_def rt_node_def node_id_def)

lemma spec_at_node:
  assumes "spec G0 T0 {rt_node cfg path kind} m gives" and "path \<noteq> []"
  shows "spec G0 T0 (ids cfg (under path)) m gives"
  by (rule spec_weaken [OF assms(1) node_inside [OF assms(2)]])

lemma no_empty_id: "[] \<notin> ids cfg (under path)"
  by (simp add: ids_def under_def)

lemma spec_joined:
  assumes "path \<noteq> []" and "\<And>j. j < length ms \<Longrightarrow> spec {} {} (ids cfg (under (segment path label j))) (ms ! j) gives"
  shows "spec G0 T0 (ids cfg (under path)) (execute_parallel cfg ph path q ms) gives"
proof (rule spec_weaken [OF spec_execute_parallel [where Pf = "\<lambda>j. ids cfg (under (segment path label j))"]])
  show "ids cfg (under (segment path label j)) \<inter> ids cfg (under (segment path label j')) = {}" if "j \<noteq> j'" for j j'
    by (rule segment_disjoint [OF assms(1) that])
  show "(\<Union>j < length ms. ids cfg (under (segment path label j))) \<subseteq> ids cfg (under path)"
    by (rule UN_least) (rule segment_inside(1) [OF assms(1)])
qed (rule assms(2) no_empty_id | assumption)+

lemma bindings_known_mono:
  "\<forall>(n, v) \<in> set kvs. known G v \<Longrightarrow> G \<subseteq> G' \<Longrightarrow> \<forall>(n, v) \<in> set kvs. known G' v"
  using known_mono by auto

lemma spec_execute_loop:
  assumes "path \<noteq> []"
    and "\<And>outer i prev G T. \<forall>(n, v) \<in> set outer. known G v \<Longrightarrow> known G prev \<Longrightarrow>
      spec G T (ids cfg (under (segment path ''loop'' i))) (body outer i prev) (\<lambda>G T r. known G (snd r))"
  shows "spec G0 T0 (ids cfg (under path)) (execute_loop cfg ph path m until body) gives"
proof -
  let ?outer = "\<lambda>G T (outer :: (string, rval) dict). \<forall>(n, v) \<in> set outer. known G v"
  have after: "spec G T {} (if finished then rt_ret v else loop_end cfg ph path n until outer v) gives"
    if "known G v" and "?outer G T outer" for G T finished v n and outer :: "(string, rval) dict"
    unfolding loop_end_def Let_def
    by (intro spec_split(1) spec_ret spec_bind [OF spec_restore] spec_park builders_answerable) (use that in \<open>auto intro: known_mono\<close>)
  have loop: "spec G T (ids cfg (under path)) (rt_bind (loop_iterations 0 k (body outer) VNone)
      (\<lambda>(finished, v). if finished then rt_ret v else loop_end cfg ph path n until outer v)) gives"
    if outer: "?outer G T outer" for G T outer k n
  proof (rule spec_bind_left)
    have "spec G T (\<Union>j \<in> {0 ..< 0 + k}. ids cfg (under (segment path ''loop'' j)))
        (loop_iterations 0 k (body outer) VNone) (\<lambda>G T r. known G (snd r))"
    proof (rule spec_loop_iterations [OF assms(2)])
      show "\<forall>(n, v) \<in> set outer. known G' v" if "G \<subseteq> G'" for G'
        by (rule bindings_known_mono [OF outer that])
      show "ids cfg (under (segment path ''loop'' j)) \<inter> ids cfg (under (segment path ''loop'' j')) = {}"
        if "j \<noteq> j'" for j j'
        by (rule segment_disjoint [OF assms(1) that])
    qed simp_all
    then show "spec G T (ids cfg (under path)) (loop_iterations 0 k (body outer) VNone)
        (\<lambda>G' T' r. G \<subseteq> G' \<and> known G' (snd r))"
      by (rule spec_weaken) (use segment_inside(1) [OF assms(1)] in blast)+
    fix r :: "bool \<times> rval" and G' T'
    assume "G \<subseteq> G' \<and> known G' (snd r)"
    moreover from this have "?outer G' T' outer" using bindings_known_mono [OF outer] by blast
    ultimately show "spec G' T' {} (case r of (finished, v) \<Rightarrow>
        if finished then rt_ret v else loop_end cfg ph path n until outer v) gives"
      by (intro spec_split(4) after) simp_all
  qed
  show ?thesis
    unfolding execute_loop_def
  proof (rule spec_bind [OF spec_get [where Q = ?outer]])
    fix outer G T
    assume outer: "?outer G T outer"
    have "spec G T {} (rt_lift (loop_count m)) (\<lambda>G' T' _. G \<subseteq> G')" by (rule spec_lift)
    then show "spec G T (ids cfg (under path)) (rt_bind (rt_lift (loop_count m)) (\<lambda>n.
        rt_bind (loop_iterations 0 (nat n) (body outer) VNone)
          (\<lambda>(finished, v). if finished then rt_ret v else loop_end cfg ph path n until outer v))) gives"
    proof (rule spec_bind)
      fix n G' T'
      assume "G \<subseteq> G'"
      then have "?outer G' T' outer" by (rule bindings_known_mono [OF outer])
      then show "spec G' T' (ids cfg (under path)) (rt_bind (loop_iterations 0 (nat n) (body outer) VNone)
          (\<lambda>(finished, v). if finished then rt_ret v else loop_end cfg ph path n until outer v)) gives"
        by (rule loop)
    qed
  qed (auto simp: state_ok_def)
qed

lemma spec_phase_end: "known G0 v \<Longrightarrow> spec G0 T0 P (phase_end cfg name level b v) gives"
  unfolding phase_end_def
  by (intro spec_bind [OF spec_get [where Q = "\<lambda>_ _ x. \<forall>g. x = Some g \<longrightarrow> answerable g"]] spec_split(2) spec_ret spec_park)
    (auto intro: known_mono builders_answerable)

lemma spec_execute:
  assumes "config_ok cfg"
  shows "path \<noteq> [] \<Longrightarrow> spec G0 T0 (ids cfg (under path)) (execute_expr cfg ph path x) gives"
    and "path \<noteq> [] \<Longrightarrow> length (execute_branches cfg ph path label i bs) = length bs \<and>
      (\<forall>j < length bs. spec {} {} (ids cfg (under (segment path label (i + j)))) (execute_branches cfg ph path label i bs ! j) gives)"
    and "path \<noteq> [] \<Longrightarrow> spec G0 T0 (ids cfg (under path)) (execute_form cfg ph path f) gives"
    and "known G0 prev \<Longrightarrow> spec G0 T0 (ids cfg (form_ids prefix i)) (execute_forms cfg ph prefix i prev fs) gives"
    and "known G0 prev \<Longrightarrow> \<forall>(n, v) \<in> set outer. known G0 v \<Longrightarrow>
      spec G0 T0 (ids cfg (form_ids prefix i)) (execute_loop_forms cfg ph prefix until outer i prev fs)
        (\<lambda>G T r. known G (snd r))"
  using assms
proof (induction cfg ph path x and cfg ph path label i bs and cfg ph path f and cfg ph prefix i prev fs
    and cfg ph prefix until outer i prev fs
    arbitrary: G0 T0 and and G0 T0 and G0 T0 and G0 T0
    rule: execute_expr_execute_branches_execute_form_execute_forms_execute_loop_forms.induct)
  case (1 cfg ph path x)
  note ok = "1.prems"(2) and path = "1.prems"(1)
  show ?case
  proof (cases x)
    case (OAgent a)
    then show ?thesis
      using spec_at_node [OF spec_execute_agent [OF ok] path] by (simp add: execute_expr.simps)
  next
    case (OTime l b)
    then show ?thesis using spec_at_node [OF spec_time path] by (simp add: execute_expr.simps)
  next
    case (ORandom sp l b)
    then show ?thesis
      using spec_at_node [OF spec_execute_random [OF ok] path] by (simp add: execute_expr.simps)
  next
    case (OParallel bs q b)
    then show ?thesis
      using "1.IH"(1) [OF OParallel path ok]
      by (auto simp: execute_expr.simps intro!: spec_joined [OF path, where label = "''parallel''"])
  next
    case (OParallelFor var vs bs b)
    then show ?thesis
      using "1.IH"(2) [OF OParallelFor path ok]
      by (auto simp: execute_expr.simps intro!: spec_joined [OF path, where label = "''parallel-for''"])
  next
    case (OLoop m u body b)
    have seg: "path_join path (''loop['' @ nat_str i @ '']'') = segment path ''loop'' i" for i by simp
    have "spec G T (ids cfg (under (segment path ''loop'' i)))
        (execute_loop_forms cfg ph (path_join path (''loop['' @ nat_str i @ '']'')) u outer 0 prev body)
        (\<lambda>G T r. known G (snd r))"
      if "\<forall>(n, v) \<in> set outer. known G v" "known G prev" for outer i prev G T
      by (rule spec_weaken [OF "1.IH"(3) [OF OLoop that(2,1) ok]])
        (use segment_inside(2) [OF path, of cfg "''loop''" i 0] in \<open>simp_all only: seg\<close>)
    then have "spec G0 T0 (ids cfg (under path)) (execute_loop cfg ph path m u (\<lambda>outer i prev.
        execute_loop_forms cfg ph (path_join path (''loop['' @ nat_str i @ '']'')) u outer 0 prev body)) gives"
      by (rule spec_execute_loop [OF path])
    then show ?thesis using OLoop by (simp add: execute_expr.simps)
  qed (auto simp: execute_expr.simps intro!: spec_value spec_raise spec_execute_gate spec_execute_merge ok)
next
  case (2 cfg ph path label i)
  then show ?case by simp
next
  case (3 cfg ph path label i b bs)
  have "spec {} {} (ids cfg (under (segment path label (i + j)))) (execute_branches cfg ph path label i (b # bs) ! j) gives"
    if "j < length (b # bs)" for j
    using that "3.IH"(1) [OF _ "3.prems"(2)] conjunct2 [OF "3.IH"(2) [OF "3.prems"]] by (cases j) auto
  then show ?case using "3.IH"(2) [OF "3.prems"] by simp
next
  case (4 cfg ph path form)
  note ok = "4.prems"(2) and path = "4.prems"(1)
  show ?case
  proof (cases form)
    case (OPhase name level body)
    have "spec G T (ids cfg (under path)) (execute_forms cfg (Some name) (path_join path name) 0 VNone body) gives" for G T
      by (rule spec_weaken [OF "4.IH"(24) [OF OPhase _ ok] form_ids_inside [OF path]]) auto
    then have "spec G T (ids cfg (under path)) (rt_bind (execute_forms cfg (Some name) (path_join path name) 0 VNone body)
        (\<lambda>v. if is_parked v then rt_ret v else phase_end cfg name level before_phase v)) gives" for G T before_phase
      by (rule spec_bind_left) (auto intro!: spec_ret spec_phase_end intro: known_mono)
    then show ?thesis
      using OPhase by (auto simp: execute_form.simps intro!: spec_bind [OF spec_get [where Q = "\<lambda>_ _ _. True"]])
  next
    case (OBind tgt e)
    then show ?thesis
      using spec_bind_left [OF "4.IH"(23) [OF OBind path ok] spec_bind_value] by (simp add: execute_form.simps)
  qed (use "4.IH" path ok in \<open>auto simp: execute_form.simps intro!: spec_value\<close>)
next
  case (5 cfg ph prefix i prev)
  then show ?case by (auto intro!: spec_ret intro: known_mono)
next
  case (6 cfg ph prefix i prev form forms)
  show ?case
    unfolding execute_forms.simps form_ids_split(1) [of cfg prefix i]
    by (rule spec_bind_two [OF "6.IH"(1) [OF _ "6.prems"(2)] _ form_ids_split(2)])
      (auto intro!: spec_ret "6.IH"(2) [OF _ _ "6.prems"(2)] intro: known_mono)
next
  case (7 cfg ph prefix until outer i prev)
  then show ?case by (auto intro!: spec_ret intro: known_mono)
next
  case (8 cfg ph prefix until outer i prev form forms)
  note ok = "8.prems"(3)
  have restore: "spec G T {} (rt_bind (restore_loop_bindings outer) (\<lambda>_. rt_ret (True, v))) (\<lambda>G T r. known G (snd r))"
    if "G0 \<subseteq> G" "known G v" for G T v
    by (intro spec_bind [OF spec_restore] spec_ret) (use that "8.prems"(2) known_mono in \<open>fastforce+\<close>)
  have step: "spec G T (ids cfg (form_ids prefix (Suc i))) (if is_parked v
      then rt_bind (restore_loop_bindings outer) (\<lambda>_. rt_ret (True, v))
      else rt_bind (evaluate_until cfg until) (\<lambda>satisfied.
        if satisfied then rt_bind (restore_loop_bindings outer) (\<lambda>_. rt_ret (True, v))
        else execute_loop_forms cfg ph prefix until outer (Suc i) v forms)) (\<lambda>G T r. known G (snd r))"
    if "G0 \<subseteq> G" "known G v" for G T v
  proof -
    have weak: "spec G' T' (ids cfg (form_ids prefix (Suc i)))
        (rt_bind (restore_loop_bindings outer) (\<lambda>_. rt_ret (True, v))) (\<lambda>G T r. known G (snd r))"
      if "G \<subseteq> G'" for G' T'
      by (rule spec_weaken [OF restore]) (use \<open>G0 \<subseteq> G\<close> \<open>known G v\<close> that known_mono in auto)
    have rest: "spec G' T' (ids cfg (form_ids prefix (Suc i)))
        (execute_loop_forms cfg ph prefix until outer (Suc i) v forms) (\<lambda>G T r. known G (snd r))"
      if "G \<subseteq> G'" "\<not> is_parked v" "\<not> satisfied" for G' T' satisfied
      by (rule "8.IH"(2) [OF that(2,3) _ _ ok]) (use \<open>G0 \<subseteq> G\<close> \<open>known G v\<close> that "8.prems"(2) known_mono in fastforce)+
    show ?thesis
      by (intro spec_split(1) weak spec_bind [OF spec_until [OF ok]] rest) auto
  qed
  show ?case
    unfolding execute_loop_forms.simps form_ids_split(1) [of cfg prefix i]
    by (rule spec_bind_two [OF "8.IH"(1) [OF _ ok] step form_ids_split(2)]) auto
qed

end
