(* ===== verification/Runtime_Pool.thy ===== *)
theory Runtime_Pool
  imports Runtime_Spec
begin

text \<open>
  Runs of a workflow (\<open>doeff_conductor/workflow_runtime.py\<close>): whatever the order in which branches
  take their turns and whatever the handlers answer, the pool keeps \<open>pool_ok\<close>. From it follow the
  statements about gates, node ids, commits and the end of a run.
\<close>

section \<open>The pool invariant\<close>

definition event_ids :: "event \<Rightarrow> string set" where
  "event_ids ev = (case ev of Silent \<Rightarrow> {} | Answered c a \<Rightarrow> call_ids c)"

definition threads_ok :: "string set \<Rightarrow> string set \<Rightarrow> prog list \<Rightarrow> (nat \<Rightarrow> string set) \<Rightarrow> (nat \<Rightarrow> nat set) \<Rightarrow> bool" where
  "threads_ok G U ps S T \<longleftrightarrow>
     (\<forall>i < length ps. good (ps ! i) G (S i) (T i) \<and> T i \<subseteq> {i <..< length ps} \<and> S i \<inter> U = {} \<and>
        (0 < i \<longrightarrow> [] \<notin> S i)) \<and>
     (\<forall>i < length ps. \<forall>j < length ps. i \<noteq> j \<longrightarrow> S i \<inter> S j = {})"

definition pool_ok :: "string set \<Rightarrow> pool \<Rightarrow> bool" where
  "pool_ok U c \<longleftrightarrow> state_ok (fst c) \<and> (\<exists>S T. threads_ok (open_ids (fst c)) U (snd c) S T)"

lemma threads_okI:
  assumes "\<And>i. i < length ps \<Longrightarrow> good (ps ! i) G (S i) (T i)" and "\<And>i. i < length ps \<Longrightarrow> T i \<subseteq> {i <..< length ps}"
    and "\<And>i. i < length ps \<Longrightarrow> S i \<inter> U = {}" and "\<And>i. i < length ps \<Longrightarrow> 0 < i \<Longrightarrow> [] \<notin> S i"
    and "\<And>i j. i < length ps \<Longrightarrow> j < length ps \<Longrightarrow> i \<noteq> j \<Longrightarrow> S i \<inter> S j = {}"
  shows "threads_ok G U ps S T"
  unfolding threads_ok_def by (intro conjI allI impI assms)

lemma threads_okD:
  assumes "threads_ok G U ps S T"
  shows "i < length ps \<Longrightarrow> good (ps ! i) G (S i) (T i)" and "i < length ps \<Longrightarrow> T i \<subseteq> {i <..< length ps}"
    and "i < length ps \<Longrightarrow> S i \<inter> U = {}" and "i < length ps \<Longrightarrow> 0 < i \<Longrightarrow> [] \<notin> S i"
    and "i < length ps \<Longrightarrow> j < length ps \<Longrightarrow> i \<noteq> j \<Longrightarrow> S i \<inter> S j = {}"
  using assms unfolding threads_ok_def by blast+

lemma threads_update:
  assumes "threads_ok G U ps S T" and "i < length ps" and "good p G' S' T'" and "G \<subseteq> G'"
    and "S' \<subseteq> S i" and "T' \<subseteq> T i" and "U' \<subseteq> U \<union> S i" and "S' \<inter> U' = {}"
  shows "threads_ok G' U' (ps[i := p]) (S(i := S')) (T(i := T'))"
proof (rule threads_okI)
  note ok = threads_okD [OF assms(1)]
  fix j
  assume "j < length (ps[i := p])"
  then have j: "j < length ps" by simp
  have later: "good (ps ! j) G' (S j) (T j)" by (rule good_mono [OF ok(1) [OF j] assms(4)]) simp_all
  show "good (ps[i := p] ! j) G' ((S(i := S')) j) ((T(i := T')) j)"
    using later assms(2,3) by (cases "j = i") simp_all
  show "(T(i := T')) j \<subseteq> {j <..< length (ps[i := p])}"
    using ok(2) [OF j] assms(6) by (cases "j = i") (simp_all add: subset_trans)
  show "0 < j \<Longrightarrow> [] \<notin> (S(i := S')) j"
    using ok(4) [OF j] assms(5) by (cases "j = i") auto
  show "(S(i := S')) j \<inter> U' = {}"
  proof (cases "j = i")
    case False
    then have "S j \<inter> (U \<union> S i) = {}" using ok(3) [OF j] ok(5) [OF j assms(2)] by auto
    then show ?thesis using False assms(7) by auto
  qed (use assms(8) in simp)
  fix j'
  assume "j' < length (ps[i := p])" and "j \<noteq> j'"
  then have "S j \<inter> S j' = {}" using ok(5) [OF j] by simp
  then show "(S(i := S')) j \<inter> (S(i := S')) j' = {}"
    using assms(5) \<open>j \<noteq> j'\<close> by (cases "j = i"; cases "j' = i") auto
qed

lemma threads_spawn:
  assumes "threads_ok G U ps S T" and "i < length ps" and "good p G S1 {}" and "good q G S2 (insert (length ps) (T i))"
    and "S1 \<union> S2 \<subseteq> S i" and "S1 \<inter> S2 = {}" and "[] \<notin> S1"
  shows "threads_ok G U (ps[i := q] @ [p]) (S(i := S2, length ps := S1)) (T(i := insert (length ps) (T i), length ps := {}))"
proof (rule threads_okI)
  let ?n = "length ps" and ?S = "S(i := S2, length ps := S1)"
  note ok = threads_okD [OF assms(1)]
  have in_n: "i \<noteq> ?n" using assms(2) by simp
  fix j
  assume "j < length (ps[i := q] @ [p])"
  then consider (new) "j = ?n" | (parent) "j = i" | (other) "j < ?n" "j \<noteq> i" by force
  note split = this
  show "good ((ps[i := q] @ [p]) ! j) G (?S j) ((T(i := insert ?n (T i), ?n := {})) j)"
    by (cases rule: split) (use assms(2-4) ok(1) in \<open>simp_all add: nth_append\<close>)
  show "(T(i := insert ?n (T i), ?n := {})) j \<subseteq> {j <..< length (ps[i := q] @ [p])}"
  proof (cases rule: split)
    case parent
    then show ?thesis using ok(2) [OF assms(2)] assms(2) by auto
  next
    case other
    then show ?thesis using ok(2) [OF other(1)] by auto
  qed simp
  show "?S j \<inter> U = {}"
    by (cases rule: split) (use ok(3) assms(2,5) in auto)
  show "0 < j \<Longrightarrow> [] \<notin> ?S j"
    by (cases rule: split) (use ok(4) assms(2,5,7) in auto)
  fix j'
  assume "j' < length (ps[i := q] @ [p])" and ne: "j \<noteq> j'"
  then consider (new') "j' = ?n" | (parent') "j' = i" | (other') "j' < ?n" "j' \<noteq> i" by force
  note split' = this
  have far: "S k \<inter> S1 = {} \<and> S k \<inter> S2 = {}" if "k < ?n" "k \<noteq> i" for k
    using ok(5) [OF that(1) assms(2) that(2)] assms(5) by auto
  show "?S j \<inter> ?S j' = {}"
    by (cases rule: split; cases rule: split') (use ne far ok(5) assms(6) in_n in auto)
qed

lemma gathered_known:
  assumes "threads_ok G U ps S T" and "i < length ps" and "set ts \<subseteq> T i" and "gathered ps ts vs"
  shows "gathers G ts (Inr vs)"
proof -
  have "known G (vs ! j)" if j: "j < length vs" for j
  proof -
    have t: "ts ! j \<in> T i" "ts ! j < length ps" and r: "ps ! (ts ! j) = PDone (Inr (vs ! j))"
      using assms(3,4) j by (auto simp: gathered_def)
    have "outcome_known G (S (ts ! j)) (Inr (vs ! j))"
      using threads_okD(1) [OF assms(1) t(2)] r by simp
    moreover have "0 < ts ! j" using t(1) threads_okD(2) [OF assms(1,2)] by auto
    ultimately show ?thesis using threads_okD(4) [OF assms(1) t(2)] by (simp add: outcome_known_def)
  qed
  then show ?thesis using assms(4) by (auto simp: gathers_def gathered_def in_set_conv_nth)
qed

lemma pool_step:
  assumes "pstep i ev (s, ps) (s', ps')" and "pool_ok U (s, ps)"
  shows "pool_ok (U \<union> event_ids ev) (s', ps') \<and> event_ids ev \<inter> U = {}"
proof -
  obtain S T where s: "state_ok s" and ok: "threads_ok (open_ids s) U ps S T"
    using assms(2) by (auto simp: pool_ok_def)
  show ?thesis
    using assms(1)
  proof (cases rule: pstep.cases)
    case (Look f p)
    then have g: "state_ok s'" "open_ids s \<subseteq> open_ids s'" "good p (open_ids s') (S i) (T i)"
      using threads_okD(1) [OF ok, of i] s by force+
    have "threads_ok (open_ids s') U (ps[i := p]) (S(i := S i)) (T(i := T i))"
      by (rule threads_update [OF ok]) (use Look g threads_okD(3) [OF ok] in auto)
    then show ?thesis using Look g(1) by (auto simp: pool_ok_def event_ids_def)
  next
    case (Call c k a)
    then have g: "call_ids c \<subseteq> S i" "good (k a) (open_ids s) (S i - call_ids c) (T i)"
      using threads_okD(1) [OF ok, of i] by auto
    have fresh: "call_ids c \<inter> U = {}" using g(1) threads_okD(3) [OF ok, of i] Call by auto
    have "threads_ok (open_ids s) (U \<union> call_ids c) (ps[i := k a]) (S(i := S i - call_ids c)) (T(i := T i))"
      by (rule threads_update [OF ok]) (use Call g threads_okD(3) [OF ok, of i] in auto)
    then show ?thesis using Call s fresh by (auto simp: pool_ok_def event_ids_def)
  next
    case (Spawn p k)
    then obtain S1 S2 where g: "[] \<notin> S1" "S1 \<inter> S2 = {}" "S1 \<union> S2 \<subseteq> S i" "good p (open_ids s) S1 {}"
        "\<forall>t. good (k t) (open_ids s) S2 (insert t (T i))"
      using threads_okD(1) [OF ok, of i] by auto
    have "threads_ok (open_ids s) U (ps[i := k (length ps)] @ [p]) (S(i := S2, length ps := S1))
        (T(i := insert (length ps) (T i), length ps := {}))"
      by (rule threads_spawn [OF ok]) (use Spawn g in auto)
    then show ?thesis using Spawn s by (auto simp: pool_ok_def event_ids_def)
  next
    case (Gather ts k vs)
    then have g: "set ts \<subseteq> T i" "\<forall>G' r. open_ids s \<subseteq> G' \<longrightarrow> gathers G' ts r \<longrightarrow> good (k r) G' (S i) (T i)"
      using threads_okD(1) [OF ok, of i] by auto
    have r: "good (k (Inr vs)) (open_ids s) (S i) (T i)"
      using g(2) gathered_known [OF ok _ g(1)] Gather by auto
    have "threads_ok (open_ids s) U (ps[i := k (Inr vs)]) (S(i := S i)) (T(i := T i))"
      by (rule threads_update [OF ok]) (use Gather r threads_okD(3) [OF ok] in auto)
    then show ?thesis using Gather s by (auto simp: pool_ok_def event_ids_def)
  next
    case (Failed ts k t e)
    then have r: "good (k (Inl e)) (open_ids s) (S i) (T i)"
      using threads_okD(1) [OF ok, of i] by (auto simp: gathers_def)
    have "threads_ok (open_ids s) U (ps[i := k (Inl e)]) (S(i := S i)) (T(i := T i))"
      by (rule threads_update [OF ok]) (use Failed r threads_okD(3) [OF ok] in auto)
    then show ?thesis using Failed s by (auto simp: pool_ok_def event_ids_def)
  qed
qed

section \<open>Runs of a workflow\<close>

definition trace_keys :: "(nat \<times> event) list \<Rightarrow> string list" where
  "trace_keys tr = concat (map (\<lambda>(i, ev). case ev of Silent \<Rightarrow> []
     | Answered c a \<Rightarrow> (case call_key c of None \<Rightarrow> [] | Some key \<Rightarrow> [key])) tr)"

lemma event_keys: "event_ids ev = set (trace_keys [(i, ev)])" "distinct (trace_keys [(i, ev)])"
  by (simp_all add: trace_keys_def event_ids_def call_ids_def split: event.split option.split)

lemma trace_keys_append [simp]: "trace_keys (tr @ tr') = trace_keys tr @ trace_keys tr'"
  by (simp add: trace_keys_def)

lemma pool_runs:
  assumes "pruns c tr c'" and "pool_ok {} c"
  shows "pool_ok (set (trace_keys tr)) c' \<and> distinct (trace_keys tr)"
  using assms
proof (induction rule: pruns.induct)
  case (Step tr c' i ev c'')
  obtain s ps s' ps' where pools: "c' = (s, ps)" "c'' = (s', ps')" by force
  have "pool_ok (set (trace_keys tr) \<union> event_ids ev) c'' \<and> event_ids ev \<inter> set (trace_keys tr) = {}"
    using pool_step [OF Step.hyps(2) [unfolded pools]] Step.IH [OF Step.prems] by (simp add: pools)
  then show ?case using Step.IH Step.prems event_keys [where ev = ev and i = i] by auto
qed (simp add: trace_keys_def)

lemma good_workflow:
  assumes "config_ok cfg"
  shows "good (rt_run (workflow_program cfg)) {} UNIV {}"
proof -
  have "good (rt_run (workflow_program cfg)) {} (insert [] (ids cfg (form_ids [] 0))) {}"
    unfolding rt_run_def workflow_program_def rt_bind_def
  proof (rule specD [OF spec_execute(4) [OF assms]])
    fix G' :: "string set" and T' :: "nat set" and v
    assume v: "known G' v"
    have "outcome_known (open_ids s) ({[]} :: string set) (Inr (VResult v (map snd (rs_gates s)) (rs_losses s)))"
      if "state_ok s" "G' \<subseteq> open_ids s" for s
    proof -
      have "open_ids s = gt_id ` set (map snd (rs_gates s))"
      proof -
        have "fst ` set (rs_gates s) = (\<lambda>(i, g). gt_id g) ` set (rs_gates s)"
          using that(1) unfolding state_ok_def by (intro image_cong) auto
        then show ?thesis by (simp add: open_ids_def image_image case_prod_beta)
      qed
      then show ?thesis using known_mono [OF v that(2)] by (simp add: outcome_known_def)
    qed
    then show "good (rt_get (\<lambda>s. VResult v (map snd (rs_gates s)) (rs_losses s)) (\<lambda>v. PDone (Inr v)) (\<lambda>e. PDone (Inl e)))
        G' (insert [] (ids cfg (form_ids [] 0)) - ids cfg (form_ids [] 0)) T'"
      by (auto simp: rt_get_def rt_look_def ids_def form_ids_def under_def insert_Diff_if)
  qed (auto simp: outcome_known_def)
  then show ?thesis by (rule good_mono) auto
qed

lemma program_starts_ok:
  assumes "config_ok cfg" and "workflow_spec_to_program cfg = Inr p"
  shows "pool_ok {} (start_pool p)"
proof -
  have "p = rt_run (workflow_program cfg)"
    using assms(2) by (auto simp: workflow_spec_to_program_def split: sum.splits if_splits)
  then have "threads_ok {} {} [p] (\<lambda>_. UNIV) (\<lambda>_. {})"
    using good_workflow [OF assms(1)] by (intro threads_okI) auto
  then show ?thesis by (auto simp: pool_ok_def start_pool_def initial_context_def state_ok_def open_ids_def)
qed

section \<open>The end of a run\<close>

text \<open>Every step replaces a program by a subprogram of it, and \<open>Spawn\<close> adds another one.\<close>

inductive child :: "prog \<Rightarrow> prog \<Rightarrow> bool" where
  "child (k a) (PCall c k)"
| "child (snd (f s)) (PLook f)"
| "child p (PSpawn p k)"
| "child (k t) (PSpawn p k)"
| "child (k' r) (PGather ts k')"

inductive_cases childE [elim!]:
  "child q (PDone r)" "child q (PCall c k)" "child q (PLook f)" "child q (PSpawn p k)" "child q (PGather ts k)"

lemma child_acc: "Wellfounded.accp child p"
proof (induction p)
  case (PLook f)
  have "Wellfounded.accp child (snd (f s))" for s
    using PLook [of "f s" "snd (f s)"] by (simp add: snds.simps)
  then show ?case by (auto intro: accpI)
qed (auto intro: accpI)

lemma child_wf: "wf {(q, p). child q p}"
  using child_acc by (simp add: accp_wfpI [THEN wfp_def [THEN iffD1]])

definition program_order :: "(prog multiset \<times> prog multiset) set" where
  "program_order = mult {(q, p). child q p}"

lemma step_decreases:
  assumes "pstep i ev (s, ps) (s', ps')"
  shows "(mset ps', mset ps) \<in> program_order"
proof -
  have replace: "(mset (ps[i := q]) + M, mset ps) \<in> program_order"
    if "i < length ps" "child q (ps ! i)" "\<forall>x \<in># M. child x (ps ! i)" for q M
  proof -
    have "mset ps = (mset ps - {# ps ! i #}) + {# ps ! i #}" using that(1) by simp
    moreover have "mset (ps[i := q]) + M = (mset ps - {# ps ! i #}) + (add_mset q M)"
      using that(1) by (simp add: mset_update)
    moreover have "((mset ps - {# ps ! i #}) + add_mset q M, (mset ps - {# ps ! i #}) + {# ps ! i #})
        \<in> mult {(q, p). child q p}"
      by (rule one_step_implies_mult) (use that in auto)
    ultimately show ?thesis by (simp add: program_order_def)
  qed
  have one: "(mset (ps[i := q]), mset ps) \<in> program_order" if "i < length ps" "child q (ps ! i)" for q
    using replace [OF that, of "{#}"] by simp
  show ?thesis
    using assms
  proof (cases rule: pstep.cases)
    case (Look f p)
    then have "child p (ps ! i)" using child.intros(2) [of f s] by simp
    then show ?thesis using Look one by simp
  next
    case (Spawn p k)
    then show ?thesis using replace [of "k (length ps)" "{# p #}"] by (simp add: child.intros)
  qed (use one child.intros in auto)
qed

lemma program_order_wf: "wf program_order"
  unfolding program_order_def by (rule wf_mult [OF child_wf])

end
