(* ===== verification/Runtime_Demo.thy ===== *)
theory Runtime_Demo
  imports Runtime_Pool
begin

text \<open>
  Concrete workflows for \<open>doeff_conductor/workflow_runtime.py\<close>, run by the executable scheduler.
\<close>

definition demo_lib_of :: "((string, rval) dict \<Rightarrow> exn + bool) option \<Rightarrow> rt_lib" where
  "demo_lib_of p =
     \<lparr>l_str = (\<lambda>v. ''?''), l_json_str = (\<lambda>v. ''?''), l_float = (\<lambda>f. ''0.5''), l_feq = (\<lambda>a b. a = b),
      l_created = (\<lambda>w. VStr ''now''), l_attrs = (\<lambda>v. None), l_json = (\<lambda>v. JNull), l_model_schema = (\<lambda>n. None),
      l_pred = (\<lambda>n. p), l_sha = (\<lambda>s. ''00000000''), l_exc = (\<lambda>e. ''error''), l_obj_str = (\<lambda>x. ''object'')\<rparr>"

definition demo_flow :: "obj list \<Rightarrow> workflow" where
  "demo_flow body = \<lparr>w_name = ''w'', w_params = [], w_roles = [(''dev'', ODict [])], w_body = body, w_budget = ONone\<rparr>"

definition demo_config :: "obj list \<Rightarrow> rt_config" where
  "demo_config body =
     \<lparr>rc_workflow = demo_flow body,
      rc_run = ''r'', rc_params = [], rc_registry = demo_registry, rc_issue = None, rc_supervision = ''autonomous'',
      rc_answers = [], rc_retries = [], rc_stakes = [], rc_lib = demo_lib_of None\<rparr>"

lemma demo_config_sel [simp]:
  "rc_workflow (demo_config b) = demo_flow b"
  "w_name (demo_flow b) = ''w''" "w_roles (demo_flow b) = [(''dev'', ODict [])]"
  "w_body (demo_flow b) = b" "w_params (demo_flow b) = []" "w_budget (demo_flow b) = ONone"
  "rc_run (demo_config b) = ''r''" "rc_params (demo_config b) = []"
  "rc_registry (demo_config b) = demo_registry" "rc_answers (demo_config b) = []"
  "rc_retries (demo_config b) = []" "rc_lib (demo_config b) = demo_lib_of None"
  "rc_supervision (demo_config b) = ''autonomous''"
  by (simp_all add: demo_config_def demo_flow_def)

lemma demo_config_ok: "config_ok (demo_config body)"
  by (simp add: config_ok_def demo_lib_of_def ungated_def)

definition demo_workspace :: workspace where
  "demo_workspace = \<lparr>ws_id = ''i'', ws_repo = ''default'', ws_ref = ''b'', ws_base = ''main'', ws_issue = None\<rparr>"

lemma small_nat_str [simp]: "nat_str 0 = ''0''" "nat_str (Suc 0) = ''1''" "nat_str 2 = ''2''"
  by (simp_all add: nat_str.simps digit_char_def)

lemma make_task_env [simp]: "rt_env (make_task cfg ph node p sch env name pf c r d l) = env"
  by (simp add: make_task_def)

lemma loop_iterations_numeral [simp]:
  "loop_iterations i (numeral k) body prev = loop_iterations i (Suc (pred_numeral k)) body prev"
  by (simp only: numeral_eq_Suc)

lemmas run_simps = rt_defs run_step_def workflow_program_def start_pool_def initial_context_def
  execute_expr.simps execute_form.simps evaluate_value.simps evaluate_until_def until_name_def
  execute_loop_def loop_count_def loop_end_def drop_local_bindings_def restore_loop_bindings_def
  rt_park_def Let_def

section \<open>An agent and an exhausted loop\<close>

definition demo_spec :: "obj agent_spec" where
  "demo_spec = AgentSpec (Some ''dev'') (Some ''mechanical'') (OStr ''do it'') (ODict []) ONone None None None
     ONone ONone ONone ONone ONone"

definition demo_task :: "rt_config \<Rightarrow> string \<Rightarrow> rval \<Rightarrow> runtime_task" where
  "demo_task cfg node env =
     make_task cfg None node ''do it'' (JObj []) env ''cheap-coder''
       (snd (demo_profile ''cheap-coder'' ''codex'' [''durable-sessions'', ''schema-validation''] 1))
       ''mechanical'' (OInt 2) None ONone"

lemma demo_agent_program:
  "execute_agent (demo_config b) None path demo_spec =
     rt_bind (rt_call (CWorkspace (rt_workspace_id (demo_config b) (rt_node (demo_config b) path ''agent'' @ ''/workspace''))
       (OStr ''default'') None (rc_issue (demo_config b))))
     (\<lambda>w. run_agent (demo_config b) None (demo_task (demo_config b) (rt_node (demo_config b) path ''agent'') w))"
  by (rule ext, rule ext)
    (simp add: demo_spec_def demo_task_def execute_agent_def agent_to_effect_def parse_deadline_def
      phase_obj_def schema_to_dict_def agent_workspace_def resolve_agent_profile_def role_entry_def profile_result_def
      default_router_policy_def resolved_as_def registry_resolve_def demo_registry_def demo_profile_def resolve_retry_def
      evaluate_value.simps stringify_prompt_value_def rt_bind_def rt_ret_def rt_lift_def Let_def)

text \<open>An agent, then a loop of one iteration whose condition never holds.\<close>

definition parking_body :: "obj list" where
  "parking_body = [OAgent demo_spec, OLoop (OInt 1) (OStr ''never'') [OTime ONone ONone] ONone]"

definition parking_config :: rt_config where
  "parking_config = demo_config parking_body"

definition parking_gate :: gate where
  "parking_gate = loop_exhaustion_gate parking_config ''w/1/loop'' (OStr ''never'') 1 None"

lemma parking_run:
  "\<exists>tr s. pruns (start_pool (rt_run (workflow_program parking_config))) tr
       (s, [PDone (Inr (VResult (VParked [parking_gate] False) [parking_gate] []))]) \<and>
     trace_keys tr = [''w/0/agent'', ''w/1/loop[0]/0/time'']"
proof -
  let ?sched = "[(0, Inr (VWorkspace demo_workspace)), (0, Inr (VDict [])), (0, Inr (VStr ''c'')),
     (0, Inr VNone), (0, Inr VNone), (0, Inr (VInt 7)), (0, Inr VNone), (0, Inr VNone), (0, Inr VNone),
     (0, Inr VNone), (0, Inr VNone)]"
  have "\<exists>tr s. run_schedule ?sched (start_pool (rt_run (workflow_program parking_config))) =
      Some (tr, (s, [PDone (Inr (VResult (VParked [parking_gate] False) [parking_gate] []))])) \<and>
      (\<forall>(i, ev) \<in> set tr. \<forall>cl a. ev = Answered cl a \<longrightarrow> may_answer cl a) \<and>
      trace_keys tr = [''w/0/agent'', ''w/1/loop[0]/0/time'']"
    by (simp add: parking_config_def parking_body_def parking_gate_def run_simps demo_agent_program run_agent_def
        commit_agent_workspace_def demo_task_def trace_keys_def call_key_def ungated_def rt_node_def node_id_def
        path_join_def ends_with_def)
  then show ?thesis using run_schedule_sound by blast
qed

lemma parking_gate_opens:
  "\<exists>tr s ps. pruns (start_pool (rt_run (workflow_program parking_config))) tr (s, ps) \<and>
     (gt_id parking_gate, parking_gate) \<in> set (rs_gates s)"
proof -
  let ?ok = "\<lambda>tr. (\<forall>(i, ev) \<in> set tr. \<forall>cl a. ev = Answered cl a \<longrightarrow> may_answer cl a)"
  let ?sched = "[(0, Inr (VWorkspace demo_workspace)), (0, Inr (VDict [])), (0, Inr (VStr ''c'')),
     (0, Inr VNone), (0, Inr VNone), (0, Inr (VInt 7)), (0, Inr VNone), (0, Inr VNone), (0, Inr VNone),
     (0, Inr VNone)]"
  have "\<exists>tr s ps. run_schedule ?sched (start_pool (rt_run (workflow_program parking_config))) = Some (tr, (s, ps)) \<and>
      ?ok tr \<and>
      (gt_id parking_gate, parking_gate) \<in> set (rs_gates s)"
    by (simp add: parking_config_def parking_body_def parking_gate_def run_simps demo_agent_program run_agent_def
        commit_agent_workspace_def demo_task_def ungated_def rt_node_def node_id_def
        path_join_def ends_with_def)
  then obtain tr s ps where run: "run_schedule ?sched (start_pool (rt_run (workflow_program parking_config))) = Some (tr, (s, ps))"
      and ok: "?ok tr" and gate: "(gt_id parking_gate, parking_gate) \<in> set (rs_gates s)"
    by (elim exE conjE)
  show ?thesis
    by (intro exI conjI) (rule run_schedule_sound [OF run ok], rule gate)
qed

lemma demo_agent_step:
  "\<exists>tr c c' task. pruns (start_pool (rt_run (workflow_program parking_config))) tr c \<and>
     pstep 0 (Answered (CAgent task) (Inr (VDict []))) c c' \<and> rt_env task = VWorkspace demo_workspace \<and>
     at_node task = ''w/0/agent''"
proof -
  let ?a = "Inr (VDict []) :: outcome"
  let ?ok = "\<lambda>tr. (\<forall>(i, ev) \<in> set tr. \<forall>cl a. ev = Answered cl a \<longrightarrow> may_answer cl a)"
  let ?sched = "[(0, Inr (VWorkspace demo_workspace))]"
  have "\<exists>tr s p task. run_schedule ?sched
        (start_pool (rt_run (workflow_program parking_config))) = Some (tr, (s, [p])) \<and> ?ok tr \<and>
      (\<exists>k. p = PCall (CAgent task) k) \<and> rt_env task = VWorkspace demo_workspace \<and> at_node task = ''w/0/agent''"
    by (simp add: parking_config_def parking_body_def run_simps demo_agent_program run_agent_def
        commit_agent_workspace_def demo_task_def rt_node_def node_id_def path_join_def)
  then obtain tr s p task k where run: "run_schedule ?sched (start_pool (rt_run (workflow_program parking_config))) =
        Some (tr, (s, [p]))"
      and ok: "?ok tr" and p: "p = PCall (CAgent task) k"
      and task: "rt_env task = VWorkspace demo_workspace" "at_node task = ''w/0/agent''"
    by (elim exE conjE)
  have "pruns (start_pool (rt_run (workflow_program parking_config))) tr (s, [PCall (CAgent task) k])"
    using run_schedule_sound [OF run ok] by (simp only: p)
  moreover have "pstep 0 (Answered (CAgent task) ?a) (s, [PCall (CAgent task) k]) (s, [PCall (CAgent task) k][0 := k ?a])"
    by (rule pstep.Call) (simp_all add: ungated_def)
  ultimately show ?thesis using task by (intro exI conjI)
qed

section \<open>Two loops side by side\<close>

text \<open>
  Two loops run in parallel. The first binds \<open>a\<close>, runs a command and then refers to \<open>a\<close>. While
  its command runs, the second loop finishes and restores the bindings it found when it began.
\<close>

definition racing_body :: "obj list" where
  "racing_body =
     [OParallel
        [OLoop (OInt 1) (OStr ''never'')
           [OBind (TName ''a'') (OTime ONone ONone), OGate (OStr ''make'') ONone ONone ONone ONone, ORef ''a''] ONone,
         OLoop (OInt 1) (OBool True) [OTime ONone ONone] ONone]
        ONone ONone]"

definition racing_schedule :: "(nat \<times> outcome) list" where
  "racing_schedule =
     [(0, Inr VNone), (0, Inr VNone),
      (1, Inr VNone), (1, Inr VNone), (2, Inr VNone), (2, Inr VNone), (2, Inr (VInt 5)),
      (1, Inr (VInt 5)), (1, Inr VNone), (1, Inr VNone),
      (2, Inr VNone), (1, Inr (VExec 0 ''log'' ''out'' False)), (1, Inr VNone), (1, Inr VNone), (0, Inr VNone)]"

lemma racing_run:
  "\<exists>tr s b. pruns (start_pool (rt_run (workflow_program (demo_config racing_body)))) tr
       (s, [PDone (Inl (RtUndefined ''a'')), PDone (Inl (RtUndefined ''a'')), PDone (Inr b)]) \<and>
     (\<forall>(i, ev) \<in> set tr. \<forall>c a. ev = Answered c a \<longrightarrow> (\<exists>v. a = Inr v))"
proof -
  let ?ok = "\<lambda>tr. (\<forall>(i, ev) \<in> set tr. \<forall>cl a. ev = Answered cl a \<longrightarrow> may_answer cl a)"
  have "\<exists>tr s b. run_schedule racing_schedule (start_pool (rt_run (workflow_program (demo_config racing_body)))) =
      Some (tr, (s, [PDone (Inl (RtUndefined ''a'')), PDone (Inl (RtUndefined ''a'')), PDone (Inr b)])) \<and>
      ?ok tr \<and>
      (\<forall>(i, ev) \<in> set tr. \<forall>c a. ev = Answered c a \<longrightarrow> (\<exists>v. a = Inr v))"
    by (simp add: racing_body_def racing_schedule_def run_simps execute_parallel_def quorum_number_def execute_gate_def bind_value_def
        bind_runtime_value_def bind_all_def look_up_def ungated_def rt_node_def node_id_def path_join_def ends_with_def
        outcomes_of_def returned_def) (rule exI [of _ False], simp)
  then obtain tr s b where run: "run_schedule racing_schedule (start_pool (rt_run (workflow_program (demo_config racing_body)))) =
      Some (tr, (s, [PDone (Inl (RtUndefined ''a'')), PDone (Inl (RtUndefined ''a'')), PDone (Inr b)]))"
      and ok: "?ok tr" and answered: "\<forall>(i, ev) \<in> set tr. \<forall>c a. ev = Answered c a \<longrightarrow> (\<exists>v. a = Inr v)"
    by (elim exE conjE)
  show ?thesis
    by (intro exI conjI) (rule run_schedule_sound [OF run ok], rule answered)
qed

lemma racing_expands: "\<exists>ew. expand (\<lambda>x. ''object'') (demo_flow racing_body) = Inr ew"
proof -
  have "case expand (\<lambda>x. ''object'') (demo_flow racing_body) of Inl e \<Rightarrow> False | Inr ew \<Rightarrow> True"
    by code_simp
  then show ?thesis by (auto split: sum.splits)
qed

section \<open>A loop until a field of a result\<close>

text \<open>The loop should run until the review of the result approves; the review has not approved.\<close>

definition review_body :: "obj list" where
  "review_body =
     [OBind (TName ''review'') (OAgent demo_spec),
      OLoop (OInt 3) (OField (ORef ''review'') (OStr ''approved'')) [OTime ONone ONone] ONone]"

lemma review_expands: "\<exists>ew. expand (\<lambda>x. ''object'') (demo_flow review_body) = Inr ew"
proof -
  have "case expand (\<lambda>x. ''object'') (demo_flow review_body) of Inl e \<Rightarrow> False | Inr ew \<Rightarrow> True"
    by code_simp
  then show ?thesis by (auto split: sum.splits)
qed

text \<open>The loop over a field reference: its first form once, and no condition is looked at.\<close>

definition first_form_only :: "rt_config \<Rightarrow> string option \<Rightarrow> string \<Rightarrow> obj \<Rightarrow> rval rt" where
  "first_form_only cfg ph path form =
     rt_bind (rt_get rs_bindings) (\<lambda>outer.
     rt_bind (rt_get (\<lambda>s. dkeys (rs_bindings s))) (\<lambda>_.
     rt_bind (execute_form cfg ph (path_join (path_join path ''loop[0]'') ''0'') form) (\<lambda>v.
     rt_bind (restore_loop_bindings outer) (\<lambda>_. rt_ret v))))"

lemma rt_bind_ret: "rt_bind (rt_ret x) f = f x"
  by (rule ext, rule ext) (simp add: rt_bind_def rt_ret_def)

lemma condition_not_read:
  "(if parked then m else rt_bind (evaluate_until cfg (OField source f)) (\<lambda>b. if b then m else m')) = m"
  by (cases parked) (simp_all add: evaluate_until_def rt_bind_ret)

lemma loop_forms_until_field:
  "execute_loop_forms cfg ph prefix (OField source f) outer i prev (form # forms) =
     rt_bind (execute_form cfg ph (path_join prefix (nat_str i)) form) (\<lambda>v.
     rt_bind (restore_loop_bindings outer) (\<lambda>_. rt_ret (True, v)))"
  by (simp only: execute_loop_forms.simps condition_not_read)

lemma loop_until_field:
  assumes "0 < m"
  shows "execute_expr cfg ph path (OLoop (OInt m) (OField source f) (form # forms) budget) =
    first_form_only cfg ph path form"
proof (rule ext, rule ext)
  fix k h
  obtain n where n: "nat m = Suc n" using assms by (cases "nat m") auto
  have "execute_expr cfg ph path (OLoop (OInt m) (OField source f) (form # forms) budget) =
      execute_loop cfg ph path (OInt m) (OField source f) (\<lambda>outer i prev.
        rt_bind (execute_form cfg ph (path_join (path_join path (''loop['' @ nat_str i @ '']'')) (nat_str 0)) form)
          (\<lambda>v. rt_bind (restore_loop_bindings outer) (\<lambda>_. rt_ret (True, v))))"
    by (simp only: execute_expr.simps obj.case loop_forms_until_field)
  then show "execute_expr cfg ph path (OLoop (OInt m) (OField source f) (form # forms) budget) k h =
      first_form_only cfg ph path form k h"
    by (simp add: execute_loop_def loop_count_def n first_form_only_def rt_bind_def rt_ret_def rt_lift_def)
qed

end
