(* ===== verification/Runtime_Facts.thy ===== *)
theory Runtime_Facts
  imports Runtime_Demo
begin

text \<open>
  The properties of running workflows (\<open>doeff_conductor/workflow_runtime.py\<close>), for every order of the
  branches' turns and every answer of the handlers.
\<close>

abbreviation run_of :: "rt_config \<Rightarrow> pool" where
  "run_of cfg \<equiv> start_pool (rt_run (workflow_program cfg))"

definition finished :: "pool \<Rightarrow> bool" where
  "finished c \<longleftrightarrow> list_all (\<lambda>p. case p of PDone r \<Rightarrow> True | _ \<Rightarrow> False) (snd c)"

lemma run_ok: "config_ok cfg \<Longrightarrow> pool_ok {} (run_of cfg)"
proof -
  assume "config_ok cfg"
  then have "threads_ok {} {} [rt_run (workflow_program cfg)] (\<lambda>_. UNIV) (\<lambda>_. {})"
    using good_workflow by (intro threads_okI) auto
  then show ?thesis by (auto simp: pool_ok_def start_pool_def initial_context_def state_ok_def open_ids_def)
qed

lemma reachable_ok:
  "config_ok cfg \<Longrightarrow> pruns (run_of cfg) tr c \<Longrightarrow> pool_ok (set (trace_keys tr)) c"
  using pool_runs [OF _ run_ok] by blast

lemma last_unfinished:
  assumes "\<not> finished (s, ps)"
  obtains i where "i < length ps" and "\<And>r. ps ! i \<noteq> PDone r"
    and "\<And>j. i < j \<Longrightarrow> j < length ps \<Longrightarrow> \<exists>r. ps ! j = PDone r"
proof -
  let ?B = "{i. i < length ps \<and> (\<forall>r. ps ! i \<noteq> PDone r)}"
  have "?B \<noteq> {}"
  proof
    assume none: "?B = {}"
    have "case ps ! i of PDone r \<Rightarrow> True | _ \<Rightarrow> False" if "i < length ps" for i
      using none that by (cases "ps ! i") auto
    then show False using assms by (simp add: finished_def list_all_length)
  qed
  then have "Max ?B \<in> ?B" by (intro Max_in) auto
  moreover have "\<exists>r. ps ! j = PDone r" if "Max ?B < j" "j < length ps" for j
  proof (rule ccontr)
    assume "\<nexists>r. ps ! j = PDone r"
    then have "j \<in> ?B" using that(2) by blast
    then have "j \<le> Max ?B" by (intro Max_ge) auto
    then show False using that(1) by simp
  qed
  ultimately show thesis using that by blast
qed

lemma progress:
  assumes "pool_ok U c" and "\<not> finished c"
  shows "\<exists>i ev c'. pstep i ev c c'"
proof -
  obtain s ps where c: "c = (s, ps)" by force
  from assms(1) obtain S T where ok: "threads_ok (open_ids s) U ps S T" by (auto simp: pool_ok_def c)
  from assms(2) obtain i where i: "i < length ps" and busy: "\<And>r. ps ! i \<noteq> PDone r"
      and later: "\<And>j. i < j \<Longrightarrow> j < length ps \<Longrightarrow> \<exists>r. ps ! j = PDone r"
    unfolding c by (rule last_unfinished) blast
  show ?thesis
  proof (cases "ps ! i")
    case (PDone r)
    then show ?thesis using busy by blast
  next
    case (PCall cl k)
    have "may_answer cl (Inl (RtBase []))" by simp
    then show ?thesis using pstep.Call [OF i PCall] c by blast
  next
    case (PLook f)
    then show ?thesis using pstep.Look [OF i PLook prod.collapse [symmetric]] c by blast
  next
    case (PSpawn p k)
    then show ?thesis using pstep.Spawn [OF i PSpawn] c by blast
  next
    case (PGather ts k)
    have tasks: "\<exists>r. ps ! t = PDone r \<and> t < length ps" if "t \<in> set ts" for t
      using threads_okD(1,2) [OF ok i] PGather that later [of t] by auto
    show ?thesis
    proof (cases "\<exists>t \<in> set ts. \<exists>e. ps ! t = PDone (Inl e)")
      case True
      then show ?thesis using tasks pstep.Failed [OF i PGather, of _ _ s] c by blast
    next
      case False
      then have "\<exists>v. ps ! t = PDone (Inr v) \<and> t < length ps" if "t \<in> set ts" for t
        using tasks [OF that] that by (metis sum.exhaust)
      then obtain val where val: "\<And>t. t \<in> set ts \<Longrightarrow> ps ! t = PDone (Inr (val t)) \<and> t < length ps" by metis
      then have "gathered ps ts (map val ts)" by (simp add: gathered_def)
      then show ?thesis using pstep.Gather [OF i PGather, of _ s] c by blast
    qed
  qed
qed

text \<open>A program that only looks at the context, run to its end.\<close>

primrec look_run :: "prog \<Rightarrow> rt_state \<Rightarrow> (outcome \<times> rt_state) option" where
  "look_run (PDone r) s = Some (r, s)"
| "look_run (PCall c k) s = None"
| "look_run (PLook f) s = (case map_prod id look_run (f s) of (s', run) \<Rightarrow> run s')"
| "look_run (PSpawn p k) s = None"
| "look_run (PGather ts k) s = None"

section \<open>Properties\<close>

text \<open>
  C19: What a run is parked on can be answered. If a run returns a parked value, whatever branches,
  joins and loops it came through, then the value has gates and every gate of it is among the open
  gates of the result, by id: the overseer always sees a gate to answer, and no subtree waits for a
  gate that nobody has opened.
\<close>

theorem parked_runs_have_open_gates:
  assumes "config_ok cfg" and "pruns (run_of cfg) tr (s, ps)"
    and "ps ! 0 = PDone (Inr (VResult (VParked gs halt) open_gates losses))"
  shows "gs \<noteq> [] \<and> gt_id ` set gs \<subseteq> gt_id ` set open_gates"
proof -
  have "ps \<noteq> []"
  proof -
    have "snd c \<noteq> []" if "pruns (run_of cfg) tr c" for tr c
      using that by (induction rule: pruns.induct) (auto simp: start_pool_def elim!: pstep.cases)
    from this [OF assms(2)] show ?thesis by simp
  qed
  moreover obtain S T where "threads_ok (open_ids s) (set (trace_keys tr)) ps S T"
    using reachable_ok [OF assms(1,2)] by (auto simp: pool_ok_def)
  ultimately have "good (ps ! 0) (open_ids s) (S 0) (T 0)" by (intro threads_okD(1)) auto
  then show ?thesis by (simp add: assms(3) outcome_known_def)
qed

theorem parked_runs_have_open_gates_witness:
  "\<exists>tr s. pruns (run_of parking_config) tr (s, [PDone (Inr (VResult (VParked [parking_gate] False) [parking_gate] []))]) \<and>
     gt_id parking_gate \<in> gt_id ` set [parking_gate]"
proof -
  obtain tr s where run: "pruns (run_of parking_config) tr
      (s, [PDone (Inr (VResult (VParked [parking_gate] False) [parking_gate] []))])"
    using parking_run by blast
  have ok: "config_ok parking_config" unfolding parking_config_def by (rule demo_config_ok)
  have "gt_id ` set [parking_gate] \<subseteq> gt_id ` set [parking_gate]"
    using parked_runs_have_open_gates [OF ok run] by simp
  then show ?thesis using run by auto
qed

text \<open>
  Every gate a run opens can be decided. In every state of every run, each open gate is stored
  under its own id, offers to abort and offers only outcomes the overseer accepts; and what the run
  writes for the overseer reads back as the same gate.
\<close>

theorem open_gates_are_read_back:
  assumes "config_ok cfg" and "pruns (run_of cfg) tr (s, ps)" and "(i, g) \<in> set (rs_gates s)"
  shows "gt_id g = i \<and> ''abort'' \<in> set (map go_name (gt_options g)) \<and> gate_from_dict sr (gate_to_dict g) = Inr g"
proof -
  have "state_ok s" using reachable_ok [OF assms(1,2)] by (simp add: pool_ok_def)
  then have "gt_id g = i" "answerable g" using assms(3) unfolding state_ok_def by blast+
  then show ?thesis using gate_roundtrip by (simp add: answerable_def)
qed

theorem open_gates_are_read_back_witness:
  "\<exists>tr s ps. pruns (run_of parking_config) tr (s, ps) \<and> (gt_id parking_gate, parking_gate) \<in> set (rs_gates s) \<and>
     gate_from_dict (\<lambda>v. []) (gate_to_dict parking_gate) = Inr parking_gate"
proof -
  obtain tr s ps where run: "pruns (run_of parking_config) tr (s, ps)"
      and g: "(gt_id parking_gate, parking_gate) \<in> set (rs_gates s)"
    using parking_gate_opens by blast
  have ok: "config_ok parking_config" unfolding parking_config_def by (rule demo_config_ok)
  show ?thesis using run g open_gates_are_read_back [OF ok run g] by blast
qed

text \<open>
  C20: Journalled calls are told apart by their node ids. No two calls of a run to an agent, a clock or
  a random source carry the same node id, across branches, loop iterations and phases: the
  journal and the session names, which are keyed by it, never serve one node's result to another,
  nor one iteration's to the next.
\<close>

theorem journalled_calls_are_told_apart:
  assumes "config_ok cfg" and "pruns (run_of cfg) tr c"
  shows "distinct (trace_keys tr)"
  using pool_runs [OF assms(2) run_ok [OF assms(1)]] by blast

theorem journalled_calls_are_told_apart_witness:
  "\<exists>tr c. pruns (run_of parking_config) tr c \<and> trace_keys tr = [''w/0/agent'', ''w/1/loop[0]/0/time''] \<and>
     distinct (trace_keys tr)"
proof -
  obtain tr c where run: "pruns (run_of parking_config) tr c" and keys: "trace_keys tr = [''w/0/agent'', ''w/1/loop[0]/0/time'']"
    using parking_run by blast
  have ok: "config_ok parking_config" unfolding parking_config_def by (rule demo_config_ok)
  show ?thesis using run keys journalled_calls_are_told_apart [OF ok run] by blast
qed

text \<open>
  C21: An agent's work is committed before anything uses it. Whenever a handler answers an agent task
  with a result, the very next thing that branch does is to commit the workspace the agent worked
  in; it cannot return, bind the result or start another node before.
\<close>

theorem agent_work_is_committed:
  assumes "config_ok cfg" and "pruns (run_of cfg) tr c" and "pstep i (Answered (CAgent task) (Inr v)) c c'"
    and "rt_env task \<noteq> VNone"
  shows "\<exists>k. snd c' ! i = PCall (CCommit (rt_env task) (commit_message (at_node task))) k"
proof -
  obtain s ps where c: "c = (s, ps)" by force
  obtain S T where "threads_ok (open_ids s) (set (trace_keys tr)) ps S T"
    using reachable_ok [OF assms(1,2)] by (auto simp: pool_ok_def c)
  moreover obtain k where i: "i < length ps" "ps ! i = PCall (CAgent task) k" and c': "c' = (s, ps[i := k (Inr v)])"
    using assms(3) unfolding c by (cases rule: pstep.cases) auto
  ultimately have "commits (CAgent task) k" using threads_okD(1) by fastforce
  then show ?thesis using assms(4) i c' by (auto simp: commits_def)
qed

theorem agent_work_is_committed_witness:
  "\<exists>tr c c' task k. pruns (run_of parking_config) tr c \<and> pstep 0 (Answered (CAgent task) (Inr (VDict []))) c c' \<and>
     snd c' ! 0 = PCall (CCommit (VWorkspace demo_workspace) (commit_message ''w/0/agent'')) k"
proof -
  obtain tr c c' task where run: "pruns (run_of parking_config) tr c"
      and step: "pstep 0 (Answered (CAgent task) (Inr (VDict []))) c c'"
      and task: "rt_env task = VWorkspace demo_workspace" "at_node task = ''w/0/agent''"
    using demo_agent_step by blast
  have ok: "config_ok parking_config" unfolding parking_config_def by (rule demo_config_ok)
  have "\<exists>k. snd c' ! 0 = PCall (CCommit (rt_env task) (commit_message (at_node task))) k"
    by (rule agent_work_is_committed [OF ok run step]) (simp add: task)
  then obtain k where "snd c' ! 0 = PCall (CCommit (VWorkspace demo_workspace) (commit_message ''w/0/agent'')) k"
    unfolding task by (elim exE)
  then show ?thesis by (intro exI conjI) (rule run, rule step)
qed

text \<open>
  C22: A run never gets stuck. From every point of every run, as long as some branch has not ended,
  some branch can take a step once its call is answered; so the run can always be brought to its end,
  where the workflow and every branch it spawned have returned or raised. A gather in particular
  never waits for a task that was not spawned, nor for one that waits for it.
\<close>

theorem runs_can_always_finish:
  assumes "config_ok cfg" and "pruns (run_of cfg) tr c"
  shows "\<exists>tr' c'. pruns (run_of cfg) (tr @ tr') c' \<and> finished c'"
proof -
  define M where "M = mset (snd c)"
  show ?thesis
    using program_order_wf assms(2) M_def
  proof (induction M arbitrary: tr c rule: wf_induct_rule)
    case (less M)
    show ?case
    proof (cases "finished c")
      case True
      then show ?thesis using less.prems(1) by (intro exI [of _ "[]"] exI [of _ c]) simp
    next
      case False
      obtain i ev c1 where step: "pstep i ev c c1"
        using progress [OF reachable_ok [OF assms(1) less.prems(1)] False] by blast
      have "(mset (snd c1), M) \<in> program_order"
        using step_decreases [of i ev "fst c" "snd c" "fst c1" "snd c1"] step less.prems(2) by simp
      then obtain tr' c' where "pruns (run_of cfg) ((tr @ [(i, ev)]) @ tr') c'" "finished c'"
        using less.IH [OF _ pruns.Step [OF less.prems(1) step] refl] by blast
      then show ?thesis by (intro exI [of _ "(i, ev) # tr'"] exI [of _ c']) simp
    qed
  qed
qed

theorem runs_can_always_finish_witness:
  "\<exists>tr c. pruns (run_of (demo_config racing_body)) tr c \<and> finished c"
proof -
  have "\<exists>tr c. pruns (run_of (demo_config racing_body)) ([] @ tr) c \<and> finished c"
    by (rule runs_can_always_finish [OF demo_config_ok pruns.Start])
  then show ?thesis by blast
qed

text \<open>
  C23: A quorum join counts its branches correctly. Given what its branches came to, each a success or
  a failure, the join returns all of them when enough succeeded or the overseer has answered its
  gate with \<open>proceed\<close>: then every failed branch is recorded as a tolerated loss, none twice, no
  gate is opened, and the projection \<open>oks\<close> gives the values of the successful branches in order. In
  every other case it parks on its gate, which offers to proceed, and records no loss.
\<close>

theorem quorum_joins_resolve:
  assumes "\<forall>r \<in> set rs. is_ok r \<or> is_err r"
  shows "\<exists>v s'. look_run (rt_run (decide_quorum cfg ph path q n rs)) s = Some (Inr v, s') \<and>
    (if q \<le> int (length (filter is_ok rs)) \<or> dget (rc_answers cfg) (quorum_gate_id cfg path) = Some ''proceed''
     then v = VQuorum rs q n \<and> rs_gates s' = rs_gates s \<and>
       (\<exists>ls. rs_losses s' = rs_losses s @ ls \<and> length ls + length (filter is_ok rs) = length rs \<and>
          map (\<lambda>l. VErr (ls_error l) (ls_type l) (ls_branch l)) ls = filter is_err rs) \<and>
       (\<exists>xs. oks_of v = VTuple xs \<and> list_all2 (\<lambda>x r. \<exists>i. r = VOk x i) xs (filter is_ok rs))
     else \<exists>g. v = VParked [g] False \<and> dget (rs_gates s') (quorum_gate_id cfg path) = Some g \<and>
       gt_id g = quorum_gate_id cfg path \<and> ''proceed'' \<in> set (map go_name (gt_options g)) \<and> rs_losses s' = rs_losses s)"
proof -
  let ?ls = "tolerated_losses rs q n path"
  have losses: "length ?ls + length (filter is_ok rs) = length rs"
      "map (\<lambda>l. VErr (ls_error l) (ls_type l) (ls_branch l)) ?ls = filter is_err rs"
    using assms by (induction rs) (auto simp: tolerated_losses_def is_ok_def is_err_def split: rval.splits)
  have oks: "\<exists>xs. oks_of (VQuorum rs q n) = VTuple xs \<and> list_all2 (\<lambda>x r. \<exists>i. r = VOk x i) xs (filter is_ok rs)"
    by (induction rs) (auto simp: oks_of_def is_ok_def split: rval.splits)
  show ?thesis
    using losses oks
    by (auto simp: decide_quorum_def Let_def rt_defs rt_park_def record_tolerated_losses_def
        quorum_not_met_gate_def gate_option_of_def)
qed

theorem quorum_joins_resolve_witness:
  "\<exists>s'. look_run (rt_run (decide_quorum (demo_config []) None ''0'' 1 2 [VErr ''boom'' ''ValueError'' 0, VOk (VInt 4) 1]))
       initial_context = Some (Inr (VQuorum [VErr ''boom'' ''ValueError'' 0, VOk (VInt 4) 1] 1 2), s') \<and>
     length (rs_losses s') = 1"
proof -
  let ?rs = "[VErr ''boom'' ''ValueError'' 0, VOk (VInt 4) 1]"
  have "\<forall>r \<in> set ?rs. is_ok r \<or> is_err r" by (simp add: is_ok_def is_err_def)
  from quorum_joins_resolve [OF this, of "demo_config []" None "''0''" 1 2 initial_context] show ?thesis
    by (auto simp: is_ok_def is_err_def initial_context_def)
qed

text \<open>
  A loop whose condition is a field of a result ends after one form. Expansion accepts such a
  condition and checks its references, but the runtime only asks whether the reference, as a Python
  object, is true, which it always is: the loop runs the first form of its body once and returns
  it, whatever the field holds and however many iterations it may make.
\<close>

theorem field_conditions_end_loops_at_once:
  assumes "0 < m"
  shows "execute_expr cfg ph path (OLoop (OInt m) (OField source f) (form # forms) budget) =
    first_form_only cfg ph path form"
  by (rule loop_until_field [OF assms])

theorem field_conditions_end_loops_at_once_witness:
  "(\<exists>ew. expand (\<lambda>x. ''object'') (demo_flow review_body) = Inr ew) \<and>
   execute_expr (demo_config review_body) None ''1''
     (OLoop (OInt 3) (OField (ORef ''review'') (OStr ''approved'')) [OTime ONone ONone] ONone) =
   first_form_only (demo_config review_body) None ''1'' (OTime ONone ONone)"
  using review_expands field_conditions_end_loops_at_once [of 3 "demo_config review_body" None "''1''"] by simp

text \<open>
  Loops that run side by side lose each other's bindings. A loop restores, when it ends, the
  bindings it found when it began, for the whole run. In this workflow, which expansion accepts and
  whose calls all succeed, the first branch has bound \<open>a\<close> and waits for its command when the second
  branch's loop ends; the reference to \<open>a\<close> that follows then fails, and with it the run.
\<close>

theorem parallel_loops_lose_bindings:
  "(\<exists>ew. expand (\<lambda>x. ''object'') (rc_workflow (demo_config racing_body)) = Inr ew) \<and>
   (\<exists>tr s ps. pruns (run_of (demo_config racing_body)) tr (s, ps) \<and>
      list_all (\<lambda>(i, ev). case ev of Answered c a \<Rightarrow> (case a of Inr v \<Rightarrow> True | Inl e \<Rightarrow> False) | Silent \<Rightarrow> True) tr \<and>
      ps ! 0 = PDone (Inl (RtUndefined ''a'')))"
proof -
  obtain tr s b where run: "pruns (run_of (demo_config racing_body)) tr
        (s, [PDone (Inl (RtUndefined ''a'')), PDone (Inl (RtUndefined ''a'')), PDone (Inr b)])"
      and ok: "\<forall>(i, ev) \<in> set tr. \<forall>c a. ev = Answered c a \<longrightarrow> (\<exists>v. a = Inr v)"
    using racing_run by blast
  have "list_all (\<lambda>(i, ev). case ev of Answered c a \<Rightarrow> (case a of Inr v \<Rightarrow> True | Inl e \<Rightarrow> False) | Silent \<Rightarrow> True) tr"
    unfolding list_all_iff using ok by (fastforce split: event.split sum.split)
  moreover have "[PDone (Inl (RtUndefined ''a'')), PDone (Inl (RtUndefined ''a'')), PDone (Inr b)] ! 0 =
      PDone (Inl (RtUndefined ''a''))"
    by simp
  ultimately have "\<exists>tr s ps. pruns (run_of (demo_config racing_body)) tr (s, ps) \<and>
      list_all (\<lambda>(i, ev). case ev of Answered c a \<Rightarrow> (case a of Inr v \<Rightarrow> True | Inl e \<Rightarrow> False) | Silent \<Rightarrow> True) tr \<and>
      ps ! 0 = PDone (Inl (RtUndefined ''a''))"
    using run by (intro exI conjI)
  then show ?thesis using racing_expands by (intro conjI) simp_all
qed

lemma same_ends: "length d = length d' \<Longrightarrow> xs @ d = ys @ d' \<Longrightarrow> d = d'"
  by simp

text \<open>
  Workspaces of different nodes are different. The identity of a workspace, from which its branch
  and its directory are named, is the same for two nodes only if they are the same node of the same
  run: run ids or node ids that differ only in punctuation, or beyond the characters the slug
  keeps, do not share a workspace. The digest is assumed to tell the two inputs apart.
\<close>

theorem workspaces_of_different_nodes_differ:
  assumes "\<And>x. 8 \<le> length (sha x)"
    and "take 8 (sha (run1 @ newline @ node1)) = take 8 (sha (run2 @ newline @ node2)) \<Longrightarrow>
      run1 @ newline @ node1 = run2 @ newline @ node2"
    and "CHR 0x0A \<notin> set run1" and "CHR 0x0A \<notin> set run2"
  shows "workspace_identity sha run1 node1 = workspace_identity sha run2 node2 \<longleftrightarrow> run1 = run2 \<and> node1 = node2"
proof
  assume "workspace_identity sha run1 node1 = workspace_identity sha run2 node2"
  then have "take 8 (sha (run1 @ newline @ node1)) = take 8 (sha (run2 @ newline @ node2))"
    using same_ends [of "take 8 (sha (run1 @ newline @ node1))" "take 8 (sha (run2 @ newline @ node2))"]
      assms(1) by (simp add: workspace_identity_def Let_def newline_def flip: append_assoc append_Cons)
  then have "run1 @ CHR 0x0A # node1 = run2 @ CHR 0x0A # node2"
    using assms(2) by (simp add: newline_def)
  then show "run1 = run2 \<and> node1 = node2"
    using no_digit_split [OF _ assms(3,4), of node1 node2] by simp
qed simp

theorem workspaces_of_different_nodes_differ_witness:
  "workspace_identity (\<lambda>s. rev s @ ''00000000'') ''run-1'' ''w/0/agent/workspace'' \<noteq>
   workspace_identity (\<lambda>s. rev s @ ''00000000'') ''run.1'' ''w/0/agent/workspacf''"
  using workspaces_of_different_nodes_differ
    [of "\<lambda>s. rev s @ ''00000000''" "''run-1''" "''w/0/agent/workspace''" "''run.1''" "''w/0/agent/workspacf''"]
  by (simp add: newline_def)

end
