(* ===== verification/Json_Pretty.thy ===== *)
theory Json_Pretty
  imports Json
begin

text \<open>
  \<open>json.dumps\<close> with \<open>indent=2\<close>, as the conductor writes its state files
  (\<open>doeff_conductor/overseer.py\<close>, \<open>api.py\<close>), and its round trip through \<open>json.loads\<close>.
\<close>

definition line_indent :: "nat \<Rightarrow> string" where
  "line_indent l = CHR 0x0A # replicate (2 * l) (CHR 0x20)"

fun dump_indent :: "nat \<Rightarrow> json \<Rightarrow> string" where
  "dump_indent l (JList vs) =
     (if vs = [] then ''[]''
      else ''['' @ line_indent (Suc l) @ str_join ('','' @ line_indent (Suc l)) (map (dump_indent (Suc l)) vs) @
        line_indent l @ '']'')"
| "dump_indent l (JObj d) =
     (if d = [] then ''{}''
      else ''{'' @ line_indent (Suc l) @
        str_join ('','' @ line_indent (Suc l)) (map (\<lambda>(k, v). dump_str k @ '': '' @ dump_indent (Suc l) v) d) @
        line_indent l @ ''}'')"
| "dump_indent l v = dump v"

definition dumps_indent :: "json \<Rightarrow> string" where
  "dumps_indent v = dump_indent 0 (sort_keys v)"

section \<open>Round trip\<close>

abbreviation reads_as :: "json \<Rightarrow> string \<Rightarrow> bool" where
  "reads_as v t \<equiv> starts_value t \<and> (\<forall>n r. stops r \<longrightarrow> length t \<le> n \<longrightarrow> p_value n (t @ r) = Some (v, r))"

lemma skip_indent [simp]: "skip_ws (line_indent l @ s) = skip_ws s"
proof -
  have "dropWhile is_ws (replicate k (CHR 0x20) @ s) = dropWhile is_ws s" for k
    by (induction k) (simp_all add: is_ws_def)
  then show ?thesis by (simp add: skip_ws_def line_indent_def) (simp add: is_ws_def)
qed

lemma stops_indent [simp]: "stops (line_indent l @ s)"
  by (simp add: stops_def line_indent_def digit_def code_def)

lemma skip_space [simp]: "skip_ws (CHR 0x20 # s) = skip_ws s"
  by (simp add: skip_ws_def is_ws_def)

lemma indent_nonempty [simp]: "0 < length (line_indent l)"
  by (simp add: line_indent_def)

lemma starts_length_text: "starts_value t \<Longrightarrow> 1 \<le> length t"
  by (auto simp: starts_value_def)

lemma join_starts: "starts_value t \<Longrightarrow> starts_value (str_join sep (t # ts) @ r)"
  by (cases ts) (auto simp: starts_value_def)

lemma pretty_items_read:
  assumes "vs \<noteq> []" and "list_all2 reads_as vs ts"
    and "length (str_join ('','' @ line_indent l) ts) < n"
  shows "p_items n (str_join ('','' @ line_indent l) ts @ line_indent l' @ CHR '']'' # r) = Some (vs, r)"
  using assms
proof (induction vs arbitrary: n ts)
  case (Cons v vs)
  obtain t ts' where ts: "ts = t # ts'" "reads_as v t" "list_all2 reads_as vs ts'"
    using Cons.prems(2) by (auto simp: list_all2_Cons1)
  from Cons.prems(3) obtain m where n: "n = Suc m" by (cases n) auto
  show ?case
  proof (cases ts')
    case Nil
    then show ?thesis using ts Cons.prems(3) n by simp
  next
    case (Cons u us)
    let ?rest = "str_join ('','' @ line_indent l) ts'"
    have len: "length t \<le> m" "length ?rest < m"
      using Cons.prems(3) n ts(1) Cons starts_length_text [of t] ts(2) by auto
    have "vs \<noteq> []" using ts(3) Cons by auto
    from Cons.IH [OF this ts(3) len(2)]
    have IH: "p_items m (?rest @ line_indent l' @ CHR '']'' # r) = Some (vs, r)" .
    have "starts_value (?rest @ line_indent l' @ CHR '']'' # r)"
      using ts(3) Cons join_starts [of u "'','' @ line_indent l" us] by (auto simp: list_all2_Cons2)
    with ts(2) len IH n ts(1) Cons show ?thesis
      by (simp add: skip_starts)
  qed
qed simp

abbreviation pretty_member :: "string \<times> string \<Rightarrow> string" where
  "pretty_member \<equiv> \<lambda>(k, t). dump_str k @ '': '' @ t"

lemma pretty_member_read:
  assumes "reads_as v t" and "length t \<le> n" and "stops s"
  shows "p_members (Suc n) (pretty_member (k, t) @ s) =
    (case skip_ws s of [] \<Rightarrow> None
     | c # s5 \<Rightarrow> if c = CHR ''}'' then Some ([(k, v)], s5)
                else if c = CHR '','' then map_option (map_prod (Cons (k, v)) id) (p_members n (skip_ws s5)) else None)"
  using assms p_string_quote [of k "CHR '':'' # CHR 0x20 # t @ s"] skip_starts [OF starts_append, of t s]
  by (simp add: dump_str_def)

lemma pretty_members_read:
  assumes "d \<noteq> []" and "list_all2 (\<lambda>(k, v) (k', t). k = k' \<and> reads_as v t) d ts"
    and "length (str_join ('','' @ line_indent l) (map pretty_member ts)) < n"
  shows "p_members n (str_join ('','' @ line_indent l) (map pretty_member ts) @ line_indent l' @ CHR ''}'' # r) = Some (d, r)"
  using assms
proof (induction d arbitrary: n ts)
  case (Cons kv d)
  obtain k v where kv: "kv = (k, v)" by (cases kv)
  obtain t ts' where ts: "ts = (k, t) # ts'" "reads_as v t" "list_all2 (\<lambda>(k, v) (k', t). k = k' \<and> reads_as v t) d ts'"
    using Cons.prems(2) kv by (auto simp: list_all2_Cons1)
  from Cons.prems(3) obtain m where n: "n = Suc m" by (cases n) auto
  show ?case
  proof (cases ts')
    case Nil
    have "length t \<le> m" using Cons.prems(3) n ts(1) Nil by simp
    from pretty_member_read [OF ts(2) this, of "line_indent l' @ CHR ''}'' # r" k] show ?thesis
      using n kv ts Nil by (simp del: p_members.simps)
  next
    case (Cons u us)
    let ?rest = "str_join ('','' @ line_indent l) (map pretty_member ts')"
    have len: "length t \<le> m" "length ?rest < m"
      using Cons.prems(3) n ts(1) Cons by (auto simp: dump_str_def)
    have "d \<noteq> []" using ts(3) Cons by auto
    from Cons.IH [OF this ts(3) len(2)]
    have IH: "p_members m (?rest @ line_indent l' @ CHR ''}'' # r) = Some (d, r)" .
    have first: "starts_value (?rest @ line_indent l' @ CHR ''}'' # r)"
      using Cons dump_str_starts by (cases us; cases u) auto
    have "str_join ('','' @ line_indent l) (map pretty_member ts) @ line_indent l' @ CHR ''}'' # r =
        pretty_member (k, t) @ CHR '','' # line_indent l @ ?rest @ line_indent l' @ CHR ''}'' # r"
      using Cons ts(1) by simp
    with pretty_member_read [OF ts(2) len(1), of "CHR '','' # line_indent l @ ?rest @ line_indent l' @ CHR ''}'' # r" k]
    show ?thesis
      using n kv IH first by (simp add: skip_starts del: p_members.simps split del: if_split)
  qed
qed simp

lemma atom_reads: "plain v \<Longrightarrow> dump_indent l v = dump v \<Longrightarrow> reads_as v (dump_indent l v)"
  using reads_plain [of v] dump_starts [of v "[]"] by simp

lemma dump_indent_reads: "plain v \<Longrightarrow> reads_as v (dump_indent l v)"
proof (induction v arbitrary: l)
  case (JList vs)
  show ?case
  proof (cases "vs = []")
    case False
    let ?ts = "map (dump_indent (Suc l)) vs"
    let ?body = "str_join ('','' @ line_indent (Suc l)) ?ts"
    have all: "list_all2 reads_as vs ?ts"
      using JList by (auto simp: list_all2_conv_all_nth list_all_length)
    have start: "starts_value (?body @ s)" for s
      using False all join_starts [of "dump_indent (Suc l) (hd vs)" _ "map (dump_indent (Suc l)) (tl vs)"]
      by (cases vs) auto
    have "p_value n (dump_indent l (JList vs) @ r) = Some (JList vs, r)"
      if n: "length (dump_indent l (JList vs)) \<le> n" for n r
    proof -
      obtain m where m: "n = Suc m" "length ?body < m" using n False by (cases n) (auto simp: line_indent_def)
      show ?thesis
        using pretty_items_read [OF False all m(2), of l r] start [of "line_indent l @ CHR '']'' # r"]
          not_closing [OF start] False m(1) by (simp add: skip_starts)
    qed
    then show ?thesis using False by (auto simp: starts_value_def is_ws_def)
  next
    case True
    then have "dump_indent l (JList vs) = dump (JList vs)" by simp
    then show ?thesis by (rule atom_reads [OF JList.prems])
  qed
next
  case (JObj d)
  show ?case
  proof (cases "d = []")
    case False
    let ?ts = "map (map_prod id (dump_indent (Suc l))) d"
    let ?body = "str_join ('','' @ line_indent (Suc l)) (map pretty_member ?ts)"
    have all: "list_all2 (\<lambda>(k, v) (k', t). k = k' \<and> reads_as v t) d ?ts"
    proof (rule list_all2_all_nthI)
      fix i
      assume i: "i < length d"
      obtain k v where kv: "d ! i = (k, v)" by force
      then have "(k, v) \<in> set d" using i by (metis nth_mem)
      then have "reads_as v (dump_indent (Suc l) v)"
        using JObj.prems by (intro JObj.IH) (auto simp: list_all_iff snds.simps)
      then show "(case d ! i of (k, v) \<Rightarrow> \<lambda>(k', t). k = k' \<and> reads_as v t) (?ts ! i)"
        using i kv by simp
    qed simp
    have members: "map (\<lambda>(k, v). dump_str k @ '': '' @ dump_indent (Suc l) v) d = map pretty_member ?ts"
      by auto
    have start: "starts_value (?body @ s)" for s
      using False dump_str_starts by (cases d; cases "tl d") (auto split: prod.split)
    have "p_value n (dump_indent l (JObj d) @ r) = Some (JObj d, r)"
      if n: "length (dump_indent l (JObj d)) \<le> n" for n r
    proof -
      obtain m where m: "n = Suc m" "length ?body < m"
        using n False unfolding dump_indent.simps members by (cases n) (auto simp: line_indent_def)
      have distinct: "distinct (map fst d)" using JObj.prems by simp
      show ?thesis
        using pretty_members_read [OF False all m(2), of l r] start [of "line_indent l @ CHR ''}'' # r"]
          not_closing [OF start] False m(1) fold_dput_distinct [of "[]" d] distinct
        unfolding dump_indent.simps members by (simp add: skip_starts)
    qed
    then show ?thesis using False by (auto simp: starts_value_def is_ws_def)
  next
    case True
    then have "dump_indent l (JObj d) = dump (JObj d)" by simp
    then show ?thesis by (rule atom_reads [OF JObj.prems])
  qed
qed (rule atom_reads; simp)+

lemma loads_dumps_indent:
  assumes "plain v"
  shows "loads (dumps_indent v) = Some (sort_keys v)"
proof -
  have reads: "reads_as (sort_keys v) (dumps_indent v)"
    unfolding dumps_indent_def by (rule dump_indent_reads [OF plain_sort_keys [OF assms]])
  then have "p_value (Suc (length (dumps_indent v))) (dumps_indent v @ []) = Some (sort_keys v, [])"
    by (elim conjE allE [of _ "Suc (length (dumps_indent v))"] allE [of _ "[]"]) (simp add: stops_def del: p_value.simps)
  then show ?thesis
    using reads by (simp add: loads_def skip_starts skip_ws_def [of "[]"] del: p_value.simps)
qed

end
