(* ===== verification/Overseer.thy ===== *)
theory Overseer
  imports Gates Json_Pretty
begin

text \<open>
  The overseer's view of a run (\<open>doeff_conductor/overseer.py\<close>): its events and open gates in
  \<open>run-state.json\<close>, the answers in the gate-answer journal, and the operations that open, answer and
  close gates. The directory of a run is the record of its two files; \<open>clock\<close> gives the time at
  which the event with a sequence number is made. \<open>sr\<close> is \<open>str\<close> of a JSON value that is not a
  string and \<open>fi\<close> is \<open>int\<close> of a float.
\<close>

section \<open>Events and run states\<close>

record run_event =
  rv_sequence :: int
  rv_workflow :: string
  rv_node :: string
  rv_phase :: "string option"
  rv_status :: string
  rv_message :: string
  rv_kind :: "string option"
  rv_at :: string

record run_state =
  rn_workflow :: string
  rn_name :: string
  rn_events :: "run_event list"
  rn_gates :: "gate list"
  rn_supervision :: string
  rn_answered :: "(string, string) dict"

datatype (plugins only: code size) overseer_error =
  RunNotFound string | RunInvalidJson | RunNotObject | BadEvents | BadGates | BadAnswered | BadSequence json
  | RunField gate_error | GateNotOpen string | NoSuchOption string string | AnswerJournal journal_error

definition event_to_dict :: "run_event \<Rightarrow> payload" where
  "event_to_dict e =
     [(''sequence'', JInt (rv_sequence e)), (''workflow_id'', JStr (rv_workflow e)), (''node_id'', JStr (rv_node e)),
      (''phase'', json_opt (rv_phase e)), (''status'', JStr (rv_status e)), (''message'', JStr (rv_message e)),
      (''terminal_kind'', json_opt (rv_kind e)), (''at'', JStr (rv_at e))]"

definition run_field :: "gate_error + 'a \<Rightarrow> overseer_error + 'a" where
  "run_field r = (case r of Inl e \<Rightarrow> Inl (RunField e) | Inr x \<Rightarrow> Inr x)"

definition text_field :: "(json \<Rightarrow> string) \<Rightarrow> payload \<Rightarrow> string \<Rightarrow> overseer_error + string" where
  "text_field sr d k = rbind (run_field (field d k)) (\<lambda>v. Inr (py_str sr v))"

text \<open>\<open>data.get(k)\<close>, as text unless it is \<open>None\<close>\<close>

definition text_or_null :: "(json \<Rightarrow> string) \<Rightarrow> payload \<Rightarrow> string \<Rightarrow> string option" where
  "text_or_null sr d k = (case dget d k of None \<Rightarrow> None | Some JNull \<Rightarrow> None | Some v \<Rightarrow> Some (py_str sr v))"

definition text_default :: "(json \<Rightarrow> string) \<Rightarrow> payload \<Rightarrow> string \<Rightarrow> string \<Rightarrow> string" where
  "text_default sr d k missing = (case dget d k of None \<Rightarrow> missing | Some v \<Rightarrow> py_str sr v)"

definition event_from_dict :: "(json \<Rightarrow> string) \<Rightarrow> (string \<Rightarrow> int option) \<Rightarrow> payload \<Rightarrow> overseer_error + run_event" where
  "event_from_dict sr fi d =
     rbind (run_field (field d ''sequence'')) (\<lambda>raw.
     case json_int fi raw of
       None \<Rightarrow> Inl (BadSequence raw)
     | Some sequence \<Rightarrow>
         rbind (text_field sr d ''workflow_id'') (\<lambda>workflow.
         rbind (text_field sr d ''node_id'') (\<lambda>node.
         rbind (text_field sr d ''status'') (\<lambda>status.
         rbind (text_field sr d ''message'') (\<lambda>message.
         Inr \<lparr>rv_sequence = sequence, rv_workflow = workflow, rv_node = node, rv_phase = text_or_null sr d ''phase'',
              rv_status = status, rv_message = message, rv_kind = text_or_null sr d ''terminal_kind'',
              rv_at = text_default sr d ''at'' []\<rparr>)))))"

definition run_to_dict :: "run_state \<Rightarrow> payload" where
  "run_to_dict r =
     [(''workflow_id'', JStr (rn_workflow r)), (''workflow_name'', JStr (rn_name r)),
      (''supervision'', JStr (rn_supervision r)), (''events'', JList (map (\<lambda>e. JObj (event_to_dict e)) (rn_events r))),
      (''open_gates'', JList (map (\<lambda>g. JObj (gate_to_dict g)) (rn_gates r))),
      (''answered_gates'', JObj (map (map_prod id JStr) (rn_answered r)))]"

text \<open>The items of a list that are dictionaries, read in order up to the first error.\<close>

fun read_dicts :: "(payload \<Rightarrow> overseer_error + 'a) \<Rightarrow> json list \<Rightarrow> overseer_error + 'a list" where
  "read_dicts f [] = Inr []"
| "read_dicts f (JObj d # vs) = rbind (f d) (\<lambda>x. rbind (read_dicts f vs) (\<lambda>xs. Inr (x # xs)))"
| "read_dicts f (v # vs) = read_dicts f vs"

definition raw_list :: "overseer_error \<Rightarrow> payload \<Rightarrow> string \<Rightarrow> overseer_error + json list" where
  "raw_list e d k = (case dget d k of None \<Rightarrow> Inr [] | Some (JList vs) \<Rightarrow> Inr vs | Some _ \<Rightarrow> Inl e)"

definition raw_answered :: "payload \<Rightarrow> overseer_error + payload" where
  "raw_answered d =
     (case dget d ''answered_gates'' of None \<Rightarrow> Inr [] | Some (JObj a) \<Rightarrow> Inr a | Some _ \<Rightarrow> Inl BadAnswered)"

definition run_from_dict :: "(json \<Rightarrow> string) \<Rightarrow> (string \<Rightarrow> int option) \<Rightarrow> payload \<Rightarrow> overseer_error + run_state" where
  "run_from_dict sr fi d =
     rbind (raw_list BadEvents d ''events'') (\<lambda>raw_events.
     rbind (raw_list BadGates d ''open_gates'') (\<lambda>raw_gates.
     rbind (raw_answered d) (\<lambda>answered.
     rbind (read_dicts (event_from_dict sr fi) raw_events) (\<lambda>events.
     rbind (read_dicts (\<lambda>g. run_field (gate_from_dict sr g)) raw_gates) (\<lambda>gates.
     rbind (text_field sr d ''workflow_id'') (\<lambda>workflow.
     rbind (text_field sr d ''workflow_name'') (\<lambda>name.
     Inr \<lparr>rn_workflow = workflow, rn_name = name, rn_events = events, rn_gates = gates,
          rn_supervision = text_default sr d ''supervision'' ''autonomous'',
          rn_answered = map (map_prod id (py_str sr)) answered\<rparr>)))))))"

section \<open>The directory of a run\<close>

record run_dir =
  rd_state :: "string option" \<comment> \<open>\<open>run-state.json\<close>\<close>
  rd_answers :: journal_file \<comment> \<open>\<open>gate-answer-journal.jsonl\<close>\<close>

definition save_run_state :: "run_state \<Rightarrow> run_dir \<Rightarrow> run_dir" where
  "save_run_state r = rd_state_update (\<lambda>_. Some (dumps_indent (JObj (run_to_dict r))))"

definition load_run_state ::
    "(json \<Rightarrow> string) \<Rightarrow> (string \<Rightarrow> int option) \<Rightarrow> string \<Rightarrow> run_dir \<Rightarrow> overseer_error + run_state" where
  "load_run_state sr fi workflow dir =
     (case rd_state dir of
        None \<Rightarrow> Inl (RunNotFound workflow)
      | Some text \<Rightarrow>
          (case loads text of
             None \<Rightarrow> Inl RunInvalidJson
           | Some (JObj d) \<Rightarrow> run_from_dict sr fi d
           | Some _ \<Rightarrow> Inl RunNotObject))"

definition progress_since ::
    "(json \<Rightarrow> string) \<Rightarrow> (string \<Rightarrow> int option) \<Rightarrow> string \<Rightarrow> int \<Rightarrow> run_dir \<Rightarrow> overseer_error + payload list" where
  "progress_since sr fi workflow since dir =
     rbind (load_run_state sr fi workflow dir) (\<lambda>r.
     Inr (map event_to_dict (filter (\<lambda>e. rv_sequence e > since) (rn_events r))))"

definition last_sequence :: "run_event list \<Rightarrow> int" where
  "last_sequence events = (case map rv_sequence events of [] \<Rightarrow> 0 | x # xs \<Rightarrow> fold max xs x)"

definition make_progress_event ::
    "(int \<Rightarrow> string) \<Rightarrow> int \<Rightarrow> string \<Rightarrow> string \<Rightarrow> string option \<Rightarrow> string \<Rightarrow> string \<Rightarrow> string option \<Rightarrow> run_event" where
  "make_progress_event clock sequence workflow node phase status message kind =
     \<lparr>rv_sequence = sequence, rv_workflow = workflow, rv_node = node, rv_phase = phase, rv_status = status,
      rv_message = message, rv_kind = kind, rv_at = clock sequence\<rparr>"

text \<open>The loaded run, or \<open>None\<close> when there is none; every other error is raised.\<close>

definition load_existing ::
    "(json \<Rightarrow> string) \<Rightarrow> (string \<Rightarrow> int option) \<Rightarrow> string \<Rightarrow> run_dir \<Rightarrow> overseer_error + run_state option" where
  "load_existing sr fi workflow dir =
     (case load_run_state sr fi workflow dir of
        Inl (RunNotFound w) \<Rightarrow> Inr None | Inl e \<Rightarrow> Inl e | Inr r \<Rightarrow> Inr (Some r))"

section \<open>Opening gates\<close>

definition gates_by_id :: "gate list \<Rightarrow> (string, gate) dict" where
  "gates_by_id gs = fold (\<lambda>g. dput (gt_id g) g) gs []"

definition open_gate ::
    "(int \<Rightarrow> string) \<Rightarrow> string \<Rightarrow> gate \<Rightarrow> int \<times> run_event list \<times> (string, gate) dict \<Rightarrow>
     int \<times> run_event list \<times> (string, gate) dict" where
  "open_gate clock workflow g acc =
     (case acc of (sequence, events, gates) \<Rightarrow>
        if dget gates (gt_id g) = None then
          (sequence + 1,
           events @ [make_progress_event clock (sequence + 1) workflow (gt_node g) (gt_phase g) ''open''
             (gt_reason g @ '': '' @ gt_id g) (Some ''gate'')],
           dput (gt_id g) g gates)
        else (sequence, events, dput (gt_id g) g gates))"

definition with_open_gates ::
    "(int \<Rightarrow> string) \<Rightarrow> string \<Rightarrow> gate list \<Rightarrow> string \<Rightarrow> string \<Rightarrow> run_state \<Rightarrow> run_state" where
  "with_open_gates clock workflow open_gates name supervision r =
     (case fold (open_gate clock workflow) open_gates (last_sequence (rn_events r), rn_events r, gates_by_id (rn_gates r)) of
        (sequence, events, gates) \<Rightarrow>
          \<lparr>rn_workflow = workflow, rn_name = name, rn_events = events, rn_gates = map snd gates,
           rn_supervision = supervision, rn_answered = rn_answered r\<rparr>)"

definition record_open_gates ::
    "(json \<Rightarrow> string) \<Rightarrow> (string \<Rightarrow> int option) \<Rightarrow> (int \<Rightarrow> string) \<Rightarrow> string \<Rightarrow> string \<Rightarrow> gate list \<Rightarrow> string \<Rightarrow>
     (overseer_error, run_dir, run_state) py" where
  "record_open_gates sr fi clock workflow name open_gates supervision =
     py_bind (py_gets (load_existing sr fi workflow)) (\<lambda>found.
     case found of
       Inl e \<Rightarrow> py_raise e
     | Inr existing \<Rightarrow>
         (let r = (case existing of
               Some r \<Rightarrow> r
             | None \<Rightarrow> \<lparr>rn_workflow = workflow, rn_name = name, rn_events = [], rn_gates = [],
                          rn_supervision = supervision, rn_answered = []\<rparr>);
              updated = with_open_gates clock workflow open_gates name supervision r
          in py_bind (py_modify (save_run_state updated)) (\<lambda>_. py_ret updated)))"

section \<open>Closing gates\<close>

definition close_gate ::
    "(int \<Rightarrow> string) \<Rightarrow> string \<Rightarrow> string \<Rightarrow> gate \<Rightarrow> int \<times> run_event list \<Rightarrow> int \<times> run_event list" where
  "close_gate clock workflow reason g acc =
     (case acc of (sequence, events) \<Rightarrow>
        (sequence + 1,
         events @ [make_progress_event clock (sequence + 1) workflow (gt_node g) (gt_phase g) ''closed''
           (reason @ '': '' @ gt_id g) (Some ''gate-close'')]))"

definition without_gates :: "(int \<Rightarrow> string) \<Rightarrow> string \<Rightarrow> string \<Rightarrow> run_state \<Rightarrow> run_state" where
  "without_gates clock workflow reason r =
     r\<lparr>rn_workflow := workflow, rn_gates := [],
       rn_events := snd (fold (close_gate clock workflow reason) (rn_gates r) (last_sequence (rn_events r), rn_events r))\<rparr>"

definition clear_open_gates ::
    "(json \<Rightarrow> string) \<Rightarrow> (string \<Rightarrow> int option) \<Rightarrow> (int \<Rightarrow> string) \<Rightarrow> string \<Rightarrow> string \<Rightarrow>
     (overseer_error, run_dir, run_state option) py" where
  "clear_open_gates sr fi clock workflow reason =
     py_bind (py_gets (load_existing sr fi workflow)) (\<lambda>found.
     case found of
       Inl e \<Rightarrow> py_raise e
     | Inr None \<Rightarrow> py_ret None
     | Inr (Some r) \<Rightarrow>
         if rn_gates r = [] then py_ret (Some r)
         else
           (let updated = without_gates clock workflow reason r
            in py_bind (py_modify (save_run_state updated)) (\<lambda>_. py_ret (Some updated))))"

section \<open>Answering a gate\<close>

definition find_gate_option :: "gate \<Rightarrow> string \<Rightarrow> gate_option option" where
  "find_gate_option g name = List.find (\<lambda>x. go_name x = name) (gt_options g)"

text \<open>The last open gate with the id, which is the only one.\<close>

definition target_gate :: "string \<Rightarrow> gate list \<Rightarrow> gate option" where
  "target_gate gate_id gs = List.find (\<lambda>g. gt_id g = gate_id) (rev gs)"

definition answer_entry :: "string \<Rightarrow> string \<Rightarrow> string \<Rightarrow> string \<Rightarrow> string \<Rightarrow> string \<Rightarrow> gate \<Rightarrow> gate_answer" where
  "answer_entry workflow gate_id option_name outcome note answered_at g =
     \<lparr>ga_gate = gate_id, ga_workflow = workflow, ga_option = option_name, ga_outcome = outcome, ga_note = note,
      ga_at = answered_at, ga_reason = gt_reason g, ga_stakes = gt_stakes g, ga_terminal = ''gate-answer''\<rparr>"

definition with_answer :: "(int \<Rightarrow> string) \<Rightarrow> string \<Rightarrow> string \<Rightarrow> string \<Rightarrow> gate \<Rightarrow> run_state \<Rightarrow> run_state" where
  "with_answer clock workflow gate_id option_name g r =
     r\<lparr>rn_workflow := workflow,
       rn_events := rn_events r @
         [make_progress_event clock (last_sequence (rn_events r) + 1) workflow (gt_node g) (gt_phase g) ''answered''
            (gate_id @ '' answered with '' @ option_name) (Some ''gate-answer'')],
       rn_gates := filter (\<lambda>g. gt_id g \<noteq> gate_id) (rn_gates r),
       rn_answered := dput gate_id option_name (rn_answered r)\<rparr>"

definition record_gate_answer ::
    "(json \<Rightarrow> string) \<Rightarrow> (string \<Rightarrow> int option) \<Rightarrow> (int \<Rightarrow> string) \<Rightarrow> string \<Rightarrow> string \<Rightarrow> string \<Rightarrow> string \<Rightarrow> string \<Rightarrow>
     (overseer_error, run_dir, run_state) py" where
  "record_gate_answer sr fi clock answered_at workflow gate_id option_name note =
     py_bind (py_gets (load_run_state sr fi workflow)) (\<lambda>found.
     case found of
       Inl e \<Rightarrow> py_raise e
     | Inr r \<Rightarrow>
         (case target_gate gate_id (rn_gates r) of
            None \<Rightarrow> py_raise (GateNotOpen gate_id)
          | Some g \<Rightarrow>
              (case find_gate_option g option_name of
                 None \<Rightarrow> py_raise (NoSuchOption gate_id option_name)
               | Some x \<Rightarrow>
                   py_bind (py_modify (rd_answers_update
                     (answer_append (answer_entry workflow gate_id option_name (go_outcome x) note answered_at g)))) (\<lambda>_.
                   let updated = with_answer clock workflow gate_id option_name g r
                   in py_bind (py_modify (save_run_state updated)) (\<lambda>_. py_ret updated)))))"

section \<open>What a run reads of the answers\<close>

definition answered_gate_options :: "(json \<Rightarrow> string) \<Rightarrow> run_dir \<Rightarrow> journal_error + (string, string) dict" where
  "answered_gate_options sr dir = latest_answers sr (rd_answers dir)"

definition answered_retry_agent_counts :: "(json \<Rightarrow> string) \<Rightarrow> run_dir \<Rightarrow> journal_error + (string, nat) dict" where
  "answered_retry_agent_counts sr dir = option_counts sr ''retry-agent'' (rd_answers dir)"

definition answered_gate_stakes :: "(json \<Rightarrow> string) \<Rightarrow> run_dir \<Rightarrow> journal_error + (string, payload) dict" where
  "answered_gate_stakes sr dir = latest_gate_stakes sr (rd_answers dir)"

section \<open>Lists for the overseer\<close>

text \<open>\<open>dirs\<close> are the directories of the runs, by workflow id.\<close>

definition list_open_gates_of ::
    "(json \<Rightarrow> string) \<Rightarrow> (string \<Rightarrow> int option) \<Rightarrow> string \<Rightarrow> run_dir \<Rightarrow> overseer_error + payload list" where
  "list_open_gates_of sr fi workflow dir =
     rbind (load_existing sr fi workflow dir) (\<lambda>r.
     Inr (case r of None \<Rightarrow> [] | Some r \<Rightarrow> map gate_to_dict (rn_gates r)))"

fun list_all_open_gates ::
    "(json \<Rightarrow> string) \<Rightarrow> (string \<Rightarrow> int option) \<Rightarrow> (string \<times> run_dir) list \<Rightarrow> overseer_error + payload list" where
  "list_all_open_gates sr fi [] = Inr []"
| "list_all_open_gates sr fi ((workflow, dir) # dirs) =
     (if rd_state dir = None then list_all_open_gates sr fi dirs
      else
        rbind (load_run_state sr fi workflow dir) (\<lambda>r.
        rbind (list_all_open_gates sr fi dirs) (\<lambda>gs. Inr (map gate_to_dict (rn_gates r) @ gs))))"

definition list_open_gates ::
    "(json \<Rightarrow> string) \<Rightarrow> (string \<Rightarrow> int option) \<Rightarrow> string option \<Rightarrow> (string, run_dir) dict \<Rightarrow> overseer_error + payload list" where
  "list_open_gates sr fi workflow dirs =
     (case workflow of
        Some w \<Rightarrow>
          list_open_gates_of sr fi w (case dget dirs w of None \<Rightarrow> \<lparr>rd_state = None, rd_answers = None\<rparr> | Some dir \<Rightarrow> dir)
      | None \<Rightarrow> list_all_open_gates sr fi (sort_key fst dirs))"

definition list_gates_with_status ::
    "(json \<Rightarrow> string) \<Rightarrow> (string \<Rightarrow> int option) \<Rightarrow> string \<Rightarrow> run_dir \<Rightarrow> overseer_error + payload list" where
  "list_gates_with_status sr fi workflow dir =
     rbind (load_existing sr fi workflow dir) (\<lambda>existing.
     case existing of
       None \<Rightarrow> Inr []
     | Some r \<Rightarrow>
         (case answered_gate_options sr dir of
            Inl e \<Rightarrow> Inl (AnswerJournal e)
          | Inr answered \<Rightarrow>
              Inr (map (\<lambda>g. dput ''status'' (JStr ''open'') (gate_to_dict g)) (rn_gates r) @
                map (\<lambda>(gate_id, option_name).
                  [(''gate_id'', JStr gate_id), (''workflow_id'', JStr workflow), (''status'', JStr ''answered''),
                   (''option'', JStr option_name)]) answered)))"

end
