(* ===== verification/Overseer_Facts.thy ===== *)
theory Overseer_Facts
  imports Overseer Journal_Format
begin

text \<open>
  What the overseer's view of a run guarantees (\<open>doeff_conductor/overseer.py\<close>): a saved run state is
  loaded again, events are numbered without gaps through every sequence of operations, and answers
  reach the run.
\<close>

section \<open>Saved states are loaded\<close>

lemma sort_keys_obj: "sort_keys (JObj d) = JObj (sort_payload d)"
  by (simp add: sort_payload_def)

lemma dget_sort_payload: "distinct (dkeys d) \<Longrightarrow> dget (sort_payload d) k = map_option sort_keys (dget d k)"
  by (simp add: sort_payload_def dget_sorted)

lemma run_event_keys: "distinct (dkeys (event_to_dict e))"
  by (simp add: event_to_dict_def)

lemma event_fields:
  "dget (event_to_dict e) ''sequence'' = Some (JInt (rv_sequence e))"
  "dget (event_to_dict e) ''workflow_id'' = Some (JStr (rv_workflow e))"
  "dget (event_to_dict e) ''node_id'' = Some (JStr (rv_node e))"
  "dget (event_to_dict e) ''phase'' = Some (json_opt (rv_phase e))"
  "dget (event_to_dict e) ''status'' = Some (JStr (rv_status e))"
  "dget (event_to_dict e) ''message'' = Some (JStr (rv_message e))"
  "dget (event_to_dict e) ''terminal_kind'' = Some (json_opt (rv_kind e))"
  "dget (event_to_dict e) ''at'' = Some (JStr (rv_at e))"
  by (simp_all add: event_to_dict_def)

lemma sort_json_opt [simp]: "sort_keys (json_opt x) = json_opt x"
  by (simp add: json_opt_def split: option.split)

lemma event_roundtrip: "event_from_dict sr fi (sort_payload (event_to_dict e)) = Inr e"
  by (cases "rv_phase e"; cases "rv_kind e")
    (simp_all add: event_from_dict_def dget_sort_payload [OF run_event_keys] event_fields field_def run_field_def
      text_field_def text_or_null_def text_default_def json_int_def json_opt_def)

definition gate_ok :: "gate \<Rightarrow> bool" where
  "gate_ok g \<longleftrightarrow> (\<forall>x \<in> set (gt_options g). go_outcome x \<in> set valid_gate_outcomes) \<and> plain (JObj (gt_stakes g))"

definition gate_norm :: "gate \<Rightarrow> gate" where
  "gate_norm g = g\<lparr>gt_stakes := sort_payload (gt_stakes g)\<rparr>"

lemma gate_norm_simps [simp]:
  "gt_id (gate_norm g) = gt_id g" "gt_options (gate_norm g) = gt_options g" "gt_node (gate_norm g) = gt_node g"
  by (simp_all add: gate_norm_def)

lemma gate_norm_ok [simp]: "gate_ok g \<Longrightarrow> gate_ok (gate_norm g)"
  using plain_sort_keys [of "JObj (gt_stakes g)"]
  by (simp add: gate_ok_def gate_norm_def sort_keys_obj del: sort_keys.simps plain.simps)

lemma gate_keys: "distinct (dkeys (gate_to_dict g))"
  by (simp add: gate_to_dict_def)

lemma sorted_options_roundtrip:
  "(\<forall>x \<in> set xs. go_outcome x \<in> set valid_gate_outcomes) \<Longrightarrow>
   options_from sr (map (\<lambda>x. sort_keys (option_to_dict x)) xs) = Inr xs"
proof (induction xs)
  case (Cons x xs)
  have "distinct (dkeys [(''name'', JStr (go_name x)), (''outcome'', JStr (go_outcome x)),
      (''description'', JStr (go_description x))])" by simp
  note get = dget_sort_payload [OF this]
  show ?case
    using Cons by (simp add: option_to_dict_def sort_keys_obj option_from_dict_def field_def get del: sort_keys.simps(2))
qed simp

lemma sorted_gate_roundtrip: "gate_ok g \<Longrightarrow> gate_from_dict sr (sort_payload (gate_to_dict g)) = Inr (gate_norm g)"
  using sorted_options_roundtrip [of "gt_options g" sr]
  by (cases "gt_phase g")
    (simp_all add: gate_from_dict_def raw_options_def raw_phase_def field_def dict_of_def gate_fields json_opt_def
      dget_sort_payload [OF gate_keys] gate_norm_def gate_ok_def sort_keys_obj comp_def del: sort_keys.simps(2))

lemma read_dicts_map:
  "(\<And>x. x \<in> set xs \<Longrightarrow> f (d x) = Inr (h x)) \<Longrightarrow> read_dicts f (map (\<lambda>x. JObj (d x)) xs) = Inr (map h xs)"
  by (induction xs) simp_all

definition run_ok :: "run_state \<Rightarrow> bool" where
  "run_ok r \<longleftrightarrow> list_all gate_ok (rn_gates r) \<and> distinct (dkeys (rn_answered r))"

definition run_norm :: "run_state \<Rightarrow> run_state" where
  "run_norm r = r\<lparr>rn_gates := map gate_norm (rn_gates r), rn_answered := sort_key fst (rn_answered r)\<rparr>"

lemma run_norm_simps [simp]:
  "rn_events (run_norm r) = rn_events r" "rn_gates (run_norm r) = map gate_norm (rn_gates r)"
  "rn_answered (run_norm r) = sort_key fst (rn_answered r)"
  by (simp_all add: run_norm_def)

lemma plain_json_opt [simp]: "plain (json_opt x)"
  by (simp add: json_opt_def split: option.split)

lemma gate_plain: "gate_ok g \<Longrightarrow> plain (JObj (gate_to_dict g))"
  by (simp add: gate_to_dict_def gate_ok_def list_all_iff option_to_dict_def)

lemma event_plain: "plain (JObj (event_to_dict e))"
  by (simp add: event_to_dict_def)

lemma run_plain:
  assumes "run_ok r"
  shows "plain (JObj (run_to_dict r))"
proof -
  have "list_all plain (map (\<lambda>e. JObj (event_to_dict e)) (rn_events r))"
    using event_plain by (simp add: list_all_iff del: plain.simps)
  moreover have "list_all plain (map (\<lambda>g. JObj (gate_to_dict g)) (rn_gates r))"
    using assms gate_plain by (simp add: run_ok_def list_all_iff del: plain.simps)
  moreover have "list_all (\<lambda>(k, v). plain v) (map (map_prod id JStr) (rn_answered r))"
    by (auto simp: list_all_iff)
  ultimately show ?thesis
    using assms by (simp add: run_to_dict_def run_ok_def comp_def)
qed

lemma run_keys: "distinct (dkeys (run_to_dict r))"
  by (simp add: run_to_dict_def)

lemma sorted_answered:
  "sort_payload (map (map_prod id JStr) a) = map (map_prod id JStr) (sort_key fst a)"
proof -
  have "map_prod id sort_keys \<circ> map_prod id JStr = (map_prod id JStr :: string \<times> string \<Rightarrow> string \<times> json)" by (auto simp: fun_eq_iff)
  then show ?thesis using sort_key_map [of "map_prod id JStr" a] by (simp add: sort_payload_def)
qed

lemma answered_text: "map (\<lambda>x. map_prod id (py_str sr) (map_prod id JStr x)) a = a"
  by (induction a) auto

lemma run_fields:
  "dget (run_to_dict r) ''workflow_id'' = Some (JStr (rn_workflow r))"
  "dget (run_to_dict r) ''workflow_name'' = Some (JStr (rn_name r))"
  "dget (run_to_dict r) ''supervision'' = Some (JStr (rn_supervision r))"
  "dget (run_to_dict r) ''events'' = Some (JList (map (\<lambda>e. JObj (event_to_dict e)) (rn_events r)))"
  "dget (run_to_dict r) ''open_gates'' = Some (JList (map (\<lambda>g. JObj (gate_to_dict g)) (rn_gates r)))"
  "dget (run_to_dict r) ''answered_gates'' = Some (JObj (map (map_prod id JStr) (rn_answered r)))"
  by (simp_all add: run_to_dict_def)

lemma sorted_run_roundtrip:
  assumes "run_ok r"
  shows "run_from_dict sr fi (sort_payload (run_to_dict r)) = Inr (run_norm r)"
proof -
  have events: "read_dicts (event_from_dict sr fi) (map (\<lambda>e. JObj (sort_payload (event_to_dict e))) (rn_events r)) =
      Inr (rn_events r)"
    using read_dicts_map [of "rn_events r" "event_from_dict sr fi" "\<lambda>e. sort_payload (event_to_dict e)" "\<lambda>e. e"]
    by (simp add: event_roundtrip)
  have gates: "read_dicts (\<lambda>g. run_field (gate_from_dict sr g)) (map (\<lambda>g. JObj (sort_payload (gate_to_dict g))) (rn_gates r)) =
      Inr (map gate_norm (rn_gates r))"
    using assms by (intro read_dicts_map) (auto simp: run_ok_def list_all_iff sorted_gate_roundtrip run_field_def)
  show ?thesis
    using events gates
    by (simp add: run_from_dict_def dget_sort_payload [OF run_keys] run_fields raw_list_def raw_answered_def
        text_field_def text_default_def field_def run_field_def sort_keys_obj sorted_answered answered_text comp_def
        run_norm_def del: sort_keys.simps(2))
qed

lemma load_saved:
  assumes "run_ok r"
  shows "load_run_state sr fi workflow (save_run_state r dir) = Inr (run_norm r)"
  using loads_dumps_indent [OF run_plain [OF assms]] sorted_run_roundtrip [OF assms, of sr fi]
  by (simp add: load_run_state_def save_run_state_def sort_keys_obj del: sort_keys.simps)

section \<open>Numbered events\<close>

definition numbered :: "run_event list \<Rightarrow> bool" where
  "numbered es \<longleftrightarrow> map rv_sequence es = map int [1..<Suc (length es)]"

lemma numbered_Nil [simp]: "numbered []"
  by (simp add: numbered_def)

lemma numbered_snoc: "numbered (es @ [e]) \<longleftrightarrow> numbered es \<and> rv_sequence e = int (length es) + 1"
  by (auto simp: numbered_def)

lemma numbered_last: "numbered es \<Longrightarrow> last_sequence es = int (length es)"
proof (cases "es = []")
  case False
  assume "numbered es"
  then have seqs: "map rv_sequence es = map int [1..<Suc (length es)]" by (simp add: numbered_def)
  then obtain x xs where xs: "map rv_sequence es = x # xs" using False by (cases es) auto
  have "last_sequence es = Max (set (map rv_sequence es))"
    unfolding last_sequence_def xs list.case by (rule Max.set_eq_fold [symmetric])
  also have "\<dots> = Max (int ` {1..<Suc (length es)})" by (simp only: seqs set_map set_upt)
  also have "\<dots> = int (length es)"
    using False by (intro Max_eqI) (auto simp: Suc_le_eq intro!: image_eqI [of _ int "length es"])
  finally show ?thesis .
qed (simp add: last_sequence_def)

lemma numbered_since:
  assumes "numbered (es @ new)"
  shows "filter (\<lambda>e. rv_sequence e > int (length es)) (es @ new) = new"
proof -
  have seq: "rv_sequence ((es @ new) ! i) = int i + 1" if "i < length (es @ new)" for i
  proof -
    have "map rv_sequence (es @ new) ! i = map int [1..<Suc (length (es @ new))] ! i"
      using assms by (simp only: numbered_def)
    moreover have "map rv_sequence (es @ new) ! i = rv_sequence ((es @ new) ! i)" using that by (rule nth_map)
    ultimately show ?thesis using that by (simp del: upt_Suc map_append)
  qed
  have "rv_sequence e \<le> int (length es)" if "e \<in> set es" for e
    using that seq by (auto simp: in_set_conv_nth nth_append) (metis Suc_leI less_or_eq_imp_le of_nat_Suc of_nat_le_iff trans_less_add1 add.commute)
  moreover have "rv_sequence e > int (length es)" if "e \<in> set new" for e
  proof -
    from that obtain i where "i < length new" "e = new ! i" by (auto simp: in_set_conv_nth)
    then show ?thesis using seq [of "length es + i"] by simp
  qed
  ultimately show ?thesis by (simp add: filter_id_conv filter_empty_conv not_less)
qed

section \<open>The operations\<close>

definition run_inv :: "run_state \<Rightarrow> bool" where
  "run_inv r \<longleftrightarrow> run_ok r \<and> distinct (map gt_id (rn_gates r)) \<and> numbered (rn_events r)"

lemma run_inv_norm [simp]: "run_inv r \<Longrightarrow> run_inv (run_norm r)"
  by (simp add: run_inv_def run_ok_def list_all_iff comp_def distinct_sort_key)

definition id_keyed :: "(string, gate) dict \<Rightarrow> bool" where
  "id_keyed d \<longleftrightarrow> distinct (dkeys d) \<and> (\<forall>(i, g) \<in> set d. gt_id g = i \<and> gate_ok g)"

lemma id_keyed_put: "id_keyed d \<Longrightarrow> gate_ok g \<Longrightarrow> id_keyed (dput (gt_id g) g d)"
  using set_dput [of "gt_id g" g d] by (fastforce simp: id_keyed_def)

lemma id_keyed_ids: "id_keyed d \<Longrightarrow> map (gt_id \<circ> snd) d = dkeys d"
  by (auto simp: id_keyed_def)

lemma id_keyed_gates: "list_all gate_ok gs \<Longrightarrow> id_keyed (gates_by_id gs)"
proof -
  have "id_keyed d \<Longrightarrow> list_all gate_ok gs \<Longrightarrow> id_keyed (fold (\<lambda>g. dput (gt_id g) g) gs d)" for d
    by (induction gs arbitrary: d) (simp_all add: id_keyed_put)
  from this [of "[]"] show "list_all gate_ok gs \<Longrightarrow> id_keyed (gates_by_id gs)"
    by (simp add: gates_by_id_def id_keyed_def)
qed

lemma open_gate_step:
  "dget d (gt_id g) = None \<Longrightarrow> open_gate clock w g (n, es, d) =
     (n + 1, es @ [make_progress_event clock (n + 1) w (gt_node g) (gt_phase g) ''open''
        (gt_reason g @ '': '' @ gt_id g) (Some ''gate'')], dput (gt_id g) g d)"
  "dget d (gt_id g) \<noteq> None \<Longrightarrow> open_gate clock w g (n, es, d) = (n, es, dput (gt_id g) g d)"
  by (simp_all add: open_gate_def)

lemma open_gates_fold:
  assumes "numbered es" and "id_keyed d" and "list_all gate_ok gs"
  obtains new d' where "fold (open_gate clock w) gs (int (length es), es, d) = (int (length (es @ new)), es @ new, d')"
    and "numbered (es @ new)" and "id_keyed d'"
  using assms
proof (induction gs arbitrary: es d thesis)
  case Nil
  then show ?case using Nil.prems(1) [of "[]" d] by simp
next
  case (Cons g gs)
  have gs: "gate_ok g" "list_all gate_ok gs" using Cons.prems(4) by simp_all
  have d: "id_keyed (dput (gt_id g) g d)" using Cons.prems(3) gs(1) by (rule id_keyed_put)
  show ?case
  proof (cases "dget d (gt_id g) = None")
    case True
    let ?e = "make_progress_event clock (int (length es) + 1) w (gt_node g) (gt_phase g) ''open''
        (gt_reason g @ '': '' @ gt_id g) (Some ''gate'')"
    have "numbered (es @ [?e])" using Cons.prems(2) by (simp add: numbered_snoc make_progress_event_def)
    then obtain new d' where "fold (open_gate clock w) gs (int (length (es @ [?e])), es @ [?e], dput (gt_id g) g d) =
          (int (length ((es @ [?e]) @ new)), (es @ [?e]) @ new, d')"
        "numbered ((es @ [?e]) @ new)" "id_keyed d'"
      using Cons.IH [OF _ _ d gs(2)] by blast
    then show ?thesis
      using True by (intro Cons.prems(1) [of "?e # new" d']) (simp_all add: open_gate_step algebra_simps)
  next
    case False
    obtain new d' where "fold (open_gate clock w) gs (int (length es), es, dput (gt_id g) g d) =
          (int (length (es @ new)), es @ new, d')" "numbered (es @ new)" "id_keyed d'"
      using Cons.IH [OF _ Cons.prems(2) d gs(2)] by blast
    then show ?thesis using Cons.prems(1) [of new d'] False by (simp add: open_gate_step)
  qed
qed

lemma with_open_gates_inv:
  assumes "run_inv r" and "list_all gate_ok gs"
  shows "run_inv (with_open_gates clock w gs name policy r)"
    and "\<exists>new. rn_events (with_open_gates clock w gs name policy r) = rn_events r @ new"
    and "rn_answered (with_open_gates clock w gs name policy r) = rn_answered r"
proof -
  have r: "numbered (rn_events r)" "id_keyed (gates_by_id (rn_gates r))" "distinct (dkeys (rn_answered r))"
    using assms(1) id_keyed_gates by (simp_all add: run_inv_def run_ok_def)
  obtain new d where fold: "fold (open_gate clock w) gs (last_sequence (rn_events r), rn_events r, gates_by_id (rn_gates r)) =
      (int (length (rn_events r @ new)), rn_events r @ new, d)" "numbered (rn_events r @ new)" "id_keyed d"
    using open_gates_fold [OF r(1,2) assms(2)] numbered_last [OF r(1)] by metis
  show "run_inv (with_open_gates clock w gs name policy r)"
  proof -
    have "distinct (map gt_id (map snd d))"
      unfolding map_map id_keyed_ids [OF fold(3)] using fold(3) by (simp add: id_keyed_def)
    then show ?thesis
      using fold r(3) by (auto simp: with_open_gates_def run_inv_def run_ok_def id_keyed_def list_all_iff)
  qed
  show "\<exists>new. rn_events (with_open_gates clock w gs name policy r) = rn_events r @ new"
    and "rn_answered (with_open_gates clock w gs name policy r) = rn_answered r"
    using fold by (simp_all add: with_open_gates_def)
qed

lemma close_gate_step:
  "close_gate clock w reason g (n, es) =
     (n + 1, es @ [make_progress_event clock (n + 1) w (gt_node g) (gt_phase g) ''closed''
        (reason @ '': '' @ gt_id g) (Some ''gate-close'')])"
  by (simp add: close_gate_def)

lemma close_gates_fold:
  assumes "numbered es"
  obtains new where "snd (fold (close_gate clock w reason) gs (int (length es), es)) = es @ new"
    and "numbered (es @ new)"
  using assms
proof (induction gs arbitrary: es thesis)
  case Nil
  then show ?case using Nil.prems(1) [of "[]"] by simp
next
  case (Cons g gs)
  let ?e = "make_progress_event clock (int (length es) + 1) w (gt_node g) (gt_phase g) ''closed''
        (reason @ '': '' @ gt_id g) (Some ''gate-close'')"
  have "numbered (es @ [?e])" using Cons.prems(2) by (simp add: numbered_snoc make_progress_event_def)
  then obtain new where "snd (fold (close_gate clock w reason) gs (int (length (es @ [?e])), es @ [?e])) = (es @ [?e]) @ new"
      "numbered ((es @ [?e]) @ new)"
    using Cons.IH by blast
  then show ?case by (intro Cons.prems(1) [of "?e # new"]) (simp_all add: close_gate_step algebra_simps)
qed

lemma without_gates_inv:
  assumes "run_inv r"
  shows "run_inv (without_gates clock w reason r)"
    and "\<exists>new. rn_events (without_gates clock w reason r) = rn_events r @ new"
    and "rn_answered (without_gates clock w reason r) = rn_answered r"
proof -
  have r: "numbered (rn_events r)" using assms by (simp add: run_inv_def)
  obtain new where new: "snd (fold (close_gate clock w reason) (rn_gates r) (last_sequence (rn_events r), rn_events r)) =
      rn_events r @ new" "numbered (rn_events r @ new)"
    using close_gates_fold [OF r] numbered_last [OF r] by metis
  then show "run_inv (without_gates clock w reason r)"
    using assms by (simp add: without_gates_def run_inv_def run_ok_def)
  show "\<exists>new. rn_events (without_gates clock w reason r) = rn_events r @ new"
    and "rn_answered (without_gates clock w reason r) = rn_answered r"
    using new by (simp_all add: without_gates_def)
qed

lemma with_answer_inv:
  assumes "run_inv r"
  shows "run_inv (with_answer clock w i x g r)"
    and "\<exists>new. rn_events (with_answer clock w i x g r) = rn_events r @ new"
    and "rn_answered (with_answer clock w i x g r) = dput i x (rn_answered r)"
proof -
  have "numbered (rn_events r)" using assms by (simp add: run_inv_def)
  then show "run_inv (with_answer clock w i x g r)"
    using assms by (auto simp: with_answer_def run_inv_def run_ok_def list_all_iff numbered_snoc numbered_last
        make_progress_event_def intro: distinct_map_filter)
qed (simp_all add: with_answer_def)

section \<open>The directory of a run\<close>

definition latest_options :: "gate_answer list \<Rightarrow> (string, string) dict" where
  "latest_options es = latest_by ga_gate ga_option es"

text \<open>
  Either nothing is recorded, or the state file holds a good run state; and the answers in the journal
  are those of the state file.
\<close>

definition dir_inv :: "run_dir \<Rightarrow> bool" where
  "dir_inv dir \<longleftrightarrow> intact (rd_answers dir) \<and>
     (\<exists>es. (\<forall>sr. answer_load_entries sr (rd_answers dir) = Inr es) \<and>
       (if rd_state dir = None then es = []
        else \<exists>r. run_inv r \<and> rd_state dir = rd_state (save_run_state r dir) \<and>
          (\<forall>i. dget (rn_answered r) i = dget (latest_options es) i)))"

definition fresh_dir :: run_dir where
  "fresh_dir = \<lparr>rd_state = None, rd_answers = None\<rparr>"

lemma fresh_dir_inv: "dir_inv fresh_dir"
  by (simp add: dir_inv_def fresh_dir_def intact_def answer_load_entries_def file_lines_def)

lemma dir_invE:
  assumes "dir_inv dir" and "load_run_state sr fi w dir = Inr r"
  obtains es where "intact (rd_answers dir)" and "\<And>sr. answer_load_entries sr (rd_answers dir) = Inr es"
    and "run_inv r" and "\<And>i. dget (rn_answered r) i = dget (latest_options es) i"
proof -
  have some: "rd_state dir \<noteq> None" using assms(2) by (cases "rd_state dir") (simp_all add: load_run_state_def)
  obtain es where es: "\<And>sr. answer_load_entries sr (rd_answers dir) = Inr es"
      and r: "\<exists>r. run_inv r \<and> rd_state dir = rd_state (save_run_state r dir) \<and>
          (\<forall>i. dget (rn_answered r) i = dget (latest_options es) i)"
    using assms(1) some by (auto simp: dir_inv_def)
  then obtain r' where r': "run_inv r'" "rd_state dir = rd_state (save_run_state r' dir)"
      "\<And>i. dget (rn_answered r') i = dget (latest_options es) i"
    by blast
  have "load_run_state sr fi w dir = load_run_state sr fi w (save_run_state r' dir)"
    using r'(2) by (simp add: load_run_state_def)
  then have eq: "r = run_norm r'" using load_saved r'(1) assms(2) by (simp add: run_inv_def)
  have "distinct (dkeys (rn_answered r'))" using r'(1) by (simp add: run_inv_def run_ok_def)
  then have "dget (sort_key fst (rn_answered r')) i = dget (rn_answered r') i" for i
    by (intro map_of_inject_set [THEN iffD2, THEN fun_cong]) (simp_all add: distinct_sort_key)
  then show thesis using that [OF _ es(1)] assms(1) r'(1,3) by (simp add: dir_inv_def eq)
qed

lemma dir_inv_loads:
  assumes "dir_inv dir" and "rd_state dir \<noteq> None"
  obtains r where "\<And>sr fi w. load_run_state sr fi w dir = Inr r"
proof -
  obtain r where r: "run_inv r" "rd_state dir = rd_state (save_run_state r dir)"
    using assms by (auto simp: dir_inv_def)
  then have "load_run_state sr fi w dir = Inr (run_norm r)" for sr fi w
    using load_saved [of r sr fi w dir] by (simp add: load_run_state_def run_inv_def)
  then show thesis by (rule that)
qed

lemma load_existing_cases:
  assumes "dir_inv dir"
  shows "load_existing sr fi w dir =
    (if rd_state dir = None then Inr None else map_sum id Some (load_run_state sr fi w dir))"
proof (cases "rd_state dir = None")
  case False
  then obtain r where "load_run_state sr fi w dir = Inr r" by (rule dir_inv_loads [OF assms]) blast
  then show ?thesis using False by (simp add: load_existing_def)
qed (simp add: load_existing_def load_run_state_def)

lemma saved_dir_inv:
  assumes "intact (rd_answers dir)" and "\<And>sr. answer_load_entries sr (rd_answers dir) = Inr es" and "run_inv r"
    and "\<And>i. dget (rn_answered r) i = dget (latest_options es) i"
  shows "dir_inv (save_run_state r dir)"
  using assms by (auto simp: dir_inv_def save_run_state_def)

lemma saved_loads: "run_inv r \<Longrightarrow> load_run_state sr fi w (save_run_state r dir) = Inr (run_norm r)"
  by (simp add: load_saved run_inv_def)

lemma latest_options_snoc: "latest_options (es @ [e]) = dput (ga_gate e) (ga_option e) (latest_options es)"
  by (simp add: latest_options_def latest_by_def)

lemma find_SomeD: "List.find P xs = Some x \<Longrightarrow> x \<in> set xs \<and> P x"
  by (auto simp: find_Some_iff)

lemma target_gate_iff:
  assumes "distinct (map gt_id gs)"
  shows "target_gate i gs = Some g \<longleftrightarrow> g \<in> set gs \<and> gt_id g = i"
proof
  show "target_gate i gs = Some g \<Longrightarrow> g \<in> set gs \<and> gt_id g = i"
    using find_SomeD [of "\<lambda>g. gt_id g = i" "rev gs" g] by (simp add: target_gate_def)
next
  assume g: "g \<in> set gs \<and> gt_id g = i"
  then obtain g' where g': "target_gate i gs = Some g'"
    by (cases "target_gate i gs") (auto simp: target_gate_def find_None_iff)
  then have "g' \<in> set gs \<and> gt_id g' = i"
    using find_SomeD [of "\<lambda>g. gt_id g = i" "rev gs" g'] by (simp add: target_gate_def)
  moreover have "inj_on gt_id (set gs)" using assms by (simp add: distinct_map)
  ultimately have "g' = g" using g by (metis inj_onD)
  then show "target_gate i gs = Some g" using g' by simp
qed

lemma find_gate_option_iff: "(\<exists>x. find_gate_option g name = Some x) \<longleftrightarrow> name \<in> set (map go_name (gt_options g))"
  by (cases "find_gate_option g name") (auto simp: find_gate_option_def find_None_iff find_Some_iff)

lemma answer_result:
  assumes "dir_inv dir" and "load_run_state sr fi w dir = Inr r" and "g \<in> set (rn_gates r)"
    and "find_gate_option g name = Some x"
  shows "record_gate_answer sr fi clock at_time w (gt_id g) name remark dir =
    (Inr (with_answer clock w (gt_id g) name g r),
     save_run_state (with_answer clock w (gt_id g) name g r)
       (rd_answers_update (answer_append (answer_entry w (gt_id g) name (go_outcome x) remark at_time g)) dir))"
proof -
  have "run_inv r" by (rule dir_invE [OF assms(1,2)])
  then have "target_gate (gt_id g) (rn_gates r) = Some g"
    using assms(3) by (simp add: target_gate_iff run_inv_def)
  then show ?thesis using assms(2,4) by (simp add: record_gate_answer_def Let_def)
qed

lemma answer_journal_grows:
  assumes "intact (rd_answers dir)" and "\<And>sr. answer_load_entries sr (rd_answers dir) = Inr es" and "gate_ok g"
  shows "answer_load_entries sr (answer_append (answer_entry w i name out remark at_time g) (rd_answers dir)) =
    Inr (es @ [answer_norm (answer_entry w i name out remark at_time g)])"
  using answer_journal.parse_append [OF assms(1), of "answer_entry w i name out remark at_time g" sr 1 es] assms(2,3)
  by (simp add: answer_load_entries_def answer_append_def answer_ok_def answer_entry_def gate_ok_def)

lemma answer_dir_inv:
  assumes "dir_inv dir" and "load_run_state sr fi w dir = Inr r" and "g \<in> set (rn_gates r)"
  shows "dir_inv (save_run_state (with_answer clock w (gt_id g) name g r)
    (rd_answers_update (answer_append (answer_entry w (gt_id g) name out remark at_time g)) dir))"
proof -
  obtain es where es: "intact (rd_answers dir)" "\<And>sr. answer_load_entries sr (rd_answers dir) = Inr es"
      and r: "run_inv r" "\<And>i. dget (rn_answered r) i = dget (latest_options es) i"
    using dir_invE [OF assms(1,2)] by blast
  let ?e = "answer_entry w (gt_id g) name out remark at_time g"
  have ok: "gate_ok g" using r(1) assms(3) by (auto simp: run_inv_def run_ok_def list_all_iff)
  show ?thesis
  proof (rule saved_dir_inv)
    show "intact (rd_answers (rd_answers_update (answer_append ?e) dir))" by (simp add: answer_append_def)
    show "answer_load_entries sr (rd_answers (rd_answers_update (answer_append ?e) dir)) = Inr (es @ [answer_norm ?e])" for sr
      using answer_journal_grows [OF es ok] by simp
    show "run_inv (with_answer clock w (gt_id g) name g r)" by (rule with_answer_inv [OF r(1)])
    show "dget (rn_answered (with_answer clock w (gt_id g) name g r)) i = dget (latest_options (es @ [answer_norm ?e])) i" for i
      using r(2) by (simp add: with_answer_inv [OF r(1)] latest_options_snoc answer_norm_def answer_entry_def)
  qed
qed

section \<open>Sequences of operations\<close>

datatype (plugins only: size) overseer_op =
  OpenGates "int \<Rightarrow> string" string "gate list" string
| CloseGates "int \<Rightarrow> string" string
| AnswerGate "int \<Rightarrow> string" string string string string

fun op_ok :: "overseer_op \<Rightarrow> bool" where
  "op_ok (OpenGates clock name gs policy) = list_all gate_ok gs"
| "op_ok _ = True"

fun apply_op ::
    "(json \<Rightarrow> string) \<Rightarrow> (string \<Rightarrow> int option) \<Rightarrow> string \<Rightarrow> overseer_op \<Rightarrow> run_dir \<Rightarrow> run_dir" where
  "apply_op sr fi w (OpenGates clock name gs policy) dir = snd (record_open_gates sr fi clock w name gs policy dir)"
| "apply_op sr fi w (CloseGates clock reason) dir = snd (clear_open_gates sr fi clock w reason dir)"
| "apply_op sr fi w (AnswerGate clock at_time i name remark) dir =
     snd (record_gate_answer sr fi clock at_time w i name remark dir)"

definition apply_ops ::
    "(json \<Rightarrow> string) \<Rightarrow> (string \<Rightarrow> int option) \<Rightarrow> string \<Rightarrow> overseer_op list \<Rightarrow> run_dir \<Rightarrow> run_dir" where
  "apply_ops sr fi w ops dir = fold (apply_op sr fi w) ops dir"

text \<open>What every operation keeps: the invariant, and the events already there.\<close>

definition extends :: "(json \<Rightarrow> string) \<Rightarrow> (string \<Rightarrow> int option) \<Rightarrow> string \<Rightarrow> run_dir \<Rightarrow> run_dir \<Rightarrow> bool" where
  "extends sr fi w dir dir' \<longleftrightarrow>
     (\<forall>r. load_run_state sr fi w dir = Inr r \<longrightarrow>
        (\<exists>r' new. load_run_state sr fi w dir' = Inr r' \<and> rn_events r' = rn_events r @ new))"

lemma extends_refl [simp]: "extends sr fi w dir dir"
  by (auto simp: extends_def)

lemma extends_trans: "extends sr fi w a b \<Longrightarrow> extends sr fi w b c \<Longrightarrow> extends sr fi w a c"
  unfolding extends_def by (metis append.assoc)

lemma extendsI:
  assumes "load_run_state sr fi w dir = Inr r" and "run_inv r'" and "\<exists>new. rn_events r' = rn_events r @ new"
  shows "extends sr fi w dir (save_run_state r' dir')"
  using assms saved_loads [OF assms(2), of sr fi w dir'] by (auto simp: extends_def)

lemma record_step:
  assumes "dir_inv dir" and "list_all gate_ok gs"
  shows "dir_inv (snd (record_open_gates sr fi clock w name gs policy dir)) \<and>
    extends sr fi w dir (snd (record_open_gates sr fi clock w name gs policy dir))"
proof (cases "rd_state dir = None")
  case True
  let ?r = "\<lparr>rn_workflow = w, rn_name = name, rn_events = [], rn_gates = [], rn_supervision = policy, rn_answered = []\<rparr>"
  have r: "run_inv ?r" by (simp add: run_inv_def run_ok_def)
  have journal: "intact (rd_answers dir)" "\<And>sr. answer_load_entries sr (rd_answers dir) = Inr []"
    using assms(1) True by (auto simp: dir_inv_def)
  have "dir_inv (save_run_state (with_open_gates clock w gs name policy ?r) dir)"
    by (rule saved_dir_inv [OF journal with_open_gates_inv(1) [OF r assms(2)]])
      (simp add: with_open_gates_inv(3) [OF r assms(2)] latest_options_def latest_by_def)
  moreover have "load_run_state sr fi w dir = Inl (RunNotFound w)" using True by (simp add: load_run_state_def)
  ultimately show ?thesis
    using True by (simp add: record_open_gates_def load_existing_cases [OF assms(1)] Let_def extends_def)
next
  case False
  then obtain r where load: "load_run_state sr fi w dir = Inr r" by (rule dir_inv_loads [OF assms(1)]) blast
  obtain es where es: "intact (rd_answers dir)" "\<And>sr. answer_load_entries sr (rd_answers dir) = Inr es"
      and r: "run_inv r" "\<And>i. dget (rn_answered r) i = dget (latest_options es) i"
    using dir_invE [OF assms(1) load] by blast
  have "dir_inv (save_run_state (with_open_gates clock w gs name policy r) dir)"
    by (rule saved_dir_inv [OF es with_open_gates_inv(1) [OF r(1) assms(2)]])
      (simp add: with_open_gates_inv(3) [OF r(1) assms(2)] r(2))
  moreover have "extends sr fi w dir (save_run_state (with_open_gates clock w gs name policy r) dir)"
    by (rule extendsI [OF load with_open_gates_inv(1,2) [OF r(1) assms(2)]])
  ultimately show ?thesis
    using load by (simp add: record_open_gates_def load_existing_cases [OF assms(1)] Let_def if_not_P [OF False])
qed

lemma clear_step:
  assumes "dir_inv dir"
  shows "dir_inv (snd (clear_open_gates sr fi clock w reason dir)) \<and>
    extends sr fi w dir (snd (clear_open_gates sr fi clock w reason dir))"
proof (cases "rd_state dir = None")
  case False
  then obtain r where load: "load_run_state sr fi w dir = Inr r" by (rule dir_inv_loads [OF assms(1)]) blast
  obtain es where es: "intact (rd_answers dir)" "\<And>sr. answer_load_entries sr (rd_answers dir) = Inr es"
      and r: "run_inv r" "\<And>i. dget (rn_answered r) i = dget (latest_options es) i"
    using dir_invE [OF assms(1) load] by blast
  have "dir_inv (save_run_state (without_gates clock w reason r) dir)"
    by (rule saved_dir_inv [OF es without_gates_inv(1) [OF r(1)]]) (simp add: without_gates_inv(3) [OF r(1)] r(2))
  moreover have "extends sr fi w dir (save_run_state (without_gates clock w reason r) dir)"
    by (rule extendsI [OF load without_gates_inv(1,2) [OF r(1)]])
  ultimately show ?thesis
    using load assms by (simp add: clear_open_gates_def load_existing_cases [OF assms(1)] Let_def if_not_P [OF False])
next
  case True
  then show ?thesis using assms by (simp add: clear_open_gates_def load_existing_cases)
qed

lemma answer_step:
  assumes "dir_inv dir"
  shows "dir_inv (snd (record_gate_answer sr fi clock at_time w i name remark dir)) \<and>
    extends sr fi w dir (snd (record_gate_answer sr fi clock at_time w i name remark dir))"
proof (cases "load_run_state sr fi w dir")
  case (Inr r)
  have r: "run_inv r" by (rule dir_invE [OF assms Inr])
  show ?thesis
  proof (cases "target_gate i (rn_gates r)")
    case (Some g)
    then have g: "g \<in> set (rn_gates r)" "gt_id g = i" using r by (simp_all add: target_gate_iff run_inv_def)
    show ?thesis
    proof (cases "find_gate_option g name")
      case (Some x)
      show ?thesis
        using answer_result [OF assms Inr g(1) Some, of clock at_time remark] answer_dir_inv [OF assms Inr g(1)]
          extendsI [OF Inr with_answer_inv(1,2) [OF r]] g(2)
        by simp
    qed (use Inr Some assms in \<open>simp add: record_gate_answer_def\<close>)
  qed (use Inr assms in \<open>simp add: record_gate_answer_def\<close>)
qed (use assms in \<open>simp add: record_gate_answer_def\<close>)

lemma ops_step:
  "dir_inv dir \<Longrightarrow> list_all op_ok ops \<Longrightarrow> dir_inv (apply_ops sr fi w ops dir) \<and> extends sr fi w dir (apply_ops sr fi w ops dir)"
proof (induction ops arbitrary: dir)
  case (Cons op ops)
  have "dir_inv (apply_op sr fi w op dir) \<and> extends sr fi w dir (apply_op sr fi w op dir)"
    using Cons.prems record_step clear_step answer_step by (cases op) simp_all
  then show ?case
    using Cons.IH [of "apply_op sr fi w op dir"] Cons.prems extends_trans by (fastforce simp: apply_ops_def)
qed (simp add: apply_ops_def)

section \<open>Properties\<close>

text \<open>
  C26: Polling a run misses no event and repeats none. However gates are opened, answered and closed by the
  operations of \<open>overseer.py\<close>, successfully or not (a run directory that \<open>validate_workflow\<close> overwrites is another run), the events of a run are numbered 1, 2, 3, ... in the order in which they are
  written, an event once written stays, and a reader who asks for what came after the last number it has
  seen is given exactly the events written since.
\<close>

theorem progress_misses_nothing:
  assumes "list_all op_ok earlier" and "list_all op_ok later"
    and "load_run_state sr fi w (apply_ops sr fi w earlier fresh_dir) = Inr seen"
  shows "\<exists>current new. load_run_state sr fi w (apply_ops sr fi w (earlier @ later) fresh_dir) = Inr current \<and>
    rn_events current = rn_events seen @ new \<and>
    map rv_sequence (rn_events current) = map int [1..<Suc (length (rn_events current))] \<and>
    progress_since sr fi w (last_sequence (rn_events seen)) (apply_ops sr fi w (earlier @ later) fresh_dir) =
      Inr (map event_to_dict new)"
proof -
  let ?d = "apply_ops sr fi w earlier fresh_dir" and ?d' = "apply_ops sr fi w (earlier @ later) fresh_dir"
  have inv: "dir_inv ?d" using ops_step [OF fresh_dir_inv assms(1)] by blast
  have later: "?d' = apply_ops sr fi w later ?d" by (simp add: apply_ops_def)
  have "dir_inv ?d'" "extends sr fi w ?d ?d'" unfolding later using ops_step [OF inv assms(2)] by blast+
  moreover from this(2) obtain r new where r: "load_run_state sr fi w ?d' = Inr r" "rn_events r = rn_events seen @ new"
    using assms(3) by (auto simp: extends_def)
  ultimately have "numbered (rn_events seen @ new)" using dir_invE [of ?d' sr fi w r] by (metis run_inv_def)
  moreover have "numbered (rn_events seen)" using dir_invE [OF inv assms(3)] by (metis run_inv_def)
  ultimately show ?thesis
    using r numbered_since numbered_last
    by (intro exI [of _ r] exI [of _ new]) (simp add: progress_since_def numbered_def)
qed

definition demo_gate :: gate where
  "demo_gate =
     \<lparr>gt_id = ''run:w/0/loop:loop-exhaustion'', gt_workflow = ''run'', gt_node = ''w/0/loop'', gt_phase = None,
      gt_reason = ''loop predicate exhaustion'', gt_stakes = [(''max_iterations'', JInt 3)],
      gt_options = [\<lparr>go_name = ''proceed'', go_outcome = ''resume'', go_description = ''accept''\<rparr>,
                    \<lparr>go_name = ''abort'', go_outcome = ''abort'', go_description = ''abort''\<rparr>]\<rparr>"

definition demo_opening :: overseer_op where
  "demo_opening = OpenGates (\<lambda>n. ''t'') ''w'' [demo_gate] ''autonomous''"

lemma demo_ok [simp]: "op_ok demo_opening" "gate_ok demo_gate"
  by (simp_all add: demo_opening_def demo_gate_def gate_ok_def valid_gate_outcomes_def)

definition opened_state :: run_state where
  "opened_state =
     \<lparr>rn_workflow = ''run'', rn_name = ''w'',
      rn_events = [\<lparr>rv_sequence = 1, rv_workflow = ''run'', rv_node = ''w/0/loop'', rv_phase = None, rv_status = ''open'',
        rv_message = ''loop predicate exhaustion: run:w/0/loop:loop-exhaustion'', rv_kind = Some ''gate'', rv_at = ''t''\<rparr>],
      rn_gates = [demo_gate], rn_supervision = ''autonomous'', rn_answered = []\<rparr>"

lemma demo_opened:
  "load_run_state sr fi ''run'' (apply_ops sr fi ''run'' [demo_opening] fresh_dir) = Inr (run_norm opened_state)"
proof -
  have "run_inv opened_state" by (simp add: run_inv_def run_ok_def opened_state_def numbered_def)
  moreover have "apply_ops sr fi ''run'' [demo_opening] fresh_dir = save_run_state opened_state fresh_dir"
    by (simp add: apply_ops_def demo_opening_def record_open_gates_def Let_def load_existing_def load_run_state_def
        fresh_dir_def with_open_gates_def last_sequence_def gates_by_id_def open_gate_def opened_state_def
        make_progress_event_def) (simp add: demo_gate_def)
  ultimately show ?thesis using saved_loads by simp
qed

theorem progress_misses_nothing_witness:
  "\<exists>current new. load_run_state (\<lambda>v. []) (\<lambda>t. None) ''run''
      (apply_ops (\<lambda>v. []) (\<lambda>t. None) ''run'' [demo_opening, CloseGates (\<lambda>n. ''u'') ''stopped''] fresh_dir) = Inr current \<and>
    rn_events current = rn_events opened_state @ new"
  using progress_misses_nothing [of "[demo_opening]" "[CloseGates (\<lambda>n. ''u'') ''stopped'']" "\<lambda>v. []" "\<lambda>t. None" "''run''"
      "run_norm opened_state"] demo_opened
  by auto

text \<open>
  C25: An answer takes effect, and only on its gate. Answering an open gate with one of its options closes
  that gate and no other; the next run then reads the option as the answer to that gate, and one
  more retry of its agent if that is what was chosen, and for every other gate what it read before.
  Any other answer is refused and leaves both files as they were. At every moment the answers in the
  journal and in the run state are the same.
\<close>

theorem answers_take_effect:
  assumes "list_all op_ok ops" and "dir = apply_ops sr fi w ops fresh_dir" and "load_run_state sr fi w dir = Inr r"
  shows "\<exists>answers counts. answered_gate_options sr dir = Inr answers \<and> answered_retry_agent_counts sr dir = Inr counts \<and>
    (\<forall>j. dget answers j = dget (rn_answered r) j) \<and>
    (if \<exists>g \<in> set (rn_gates r). gt_id g = i \<and> name \<in> set (map go_name (gt_options g)) then
       (\<exists>updated dir' r'. record_gate_answer sr fi clock at_time w i name remark dir = (Inr updated, dir') \<and>
          load_run_state sr fi w dir' = Inr r' \<and>
          map gt_id (rn_gates r') = filter (\<lambda>j. j \<noteq> i) (map gt_id (rn_gates r)) \<and>
          answered_gate_options sr dir' = Inr (dput i name answers) \<and>
          answered_retry_agent_counts sr dir' = Inr (if name = ''retry-agent'' then
            dput i ((case dget counts i of None \<Rightarrow> 0 | Some n \<Rightarrow> n) + 1) counts else counts))
     else \<exists>e. record_gate_answer sr fi clock at_time w i name remark dir = (Inl e, dir))"
proof -
  have inv: "dir_inv dir" using ops_step [OF fresh_dir_inv assms(1)] by (simp add: assms(2))
  obtain es where es: "intact (rd_answers dir)" "\<And>sr. answer_load_entries sr (rd_answers dir) = Inr es"
      and r: "run_inv r" "\<And>j. dget (rn_answered r) j = dget (latest_options es) j"
    using dir_invE [OF inv assms(3)] by blast
  have answers: "answered_gate_options sr dir = Inr (latest_options es)"
    by (simp add: answered_gate_options_def latest_answers_def es(2) latest_options_def)
  obtain counts where counts: "answered_retry_agent_counts sr dir = Inr counts"
    by (simp add: answered_retry_agent_counts_def option_counts_def es(2))
  show ?thesis
  proof (cases "\<exists>g \<in> set (rn_gates r). gt_id g = i \<and> name \<in> set (map go_name (gt_options g))")
    case True
    then obtain g where g: "g \<in> set (rn_gates r)" "gt_id g = i" "name \<in> set (map go_name (gt_options g))" by blast
    then obtain x where x: "find_gate_option g name = Some x" using find_gate_option_iff by blast
    let ?e = "answer_entry w i name (go_outcome x) remark at_time g"
    let ?r' = "with_answer clock w i name g r"
    let ?dir' = "save_run_state ?r' (rd_answers_update (answer_append ?e) dir)"
    have ok: "gate_ok g" using r(1) g(1) by (auto simp: run_inv_def run_ok_def list_all_iff)
    have journal: "answer_load_entries sr (rd_answers ?dir') = Inr (es @ [answer_norm ?e])"
      using answer_journal_grows [OF es ok] by (simp add: save_run_state_def)
    have "record_gate_answer sr fi clock at_time w i name remark dir = (Inr ?r', ?dir')"
      using answer_result [OF inv assms(3) g(1) x] g(2) by simp
    moreover have "load_run_state sr fi w ?dir' = Inr (run_norm ?r')" by (rule saved_loads [OF with_answer_inv(1) [OF r(1)]])
    moreover have "map gt_id (rn_gates (run_norm ?r')) = filter (\<lambda>j. j \<noteq> i) (map gt_id (rn_gates r))"
      by (simp add: with_answer_def filter_map comp_def)
    moreover have "answered_gate_options sr ?dir' = Inr (dput i name (latest_options es))"
      using latest_options_snoc [of es "answer_norm ?e"]
      unfolding answered_gate_options_def latest_answers_def journal rbind_simps
      by (simp add: latest_options_def answer_norm_def answer_entry_def)
    moreover have "answered_retry_agent_counts sr ?dir' = Inr (if name = ''retry-agent'' then
            dput i ((case dget counts i of None \<Rightarrow> 0 | Some n \<Rightarrow> n) + 1) counts else counts)"
      using counts unfolding answered_retry_agent_counts_def option_counts_def journal es(2) rbind_simps
      by (simp add: answer_norm_def answer_entry_def)
    ultimately show ?thesis using answers counts r(2) True by (simp only: if_True simp_thms) blast
  next
    case False
    have "\<exists>e. record_gate_answer sr fi clock at_time w i name remark dir = (Inl e, dir)"
    proof (cases "target_gate i (rn_gates r)")
      case (Some g)
      then have "g \<in> set (rn_gates r) \<and> gt_id g = i" using r(1) by (simp add: target_gate_iff run_inv_def)
      then have "find_gate_option g name = None" using False find_gate_option_iff [of g name] by (metis not_None_eq)
      then show ?thesis using assms(3) Some by (simp add: record_gate_answer_def)
    qed (use assms(3) in \<open>simp add: record_gate_answer_def\<close>)
    then show ?thesis using answers counts r(2) False by (simp only: if_False simp_thms) blast
  qed
qed

theorem answers_take_effect_witness:
  "\<exists>updated dir'. record_gate_answer (\<lambda>v. []) (\<lambda>t. None) (\<lambda>n. ''u'') ''now'' ''run'' ''run:w/0/loop:loop-exhaustion'' ''proceed'' []
       (apply_ops (\<lambda>v. []) (\<lambda>t. None) ''run'' [demo_opening] fresh_dir) = (Inr updated, dir') \<and>
     answered_gate_options (\<lambda>v. []) dir' = Inr [(''run:w/0/loop:loop-exhaustion'', ''proceed'')]"
proof -
  let ?dir = "apply_ops (\<lambda>v. []) (\<lambda>t. None) ''run'' [demo_opening] fresh_dir"
  have "list_all op_ok [demo_opening]" by simp
  note effect = answers_take_effect [OF this refl demo_opened, where i = "''run:w/0/loop:loop-exhaustion''" and
      name = "''proceed''" and sr = "\<lambda>v. []" and fi = "\<lambda>t. None" and clock = "\<lambda>n. ''u''" and at_time = "''now''" and
      remark = "[]"]
  have offered: "\<exists>g \<in> set (rn_gates (run_norm opened_state)). gt_id g = ''run:w/0/loop:loop-exhaustion'' \<and>
      ''proceed'' \<in> set (map go_name (gt_options g))"
    by (simp add: opened_state_def) (simp add: demo_gate_def)
  from effect obtain answers updated dir' where
      "\<forall>j. dget answers j = dget (rn_answered (run_norm opened_state)) j"
      and eq: "record_gate_answer (\<lambda>v. []) (\<lambda>t. None) (\<lambda>n. ''u'') ''now'' ''run'' ''run:w/0/loop:loop-exhaustion'' ''proceed'' []
       ?dir = (Inr updated, dir')"
      and read: "answered_gate_options (\<lambda>v. []) dir' = Inr (dput ''run:w/0/loop:loop-exhaustion'' ''proceed'' answers)"
    unfolding if_P [OF offered] by blast
  then have "dget answers j = None" for j by (simp add: opened_state_def)
  then have "dget answers = Map.empty" by (rule ext)
  then have "answers = []" by (simp only: map_of_eq_empty_iff)
  then show ?thesis using eq read by simp
qed

end
