(* ===== verification/Lazy_Ask.thy ===== *)
theory Lazy_Ask
  imports Prelude
begin

text \<open>
  Lazy environments (\<open>lazy_ask\<close> of \<open>doeff_core_effects/handlers.py\<close>): \<open>Ask\<close> of a key whose value is a
  program evaluates the program once and caches what it returns, with the keys it asked on the way;
  \<open>Local\<close> runs a program with some keys overridden, in a scope with a cache of its own. A program is
  what it asks next; one task runs at a time, so a semaphore is only ever found held by an evaluation
  that is still going on, and then the run waits for ever (\<open>None\<close>). The recursion of lazy values is
  bounded by fuel. \<open>outer\<close> answers the keys that are passed to the handlers outside.
\<close>

section \<open>Programs and scopes\<close>

datatype (plugins only: code size) lval = LvNone | LvInt int | LvStr string | LvTuple "lval list"

datatype (plugins only: code size) lexn = LKeyError string | LRaised string

type_synonym lres = "lexn + lval"

datatype (plugins only: code) lprog =
    LRet lval
  | LThrow lexn
  | LAsk string "lres \<Rightarrow> lprog"
  | LLocal "(string \<times> item) list" lprog "lres \<Rightarrow> lprog"
and item = Plain lval | Lazy lprog

type_synonym lenv = "(string, item) dict"

record scope =
  sc_env :: lenv \<comment> \<open>\<open>effective_env\<close>\<close>
  sc_overrides :: "string set"
  sc_id :: nat \<comment> \<open>which scope cache\<close>

type_synonym cache = "(string, lval \<times> string set) dict" \<comment> \<open>values and their dependencies\<close>

record lazy_state =
  lz_shared :: cache
  lz_scopes :: "(nat, cache) dict"
  lz_next :: nat
  lz_stack :: "string set list" \<comment> \<open>\<open>eval_stack\<close>, innermost first\<close>
  lz_held :: "string list" \<comment> \<open>the keys whose semaphore is taken\<close>

definition lazy_start :: lazy_state where
  "lazy_start = \<lparr>lz_shared = [], lz_scopes = [], lz_next = 1, lz_stack = [], lz_held = []\<rparr>"

definition base_scope :: "lenv \<Rightarrow> scope" where
  "base_scope env = \<lparr>sc_env = env, sc_overrides = {}, sc_id = 0\<rparr>"

definition scope_cache :: "scope \<Rightarrow> lazy_state \<Rightarrow> cache" where
  "scope_cache sc s = (case dget (lz_scopes s) (sc_id sc) of None \<Rightarrow> [] | Some c \<Rightarrow> c)"

definition cache_lookup :: "scope \<Rightarrow> string \<Rightarrow> lazy_state \<Rightarrow> (lval \<times> string set) option" where
  "cache_lookup sc key s =
     (case dget (scope_cache sc s) key of
        Some entry \<Rightarrow> Some entry
      | None \<Rightarrow>
          (case dget (lz_shared s) key of
             Some (v, deps) \<Rightarrow> if deps \<inter> sc_overrides sc = {} then Some (v, deps) else None
           | None \<Rightarrow> None))"

text \<open>A cached \<open>None\<close> counts as a miss.\<close>

definition cache_hit :: "scope \<Rightarrow> string \<Rightarrow> lazy_state \<Rightarrow> (lval \<times> string set) option" where
  "cache_hit sc key s = (case cache_lookup sc key s of Some (v, deps) \<Rightarrow> if v = LvNone then None else Some (v, deps) | None \<Rightarrow> None)"

definition cache_store :: "scope \<Rightarrow> string \<Rightarrow> lval \<Rightarrow> string set \<Rightarrow> lazy_state \<Rightarrow> lazy_state" where
  "cache_store sc key v deps s =
     (if deps \<inter> sc_overrides sc \<noteq> {}
      then s\<lparr>lz_scopes := dput (sc_id sc) (dput key (v, deps) (scope_cache sc s)) (lz_scopes s)\<rparr>
      else s\<lparr>lz_shared := dput key (v, deps) (lz_shared s)\<rparr>)"

definition track :: "string set \<Rightarrow> lazy_state \<Rightarrow> lazy_state" where
  "track keys s = s\<lparr>lz_stack := (case lz_stack s of [] \<Rightarrow> [] | D # Ds \<Rightarrow> (D \<union> keys) # Ds)\<rparr>"

definition enter_scope :: "scope \<Rightarrow> lenv \<Rightarrow> lazy_state \<Rightarrow> scope \<times> lazy_state" where
  "enter_scope sc d s =
     (\<lparr>sc_env = fold (\<lambda>(k, v). dput k v) d (sc_env sc), sc_overrides = sc_overrides sc \<union> set (dkeys d), sc_id = lz_next s\<rparr>,
      s\<lparr>lz_next := lz_next s + 1\<rparr>)"

definition missing :: "bool \<Rightarrow> (string \<Rightarrow> lres) \<Rightarrow> string \<Rightarrow> lres" where
  "missing strict outer key = (if strict then Inl (LKeyError key) else outer key)"

section \<open>Asking\<close>

type_synonym asker = "scope \<Rightarrow> string \<Rightarrow> lazy_state \<Rightarrow> (lres \<times> lazy_state) option"

primrec lrun :: "asker \<Rightarrow> lprog \<Rightarrow> scope \<Rightarrow> lazy_state \<Rightarrow> (lres \<times> lazy_state) option" where
  "lrun ask (LRet v) sc s = Some (Inr v, s)"
| "lrun ask (LThrow e) sc s = Some (Inl e, s)"
| "lrun ask (LAsk key c) sc s =
     (case ask sc key s of None \<Rightarrow> None | Some (r, s') \<Rightarrow> lrun ask (c r) sc s')"
| "lrun ask (LLocal d p c) sc s =
     (case enter_scope sc d s of
        (sc', s1) \<Rightarrow> (case lrun ask p sc' s1 of None \<Rightarrow> None | Some (r, s2) \<Rightarrow> lrun ask (c r) sc s2))"

definition finish_evaluation :: "scope \<Rightarrow> string \<Rightarrow> lres \<Rightarrow> lazy_state \<Rightarrow> lres \<times> lazy_state" where
  "finish_evaluation sc key r s =
     (let deps = (case lz_stack s of [] \<Rightarrow> {} | D # Ds \<Rightarrow> D);
          s' = s\<lparr>lz_stack := tl (lz_stack s), lz_held := remove1 key (lz_held s)\<rparr>
      in case r of Inl e \<Rightarrow> (Inl e, s') | Inr v \<Rightarrow> (Inr v, track deps (cache_store sc key v deps s')))"

fun lask :: "bool \<Rightarrow> (string \<Rightarrow> lres) \<Rightarrow> nat \<Rightarrow> asker" where
  "lask strict outer 0 sc key s = None"
| "lask strict outer (Suc n) sc key s =
     (let s = track {key} s in
      case dget (sc_env sc) key of
        None \<Rightarrow> Some (missing strict outer key, s)
      | Some (Plain v) \<Rightarrow> Some (Inr v, s)
      | Some (Lazy p) \<Rightarrow>
          (case cache_hit sc key s of
             Some (v, deps) \<Rightarrow> Some (Inr v, track deps s)
           | None \<Rightarrow>
               if key \<in> set (lz_held s) then None
               else
                 (case lrun (lask strict outer n) p sc (s\<lparr>lz_held := key # lz_held s, lz_stack := {} # lz_stack s\<rparr>) of
                    None \<Rightarrow> None
                  | Some (r, s') \<Rightarrow> Some (finish_evaluation sc key r s'))))"

definition lazy_ask :: "bool \<Rightarrow> (string \<Rightarrow> lres) \<Rightarrow> nat \<Rightarrow> lenv \<Rightarrow> lprog \<Rightarrow> lres option" where
  "lazy_ask strict outer n env p =
     map_option fst (lrun (lask strict outer n) p (base_scope env) lazy_start)"

section \<open>The reference: every ask evaluates again\<close>

text \<open>With the result, the keys asked on the way.\<close>

primrec rrun :: "(lenv \<Rightarrow> string \<Rightarrow> (lres \<times> string set) option) \<Rightarrow> lprog \<Rightarrow> lenv \<Rightarrow> (lres \<times> string set) option" where
  "rrun ask (LRet v) env = Some (Inr v, {})"
| "rrun ask (LThrow e) env = Some (Inl e, {})"
| "rrun ask (LAsk key c) env =
     (case ask env key of
        None \<Rightarrow> None
      | Some (r, F) \<Rightarrow> map_option (map_prod id ((\<union>) F)) (rrun ask (c r) env))"
| "rrun ask (LLocal d p c) env =
     (case rrun ask p (fold (\<lambda>(k, v). dput k v) d env) of
        None \<Rightarrow> None
      | Some (r, F) \<Rightarrow> map_option (map_prod id ((\<union>) F)) (rrun ask (c r) env))"

fun rask :: "bool \<Rightarrow> (string \<Rightarrow> lres) \<Rightarrow> nat \<Rightarrow> lenv \<Rightarrow> string \<Rightarrow> (lres \<times> string set) option" where
  "rask strict outer 0 env key = None"
| "rask strict outer (Suc n) env key =
     (case dget env key of
        None \<Rightarrow> Some (missing strict outer key, {key})
      | Some (Plain v) \<Rightarrow> Some (Inr v, {key})
      | Some (Lazy p) \<Rightarrow> map_option (map_prod id (insert key)) (rrun (rask strict outer n) p env))"

end
