(* ===== verification/Lazy_Facts.thy ===== *)
theory Lazy_Facts
  imports Lazy_Ask
begin

text \<open>
  Lazy environments return what evaluating every ask again would return (\<open>lazy_ask\<close> of
  \<open>doeff_core_effects/handlers.py\<close>), as long as overrides are plain values and no program goes on after
  an ask has failed.
\<close>

section \<open>The reference reads only what it asks\<close>

definition agree :: "lenv \<Rightarrow> lenv \<Rightarrow> string set \<Rightarrow> bool" where
  "agree E E' F \<longleftrightarrow> (\<forall>k \<in> F. dget E k = dget E' k)"

abbreviation merged :: "lenv \<Rightarrow> lenv \<Rightarrow> lenv" where
  "merged d E \<equiv> fold (\<lambda>(k, v). dput k v) d E"

lemma dget_merged: "dget (merged d E) k = (case dget (rev d) k of None \<Rightarrow> dget E k | Some v \<Rightarrow> Some v)"
  by (induction d arbitrary: E) (auto simp: map_add_def split: option.split)

lemma agree_merged: "agree E E' F \<Longrightarrow> agree (merged d E) (merged d E') F"
  by (simp add: agree_def dget_merged split: option.split)

lemma agree_Un: "agree E E' (F \<union> G) \<longleftrightarrow> agree E E' F \<and> agree E E' G"
  by (auto simp: agree_def)

lemma rrun_ask_iff:
  "rrun ask (LAsk k c) E = Some (r, F) \<longleftrightarrow>
     (\<exists>r1 F1 F2. ask E k = Some (r1, F1) \<and> rrun ask (c r1) E = Some (r, F2) \<and> F = F1 \<union> F2)"
  by (cases "ask E k") auto

lemma rrun_local_iff:
  "rrun ask (LLocal d p c) E = Some (r, F) \<longleftrightarrow>
     (\<exists>r1 F1 F2. rrun ask p (merged d E) = Some (r1, F1) \<and> rrun ask (c r1) E = Some (r, F2) \<and> F = F1 \<union> F2)"
  by (cases "rrun ask p (merged d E)") auto

lemma rask_Suc_iff:
  "rask st ot (Suc n) E k = Some (r, F) \<longleftrightarrow>
     (case dget E k of
        None \<Rightarrow> r = missing st ot k \<and> F = {k}
      | Some (Plain v) \<Rightarrow> r = Inr v \<and> F = {k}
      | Some (Lazy p) \<Rightarrow> \<exists>F'. rrun (rask st ot n) p E = Some (r, F') \<and> F = insert k F')"
  by (auto split: option.split item.split)

lemma rrun_frame:
  assumes "\<And>E E' k r F. ask E k = Some (r, F) \<Longrightarrow> agree E E' F \<Longrightarrow> ask E' k = Some (r, F)"
  shows "rrun ask p E = Some (r, F) \<Longrightarrow> agree E E' F \<Longrightarrow> rrun ask p E' = Some (r, F)"
proof (induction p arbitrary: E E' r F rule: lprog.induct [of _ "\<lambda>_. True"])
  case (LAsk k c)
  from LAsk.prems(1) obtain r1 F1 F2 where k: "ask E k = Some (r1, F1)" "rrun ask (c r1) E = Some (r, F2)" "F = F1 \<union> F2"
    unfolding rrun_ask_iff by blast
  with LAsk.prems(2) have agree: "agree E E' F1" "agree E E' F2" by (simp_all add: agree_Un)
  have "ask E' k = Some (r1, F1)" by (rule assms [OF k(1) agree(1)])
  moreover have "rrun ask (c r1) E' = Some (r, F2)" by (rule LAsk.IH [OF _ k(2) agree(2)]) simp
  ultimately show ?case unfolding rrun_ask_iff using k(3) by blast
next
  case (LLocal d q c)
  from LLocal.prems(1) obtain r1 F1 F2 where k: "rrun ask q (merged d E) = Some (r1, F1)"
      "rrun ask (c r1) E = Some (r, F2)" "F = F1 \<union> F2"
    unfolding rrun_local_iff by blast
  with LLocal.prems(2) have agree: "agree E E' F1" "agree E E' F2" by (simp_all add: agree_Un)
  have "rrun ask q (merged d E') = Some (r1, F1)" by (rule LLocal.IH(1) [OF k(1) agree_merged [OF agree(1)]])
  moreover have "rrun ask (c r1) E' = Some (r, F2)" by (rule LLocal.IH(2) [OF _ k(2) agree(2)]) simp
  ultimately show ?case unfolding rrun_local_iff using k(3) by blast
qed simp_all

lemma rask_frame: "rask st ot n E k = Some (r, F) \<Longrightarrow> agree E E' F \<Longrightarrow> rask st ot n E' k = Some (r, F)"
proof (induction n arbitrary: E E' k r F)
  case (Suc n)
  have k: "k \<in> F" using Suc.prems(1) unfolding rask_Suc_iff by (auto split: option.splits item.splits)
  then have same: "dget E' k = dget E k" using Suc.prems(2) by (simp add: agree_def)
  have lazy: "rrun (rask st ot n) p E' = Some (r, F')" if "rrun (rask st ot n) p E = Some (r, F')" "F = insert k F'" for p F'
    by (rule rrun_frame [OF Suc.IH that(1)]) (use Suc.prems(2) that(2) in \<open>auto simp: agree_def\<close>)
  show ?case
    using Suc.prems(1) lazy unfolding rask_Suc_iff same by (auto split: option.splits item.splits)
qed simp

lemma rrun_more:
  assumes "\<And>E k r F. ask E k = Some (r, F) \<Longrightarrow> ask' E k = Some (r, F)"
  shows "rrun ask p E = Some (r, F) \<Longrightarrow> rrun ask' p E = Some (r, F)"
proof (induction p arbitrary: E r F rule: lprog.induct [of _ "\<lambda>_. True"])
  case (LAsk k c)
  then show ?case unfolding rrun_ask_iff using assms by blast
next
  case (LLocal d q c)
  then show ?case unfolding rrun_local_iff by blast
qed simp_all

lemma rask_Suc: "rask st ot n E k = Some (r, F) \<Longrightarrow> rask st ot (Suc n) E k = Some (r, F)"
proof (induction n arbitrary: E k r F)
  case (Suc n)
  have "rrun (rask st ot n) p E = Some (r, F') \<Longrightarrow> rrun (rask st ot (Suc n)) p E = Some (r, F')" for p F'
    by (rule rrun_more [OF Suc.IH])
  then show ?case
    using Suc.prems unfolding rask_Suc_iff [of st ot "Suc n"] rask_Suc_iff [of st ot n]
    by (auto split: option.splits item.splits)
qed simp

lemma rask_more: "n \<le> m \<Longrightarrow> rask st ot n E k = Some (r, F) \<Longrightarrow> rask st ot m E k = Some (r, F)"
  by (induction m rule: dec_induct) (simp_all add: rask_Suc del: rask.simps)

lemma rask_unique: "rask st ot n E k = Some (r, F) \<Longrightarrow> rask st ot m E k = Some (r', F') \<Longrightarrow> r = r' \<and> F = F'"
  using rask_more [of n m st ot E k r F] rask_more [of m n st ot E k r' F'] by (cases "n \<le> m") auto

section \<open>Well-formed programs and environments\<close>

text \<open>
  \<open>rk\<close> ranks the keys: the program of a key asks keys of smaller rank, so evaluation does not go in
  circles. A program does not go on after a failure, and overrides with plain values only.
\<close>

definition all_plain :: "lenv \<Rightarrow> bool" where
  "all_plain d \<longleftrightarrow> list_all (\<lambda>(k, i). case i of Plain v \<Rightarrow> True | Lazy p \<Rightarrow> False) d"

primrec wf_prog :: "(string \<Rightarrow> nat) \<Rightarrow> nat \<Rightarrow> lprog \<Rightarrow> bool" where
  "wf_prog rk b (LRet v) \<longleftrightarrow> True"
| "wf_prog rk b (LThrow e) \<longleftrightarrow> True"
| "wf_prog rk b (LAsk k c) \<longleftrightarrow> rk k < b \<and> (\<forall>e. c (Inl e) = LThrow e) \<and> (\<forall>r. wf_prog rk b (c r))"
| "wf_prog rk b (LLocal d p c) \<longleftrightarrow>
     all_plain d \<and> wf_prog rk b p \<and> (\<forall>e. c (Inl e) = LThrow e) \<and> (\<forall>r. wf_prog rk b (c r))"

definition well_ranked :: "(string \<Rightarrow> nat) \<Rightarrow> lenv \<Rightarrow> bool" where
  "well_ranked rk env \<longleftrightarrow> (\<forall>k p. dget env k = Some (Lazy p) \<longrightarrow> wf_prog rk (rk k) p)"

text \<open>The environments of the scopes of a run: \<open>env\<close> with plain overrides.\<close>

definition scoped :: "lenv \<Rightarrow> lenv \<Rightarrow> string set \<Rightarrow> bool" where
  "scoped env E ovr \<longleftrightarrow> (\<forall>k \<in> ovr. \<exists>v. dget E k = Some (Plain v)) \<and> (\<forall>k. k \<notin> ovr \<longrightarrow> dget E k = dget env k)"

lemma scoped_base: "scoped env env {}"
  by (simp add: scoped_def)

lemma scoped_merged:
  assumes "all_plain d" and "scoped env E ovr"
  shows "scoped env (merged d E) (ovr \<union> set (dkeys d))"
proof -
  have plain: "\<exists>v. i = Plain v" if "dget (rev d) k = Some i" for k i
    using assms(1) map_of_SomeD [OF that] by (auto simp: all_plain_def list_all_iff split: item.splits)
  have none: "dget (rev d) k = None \<longleftrightarrow> k \<notin> set (dkeys d)" for k
    by (simp add: map_of_eq_None_iff)
  show ?thesis
    unfolding scoped_def
  proof (intro conjI ballI allI impI)
    fix k assume "k \<in> ovr \<union> set (dkeys d)"
    then show "\<exists>v. dget (merged d E) k = Some (Plain v)"
      using plain [of k] none [of k] assms(2) by (cases "dget (rev d) k") (auto simp: dget_merged scoped_def)
  next
    fix k assume "k \<notin> ovr \<union> set (dkeys d)"
    then show "dget (merged d E) k = dget env k"
      using none [of k] assms(2) by (simp add: dget_merged scoped_def)
  qed
qed

lemma scoped_lazy: "scoped env E ovr \<Longrightarrow> dget E k = Some (Lazy p) \<Longrightarrow> k \<notin> ovr \<and> dget env k = Some (Lazy p)"
  unfolding scoped_def by (metis item.distinct(1) option.inject)

lemma rrun_total:
  assumes "\<And>E ovr k. scoped env E ovr \<Longrightarrow> rk k < b \<Longrightarrow> \<exists>r F. ask E k = Some (r, F)"
  shows "wf_prog rk b p \<Longrightarrow> scoped env E ovr \<Longrightarrow> \<exists>r F. rrun ask p E = Some (r, F)"
proof (induction p arbitrary: E ovr rule: lprog.induct [of _ "\<lambda>_. True"])
  case (LAsk k c)
  have "rk k < b" "\<forall>r. wf_prog rk b (c r)" using LAsk.prems(1) by simp_all
  obtain r F where "ask E k = Some (r, F)" using assms [OF LAsk.prems(2) \<open>rk k < b\<close>] by blast
  moreover obtain r' F' where "rrun ask (c r) E = Some (r', F')"
    using LAsk.IH [OF rangeI _ LAsk.prems(2)] \<open>\<forall>r. wf_prog rk b (c r)\<close> by blast
  ultimately show ?case unfolding rrun_ask_iff by blast
next
  case (LLocal d q c)
  have d: "all_plain d" and q: "wf_prog rk b q" and c: "\<forall>r. wf_prog rk b (c r)" using LLocal.prems(1) by simp_all
  obtain r F where "rrun ask q (merged d E) = Some (r, F)"
    using LLocal.IH(1) [OF q scoped_merged [OF d LLocal.prems(2)]] by blast
  moreover obtain r' F' where "rrun ask (c r) E = Some (r', F')"
    using LLocal.IH(2) [OF rangeI _ LLocal.prems(2)] c by blast
  ultimately show ?case unfolding rrun_local_iff by blast
qed simp_all

lemma rask_total:
  assumes "well_ranked rk env"
  shows "scoped env E ovr \<Longrightarrow> rk k < n \<Longrightarrow> \<exists>r F. rask st ot n E k = Some (r, F)"
proof (induction n arbitrary: E ovr k)
  case (Suc n)
  have "\<exists>r F. rrun (rask st ot n) p E = Some (r, F)" if "dget E k = Some (Lazy p)" for p
  proof -
    have "wf_prog rk (rk k) p" using assms scoped_lazy [OF Suc.prems(1) that] by (simp add: well_ranked_def)
    moreover have "\<exists>r F. rask st ot n E j = Some (r, F)" if "scoped env E ovr" "rk j < rk k" for E ovr j
      using Suc.IH [OF that(1)] that(2) Suc.prems(2) by simp
    ultimately show ?thesis using rrun_total [of env rk "rk k" "rask st ot n" p E ovr] Suc.prems(1) by blast
  qed
  note lazy = this
  show ?case
  proof (cases "dget E k")
    case (Some i)
    then show ?thesis unfolding rask_Suc_iff using lazy by (cases i) auto
  qed (simp add: rask_Suc_iff del: rask.simps)
qed simp

section \<open>What the caches hold\<close>

definition good_entry :: "bool \<Rightarrow> (string \<Rightarrow> lres) \<Rightarrow> lenv \<Rightarrow> string \<Rightarrow> lval \<Rightarrow> string set \<Rightarrow> bool" where
  "good_entry st ot E k v D \<longleftrightarrow> (\<exists>n F. rask st ot n E k = Some (Inr v, F) \<and> F \<subseteq> insert k D)"

text \<open>\<open>G\<close> gives the environment of each scope cache.\<close>

definition caches_ok :: "bool \<Rightarrow> (string \<Rightarrow> lres) \<Rightarrow> lenv \<Rightarrow> (nat \<Rightarrow> lenv) \<Rightarrow> lazy_state \<Rightarrow> bool" where
  "caches_ok st ot env G s \<longleftrightarrow>
     (\<forall>k v D. dget (lz_shared s) k = Some (v, D) \<longrightarrow>
        (\<forall>E ovr p. scoped env E ovr \<longrightarrow> D \<inter> ovr = {} \<longrightarrow> dget E k = Some (Lazy p) \<longrightarrow> good_entry st ot E k v D)) \<and>
     (\<forall>i c k v D. dget (lz_scopes s) i = Some c \<longrightarrow> dget c k = Some (v, D) \<longrightarrow>
        i < lz_next s \<and> good_entry st ot (G i) k v D)"

definition live :: "lenv \<Rightarrow> (nat \<Rightarrow> lenv) \<Rightarrow> lazy_state \<Rightarrow> scope \<Rightarrow> bool" where
  "live env G s sc \<longleftrightarrow> sc_id sc < lz_next s \<and> G (sc_id sc) = sc_env sc \<and> scoped env (sc_env sc) (sc_overrides sc)"

definition moves :: "(nat \<Rightarrow> lenv) \<Rightarrow> lazy_state \<Rightarrow> (nat \<Rightarrow> lenv) \<Rightarrow> lazy_state \<Rightarrow> bool" where
  "moves G s G' s' \<longleftrightarrow> lz_next s \<le> lz_next s' \<and> (\<forall>i < lz_next s. G' i = G i) \<and> lz_held s' = lz_held s"

definition grows :: "string set \<Rightarrow> lazy_state \<Rightarrow> lazy_state \<Rightarrow> bool" where
  "grows F s s' \<longleftrightarrow>
     (case lz_stack s of [] \<Rightarrow> lz_stack s' = []
      | D # Ds \<Rightarrow> (\<exists>D'. lz_stack s' = D' # Ds \<and> D \<union> F \<subseteq> D'))"

abbreviation seen :: "lres \<Rightarrow> string set \<Rightarrow> string set" where
  "seen r F \<equiv> (case r of Inl e \<Rightarrow> {} | Inr v \<Rightarrow> F)"

definition same_answer ::
    "bool \<Rightarrow> (string \<Rightarrow> lres) \<Rightarrow> lenv \<Rightarrow> (nat \<Rightarrow> lenv) \<Rightarrow> lazy_state \<Rightarrow> (lres \<times> lazy_state) option \<Rightarrow>
     (lres \<times> string set) option \<Rightarrow> bool" where
  "same_answer st ot env G s cached reference \<longleftrightarrow>
     (\<exists>r F s' G'. cached = Some (r, s') \<and> reference = Some (r, F) \<and> caches_ok st ot env G' s' \<and> moves G s G' s' \<and>
        grows (seen r F) s s')"

lemma moves_refl [simp]: "moves G s G s"
  by (simp add: moves_def)

lemma moves_trans: "moves G s G' s' \<Longrightarrow> moves G' s' G'' s'' \<Longrightarrow> moves G s G'' s''"
  by (auto simp: moves_def)

lemma grows_refl [simp]: "grows {} s s"
  by (simp add: grows_def split: list.split)

lemma grows_trans:
  assumes "grows F s s'" and "grows F' s' s''"
  shows "grows (F \<union> F') s s''"
proof (cases "lz_stack s")
  case Nil
  then show ?thesis using assms by (simp add: grows_def)
next
  case (Cons D Ds)
  with assms(1) obtain D' where D': "lz_stack s' = D' # Ds" "D \<union> F \<subseteq> D'" by (auto simp: grows_def)
  with assms(2) obtain D'' where D'': "lz_stack s'' = D'' # Ds" "D' \<union> F' \<subseteq> D''" by (auto simp: grows_def)
  have "D \<union> (F \<union> F') \<subseteq> D''" using D'(2) D''(2) by blast
  then show ?thesis using Cons D''(1) by (simp add: grows_def)
qed

lemma grows_mono: "grows F s s' \<Longrightarrow> F' \<subseteq> F \<Longrightarrow> grows F' s s'"
  by (cases "lz_stack s") (auto simp: grows_def)

lemma live_moves: "live env G s sc \<Longrightarrow> moves G s G' s' \<Longrightarrow> live env G' s' sc"
  by (auto simp: live_def moves_def)

lemma track_fields [simp]:
  "lz_shared (track K s) = lz_shared s" "lz_scopes (track K s) = lz_scopes s" "lz_next (track K s) = lz_next s"
  "lz_held (track K s) = lz_held s"
  by (simp_all add: track_def)

lemma grows_track: "grows K s (track K s)"
  by (auto simp: grows_def track_def split: list.split)

lemma caches_ok_fields:
  "lz_shared s' = lz_shared s \<Longrightarrow> lz_scopes s' = lz_scopes s \<Longrightarrow> lz_next s' = lz_next s \<Longrightarrow>
   caches_ok st ot env G s' = caches_ok st ot env G s"
  by (simp add: caches_ok_def)

section \<open>Cached and reference runs agree\<close>

lemma same_answer_then:
  assumes "moves G s G1 s1" and "grows (seen r1 F1) s s1"
    and rest: "same_answer st ot env G1 s1 (lrun ask (c r1) sc s1) (rrun ask' (c r1) E)"
    and "\<And>e. r1 = Inl e \<Longrightarrow> c r1 = LThrow e"
  shows "same_answer st ot env G s (lrun ask (c r1) sc s1) (map_option (map_prod id ((\<union>) F1)) (rrun ask' (c r1) E))"
proof -
  from rest obtain r F s' G' where r: "lrun ask (c r1) sc s1 = Some (r, s')" "rrun ask' (c r1) E = Some (r, F)"
      "caches_ok st ot env G' s'" "moves G1 s1 G' s'" "grows (seen r F) s1 s'"
    by (auto simp: same_answer_def)
  have "seen r (F1 \<union> F) \<subseteq> seen r1 F1 \<union> seen r F"
    using assms(4) r(1) by (cases r1) (auto split: sum.splits)
  then have "grows (seen r (F1 \<union> F)) s s'" using grows_mono [OF grows_trans [OF assms(2) r(5)]] by blast
  then show ?thesis using r moves_trans [OF assms(1) r(4)] by (auto simp: same_answer_def)
qed

lemma enter_scope_ok:
  assumes "caches_ok st ot env G s" and "live env G s sc" and "all_plain d" and "enter_scope sc d s = (sc', s1)"
  shows "\<exists>G1. caches_ok st ot env G1 s1 \<and> live env G1 s1 sc' \<and> moves G s G1 s1"
    and "sc_env sc' = merged d (sc_env sc)" and "grows {} s s1"
proof -
  have "sc' = fst (enter_scope sc d s)" "s1 = snd (enter_scope sc d s)" using assms(4) by simp_all
  then have sc': "sc_env sc' = merged d (sc_env sc)" "sc_overrides sc' = sc_overrides sc \<union> set (dkeys d)" "sc_id sc' = lz_next s"
      and s1: "s1 = s\<lparr>lz_next := lz_next s + 1\<rparr>"
    by (simp_all add: enter_scope_def)
  show "sc_env sc' = merged d (sc_env sc)" by (rule sc'(1))
  show "grows {} s s1" by (simp add: grows_def s1 split: list.split)
  let ?G = "G(lz_next s := sc_env sc')"
  have "scoped env (sc_env sc') (sc_overrides sc')"
    unfolding sc'(1,2) by (rule scoped_merged [OF assms(3)]) (use assms(2) in \<open>simp add: live_def\<close>)
  moreover have "caches_ok st ot env ?G s1"
    using assms(1) unfolding caches_ok_def s1 by (fastforce simp: less_Suc_eq)
  ultimately show "\<exists>G1. caches_ok st ot env G1 s1 \<and> live env G1 s1 sc' \<and> moves G s G1 s1"
    by (intro exI [of _ ?G]) (simp add: live_def moves_def sc'(3) s1)
qed

lemma run_agrees:
  assumes ask: "\<And>G s sc k. caches_ok st ot env G s \<Longrightarrow> live env G s sc \<Longrightarrow> rk k < b \<Longrightarrow>
      (\<And>h. h \<in> set (lz_held s) \<Longrightarrow> b \<le> rk h) \<Longrightarrow>
      same_answer st ot env G s (lask st ot n sc k s) (rask st ot n (sc_env sc) k)"
  shows "wf_prog rk b p \<Longrightarrow> caches_ok st ot env G s \<Longrightarrow> live env G s sc \<Longrightarrow> (\<And>h. h \<in> set (lz_held s) \<Longrightarrow> b \<le> rk h) \<Longrightarrow>
    same_answer st ot env G s (lrun (lask st ot n) p sc s) (rrun (rask st ot n) p (sc_env sc))"
proof (induction p arbitrary: G s sc rule: lprog.induct [of _ "\<lambda>_. True"])
  case (LAsk k c)
  have k: "rk k < b" and errors: "\<forall>e. c (Inl e) = LThrow e" and c: "\<forall>r. wf_prog rk b (c r)" using LAsk.prems(1) by simp_all
  from ask [OF LAsk.prems(2,3) k LAsk.prems(4)] obtain r F s1 G1 where first:
      "lask st ot n sc k s = Some (r, s1)" "rask st ot n (sc_env sc) k = Some (r, F)"
      "caches_ok st ot env G1 s1" "moves G s G1 s1" "grows (seen r F) s s1"
    unfolding same_answer_def by blast
  have held: "h \<in> set (lz_held s1) \<Longrightarrow> b \<le> rk h" for h using first(4) LAsk.prems(4) by (simp add: moves_def)
  have "same_answer st ot env G1 s1 (lrun (lask st ot n) (c r) sc s1) (rrun (rask st ot n) (c r) (sc_env sc))"
    by (rule LAsk.IH [OF rangeI c [rule_format] first(3) live_moves [OF LAsk.prems(3) first(4)] held])
  from same_answer_then [where c = c, OF first(4,5) this] show ?case using first(1,2) errors by simp
next
  case (LLocal d q c)
  have d: "all_plain d" and q: "wf_prog rk b q" and errors: "\<forall>e. c (Inl e) = LThrow e" and c: "\<forall>r. wf_prog rk b (c r)"
    using LLocal.prems(1) by simp_all
  obtain sc' s1 where enter: "enter_scope sc d s = (sc', s1)" by force
  note scope = enter_scope_ok [OF LLocal.prems(2,3) d enter]
  obtain G1 where G1: "caches_ok st ot env G1 s1" "live env G1 s1 sc'" "moves G s G1 s1" using scope(1) by blast
  have held: "h \<in> set (lz_held s1) \<Longrightarrow> b \<le> rk h" for h using G1(3) LLocal.prems(4) by (simp add: moves_def)
  from LLocal.IH(1) [OF q G1(1,2) held] obtain r F s2 G2 where body:
      "lrun (lask st ot n) q sc' s1 = Some (r, s2)" "rrun (rask st ot n) q (sc_env sc') = Some (r, F)"
      "caches_ok st ot env G2 s2" "moves G1 s1 G2 s2" "grows (seen r F) s1 s2"
    unfolding same_answer_def by blast
  have moved: "moves G s G2 s2" by (rule moves_trans [OF G1(3) body(4)])
  have held2: "h \<in> set (lz_held s2) \<Longrightarrow> b \<le> rk h" for h using moved LLocal.prems(4) by (simp add: moves_def)
  have "same_answer st ot env G2 s2 (lrun (lask st ot n) (c r) sc s2) (rrun (rask st ot n) (c r) (sc_env sc))"
    by (rule LLocal.IH(2) [OF rangeI c [rule_format] body(3) live_moves [OF LLocal.prems(3) moved] held2])
  moreover have "grows (seen r F) s s2" using grows_trans [OF scope(3) body(5)] by simp
  ultimately have "same_answer st ot env G s (lrun (lask st ot n) (c r) sc s2)
      (map_option (map_prod id ((\<union>) F)) (rrun (rask st ot n) (c r) (sc_env sc)))"
    by (intro same_answer_then [where c = c and ?r1.0 = r and ?F1.0 = F, OF moved]) (use errors in simp_all)
  then show ?case using body(1,2) enter scope(2) by simp
qed (use moves_refl in \<open>auto simp: same_answer_def\<close>)

lemma reference_unique:
  assumes "well_ranked rk env" and "scoped env E ovr" and "rk k < n" and "good_entry st ot E k v D"
  obtains F where "rask st ot n E k = Some (Inr v, F)" and "F \<subseteq> insert k D"
proof -
  obtain r F where F: "rask st ot n E k = Some (r, F)" using rask_total [OF assms(1,2,3)] by blast
  obtain m F' where F': "rask st ot m E k = Some (Inr v, F')" "F' \<subseteq> insert k D"
    using assms(4) by (auto simp: good_entry_def)
  show thesis using rask_unique [OF F F'(1)] F F'(2) that by blast
qed

lemma cache_hit_good:
  assumes "caches_ok st ot env G s" and "live env G s sc" and "cache_hit sc k s = Some (v, D)"
    and "dget (sc_env sc) k = Some (Lazy p)"
  shows "good_entry st ot (sc_env sc) k v D"
proof -
  have "cache_lookup sc k s = Some (v, D)"
    using assms(3) by (auto simp: cache_hit_def split: option.splits prod.splits if_splits)
  then consider c where "dget (lz_scopes s) (sc_id sc) = Some c" "dget c k = Some (v, D)"
    | "dget (lz_shared s) k = Some (v, D)" "D \<inter> sc_overrides sc = {}"
    by (auto simp: cache_lookup_def scope_cache_def split: option.splits prod.splits if_splits)
  then show ?thesis
  proof cases
    case 1
    then have "good_entry st ot (G (sc_id sc)) k v D" using assms(1) unfolding caches_ok_def by blast
    then show ?thesis using assms(2) by (simp add: live_def)
  next
    case 2
    moreover have "scoped env (sc_env sc) (sc_overrides sc)" using assms(2) by (simp add: live_def)
    ultimately show ?thesis using assms(1,4) unfolding caches_ok_def by blast
  qed
qed

lemma store_ok:
  assumes "caches_ok st ot env G s" and "live env G s sc" and "dget (sc_env sc) k = Some (Lazy p)"
    and "rask st ot n (sc_env sc) k = Some (Inr v, insert k F)" and "F \<subseteq> D"
  shows "caches_ok st ot env G (cache_store sc k v D s)"
proof (cases "D \<inter> sc_overrides sc = {}")
  case False
  have good: "good_entry st ot (sc_env sc) k v D" using assms(4,5) by (auto simp: good_entry_def)
  show ?thesis
    unfolding caches_ok_def
  proof (intro conjI allI impI)
    fix i c j w D'
    assume c: "dget (lz_scopes (cache_store sc k v D s)) i = Some c" and j: "dget c j = Some (w, D')"
    have old: "i < lz_next s \<and> good_entry st ot (G i) j w D'"
      if "dget (lz_scopes s) i = Some c'" "dget c' j = Some (w, D')" for c'
      using assms(1) that unfolding caches_ok_def by blast
    have "i < lz_next s \<and> good_entry st ot (G i) j w D'"
    proof (cases "i = sc_id sc")
      case True
      then have c': "c = dput k (v, D) (scope_cache sc s)" using c False by (simp add: cache_store_def)
      show ?thesis
      proof (cases "j = k")
        case True
        then show ?thesis using j c' good assms(2) \<open>i = sc_id sc\<close> by (simp add: live_def)
      next
        case False
        then have "dget (scope_cache sc s) j = Some (w, D')" using j c' by simp
        then show ?thesis using old \<open>i = sc_id sc\<close> by (auto simp: scope_cache_def split: option.splits)
      qed
    next
      case False
      then show ?thesis using old c j \<open>D \<inter> sc_overrides sc \<noteq> {}\<close> by (simp add: cache_store_def)
    qed
    then show "i < lz_next (cache_store sc k v D s)" and "good_entry st ot (G i) j w D'"
      by (simp_all add: cache_store_def)
  qed (use False assms(1) in \<open>auto simp: cache_store_def caches_ok_def\<close>)
next
  case True
  have shared: "good_entry st ot E k v D"
    if "scoped env E ovr" "D \<inter> ovr = {}" "dget E k = Some (Lazy q)" for E ovr q
  proof -
    have "agree (sc_env sc) E (insert k F)"
      unfolding agree_def
    proof
      fix j assume "j \<in> insert k F"
      moreover have "k \<notin> ovr" "k \<notin> sc_overrides sc"
        using scoped_lazy [OF that(1,3)] scoped_lazy [OF _ assms(3), of env "sc_overrides sc"] assms(2)
        by (simp_all add: live_def)
      ultimately have "j \<notin> ovr" "j \<notin> sc_overrides sc" using assms(5) True that(2) by blast+
      then show "dget (sc_env sc) j = dget E j" using that(1) assms(2) by (simp add: scoped_def live_def)
    qed
    then show ?thesis using rask_frame [OF assms(4)] assms(5) by (auto simp: good_entry_def)
  qed
  show ?thesis
    using True assms(1) shared unfolding caches_ok_def cache_store_def by (auto split: if_splits)
qed

lemma store_fields [simp]:
  "lz_next (cache_store sc k v D s) = lz_next s" "lz_held (cache_store sc k v D s) = lz_held s"
  "lz_stack (cache_store sc k v D s) = lz_stack s"
  by (simp_all add: cache_store_def)

lemma grows_stack: "lz_stack s'' = lz_stack s' \<Longrightarrow> grows F s s'' = grows F s s'"
  by (cases "lz_stack s") (simp_all add: grows_def)

lemma finish_evaluation_ok:
  assumes "caches_ok st ot env G s1" and "live env G s sc" and "moves G s G s1"
    and "dget (sc_env sc) k = Some (Lazy p)" and "rrun (rask st ot n) p (sc_env sc) = Some (r, F)"
    and run: "caches_ok st ot env G' s3" "moves G (s1\<lparr>lz_held := k # lz_held s1, lz_stack := {} # lz_stack s1\<rparr>) G' s3"
      "grows (seen r F) (s1\<lparr>lz_held := k # lz_held s1, lz_stack := {} # lz_stack s1\<rparr>) s3"
    and "grows {k} s s1"
  shows "same_answer st ot env G s (Some (finish_evaluation sc k r s3)) (rask st ot (Suc n) (sc_env sc) k)"
proof -
  obtain D where D: "lz_stack s3 = D # lz_stack s1" "seen r F \<subseteq> D" using run(3) by (auto simp: grows_def)
  define s4 where "s4 = s3\<lparr>lz_stack := lz_stack s1, lz_held := lz_held s1\<rparr>"
  have held: "lz_held s3 = k # lz_held s1" using run(2) by (simp add: moves_def)
  have finish: "finish_evaluation sc k r s3 =
      (case r of Inl e \<Rightarrow> (Inl e, s4) | Inr v \<Rightarrow> (Inr v, track D (cache_store sc k v D s4)))"
    by (simp add: finish_evaluation_def D(1) held s4_def split: sum.split)
  have rask: "rask st ot (Suc n) (sc_env sc) k = Some (r, insert k F)" using assms(4,5) by simp
  have ok: "caches_ok st ot env G' s4"
    using run(1) by (rule iffD2 [OF caches_ok_fields, rotated 3]) (simp_all add: s4_def)
  have moves: "moves G s G' s4" using run(2) assms(3) by (simp add: moves_def s4_def)
  have stack: "grows {k} s s4" using assms(9) grows_stack [of s4 s1] by (simp add: s4_def)
  show ?thesis
  proof (cases r)
    case (Inl e)
    then show ?thesis
      unfolding same_answer_def using finish rask ok moves grows_mono [OF stack, of "{}"] by auto
  next
    case (Inr v)
    define s5 where "s5 = cache_store sc k v D s4"
    have live: "live env G' s4 sc" by (rule live_moves [OF assms(2) moves])
    have "caches_ok st ot env G' s5"
      unfolding s5_def by (rule store_ok [OF ok live assms(4) rask [unfolded Inr]]) (use D(2) Inr in simp)
    then have "caches_ok st ot env G' (track D s5)" by (simp add: caches_ok_def)
    moreover have "moves G s G' (track D s5)" using moves by (simp add: moves_def s5_def)
    moreover have "grows (insert k F) s (track D s5)"
    proof -
      have "grows {k} s s5" using stack grows_stack [of s5 s4] by (simp add: s5_def)
      show ?thesis
        by (rule grows_mono [OF grows_trans [OF \<open>grows {k} s s5\<close> grows_track [of D s5]]]) (use D(2) Inr in auto)
    qed
    ultimately show ?thesis
      unfolding same_answer_def using finish rask Inr by (auto simp: s5_def)
  qed
qed

lemma ask_agrees:
  assumes "well_ranked rk env"
  shows "caches_ok st ot env G s \<Longrightarrow> live env G s sc \<Longrightarrow> rk k < n \<Longrightarrow> (\<And>h. h \<in> set (lz_held s) \<Longrightarrow> rk k < rk h) \<Longrightarrow>
    same_answer st ot env G s (lask st ot n sc k s) (rask st ot n (sc_env sc) k)"
proof (induction n arbitrary: G s sc k)
  case (Suc n)
  define s1 where "s1 = track {k} s"
  have ok: "caches_ok st ot env G s1" using Suc.prems(1) by (simp add: caches_ok_def s1_def)
  have moves: "moves G s G s1" by (simp add: moves_def s1_def)
  have grows: "grows {k} s s1" unfolding s1_def by (rule grows_track)
  have live: "live env G s1 sc" by (rule live_moves [OF Suc.prems(2) moves])
  have scoped: "scoped env (sc_env sc) (sc_overrides sc)" using live by (simp add: live_def)
  have easy: "same_answer st ot env G s (Some (r, s1)) (Some (r, {k}))" for r
    unfolding same_answer_def using ok moves grows_mono [OF grows, of "seen r {k}"] by (auto split: sum.splits)
  consider "dget (sc_env sc) k = None" | v where "dget (sc_env sc) k = Some (Plain v)"
    | p where "dget (sc_env sc) k = Some (Lazy p)" by (metis item.exhaust option.exhaust)
  then show ?case
  proof cases
    case 1
    then show ?thesis using easy [of "missing st ot k"] by (simp add: s1_def)
  next
    case 2
    then show ?thesis using easy [of "Inr v"] by (simp add: s1_def)
  next
    case 3
    show ?thesis
    proof (cases "cache_hit sc k s1")
      case (Some vD)
      obtain v D where vD: "vD = (v, D)" by force
      have "good_entry st ot (sc_env sc) k v D"
        using cache_hit_good [OF ok live] Some vD 3 by simp
      from reference_unique [OF assms scoped Suc.prems(3) this]
      obtain F where F: "rask st ot (Suc n) (sc_env sc) k = Some (Inr v, F)" "F \<subseteq> insert k D" by blast
      have "lask st ot (Suc n) sc k s = Some (Inr v, track D s1)"
        using 3 Some vD by (simp add: s1_def [symmetric])
      moreover have "grows F s (track D s1)"
        using grows_mono [OF grows_trans [OF grows grows_track]] F(2) by auto
      moreover have "caches_ok st ot env G (track D s1)" "moves G s G (track D s1)"
        using ok moves by (simp_all add: caches_ok_def moves_def)
      ultimately show ?thesis unfolding same_answer_def using F(1) by auto
    next
      case None
      have free: "k \<notin> set (lz_held s1)" using Suc.prems(4) by (auto simp: s1_def)
      let ?s2 = "s1\<lparr>lz_held := k # lz_held s1, lz_stack := {} # lz_stack s1\<rparr>"
      have ok2: "caches_ok st ot env G ?s2" using ok by (simp add: caches_ok_def)
      have live2: "live env G ?s2 sc" using live by (simp add: live_def)
      have held: "h \<in> set (lz_held ?s2) \<Longrightarrow> rk k \<le> rk h" for h
        using Suc.prems(4) by (auto simp: s1_def less_imp_le)
      have p: "wf_prog rk (rk k) p" using assms scoped_lazy [OF scoped 3] by (simp add: well_ranked_def)
      have "same_answer st ot env G ?s2 (lrun (lask st ot n) p sc ?s2) (rrun (rask st ot n) p (sc_env sc))"
      proof (rule run_agrees [OF _ p ok2 live2 held])
        fix G s sc j
        assume a: "caches_ok st ot env G s" "live env G s sc" "rk j < rk k" "\<And>h. h \<in> set (lz_held s) \<Longrightarrow> rk k \<le> rk h"
        have "rk j < n" using a(3) Suc.prems(3) by simp
        moreover have "rk j < rk h" if "h \<in> set (lz_held s)" for h using a(3) a(4) [OF that] by simp
        ultimately show "same_answer st ot env G s (lask st ot n sc j s) (rask st ot n (sc_env sc) j)"
          using Suc.IH [OF a(1,2)] by blast
      qed simp
      then obtain r F s3 G' where run: "lrun (lask st ot n) p sc ?s2 = Some (r, s3)"
          "rrun (rask st ot n) p (sc_env sc) = Some (r, F)" "caches_ok st ot env G' s3" "moves G ?s2 G' s3"
          "grows (seen r F) ?s2 s3"
        unfolding same_answer_def by blast
      have "lask st ot (Suc n) sc k s = Some (finish_evaluation sc k r s3)"
        using 3 None free run(1) by (simp add: s1_def [symmetric])
      then show ?thesis
        using finish_evaluation_ok [OF ok Suc.prems(2) moves 3 run(2-5) grows] by simp
    qed
  qed
qed simp

text \<open>
  C27: \<open>lazy_ask\<close> answers as if every ask were evaluated again, where lazy values do not ask for each other in
  circles. Let the keys be ranked so that lazy values ask only keys below them, let overrides be plain
  values and let no program go on after a failed ask. Then the run returns, no evaluation waits for its own semaphore, and its result is that of the uncached run.
\<close>

theorem lazy_asks_agree:
  assumes "well_ranked rk env" and "wf_prog rk n p"
  shows "\<exists>r F. lazy_ask strict outer n env p = Some r \<and> rrun (rask strict outer n) p env = Some (r, F)"
proof -
  let ?G = "\<lambda>_. env"
  have "same_answer strict outer env ?G lazy_start (lrun (lask strict outer n) p (base_scope env) lazy_start)
      (rrun (rask strict outer n) p (sc_env (base_scope env)))"
  proof (rule run_agrees [OF _ assms(2)])
    show "caches_ok strict outer env ?G lazy_start" by (simp add: caches_ok_def lazy_start_def)
    show "live env ?G lazy_start (base_scope env)" by (simp add: live_def base_scope_def lazy_start_def scoped_base)
    fix G s sc j
    assume a: "caches_ok strict outer env G s" "live env G s sc" "rk j < n" "\<And>h. h \<in> set (lz_held s) \<Longrightarrow> n \<le> rk h"
    have "rk j < rk h" if "h \<in> set (lz_held s)" for h using a(3) a(4) [OF that] by simp
    then show "same_answer strict outer env G s (lask strict outer n sc j s) (rask strict outer n (sc_env sc) j)"
      using ask_agrees [OF assms(1) a(1-3)] by blast
  qed (simp add: lazy_start_def)
  then show ?thesis unfolding same_answer_def lazy_ask_def by (auto simp: base_scope_def)
qed

section \<open>Where they do not agree\<close>

definition giving :: "lres \<Rightarrow> lprog" where
  "giving r = (case r of Inl e \<Rightarrow> LThrow e | Inr v \<Rightarrow> LRet v)"

text \<open>The value of a key outside, then in a scope with overrides.\<close>

definition outside_and_inside :: "string \<Rightarrow> (string \<times> item) list \<Rightarrow> lprog" where
  "outside_and_inside key d =
     LAsk key (\<lambda>r. case r of Inl e \<Rightarrow> LThrow e | Inr v \<Rightarrow>
       LLocal d (LAsk key giving) (\<lambda>r. case r of Inl e \<Rightarrow> LThrow e | Inr w \<Rightarrow> LRet (LvTuple [v, w])))"

definition derived_env :: lenv where
  "derived_env = [(''base'', Plain (LvInt 1)), (''a'', Lazy (LAsk ''base'' giving))]"

text \<open>\<open>a\<close> falls back to 7 when \<open>b\<close> raises, which it does unless \<open>c\<close> is 1.\<close>

definition fallback_env :: lenv where
  "fallback_env =
     [(''c'', Plain (LvInt 0)),
      (''b'', Lazy (LAsk ''c'' (\<lambda>r. if r = Inr (LvInt 1) then LRet (LvInt 1) else LThrow (LRaised ''ValueError'')))),
      (''a'', Lazy (LAsk ''b'' (\<lambda>r. case r of Inl e \<Rightarrow> LRet (LvInt 7) | Inr v \<Rightarrow> LRet v)))]"

lemma lazy_asks_agree_witness:
  "\<exists>r F. lazy_ask True (\<lambda>_. Inr LvNone) 3 derived_env (outside_and_inside ''a'' [(''base'', Plain (LvInt 2))]) = Some r \<and>
     rrun (rask True (\<lambda>_. Inr LvNone) 3) (outside_and_inside ''a'' [(''base'', Plain (LvInt 2))]) derived_env = Some (r, F)"
  by (rule lazy_asks_agree [of "\<lambda>k. if k = ''a'' then 1 else 0"])
    (simp_all add: well_ranked_def derived_env_def outside_and_inside_def giving_def all_plain_def split: sum.split)

text \<open>
  An overriding program is not run when the key has a cached value, and the dependencies of a failed
  evaluation are lost: both give the value of the outer scope.
\<close>

theorem scopes_see_stale_values:
  "lazy_ask True (\<lambda>_. Inr LvNone) 3 [(''a'', Lazy (LRet (LvInt 1)))]
     (outside_and_inside ''a'' [(''a'', Lazy (LRet (LvInt 2)))]) = Some (Inr (LvTuple [LvInt 1, LvInt 1]))"
  "map_option fst (rrun (rask True (\<lambda>_. Inr LvNone) 3) (outside_and_inside ''a'' [(''a'', Lazy (LRet (LvInt 2)))])
     [(''a'', Lazy (LRet (LvInt 1)))]) = Some (Inr (LvTuple [LvInt 1, LvInt 2]))"
  "lazy_ask True (\<lambda>_. Inr LvNone) 3 fallback_env
     (outside_and_inside ''a'' [(''c'', Plain (LvInt 1))]) = Some (Inr (LvTuple [LvInt 7, LvInt 7]))"
  "map_option fst (rrun (rask True (\<lambda>_. Inr LvNone) 3) (outside_and_inside ''a'' [(''c'', Plain (LvInt 1))]) fallback_env) =
     Some (Inr (LvTuple [LvInt 7, LvInt 1]))"
  by (simp_all add: lazy_ask_def lazy_start_def base_scope_def outside_and_inside_def giving_def fallback_env_def
      cache_hit_def cache_lookup_def cache_store_def scope_cache_def track_def enter_scope_def finish_evaluation_def
      eval_nat_numeral)

end
