(* ===== verification/Sim_Time.thy ===== *)
theory Sim_Time
  imports Heapq
begin

text \<open>
  Simulated time (\<open>doeff_time\<close>: \<open>handlers/sim_time.py\<close>, \<open>_internals/sim_clock.py\<close>, \<open>_internals/time_queue.py\<close>,
  \<open>effects/time.py\<close>). A time is a number of microseconds since the year 1, at most \<open>datetime_max\<close>. A program is the
  time effects it performs, one after the other; the scheduler runs the tasks that are ready in any order, and
  the clock driver, which is spawned at idle priority, only when none is. One task is the root: when its body
  returns the run is over, and what is still ready or parked is dropped (\<open>root_close_out\<close> of \<open>scheduler.py\<close> reports
  it). \<open>SDeferred\<close> is the program of the task that \<open>ScheduleAt\<close> spawns. The formatting of log
  messages and waits for other things than time are not modelled.
\<close>

section \<open>The effects and the queue\<close>

datatype time_error = NotFloat | NotFinite | NegativeDelay | NotDatetime | NotAware

text \<open>What the constructors check. A float is a number, or not finite.\<close>

datatype time_arg = ArgTime int bool \<comment> \<open>aware?\<close> | ArgNumber int | ArgNotFinite | ArgOther

definition ensure_aware_datetime :: "time_arg \<Rightarrow> time_error + int" where
  "ensure_aware_datetime v =
     (case v of ArgTime t aware \<Rightarrow> if aware then Inr t else Inl NotAware | _ \<Rightarrow> Inl NotDatetime)"

definition delay_seconds :: "time_arg \<Rightarrow> time_error + int" where
  "delay_seconds v =
     (case v of
        ArgNumber d \<Rightarrow> if d < 0 then Inl NegativeDelay else Inr d
      | ArgNotFinite \<Rightarrow> Inl NotFinite
      | _ \<Rightarrow> Inl NotFloat)"

datatype (plugins only: code size) sim_prog =
    SDone
  | SGetTime "int \<Rightarrow> sim_prog"
  | SDelay nat sim_prog
  | SWaitUntil int sim_prog
  | SSetTime int sim_prog
  | SScheduleAt int sim_prog sim_prog
  | SDeferred int sim_prog

text \<open>A task: is it the root, and what is left of its program.\<close>

type_synonym sim_task = "bool \<times> sim_prog"

text \<open>
  \<open>sm_waiting\<close> has, for a promise, the task that waits for it and the time it waits for; \<open>sm_log\<close> the times
  waited for, each with the time at which the wait ended; \<open>sm_ended\<close> says that the root has returned or raised.
\<close>

record sim_state =
  sm_now :: int
  sm_queue :: "(int, nat) heap_item list"
  sm_sequence :: nat
  sm_driver :: bool \<comment> \<open>\<open>_driver_running\<close>\<close>
  sm_promise :: nat
  sm_ready :: "sim_task list"
  sm_waiting :: "(nat, int \<times> sim_task) dict"
  sm_log :: "(int \<times> int) list"
  sm_ended :: bool

text \<open>The root and the tasks it has spawned.\<close>

definition sim_start :: "int \<Rightarrow> sim_prog \<Rightarrow> sim_prog list \<Rightarrow> sim_state" where
  "sim_start t0 root ps = \<lparr>sm_now = t0, sm_queue = [], sm_sequence = 0, sm_driver = False, sm_promise = 0,
     sm_ready = (True, root) # map (Pair False) ps, sm_waiting = [], sm_log = [], sm_ended = False\<rparr>"

text \<open>\<open>datetime.max\<close>, the end of the year 9999: a sum beyond it raises \<open>OverflowError\<close>.\<close>

definition datetime_max :: int where
  "datetime_max = 3652059 * 86400 * 1000000 - 1"

definition advance_to :: "int \<Rightarrow> sim_state \<Rightarrow> sim_state" where
  "advance_to t s = s\<lparr>sm_now := max (sm_now s) t\<rparr>"

definition queue_push :: "int \<Rightarrow> nat \<Rightarrow> sim_state \<Rightarrow> sim_state" where
  "queue_push t p s =
     s\<lparr>sm_sequence := sm_sequence s + 1, sm_queue := heappush (t, sm_sequence s + 1, p) (sm_queue s)\<rparr>"

definition ensure_clock_driver :: "sim_state \<Rightarrow> sim_state" where
  "ensure_clock_driver s = s\<lparr>sm_driver := True\<rparr>"

section \<open>Steps\<close>

definition wait_for_time :: "int \<Rightarrow> sim_task \<Rightarrow> sim_state \<Rightarrow> sim_state" where
  "wait_for_time t k s =
     (let p = sm_promise s
      in ensure_clock_driver (queue_push t p (s\<lparr>sm_promise := p + 1, sm_waiting := dput p (t, k) (sm_waiting s)\<rparr>)))"

definition make_ready :: "sim_task list \<Rightarrow> sim_state \<Rightarrow> sim_state" where
  "make_ready ps s = s\<lparr>sm_ready := sm_ready s @ ps\<rparr>"

text \<open>A task that has returned, or that an exception has ended.\<close>

definition end_of_task :: "bool \<Rightarrow> sim_state \<Rightarrow> sim_state" where
  "end_of_task root s = (if root then s\<lparr>sm_ended := True\<rparr> else s)"

text \<open>The handler, for the next effect of a task that is no longer in \<open>sm_ready\<close>.\<close>

fun sim_handle :: "sim_task \<Rightarrow> sim_state \<Rightarrow> sim_state" where
  "sim_handle (root, SDone) s = end_of_task root s"
| "sim_handle (root, SGetTime f) s = make_ready [(root, f (sm_now s))] s"
| "sim_handle (root, SDelay d k) s =
     (if sm_now s + int d > datetime_max then end_of_task root s else wait_for_time (sm_now s + int d) (root, k) s)"
| "sim_handle (root, SWaitUntil t k) s = wait_for_time (max (sm_now s) t) (root, k) s"
| "sim_handle (root, SSetTime t k) s =
     (let s = s\<lparr>sm_now := t\<rparr>
      in make_ready [(root, k)] (if sm_queue s = [] then s else ensure_clock_driver s))"
| "sim_handle (root, SScheduleAt t q k) s = make_ready [(root, k), (False, SDeferred t q)] s"
| "sim_handle (root, SDeferred t q) s = wait_for_time t (root, q) s"

text \<open>One turn of the driver: a promise is completed, or the driver ends.\<close>

definition complete_promise :: "nat \<Rightarrow> sim_state \<Rightarrow> sim_state" where
  "complete_promise p s =
     (case dget (sm_waiting s) p of
        None \<Rightarrow> s
      | Some (t, k) \<Rightarrow>
          make_ready [k] (s\<lparr>sm_waiting := ddel p (sm_waiting s), sm_log := sm_log s @ [(t, sm_now s)]\<rparr>))"

definition clock_driver :: "sim_state \<Rightarrow> sim_state" where
  "clock_driver s =
     (case heappop (sm_queue s) of
        None \<Rightarrow> s\<lparr>sm_driver := False\<rparr>
      | Some ((t, q, p), rest) \<Rightarrow> complete_promise p (advance_to t (s\<lparr>sm_queue := rest\<rparr>)))"

datatype sim_event = RunTask nat | RunDriver

fun sim_step :: "sim_event \<Rightarrow> sim_state \<Rightarrow> sim_state option" where
  "sim_step (RunTask i) s =
     (if \<not> sm_ended s \<and> i < length (sm_ready s)
      then Some (sim_handle (sm_ready s ! i) (s\<lparr>sm_ready := take i (sm_ready s) @ drop (Suc i) (sm_ready s)\<rparr>))
      else None)"
| "sim_step RunDriver s = (if \<not> sm_ended s \<and> sm_driver s \<and> sm_ready s = [] then Some (clock_driver s) else None)"

primrec sim_run :: "sim_event list \<Rightarrow> sim_state \<Rightarrow> sim_state option" where
  "sim_run [] s = Some s"
| "sim_run (ev # evs) s = (case sim_step ev s of None \<Rightarrow> None | Some s' \<Rightarrow> sim_run evs s')"

end
