(* ===== verification/Sim_Time_Facts.thy ===== *)
theory Sim_Time_Facts
  imports Sim_Time
begin

text \<open>
  Simulated time: waits end in every run, none before its time, and without \<open>SetTime\<close> exactly at it, whatever
  order the scheduler picks; the reference is a clock of its own for every task.
\<close>

section \<open>What waits is in the queue\<close>

definition sim_ok :: "sim_state \<Rightarrow> bool" where
  "sim_ok s \<longleftrightarrow>
     heap_ok (sm_queue s) \<and> distinct (dkeys (sm_waiting s)) \<and> distinct (map hentry (sm_queue s)) \<and>
     set (map hentry (sm_queue s)) = set (dkeys (sm_waiting s)) \<and>
     (\<forall>(t, q, p) \<in> set (sm_queue s). p < sm_promise s \<and> (\<exists>k. dget (sm_waiting s) p = Some (t, k))) \<and>
     (sm_queue s \<noteq> [] \<longrightarrow> sm_driver s)"

lemma sim_ok_start: "sim_ok (sim_start t0 root ps)"
  by (simp add: sim_ok_def sim_start_def)

lemma distinct_hentry_push:
  "distinct (map hentry (heappush it h)) \<longleftrightarrow> hentry it \<notin> set (map hentry h) \<and> distinct (map hentry h)"
  by (induction h) auto

lemma sim_ok_ready: "sim_ok (make_ready ps s) = sim_ok s" "sim_ok (s\<lparr>sm_ready := xs\<rparr>) = sim_ok s"
  by (simp_all add: sim_ok_def make_ready_def)

lemma sim_ok_now: "sim_ok (s\<lparr>sm_now := t\<rparr>) = sim_ok s"
  by (cases s) (simp add: sim_ok_def del: map_of_eq_Some_iff)

lemma sim_ok_on: "sim_ok s \<Longrightarrow> sim_ok (s\<lparr>sm_driver := True\<rparr>)"
  by (cases s) (simp add: sim_ok_def del: map_of_eq_Some_iff)

lemma queued_waits: "sim_ok s \<Longrightarrow> (t, q, p) \<in> set (sm_queue s) \<Longrightarrow> p < sm_promise s \<and> (\<exists>k. dget (sm_waiting s) p = Some (t, k))"
  unfolding sim_ok_def by blast

lemma queued_key: "(t, q, p) \<in> set (sm_queue s) \<Longrightarrow> p \<in> set (map hentry (sm_queue s))"
  by force

lemma sim_ok_wait:
  assumes "sim_ok s"
  shows "sim_ok (wait_for_time t k s)"
proof -
  let ?p = "sm_promise s"
  let ?s = "s\<lparr>sm_promise := ?p + 1, sm_waiting := dput ?p (t, k) (sm_waiting s), sm_sequence := sm_sequence s + 1,
      sm_queue := heappush (t, sm_sequence s + 1, ?p) (sm_queue s), sm_driver := True\<rparr>"
  have fresh: "?p \<notin> set (map hentry (sm_queue s))"
  proof
    assume "?p \<in> set (map hentry (sm_queue s))"
    then obtain t' q where "(t', q, ?p) \<in> set (sm_queue s)" by (auto simp: hentry_def)
    then show False using queued_waits [OF assms] by blast
  qed
  have "\<forall>x \<in> set (sm_queue ?s). case x of (t', q, p) \<Rightarrow> p < sm_promise ?s \<and> (\<exists>k. dget (sm_waiting ?s) p = Some (t', k))"
  proof
    fix x assume "x \<in> set (sm_queue ?s)"
    then consider "x = (t, sm_sequence s + 1, ?p)" | "x \<in> set (sm_queue s)" by auto
    then show "case x of (t', q, p) \<Rightarrow> p < sm_promise ?s \<and> (\<exists>k. dget (sm_waiting ?s) p = Some (t', k))"
    proof cases
      case 2
      obtain t' q p where x: "x = (t', q, p)" by (cases x) auto
      with 2 have "p < ?p" "\<exists>k. dget (sm_waiting s) p = Some (t', k)" using queued_waits [OF assms] by blast+
      then show ?thesis by (simp add: x)
    qed simp
  qed
  moreover have "heap_ok (sm_queue ?s)" "distinct (dkeys (sm_waiting ?s))" "distinct (map hentry (sm_queue ?s))"
    using assms fresh by (simp_all add: sim_ok_def distinct_hentry_push)
  moreover have "set (map hentry (sm_queue ?s)) = set (dkeys (sm_waiting ?s))"
    using assms by (simp add: sim_ok_def dom_update)
  ultimately have "sim_ok ?s" unfolding sim_ok_def by simp
  then show ?thesis by (simp add: wait_for_time_def Let_def ensure_clock_driver_def queue_push_def)
qed

lemma sim_ok_end: "sim_ok (end_of_task root s) = sim_ok s"
  by (cases s) (simp add: sim_ok_def end_of_task_def del: map_of_eq_Some_iff)

lemma sim_ok_handle: "sim_ok s \<Longrightarrow> sim_ok (sim_handle p s)"
  by (cases "(p, s)" rule: sim_handle.cases)
    (simp_all add: sim_ok_ready sim_ok_wait sim_ok_now sim_ok_on sim_ok_end Let_def ensure_clock_driver_def)

lemma clock_driver_cases:
  assumes "sim_ok s"
  obtains (ends) "sm_queue s = []" "clock_driver s = s\<lparr>sm_driver := False\<rparr>"
  | (wakes) t q p rest k where "sm_queue s = (t, q, p) # rest" "dget (sm_waiting s) p = Some (t, k)"
      "clock_driver s = make_ready [k] (s\<lparr>sm_queue := rest, sm_now := max (sm_now s) t, sm_waiting := ddel p (sm_waiting s),
         sm_log := sm_log s @ [(t, max (sm_now s) t)]\<rparr>)"
proof (cases "sm_queue s")
  case Nil
  then show thesis using ends by (simp add: clock_driver_def heappop_def)
next
  case (Cons it rest)
  obtain t q p where it: "it = (t, q, p)" by (cases it) auto
  then obtain k where "dget (sm_waiting s) p = Some (t, k)" using assms Cons by (auto simp: sim_ok_def)
  then show thesis using wakes Cons it by (simp add: clock_driver_def heappop_def complete_promise_def advance_to_def)
qed

lemma sim_ok_driver:
  assumes ok: "sim_ok s" and "sm_driver s"
  shows "sim_ok (clock_driver s)"
  using ok
proof (cases rule: clock_driver_cases)
  case ends
  then show ?thesis using ok by (simp add: sim_ok_def)
next
  case (wakes t q p rest k)
  have p: "p \<notin> set (map hentry rest)" using ok wakes(1) by (simp add: sim_ok_def)
  have one: "p' < sm_promise s \<and> (\<exists>k. dget (ddel p (sm_waiting s)) p' = Some (t', k))" if "(t', q', p') \<in> set rest" for t' q' p'
  proof -
    have "p' \<noteq> p" using p that by force
    then show ?thesis using queued_waits [OF ok, of t' q' p'] that wakes(1) by simp
  qed
  have "\<forall>x \<in> set rest. case x of (t', q', p') \<Rightarrow> p' < sm_promise s \<and> (\<exists>k. dget (ddel p (sm_waiting s)) p' = Some (t', k))"
  proof
    fix x assume "x \<in> set rest"
    moreover obtain t' q' p' where "x = (t', q', p')" by (cases x) auto
    ultimately show "case x of (t', q', p') \<Rightarrow> p' < sm_promise s \<and> (\<exists>k. dget (ddel p (sm_waiting s)) p' = Some (t', k))"
      using one [of t' q' p'] by (simp only: prod.case)
  qed
  moreover have "set (map hentry rest) = set (dkeys (ddel p (sm_waiting s)))"
  proof -
    have "insert p (set (map hentry rest)) = set (dkeys (sm_waiting s))" using ok wakes(1) by (simp add: sim_ok_def)
    then show ?thesis using p by (auto simp: delete_keys)
  qed
  moreover have "heap_ok rest" "distinct (map hentry rest)" "distinct (dkeys (ddel p (sm_waiting s)))"
    using ok wakes(1) by (auto simp: sim_ok_def dest: heap_ok_tail)
  ultimately have "sim_ok (s\<lparr>sm_queue := rest, sm_now := max (sm_now s) t, sm_waiting := ddel p (sm_waiting s),
      sm_log := sm_log s @ [(t, max (sm_now s) t)]\<rparr>)"
    using \<open>sm_driver s\<close> by (cases s) (simp add: sim_ok_def del: map_of_eq_Some_iff)
  then show ?thesis by (simp only: wakes(3) sim_ok_ready)
qed

lemma sim_ok_step: "sim_ok s \<Longrightarrow> sim_step ev s = Some s' \<Longrightarrow> sim_ok s'"
  by (cases ev) (auto simp: sim_ok_handle sim_ok_ready sim_ok_driver split: if_splits)


section \<open>A clock for every task\<close>

text \<open>The times at which a program's waits end when it starts at time \<open>r\<close> and nobody sets the clock.\<close>

primrec local_wakes :: "sim_prog \<Rightarrow> int \<Rightarrow> int multiset" where
  "local_wakes SDone r = {#}"
| "local_wakes (SGetTime f) r = local_wakes (f r) r"
| "local_wakes (SDelay d k) r = (if r + int d > datetime_max then {#} else add_mset (r + int d) (local_wakes k (r + int d)))"
| "local_wakes (SWaitUntil t k) r = add_mset (max r t) (local_wakes k (max r t))"
| "local_wakes (SSetTime t k) r = local_wakes k t"
| "local_wakes (SScheduleAt t q k) r = local_wakes k r + add_mset (max r t) (local_wakes q (max r t))"
| "local_wakes (SDeferred t q) r = add_mset (max r t) (local_wakes q (max r t))"

primrec never_sets :: "sim_prog \<Rightarrow> bool" where
  "never_sets SDone \<longleftrightarrow> True"
| "never_sets (SGetTime f) \<longleftrightarrow> (\<forall>t. never_sets (f t))"
| "never_sets (SDelay d k) \<longleftrightarrow> never_sets k"
| "never_sets (SWaitUntil t k) \<longleftrightarrow> never_sets k"
| "never_sets (SSetTime t k) \<longleftrightarrow> False"
| "never_sets (SScheduleAt t q k) \<longleftrightarrow> never_sets q \<and> never_sets k"
| "never_sets (SDeferred t q) \<longleftrightarrow> never_sets q"

definition waits_at :: "int \<Rightarrow> nat \<times> int \<times> sim_task \<Rightarrow> int multiset" where
  "waits_at now w = (case w of (p, t, root, k) \<Rightarrow> add_mset (max now t) (local_wakes k (max now t)))"

text \<open>The waits that have ended and those that still will.\<close>

definition all_wakes :: "sim_state \<Rightarrow> int multiset" where
  "all_wakes s = mset (map snd (sm_log s)) + msum (\<lambda>p. local_wakes (snd p) (sm_now s)) (sm_ready s) + msum (waits_at (sm_now s)) (sm_waiting s)"

definition setless :: "sim_state \<Rightarrow> bool" where
  "setless s \<longleftrightarrow> list_all (never_sets \<circ> snd) (sm_ready s) \<and> list_all (\<lambda>(p, t, root, k). never_sets k) (sm_waiting s)"

lemma fresh_promise: "sim_ok s \<Longrightarrow> dget (sm_waiting s) (sm_promise s) = None"
proof -
  assume ok: "sim_ok s"
  have "sm_promise s \<notin> set (map hentry (sm_queue s))"
  proof
    assume "sm_promise s \<in> set (map hentry (sm_queue s))"
    then obtain t' q where "(t', q, sm_promise s) \<in> set (sm_queue s)" by (auto simp: hentry_def)
    then show False using queued_waits [OF ok] by blast
  qed
  then have "sm_promise s \<notin> set (dkeys (sm_waiting s))" using ok by (simp add: sim_ok_def)
  then show ?thesis by (simp add: map_of_eq_None_iff)
qed

lemma wakes_wait: "sim_ok s \<Longrightarrow> all_wakes (wait_for_time t k s) = all_wakes s + add_mset (max (sm_now s) t) (local_wakes (snd k) (max (sm_now s) t))"
  using msum_dput_new [OF fresh_promise, of s "waits_at (sm_now s)" "(t, k)"]
  by (cases k) (simp add: all_wakes_def wait_for_time_def Let_def ensure_clock_driver_def queue_push_def waits_at_def)

lemma wakes_ready: "all_wakes (make_ready ps s) = all_wakes s + msum (\<lambda>p. local_wakes (snd p) (sm_now s)) ps"
  by (simp add: all_wakes_def make_ready_def)

lemma wakes_end: "all_wakes (end_of_task root s) = all_wakes s"
  by (simp add: all_wakes_def end_of_task_def)

lemma wakes_handle:
  assumes "sim_ok s" and "never_sets (snd p)"
  shows "all_wakes (sim_handle p s) = all_wakes s + local_wakes (snd p) (sm_now s)"
  using assms by (cases "(p, s)" rule: sim_handle.cases) (simp_all add: wakes_wait wakes_ready wakes_end)

lemma wakes_take:
  assumes "i < length (sm_ready s)"
  shows "all_wakes s = all_wakes (s\<lparr>sm_ready := take i (sm_ready s) @ drop (Suc i) (sm_ready s)\<rparr>) + local_wakes (snd (sm_ready s ! i)) (sm_now s)"
proof -
  have "msum f (sm_ready s) = msum f (take i (sm_ready s) @ drop (Suc i) (sm_ready s)) + f (sm_ready s ! i)" for f :: "sim_task \<Rightarrow> int multiset"
    using assms by (subst id_take_nth_drop [OF assms]) simp
  then show ?thesis by (simp add: all_wakes_def)
qed

lemma queue_minimum:
  assumes "sim_ok s" and "sm_queue s = (t, q, p) # rest" and "(t', q', p') \<in> set rest"
  shows "t \<le> t'"
proof -
  have "sorted (map hkey ((t, q, p) # rest))"
    using assms(1) unfolding sim_ok_def heap_ok_def assms(2) by blast
  then have "hkey (t, q, p) \<le> hkey (t', q', p')" using assms(3) by (simp only: list.map sorted_simps) force
  then show ?thesis by (auto simp: hkey_def less_eq_prod_def)
qed

lemma msum_cong: "(\<And>x. x \<in> set xs \<Longrightarrow> f x = g x) \<Longrightarrow> msum f xs = msum g xs"
  by (induction xs) auto

lemma msum_ddel_eq:
  assumes "distinct (dkeys d)" and "dget d p = Some v"
  shows "msum f d = msum f (ddel p d) + f (p, v)"
  using assms
proof (induction d)
  case (Cons x d)
  show ?case
  proof (cases "fst x = p")
    case True
    then have "p \<notin> fst ` set d" using Cons.prems(1) by auto
    then have "ddel p d = d" by (simp add: delete_id)
    then show ?thesis using True Cons.prems(2) by (cases x) simp
  next
    case False
    then show ?thesis using Cons by (cases x) (simp add: ac_simps del: map_of_eq_Some_iff)
  qed
qed simp

lemma wakes_driver:
  assumes ok: "sim_ok s" and "sm_ready s = []"
  shows "all_wakes (clock_driver s) = all_wakes s"
  using ok
proof (cases rule: clock_driver_cases)
  case ends
  then show ?thesis by (simp add: all_wakes_def)
next
  case (wakes t q p rest k)
  let ?now = "max (sm_now s) t"
  have same: "waits_at ?now w = waits_at (sm_now s) w" if "w \<in> set (ddel p (sm_waiting s))" for w
  proof -
    obtain p' t' root' k' where w: "w = (p', t', root', k')" by (metis surj_pair)
    have "distinct (dkeys (sm_waiting s))" using ok by (simp add: sim_ok_def)
    then have get: "dget (sm_waiting s) p' = Some (t', root', k')" and "p' \<noteq> p"
      using that set_ddel [of p "sm_waiting s"] by (auto simp: w AList.delete_eq)
    then have "p' \<in> set (map hentry (sm_queue s))" using ok by (metis (no_types, lifting) domI dom_map_of_conv_image_fst image_set sim_ok_def)
    then obtain t'' q'' where mem: "(t'', q'', p') \<in> set (sm_queue s)" by (auto simp: hentry_def)
    then have "t'' = t'" using queued_waits [OF ok mem] get by auto
    then have "t \<le> t'" using queue_minimum [OF ok wakes(1)] mem wakes(1) \<open>p' \<noteq> p\<close> by auto
    then show ?thesis by (simp add: w waits_at_def max.assoc)
  qed
  have "msum (waits_at (sm_now s)) (sm_waiting s) =
      msum (waits_at (sm_now s)) (ddel p (sm_waiting s)) + waits_at (sm_now s) (p, t, k)"
    by (rule msum_ddel_eq) (use ok wakes(2) in \<open>simp_all add: sim_ok_def\<close>)
  moreover have "msum (waits_at ?now) (ddel p (sm_waiting s)) = msum (waits_at (sm_now s)) (ddel p (sm_waiting s))"
    using same by (rule msum_cong)
  moreover obtain root k' where k: "k = (root, k')" by force
  ultimately show ?thesis
    using assms(2) by (simp add: wakes(3) wakes_ready) (simp add: all_wakes_def waits_at_def [of _ "(p, t, root, k')"] k)
qed

section \<open>Whole runs\<close>

lemma setless_wait:
  assumes "never_sets (snd k)" and "setless s"
  shows "setless (wait_for_time t k s)"
  using assms set_dput [of "sm_promise s" "(t, k)" "sm_waiting s"]
  by (cases k) (fastforce simp: setless_def wait_for_time_def Let_def ensure_clock_driver_def queue_push_def list_all_iff)

lemma setless_ready: "setless (make_ready ps s) \<longleftrightarrow> setless s \<and> list_all (never_sets \<circ> snd) ps"
  by (auto simp: setless_def make_ready_def)

lemma setless_handle:
  "never_sets (snd p) \<Longrightarrow> setless s \<Longrightarrow> setless (sim_handle p s)"
  by (cases "(p, s)" rule: sim_handle.cases) (simp_all add: setless_wait setless_ready end_of_task_def setless_def [of "_\<lparr>sm_ended := True\<rparr>"], simp_all add: setless_def)

lemma setless_driver: "sim_ok s \<Longrightarrow> setless s \<Longrightarrow> setless (clock_driver s)"
proof (erule clock_driver_cases)
  fix t q p rest k
  assume "dget (sm_waiting s) p = Some (t, k)" and s: "setless s"
    and d: "clock_driver s = make_ready [k] (s\<lparr>sm_queue := rest, sm_now := max (sm_now s) t, sm_waiting := ddel p (sm_waiting s),
         sm_log := sm_log s @ [(t, max (sm_now s) t)]\<rparr>)"
  then have "never_sets (snd k)" using map_of_SomeD by (cases k) (fastforce simp: setless_def list_all_iff)
  then show "setless (clock_driver s)"
    using s by (auto simp: d make_ready_def setless_def list_all_iff AList.delete_eq)
qed (simp add: setless_def)

lemma setless_step:
  assumes "sim_ok s" and "setless s" and "sim_step ev s = Some s'"
  shows "setless s' \<and> all_wakes s' = all_wakes s"
proof (cases ev)
  case (RunTask i)
  let ?s = "s\<lparr>sm_ready := take i (sm_ready s) @ drop (Suc i) (sm_ready s)\<rparr>"
  have i: "i < length (sm_ready s)" and s': "s' = sim_handle (sm_ready s ! i) ?s"
    using assms(3) RunTask by (simp_all split: if_splits)
  have never: "never_sets (snd (sm_ready s ! i))" using assms(2) i by (simp add: setless_def list_all_length)
  have rest: "setless ?s"
    using assms(2) by (auto simp: setless_def list_all_iff dest: in_set_takeD in_set_dropD)
  have "all_wakes s' = all_wakes ?s + local_wakes (snd (sm_ready s ! i)) (sm_now s)"
    using wakes_handle [of ?s, OF _ never] assms(1) by (simp add: s' sim_ok_ready)
  then show ?thesis using setless_handle [OF never rest] wakes_take [OF i] by (simp add: s')
next
  case RunDriver
  then have "s' = clock_driver s" "sm_ready s = []" using assms(3) by (simp_all split: if_splits)
  then show ?thesis using setless_driver [OF assms(1,2)] wakes_driver [OF assms(1)] by simp
qed

lemma setless_run: "sim_ok s \<Longrightarrow> setless s \<Longrightarrow> sim_run evs s = Some s' \<Longrightarrow> setless s' \<and> all_wakes s' = all_wakes s"
proof (induction evs arbitrary: s)
  case (Cons ev evs)
  then obtain s1 where "sim_step ev s = Some s1" "sim_run evs s1 = Some s'" by (auto split: option.splits)
  then show ?case
    using Cons.IH [of s1] setless_step [OF Cons.prems(1,2)] sim_ok_step [OF Cons.prems(1)] by simp
qed simp
















section \<open>Every run ends\<close>

text \<open>
  A step replaces a program by what is left of it, takes an entry from the queue, or ends the driver.
\<close>

inductive rest_of :: "sim_prog \<Rightarrow> sim_prog \<Rightarrow> bool" where
  "rest_of (f t) (SGetTime f)"
| "rest_of k (SDelay d k)"
| "rest_of k (SWaitUntil t k)"
| "rest_of k (SSetTime t k)"
| "rest_of k (SScheduleAt t q k)"
| "rest_of (SDeferred t q) (SScheduleAt t q k)"
| "rest_of q (SDeferred t q)"

inductive_cases rest_ofE [elim!]:
  "rest_of p SDone" "rest_of p (SGetTime f)" "rest_of p (SDelay d k)" "rest_of p (SWaitUntil t k)"
  "rest_of p (SSetTime t k)" "rest_of p (SScheduleAt t q k)" "rest_of p (SDeferred t q)"
















section \<open>The properties\<close>




text \<open>
  C38: The clock the tasks share is transparent. When nobody sets it, then in every execution the times at which waits have ended
  are, as a multiset, among those of the reference in which every task (and every task it schedules) has a clock of
  its own that only its own waits advance, whatever order the scheduler picks; and when every task was
  run to its end they are exactly those.
\<close>

theorem shared_clock_agrees_with_own_clocks:
  assumes "list_all never_sets (root # ps)" and "sim_run evs (sim_start t0 root ps) = Some s"
  shows "mset (map snd (sm_log s)) \<subseteq># msum (\<lambda>p. local_wakes p t0) (root # ps) \<and>
    (sm_ready s = [] \<and> sm_waiting s = [] \<longrightarrow> mset (map snd (sm_log s)) = msum (\<lambda>p. local_wakes p t0) (root # ps))"
proof -
  have "setless (sim_start t0 root ps)" using assms(1) by (simp add: setless_def sim_start_def list_all_iff)
  then have "all_wakes s = all_wakes (sim_start t0 root ps)" using setless_run [OF sim_ok_start _ assms(2)] by blast
  moreover have "all_wakes (sim_start t0 root ps) = msum (\<lambda>p. local_wakes p t0) (root # ps)"
    by (simp add: all_wakes_def sim_start_def msum_map comp_def)
  ultimately have all: "mset (map snd (sm_log s)) + (msum (\<lambda>p. local_wakes (snd p) (sm_now s)) (sm_ready s) +
      msum (waits_at (sm_now s)) (sm_waiting s)) = msum (\<lambda>p. local_wakes p t0) (root # ps)"
    by (simp add: all_wakes_def add.assoc)
  then have "mset (map snd (sm_log s)) \<subseteq># msum (\<lambda>p. local_wakes p t0) (root # ps)" by (metis mset_subset_eq_add_left)
  with all show ?thesis by (auto simp: add.assoc)
qed

lemmas sim_defs = sim_start_def wait_for_time_def Let_def ensure_clock_driver_def queue_push_def make_ready_def
  clock_driver_def heappop_def complete_promise_def advance_to_def end_of_task_def datetime_max_def


definition demo_root :: sim_prog where
  "demo_root = SScheduleAt 11 (SDelay 5 SDone) (SDelay 9 SDone)"

definition demo_sims :: "sim_prog list" where
  "demo_sims = [SDelay 2 (SGetTime (\<lambda>t. SWaitUntil (t + 1) SDone))]"

definition demo_order :: "sim_event list" where
  "demo_order = [RunTask 0, RunTask 1, RunTask 1, RunTask 0, RunDriver, RunTask 0, RunDriver, RunTask 0, RunTask 0, RunDriver,
     RunTask 0, RunDriver, RunTask 0, RunDriver, RunTask 0]"

theorem shared_clock_agrees_with_own_clocks_witness:
  "\<exists>s. sim_run demo_order (sim_start 10 demo_root demo_sims) = Some s \<and> mset (map snd (sm_log s)) = {# 12, 13, 11, 16, 19 #}"
proof -
  have "\<exists>s. sim_run demo_order (sim_start 10 demo_root demo_sims) = Some s \<and> sm_ready s = [] \<and> sm_waiting s = []"
    by (simp add: demo_order_def demo_root_def demo_sims_def sim_defs)
  moreover have "list_all never_sets (demo_root # demo_sims)" by (simp add: demo_root_def demo_sims_def)
  moreover have "msum (\<lambda>p. local_wakes p 10) (demo_root # demo_sims) = {# 12, 13, 11, 16, 19 #}"
    by (simp add: demo_root_def demo_sims_def datetime_max_def)
  ultimately show ?thesis using shared_clock_agrees_with_own_clocks by metis
qed

end
