(* ===== verification/Traverse.thy ===== *)
theory Traverse
  imports Prelude
begin

text \<open>
  Collections and their traversal (\<open>doeff_traverse/handlers.py\<close>, \<open>collection.py\<close>): the handlers
  \<open>sequential\<close>, \<open>parallel\<close> and \<open>parallel_fail_fast\<close> for \<open>Traverse\<close>, \<open>Reduce\<close>, \<open>Zip\<close>, \<open>Inspect\<close>, \<open>SortBy\<close>,
  \<open>Take\<close> and \<open>Skip\<close>. What an item's program does is a function of the world \<open>'s\<close>; in parallel it takes
  place when the program ends, and \<open>pool_step\<close> lets the scheduler start and end the tasks in any order.
  \<open>truthy\<close> and \<open>text\<close> are \<open>bool\<close> and \<open>str\<close> of a value and of an exception.
\<close>

section \<open>Collections\<close>

datatype (plugins only: code size) texn =
    TRaised string string
  | PermitsTooFew \<comment> \<open>\<open>CreateSemaphore\<close>\<close>
  | AlreadyFailed nat "string option" \<comment> \<open>\<open>None\<close>: the value is falsy\<close>
  | ZipFailed string
  | FailedBeforeSort nat
  | FailedBeforeTake nat

datatype (plugins only: code size) 'v tval =
    TVal 'v | TExn texn | TPair "'v tval" "'v tval"
  | TSkipped \<comment> \<open>the sentinel \<open>_SKIPPED\<close>\<close>

record history_entry =
  he_stage :: "string option"
  he_event :: string
  he_detail :: "string option"
  he_attempt :: nat

record 'v item_result =
  ir_index :: nat
  ir_value :: "'v tval"
  ir_failed :: bool
  ir_history :: "history_entry list"

text \<open>What the effects take: a \<open>Collection\<close> or another iterable.\<close>

datatype (plugins only: code size) 'v items = Collection "'v item_result list" | Iterable "'v tval list"

definition history_entry_of :: "string option \<Rightarrow> string \<Rightarrow> string option \<Rightarrow> history_entry" where
  "history_entry_of stage event detail = \<lparr>he_stage = stage, he_event = event, he_detail = detail, he_attempt = 1\<rparr>"

definition fresh_item :: "nat \<times> 'v tval \<Rightarrow> 'v item_result" where
  "fresh_item iv = \<lparr>ir_index = fst iv, ir_value = snd iv, ir_failed = False, ir_history = []\<rparr>"

primrec all_items :: "'v items \<Rightarrow> 'v item_result list" where
  "all_items (Collection its) = its"
| "all_items (Iterable vs) = map fresh_item (enumerate 0 vs)"

definition valid_items :: "'v item_result list \<Rightarrow> 'v item_result list" where
  "valid_items its = filter (\<lambda>it. \<not> ir_failed it) its"

definition failed_items :: "'v item_result list \<Rightarrow> 'v item_result list" where
  "failed_items its = filter ir_failed its"

primrec reduce_values :: "'v items \<Rightarrow> 'v tval list" where
  "reduce_values (Collection its) = map ir_value (valid_items its)"
| "reduce_values (Iterable vs) = vs"

text \<open>Items with fresh indices.\<close>

definition reindex :: "'v item_result list \<Rightarrow> 'v item_result list" where
  "reindex its = map (\<lambda>(i, it). it\<lparr>ir_index := i\<rparr>) (enumerate 0 its)"

section \<open>Effects and answers\<close>

type_synonym 'v item_outcome = "texn + 'v tval"

datatype (plugins only: code size) ('v, 's, 'k) teffect =
    Skip
  | Traverse "'v tval \<Rightarrow> 's \<Rightarrow> 'v item_outcome \<times> 's" "'v items" "string option"
  | Reduce "'v tval \<Rightarrow> 'v tval \<Rightarrow> 's \<Rightarrow> 'v item_outcome \<times> 's" "'v tval" "'v items"
  | Zip "'v items" "'v items"
  | Inspect "'v items"
  | SortBy "'v tval \<Rightarrow> 'k" "'v items" bool
  | Take int "'v items"
  | OtherEffect

datatype (plugins only: code size) 'v tanswer =
    ResumeItems "'v item_result list" \<comment> \<open>a \<open>Collection\<close>, or the list of \<open>Inspect\<close>\<close>
  | ResumeValue "'v tval"
  | ReturnValue "'v tval" \<comment> \<open>the handler returns: the handled program ends with this value\<close>
  | RaiseOut texn \<comment> \<open>the handler raises: the handled program ends with this exception\<close>
  | PassOn

text \<open>How an item is entered into the results.\<close>

definition settle :: "(texn \<Rightarrow> string) \<Rightarrow> string option \<Rightarrow> 'v item_result \<Rightarrow> 'v item_outcome \<Rightarrow> 'v item_result" where
  "settle text label it out =
     (case out of
        Inr v \<Rightarrow>
          if v = TSkipped
          then it\<lparr>ir_failed := True, ir_history := ir_history it @ [history_entry_of label ''skipped'' None]\<rparr>
          else it\<lparr>ir_value := v, ir_failed := False, ir_history := ir_history it @ [history_entry_of label ''ok'' None]\<rparr>
      | Inl e \<Rightarrow>
          it\<lparr>ir_value := TExn e, ir_failed := True,
             ir_history := ir_history it @ [history_entry_of label ''failed'' (Some (text e))]\<rparr>)"

primrec traverse_items ::
    "(texn \<Rightarrow> string) \<Rightarrow> ('v tval \<Rightarrow> 's \<Rightarrow> 'v item_outcome \<times> 's) \<Rightarrow> string option \<Rightarrow> 'v item_result list \<Rightarrow> 's \<Rightarrow>
     'v item_result list \<times> 's" where
  "traverse_items text f label [] s = ([], s)"
| "traverse_items text f label (it # its) s =
     (if ir_failed it
      then (case traverse_items text f label its s of (rs, s') \<Rightarrow> (it # rs, s'))
      else
        (case f (ir_value it) s of
           (out, s1) \<Rightarrow>
             (case traverse_items text f label its s1 of (rs, s') \<Rightarrow> (settle text label it out # rs, s'))))"

primrec reduce_items :: "('v tval \<Rightarrow> 'v tval \<Rightarrow> 's \<Rightarrow> 'v item_outcome \<times> 's) \<Rightarrow> 'v tval list \<Rightarrow> 'v tval \<Rightarrow> 's \<Rightarrow> 'v item_outcome \<times> 's" where
  "reduce_items f [] acc s = (Inr acc, s)"
| "reduce_items f (v # vs) acc s =
     (case f acc v s of
        (Inl e, s') \<Rightarrow> (Inl e, s')
      | (Inr acc', s') \<Rightarrow> reduce_items f vs acc' s')"

definition zip_pair :: "'v item_result \<Rightarrow> 'v item_result \<Rightarrow> 'v item_result" where
  "zip_pair a b =
     (let failed = ir_failed a \<or> ir_failed b
      in \<lparr>ir_index = ir_index a,
          ir_value = (if failed then (if ir_failed a then ir_value a else ir_value b) else TPair (ir_value a) (ir_value b)),
          ir_failed = failed,
          ir_history = ir_history a @ ir_history b @ (if failed then [history_entry_of None ''zip_failed'' None] else [])\<rparr>)"

definition zip_items :: "'v item_result list \<Rightarrow> 'v item_result list \<Rightarrow> 'v item_result list" where
  "zip_items xs ys = map (\<lambda>(a, b). zip_pair a b) (zip xs ys)"

text \<open>\<open>list.sort\<close> is stable, in reverse as well.\<close>

definition sort_by :: "('v tval \<Rightarrow> 'k::linorder) \<Rightarrow> bool \<Rightarrow> 'v item_result list \<Rightarrow> 'v item_result list" where
  "sort_by key rv its =
     (if rv then rev (sort_key (\<lambda>it. key (ir_value it)) (rev its)) else sort_key (\<lambda>it. key (ir_value it)) its)"

primrec take_items :: "int \<Rightarrow> int \<Rightarrow> 'v item_result list \<Rightarrow> 'v item_result list" where
  "take_items n taken [] = []"
| "take_items n taken (it # its) =
     (if ir_failed it then it # take_items n taken its
      else if taken < n then it # take_items n (taken + 1) its
      else take_items n taken its)"

section \<open>The sequential handler\<close>

fun sequential ::
    "(texn \<Rightarrow> string) \<Rightarrow> ('v, 's, 'k::linorder) teffect \<Rightarrow> 's \<Rightarrow> 'v tanswer \<times> 's" where
  "sequential text Skip s = (ReturnValue TSkipped, s)"
| "sequential text (Traverse f src label) s =
     (case traverse_items text f label (all_items src) s of (rs, s') \<Rightarrow> (ResumeItems rs, s'))"
| "sequential text (Reduce f init src) s =
     (case reduce_items f (reduce_values src) init s of
        (Inl e, s') \<Rightarrow> (RaiseOut e, s')
      | (Inr v, s') \<Rightarrow> (ResumeValue v, s'))"
| "sequential text (Zip a b) s = (ResumeItems (zip_items (all_items a) (all_items b)), s)"
| "sequential text (Inspect src) s = (ResumeItems (all_items src), s)"
| "sequential text (SortBy key src rv) s =
     (let its = all_items src
      in (ResumeItems (reindex (sort_by key rv (valid_items its) @ failed_items its)), s))"
| "sequential text (Take n src) s = (ResumeItems (reindex (take_items n 0 (all_items src))), s)"
| "sequential text OtherEffect s = (PassOn, s)"

section \<open>Tasks behind a semaphore\<close>

datatype (plugins only: code size) 'v task_status =
    Waiting | Running
  | Finished "'v item_outcome" \<comment> \<open>the task returned this\<close>
  | Died texn \<comment> \<open>the task raised, and never released its permit\<close>

record ('v, 's) task_pool =
  tp_tasks :: "'v task_status list"
  tp_permits :: nat
  tp_world :: 's
  tp_error :: "texn option" \<comment> \<open>what the \<open>Gather\<close> raised\<close>

datatype pool_event = Start nat | End nat

definition start_tasks :: "'v item_result list \<Rightarrow> nat \<Rightarrow> 's \<Rightarrow> ('v, 's) task_pool" where
  "start_tasks its concurrency s =
     \<lparr>tp_tasks = map (\<lambda>_. Waiting) its, tp_permits = concurrency, tp_world = s, tp_error = None\<rparr>"

definition end_task ::
    "bool \<Rightarrow> nat \<Rightarrow> 'v item_outcome \<Rightarrow> ('v, 's) task_pool \<Rightarrow> ('v, 's) task_pool" where
  "end_task fail_fast i out p =
     (case out of
        Inl e \<Rightarrow>
          if fail_fast
          then p\<lparr>tp_tasks := (tp_tasks p)[i := Died e], tp_error := (case tp_error p of None \<Rightarrow> Some e | Some e' \<Rightarrow> Some e')\<rparr>
          else p\<lparr>tp_tasks := (tp_tasks p)[i := Finished out], tp_permits := tp_permits p + 1\<rparr>
      | Inr v \<Rightarrow> p\<lparr>tp_tasks := (tp_tasks p)[i := Finished out], tp_permits := tp_permits p + 1\<rparr>)"

fun pool_step ::
    "bool \<Rightarrow> ('v tval \<Rightarrow> 's \<Rightarrow> 'v item_outcome \<times> 's) \<Rightarrow> 'v item_result list \<Rightarrow> pool_event \<Rightarrow> ('v, 's) task_pool \<Rightarrow>
     ('v, 's) task_pool option" where
  "pool_step fail_fast f its (Start i) p =
     (if i < length (tp_tasks p) \<and> tp_tasks p ! i = Waiting \<and> 0 < tp_permits p
      then Some (p\<lparr>tp_tasks := (tp_tasks p)[i := Running], tp_permits := tp_permits p - 1\<rparr>)
      else None)"
| "pool_step fail_fast f its (End i) p =
     (if i < length (tp_tasks p) \<and> tp_tasks p ! i = Running
      then (case f (ir_value (its ! i)) (tp_world p) of
              (out, s') \<Rightarrow> Some (end_task fail_fast i out (p\<lparr>tp_world := s'\<rparr>)))
      else None)"

primrec pool_run ::
    "bool \<Rightarrow> ('v tval \<Rightarrow> 's \<Rightarrow> 'v item_outcome \<times> 's) \<Rightarrow> 'v item_result list \<Rightarrow> pool_event list \<Rightarrow> ('v, 's) task_pool \<Rightarrow>
     ('v, 's) task_pool option" where
  "pool_run fail_fast f its [] p = Some p"
| "pool_run fail_fast f its (ev # evs) p =
     (case pool_step fail_fast f its ev p of None \<Rightarrow> None | Some p' \<Rightarrow> pool_run fail_fast f its evs p')"

primrec task_result :: "'v task_status \<Rightarrow> 'v item_outcome option" where
  "task_result Waiting = None"
| "task_result Running = None"
| "task_result (Finished out) = Some out"
| "task_result (Died e) = None"

text \<open>The results of the tasks in the order of the tasks, once all have returned.\<close>

primrec task_results :: "'v task_status list \<Rightarrow> 'v item_outcome list option" where
  "task_results [] = Some []"
| "task_results (t # ts) =
     (case task_result t of None \<Rightarrow> None | Some out \<Rightarrow> map_option ((#) out) (task_results ts))"

section \<open>The parallel handlers\<close>

text \<open>\<open>None\<close>: the \<open>Gather\<close> is still waiting after these events.\<close>

definition parallel_traverse ::
    "(texn \<Rightarrow> string) \<Rightarrow> nat \<Rightarrow> pool_event list \<Rightarrow> ('v tval \<Rightarrow> 's \<Rightarrow> 'v item_outcome \<times> 's) \<Rightarrow> 'v items \<Rightarrow> string option \<Rightarrow> 's \<Rightarrow>
     ('v tanswer \<times> 's) option" where
  "parallel_traverse text concurrency evs f src label s =
     (let carry_forward = failed_items (all_items src); active = valid_items (all_items src)
      in if active = [] then Some (ResumeItems carry_forward, s)
         else if concurrency < 1 then Some (RaiseOut PermitsTooFew, s)
         else
           (case pool_run False f active evs (start_tasks active concurrency s) of
              None \<Rightarrow> None
            | Some p \<Rightarrow>
                (case task_results (tp_tasks p) of
                   None \<Rightarrow> None
                 | Some outs \<Rightarrow>
                     Some (ResumeItems (sort_key ir_index (carry_forward @ map2 (settle text label) active outs)),
                           tp_world p))))"

fun parallel_handler ::
    "(texn \<Rightarrow> string) \<Rightarrow> nat \<Rightarrow> pool_event list \<Rightarrow> ('v, 's, 'k::linorder) teffect \<Rightarrow> 's \<Rightarrow> ('v tanswer \<times> 's) option" where
  "parallel_handler text concurrency evs (Traverse f src label) s = parallel_traverse text concurrency evs f src label s"
| "parallel_handler text concurrency evs eff s = Some (sequential text eff s)"

definition fail_fast_traverse ::
    "('v tval \<Rightarrow> string option) \<Rightarrow> (texn \<Rightarrow> string) \<Rightarrow> nat \<Rightarrow> pool_event list \<Rightarrow> ('v tval \<Rightarrow> 's \<Rightarrow> 'v item_outcome \<times> 's) \<Rightarrow>
     'v items \<Rightarrow> string option \<Rightarrow> 's \<Rightarrow> ('v tanswer \<times> 's) option" where
  "fail_fast_traverse shown text concurrency evs f src label s =
     (let active = valid_items (all_items src)
      in case failed_items (all_items src) of
           it # its \<Rightarrow> Some (RaiseOut (AlreadyFailed (ir_index it) (shown (ir_value it))), s)
         | [] \<Rightarrow>
             if active = [] then Some (ResumeItems [], s)
             else if concurrency < 1 then Some (RaiseOut PermitsTooFew, s)
             else
               (case pool_run True f active evs (start_tasks active concurrency s) of
                  None \<Rightarrow> None
                | Some p \<Rightarrow>
                    (case tp_error p of
                       Some e \<Rightarrow> Some (RaiseOut e, tp_world p)
                     | None \<Rightarrow>
                         (case task_results (tp_tasks p) of
                            None \<Rightarrow> None
                          | Some outs \<Rightarrow>
                              Some (ResumeItems (sort_key ir_index (map2 (settle text label) active outs)), tp_world p)))))"

primrec fail_fast_zip :: "('v tval \<Rightarrow> string) \<Rightarrow> ('v item_result \<times> 'v item_result) list \<Rightarrow> texn + 'v item_result list" where
  "fail_fast_zip str [] = Inr []"
| "fail_fast_zip str (ab # ps) =
     (case ab of
        (a, b) \<Rightarrow>
          if ir_failed a \<or> ir_failed b
          then Inl (ZipFailed (str (if ir_failed a then ir_value a else ir_value b)))
          else map_sum id ((#) \<lparr>ir_index = ir_index a, ir_value = TPair (ir_value a) (ir_value b), ir_failed = False,
                                ir_history = ir_history a @ ir_history b\<rparr>) (fail_fast_zip str ps))"

primrec fail_fast_take :: "int \<Rightarrow> int \<Rightarrow> 'v item_result list \<Rightarrow> texn + 'v item_result list" where
  "fail_fast_take n taken [] = Inr []"
| "fail_fast_take n taken (it # its) =
     (if ir_failed it then Inl (FailedBeforeTake (ir_index it))
      else if taken < n then map_sum id ((#) it) (fail_fast_take n (taken + 1) its)
      else fail_fast_take n taken its)"

definition resume_or_raise :: "texn + 'v item_result list \<Rightarrow> 'v tanswer" where
  "resume_or_raise r = (case r of Inl e \<Rightarrow> RaiseOut e | Inr its \<Rightarrow> ResumeItems its)"

text \<open>\<open>shown v\<close> is \<open>str(v)\<close> when \<open>v\<close> is truthy.\<close>

fun parallel_fail_fast ::
    "('v tval \<Rightarrow> string) \<Rightarrow> ('v tval \<Rightarrow> string option) \<Rightarrow> (texn \<Rightarrow> string) \<Rightarrow> nat \<Rightarrow> pool_event list \<Rightarrow>
     ('v, 's, 'k::linorder) teffect \<Rightarrow> 's \<Rightarrow> ('v tanswer \<times> 's) option" where
  "parallel_fail_fast str shown text concurrency evs (Traverse f src label) s =
     fail_fast_traverse shown text concurrency evs f src label s"
| "parallel_fail_fast str shown text concurrency evs (Zip a b) s =
     Some (resume_or_raise (fail_fast_zip str (zip (all_items a) (all_items b))), s)"
| "parallel_fail_fast str shown text concurrency evs (SortBy key src rv) s =
     (let its = all_items src
      in if failed_items its \<noteq> [] then Some (RaiseOut (FailedBeforeSort (length (failed_items its))), s)
         else Some (ResumeItems (reindex (sort_by key rv (valid_items its))), s))"
| "parallel_fail_fast str shown text concurrency evs (Take n src) s =
     Some (resume_or_raise (map_sum id reindex (fail_fast_take n 0 (all_items src))), s)"
| "parallel_fail_fast str shown text concurrency evs eff s = Some (sequential text eff s)"

section \<open>Failures\<close>

datatype (plugins only: code size) 'v fail_cause = CauseExn texn | CauseText string

definition fail_handler :: "'v fail_cause \<Rightarrow> texn + 'v tval" where
  "fail_handler c = Inl (case c of CauseExn e \<Rightarrow> e | CauseText t \<Rightarrow> TRaised ''RuntimeError'' t)"

definition normalize_to_none :: "'v tval \<Rightarrow> 'v fail_cause \<Rightarrow> texn + 'v tval" where
  "normalize_to_none none c = Inr none"

end
