(* ===== verification/Traverse_Facts.thy ===== *)
theory Traverse_Facts
  imports Traverse
begin

text \<open>
  Every handler of \<open>doeff_traverse\<close> keeps items at the positions their indices name; a parallel
  traversal returns what a sequential one returns, whatever the order of its tasks; one that fails
  fast returns the same or raises what an item raised, and then leaves permits taken.
\<close>

section \<open>Indices are positions\<close>

definition indexed :: "'v item_result list \<Rightarrow> bool" where
  "indexed its \<longleftrightarrow> map ir_index its = [0..<length its]"

lemma indexed_fresh [simp]: "indexed (map fresh_item (enumerate 0 vs))"
  unfolding indexed_def by (rule nth_equalityI) (simp_all add: fresh_item_def nth_enumerate_eq)

lemma indexed_all_items: "(\<And>its. src = Collection its \<Longrightarrow> indexed its) \<Longrightarrow> indexed (all_items src)"
  by (cases src) simp_all

lemma indexed_reindex [simp]: "indexed (reindex its)"
  unfolding indexed_def by (rule nth_equalityI) (simp_all add: reindex_def nth_enumerate_eq)

lemma settle_index [simp]: "ir_index (settle text label it out) = ir_index it"
  by (simp add: settle_def split: sum.split)

lemma traverse_indices: "map ir_index (fst (traverse_items text f label its s)) = map ir_index its"
  by (induction its arbitrary: s) (simp_all split: prod.split, metis fst_conv)

lemma indexed_same: "map ir_index xs = map ir_index ys \<Longrightarrow> indexed xs = indexed ys"
  by (simp add: indexed_def) (metis length_map)

lemma zip_indices: "map ir_index (zip_items xs ys) = take (length ys) (map ir_index xs)"
proof (induction xs arbitrary: ys)
  case (Cons x xs)
  then show ?case by (cases ys) (simp_all add: zip_items_def zip_pair_def Let_def)
qed (simp add: zip_items_def)

lemma indexed_zip: "indexed xs \<Longrightarrow> indexed (zip_items xs ys)"
  unfolding indexed_def zip_indices by (rule nth_equalityI) (simp_all add: zip_items_def)

section \<open>What items become\<close>

text \<open>\<open>f\<close> has outcomes \<open>g\<close>, whatever the world.\<close>

definition outcomes :: "('v tval \<Rightarrow> 's \<Rightarrow> 'v item_outcome \<times> 's) \<Rightarrow> ('v tval \<Rightarrow> 'v item_outcome) \<Rightarrow> bool" where
  "outcomes f g \<longleftrightarrow> (\<forall>v s. fst (f v s) = g v)"

definition settled :: "(texn \<Rightarrow> string) \<Rightarrow> ('v tval \<Rightarrow> 'v item_outcome) \<Rightarrow> string option \<Rightarrow> 'v item_result \<Rightarrow> 'v item_result" where
  "settled text g label it = (if ir_failed it then it else settle text label it (g (ir_value it)))"

lemma settled_index [simp]: "ir_index (settled text g label it) = ir_index it"
  by (simp add: settled_def)

lemma traverse_outcomes:
  assumes "outcomes f g"
  shows "fst (traverse_items text f label its s) = map (settled text g label) its"
proof (induction its arbitrary: s)
  case (Cons it its)
  obtain out s1 where f: "f (ir_value it) s = (out, s1)" by force
  have "out = g (ir_value it)" using assms f unfolding outcomes_def by (metis fst_conv)
  then show ?case
    using Cons.IH [of s] Cons.IH [of s1] f by (simp add: settled_def split: prod.split) (metis fst_conv)
qed simp

lemma mset_partition_settled:
  "mset (failed_items its @ map (settled text g label) (valid_items its)) = mset (map (settled text g label) its)"
  by (induction its) (simp_all add: failed_items_def valid_items_def settled_def)

lemma sort_settled:
  assumes "indexed its"
  shows "sort_key ir_index (failed_items its @ map (settled text g label) (valid_items its)) =
    map (settled text g label) its"
proof (rule sort_key_inj_key_eq)
  let ?xs = "map (settled text g label) its"
  have "map ir_index ?xs = [0..<length its]" using assms by (simp add: indexed_def comp_def)
  then have "distinct (map ir_index ?xs)" and "sorted (map ir_index ?xs)" by (simp_all only: distinct_upt sorted_upt)
  then show "sorted (map ir_index ?xs)" by simp
  have "inj_on ir_index (set ?xs)" using \<open>distinct (map ir_index ?xs)\<close> by (simp only: distinct_map)
  then show "inj_on ir_index (set (failed_items its @ map (settled text g label) (valid_items its)))"
    using mset_partition_settled [of its "text" g label, THEN mset_eq_setD] by (simp only:)
qed (rule mset_partition_settled)

section \<open>Task pools\<close>

definition running :: "'v task_status list \<Rightarrow> nat" where
  "running ts = length (filter (\<lambda>t. t = Running) ts)"

primrec died :: "'v task_status \<Rightarrow> bool" where
  "died Waiting = False"
| "died Running = False"
| "died (Finished out) = False"
| "died (Died e) = True"

definition dead :: "'v task_status list \<Rightarrow> nat" where
  "dead ts = length (filter died ts)"

text \<open>Permits are free, in use, or lost with a task that died.\<close>

definition tasks_ok ::
    "('v tval \<Rightarrow> 'v item_outcome) \<Rightarrow> 'v item_result list \<Rightarrow> nat \<Rightarrow> ('v, 's) task_pool \<Rightarrow> bool" where
  "tasks_ok g its c p \<longleftrightarrow>
     length (tp_tasks p) = length its \<and>
     tp_permits p + running (tp_tasks p) + dead (tp_tasks p) = c \<and>
     (\<forall>i < length its. \<forall>out. tp_tasks p ! i = Finished out \<longrightarrow> out = g (ir_value (its ! i))) \<and>
     (\<forall>i < length its. \<forall>e. tp_tasks p ! i = Died e \<longrightarrow> g (ir_value (its ! i)) = Inl e) \<and>
     (\<forall>e. tp_error p = Some e \<longrightarrow> Died e \<in> set (tp_tasks p)) \<and>
     (tp_error p = None \<longrightarrow> dead (tp_tasks p) = 0)"

lemma filter_update_length:
  "i < length xs \<Longrightarrow>
     length (filter P (xs[i := x])) + (if P (xs ! i) then 1 else 0) = length (filter P xs) + (if P x then 1 else 0)"
proof (induction xs arbitrary: i)
  case (Cons y ys)
  then show ?case by (cases i) (auto split: if_splits)
qed simp

lemma running_update:
  "i < length ts \<Longrightarrow>
     running (ts[i := t]) + (if ts ! i = Running then 1 else 0) = running ts + (if t = Running then 1 else 0)"
  unfolding running_def by (rule filter_update_length)

lemma dead_update:
  "i < length ts \<Longrightarrow> dead (ts[i := t]) + (if died (ts ! i) then 1 else 0) = dead ts + (if died t then 1 else 0)"
  unfolding dead_def by (rule filter_update_length)

lemma died_update:
  assumes "Died e \<in> set ts" and "i < length ts" and "\<not> died (ts ! i)"
  shows "Died e \<in> set (ts[i := t])"
proof -
  from assms(1) obtain j where j: "j < length ts" "ts ! j = Died e" by (auto simp: in_set_conv_nth)
  with assms(3) have "i \<noteq> j" by auto
  with j show ?thesis by (auto simp: in_set_conv_nth intro!: exI [of _ j])
qed

lemma tasks_ok_start: "tasks_ok g its c (start_tasks its c s)"
proof -
  have "filter P (map (\<lambda>_. Waiting) its) = []" if "\<not> P (Waiting :: 'a task_status)" for P
    using that by (induction its) simp_all
  then show ?thesis by (simp add: tasks_ok_def start_tasks_def running_def dead_def)
qed


lemma tasks_ok_step:
  assumes "outcomes f g" and ok: "tasks_ok g its c p" and step: "pool_step ff f its ev p = Some p'"
  shows "tasks_ok g its c p'"
proof (cases ev)
  case (Start i)
  with step have i: "i < length (tp_tasks p)" "tp_tasks p ! i = Waiting" "0 < tp_permits p"
      and p': "p' = p\<lparr>tp_tasks := (tp_tasks p)[i := Running], tp_permits := tp_permits p - 1\<rparr>"
    by (auto split: if_splits)
  have "running ((tp_tasks p)[i := Running]) = Suc (running (tp_tasks p))"
    using running_update [OF i(1), of Running] i(2) by simp
  moreover have dead: "dead ((tp_tasks p)[i := Running]) = dead (tp_tasks p)"
    using dead_update [OF i(1), of Running] i(2) by simp
  moreover have "Died e \<in> set ((tp_tasks p)[i := Running])" if "Died e \<in> set (tp_tasks p)" for e
    using that i(1,2) by (intro died_update) simp_all
  ultimately show ?thesis
    using ok i(1,3) unfolding tasks_ok_def p' by (auto simp: nth_list_update)
next
  case (End i)
  with step have i: "i < length (tp_tasks p)" "tp_tasks p ! i = Running" by (auto split: if_splits)
  obtain out s' where f: "f (ir_value (its ! i)) (tp_world p) = (out, s')" by force
  have out: "out = g (ir_value (its ! i))" using assms(1) f unfolding outcomes_def by (metis fst_conv)
  have p': "p' = end_task ff i out (p\<lparr>tp_world := s'\<rparr>)" using step End i f by simp
  have len: "length (tp_tasks p) = length its" using ok by (simp add: tasks_ok_def)
  have running: "Suc (running ((tp_tasks p)[i := t])) = running (tp_tasks p)" if "t \<noteq> Running" for t
    using running_update [OF i(1), of t] i(2) that by simp
  have dead: "dead ((tp_tasks p)[i := t]) = dead (tp_tasks p) + (if died t then 1 else 0)" for t
    using dead_update [OF i(1), of t] i(2) by simp
  have errors: "Died e \<in> set ((tp_tasks p)[i := t])" if "Died e \<in> set (tp_tasks p)" for e t
    using that i(1,2) by (intro died_update) simp_all
  show ?thesis
  proof (cases "ff \<and> (\<exists>e. out = Inl e)")
    case True
    then obtain e where e: "out = Inl e" "ff" by blast
    then have "p' = p\<lparr>tp_world := s', tp_tasks := (tp_tasks p)[i := Died e],
        tp_error := (case tp_error p of None \<Rightarrow> Some e | Some e' \<Rightarrow> Some e')\<rparr>"
      by (simp add: p' end_task_def)
    moreover have "Died e \<in> set ((tp_tasks p)[i := Died e])" using i(1) by (simp add: set_update_memI)
    ultimately show ?thesis
      using ok running [of "Died e"] dead [of "Died e"] errors out e len i(1) unfolding tasks_ok_def
      by (auto simp: nth_list_update split: option.splits)
  next
    case False
    then have "p' = p\<lparr>tp_world := s', tp_tasks := (tp_tasks p)[i := Finished out], tp_permits := tp_permits p + 1\<rparr>"
      by (auto simp: p' end_task_def split: sum.splits)
    then show ?thesis
      using ok running [of "Finished out"] dead [of "Finished out"] errors out len i(1) unfolding tasks_ok_def
      by (auto simp: nth_list_update)
  qed
qed

lemma tasks_ok_run:
  assumes "outcomes f g"
  shows "tasks_ok g its c p \<Longrightarrow> pool_run ff f its evs p = Some p' \<Longrightarrow> tasks_ok g its c p'"
proof (induction evs arbitrary: p)
  case (Cons ev evs)
  then obtain p1 where "pool_step ff f its ev p = Some p1" "pool_run ff f its evs p1 = Some p'"
    by (auto split: option.splits)
  with Cons tasks_ok_step [OF assms] show ?case by blast
qed simp

lemma pool_run_append:
  "pool_run ff f its (xs @ ys) p = (case pool_run ff f its xs p of None \<Rightarrow> None | Some p' \<Rightarrow> pool_run ff f its ys p')"
  by (induction xs arbitrary: p) (simp_all split: option.split)

lemma task_results_iff:
  "task_results ts = Some outs \<longleftrightarrow> length outs = length ts \<and> (\<forall>i < length ts. ts ! i = Finished (outs ! i))"
proof (induction ts arbitrary: outs)
  case (Cons t ts)
  have t: "task_result t = Some out \<longleftrightarrow> t = Finished out" for out by (cases t) auto
  show ?case
    by (cases outs) (auto simp: Cons t All_less_Suc2 split: option.split)
qed auto

lemma results_are_outcomes:
  assumes "tasks_ok g its c p" and "task_results (tp_tasks p) = Some outs"
  shows "outs = map (\<lambda>it. g (ir_value it)) its"
  using assms by (intro nth_equalityI) (simp_all add: tasks_ok_def task_results_iff)


primrec task_work :: "'v task_status \<Rightarrow> nat" where
  "task_work Waiting = 2"
| "task_work Running = 1"
| "task_work (Finished out) = 0"
| "task_work (Died e) = 0"

definition work :: "'v task_status list \<Rightarrow> nat" where
  "work ts = sum_list (map task_work ts)"

lemma work_update: "i < length ts \<Longrightarrow> task_work t < task_work (ts ! i) \<Longrightarrow> work (ts[i := t]) < work ts"
proof (induction ts arbitrary: i)
  case (Cons u ts)
  then show ?case by (cases i) (auto simp: work_def)
qed simp

lemma step_dead: "pool_step False f its ev p = Some p' \<Longrightarrow> dead (tp_tasks p') = dead (tp_tasks p)"
proof (cases ev)
  case (Start i)
  assume "pool_step False f its ev p = Some p'"
  then show ?thesis
    using Start dead_update [of i "tp_tasks p" Running] by (auto split: if_splits)
next
  case (End i)
  assume step: "pool_step False f its ev p = Some p'"
  obtain out s' where "f (ir_value (its ! i)) (tp_world p) = (out, s')" by force
  then show ?thesis
    using step End dead_update [of i "tp_tasks p" "Finished out"]
    by (auto simp: end_task_def split: if_splits sum.splits)
qed

lemma run_dead: "pool_run False f its evs p = Some p' \<Longrightarrow> dead (tp_tasks p') = dead (tp_tasks p)"
proof (induction evs arbitrary: p)
  case (Cons ev evs)
  then obtain p1 where "pool_step False f its ev p = Some p1" "pool_run False f its evs p1 = Some p'"
    by (auto split: option.splits)
  with Cons.IH step_dead [of f its ev p p1] show ?case by simp
qed simp

lemma step_no_failures:
  assumes "pool_step True f its ev p = Some p'" and "\<forall>e. Finished (Inl e) \<notin> set (tp_tasks p)"
  shows "\<forall>e. Finished (Inl e) \<notin> set (tp_tasks p')"
proof (cases ev)
  case (Start i)
  then show ?thesis
    using assms set_update_subset_insert [of "tp_tasks p" i Running] by (auto split: if_splits)
next
  case (End i)
  obtain out s' where "f (ir_value (its ! i)) (tp_world p) = (out, s')" by force
  then show ?thesis
    using assms End by (cases out) (auto simp: end_task_def split: if_splits dest!: set_update_subset_insert [THEN subsetD])
qed

lemma run_no_failures:
  "pool_run True f its evs p = Some p' \<Longrightarrow> \<forall>e. Finished (Inl e) \<notin> set (tp_tasks p) \<Longrightarrow>
     \<forall>e. Finished (Inl e) \<notin> set (tp_tasks p')"
proof (induction evs arbitrary: p)
  case (Cons ev evs)
  then obtain p1 where "pool_step True f its ev p = Some p1" "pool_run True f its evs p1 = Some p'"
    by (auto split: option.splits)
  with Cons.IH step_no_failures [OF _ Cons.prems(2)] show ?case by blast
qed simp

lemma start_dead: "dead (tp_tasks (start_tasks its c s)) = 0"
  by (simp add: start_tasks_def dead_def filter_empty_conv)

lemma unfinished_task:
  assumes "task_results ts = None"
  shows "\<exists>i < length ts. task_result (ts ! i) = None"
proof (rule ccontr)
  assume "\<not> ?thesis"
  then have "\<forall>i < length ts. \<exists>out. ts ! i = Finished out"
    by (metis task_result.simps task_status.exhaust)
  then have "\<forall>i < length ts. ts ! i = Finished (map (\<lambda>t. the (task_result t)) ts ! i)" by auto
  then have "task_results ts = Some (map (\<lambda>t. the (task_result t)) ts)" by (simp add: task_results_iff)
  with assms show False by simp
qed

lemma pool_can_finish:
  assumes "outcomes f g" and "0 < c"
  shows "tasks_ok g its c p \<Longrightarrow> dead (tp_tasks p) = 0 \<Longrightarrow>
    \<exists>evs p' outs. pool_run False f its evs p = Some p' \<and> task_results (tp_tasks p') = Some outs"
proof (induction "work (tp_tasks p)" arbitrary: p rule: less_induct)
  case less
  show ?case
  proof (cases "task_results (tp_tasks p)")
    case None
    have "\<exists>ev p1. pool_step False f its ev p = Some p1 \<and> work (tp_tasks p1) < work (tp_tasks p)"
    proof (cases "\<exists>i < length (tp_tasks p). tp_tasks p ! i = Running")
      case True
      then obtain i where i: "i < length (tp_tasks p)" "tp_tasks p ! i = Running" by blast
      obtain out s' where "f (ir_value (its ! i)) (tp_world p) = (out, s')" by force
      then show ?thesis
        using i work_update [OF i(1), of "Finished out"]
        by (intro exI [of _ "End i"], cases out) (simp_all add: end_task_def)
    next
      case False
      then have "running (tp_tasks p) = 0" by (auto simp: running_def filter_empty_conv in_set_conv_nth)
      then have permits: "0 < tp_permits p" using less.prems assms(2) by (simp add: tasks_ok_def)
      have "\<forall>e. Died e \<notin> set (tp_tasks p)"
        using less.prems(2) by (auto simp: dead_def filter_empty_conv)
      then have "\<exists>i < length (tp_tasks p). tp_tasks p ! i = Waiting"
        using unfinished_task [OF None] False by (metis nth_mem option.distinct(1) task_result.simps(3) task_status.exhaust)
      then obtain i where i: "i < length (tp_tasks p)" "tp_tasks p ! i = Waiting" by blast
      then show ?thesis
        using permits work_update [OF i(1), of Running] by (intro exI [of _ "Start i"]) simp
    qed
    then obtain ev p1 where step: "pool_step False f its ev p = Some p1" and smaller: "work (tp_tasks p1) < work (tp_tasks p)"
      by blast
    have "dead (tp_tasks p1) = 0" using step_dead [OF step] less.prems(2) by simp
    from less.hyps [OF smaller tasks_ok_step [OF assms(1) less.prems(1) step] this]
    obtain evs p' outs where "pool_run False f its evs p1 = Some p'" "task_results (tp_tasks p') = Some outs" by blast
    with step show ?thesis by (intro exI [of _ "ev # evs"] exI [of _ p'] exI [of _ outs]) simp
  next
    case (Some outs)
    then show ?thesis by (intro exI [of _ "[]"] exI [of _ p] exI [of _ outs]) simp
  qed
qed


section \<open>Parallel and sequential traversals\<close>

lemma map2_settled:
  "map2 (settle text label) (valid_items its) (map (\<lambda>it. g (ir_value it)) (valid_items its)) =
     map (settled text g label) (valid_items its)"
  by (simp add: zip_map2 zip_same_conv_map comp_def) (simp add: settled_def valid_items_def)

lemma settled_failed: "valid_items its = [] \<Longrightarrow> map (settled text g label) its = failed_items its"
  by (induction its) (auto simp: valid_items_def failed_items_def settled_def split: if_splits)

lemma sequential_traverse:
  assumes "outcomes f g"
  shows "fst (sequential text (Traverse f src label) s) = ResumeItems (map (settled text g label) (all_items src))"
  using traverse_outcomes [OF assms, of "text" label "all_items src" s] by (simp split: prod.split) (metis fst_conv)

lemma parallel_traversal_parts:
  fixes eff :: "('v, 's, 'k::linorder) teffect"
  assumes "indexed (all_items src)" and "outcomes f g" and "0 < c" and eff: "eff = Traverse f src label"
    and "pool_run False f (valid_items (all_items src)) evs (start_tasks (valid_items (all_items src)) c s) = Some p"
  shows "running (tp_tasks p) \<le> c"
    and "\<forall>r w. parallel_handler text c evs eff s = Some (r, w) \<longrightarrow> r = fst (sequential text eff s)"
    and "\<exists>evs' w. parallel_handler text c (evs @ evs') eff s = Some (fst (sequential text eff s), w)"
proof -
  let ?active = "valid_items (all_items src)"
  have ok: "tasks_ok g ?active c p" by (rule tasks_ok_run [OF assms(2) tasks_ok_start assms(5)])
  then show "running (tp_tasks p) \<le> c" by (simp add: tasks_ok_def)
  have "dead (tp_tasks p) = 0" using run_dead [OF assms(5)] start_dead by metis
  from pool_can_finish [OF assms(2,3) ok this] obtain evs' p' outs where
    finish: "pool_run False f ?active evs' p = Some p'" "task_results (tp_tasks p') = Some outs" by blast
  have run: "pool_run False f ?active (evs @ evs') (start_tasks ?active c s) = Some p'"
    using assms(5) finish(1) by (simp add: pool_run_append)
  have result: "parallel_handler text c xs eff s = Some (fst (sequential text eff s), if ?active = [] then s else tp_world q)"
    if "pool_run False f ?active xs (start_tasks ?active c s) = Some q" "task_results (tp_tasks q) = Some outs" for xs q outs
  proof (cases "?active = []")
    case True
    then show ?thesis
      unfolding eff sequential_traverse [OF assms(2)] by (simp add: parallel_traverse_def settled_failed)
  next
    case False
    have "outs = map (\<lambda>it. g (ir_value it)) ?active"
      by (rule results_are_outcomes [OF tasks_ok_run [OF assms(2) tasks_ok_start that(1)] that(2)])
    then show ?thesis
      using False that assms(3) unfolding eff sequential_traverse [OF assms(2)]
      by (simp add: parallel_traverse_def map2_settled sort_settled [OF assms(1)])
  qed
  show "\<exists>evs' w. parallel_handler text c (evs @ evs') eff s = Some (fst (sequential text eff s), w)"
    using result [OF run finish(2)] by blast
  show "\<forall>r w. parallel_handler text c evs eff s = Some (r, w) \<longrightarrow> r = fst (sequential text eff s)"
  proof (cases "task_results (tp_tasks p)")
    case None
    show ?thesis
    proof (cases "?active = []")
      case True
      then show ?thesis
        unfolding eff sequential_traverse [OF assms(2)] by (simp add: parallel_traverse_def settled_failed)
    next
      case False
      then show ?thesis using None assms(3,5) by (simp add: eff parallel_traverse_def)
    qed
  next
    case (Some outs)
    then show ?thesis using result [OF assms(5) Some] by simp
  qed
qed

text \<open>
  C28: A parallel traversal of independent items is a sequential one. The hypotheses: what an item's program returns is determined
  by the item alone, not by the world the items share or by the other items; the indices of the collection are positions; and
  \<open>concurrency\<close> is positive. Then, whatever the order in which the tasks start and end, a traversal that
  returns gives the collection the sequential handler gives; at most \<open>concurrency\<close> tasks run at a time; and from
  every point some order lets it return. (Items that communicate through shared state are outside it: for them the order shows.)
\<close>

theorem parallel_agrees_with_sequential:
  fixes eff :: "('v, 's, 'k::linorder) teffect"
  assumes "indexed (all_items src)" and "outcomes f g" and "0 < c" and "eff = Traverse f src label"
    and "pool_run False f (valid_items (all_items src)) evs (start_tasks (valid_items (all_items src)) c s) = Some p"
  shows "running (tp_tasks p) \<le> c \<and>
    (\<forall>r w. parallel_handler text c evs eff s = Some (r, w) \<longrightarrow> r = fst (sequential text eff s)) \<and>
    (\<exists>evs' w. parallel_handler text c (evs @ evs') eff s = Some (fst (sequential text eff s), w))"
  by (intro conjI parallel_traversal_parts [OF assms])



definition demo_items :: "int items" where
  "demo_items = Iterable [TVal 4, TVal 0, TVal 2]"

definition demo_div :: "int tval \<Rightarrow> int item_outcome" where
  "demo_div v = (case v of TVal i \<Rightarrow> if i = 0 then Inl (TRaised ''ZeroDivisionError'' ''division by zero'') else Inr (TVal (12 div i)) | _ \<Rightarrow> Inr TSkipped)"

definition demo_f :: "int tval \<Rightarrow> nat \<Rightarrow> int item_outcome \<times> nat" where
  "demo_f v s = (demo_div v, Suc s)"

definition demo_effect :: "(int, nat, int) teffect" where
  "demo_effect = Traverse demo_f demo_items (Some ''invert'')"

definition demo_pool :: "(int, nat) task_pool" where
  "demo_pool = \<lparr>tp_tasks = [Waiting, Running, Finished (Inr (TVal 6))], tp_permits = 1, tp_world = 1, tp_error = None\<rparr>"

lemma demo_outcomes: "outcomes demo_f demo_div"
  by (simp add: outcomes_def demo_f_def)

lemmas demo_defs = demo_items_def demo_effect_def demo_pool_def valid_items_def fresh_item_def start_tasks_def

lemma parallel_agrees_with_sequential_witness:
  "running (tp_tasks demo_pool) \<le> 2 \<and>
   (\<exists>evs' w. parallel_handler (\<lambda>_. ''error'') 2 ([Start 2, Start 1, End 2] @ evs') demo_effect 0 =
      Some (fst (sequential (\<lambda>_. ''error'') demo_effect 0), w))"
proof -
  have indexed: "indexed (all_items demo_items)" unfolding demo_items_def all_items.simps by (rule indexed_fresh)
  have run: "pool_run False demo_f (valid_items (all_items demo_items)) [Start 2, Start 1, End 2]
      (start_tasks (valid_items (all_items demo_items)) 2 0) = Some demo_pool"
    by (simp add: demo_defs demo_f_def demo_div_def end_task_def numeral_2_eq_2)
  show ?thesis
    using parallel_agrees_with_sequential [OF indexed demo_outcomes _ demo_effect_def run] by simp
qed

text \<open>
  Failing fast is sequential or raises. When no item of the collection has failed before, what
  \<open>parallel_fail_fast\<close> answers is the collection of the sequential handler, none of whose items failed by
  raising, or the exception that one of the items raised.
\<close>

theorem fail_fast_agrees_or_raises:
  fixes eff :: "('v, 's, 'k::linorder) teffect"
  assumes "indexed (all_items src)" and "outcomes f g" and "failed_items (all_items src) = []" and "0 < c"
    and eff: "eff = Traverse f src label" and result: "parallel_fail_fast str shown text c evs eff s = Some (r, w)"
  shows "(\<forall>it \<in> set (all_items src). \<exists>v. g (ir_value it) = Inr v) \<and> r = fst (sequential text eff s) \<or>
    (\<exists>it \<in> set (all_items src). \<exists>e. g (ir_value it) = Inl e \<and> r = RaiseOut e)"
proof (cases "all_items src = []")
  case True
  then show ?thesis
    using result by (simp add: eff fail_fast_traverse_def valid_items_def failed_items_def)
next
  case False
  have active: "valid_items (all_items src) = all_items src"
    using assms(3) by (simp add: valid_items_def failed_items_def filter_empty_conv)
  then obtain p where run: "pool_run True f (all_items src) evs (start_tasks (all_items src) c s) = Some p"
    using result False assms(3,4) by (auto simp: eff fail_fast_traverse_def Let_def split: option.splits)
  have ok: "tasks_ok g (all_items src) c p" by (rule tasks_ok_run [OF assms(2) tasks_ok_start run])
  show ?thesis
  proof (cases "tp_error p")
    case (Some e)
    then have "Died e \<in> set (tp_tasks p)" using ok by (simp add: tasks_ok_def)
    then obtain i where i: "i < length (all_items src)" "tp_tasks p ! i = Died e"
      using ok by (auto simp: tasks_ok_def in_set_conv_nth)
    then have "g (ir_value (all_items src ! i)) = Inl e" using ok by (simp add: tasks_ok_def)
    moreover have "r = RaiseOut e"
      using result False assms(3,4) run active Some by (simp add: eff fail_fast_traverse_def)
    ultimately show ?thesis using i(1) nth_mem by blast
  next
    case None
    then obtain outs where outs: "task_results (tp_tasks p) = Some outs"
      using result False assms(3,4) run active by (auto simp: eff fail_fast_traverse_def split: option.splits)
    have "r = fst (sequential text eff s)"
      unfolding eff sequential_traverse [OF assms(2)]
      using result False assms(3,4) run active None outs results_are_outcomes [OF ok outs]
        sort_settled [OF assms(1), of "text" g label] map2_settled [of "text" label "all_items src" g]
      by (simp add: eff fail_fast_traverse_def)
    moreover have "\<exists>v. g (ir_value it) = Inr v" if member: "it \<in> set (all_items src)" for it
    proof -
      obtain i where "i < length (all_items src)" "it = all_items src ! i" using member by (auto simp: in_set_conv_nth)
      then have "Finished (g (ir_value it)) \<in> set (tp_tasks p)"
        using outs ok results_are_outcomes [OF ok outs] by (auto simp: task_results_iff tasks_ok_def in_set_conv_nth)
      then show ?thesis
        using run_no_failures [OF run] by (cases "g (ir_value it)") (auto simp: start_tasks_def)
    qed
    ultimately show ?thesis by blast
  qed
qed

lemma fail_fast_agrees_or_raises_witness:
  "parallel_fail_fast (\<lambda>_. '''') (\<lambda>_. None) (\<lambda>_. ''error'') 2 [Start 0, Start 1, End 1] demo_effect 0 =
     Some (RaiseOut (TRaised ''ZeroDivisionError'' ''division by zero''), 1) \<and>
   (\<exists>it \<in> set (all_items demo_items). demo_div (ir_value it) = Inl (TRaised ''ZeroDivisionError'' ''division by zero''))"
proof -
  have indexed: "indexed (all_items demo_items)" unfolding demo_items_def all_items.simps by (rule indexed_fresh)
  have run: "parallel_fail_fast (\<lambda>_. '''') (\<lambda>_. None) (\<lambda>_. ''error'') 2 [Start 0, Start 1, End 1] demo_effect 0 =
      Some (RaiseOut (TRaised ''ZeroDivisionError'' ''division by zero''), 1)"
    by (simp add: demo_defs fail_fast_traverse_def failed_items_def demo_f_def demo_div_def end_task_def numeral_2_eq_2)
  have "\<exists>it \<in> set (all_items demo_items). \<not> (\<exists>v. demo_div (ir_value it) = Inr v)"
    by (simp add: demo_defs demo_div_def)
  then show ?thesis
    using fail_fast_agrees_or_raises [OF indexed demo_outcomes _ _ demo_effect_def run] run
    by (auto simp: demo_defs failed_items_def)
qed





section \<open>Positions are kept\<close>

primrec sources :: "('v, 's, 'k) teffect \<Rightarrow> 'v items list" where
  "sources Skip = []"
| "sources (Traverse f src label) = [src]"
| "sources (Reduce f init src) = [src]"
| "sources (Zip a b) = [a, b]"
| "sources (Inspect src) = [src]"
| "sources (SortBy key src rv) = [src]"
| "sources (Take n src) = [src]"
| "sources OtherEffect = []"

lemma sequential_keeps_positions:
  assumes "\<forall>src \<in> set (sources eff). indexed (all_items src)" and "sequential text eff s = (ResumeItems rs, w)"
  shows "indexed rs"
proof (cases eff)
  case (Traverse f src label)
  then have "map ir_index rs = map ir_index (all_items src)"
    using assms(2) traverse_indices [of "text" f label "all_items src" s] by (auto split: prod.splits)
  then show ?thesis using assms(1) Traverse by (simp add: indexed_same [of rs "all_items src"])
next
  case (Zip a b)
  then show ?thesis using assms by (auto intro: indexed_zip)
qed (use assms in \<open>auto simp: Let_def split: prod.splits sum.splits\<close>)

lemma indexed_sort:
  assumes "indexed its" and "mset (map ir_index xs) = mset (map ir_index its)"
  shows "indexed (sort_key ir_index xs)"
proof -
  have "length xs = length its" using assms(2) by (metis length_map mset_eq_length)
  moreover have "sorted (map ir_index (sort_key ir_index xs))" by simp
  moreover have "mset (map ir_index (sort_key ir_index xs)) = mset [0..<length its]"
    using assms by (simp add: indexed_def)
  ultimately show ?thesis
    unfolding indexed_def by (metis length_sort properties_for_sort sorted_upt)
qed

lemma settled_parts_indices:
  "length outs = length (valid_items its) \<Longrightarrow>
     mset (map ir_index (failed_items its @ map2 (settle text label) (valid_items its) outs)) = mset (map ir_index its)"
proof -
  assume len: "length outs = length (valid_items its)"
  have "map ir_index (map2 (settle text label) xs outs) = map ir_index xs" if "length outs = length xs" for xs
    using that by (induction xs outs rule: list_induct2') simp_all
  with len have "map ir_index (failed_items its @ map2 (settle text label) (valid_items its) outs) =
      map ir_index (failed_items its @ valid_items its)" by simp
  moreover have "mset (failed_items its @ valid_items its) = mset its"
    by (induction its) (simp_all add: failed_items_def valid_items_def)
  ultimately show ?thesis by (metis mset_map)
qed

lemma pool_run_length: "pool_run ff f its evs p = Some p' \<Longrightarrow> length (tp_tasks p') = length (tp_tasks p)"
proof (induction evs arbitrary: p)
  case (Cons ev evs)
  then obtain p1 where p1: "pool_step ff f its ev p = Some p1" "pool_run ff f its evs p1 = Some p'"
    by (auto split: option.splits)
  then have "length (tp_tasks p1) = length (tp_tasks p)"
    by (cases ev) (auto simp: end_task_def split: if_splits sum.splits prod.splits)
  with Cons.IH p1(2) show ?case by simp
qed simp

lemma parallel_traverse_keeps_positions:
  assumes "indexed (all_items src)" and "parallel_traverse text c evs f src label s = Some (ResumeItems rs, w)"
  shows "indexed rs"
proof (cases "valid_items (all_items src) = []")
  case True
  then have "failed_items (all_items src) = all_items src"
    by (auto simp: valid_items_def failed_items_def filter_empty_conv filter_id_conv)
  then show ?thesis using assms True by (simp add: parallel_traverse_def)
next
  case False
  then obtain p outs where p: "pool_run False f (valid_items (all_items src)) evs (start_tasks (valid_items (all_items src)) c s) = Some p"
      "task_results (tp_tasks p) = Some outs"
      and rs: "rs = sort_key ir_index (failed_items (all_items src) @ map2 (settle text label) (valid_items (all_items src)) outs)"
    using assms(2) by (auto simp: parallel_traverse_def Let_def split: if_splits option.splits)
  have "length outs = length (valid_items (all_items src))"
    using pool_run_length [OF p(1)] p(2) by (simp add: task_results_iff start_tasks_def)
  then show ?thesis unfolding rs by (intro indexed_sort [OF assms(1)] settled_parts_indices)
qed

lemma fail_fast_traverse_keeps_positions:
  assumes "indexed (all_items src)" and "fail_fast_traverse shown text c evs f src label s = Some (ResumeItems rs, w)"
  shows "indexed rs"
proof -
  have failed: "failed_items (all_items src) = []"
    using assms(2) by (auto simp: fail_fast_traverse_def Let_def split: list.splits)
  show ?thesis
  proof (cases "valid_items (all_items src) = []")
    case True
    then show ?thesis using assms(2) failed by (simp add: fail_fast_traverse_def indexed_def)
  next
    case False
    then obtain p outs where p: "pool_run True f (valid_items (all_items src)) evs (start_tasks (valid_items (all_items src)) c s) = Some p"
        "task_results (tp_tasks p) = Some outs"
        and rs: "rs = sort_key ir_index (map2 (settle text label) (valid_items (all_items src)) outs)"
      using assms(2) failed by (auto simp: fail_fast_traverse_def Let_def split: if_splits option.splits)
    have "length outs = length (valid_items (all_items src))"
      using pool_run_length [OF p(1)] p(2) by (simp add: task_results_iff start_tasks_def)
    then show ?thesis
      unfolding rs using settled_parts_indices [of outs "all_items src" "text" label] failed
      by (intro indexed_sort [OF assms(1)]) simp
  qed
qed

lemma fail_fast_zip_indices:
  "fail_fast_zip str (zip xs ys) = Inr rs \<Longrightarrow> map ir_index rs = map ir_index (zip_items xs ys)"
proof (induction xs arbitrary: ys rs)
  case (Cons x xs)
  then show ?case
    by (cases ys) (auto simp: zip_items_def zip_pair_def Let_def map_sum_def split: if_splits sum.splits)
qed (simp add: zip_items_def)

text \<open>
  C30: An item's index is its position. Whatever the effect and whichever of the three handlers answers it, if the indices
  of the collections it takes are positions, so are those of the collection it gives back, however the
  tasks were ordered, items failed, were skipped, sorted or dropped.
\<close>

theorem collections_keep_positions:
  fixes eff :: "('v, 's, 'k::linorder) teffect"
  assumes "\<forall>src \<in> set (sources eff). indexed (all_items src)"
    and "answer \<in> {Some (sequential text eff s), parallel_handler text c evs eff s, parallel_fail_fast str shown text c evs eff s}"
    and "answer = Some (ResumeItems rs, w)"
  shows "indexed rs"
proof -
  have seq: "indexed rs" if "sequential text eff s = (ResumeItems rs, w)"
    by (rule sequential_keeps_positions [OF assms(1) that])
  from assms(2,3) consider "Some (sequential text eff s) = Some (ResumeItems rs, w)"
    | "parallel_handler text c evs eff s = Some (ResumeItems rs, w)"
    | "parallel_fail_fast str shown text c evs eff s = Some (ResumeItems rs, w)" by auto
  then show ?thesis
  proof cases
    case 2
    then show ?thesis
      using seq assms(1) by (cases eff) (auto intro: parallel_traverse_keeps_positions)
  next
    case 3
    show ?thesis
    proof (cases eff)
      case (Traverse f src label)
      then show ?thesis using 3 assms(1) by (auto intro: fail_fast_traverse_keeps_positions)
    next
      case (Zip a b)
      then have "fail_fast_zip str (zip (all_items a) (all_items b)) = Inr rs"
        using 3 by (auto simp: resume_or_raise_def split: sum.splits)
      then have "indexed rs = indexed (zip_items (all_items a) (all_items b))"
        by (intro indexed_same fail_fast_zip_indices)
      then show ?thesis using assms(1) Zip by (simp add: indexed_zip)
    next
      case (SortBy key src rv)
      then show ?thesis using 3 by (auto simp: Let_def split: if_splits)
    next
      case (Take n src)
      then show ?thesis using 3 by (auto simp: resume_or_raise_def map_sum_def split: sum.splits)
    qed (use 3 seq in auto)
  qed (use seq in simp)
qed

lemma collections_keep_positions_witness:
  "indexed [\<lparr>ir_index = 0, ir_value = TVal (3 :: int), ir_failed = False, ir_history = [history_entry_of (Some ''invert'') ''ok'' None]\<rparr>,
     \<lparr>ir_index = 1, ir_value = TExn (TRaised ''ZeroDivisionError'' ''division by zero''), ir_failed = True,
      ir_history = [history_entry_of (Some ''invert'') ''failed'' (Some ''error'')]\<rparr>,
     \<lparr>ir_index = 2, ir_value = TVal 6, ir_failed = False, ir_history = [history_entry_of (Some ''invert'') ''ok'' None]\<rparr>]"
  (is "indexed ?rs")
proof (rule collections_keep_positions [of demo_effect])
  show "\<forall>src \<in> set (sources demo_effect). indexed (all_items src)"
    unfolding demo_effect_def demo_items_def by (simp del: enumerate_simps)
  show "Some (sequential (\<lambda>_. ''error'') demo_effect 0) \<in>
      {Some (sequential (\<lambda>_. ''error'') demo_effect 0), parallel_handler (\<lambda>_. ''error'') 1 [] demo_effect 0,
       parallel_fail_fast (\<lambda>_. '''') (\<lambda>_. None) (\<lambda>_. ''error'') 1 [] demo_effect 0}" by simp
  show "Some (sequential (\<lambda>_. ''error'') demo_effect 0) = Some (ResumeItems ?rs, 3)"
    by (simp add: demo_defs demo_f_def demo_div_def settle_def)
qed

end
