(* ===== verification/Review.thy ===== *)
theory Review
  imports Result_Schema Complex_Main
begin

text \<open>
  Review routing by attention tiers (\<open>doeff_conductor/effects/review.py\<close>): the verdicts tier-1 reviewers
  return, the budget counters, calibration sampling, and the decision whether a reviewed item ends
  with a verdict, an escalation to tier 2 or an open gate. A float is a rational number; what
  \<open>should_sample\<close> computes from the SHA-256 of a text is the parameter \<open>threshold\<close>. Enum members
  compare by identity, so they are constructors.
\<close>

section \<open>Verdicts and findings\<close>

datatype review_verdict = VPass | VChangesRequested
datatype review_severity = SevBlocker | SevMajor | SevMinor

datatype (plugins only: code size) review_error =
    RvKeyError string | RvIndexError | RvTypeError string | BadVerdict string | BadSeverity string
  | NegativeLimit | NegativeUnits | NegativeRemaining | UnknownClass string | NoRule string | BadRate

primrec verdict_value :: "review_verdict \<Rightarrow> string" where
  "verdict_value VPass = ''PASS''"
| "verdict_value VChangesRequested = ''CHANGES_REQUESTED''"

primrec severity_value :: "review_severity \<Rightarrow> string" where
  "severity_value SevBlocker = ''BLOCKER''"
| "severity_value SevMajor = ''MAJOR''"
| "severity_value SevMinor = ''MINOR''"

definition to_verdict :: "string \<Rightarrow> review_error + review_verdict" where
  "to_verdict s = (if s = ''PASS'' then Inr VPass else if s = ''CHANGES_REQUESTED'' then Inr VChangesRequested else Inl (BadVerdict s))"

definition to_severity :: "string \<Rightarrow> review_error + review_severity" where
  "to_severity s =
     (if s = ''BLOCKER'' then Inr SevBlocker else if s = ''MAJOR'' then Inr SevMajor
      else if s = ''MINOR'' then Inr SevMinor else Inl (BadSeverity s))"

definition text_schema :: json where
  "text_schema = JObj [(''type'', JStr ''string''), (''minLength'', JInt 1)]"

definition finding_schema :: json where
  "finding_schema =
     JObj
      [(''type'', JStr ''object''),
       (''required'', JList [JStr ''title'', JStr ''severity'', JStr ''detail'']),
       (''properties'',
         JObj
          [(''title'', text_schema),
           (''severity'', JObj [(''type'', JStr ''string''), (''enum'', JList [JStr ''BLOCKER'', JStr ''MAJOR'', JStr ''MINOR''])]),
           (''detail'', text_schema),
           (''file'', text_schema)]),
       (''additionalProperties'', JBool False)]"

definition review_verdict_result_schema :: json where
  "review_verdict_result_schema =
     JObj
      [(''type'', JStr ''object''),
       (''required'', JList [JStr ''verdict'', JStr ''findings'']),
       (''properties'',
         JObj
          [(''verdict'', JObj [(''type'', JStr ''string''), (''enum'', JList [JStr ''PASS'', JStr ''CHANGES_REQUESTED''])]),
           (''findings'', JObj [(''type'', JStr ''array''), (''items'', finding_schema)])]),
       (''additionalProperties'', JBool False)]"

record review_finding =
  rf_title :: string
  rf_severity :: review_severity
  rf_detail :: string
  rf_file :: "string option"

record verdict_artifact =
  va_verdict :: review_verdict
  va_findings :: "review_finding list"

definition required_item :: "payload \<Rightarrow> string \<Rightarrow> review_error + json" where
  "required_item d k = (case dget d k of None \<Rightarrow> Inl (RvKeyError k) | Some v \<Rightarrow> Inr v)"

definition as_text :: "string \<Rightarrow> json \<Rightarrow> review_error + string" where
  "as_text what v = (case v of JStr s \<Rightarrow> Inr s | _ \<Rightarrow> Inl (RvTypeError what))"

definition finding_from_dict :: "payload \<Rightarrow> review_error + review_finding" where
  "finding_from_dict d =
     rbind (required_item d ''title'') (\<lambda>raw_title.
     rbind (required_item d ''severity'') (\<lambda>raw_severity.
     rbind (required_item d ''detail'') (\<lambda>raw_detail.
     rbind (as_text ''title'' raw_title) (\<lambda>title.
     rbind (as_text ''severity'' raw_severity) (\<lambda>severity.
     rbind (as_text ''detail'' raw_detail) (\<lambda>detail.
     rbind (case dget d ''file'' of None \<Rightarrow> Inr None | Some raw \<Rightarrow> map_sum id Some (as_text ''file'' raw)) (\<lambda>file_name.
     rbind (to_severity severity) (\<lambda>sev.
     Inr \<lparr>rf_title = title, rf_severity = sev, rf_detail = detail, rf_file = file_name\<rparr>))))))))"

definition finding_to_dict :: "review_finding \<Rightarrow> payload" where
  "finding_to_dict f =
     [(''title'', JStr (rf_title f)), (''severity'', JStr (severity_value (rf_severity f))), (''detail'', JStr (rf_detail f))] @
     (case rf_file f of None \<Rightarrow> [] | Some t \<Rightarrow> [(''file'', JStr t)])"

definition blocker_finding :: "string \<Rightarrow> string \<Rightarrow> string option \<Rightarrow> review_finding" where
  "blocker_finding title detail file_name = \<lparr>rf_title = title, rf_severity = SevBlocker, rf_detail = detail, rf_file = file_name\<rparr>"

fun findings_from :: "json list \<Rightarrow> review_error + review_finding list" where
  "findings_from [] = Inr []"
| "findings_from (JObj d # vs) =
     rbind (finding_from_dict d) (\<lambda>f. rbind (findings_from vs) (\<lambda>fs. Inr (f # fs)))"
| "findings_from (v # vs) = Inl (RvTypeError ''finding'')"

definition artifact_from_dict :: "payload \<Rightarrow> review_error + verdict_artifact" where
  "artifact_from_dict d =
     rbind (required_item d ''verdict'') (\<lambda>raw_verdict.
     rbind (required_item d ''findings'') (\<lambda>raw_findings.
     rbind (as_text ''verdict'' raw_verdict) (\<lambda>verdict.
     rbind (case raw_findings of JList vs \<Rightarrow> Inr vs | _ \<Rightarrow> Inl (RvTypeError ''findings'')) (\<lambda>vs.
     rbind (findings_from vs) (\<lambda>fs.
     rbind (to_verdict verdict) (\<lambda>v.
     Inr \<lparr>va_verdict = v, va_findings = fs\<rparr>))))))"

definition artifact_to_dict :: "verdict_artifact \<Rightarrow> payload" where
  "artifact_to_dict a =
     [(''verdict'', JStr (verdict_value (va_verdict a))), (''findings'', JList (map (\<lambda>f. JObj (finding_to_dict f)) (va_findings a)))]"

definition is_blocker :: "review_finding \<Rightarrow> bool" where
  "is_blocker f \<longleftrightarrow> rf_severity f = SevBlocker"

definition blocker_findings :: "verdict_artifact \<Rightarrow> review_finding list" where
  "blocker_findings a = filter is_blocker (va_findings a)"

section \<open>Stakes and the default router\<close>

datatype stakes_level = LevelLow | LevelNormal | LevelHigh

primrec level_value :: "stakes_level \<Rightarrow> string" where
  "level_value LevelLow = ''low''"
| "level_value LevelNormal = ''normal''"
| "level_value LevelHigh = ''high''"

record review_stakes =
  st_class :: string
  st_blast_radius :: string
  st_reversibility :: string
  st_level :: stakes_level

definition stakes_to_dict :: "review_stakes \<Rightarrow> payload" where
  "stakes_to_dict st =
     [(''verification_class'', JStr (st_class st)), (''blast_radius'', JStr (st_blast_radius st)),
      (''reversibility'', JStr (st_reversibility st)), (''level'', JStr (level_value (st_level st)))]"

record route_rule =
  ru_class :: string
  ru_profile :: string
  ru_level :: "stakes_level option"

definition rule_matches :: "route_rule \<Rightarrow> string \<Rightarrow> review_stakes \<Rightarrow> bool" where
  "rule_matches ru cls st \<longleftrightarrow> ru_class ru = cls \<and> (case ru_level ru of None \<Rightarrow> True | Some l \<Rightarrow> l = st_level st)"

definition default_route_table :: "route_rule list" where
  "default_route_table =
     [\<lparr>ru_class = ''semantic'', ru_profile = ''frontier-author'', ru_level = Some LevelHigh\<rparr>,
      \<lparr>ru_class = ''semantic'', ru_profile = ''frontier-reviewer'', ru_level = None\<rparr>,
      \<lparr>ru_class = ''review'', ru_profile = ''cheap-reviewer'', ru_level = None\<rparr>,
      \<lparr>ru_class = ''test-verifiable'', ru_profile = ''cheap-coder'', ru_level = None\<rparr>,
      \<lparr>ru_class = ''mechanical'', ru_profile = ''cheap-coder'', ru_level = None\<rparr>]"

definition default_route :: "route_rule list \<Rightarrow> string \<Rightarrow> review_stakes \<Rightarrow> int \<Rightarrow> int \<Rightarrow> review_error + string" where
  "default_route table cls st tier1 tier2 =
     (if tier1 < 0 \<or> tier2 < 0 then Inl NegativeRemaining
      else if cls \<notin> set (map ru_class table) then Inl (UnknownClass cls)
      else
        (case find (\<lambda>ru. rule_matches ru cls st) table of
           Some ru \<Rightarrow> Inr (ru_profile ru)
         | None \<Rightarrow> Inl (NoRule cls)))"

section \<open>Budgets\<close>

datatype review_tier = Tier1 | Tier2
datatype budget_status = Tier1Review | Tier2Escalation | CalibrationSample

primrec tier_value :: "review_tier \<Rightarrow> string" where
  "tier_value Tier1 = ''tier-1''"
| "tier_value Tier2 = ''tier-2''"

primrec status_value :: "budget_status \<Rightarrow> string" where
  "status_value Tier1Review = ''tier1-review''"
| "status_value Tier2Escalation = ''tier2-escalation''"
| "status_value CalibrationSample = ''calibration-sample''"

type_synonym counter_key = "review_tier \<times> budget_status"

definition tier1_review_key :: counter_key where "tier1_review_key = (Tier1, Tier1Review)"
definition tier2_escalation_key :: counter_key where "tier2_escalation_key = (Tier2, Tier2Escalation)"
definition calibration_sample_key :: counter_key where "calibration_sample_key = (Tier2, CalibrationSample)"

record review_budget =
  bd_limits :: "(counter_key \<times> int) list"
  bd_spent :: "(counter_key \<times> int) list"

text \<open>Entries are sorted by the values of tier and status; those of the tiers are equally long.\<close>

definition counter_values :: "counter_key \<Rightarrow> string" where
  "counter_values k = tier_value (fst k) @ status_value (snd k)"

definition budget_from_limits :: "(counter_key, int) dict \<Rightarrow> review_error + review_budget" where
  "budget_from_limits limits =
     (let entries = sort_key (\<lambda>kv. counter_values (fst kv)) limits
      in if \<exists>kv \<in> set entries. snd kv < 0 then Inl NegativeLimit else Inr \<lparr>bd_limits = entries, bd_spent = []\<rparr>)"

definition units_of :: "(counter_key \<times> int) list \<Rightarrow> counter_key \<Rightarrow> int" where
  "units_of entries k = (case dget entries k of None \<Rightarrow> 0 | Some n \<Rightarrow> n)"

definition limit_for :: "review_budget \<Rightarrow> counter_key \<Rightarrow> int" where
  "limit_for b k = units_of (bd_limits b) k"

definition spent_for :: "review_budget \<Rightarrow> counter_key \<Rightarrow> int" where
  "spent_for b k = units_of (bd_spent b) k"

definition remaining :: "review_budget \<Rightarrow> counter_key \<Rightarrow> int" where
  "remaining b k = limit_for b k - spent_for b k"

definition with_spent :: "counter_key \<Rightarrow> int \<Rightarrow> review_budget \<Rightarrow> review_budget" where
  "with_spent k n b =
     b\<lparr>bd_spent :=
       map (\<lambda>(k', m). if k' = k then (k, m + n) else (k', m)) (bd_spent b) @
       (if k \<in> set (map fst (bd_spent b)) then [] else [(k, n)])\<rparr>"

text \<open>Whether it consumed, and the budget afterwards.\<close>

definition try_consume :: "counter_key \<Rightarrow> int \<Rightarrow> review_budget \<Rightarrow> review_error + bool \<times> review_budget" where
  "try_consume k n b =
     (if n < 0 then Inl NegativeUnits
      else if remaining b k < n then Inr (False, b)
      else Inr (True, with_spent k n b))"

section \<open>Calibration\<close>

type_synonym calibration_policy = "(string \<times> rat) list"

definition manual_rates :: "(string, rat) dict \<Rightarrow> review_error + calibration_policy" where
  "manual_rates rates =
     (let entries = sort_key fst rates
      in if \<exists>(lane, r) \<in> set entries. r < 0 \<or> 1 < r then Inl BadRate else Inr entries)"

definition sample_rate :: "calibration_policy \<Rightarrow> string \<Rightarrow> rat" where
  "sample_rate pol lane = (case dget pol lane of None \<Rightarrow> 0 | Some r \<Rightarrow> r)"

definition should_sample :: "(string \<Rightarrow> rat) \<Rightarrow> calibration_policy \<Rightarrow> string \<Rightarrow> string \<Rightarrow> bool" where
  "should_sample threshold pol item_id lane =
     (let r = sample_rate pol lane
      in if r \<le> 0 then False else if 1 \<le> r then True else threshold (lane @ '':'' @ item_id) < r)"

record escape_record =
  er_item :: string
  er_lane :: string
  er_detail :: string

type_synonym calibration_ledger = "escape_record list"

definition record_escape :: "escape_record \<Rightarrow> calibration_ledger \<Rightarrow> calibration_ledger" where
  "record_escape r l = l @ [r]"

section \<open>Routing\<close>

record review_item =
  ri_id :: string
  ri_lane :: string
  ri_stakes :: review_stakes

datatype (plugins only: code size) tier1_result = Artifact verdict_artifact | AgentLost string string

datatype escalation_reason = BlockerFound | Disagreement | CalibrationSampled
datatype gate_reason = BudgetExhausted | ReviewerAgentLost

primrec escalation_value :: "escalation_reason \<Rightarrow> string" where
  "escalation_value BlockerFound = ''blocker-found''"
| "escalation_value Disagreement = ''disagreement''"
| "escalation_value CalibrationSampled = ''calibration-sample''"

primrec gate_reason_value :: "gate_reason \<Rightarrow> string" where
  "gate_reason_value BudgetExhausted = ''budget-exhausted''"
| "gate_reason_value ReviewerAgentLost = ''reviewer-agent-lost''"

record tier2_request =
  t2_item :: review_item
  t2_reason :: escalation_reason
  t2_verdicts :: "verdict_artifact list"
  t2_findings :: "review_finding list"

record review_gate =
  rg_id :: string
  rg_reason :: gate_reason
  rg_stakes :: review_stakes
  rg_detail :: string
  rg_options :: "(string \<times> string) list"

datatype (plugins only: code size) review_terminal =
    VerdictTerminal review_item review_verdict "review_finding list"
  | EscalationTerminal tier2_request
  | GateTerminal review_gate

text \<open>\<open>rr_called\<close>: the requests the tier-2 callback was called with, if there is one.\<close>

record routing_result =
  rr_terminal :: review_terminal
  rr_budget :: review_budget
  rr_ledger :: calibration_ledger
  rr_called :: "tier2_request list"

definition gate_options_offered :: "(string \<times> string) list" where
  "gate_options_offered =
     [(''proceed'', ''resume the blocked review step after the condition is cleared''),
      (''redirect'', ''resume after the overseer edits workflow state or budget''),
      (''abort'', ''abort the dependent review subtree'')]"

definition open_gate_result ::
    "review_item \<Rightarrow> review_budget \<Rightarrow> calibration_ledger \<Rightarrow> gate_reason \<Rightarrow> string \<Rightarrow> routing_result" where
  "open_gate_result item b l reason detail =
     \<lparr>rr_terminal = GateTerminal \<lparr>rg_id = ri_id item @ '':'' @ gate_reason_value reason, rg_reason = reason,
        rg_stakes = ri_stakes item, rg_detail = detail, rg_options = gate_options_offered\<rparr>,
      rr_budget = b, rr_ledger = l, rr_called = []\<rparr>"

record accepted_results =
  ac_budget :: review_budget
  ac_verdicts :: "verdict_artifact list"
  ac_findings :: "review_finding list"

definition collect_findings :: "verdict_artifact list \<Rightarrow> review_finding list" where
  "collect_findings vs = concat (map va_findings vs)"

fun verdicts_disagree :: "verdict_artifact list \<Rightarrow> bool" where
  "verdicts_disagree [] = False"
| "verdicts_disagree (v # vs) = list_ex (\<lambda>w. va_verdict w \<noteq> va_verdict v) vs"

definition lost_reviewers :: "tier1_result list \<Rightarrow> string list" where
  "lost_reviewers rs = concat (map (\<lambda>r. case r of AgentLost i d \<Rightarrow> [i] | Artifact a \<Rightarrow> []) rs)"

definition artifacts :: "tier1_result list \<Rightarrow> verdict_artifact list" where
  "artifacts rs = concat (map (\<lambda>r. case r of Artifact a \<Rightarrow> [a] | AgentLost i d \<Rightarrow> []) rs)"

definition accept_tier1_results ::
    "review_item \<Rightarrow> tier1_result list \<Rightarrow> review_budget \<Rightarrow> calibration_ledger \<Rightarrow>
     review_error + routing_result + accepted_results" where
  "accept_tier1_results item rs b l =
     (if rs = []
      then Inr (Inl (open_gate_result item b l ReviewerAgentLost ''no tier-1 reviewer result was produced''))
      else
        rbind (try_consume tier1_review_key (int (length rs)) b) (\<lambda>(consumed, b').
        if \<not> consumed then Inr (Inl (open_gate_result item b l BudgetExhausted ''tier-1 review budget exhausted''))
        else if lost_reviewers rs \<noteq> []
        then Inr (Inl (open_gate_result item b' l ReviewerAgentLost
               (''tier-1 reviewer result missing: '' @ str_join '', '' (lost_reviewers rs))))
        else Inr (Inr \<lparr>ac_budget = b', ac_verdicts = artifacts rs, ac_findings = collect_findings (artifacts rs)\<rparr>)))"

definition escalation_result ::
    "bool \<Rightarrow> review_item \<Rightarrow> verdict_artifact list \<Rightarrow> review_finding list \<Rightarrow> review_budget \<Rightarrow> calibration_ledger \<Rightarrow>
     escalation_reason \<Rightarrow> counter_key \<Rightarrow> review_error + routing_result" where
  "escalation_result callback item verdicts findings b l reason key =
     rbind (try_consume key 1 b) (\<lambda>(consumed, b').
     if \<not> consumed
     then Inr (open_gate_result item b l BudgetExhausted (escalation_value reason @ '' tier-2 budget exhausted''))
     else
       (let request = \<lparr>t2_item = item, t2_reason = reason, t2_verdicts = verdicts, t2_findings = findings\<rparr>
        in Inr \<lparr>rr_terminal = EscalationTerminal request, rr_budget = b', rr_ledger = l,
                rr_called = (if callback then [request] else [])\<rparr>))"

text \<open>\<open>verdicts[0]\<close> exists: tier-1 results are not empty here, and none is lost.\<close>

definition route_accepted_verdicts ::
    "(string \<Rightarrow> rat) \<Rightarrow> bool \<Rightarrow> review_item \<Rightarrow> accepted_results \<Rightarrow> calibration_policy \<Rightarrow> calibration_ledger \<Rightarrow>
     review_error + routing_result" where
  "route_accepted_verdicts threshold callback item ac pol l =
     (let blockers = filter is_blocker (ac_findings ac)
      in if blockers \<noteq> []
         then escalation_result callback item (ac_verdicts ac) blockers (ac_budget ac) l BlockerFound tier2_escalation_key
         else if verdicts_disagree (ac_verdicts ac)
         then escalation_result callback item (ac_verdicts ac) (ac_findings ac) (ac_budget ac) l Disagreement tier2_escalation_key
         else if should_sample threshold pol (ri_id item) (ri_lane item)
         then escalation_result callback item (ac_verdicts ac) (ac_findings ac) (ac_budget ac) l CalibrationSampled
                calibration_sample_key
         else
           (case ac_verdicts ac of
              [] \<Rightarrow> Inl RvIndexError
            | v # vs \<Rightarrow>
                Inr \<lparr>rr_terminal = VerdictTerminal item (va_verdict v) (ac_findings ac), rr_budget = ac_budget ac,
                     rr_ledger = l, rr_called = []\<rparr>))"

definition route_review_item ::
    "(string \<Rightarrow> rat) \<Rightarrow> bool \<Rightarrow> calibration_policy \<Rightarrow> calibration_ledger \<Rightarrow> review_item \<Rightarrow> tier1_result list \<Rightarrow>
     review_budget \<Rightarrow> review_error + routing_result" where
  "route_review_item threshold callback pol l item rs b =
     rbind (accept_tier1_results item rs b l) (\<lambda>accepted.
       case accepted of
         Inl result \<Rightarrow> Inr result
       | Inr ac \<Rightarrow> route_accepted_verdicts threshold callback item ac pol l)"

text \<open>Several items, each with the budget the one before left.\<close>

primrec route_items ::
    "(string \<Rightarrow> rat) \<Rightarrow> bool \<Rightarrow> calibration_policy \<Rightarrow> (review_item \<times> tier1_result list) list \<Rightarrow> review_budget \<Rightarrow>
     review_error + routing_result list" where
  "route_items threshold callback pol [] b = Inr []"
| "route_items threshold callback pol (c # cs) b =
     rbind (route_review_item threshold callback pol [] (fst c) (snd c) b) (\<lambda>r.
     rbind (route_items threshold callback pol cs (rr_budget r)) (\<lambda>rs.
     Inr (r # rs)))"

section \<open>The demo\<close>

definition demo_review_item :: "string \<Rightarrow> string \<Rightarrow> review_item" where
  "demo_review_item item_id lane =
     \<lparr>ri_id = item_id, ri_lane = lane, ri_stakes = \<lparr>st_class = ''test-verifiable'', st_blast_radius = ''repository'',
        st_reversibility = ''revertible'', st_level = LevelHigh\<rparr>\<rparr>"

definition demo_pass :: tier1_result where
  "demo_pass = Artifact \<lparr>va_verdict = VPass, va_findings = []\<rparr>"

definition demo_major_change :: tier1_result where
  "demo_major_change = Artifact \<lparr>va_verdict = VChangesRequested, va_findings =
     [\<lparr>rf_title = ''Missing assertion'', rf_severity = SevMajor,
       rf_detail = ''The implementation lacks an assertion for the main invariant.'', rf_file = Some ''tests/test_feature.py''\<rparr>]\<rparr>"

definition demo_blocker :: tier1_result where
  "demo_blocker = Artifact \<lparr>va_verdict = VChangesRequested, va_findings =
     [\<lparr>rf_title = ''Unsafe migration'', rf_severity = SevBlocker,
       rf_detail = ''The migration can drop production data.'', rf_file = Some ''migrations/001.py''\<rparr>]\<rparr>"

definition demo_cases :: "(review_item \<times> tier1_result list) list" where
  "demo_cases =
     [(demo_review_item ''plain-pass-change'' ''default'', [demo_pass, demo_pass]),
      (demo_review_item ''blocker-change'' ''default'', [demo_blocker]),
      (demo_review_item ''disagreed-change'' ''default'', [demo_pass, demo_major_change]),
      (demo_review_item ''sampled-pass-change'' ''sampled'', [demo_pass, demo_pass])]"

definition run_review_routing_demo :: "(string \<Rightarrow> rat) \<Rightarrow> bool \<Rightarrow> review_error + routing_result" where
  "run_review_routing_demo threshold callback =
     rbind (budget_from_limits [(tier1_review_key, 20), (tier2_escalation_key, 20), (calibration_sample_key, 20)]) (\<lambda>b.
     rbind (manual_rates [(''default'', 0), (''sampled'', 1)]) (\<lambda>pol.
     map_sum id last (route_items threshold callback pol demo_cases b)))"

end
