(* ===== verification/Review_Facts.thy ===== *)
theory Review_Facts
  imports Review
begin

text \<open>
  Review routing: every result the validator accepts is read; budgets are never overspent and bound the
  number of escalations; a verdict is passed on only when every reviewer returned it and none
  found a blocker.
\<close>

section \<open>What the schema accepts\<close>

lemma check_seq: "rbind c (\<lambda>_. d) = Inr () \<longleftrightarrow> c = Inr () \<and> d = Inr ()" for c d :: check
  by (cases c) auto

lemmas check_defs = check_const_def check_type_def check_enum_def check_min_length_def check_pattern_def check_required_def
  check_additional_def given_def

lemma validate_text: "validate L v text_schema loc = Inr () \<longleftrightarrow> (\<exists>s. v = JStr s \<and> s \<noteq> [])"
  by (cases v) (auto simp: text_schema_def validate.simps check_defs check_seq python_int_def Suc_le_eq split: if_splits)

lemma validate_words:
  "validate L v (JObj [(''type'', JStr ''string''), (''enum'', JList (map JStr ws))]) loc = Inr () \<longleftrightarrow>
     (\<exists>s \<in> set ws. v = JStr s)"
  by (cases v) (auto simp: validate.simps check_defs check_seq list_ex_iff split: if_splits)

lemmas validate_severity = validate_words [of _ _ "[''BLOCKER'', ''MAJOR'', ''MINOR'']", simplified]
lemmas validate_verdict = validate_words [of _ _ "[''PASS'', ''CHANGES_REQUESTED'']", simplified]

lemma no_extra_fields: "sorted_list_of_set (set xs - set ys) = [] \<longleftrightarrow> set xs \<subseteq> set ys"
  by auto

text \<open>An optional member that is checked when present.\<close>

definition member_ok :: "payload \<Rightarrow> string \<Rightarrow> (json \<Rightarrow> bool) \<Rightarrow> bool" where
  "member_ok d k P \<longleftrightarrow> (case dget d k of None \<Rightarrow> True | Some x \<Rightarrow> P x)"

lemma member_check: "(case dget d k of None \<Rightarrow> Inr () | Some x \<Rightarrow> c x) = Inr () \<longleftrightarrow> member_ok d k (\<lambda>x. c x = Inr ())" for c :: "json \<Rightarrow> check"
  by (simp add: member_ok_def split: option.split)

lemma validate_object:
  "validate L v (JObj [(''type'', JStr ''object''), (''required'', JList (map JStr ks)), (''properties'', JObj ps),
      (''additionalProperties'', JBool False)]) loc = Inr () \<longleftrightarrow>
     (\<exists>d. v = JObj d \<and> set (dkeys d) \<subseteq> set (dkeys ps) \<and> set ks \<subseteq> set (dkeys d) \<and>
        (\<forall>(k, child) \<in> set ps. member_ok d k (\<lambda>x. validate L x child (loc @ ''.'' @ k) = Inr ())))"
proof (cases v)
  case (JObj d)
  have required: "(case dget d k of None \<Rightarrow> Inl e | Some _ \<Rightarrow> Inr ()) = Inr () \<longleftrightarrow> k \<in> set (dkeys d)" for k and e :: invalid
    using map_of_eq_None_iff [of d k] by (auto split: option.split)
  show ?thesis
    unfolding JObj
    by (subst validate.simps)
      (auto simp: check_defs check_seq first_error_ok no_extra_fields required member_check Let_def split: if_splits)
qed (auto simp: validate.simps check_defs check_seq)

lemma member_okI: "dget d k = Some x \<Longrightarrow> member_ok d k P = P x"
  by (simp add: member_ok_def)

lemma member_ok_mono: "member_ok d k P \<Longrightarrow> (\<And>x. P x \<Longrightarrow> Q x) \<Longrightarrow> member_ok d k Q"
  by (simp add: member_ok_def split: option.splits)

lemma finding_accepted:
  assumes "validate L v finding_schema loc = Inr ()"
  shows "\<exists>d f. v = JObj d \<and> finding_from_dict d = Inr f"
proof -
  from assms obtain d where d: "v = JObj d" "{''title'', ''severity'', ''detail''} \<subseteq> set (dkeys d)"
      "member_ok d ''title'' (\<lambda>x. \<exists>s. x = JStr s \<and> s \<noteq> [])" "member_ok d ''detail'' (\<lambda>x. \<exists>s. x = JStr s \<and> s \<noteq> [])"
      "member_ok d ''file'' (\<lambda>x. \<exists>s. x = JStr s \<and> s \<noteq> [])"
      "member_ok d ''severity'' (\<lambda>x. x = JStr ''BLOCKER'' \<or> x = JStr ''MAJOR'' \<or> x = JStr ''MINOR'')"
    unfolding finding_schema_def
      validate_object [of _ _ "[''title'', ''severity'', ''detail'']", unfolded list.map]
    by (auto simp: validate_text validate_severity)
  have present: "\<exists>x. dget d k = Some x" if "k \<in> set (dkeys d)" for k
    using that map_of_eq_None_iff [of d k] by auto
  obtain t s x where "dget d ''title'' = Some (JStr t)" "dget d ''detail'' = Some (JStr x)"
      "dget d ''severity'' = Some (JStr s)" "s = ''BLOCKER'' \<or> s = ''MAJOR'' \<or> s = ''MINOR''"
    using present [of "''title''"] present [of "''detail''"] present [of "''severity''"] d(2-4,6)
    by (auto simp: member_okI)
  moreover have "\<exists>y. (case dget d ''file'' of None \<Rightarrow> Inr None | Some raw \<Rightarrow> map_sum id Some (as_text ''file'' raw)) = Inr y"
    using d(5) by (auto simp: member_ok_def as_text_def split: option.splits)
  ultimately show ?thesis
    using d(1) by (auto simp: finding_from_dict_def required_item_def as_text_def to_severity_def)
qed

lemma findings_accepted:
  assumes "\<forall>x \<in> set vs. \<exists>d f. x = JObj d \<and> finding_from_dict d = Inr f"
  shows "\<exists>fs. findings_from vs = Inr fs"
  using assms
proof (induction vs)
  case (Cons v vs)
  then obtain d f fs where "v = JObj d" "finding_from_dict d = Inr f" "findings_from vs = Inr fs" by auto
  then show ?case by simp
qed simp

text \<open>
  C31: What the validator accepts is read. Every result that satisfies the reviewer's result schema is the dictionary of
  an artifact: reading it raises nothing.
\<close>

theorem accepted_verdicts_are_read:
  assumes "validate_result_payload L v review_verdict_result_schema = Inr ()"
  shows "\<exists>d a. v = JObj d \<and> artifact_from_dict d = Inr a"
proof -
  have findings: "validate L x (JObj [(''type'', JStr ''array''), (''items'', finding_schema)]) loc = Inr () \<Longrightarrow>
      \<exists>vs fs. x = JList vs \<and> findings_from vs = Inr fs" for x loc
  proof -
    assume ok: "validate L x (JObj [(''type'', JStr ''array''), (''items'', finding_schema)]) loc = Inr ()"
    then obtain vs where vs: "x = JList vs" by (cases x) (auto simp: validate.simps check_defs check_seq)
    have "given [(''type'', JStr ''array''), (''items'', finding_schema)] ''items'' = Some finding_schema"
      by (simp add: given_def finding_schema_def)
    then have each: "\<forall>(i, y) \<in> set (enumerate 0 vs). validate L y finding_schema (item_loc loc i) = Inr ()"
      using ok unfolding vs
      by (subst (asm) validate.simps) (auto simp: check_seq first_error_ok check_const_def check_type_def check_enum_def
          check_min_length_def check_pattern_def check_required_def check_additional_def)
    have "\<exists>d f. y = JObj d \<and> finding_from_dict d = Inr f" if "y \<in> set vs" for y
    proof -
      from that obtain i where "i < length vs" "vs ! i = y" by (auto simp: in_set_conv_nth)
      then have "(i, y) \<in> set (enumerate 0 vs)" by (simp add: in_set_enumerate_eq)
      then have "validate L y finding_schema (item_loc loc i) = Inr ()" using each by blast
      then show ?thesis by (rule finding_accepted)
    qed
    then show ?thesis using findings_accepted vs by blast
  qed
  from assms obtain d where d: "v = JObj d" "{''verdict'', ''findings''} \<subseteq> set (dkeys d)"
      "member_ok d ''verdict'' (\<lambda>x. x = JStr ''PASS'' \<or> x = JStr ''CHANGES_REQUESTED'')"
      "member_ok d ''findings'' (\<lambda>x. validate L x (JObj [(''type'', JStr ''array''), (''items'', finding_schema)]) ''result.findings'' = Inr ())"
    unfolding validate_result_payload_def review_verdict_result_schema_def
      validate_object [of _ _ "[''verdict'', ''findings'']", unfolded list.map]
    by (auto simp: validate_verdict)
  have list: "member_ok d ''findings'' (\<lambda>x. \<exists>vs fs. x = JList vs \<and> findings_from vs = Inr fs)"
    by (rule member_ok_mono [OF d(4)]) (rule findings)
  have present: "\<exists>x. dget d k = Some x" if "k \<in> set (dkeys d)" for k
    using that map_of_eq_None_iff [of d k] by auto
  obtain s vs fs where "dget d ''verdict'' = Some (JStr s)" "s = ''PASS'' \<or> s = ''CHANGES_REQUESTED''"
      "dget d ''findings'' = Some (JList vs)" "findings_from vs = Inr fs"
    using present [of "''verdict''"] present [of "''findings''"] d(2,3) list by (auto simp: member_okI)
  then show ?thesis
    using d(1) by (auto simp: artifact_from_dict_def required_item_def as_text_def to_verdict_def)
qed

lemma validate_no_findings:
  "validate L (JList []) (JObj [(''type'', JStr ''array''), (''items'', finding_schema)]) loc = Inr ()"
  by (subst validate.simps) (simp add: check_defs finding_schema_def)

lemma accepted_verdicts_are_read_witness:
  "\<exists>a. artifact_from_dict [(''verdict'', JStr ''PASS''), (''findings'', JList [])] = Inr a"
proof -
  have "validate_result_payload \<lparr>pl_float_eq = (=), pl_float_int = (\<lambda>_. None), pl_regex = (\<lambda>_. None)\<rparr>
      (JObj [(''verdict'', JStr ''PASS''), (''findings'', JList [])]) review_verdict_result_schema = Inr ()"
    unfolding validate_result_payload_def review_verdict_result_schema_def
      validate_object [of _ _ "[''verdict'', ''findings'']", unfolded list.map]
    by (auto simp: validate_verdict validate_no_findings member_ok_def)
  from accepted_verdicts_are_read [OF this] show ?thesis by simp
qed

section \<open>Artifacts and their dictionaries\<close>

lemma value_inverse [simp]: "to_verdict (verdict_value v) = Inr v" "to_severity (severity_value x) = Inr x"
  by (cases v; simp add: to_verdict_def) (cases x; simp add: to_severity_def)

lemma finding_inverse: "finding_from_dict (finding_to_dict f) = Inr f"
  by (cases "rf_file f") (simp_all add: finding_from_dict_def finding_to_dict_def required_item_def as_text_def)

lemma findings_inverse: "findings_from (map (\<lambda>f. JObj (finding_to_dict f)) fs) = Inr fs"
  by (induction fs) (simp_all add: finding_inverse)

theorem verdicts_roundtrip: "artifact_from_dict (artifact_to_dict a) = Inr a"
  by (simp add: artifact_from_dict_def artifact_to_dict_def required_item_def as_text_def findings_inverse)

section \<open>The default router\<close>

lemma default_route_of:
  assumes "0 \<le> tier1" and "0 \<le> tier2"
  shows "default_route default_route_table cls st tier1 tier2 =
    (if cls = ''semantic'' then Inr (if st_level st = LevelHigh then ''frontier-author'' else ''frontier-reviewer'')
     else if cls = ''review'' then Inr ''cheap-reviewer''
     else if cls = ''test-verifiable'' \<or> cls = ''mechanical'' then Inr ''cheap-coder'' else Inl (UnknownClass cls))"
  using assms by (auto simp: default_route_def default_route_table_def rule_matches_def)

section \<open>Budgets\<close>

lemma dget_spend:
  "dget (map (\<lambda>(k', m). if k' = k then (k, m + n) else (k', m)) es) j =
     (if j = k then map_option (\<lambda>m. m + n) (dget es k) else dget es j)" for n :: int
  by (induction es) auto

lemma dget_append: "dget (xs @ ys) k = (case dget xs k of None \<Rightarrow> dget ys k | Some v \<Rightarrow> Some v)"
  by (simp add: map_add_def)

lemma spent_with_spent: "spent_for (with_spent k n b) j = (if j = k then spent_for b k + n else spent_for b j)"
  using map_of_eq_None_iff [of "bd_spent b" k]
  by (cases "dget (bd_spent b) k") (auto simp: spent_for_def with_spent_def units_of_def dget_append dget_spend split: option.split)

lemma limit_with_spent [simp]: "limit_for (with_spent k n b) j = limit_for b j"
  by (simp add: limit_for_def with_spent_def)

definition budget_ok :: "review_budget \<Rightarrow> bool" where
  "budget_ok b \<longleftrightarrow> (\<forall>k. 0 \<le> spent_for b k \<and> spent_for b k \<le> limit_for b k)"

text \<open>What routing one item does to the budget.\<close>

definition escalated_on :: "counter_key \<Rightarrow> routing_result \<Rightarrow> bool" where
  "escalated_on k r \<longleftrightarrow>
     (case rr_terminal r of
        EscalationTerminal q \<Rightarrow> k = (if t2_reason q = CalibrationSampled then calibration_sample_key else tier2_escalation_key)
      | _ \<Rightarrow> False)"

definition charged :: "review_budget \<Rightarrow> routing_result \<Rightarrow> bool" where
  "charged b r \<longleftrightarrow>
     (\<forall>k. limit_for (rr_budget r) k = limit_for b k) \<and> budget_ok (rr_budget r) \<and>
     (\<forall>k. k \<noteq> tier1_review_key \<longrightarrow> spent_for (rr_budget r) k = spent_for b k + of_bool (escalated_on k r))"

lemma keys_distinct [simp]:
  "tier1_review_key \<noteq> tier2_escalation_key" "tier1_review_key \<noteq> calibration_sample_key"
  "tier2_escalation_key \<noteq> calibration_sample_key"
  by (simp_all add: tier1_review_key_def tier2_escalation_key_def calibration_sample_key_def)

lemmas keys_distinct' [simp] = keys_distinct [symmetric]

lemma consume_cases:
  assumes "0 \<le> n"
  shows "try_consume k n b = Inr (False, b) \<and> remaining b k < n \<or>
    try_consume k n b = Inr (True, with_spent k n b) \<and> n \<le> remaining b k"
  using assms by (simp add: try_consume_def)

lemma budget_ok_spent: "budget_ok b \<Longrightarrow> 0 \<le> n \<Longrightarrow> n \<le> remaining b k \<Longrightarrow> budget_ok (with_spent k n b)"
  by (auto simp: budget_ok_def spent_with_spent remaining_def)

lemma open_gate_fields [simp]:
  "rr_budget (open_gate_result item b l reason detail) = b"
  "escalated_on k (open_gate_result item b l reason detail) = False"
  by (simp_all add: open_gate_result_def escalated_on_def)

lemma escalation_charged:
  assumes "budget_ok b" and "k = (if reason = CalibrationSampled then calibration_sample_key else tier2_escalation_key)"
  shows "\<exists>r. escalation_result cb item vs fs b l reason k = Inr r \<and> charged b r"
proof -
  consider "try_consume k 1 b = Inr (False, b)" | "try_consume k 1 b = Inr (True, with_spent k 1 b)" "1 \<le> remaining b k"
    using consume_cases [of 1 k b] by auto
  then show ?thesis
  proof cases
    case 1
    then have "escalation_result cb item vs fs b l reason k =
        Inr (open_gate_result item b l BudgetExhausted (escalation_value reason @ '' tier-2 budget exhausted''))"
      by (simp add: escalation_result_def)
    then show ?thesis using assms(1) by (simp add: charged_def del: split_paired_All)
  next
    case 2
    let ?q = "\<lparr>t2_item = item, t2_reason = reason, t2_verdicts = vs, t2_findings = fs\<rparr>"
    let ?r = "\<lparr>rr_terminal = EscalationTerminal ?q, rr_budget = with_spent k 1 b, rr_ledger = l, rr_called = (if cb then [?q] else [])\<rparr>"
    have "escalation_result cb item vs fs b l reason k = Inr ?r"
      using 2 by (simp add: escalation_result_def Let_def)
    moreover have "charged b ?r"
      using budget_ok_spent [OF assms(1) _ 2(2)] assms(2)
      by (simp add: charged_def spent_with_spent escalated_on_def del: split_paired_All)
    ultimately show ?thesis by blast
  qed
qed

lemma lost_or_artifacts: "lost_reviewers rs = [] \<longleftrightarrow> (\<forall>r \<in> set rs. \<exists>a. r = Artifact a)"
  by (induction rs) (auto simp: lost_reviewers_def split: tier1_result.split)

lemma artifacts_of: "\<forall>r \<in> set rs. \<exists>a. r = Artifact a \<Longrightarrow> rs = map Artifact (artifacts rs)"
  by (induction rs) (auto simp: artifacts_def)

lemma accept_cases:
  assumes "budget_ok b" and "rs \<noteq> []"
  obtains (gate) b' reason detail where
      "accept_tier1_results item rs b l = Inr (Inl (open_gate_result item b' l reason detail))"
      "b' = b \<and> reason = BudgetExhausted \<and> remaining b tier1_review_key < int (length rs) \<or>
       b' = with_spent tier1_review_key (int (length rs)) b \<and> reason = ReviewerAgentLost \<and> lost_reviewers rs \<noteq> [] \<and>
         int (length rs) \<le> remaining b tier1_review_key"
    | (accepted) "accept_tier1_results item rs b l = Inr (Inr \<lparr>ac_budget = with_spent tier1_review_key (int (length rs)) b,
        ac_verdicts = artifacts rs, ac_findings = collect_findings (artifacts rs)\<rparr>)"
      "lost_reviewers rs = []" "int (length rs) \<le> remaining b tier1_review_key"
  using consume_cases [of "int (length rs)" tier1_review_key b] assms that
  by (cases "lost_reviewers rs = []") (auto simp: accept_tier1_results_def)

lemma charged_trans:
  assumes "charged (with_spent tier1_review_key n b) r"
  shows "charged b r"
  using assms by (simp add: charged_def spent_with_spent del: split_paired_All)

lemma route_charged:
  assumes "budget_ok b"
  shows "\<exists>r. route_review_item threshold cb pol l item rs b = Inr r \<and> charged b r"
proof (cases "rs = []")
  case True
  then show ?thesis
    using assms by (simp add: route_review_item_def accept_tier1_results_def charged_def del: split_paired_All)
next
  case False
  from assms False show ?thesis
  proof (cases rule: accept_cases [where item = item and l = l])
    case (gate b' reason detail)
    have "budget_ok b'" using gate(2) assms by (auto intro: budget_ok_spent)
    then have "charged b (open_gate_result item b' l reason detail)"
      using gate(2) by (auto simp: charged_def spent_with_spent simp del: split_paired_All)
    then show ?thesis using gate(1) by (simp add: route_review_item_def)
  next
    case accepted
    let ?b = "with_spent tier1_review_key (int (length rs)) b"
    have ok: "budget_ok ?b" using assms accepted(3) by (intro budget_ok_spent) simp_all
    obtain v vs where v: "artifacts rs = v # vs"
      using False artifacts_of [of rs] accepted(2) unfolding lost_or_artifacts by (cases "artifacts rs") auto
    let ?blockers = "filter is_blocker (collect_findings (artifacts rs))"
    have "\<exists>r. route_accepted_verdicts threshold cb item
        \<lparr>ac_budget = ?b, ac_verdicts = artifacts rs, ac_findings = collect_findings (artifacts rs)\<rparr> pol l = Inr r \<and> charged ?b r"
    proof -
      consider "?blockers \<noteq> []" | "?blockers = []" "verdicts_disagree (artifacts rs)"
        | "?blockers = []" "\<not> verdicts_disagree (artifacts rs)" "should_sample threshold pol (ri_id item) (ri_lane item)"
        | "?blockers = []" "\<not> verdicts_disagree (artifacts rs)" "\<not> should_sample threshold pol (ri_id item) (ri_lane item)"
        by blast
      then show ?thesis
      proof cases
        case 4
        then show ?thesis
          using v ok by (simp add: route_accepted_verdicts_def charged_def escalated_on_def del: split_paired_All)
      qed (use escalation_charged [OF ok, of calibration_sample_key CalibrationSampled]
          escalation_charged [OF ok, of tier2_escalation_key BlockerFound]
          escalation_charged [OF ok, of tier2_escalation_key Disagreement]
        in \<open>simp_all add: route_accepted_verdicts_def\<close>)
    qed
    then show ?thesis using accepted(1) charged_trans by (auto simp: route_review_item_def)
  qed
qed

lemma escalations_charged:
  "budget_ok b \<Longrightarrow> k \<noteq> tier1_review_key \<Longrightarrow>
     \<exists>rs. route_items threshold cb pol cs b = Inr rs \<and> length rs = length cs \<and>
       (\<forall>r \<in> set rs. budget_ok (rr_budget r) \<and> (\<forall>j. limit_for (rr_budget r) j = limit_for b j)) \<and>
       spent_for b k + int (length (filter (escalated_on k) rs)) \<le> limit_for b k"
proof (induction cs arbitrary: b)
  case Nil
  then show ?case by (simp add: budget_ok_def del: split_paired_All)
next
  case (Cons c cs)
  obtain r where r: "route_review_item threshold cb pol [] (fst c) (snd c) b = Inr r" "charged b r"
    using route_charged [OF Cons.prems(1)] by blast
  then have ok: "budget_ok (rr_budget r)" by (simp add: charged_def)
  from Cons.IH [OF ok Cons.prems(2)] obtain rs where rs: "route_items threshold cb pol cs (rr_budget r) = Inr rs" "length rs = length cs"
      "\<forall>x \<in> set rs. budget_ok (rr_budget x) \<and> (\<forall>j. limit_for (rr_budget x) j = limit_for (rr_budget r) j)"
      "spent_for (rr_budget r) k + int (length (filter (escalated_on k) rs)) \<le> limit_for (rr_budget r) k" by blast
  have same: "limit_for (rr_budget r) j = limit_for b j" for j using r(2) by (simp add: charged_def del: split_paired_All)
  have "spent_for (rr_budget r) k = spent_for b k + of_bool (escalated_on k r)"
    using r(2) Cons.prems(2) by (simp add: charged_def del: split_paired_All)
  then have "spent_for b k + int (length (filter (escalated_on k) (r # rs))) \<le> limit_for b k"
    using rs(4) same by (cases "escalated_on k r") simp_all
  then show ?case using r(1) rs(1-3) ok same by (intro exI [of _ "r # rs"]) simp
qed

lemma limits_given:
  assumes "distinct (dkeys limits)" and "budget_from_limits limits = Inr b"
  shows "limit_for b k = units_of limits k" and "spent_for b k = 0" and "budget_ok b"
proof -
  let ?e = "sort_key (\<lambda>kv. counter_values (fst kv)) limits"
  have b: "b = \<lparr>bd_limits = ?e, bd_spent = []\<rparr>" and pos: "\<forall>kv \<in> set limits. 0 \<le> snd kv"
    using assms(2) by (auto simp: budget_from_limits_def Let_def not_less split: if_splits)
  have "distinct (map fst ?e)" using assms(1) by (simp add: distinct_sort_key)
  then have same: "map_of ?e = map_of limits" using assms(1) by (subst map_of_inject_set) simp_all
  then show limit: "limit_for b k = units_of limits k" for k by (simp add: b limit_for_def units_of_def)
  show spent: "spent_for b k = 0" for k by (simp add: b spent_for_def units_of_def)
  have "0 \<le> units_of limits k" for k
    using pos by (fastforce simp: units_of_def split: option.split dest: map_of_SomeD)
  then show "budget_ok b" unfolding budget_ok_def limit spent by simp
qed

text \<open>
  C32: Review budgets are never overspent. Let a budget be made from limits and any items be routed one after the other,
  each with the budget that is left. Every call returns; at every point every counter is between zero and
  its limit; and there are at most as many escalations as the limit of their counter, however many
  items come in and whatever the reviewers say.
\<close>

theorem review_budgets_are_never_overspent:
  assumes "distinct (dkeys limits)" and "budget_from_limits limits = Inr b" and "k \<noteq> tier1_review_key"
  shows "\<exists>rs. route_items threshold callback pol cs b = Inr rs \<and> length rs = length cs \<and>
    (\<forall>r \<in> set rs. \<forall>j. 0 \<le> spent_for (rr_budget r) j \<and> spent_for (rr_budget r) j \<le> units_of limits j) \<and>
    int (length (filter (escalated_on k) rs)) \<le> units_of limits k"
proof -
  note limits = limits_given [OF assms(1,2)]
  obtain rs where rs: "route_items threshold callback pol cs b = Inr rs" "length rs = length cs"
      "\<forall>r \<in> set rs. budget_ok (rr_budget r) \<and> (\<forall>j. limit_for (rr_budget r) j = limit_for b j)"
      "spent_for b k + int (length (filter (escalated_on k) rs)) \<le> limit_for b k"
    using escalations_charged [OF limits(3) assms(3)] by blast
  have "0 \<le> spent_for (rr_budget r) j \<and> spent_for (rr_budget r) j \<le> units_of limits j" if "r \<in> set rs" for r j
  proof -
    have "budget_ok (rr_budget r)" and "limit_for (rr_budget r) j = limit_for b j" using rs(3) that by blast+
    then have "0 \<le> spent_for (rr_budget r) j \<and> spent_for (rr_budget r) j \<le> limit_for b j"
      unfolding budget_ok_def by metis
    then show ?thesis by (simp add: limits(1))
  qed
  then show ?thesis using rs(1,2,4) limits by auto
qed

lemma review_budgets_are_never_overspent_witness:
  "\<exists>b rs. budget_from_limits [(tier1_review_key, 20), (tier2_escalation_key, 1)] = Inr b \<and>
     route_items (\<lambda>_. 0) True [] (demo_cases @ demo_cases) b = Inr rs \<and>
     length (filter (escalated_on tier2_escalation_key) rs) \<le> 1"
proof -
  have limits: "distinct (dkeys [(tier1_review_key, 20 :: int), (tier2_escalation_key, 1)])" by simp
  obtain b where b: "budget_from_limits [(tier1_review_key, 20), (tier2_escalation_key, 1)] = Inr b"
    by (auto simp: budget_from_limits_def Let_def simp del: sort_key_simps)
  have "units_of [(tier1_review_key, 20), (tier2_escalation_key, 1)] tier2_escalation_key = 1"
    by (simp add: units_of_def)
  with review_budgets_are_never_overspent [OF limits b, of tier2_escalation_key "\<lambda>_. 0" True "[]" "demo_cases @ demo_cases"] b
  show ?thesis by (auto simp del: split_paired_All)
qed

section \<open>What routing decides\<close>

lemma disagree_iff: "verdicts_disagree vs \<longleftrightarrow> (\<exists>v \<in> set vs. \<exists>w \<in> set vs. va_verdict v \<noteq> va_verdict w)"
  by (cases vs) (auto simp: list_ex_iff, metis+)

lemma blockers_of: "filter is_blocker (collect_findings vs) = concat (map blocker_findings vs)"
  by (induction vs) (simp_all add: collect_findings_def blocker_findings_def)

text \<open>The decision that the results call for.\<close>

definition decision_ok ::
    "(string \<Rightarrow> rat) \<Rightarrow> calibration_policy \<Rightarrow> review_item \<Rightarrow> tier1_result list \<Rightarrow> review_budget \<Rightarrow> review_terminal \<Rightarrow> bool" where
  "decision_ok threshold pol item rs b t \<longleftrightarrow>
     (case t of
        VerdictTerminal it v fs \<Rightarrow>
          it = item \<and> rs \<noteq> [] \<and> fs = collect_findings (artifacts rs) \<and>
          (\<forall>r \<in> set rs. \<exists>a. r = Artifact a \<and> va_verdict a = v \<and> blocker_findings a = []) \<and>
          \<not> should_sample threshold pol (ri_id item) (ri_lane item)
      | EscalationTerminal q \<Rightarrow>
          t2_item q = item \<and> rs = map Artifact (t2_verdicts q) \<and>
          (case t2_reason q of
             BlockerFound \<Rightarrow> t2_findings q \<noteq> [] \<and> t2_findings q = concat (map blocker_findings (t2_verdicts q))
           | Disagreement \<Rightarrow>
               (\<forall>a \<in> set (t2_verdicts q). blocker_findings a = []) \<and>
               (\<exists>v \<in> set (t2_verdicts q). \<exists>w \<in> set (t2_verdicts q). va_verdict v \<noteq> va_verdict w)
           | CalibrationSampled \<Rightarrow>
               (\<forall>a \<in> set (t2_verdicts q). blocker_findings a = []) \<and>
               should_sample threshold pol (ri_id item) (ri_lane item))
      | GateTerminal g \<Rightarrow>
          rg_stakes g = ri_stakes item \<and>
          (case rg_reason g of
             ReviewerAgentLost \<Rightarrow> rs = [] \<or> (\<exists>i d. AgentLost i d \<in> set rs)
           | BudgetExhausted \<Rightarrow>
               remaining b tier1_review_key < int (length rs) \<or> remaining b tier2_escalation_key < 1 \<or>
               remaining b calibration_sample_key < 1))"

lemma escalation_decides:
  assumes "escalation_result cb item vs fs b l reason k = Inr r"
    and "decision_ok threshold pol item rs b0
      (EscalationTerminal \<lparr>t2_item = item, t2_reason = reason, t2_verdicts = vs, t2_findings = fs\<rparr>)"
    and "remaining b k < 1 \<Longrightarrow> remaining b0 tier2_escalation_key < 1 \<or> remaining b0 calibration_sample_key < 1"
  shows "decision_ok threshold pol item rs b0 (rr_terminal r)"
proof -
  consider "try_consume k 1 b = Inr (False, b)" "remaining b k < 1" | "try_consume k 1 b = Inr (True, with_spent k 1 b)"
    using consume_cases [of 1 k b] by auto
  then show ?thesis
  proof cases
    case 1
    then show ?thesis
      using assms(1,3) by (auto simp: escalation_result_def open_gate_result_def decision_ok_def)
  next
    case 2
    then show ?thesis using assms(1,2) by (auto simp: escalation_result_def Let_def)
  qed
qed

lemma remaining_other: "j \<noteq> k \<Longrightarrow> remaining (with_spent k n b) j = remaining b j"
  by (simp add: remaining_def spent_with_spent)

lemma escalation_called:
  "escalation_result cb item vs fs b l reason k = Inr r \<Longrightarrow>
     rr_called r = (case rr_terminal r of EscalationTerminal q \<Rightarrow> if cb then [q] else [] | _ \<Rightarrow> [])"
  by (auto simp: escalation_result_def open_gate_result_def Let_def rbind_eq_Inr split: if_splits)

lemma called_on_escalation:
  assumes "route_review_item threshold cb pol l item rs b = Inr r"
  shows "rr_called r = (case rr_terminal r of EscalationTerminal q \<Rightarrow> if cb then [q] else [] | _ \<Rightarrow> [])"
proof -
  obtain acc where acc: "accept_tier1_results item rs b l = Inr acc"
      "(case acc of Inl result \<Rightarrow> Inr result | Inr ac \<Rightarrow> route_accepted_verdicts threshold cb item ac pol l) = Inr r"
    using assms by (auto simp: route_review_item_def rbind_eq_Inr)
  show ?thesis
  proof (cases acc)
    case (Inl result)
    then show ?thesis
      using acc by (auto simp: accept_tier1_results_def open_gate_result_def rbind_eq_Inr split: if_splits prod.splits)
  next
    case (Inr ac)
    then have "route_accepted_verdicts threshold cb item ac pol l = Inr r" using acc(2) by simp
    then show ?thesis
      unfolding route_accepted_verdicts_def Let_def
      by (auto intro: escalation_called split: if_splits list.splits)
  qed
qed

lemma accepted_decides:
  assumes "rs \<noteq> []" and "lost_reviewers rs = []"
    and route: "route_accepted_verdicts threshold callback item
      \<lparr>ac_budget = with_spent tier1_review_key (int (length rs)) b, ac_verdicts = artifacts rs,
       ac_findings = collect_findings (artifacts rs)\<rparr> pol l = Inr r"
  shows "decision_ok threshold pol item rs b (rr_terminal r)"
proof -
  let ?vs = "artifacts rs" and ?b = "with_spent tier1_review_key (int (length rs)) b"
  have all: "\<forall>x \<in> set rs. \<exists>a. x = Artifact a" using assms(2) by (simp only: lost_or_artifacts)
  then have rs: "rs = map Artifact ?vs" by (rule artifacts_of)
  have blockers: "filter is_blocker (collect_findings ?vs) = concat (map blocker_findings ?vs)" by (rule blockers_of)
  have left: "remaining ?b j = remaining b j" if "j \<noteq> tier1_review_key" for j
    by (rule remaining_other [OF that])
  consider "concat (map blocker_findings ?vs) \<noteq> []"
    | "concat (map blocker_findings ?vs) = []" "verdicts_disagree ?vs"
    | "concat (map blocker_findings ?vs) = []" "\<not> verdicts_disagree ?vs" "should_sample threshold pol (ri_id item) (ri_lane item)"
    | "concat (map blocker_findings ?vs) = []" "\<not> verdicts_disagree ?vs" "\<not> should_sample threshold pol (ri_id item) (ri_lane item)"
    by blast
  then show ?thesis
  proof cases
    case 1
    then have "escalation_result callback item ?vs (concat (map blocker_findings ?vs)) ?b l BlockerFound tier2_escalation_key = Inr r"
      using route by (simp add: route_accepted_verdicts_def blockers)
    then show ?thesis
      by (rule escalation_decides) (use 1 rs left [of tier2_escalation_key] in \<open>simp_all add: decision_ok_def\<close>)
  next
    case 2
    then have "escalation_result callback item ?vs (collect_findings ?vs) ?b l Disagreement tier2_escalation_key = Inr r"
      using route by (simp add: route_accepted_verdicts_def blockers)
    then show ?thesis
      by (rule escalation_decides) (use 2 rs left [of tier2_escalation_key] disagree_iff [of ?vs] in \<open>simp_all add: decision_ok_def\<close>)
  next
    case 3
    then have "escalation_result callback item ?vs (collect_findings ?vs) ?b l CalibrationSampled calibration_sample_key = Inr r"
      using route by (simp add: route_accepted_verdicts_def blockers)
    then show ?thesis
      by (rule escalation_decides) (use 3 rs left [of calibration_sample_key] in \<open>simp_all add: decision_ok_def\<close>)
  next
    case 4
    obtain v vs where v: "?vs = v # vs" using assms(1) rs by (cases ?vs) auto
    have none: "filter is_blocker (collect_findings ?vs) = []" unfolding blockers by (rule 4(1))
    have same: "\<forall>a \<in> set ?vs. va_verdict a = va_verdict v" using 4(2) v unfolding disagree_iff by (metis list.set_intros(1))
    have "rr_terminal r = VerdictTerminal item (va_verdict v) (collect_findings ?vs)"
      using route 4(2,3) none unfolding v by (auto simp: route_accepted_verdicts_def)
    moreover have "\<exists>a. x = Artifact a \<and> va_verdict a = va_verdict v \<and> blocker_findings a = []" if "x \<in> set rs" for x
    proof -
      from that obtain a where "x = Artifact a" "a \<in> set ?vs" using arg_cong [OF rs, of set] by auto
      then show ?thesis using same 4(1) by auto
    qed
    ultimately show ?thesis using 4(3) assms(1) by (simp add: decision_ok_def)
  qed
qed

lemma routing_decision:
  assumes "budget_ok b" and "route_review_item threshold callback pol l item rs b = Inr r"
  shows "decision_ok threshold pol item rs b (rr_terminal r)"
proof (cases "rs = []")
  case True
  then show ?thesis
    using assms(2) by (auto simp: route_review_item_def accept_tier1_results_def open_gate_result_def decision_ok_def)
next
  case False
  from assms(1) False show ?thesis
  proof (cases rule: accept_cases [where item = item and l = l])
    case (gate b' reason detail)
    have "\<exists>i d. AgentLost i d \<in> set rs" if "lost_reviewers rs \<noteq> []"
      using that unfolding lost_or_artifacts by (metis tier1_result.exhaust)
    then show ?thesis
      using gate assms(2) by (auto simp: route_review_item_def open_gate_result_def decision_ok_def)
  next
    case accepted
    show ?thesis
      by (rule accepted_decides [OF False accepted(2)]) (use assms(2) accepted(1) in \<open>simp add: route_review_item_def\<close>)
  qed
qed

text \<open>
  C33: A verdict is passed on only when it is everyone's. Routing ends with a verdict only if there were results, every
  reviewer returned that verdict and no finding is a blocker; it escalates with exactly the verdicts
  received, for blockers (and then with these), for a disagreement, or for a sample; it opens a gate only
  when a reviewer was lost or a budget was used up. The tier-2 callback is called exactly on escalation.
\<close>

theorem routing_decides_as_reviewers_did:
  assumes "budget_ok b" and "route_review_item threshold callback pol l item rs b = Inr r"
  shows "decision_ok threshold pol item rs b (rr_terminal r) \<and>
    rr_called r = (case rr_terminal r of EscalationTerminal q \<Rightarrow> if callback then [q] else [] | _ \<Rightarrow> [])"
  using routing_decision [OF assms] called_on_escalation [OF assms(2)] by blast

definition demo_budget :: review_budget where
  "demo_budget = \<lparr>bd_limits = [(tier1_review_key, 20), (tier2_escalation_key, 20)], bd_spent = []\<rparr>"

lemma routing_decides_as_reviewers_did_witness:
  "\<exists>r. route_review_item (\<lambda>_. 0) True [] [] (demo_review_item ''disagreed-change'' ''default'') [demo_pass, demo_major_change] demo_budget = Inr r \<and>
     decision_ok (\<lambda>_. 0) [] (demo_review_item ''disagreed-change'' ''default'') [demo_pass, demo_major_change] demo_budget (rr_terminal r)"
proof -
  have ok: "budget_ok demo_budget"
    by (simp add: budget_ok_def demo_budget_def limit_for_def spent_for_def units_of_def del: split_paired_All)
  from route_charged [OF ok] obtain r where
    r: "route_review_item (\<lambda>_. 0) True [] [] (demo_review_item ''disagreed-change'' ''default'') [demo_pass, demo_major_change] demo_budget = Inr r"
    by blast
  from routing_decides_as_reviewers_did [OF ok r] r show ?thesis by blast
qed

end
