(* ===== verification/Verbs.thy ===== *)
theory Verbs
  imports Runtime_Values Overseer
begin

text \<open>
  The verbs that plan and validate a workflow without running it (\<open>doeff_conductor/verbs.py\<close>): the binding
  plan with its budget and missing capabilities, the payloads the stub agents answer with, and the
  reports of the validation scenarios. The run of a scenario is a parameter: what the runtime returned under
  the stubs, or the text of the exception it raised. \<open>sr\<close> is \<open>str()\<close> of an object that is not a string,
  \<open>payload_of\<close> the JSON of an object that is hashed.
\<close>

section \<open>Plans\<close>

record plan_row =
  br_node :: string
  br_role :: string
  br_profile :: string
  br_fingerprint :: string
  br_phase :: obj
  br_class :: string
  br_units :: int
  br_source :: string
  br_label :: obj

record binding_plan =
  bp_workflow :: string
  bp_interpreter :: string
  bp_rows :: "plan_row list"
  bp_units :: int
  bp_totals :: "(string, int) dict"
  bp_satisfied :: bool
  bp_missing :: "string list"
  bp_supervision :: string

datatype (plugins only: code size) verb_error =
    BadSupervision string | VerbExpansion dsl_error | VerbProfile profile_error
  | NotAgentCall string | CapabilitiesNotSequence string | UnknownScenario string
  | ClosureViolation string string string | StubRaises

definition allowed_terminal_kinds :: "string list" where
  "allowed_terminal_kinds = [''artifact'', ''verdict'', ''escalation'', ''gate'']"

definition built_in_scenarios :: "string list" where
  "built_in_scenarios =
     [''all-pass'', ''schema-invalid-then-pass'', ''retry-exhaustion'', ''quorum-shortfall'', ''merge-conflict'', ''loop-exhaustion'']"

definition supported_supervision :: "string list" where
  "supported_supervision = [''autonomous'', ''phase-checkpoints'']"

definition default_site_capabilities :: "string list" where
  "default_site_capabilities = [''durable-sessions'', ''interactive'', ''schema-validation'']"

definition validate_supervision :: "string \<Rightarrow> verb_error + unit" where
  "validate_supervision s = (if s \<in> set supported_supervision then Inr () else Inl (BadSupervision s))"

definition obj_str :: "(obj \<Rightarrow> string) \<Rightarrow> obj \<Rightarrow> string" where
  "obj_str sr x = (case x of OStr s \<Rightarrow> s | _ \<Rightarrow> sr x)"

definition role_get :: "(string, obj) dict \<Rightarrow> string \<Rightarrow> string \<Rightarrow> verb_error + obj option" where
  "role_get roles role key = (case role_entry roles role key of Inl e \<Rightarrow> Inl (VerbProfile e) | Inr x \<Rightarrow> Inr x)"

definition required_capabilities :: "(obj \<Rightarrow> string) \<Rightarrow> string \<Rightarrow> (string, obj) dict \<Rightarrow> verb_error + string list" where
  "required_capabilities sr role roles =
     rbind (role_get roles role ''requires'') (\<lambda>requires.
     rbind (role_get roles role ''capabilities'') (\<lambda>capabilities.
     let raw = (case requires of None \<Rightarrow> OTuple [] | Some x \<Rightarrow> x);
         raw = (if raw = OTuple [] then (case capabilities of None \<Rightarrow> OTuple [] | Some x \<Rightarrow> x) else raw)
     in case (case raw of OStr s \<Rightarrow> None | _ \<Rightarrow> items_of raw) of
          None \<Rightarrow> Inl (CapabilitiesNotSequence role)
        | Some xs \<Rightarrow> Inr (''schema-validation'' # map (obj_str sr) xs)))"

definition resolved_identity_of :: "profile \<Rightarrow> resolved_identity" where
  "resolved_identity_of p =
     \<lparr>ri_adapter = pf_adapter p, ri_model = pf_model p, ri_identity = None, ri_effort = pf_effort p\<rparr>"

text \<open>What one agent node adds to the plan: its row, and the capabilities it needs and nobody has.\<close>

definition plan_node ::
    "(string \<Rightarrow> string) \<Rightarrow> (obj \<Rightarrow> json) \<Rightarrow> (obj \<Rightarrow> string) \<Rightarrow> (string, obj) dict \<Rightarrow> registry \<Rightarrow> string list \<Rightarrow>
     expanded_node \<Rightarrow> verb_error + plan_row \<times> string list" where
  "plan_node sha payload_of sr roles reg site node =
     (case n_effect node of
        Some (AgentCall role cls prompt schema workspace files profile persona retry deadline label phase) \<Rightarrow>
          (case resolve_agent_profile profile role cls roles reg of
             Inl e \<Rightarrow> Inl (VerbProfile e)
           | Inr (name, source) \<Rightarrow>
               (case registry_resolve reg name of
                  Inl e \<Rightarrow> Inl (VerbProfile e)
                | Inr p \<Rightarrow>
                    rbind (required_capabilities sr role roles) (\<lambda>needed.
                    Inr (\<lparr>br_node = n_id node, br_role = role, br_profile = name,
                           br_fingerprint = agent_cache_key sha (payload_of prompt) (payload_of schema) (resolved_identity_of p),
                           br_phase = n_phase node, br_class = cls,
                           br_units = (if n_budget node \<noteq> 0 then n_budget node else pf_budget p),
                           br_source = source, br_label = label\<rparr>,
                         filter (\<lambda>c. c \<notin> set (pf_capabilities p) \<and> c \<notin> set site) needed))))
      | _ \<Rightarrow> Inl (NotAgentCall (n_id node)))"

fun plan_nodes ::
    "(expanded_node \<Rightarrow> verb_error + plan_row \<times> string list) \<Rightarrow> expanded_node list \<Rightarrow>
     plan_row list \<times> (string, int) dict \<times> string list \<Rightarrow> verb_error + plan_row list \<times> (string, int) dict \<times> string list" where
  "plan_nodes one [] acc = Inr acc"
| "plan_nodes one (node # nodes) (rows, totals, missing) =
     (if n_kind node \<noteq> ''agent'' then plan_nodes one nodes (rows, totals, missing)
      else
        rbind (one node) (\<lambda>(row, lacking).
        plan_nodes one nodes
          (rows @ [row],
           dput (br_profile row) ((case dget totals (br_profile row) of None \<Rightarrow> 0 | Some n \<Rightarrow> n) + br_units row) totals,
           missing @ lacking)))"

definition plan_expanded ::
    "(string \<Rightarrow> string) \<Rightarrow> (obj \<Rightarrow> json) \<Rightarrow> (obj \<Rightarrow> string) \<Rightarrow> registry \<Rightarrow> string list \<Rightarrow> string \<Rightarrow> expanded_workflow \<Rightarrow>
     verb_error + binding_plan" where
  "plan_expanded sha payload_of sr reg site supervision w =
     rbind (plan_nodes (plan_node sha payload_of sr (ew_roles w) reg site) (ew_nodes w) ([], [], [])) (\<lambda>(rows, totals, missing).
     Inr \<lparr>bp_workflow = ew_name w, bp_interpreter = ''plan'', bp_rows = rows, bp_units = sum_list (map br_units rows),
          bp_totals = totals, bp_satisfied = (missing = []), bp_missing = sorted_set missing,
          bp_supervision = supervision\<rparr>)"

text \<open>\<open>reg\<close> is the registry given, or what loading it from the environment gives.\<close>

definition plan_workflow ::
    "(string \<Rightarrow> string) \<Rightarrow> (obj \<Rightarrow> json) \<Rightarrow> (obj \<Rightarrow> string) \<Rightarrow> (obj \<Rightarrow> string) \<Rightarrow> profile_error + registry \<Rightarrow> string list \<Rightarrow>
     string \<Rightarrow> workflow \<Rightarrow> verb_error + binding_plan" where
  "plan_workflow sha payload_of sr rp reg site supervision w =
     rbind (validate_supervision supervision) (\<lambda>_.
     case expand rp w of
       Inl e \<Rightarrow> Inl (VerbExpansion e)
     | Inr ew \<Rightarrow>
         (case reg of Inl e \<Rightarrow> Inl (VerbProfile e) | Inr r \<Rightarrow> plan_expanded sha payload_of sr r site supervision ew))"

definition plan_row_to_dict :: "(obj \<Rightarrow> json) \<Rightarrow> plan_row \<Rightarrow> payload" where
  "plan_row_to_dict raw r =
     [(''node_id'', JStr (br_node r)), (''role'', JStr (br_role r)), (''profile'', JStr (br_profile r)),
      (''fingerprint'', JStr (br_fingerprint r)), (''phase'', raw (br_phase r)), (''verification_class'', JStr (br_class r)),
      (''estimated_budget_units'', JInt (br_units r)), (''resolution_source'', JStr (br_source r)), (''label'', raw (br_label r))]"

definition plan_to_dict :: "(obj \<Rightarrow> json) \<Rightarrow> binding_plan \<Rightarrow> payload" where
  "plan_to_dict raw p =
     [(''workflow_name'', JStr (bp_workflow p)), (''interpreter'', JStr (bp_interpreter p)),
      (''rows'', JList (map (\<lambda>r. JObj (plan_row_to_dict raw r)) (bp_rows p))),
      (''estimated_budget_units'', JInt (bp_units p)),
      (''totals_by_profile'', JObj (map (map_prod id JInt) (bp_totals p))),
      (''capabilities_satisfied'', JBool (bp_satisfied p)),
      (''missing_capabilities'', JList (map JStr (bp_missing p))), (''supervision'', JStr (bp_supervision p))]"

section \<open>The payloads of the stub agents\<close>

text \<open>\<open>None\<close>: the stub raises. A key that is not a string is not modelled.\<close>

definition minimal_value :: "payload \<Rightarrow> json option" where
  "minimal_value schema =
     (case dget schema ''enum'' of
        Some (JList (v # vs)) \<Rightarrow> Some v
      | Some (JStr (c # cs)) \<Rightarrow> Some (JStr [c])
      | Some _ \<Rightarrow> None
      | None \<Rightarrow>
          Some (case dget schema ''type'' of
                  Some (JStr t) \<Rightarrow>
                    if t = ''integer'' then JInt 0 else if t = ''number'' then JFloat ''0.0''
                    else if t = ''boolean'' then JBool True else if t = ''array'' then JList []
                    else if t = ''object'' then JObj [] else JStr ''stub''
                | _ \<Rightarrow> JStr ''stub''))"

definition minimal_member :: "payload \<Rightarrow> string \<Rightarrow> json option" where
  "minimal_member properties name =
     (case dget properties name of
        None \<Rightarrow> minimal_value [] | Some (JObj s) \<Rightarrow> minimal_value s | Some _ \<Rightarrow> None)"

primrec minimal_members :: "payload \<Rightarrow> payload \<Rightarrow> json list \<Rightarrow> payload option" where
  "minimal_members properties acc [] = Some acc"
| "minimal_members properties acc (k # ks) =
     (case k of
        JStr name \<Rightarrow>
          (case minimal_member properties name of
             None \<Rightarrow> None | Some v \<Rightarrow> minimal_members properties (dput name v acc) ks)
      | _ \<Rightarrow> None)"

definition minimal_valid_payload :: "payload \<Rightarrow> payload option" where
  "minimal_valid_payload schema =
     (case (case dget schema ''required'' of None \<Rightarrow> Some [] | Some (JList ks) \<Rightarrow> Some ks | _ \<Rightarrow> None,
            case dget schema ''properties'' of None \<Rightarrow> Some [] | Some (JObj ps) \<Rightarrow> Some ps | _ \<Rightarrow> None) of
        (Some ks, Some ps) \<Rightarrow> minimal_members ps [] ks
      | _ \<Rightarrow> None)"

section \<open>Scenarios\<close>

datatype agent_stub = AnswersMinimal string | RaisesExhausted
datatype exec_stub = ExecPasses | ExecFails

record scenario_stubs =
  ss_agent :: agent_stub
  ss_exec :: exec_stub
  ss_merge_conflict :: bool

definition stubs_of :: "string \<Rightarrow> verb_error + scenario_stubs" where
  "stubs_of s =
     (if s \<notin> set built_in_scenarios then Inl (UnknownScenario s)
      else Inr \<lparr>ss_agent = (if s \<in> {''retry-exhaustion'', ''quorum-shortfall''} then RaisesExhausted
                             else if s = ''schema-invalid-then-pass'' then AnswersMinimal ''schema invalid retry then pass''
                             else AnswersMinimal ''all pass''),
                 ss_exec = (if s = ''loop-exhaustion'' then ExecFails else ExecPasses),
                 ss_merge_conflict = (s = ''merge-conflict'')\<rparr>)"

datatype type_hint = HintStr | HintInt | HintFloat | HintBool | HintOther

definition validation_params :: "(obj \<Rightarrow> type_hint) \<Rightarrow> (string, obj) dict \<Rightarrow> (string, json) dict" where
  "validation_params hint params =
     map (\<lambda>(name, h). (name, case hint h of
        HintInt \<Rightarrow> JInt 0 | HintFloat \<Rightarrow> JFloat ''0.0'' | HintBool \<Rightarrow> JBool False | _ \<Rightarrow> JStr (''validation-'' @ name))) params"

record agent_outcome =
  ao_node :: string
  ao_kind :: string
  ao_status :: string
  ao_detail :: string

definition record_artifact :: "string \<Rightarrow> string \<Rightarrow> agent_outcome list \<Rightarrow> agent_outcome list" where
  "record_artifact node detail outcomes =
     outcomes @ [\<lparr>ao_node = node, ao_kind = ''artifact'', ao_status = ''passed'', ao_detail = detail\<rparr>]"

text \<open>What a stub agent does with the result schema of its task: the answer, and the tracker.\<close>

definition stub_agent ::
    "agent_stub \<Rightarrow> string \<Rightarrow> payload \<Rightarrow> agent_outcome list \<Rightarrow> (verb_error + payload) \<times> agent_outcome list" where
  "stub_agent stub node schema outcomes =
     (case stub of
        RaisesExhausted \<Rightarrow> (Inl StubRaises, outcomes)
      | AnswersMinimal detail \<Rightarrow>
          (case minimal_valid_payload schema of
             None \<Rightarrow> (Inl StubRaises, outcomes)
           | Some v \<Rightarrow> (Inr v, record_artifact node detail outcomes)))"

section \<open>Reports\<close>

record terminal_state =
  tm_node :: string
  tm_kind :: string
  tm_status :: string
  tm_phase :: "string option"
  tm_detail :: "string option"

record scenario_report =
  sn_scenario :: string
  sn_workflow :: string
  sn_terminals :: "terminal_state list"
  sn_gates :: "gate list"

record suite_report =
  su_workflow :: string
  su_interpreter :: string
  su_scenarios :: "scenario_report list"
  su_supervision :: string

definition terminal_to_dict :: "terminal_state \<Rightarrow> payload" where
  "terminal_to_dict t =
     [(''node_id'', JStr (tm_node t)), (''terminal_kind'', JStr (tm_kind t)), (''status'', JStr (tm_status t)),
      (''phase'', json_opt (tm_phase t)), (''detail'', json_opt (tm_detail t))]"

definition closure_ok :: "scenario_report \<Rightarrow> bool" where
  "closure_ok r \<longleftrightarrow> list_all (\<lambda>t. tm_kind t \<in> set allowed_terminal_kinds) (sn_terminals r)"

definition scenario_to_dict :: "scenario_report \<Rightarrow> payload" where
  "scenario_to_dict r =
     [(''scenario'', JStr (sn_scenario r)), (''workflow_name'', JStr (sn_workflow r)),
      (''terminals'', JList (map (\<lambda>t. JObj (terminal_to_dict t)) (sn_terminals r))),
      (''open_gates'', JList (map (\<lambda>g. JObj (gate_to_dict g)) (sn_gates r))), (''closure_ok'', JBool (closure_ok r))]"

definition suite_to_dict :: "suite_report \<Rightarrow> payload" where
  "suite_to_dict s =
     [(''workflow_name'', JStr (su_workflow s)), (''interpreter'', JStr (su_interpreter s)),
      (''supervision'', JStr (su_supervision s)),
      (''scenarios'', JList (map (\<lambda>r. JObj (scenario_to_dict r)) (su_scenarios s))),
      (''closure_ok'', JBool (list_all closure_ok (su_scenarios s)))]"

definition assert_validation_closure :: "scenario_report \<Rightarrow> verb_error + unit" where
  "assert_validation_closure r =
     (case find (\<lambda>t. tm_kind t \<notin> set allowed_terminal_kinds) (sn_terminals r) of
        None \<Rightarrow> Inr () | Some t \<Rightarrow> Inl (ClosureViolation (sn_scenario r) (tm_node t) (tm_kind t)))"

text \<open>What a run under stubs gives: open gates and tolerated losses, or the text of an exception.\<close>

type_synonym run_outcome = "string + gate list \<times> loss list"

definition artifact_terminal :: "agent_outcome \<Rightarrow> terminal_state" where
  "artifact_terminal x =
     \<lparr>tm_node = ao_node x, tm_kind = ao_kind x, tm_status = ao_status x, tm_phase = None, tm_detail = Some (ao_detail x)\<rparr>"

definition gate_terminal :: "gate \<Rightarrow> terminal_state" where
  "gate_terminal g =
     \<lparr>tm_node = gt_node g, tm_kind = ''gate'', tm_status = ''open'', tm_phase = gt_phase g, tm_detail = Some (gt_reason g)\<rparr>"

definition loss_terminal :: "loss \<Rightarrow> terminal_state" where
  "loss_terminal l =
     \<lparr>tm_node = ls_path l, tm_kind = ''escalation'', tm_status = ''tolerated'', tm_phase = None,
      tm_detail = Some (''quorum loss: branch '' @ nat_str (ls_branch l) @ '' ('' @ ls_type l @ '')'')\<rparr>"

definition error_terminal :: "string \<Rightarrow> string \<Rightarrow> terminal_state" where
  "error_terminal workflow_name detail =
     \<lparr>tm_node = workflow_name @ ''/runtime-error'', tm_kind = ''runtime-error'', tm_status = ''failed'', tm_phase = None,
      tm_detail = Some detail\<rparr>"

definition build_scenario_report :: "string \<Rightarrow> string \<Rightarrow> run_outcome \<Rightarrow> agent_outcome list \<Rightarrow> scenario_report" where
  "build_scenario_report scenario workflow_name result outcomes =
     (case result of
        Inr (gates, losses) \<Rightarrow>
          \<lparr>sn_scenario = scenario, sn_workflow = workflow_name,
           sn_terminals = map artifact_terminal outcomes @ map gate_terminal gates @ map loss_terminal losses, sn_gates = gates\<rparr>
      | Inl detail \<Rightarrow>
          \<lparr>sn_scenario = scenario, sn_workflow = workflow_name,
           sn_terminals = map artifact_terminal outcomes @ [error_terminal workflow_name detail], sn_gates = []\<rparr>)"

primrec scenario_reports ::
    "(scenario_stubs \<Rightarrow> run_outcome \<times> agent_outcome list) \<Rightarrow> string \<Rightarrow> string list \<Rightarrow> verb_error + scenario_report list" where
  "scenario_reports run name [] = Inr []"
| "scenario_reports run name (s # ss) =
     rbind (stubs_of s) (\<lambda>stubs.
     rbind (scenario_reports run name ss) (\<lambda>rs.
     Inr ((case run stubs of (result, outcomes) \<Rightarrow> build_scenario_report s name result outcomes) # rs)))"

definition terminal_event ::
    "(int \<Rightarrow> string) \<Rightarrow> string \<Rightarrow> int \<Rightarrow> string \<times> terminal_state \<Rightarrow> run_event" where
  "terminal_event clock workflow_id n st =
     make_progress_event clock n workflow_id (tm_node (snd st)) (tm_phase (snd st)) (tm_status (snd st))
       (fst st @ '': '' @ (case tm_detail (snd st) of None \<Rightarrow> tm_kind (snd st) | Some d \<Rightarrow> if d = [] then tm_kind (snd st) else d))
       (Some (tm_kind (snd st)))"

definition run_state_from_reports :: "(int \<Rightarrow> string) \<Rightarrow> string \<Rightarrow> string \<Rightarrow> suite_report \<Rightarrow> run_state" where
  "run_state_from_reports clock workflow_id workflow_name suite =
     (let terminals = concat (map (\<lambda>r. map (Pair (sn_scenario r)) (sn_terminals r)) (su_scenarios suite))
      in \<lparr>rn_workflow = workflow_id, rn_name = workflow_name,
          rn_events = map (\<lambda>(i, t). terminal_event clock workflow_id (int i) t) (enumerate 1 terminals),
          rn_gates = concat (map sn_gates (su_scenarios suite)), rn_supervision = su_supervision suite, rn_answered = []\<rparr>)"

text \<open>The report, and the state of the run when there is one to save.\<close>

definition validate_workflow ::
    "(int \<Rightarrow> string) \<Rightarrow> (obj \<Rightarrow> string) \<Rightarrow> (scenario_stubs \<Rightarrow> run_outcome \<times> agent_outcome list) \<Rightarrow> string list option \<Rightarrow>
     string \<Rightarrow> string option \<Rightarrow> workflow \<Rightarrow> run_dir \<Rightarrow> (verb_error + suite_report) \<times> run_dir" where
  "validate_workflow clock rp run scenarios supervision run_id w dir =
     (case (case validate_supervision supervision of
              Inl e \<Rightarrow> Inl e
            | Inr _ \<Rightarrow>
                (case expand rp w of
                   Inl e \<Rightarrow> Inl (VerbExpansion e)
                 | Inr ew \<Rightarrow>
                     rbind (scenario_reports run (ew_name ew)
                       (case scenarios of None \<Rightarrow> built_in_scenarios | Some ss \<Rightarrow> if ss = [] then built_in_scenarios else ss)) (\<lambda>reports.
                     Inr \<lparr>su_workflow = ew_name ew, su_interpreter = ''validation'', su_scenarios = reports,
                          su_supervision = supervision\<rparr>))) of
        Inl e \<Rightarrow> (Inl e, dir)
      | Inr suite \<Rightarrow>
          (Inr suite,
           case run_id of
             None \<Rightarrow> dir
           | Some i \<Rightarrow> save_run_state (run_state_from_reports clock i (su_workflow suite) suite) dir))"

end
