(* ===== verification/Verbs_Facts.thy ===== *)
theory Verbs_Facts
  imports Verbs Overseer_Facts Review_Facts
begin

text \<open>
  Plans account for every agent of a workflow; a validation scenario is closed exactly when the runtime
  returned; the payload a stub answers with is valid for flat schemas, and not for every schema.
\<close>

section \<open>Plans\<close>

definition units_with :: "string \<Rightarrow> plan_row list \<Rightarrow> int" where
  "units_with name rows = sum_list (map br_units (filter (\<lambda>r. br_profile r = name) rows))"

definition agents_of :: "expanded_node list \<Rightarrow> expanded_node list" where
  "agents_of nodes = filter (\<lambda>n. n_kind n = ''agent'') nodes"

definition total_of :: "(string, int) dict \<Rightarrow> string \<Rightarrow> int" where
  "total_of totals name = (case dget totals name of None \<Rightarrow> 0 | Some n \<Rightarrow> n)"

lemma units_with_snoc: "units_with name (rows @ [r]) = units_with name rows + (if br_profile r = name then br_units r else 0)"
  by (simp add: units_with_def)

lemma total_of_dput: "total_of (dput k v totals) name = (if name = k then v else total_of totals name)"
  by (simp add: total_of_def)

lemma plan_nodes_result:
  assumes "plan_nodes one nodes (rows, totals, missing) = Inr (rows', totals', missing')"
  shows "\<exists>new. list_all2 (\<lambda>n x. one n = Inr x) (agents_of nodes) new \<and> rows' = rows @ map fst new \<and>
    missing' = missing @ concat (map snd new) \<and>
    ((\<forall>name. total_of totals name = units_with name rows) \<longrightarrow> (\<forall>name. total_of totals' name = units_with name rows'))"
  using assms
proof (induction nodes arbitrary: rows totals missing)
  case Nil
  then show ?case by (auto simp: agents_of_def)
next
  case (Cons node nodes)
  show ?case
  proof (cases "n_kind node = ''agent''")
    case False
    then show ?thesis using Cons.IH [of rows totals missing] Cons.prems by (simp add: agents_of_def)
  next
    case True
    then obtain row lacking where one: "one node = Inr (row, lacking)"
        and rest: "plan_nodes one nodes (rows @ [row], dput (br_profile row) (total_of totals (br_profile row) + br_units row) totals,
          missing @ lacking) = Inr (rows', totals', missing')"
      using Cons.prems by (auto simp: rbind_eq_Inr total_of_def)
    from Cons.IH [OF rest] obtain new where new: "list_all2 (\<lambda>n x. one n = Inr x) (agents_of nodes) new"
        "rows' = (rows @ [row]) @ map fst new" "missing' = (missing @ lacking) @ concat (map snd new)"
        and totals: "(\<forall>name. total_of (dput (br_profile row) (total_of totals (br_profile row) + br_units row) totals) name =
            units_with name (rows @ [row])) \<longrightarrow> (\<forall>name. total_of totals' name = units_with name rows')"
      by blast
    have "agents_of (node # nodes) = node # agents_of nodes" using True by (simp add: agents_of_def)
    moreover have "(\<forall>name. total_of totals name = units_with name rows) \<longrightarrow> (\<forall>name. total_of totals' name = units_with name rows')"
      using totals by (simp add: total_of_dput units_with_snoc)
    ultimately show ?thesis using one new by (intro exI [of _ "(row, lacking) # new"]) simp
  qed
qed

lemma plan_node_row:
  assumes "plan_node sha payload_of sr roles reg site n = Inr (row, lacking)"
  shows "br_node row = n_id n" and "\<exists>p needed. registry_resolve reg (br_profile row) = Inr p \<and>
      required_capabilities sr (br_role row) roles = Inr needed \<and>
      lacking = filter (\<lambda>c. c \<notin> set (pf_capabilities p) \<and> c \<notin> set site) needed \<and>
      br_units row = (if n_budget n \<noteq> 0 then n_budget n else pf_budget p)"
  using assms by (auto simp: plan_node_def rbind_eq_Inr split: option.splits call.splits sum.splits prod.splits)

lemma plan_parts:
  assumes "plan_expanded sha payload_of sr reg site supervision w = Inr p"
  shows "map br_node (bp_rows p) = map n_id (agents_of (ew_nodes w))"
    and "\<forall>r \<in> set (bp_rows p). \<exists>prof. registry_resolve reg (br_profile r) = Inr prof"
    and "\<forall>name. total_of (bp_totals p) name = units_with name (bp_rows p)"
    and "bp_satisfied p \<longleftrightarrow> (\<forall>r \<in> set (bp_rows p). \<forall>prof needed. registry_resolve reg (br_profile r) = Inr prof \<longrightarrow>
      required_capabilities sr (br_role r) (ew_roles w) = Inr needed \<longrightarrow>
      set needed \<subseteq> set (pf_capabilities prof) \<union> set site)"
    and "bp_units p = sum_list (map br_units (bp_rows p))"
    and "sorted (bp_missing p)" and "distinct (bp_missing p)" and "bp_satisfied p = (bp_missing p = [])"
proof -
  let ?one = "plan_node sha payload_of sr (ew_roles w) reg site"
  from assms obtain rows totals missing where run: "plan_nodes ?one (ew_nodes w) ([], [], []) = Inr (rows, totals, missing)"
      and p: "bp_rows p = rows" "bp_totals p = totals" "bp_satisfied p = (missing = [])" "bp_missing p = sorted_set missing"
      "bp_units p = sum_list (map br_units rows)"
    by (auto simp: plan_expanded_def rbind_eq_Inr)
  from plan_nodes_result [OF run] obtain new where new: "list_all2 (\<lambda>n x. ?one n = Inr x) (agents_of (ew_nodes w)) new"
      "rows = map fst new" "missing = concat (map snd new)" "\<forall>name. total_of totals name = units_with name rows"
    by (auto simp: total_of_def units_with_def)
  have each: "\<exists>n. ?one n = Inr x" if "x \<in> set new" for x
    using new(1) that by (auto simp: list_all2_conv_all_nth in_set_conv_nth)
  show "map br_node (bp_rows p) = map n_id (agents_of (ew_nodes w))"
    unfolding p new(2) using new(1) by (induction rule: list_all2_induct) (auto dest: plan_node_row(1))
  show "\<forall>r \<in> set (bp_rows p). \<exists>prof. registry_resolve reg (br_profile r) = Inr prof"
    unfolding p new(2) using each plan_node_row(2) by fastforce
  show "\<forall>name. total_of (bp_totals p) name = units_with name (bp_rows p)" unfolding p by (rule new(4))
  have "missing = [] \<longleftrightarrow> (\<forall>x \<in> set new. snd x = [])" by (simp add: new(3))
  also have "\<dots> \<longleftrightarrow> (\<forall>r \<in> set rows. \<forall>prof needed. registry_resolve reg (br_profile r) = Inr prof \<longrightarrow>
      required_capabilities sr (br_role r) (ew_roles w) = Inr needed \<longrightarrow> set needed \<subseteq> set (pf_capabilities prof) \<union> set site)"
  proof -
    have "snd x = [] \<longleftrightarrow> (\<forall>prof needed. registry_resolve reg (br_profile (fst x)) = Inr prof \<longrightarrow>
        required_capabilities sr (br_role (fst x)) (ew_roles w) = Inr needed \<longrightarrow> set needed \<subseteq> set (pf_capabilities prof) \<union> set site)"
      if "x \<in> set new" for x
    proof -
      obtain row lacking where x: "x = (row, lacking)" by force
      then obtain n where "?one n = Inr (row, lacking)" using each \<open>x \<in> set new\<close> by blast
      from plan_node_row(2) [OF this] show ?thesis by (auto simp: x filter_empty_conv)
    qed
    then show ?thesis by (simp add: new(2))
  qed
  finally show "bp_satisfied p \<longleftrightarrow> (\<forall>r \<in> set (bp_rows p). \<forall>prof needed. registry_resolve reg (br_profile r) = Inr prof \<longrightarrow>
      required_capabilities sr (br_role r) (ew_roles w) = Inr needed \<longrightarrow> set needed \<subseteq> set (pf_capabilities prof) \<union> set site)"
    unfolding p .
  show "bp_units p = sum_list (map br_units (bp_rows p))" by (simp only: p)
  show "sorted (bp_missing p)" and "distinct (bp_missing p)" by (simp_all add: p sorted_set_def)
  show "bp_satisfied p = (bp_missing p = [])" by (simp add: p sorted_set_def flip: set_empty)
qed

text \<open>
  C34: A plan accounts for every agent. It has one row per agent node, in their order; each row is bound to a
  profile of the registry and takes the node's budget or the profile's; the budget of a profile is the sum of its
  rows, and that of the plan the sum of all; and the capabilities are satisfied exactly when every agent
  finds each capability its role requires in its profile or on the site.
\<close>

theorem plans_account_for_every_agent:
  assumes "plan_expanded sha payload_of sr reg site supervision w = Inr p"
  shows "map br_node (bp_rows p) = map n_id (agents_of (ew_nodes w)) \<and>
    (\<forall>r \<in> set (bp_rows p). \<exists>prof. registry_resolve reg (br_profile r) = Inr prof) \<and>
    (\<forall>name. total_of (bp_totals p) name = units_with name (bp_rows p)) \<and>
    (bp_satisfied p \<longleftrightarrow> (\<forall>r \<in> set (bp_rows p). \<forall>prof needed. registry_resolve reg (br_profile r) = Inr prof \<longrightarrow>
      required_capabilities sr (br_role r) (ew_roles w) = Inr needed \<longrightarrow>
      set needed \<subseteq> set (pf_capabilities prof) \<union> set site)) \<and>
    bp_units p = sum_list (map br_units (bp_rows p)) \<and>
    sorted (bp_missing p) \<and> distinct (bp_missing p) \<and> bp_satisfied p = (bp_missing p = [])"
  by (intro conjI plan_parts [OF assms])


definition demo_nodes :: expanded_workflow where
  "demo_nodes = \<lparr>ew_name = ''w'', ew_params = [], ew_roles = [(''reviewer'', ODict [(OStr ''requires'', OList [OStr ''gpu''])])],
     ew_phases = [],
     ew_nodes = [\<lparr>n_id = ''w/a/agent'', n_kind = ''agent'', n_phase = ONone, n_deps = [],
        n_effect = Some (AgentCall ''reviewer'' ''semantic'' (OStr ''look'') (ODict []) ONone [] None None ONone None ONone ONone),
        n_budget = 0\<rparr>],
     ew_bindings = [], ew_total = 0\<rparr>"

lemma plans_account_for_every_agent_witness:
  "\<exists>p. plan_expanded (\<lambda>x. x) (\<lambda>x. JNull) (\<lambda>x. []) demo_registry default_site_capabilities ''autonomous'' demo_nodes = Inr p \<and>
     map br_node (bp_rows p) = [''w/a/agent''] \<and> \<not> bp_satisfied p"
proof -
  let ?run = "plan_expanded (\<lambda>x. x) (\<lambda>x. JNull) (\<lambda>x. []) demo_registry default_site_capabilities ''autonomous'' demo_nodes"
  have "\<exists>p. ?run = Inr p \<and> bp_missing p = [''gpu'']"
    by (simp add: plan_expanded_def demo_nodes_def plan_node_def required_capabilities_def role_get_def role_entry_def
        resolve_agent_profile_def default_router_policy_def resolved_as_def registry_resolve_def demo_registry_def
        demo_profile_def Let_def obj_str_def default_site_capabilities_def sorted_set_def)
  then obtain p where p: "?run = Inr p" "bp_missing p = [''gpu'']" by blast
  have "map br_node (bp_rows p) = map n_id (agents_of (ew_nodes demo_nodes)) \<and> bp_satisfied p = (bp_missing p = [])"
    using plans_account_for_every_agent [OF p(1)] by (elim conjE) (intro conjI)
  then show ?thesis using p by (simp add: agents_of_def demo_nodes_def)
qed

section \<open>Closure\<close>

lemma build_report_closed:
  "\<forall>x \<in> set outcomes. ao_kind x = ''artifact'' \<Longrightarrow>
     closure_ok (build_scenario_report s name result outcomes) = (\<exists>gl. result = Inr gl)"
  by (auto simp: build_scenario_report_def closure_ok_def list_all_iff artifact_terminal_def gate_terminal_def
      loss_terminal_def error_terminal_def allowed_terminal_kinds_def split: sum.split)

lemma tracked_artifacts:
  "\<forall>x \<in> set outcomes. ao_kind x = ''artifact'' \<Longrightarrow> stub_agent stub node schema outcomes = (r, outcomes') \<Longrightarrow>
     \<forall>x \<in> set outcomes'. ao_kind x = ''artifact''"
  by (auto simp: stub_agent_def record_artifact_def split: agent_stub.splits option.splits)

lemma assert_closure: "assert_validation_closure r = Inr () \<longleftrightarrow> closure_ok r"
  by (auto simp: assert_validation_closure_def closure_ok_def list_all_iff find_None_iff split: option.split)
    (metis find_Some_iff nth_mem)

text \<open>
  C35: A scenario is closed exactly when the runtime returned. Let the stub agents be the only ones that record outcomes. Then
  every scenario is reported, in order; its terminals are allowed ones, and the closure assertion passes,
  if and only if the run under its stubs ended without an exception; the suite is closed if and
  only if this holds for all of them; and the open gates reported are those of the runtime.
\<close>

theorem closed_exactly_when_returned:
  assumes "\<forall>stubs. \<forall>x \<in> set (snd (run stubs)). ao_kind x = ''artifact''"
    and "scenario_reports run name ss = Inr reports"
  shows "list_all2 (\<lambda>s r. sn_scenario r = s \<and> (\<exists>stubs. stubs_of s = Inr stubs \<and>
      (closure_ok r \<longleftrightarrow> (\<exists>gl. fst (run stubs) = Inr gl)) \<and>
      (assert_validation_closure r = Inr () \<longleftrightarrow> closure_ok r) \<and>
      sn_gates r = (case fst (run stubs) of Inl e \<Rightarrow> [] | Inr (gates, losses) \<Rightarrow> gates))) ss reports"
  using assms(2)
proof (induction ss arbitrary: reports)
  case (Cons s ss)
  then obtain stubs rs where stubs: "stubs_of s = Inr stubs" and rs: "scenario_reports run name ss = Inr rs"
      and reports: "reports = (case run stubs of (result, outcomes) \<Rightarrow> build_scenario_report s name result outcomes) # rs"
    by (auto simp: rbind_eq_Inr)
  obtain result outcomes where run: "run stubs = (result, outcomes)" by force
  let ?r = "build_scenario_report s name result outcomes"
  have "\<forall>x \<in> set outcomes. ao_kind x = ''artifact''" using assms(1) run by (metis snd_conv)
  from build_report_closed [OF this] have "closure_ok ?r = (\<exists>gl. result = Inr gl)" .
  moreover have "sn_scenario ?r = s" "sn_gates ?r = (case result of Inl e \<Rightarrow> [] | Inr (gates, losses) \<Rightarrow> gates)"
    by (auto simp: build_scenario_report_def split: sum.split)
  ultimately show ?case
    unfolding reports using stubs run Cons.IH [OF rs] assert_closure [of ?r] by simp
qed simp

definition demo_outcome :: "scenario_stubs \<Rightarrow> run_outcome \<times> agent_outcome list" where
  "demo_outcome stubs =
     (case stub_agent (ss_agent stubs) ''n'' [(''required'', JList [JStr ''ok''])] [] of
        (Inl e, outcomes) \<Rightarrow> (Inl ''raised'', outcomes)
      | (Inr v, outcomes) \<Rightarrow> (Inr ([], []), outcomes))"

lemma closed_exactly_when_returned_witness:
  "\<exists>a b. scenario_reports demo_outcome ''w'' [''all-pass'', ''retry-exhaustion''] = Inr [a, b] \<and> closure_ok a \<and> \<not> closure_ok b"
proof -
  have artifacts: "\<forall>stubs. \<forall>x \<in> set (snd (demo_outcome stubs)). ao_kind x = ''artifact''"
  proof (intro allI)
    fix stubs :: scenario_stubs
    obtain r outcomes where run: "stub_agent (ss_agent stubs) ''n'' [(''required'', JList [JStr ''ok''])] [] = (r, outcomes)" by force
    from tracked_artifacts [OF _ run] show "\<forall>x \<in> set (snd (demo_outcome stubs)). ao_kind x = ''artifact''"
      by (simp add: demo_outcome_def run split: sum.split)
  qed
  obtain a b where reports: "scenario_reports demo_outcome ''w'' [''all-pass'', ''retry-exhaustion''] = Inr [a, b]"
    by (simp add: stubs_of_def built_in_scenarios_def)
  have "fst (demo_outcome \<lparr>ss_agent = AnswersMinimal ''all pass'', ss_exec = ExecPasses, ss_merge_conflict = False\<rparr>) = Inr ([], [])"
    "fst (demo_outcome \<lparr>ss_agent = RaisesExhausted, ss_exec = ExecPasses, ss_merge_conflict = False\<rparr>) = Inl ''raised''"
    by (simp_all add: demo_outcome_def stub_agent_def minimal_valid_payload_def minimal_member_def minimal_value_def)
  then show ?thesis
    using closed_exactly_when_returned [OF artifacts reports] reports by (simp add: stubs_of_def built_in_scenarios_def)
qed

section \<open>The payloads of the stubs\<close>

definition flat_property :: "json \<Rightarrow> bool" where
  "flat_property c \<longleftrightarrow>
     (\<exists>t \<in> {''string'', ''integer'', ''number'', ''boolean'', ''array'', ''object''}. c = JObj [(''type'', JStr t)]) \<or>
     (\<exists>w ws. c = JObj [(''type'', JStr ''string''), (''enum'', JList (map JStr (w # ws)))])"

definition flat_schema :: "string list \<Rightarrow> payload \<Rightarrow> payload" where
  "flat_schema ks ps =
     [(''type'', JStr ''object''), (''required'', JList (map JStr ks)), (''properties'', JObj ps), (''additionalProperties'', JBool False)]"

lemma flat_value:
  assumes "flat_property c"
  shows "\<exists>s v. c = JObj s \<and> minimal_value s = Some v \<and> validate L v c loc = Inr ()"
  using assms unfolding flat_property_def
proof
  assume "\<exists>t \<in> {''string'', ''integer'', ''number'', ''boolean'', ''array'', ''object''}. c = JObj [(''type'', JStr t)]"
  then show ?thesis
    by (auto simp: minimal_value_def validate.simps check_defs check_seq)
next
  assume "\<exists>w ws. c = JObj [(''type'', JStr ''string''), (''enum'', JList (map JStr (w # ws)))]"
  then obtain w ws where c: "c = JObj [(''type'', JStr ''string''), (''enum'', JList (map JStr (w # ws)))]" by blast
  have "validate L (JStr w) c loc = Inr ()" unfolding c validate_words by simp
  then show ?thesis by (intro exI conjI) (auto simp: c minimal_value_def)
qed

lemma minimal_members_values:
  "\<forall>k \<in> set ks. \<exists>v. minimal_member ps k = Some v \<Longrightarrow>
     \<exists>d. minimal_members ps acc (map JStr ks) = Some d \<and> set (dkeys d) = set (dkeys acc) \<union> set ks \<and>
       (\<forall>k. dget d k = (if k \<in> set ks then minimal_member ps k else dget acc k))"
proof (induction ks arbitrary: acc)
  case (Cons k ks)
  then obtain v where v: "minimal_member ps k = Some v" by auto
  have "\<forall>j \<in> set ks. \<exists>v. minimal_member ps j = Some v" using Cons.prems by simp
  from Cons.IH [OF this, of "dput k v acc"] obtain d where "minimal_members ps (dput k v acc) (map JStr ks) = Some d"
      "set (dkeys d) = set (dkeys (dput k v acc)) \<union> set ks"
      "\<forall>j. dget d j = (if j \<in> set ks then minimal_member ps j else dget (dput k v acc) j)" by blast
  then show ?case using v by (auto simp: dom_update)
qed simp

text \<open>
  C36: Stub agents answer flat schemas validly. For a schema that requires some of its properties, each of them a plain
  type or a choice of words, the payload made for it has exactly the required fields and the validator
  accepts it.
\<close>

theorem stub_payloads_conform:
  assumes "set ks \<subseteq> set (dkeys ps)" and "distinct (dkeys ps)" and "\<forall>(k, c) \<in> set ps. flat_property c"
  shows "\<exists>d. minimal_valid_payload (flat_schema ks ps) = Some d \<and> set (dkeys d) = set ks \<and>
    validate_result_payload L (JObj d) (JObj (flat_schema ks ps)) = Inr ()"
proof -
  have member: "\<exists>s v. dget ps k = Some (JObj s) \<and> minimal_member ps k = Some v \<and> validate L v (JObj s) loc = Inr ()"
    if "k \<in> set (dkeys ps)" for k loc
  proof -
    from that obtain c where c: "dget ps k = Some c" "(k, c) \<in> set ps" using map_of_eq_None_iff [of ps k] map_of_SomeD [of ps k] by fastforce
    then have "flat_property c" using assms(3) by blast
    from flat_value [OF this, of L loc] c(1) show ?thesis by (auto simp: minimal_member_def)
  qed
  then have "\<forall>k \<in> set ks. \<exists>v. minimal_member ps k = Some v" using assms(1) by blast
  from minimal_members_values [OF this, of "[]"] obtain d where d: "minimal_members ps [] (map JStr ks) = Some d"
      "set (dkeys d) = set ks" "\<forall>k. dget d k = (if k \<in> set ks then minimal_member ps k else None)" by auto
  have "member_ok d k (\<lambda>x. validate L x c loc = Inr ())" if "(k, c) \<in> set ps" for k c loc
  proof -
    have "k \<in> set (dkeys ps)" "dget ps k = Some c" using that assms(2) by force+
    then show ?thesis using member [of k loc] d(3) by (auto simp: member_ok_def split: option.split)
  qed
  then have "validate L (JObj d) (JObj (flat_schema ks ps)) ''result'' = Inr ()"
    unfolding flat_schema_def validate_object using assms(1) d(2) by auto
  moreover have "minimal_valid_payload (flat_schema ks ps) = Some d"
    using d(1) by (simp add: minimal_valid_payload_def flat_schema_def)
  ultimately show ?thesis using d(2) by (auto simp: validate_result_payload_def)
qed

lemma stub_payloads_conform_witness:
  "\<exists>d. minimal_valid_payload (flat_schema [''ok''] [(''ok'', JObj [(''type'', JStr ''boolean'')]), (''why'', JObj [(''type'', JStr ''string'')])]) = Some d \<and>
     set (dkeys d) = {''ok''}"
  using stub_payloads_conform [of "[''ok'']" "[(''ok'', JObj [(''type'', JStr ''boolean'')]), (''why'', JObj [(''type'', JStr ''string'')])]"
      "\<lparr>pl_float_eq = (=), pl_float_int = (\<lambda>_. None), pl_regex = (\<lambda>_. None)\<rparr>"]
  by (auto simp: flat_property_def)

text \<open>Required fields of nested objects and minimal lengths are not met.\<close>

lemma stub_payloads_may_not_conform:
  "minimal_valid_payload [(''required'', JList [JStr ''a'']),
     (''properties'', JObj [(''a'', JObj [(''type'', JStr ''object''), (''required'', JList [JStr ''b''])])])] = Some [(''a'', JObj [])]"
  "validate_result_payload L (JObj [(''a'', JObj [])]) (JObj [(''required'', JList [JStr ''a'']),
     (''properties'', JObj [(''a'', JObj [(''type'', JStr ''object''), (''required'', JList [JStr ''b''])])])]) =
   Inl (Reason (MissingRequired ''result.a'' ''b''))"
  "minimal_value [(''type'', JStr ''string''), (''minLength'', JInt 5)] = Some (JStr ''stub'')"
  "validate L (JStr ''stub'') (JObj [(''type'', JStr ''string''), (''minLength'', JInt 5)]) loc = Inl (Reason (TooShort loc 5))"
  by (simp_all add: minimal_valid_payload_def minimal_member_def minimal_value_def validate_result_payload_def validate.simps
      check_defs python_int_def)

end
