(* ===== verification/Memo.thy ===== *)
theory Memo
  imports Complex_Main Prelude
begin

text \<open>
  Memoisation in \<open>doeff_core_effects\<close>: the storages (\<open>storage/memory.py\<close>, \<open>storage/sqlite.py\<close>), the cache handler and
  its rewriter (\<open>cache_handlers.py\<close>), the memo layers (\<open>_memo_handlers_impl.hy\<close>) with their rewriter
  (\<open>memo_handlers.py\<close>), the decorator \<open>cache\<close> (\<open>cache.py\<close>) and the policies. Storage calls are awaited, so other tasks
  may act before each of them (\<open>env\<close>). Pickling, the digest of a key that is no string and the clock are
  parameters; log messages (\<open>Slog\<close>) are left out, and a stored object is a value that nobody mutates.
\<close>

section \<open>Storages\<close>

text \<open>A value is \<open>None\<close> or another object.\<close>

datatype 'v pyval = PyNone | PyVal 'v

datatype 'x merr = MKeyError | MUnhandled | MPickling | MOther 'x

subsection \<open>In memory\<close>

type_synonym 'v memory = "(string, 'v pyval) dict"

definition memory_get :: "'v memory \<Rightarrow> string \<Rightarrow> 'v pyval" where
  "memory_get d k = (case dget d k of None \<Rightarrow> PyNone | Some v \<Rightarrow> v)"

definition memory_put :: "string \<Rightarrow> 'v pyval \<Rightarrow> 'v memory \<Rightarrow> ('x merr + unit) \<times> 'v memory" where
  "memory_put k v d = (Inr (), dput k v d)"

definition memory_delete :: "string \<Rightarrow> 'v memory \<Rightarrow> bool \<times> 'v memory" where
  "memory_delete k d = (if dget d k \<noteq> None then (True, ddel k d) else (False, d))"

definition memory_exists :: "'v memory \<Rightarrow> string \<Rightarrow> bool" where
  "memory_exists d k \<longleftrightarrow> dget d k \<noteq> None"

definition memory_clear :: "'v memory \<Rightarrow> 'v memory" where
  "memory_clear d = []"

subsection \<open>SQLite\<close>

text \<open>\<open>sq_rows\<close> is the table \<open>cache\<close>, whose primary key is the key; \<open>sq_reads\<close> counts the calls of \<open>time.time\<close>.\<close>

record 'b sq_row =
  sq_value :: 'b
  sq_created :: rat
  sq_updated :: rat

record 'b sqlite =
  sq_rows :: "(string, 'b sq_row) dict"
  sq_reads :: nat

definition sqlite_get :: "('b \<Rightarrow> 'v pyval) \<Rightarrow> 'b sqlite \<Rightarrow> string \<Rightarrow> 'v pyval" where
  "sqlite_get unpickle d k = (case dget (sq_rows d) k of None \<Rightarrow> PyNone | Some r \<Rightarrow> unpickle (sq_value r))"

definition sqlite_put ::
    "('v pyval \<Rightarrow> 'b option) \<Rightarrow> (nat \<Rightarrow> rat) \<Rightarrow> string \<Rightarrow> 'v pyval \<Rightarrow> 'b sqlite \<Rightarrow> ('x merr + unit) \<times> 'b sqlite" where
  "sqlite_put pickle clock k v d =
     (let now = clock (sq_reads d); d = d\<lparr>sq_reads := sq_reads d + 1\<rparr>
      in case pickle v of
           None \<Rightarrow> (Inl MPickling, d)
         | Some blob \<Rightarrow>
             (Inr (),
              d\<lparr>sq_rows :=
                  (case dget (sq_rows d) k of
                     None \<Rightarrow> dput k \<lparr>sq_value = blob, sq_created = now, sq_updated = now\<rparr> (sq_rows d)
                   | Some r \<Rightarrow> dput k (r\<lparr>sq_value := blob, sq_updated := now\<rparr>) (sq_rows d))\<rparr>))"

definition sqlite_delete :: "string \<Rightarrow> 'b sqlite \<Rightarrow> bool \<times> 'b sqlite" where
  "sqlite_delete k d =
     (length (filter (\<lambda>r. fst r = k) (sq_rows d)) > 0, d\<lparr>sq_rows := filter (\<lambda>r. fst r \<noteq> k) (sq_rows d)\<rparr>)"

definition sqlite_exists :: "'b sqlite \<Rightarrow> string \<Rightarrow> bool" where
  "sqlite_exists d k \<longleftrightarrow> dget (sq_rows d) k \<noteq> None"

definition sqlite_clear :: "'b sqlite \<Rightarrow> 'b sqlite" where
  "sqlite_clear d = d\<lparr>sq_rows := []\<rparr>"

subsection \<open>A storage of either kind\<close>

datatype ('v, 'b) store = Memory "'v memory" | Sqlite "'b sqlite"

record ('v, 'b) pickler =
  pk_dumps :: "'v pyval \<Rightarrow> 'b option"
  pk_loads :: "'b \<Rightarrow> 'v pyval"
  pk_clock :: "nat \<Rightarrow> rat"

definition store_get :: "('v, 'b) pickler \<Rightarrow> ('v, 'b) store \<Rightarrow> string \<Rightarrow> 'v pyval" where
  "store_get P st k = (case st of Memory d \<Rightarrow> memory_get d k | Sqlite d \<Rightarrow> sqlite_get (pk_loads P) d k)"

definition store_put ::
    "('v, 'b) pickler \<Rightarrow> string \<Rightarrow> 'v pyval \<Rightarrow> ('v, 'b) store \<Rightarrow> ('x merr + unit) \<times> ('v, 'b) store" where
  "store_put P k v st =
     (case st of
        Memory d \<Rightarrow> map_prod id Memory (memory_put k v d)
      | Sqlite d \<Rightarrow> map_prod id Sqlite (sqlite_put (pk_dumps P) (pk_clock P) k v d))"

definition store_delete :: "string \<Rightarrow> ('v, 'b) store \<Rightarrow> bool \<times> ('v, 'b) store" where
  "store_delete k st =
     (case st of
        Memory d \<Rightarrow> map_prod id Memory (memory_delete k d)
      | Sqlite d \<Rightarrow> map_prod id Sqlite (sqlite_delete k d))"

definition store_exists :: "('v, 'b) store \<Rightarrow> string \<Rightarrow> bool" where
  "store_exists st k = (case st of Memory d \<Rightarrow> memory_exists d k | Sqlite d \<Rightarrow> sqlite_exists d k)"

section \<open>Runs\<close>

text \<open>
  The storages, the number of storage calls so far, and the effects that reached the handlers
  outside the memo handlers.
\<close>

record ('v, 'b, 'e) memo_state =
  mm_stores :: "('v, 'b) store list"
  mm_tick :: nat
  mm_performed :: "'e list"

type_synonym ('v, 'b, 'e, 'x, 'a) memo_py = "('x merr, ('v, 'b, 'e) memo_state, 'a) py"

type_synonym ('v, 'b) others = "nat \<Rightarrow> ('v, 'b) store list \<Rightarrow> ('v, 'b) store list"

definition storage_call ::
    "('v, 'b) others \<Rightarrow> nat \<Rightarrow> (('v, 'b) store \<Rightarrow> ('x merr + 'a) \<times> ('v, 'b) store) \<Rightarrow> ('v, 'b, 'e, 'x, 'a) memo_py" where
  "storage_call env i op s =
     (let sts = env (mm_tick s) (mm_stores s)
      in case op (sts ! i) of (r, st) \<Rightarrow> (r, s\<lparr>mm_stores := sts[i := st], mm_tick := mm_tick s + 1\<rparr>))"

definition call_exists :: "('v, 'b) others \<Rightarrow> nat \<Rightarrow> string \<Rightarrow> ('v, 'b, 'e, 'x, bool) memo_py" where
  "call_exists env i k = storage_call env i (\<lambda>st. (Inr (store_exists st k), st))"

definition call_get :: "('v, 'b) pickler \<Rightarrow> ('v, 'b) others \<Rightarrow> nat \<Rightarrow> string \<Rightarrow> ('v, 'b, 'e, 'x, 'v pyval) memo_py" where
  "call_get P env i k = storage_call env i (\<lambda>st. (Inr (store_get P st k), st))"

definition call_put ::
    "('v, 'b) pickler \<Rightarrow> ('v, 'b) others \<Rightarrow> nat \<Rightarrow> string \<Rightarrow> 'v pyval \<Rightarrow> ('v, 'b, 'e, 'x, unit) memo_py" where
  "call_put P env i k v = storage_call env i (store_put P k v)"

definition call_delete :: "('v, 'b) others \<Rightarrow> nat \<Rightarrow> string \<Rightarrow> ('v, 'b, 'e, 'x, bool) memo_py" where
  "call_delete env i k = storage_call env i (\<lambda>st. case store_delete k st of (b, st') \<Rightarrow> (Inr b, st'))"

text \<open>\<open>except UnhandledEffect\<close> and \<open>except KeyError\<close>\<close>

definition on_unhandled :: "('x merr, 's, 'a) py \<Rightarrow> ('x merr, 's, 'a) py \<Rightarrow> ('x merr, 's, 'a) py" where
  "on_unhandled m alt s = (case m s of (Inl MUnhandled, s') \<Rightarrow> alt s' | r \<Rightarrow> r)"

definition on_key_error :: "('x merr, 's, 'a) py \<Rightarrow> ('x merr, 's, 'a) py \<Rightarrow> ('x merr, 's, 'a) py" where
  "on_key_error m alt s = (case m s of (Inl MKeyError, s') \<Rightarrow> alt s' | r \<Rightarrow> r)"

text \<open>What the handlers outside answer; the answer is one of the effect.\<close>

definition perform_outside :: "('e \<Rightarrow> 'x + 'v pyval) \<Rightarrow> 'e \<Rightarrow> ('v, 'b, 'e, 'x, 'v pyval) memo_py" where
  "perform_outside answer e s =
     (map_sum MOther id (answer e), s\<lparr>mm_performed := mm_performed s @ [e]\<rparr>)"

section \<open>The cache handler\<close>

text \<open>A key is a string, or an object that is digested.\<close>

datatype 'o memo_key = StrKey string | ObjKey 'o

definition storage_key :: "('o \<Rightarrow> string) \<Rightarrow> 'o memo_key \<Rightarrow> string" where
  "storage_key digest key = (case key of StrKey s \<Rightarrow> s | ObjKey ob \<Rightarrow> ''sha256:'' @ digest ob)"

datatype ('o, 'v) cache_effect =
    CacheExists "'o memo_key"
  | CacheGet "'o memo_key"
  | CacheDelete "'o memo_key"
  | CachePut "'o memo_key" "'v pyval"

datatype 'v cache_answer = AnsBool bool | AnsVal "'v pyval"

text \<open>The storage of the cache handler is the first one.\<close>

fun cache_handler ::
    "('v, 'b) pickler \<Rightarrow> ('o \<Rightarrow> string) \<Rightarrow> ('v, 'b) others \<Rightarrow> ('o, 'v) cache_effect \<Rightarrow>
     ('v, 'b, 'e, 'x, 'v cache_answer) memo_py" where
  "cache_handler P digest env (CacheExists key) =
     py_bind (call_exists env 0 (storage_key digest key)) (\<lambda>b. py_ret (AnsBool b))"
| "cache_handler P digest env (CacheGet key) =
     py_bind (call_get P env 0 (storage_key digest key)) (\<lambda>v.
       if v = PyNone
       then py_bind (call_exists env 0 (storage_key digest key)) (\<lambda>b.
              if \<not> b then py_raise MKeyError else py_ret (AnsVal v))
       else py_ret (AnsVal v))"
| "cache_handler P digest env (CacheDelete key) =
     py_bind (call_delete env 0 (storage_key digest key)) (\<lambda>_. py_ret (AnsVal PyNone))"
| "cache_handler P digest env (CachePut key v) =
     py_bind (call_put P env 0 (storage_key digest key) v) (\<lambda>_. py_ret (AnsVal PyNone))"

text \<open>\<open>make_memo_rewriter\<close> of \<open>cache_handlers.py\<close>: \<open>key_fn\<close> gives strings.\<close>

definition cache_rewrite ::
    "('v, 'b) pickler \<Rightarrow> ('v, 'b) others \<Rightarrow> ('e \<Rightarrow> string) \<Rightarrow> ('e \<Rightarrow> 'x + 'v pyval) \<Rightarrow> 'e \<Rightarrow>
     ('v, 'b, 'e, 'x, 'v pyval) memo_py" where
  "cache_rewrite P env key_fn answer e =
     (let key = StrKey (key_fn e); handler = cache_handler P (\<lambda>_::unit. []) env
      in py_bind (handler (CacheExists key)) (\<lambda>b.
         py_bind
           (if b = AnsBool True
            then on_key_error (py_bind (handler (CacheGet key)) (\<lambda>v. py_ret (Some v))) (py_ret None)
            else py_ret None) (\<lambda>cached.
           case cached of
             Some (AnsVal v) \<Rightarrow> py_ret v
           | _ \<Rightarrow>
               py_bind (perform_outside answer e) (\<lambda>v.
               py_bind (handler (CachePut key v)) (\<lambda>_. py_ret v)))))"

section \<open>Memo layers\<close>

datatype recompute_cost = Cheap | Expensive | Irreproducible

definition matches_cost :: "recompute_cost \<Rightarrow> recompute_cost option \<Rightarrow> bool" where
  "matches_cost effect_cost handler_cost =
     (case handler_cost of
        None \<Rightarrow> True
      | Some c \<Rightarrow> if c = Expensive then effect_cost \<in> {Expensive, Irreproducible} else effect_cost = c)"

text \<open>
  The handlers between the program and the outside, innermost first: the position of a
  layer's storage and its cost filter. An effect no layer handles is unhandled.
\<close>

type_synonym layers = "(nat \<times> recompute_cost option) list"

fun layer_exists :: "('v, 'b) others \<Rightarrow> layers \<Rightarrow> recompute_cost \<Rightarrow> string \<Rightarrow> ('v, 'b, 'e, 'x, bool) memo_py" where
  "layer_exists env [] c k = py_raise MUnhandled"
| "layer_exists env ((i, lc) # ls) c k =
     (if matches_cost c lc
      then py_bind (call_exists env i k) (\<lambda>b.
             if b then py_ret True else on_unhandled (layer_exists env ls c k) (py_ret False))
      else layer_exists env ls c k)"

fun layer_get ::
    "('v, 'b) pickler \<Rightarrow> ('v, 'b) others \<Rightarrow> layers \<Rightarrow> recompute_cost \<Rightarrow> string \<Rightarrow> ('v, 'b, 'e, 'x, 'v pyval) memo_py" where
  "layer_get P env [] c k = py_raise MUnhandled"
| "layer_get P env ((i, lc) # ls) c k =
     (if matches_cost c lc
      then py_bind (call_exists env i k) (\<lambda>b.
             if b then call_get P env i k
             else
               py_bind (on_unhandled (layer_get P env ls c k) (py_raise MKeyError)) (\<lambda>outer.
               py_bind (call_put P env i k outer) (\<lambda>_. py_ret outer)))
      else layer_get P env ls c k)"

fun layer_put ::
    "('v, 'b) pickler \<Rightarrow> ('v, 'b) others \<Rightarrow> layers \<Rightarrow> recompute_cost \<Rightarrow> string \<Rightarrow> 'v pyval \<Rightarrow>
     ('v, 'b, 'e, 'x, unit) memo_py" where
  "layer_put P env [] c k v = py_raise MUnhandled"
| "layer_put P env ((i, lc) # ls) c k v =
     (if matches_cost c lc
      then py_bind (call_put P env i k v) (\<lambda>_. on_unhandled (layer_put P env ls c k v) (py_ret ()))
      else layer_put P env ls c k v)"

fun layer_delete :: "('v, 'b) others \<Rightarrow> layers \<Rightarrow> recompute_cost \<Rightarrow> string \<Rightarrow> ('v, 'b, 'e, 'x, unit) memo_py" where
  "layer_delete env [] c k = py_raise MUnhandled"
| "layer_delete env ((i, lc) # ls) c k =
     (if matches_cost c lc
      then py_bind (call_delete env i k) (\<lambda>_. on_unhandled (layer_delete env ls c k) (py_ret ()))
      else layer_delete env ls c k)"

text \<open>The two \<open>try\<close> blocks shared by the rewriter and the decorator: \<open>None\<close> is a miss.\<close>

definition memo_lookup ::
    "('v, 'b) pickler \<Rightarrow> ('v, 'b) others \<Rightarrow> layers \<Rightarrow> recompute_cost \<Rightarrow> string \<Rightarrow> ('v, 'b, 'e, 'x, 'v pyval option) memo_py" where
  "memo_lookup P env ls c k =
     on_unhandled
       (py_bind (layer_exists env ls c k) (\<lambda>b.
          if b
          then on_key_error (py_bind (layer_get P env ls c k) (\<lambda>v. py_ret (Some v))) (py_ret None)
          else py_ret None))
       (py_ret None)"

definition memo_store ::
    "('v, 'b) pickler \<Rightarrow> ('v, 'b) others \<Rightarrow> layers \<Rightarrow> recompute_cost \<Rightarrow> string \<Rightarrow> 'v pyval \<Rightarrow> ('v, 'b, 'e, 'x, unit) memo_py" where
  "memo_store P env ls c k v = on_unhandled (layer_put P env ls c k v) (py_ret ())"

text \<open>\<open>make_memo_rewriter\<close> of \<open>memo_handlers.py\<close>\<close>

definition memo_rewrite ::
    "('v, 'b) pickler \<Rightarrow> ('v, 'b) others \<Rightarrow> layers \<Rightarrow> recompute_cost \<Rightarrow> ('e \<Rightarrow> string) \<Rightarrow> ('e \<Rightarrow> 'x + 'v pyval) \<Rightarrow> 'e \<Rightarrow>
     ('v, 'b, 'e, 'x, 'v pyval) memo_py" where
  "memo_rewrite P env ls cost key_fn answer e =
     py_bind (memo_lookup P env ls cost (key_fn e)) (\<lambda>cached.
       case cached of
         Some v \<Rightarrow> py_ret v
       | None \<Rightarrow>
           py_bind (perform_outside answer e) (\<lambda>v.
           py_bind (memo_store P env ls cost (key_fn e) v) (\<lambda>_. py_ret v)))"

text \<open>A call of a function with the decorator \<open>cache\<close>: it looks up at the default cost and stores at that of its policy.\<close>

definition cached_fn ::
    "('v, 'b) pickler \<Rightarrow> ('v, 'b) others \<Rightarrow> layers \<Rightarrow> recompute_cost \<Rightarrow> ('o \<Rightarrow> string) \<Rightarrow> ('e \<Rightarrow> 'o memo_key) \<Rightarrow>
     ('e \<Rightarrow> 'x + 'v pyval) \<Rightarrow> 'e \<Rightarrow> ('v, 'b, 'e, 'x, 'v pyval) memo_py" where
  "cached_fn P env ls policy_cost digest key_func answer e =
     (let k = storage_key digest (key_func e)
      in py_bind (memo_lookup P env ls Cheap k) (\<lambda>cached.
           case cached of
             Some v \<Rightarrow> py_ret v
           | None \<Rightarrow>
               py_bind (perform_outside answer e) (\<lambda>result.
               py_bind (memo_store P env ls policy_cost k result) (\<lambda>_. py_ret result))))"

section \<open>Programs\<close>

text \<open>A program sees the answer of each effect, or the exception.\<close>

datatype ('e, 'v, 'x, 'r) mprog =
    MReturn 'r
  | MPerform 'e "'x merr + 'v pyval \<Rightarrow> ('e, 'v, 'x, 'r) mprog"

primrec mrun ::
    "('e \<Rightarrow> ('v, 'b, 'e, 'x, 'v pyval) memo_py) \<Rightarrow> ('e, 'v, 'x, 'r) mprog \<Rightarrow> ('v, 'b, 'e) memo_state \<Rightarrow>
     'r \<times> ('v, 'b, 'e) memo_state" where
  "mrun handle (MReturn r) s = (r, s)"
| "mrun handle (MPerform e f) s = (case handle e s of (r, s') \<Rightarrow> mrun handle (f r) s')"

text \<open>\<open>isinstance(effect, effect_type)\<close>: other effects are passed on.\<close>

definition for_effects ::
    "('e \<Rightarrow> bool) \<Rightarrow> ('e \<Rightarrow> ('v, 'b, 'e, 'x, 'v pyval) memo_py) \<Rightarrow> ('e \<Rightarrow> 'x + 'v pyval) \<Rightarrow> 'e \<Rightarrow>
     ('v, 'b, 'e, 'x, 'v pyval) memo_py" where
  "for_effects is_type rewrite answer e = (if is_type e then rewrite e else perform_outside answer e)"

section \<open>Policies\<close>

datatype lifecycle = Transient | Session | Persistent

datatype policy_error = PolicyValueError | PolicyTypeError

record memo_policy =
  mp_cost :: recompute_cost
  mp_lifecycle :: lifecycle
  mp_ttl :: "rat option"
  mp_metadata :: "(string \<times> string) list"

datatype 'm member_arg = Member 'm | MemberText string

definition cost_of_text :: "string \<Rightarrow> policy_error + recompute_cost" where
  "cost_of_text s =
     (if s = ''cheap'' then Inr Cheap else if s = ''expensive'' then Inr Expensive
      else if s = ''irreproducible'' then Inr Irreproducible else Inl PolicyValueError)"

definition normalize_recompute_cost :: "recompute_cost member_arg option \<Rightarrow> policy_error + recompute_cost" where
  "normalize_recompute_cost v =
     (case v of None \<Rightarrow> Inr Cheap | Some (Member c) \<Rightarrow> Inr c | Some (MemberText s) \<Rightarrow> cost_of_text s)"

definition lifecycle_of_text :: "string \<Rightarrow> policy_error + lifecycle" where
  "lifecycle_of_text s =
     (if s = ''transient'' then Inr Transient else if s = ''session'' then Inr Session
      else if s = ''persistent'' then Inr Persistent else Inl PolicyValueError)"

definition normalize_lifecycle :: "lifecycle member_arg option \<Rightarrow> policy_error + lifecycle" where
  "normalize_lifecycle v =
     (case v of None \<Rightarrow> Inr Transient | Some (Member c) \<Rightarrow> Inr c | Some (MemberText s) \<Rightarrow> lifecycle_of_text s)"

datatype metadata_arg = MetaMapping "(string \<times> string) list" | MetaOther

text \<open>The keyword arguments; a policy may be given as a mapping of keyword arguments, in which others are refused.\<close>

datatype memo_kwargs =
    MemoKwargs "recompute_cost member_arg option" "rat option" "lifecycle member_arg option" "metadata_arg option"
      "memo_policy_arg option"
and memo_policy_arg = GivenPolicy memo_policy | PolicyMapping memo_kwargs | UnknownKeyword | OtherPolicy

fun ensure_memo_policy :: "memo_kwargs \<Rightarrow> policy_error + memo_policy" where
  "ensure_memo_policy (MemoKwargs c t l m (Some p)) =
     (if c \<noteq> None \<or> t \<noteq> None \<or> l \<noteq> None \<or> m \<noteq> None then Inl PolicyValueError
      else
        case p of
          GivenPolicy pol \<Rightarrow> Inr pol
        | PolicyMapping kw \<Rightarrow> ensure_memo_policy kw
        | UnknownKeyword \<Rightarrow> Inl PolicyTypeError
        | OtherPolicy \<Rightarrow> Inl PolicyTypeError)"
| "ensure_memo_policy (MemoKwargs c t l m None) =
     (case normalize_recompute_cost c of
        Inl e \<Rightarrow> Inl e
      | Inr cost \<Rightarrow>
          (case normalize_lifecycle l of
             Inl e \<Rightarrow> Inl e
           | Inr life \<Rightarrow>
               (case m of
                  Some MetaOther \<Rightarrow> Inl PolicyTypeError
                | None \<Rightarrow> Inr \<lparr>mp_cost = cost, mp_lifecycle = life, mp_ttl = t, mp_metadata = []\<rparr>
                | Some (MetaMapping md) \<Rightarrow> Inr \<lparr>mp_cost = cost, mp_lifecycle = life, mp_ttl = t, mp_metadata = md\<rparr>)))"

end
