(* ===== verification/Memo_Facts.thy ===== *)
theory Memo_Facts
  imports Memo "HOL-Library.Sublist"
begin

text \<open>
  Every storage is a map; memoisation does not change what a program computes, and asks
  the handlers outside once for each key.
\<close>

section \<open>What a storage promises\<close>

text \<open>\<open>stored st v\<close> is what \<open>v\<close> reads as after it was stored.\<close>

locale storage =
  fixes get :: "'s \<Rightarrow> string \<Rightarrow> 'v pyval"
    and put :: "string \<Rightarrow> 'v pyval \<Rightarrow> 's \<Rightarrow> ('x merr + unit) \<times> 's"
    and delete :: "string \<Rightarrow> 's \<Rightarrow> bool \<times> 's"
    and has :: "'s \<Rightarrow> string \<Rightarrow> bool"
    and clear :: "'s \<Rightarrow> 's"
    and look :: "'s \<Rightarrow> string \<Rightarrow> 'v pyval option"
    and stored :: "'s \<Rightarrow> 'v pyval \<Rightarrow> ('v pyval) option"
  assumes get_look: "get st k = (case look st k of None \<Rightarrow> PyNone | Some v \<Rightarrow> v)"
    and has_look: "has st k \<longleftrightarrow> look st k \<noteq> None"
    and put_look: "stored st v = Some w \<Longrightarrow> \<exists>st'. put k v st = (Inr (), st') \<and> look st' = (look st)(k \<mapsto> w)"
    and put_refused: "stored st v = None \<Longrightarrow> \<exists>st'. put k v st = (Inl MPickling, st') \<and> look st' = look st"
    and delete_look: "\<exists>st'. delete k st = (look st k \<noteq> None, st') \<and> look st' = (look st)(k := None)"
    and clear_look: "look (clear st) = (\<lambda>_. None)"
begin

lemma get_after_put: "stored st v = Some v \<Longrightarrow> get (snd (put k v st)) k = v"
  using put_look [of st v v k] by (auto simp: get_look)

lemma has_after_put: "stored st v \<noteq> None \<Longrightarrow> has (snd (put k v st)) k"
  using put_look [of st v _ k] by (auto simp: has_look)

lemma deleted_is_gone: "\<not> has (snd (delete k st)) k"
  using delete_look [of k st] by (auto simp: has_look)

lemma other_keys_stay: "k' \<noteq> k \<Longrightarrow> get (snd (put k v st)) k' = get st k'"
  using put_look [of st v _ k] put_refused [of st v k] by (cases "stored st v") (auto simp: get_look)

end

definition sqlite_look :: "('b \<Rightarrow> 'v pyval) \<Rightarrow> 'b sqlite \<Rightarrow> string \<Rightarrow> 'v pyval option" where
  "sqlite_look unpickle d k = map_option (\<lambda>r. unpickle (sq_value r)) (dget (sq_rows d) k)"

interpretation memory: storage memory_get memory_put memory_delete memory_exists memory_clear dget "\<lambda>_. Some"
  by unfold_locales
    (auto simp: memory_get_def memory_put_def memory_delete_def memory_exists_def memory_clear_def)

interpretation sqlite: storage "sqlite_get (pk_loads P)" "sqlite_put (pk_dumps P) (pk_clock P)" sqlite_delete sqlite_exists
    sqlite_clear "sqlite_look (pk_loads P)" "\<lambda>_ v. map_option (pk_loads P) (pk_dumps P v)" for P
proof
  show "\<exists>st'. sqlite_put (pk_dumps P) (pk_clock P) k v st = (Inr (), st') \<and>
      sqlite_look (pk_loads P) st' = (sqlite_look (pk_loads P) st)(k \<mapsto> w)"
    if "map_option (pk_loads P) (pk_dumps P v) = Some w" for st v w k
    using that by (auto simp: sqlite_put_def sqlite_look_def Let_def fun_eq_iff split: option.splits)
  show "\<exists>st'. sqlite_delete k st = (sqlite_look (pk_loads P) st k \<noteq> None, st') \<and>
      sqlite_look (pk_loads P) st' = (sqlite_look (pk_loads P) st)(k := None)" for k st
    by (auto simp: sqlite_delete_def sqlite_look_def fun_eq_iff dget_filter_keys [of "\<lambda>x. x \<noteq> k"] filter_empty_conv
        map_of_eq_None_iff)
qed (auto simp: sqlite_get_def sqlite_look_def sqlite_exists_def sqlite_clear_def sqlite_put_def Let_def split: option.splits)

definition store_look :: "('v, 'b) pickler \<Rightarrow> ('v, 'b) store \<Rightarrow> string \<Rightarrow> 'v pyval option" where
  "store_look P st k = (case st of Memory d \<Rightarrow> dget d k | Sqlite d \<Rightarrow> sqlite_look (pk_loads P) d k)"

definition store_stored :: "('v, 'b) pickler \<Rightarrow> ('v, 'b) store \<Rightarrow> 'v pyval \<Rightarrow> 'v pyval option" where
  "store_stored P st v = (case st of Memory d \<Rightarrow> Some v | Sqlite d \<Rightarrow> map_option (pk_loads P) (pk_dumps P v))"

definition store_clear :: "('v, 'b) store \<Rightarrow> ('v, 'b) store" where
  "store_clear st = (case st of Memory d \<Rightarrow> Memory (memory_clear d) | Sqlite d \<Rightarrow> Sqlite (sqlite_clear d))"

lemma store_look_simps:
  "store_look P (Memory d) = dget d" "store_look P (Sqlite d') = sqlite_look (pk_loads P) d'"
  by (simp_all add: fun_eq_iff store_look_def)

interpretation st: storage "store_get P" "store_put P :: string \<Rightarrow> 'v pyval \<Rightarrow> ('v, 'b) store \<Rightarrow> ('x merr + unit) \<times> ('v, 'b) store"
    store_delete store_exists store_clear "store_look P" "store_stored P" for P
proof
  fix s :: "('v, 'b) store" and k v w
  show "store_get P s k = (case store_look P s k of None \<Rightarrow> PyNone | Some v \<Rightarrow> v)"
    by (cases s) (simp_all add: store_get_def store_look_def memory.get_look sqlite.get_look)
  show "store_exists s k \<longleftrightarrow> store_look P s k \<noteq> None"
    by (cases s) (simp_all add: store_exists_def store_look_def memory.has_look sqlite.has_look [where P = P])
  show "\<exists>s'. store_put P k v s = (Inr (), s') \<and> store_look P s' = (store_look P s)(k \<mapsto> w)"
    if w: "store_stored P s v = Some w"
  proof (cases s)
    case (Memory d)
    then show ?thesis using w by (simp add: store_put_def memory_put_def store_stored_def store_look_simps fun_eq_iff)
  next
    case (Sqlite d)
    then show ?thesis
      using w
      by (auto simp: store_put_def sqlite_put_def store_stored_def store_look_simps sqlite_look_def Let_def fun_eq_iff
          split: option.splits)
  qed
  show "\<exists>s'. store_put P k v s = (Inl MPickling, s') \<and> store_look P s' = store_look P s"
    if w: "store_stored P s v = None"
  proof (cases s)
    case (Memory d)
    then show ?thesis using w by (simp add: store_stored_def)
  next
    case (Sqlite d)
    then show ?thesis
      using w
      by (auto simp: store_put_def sqlite_put_def store_stored_def store_look_simps sqlite_look_def Let_def fun_eq_iff
          split: option.splits)
  qed
  show "\<exists>s'. store_delete k s = (store_look P s k \<noteq> None, s') \<and> store_look P s' = (store_look P s)(k := None)"
  proof (cases s)
    case (Memory d)
    obtain d' where "memory_delete k d = (dget d k \<noteq> None, d')" "dget d' = (dget d)(k := None)"
      using memory.delete_look [of k d] by blast
    then show ?thesis by (simp add: Memory store_delete_def store_look_simps)
  next
    case (Sqlite d)
    obtain d' where "sqlite_delete k d = (sqlite_look (pk_loads P) d k \<noteq> None, d')"
        "sqlite_look (pk_loads P) d' = (sqlite_look (pk_loads P) d)(k := None)"
      using sqlite.delete_look [of k d P] by blast
    then show ?thesis by (simp add: Sqlite store_delete_def store_look_simps)
  qed
  show "store_look P (store_clear s) = (\<lambda>_. None)"
    by (cases s) (simp_all add: store_clear_def store_look_simps memory.clear_look sqlite.clear_look)
qed

section \<open>Storages hold right values\<close>

text \<open>
  \<open>good k v\<close>: \<open>v\<close> may stand under \<open>k\<close>. A state has \<open>n\<close> storages with good values, the effects \<open>p\<close> were
  performed, and for every \<open>(ls, k)\<close> of \<open>K\<close> a layer of \<open>ls\<close> that handles the cost \<open>c\<close> has \<open>k\<close>.
\<close>

definition holds_good :: "('v, 'b) pickler \<Rightarrow> (string \<Rightarrow> 'v pyval \<Rightarrow> bool) \<Rightarrow> ('v, 'b) store list \<Rightarrow> bool" where
  "holds_good P good sts \<longleftrightarrow> (\<forall>st \<in> set sts. \<forall>k v. store_look P st k = Some v \<longrightarrow> good k v)"

definition found :: "('v, 'b) pickler \<Rightarrow> layers \<Rightarrow> recompute_cost \<Rightarrow> ('v, 'b) store list \<Rightarrow> string \<Rightarrow> bool" where
  "found P ls c sts k \<longleftrightarrow> (\<exists>(i, lc) \<in> set ls. matches_cost c lc \<and> i < length sts \<and> store_look P (sts ! i) k \<noteq> None)"

definition stands ::
    "('v, 'b) pickler \<Rightarrow> (string \<Rightarrow> 'v pyval \<Rightarrow> bool) \<Rightarrow> nat \<Rightarrow> recompute_cost \<Rightarrow> (layers \<times> string) set \<Rightarrow> 'e list \<Rightarrow>
     ('v, 'b, 'e) memo_state \<Rightarrow> bool" where
  "stands P good n c K p s \<longleftrightarrow>
     length (mm_stores s) = n \<and> holds_good P good (mm_stores s) \<and> mm_performed s = p \<and>
     (\<forall>(ls, k) \<in> K. found P ls c (mm_stores s) k)"

text \<open>What others may do: store good values, and remove none; or, for the cache, remove values and store none.\<close>

definition only_adds :: "('v, 'b) pickler \<Rightarrow> (string \<Rightarrow> 'v pyval \<Rightarrow> bool) \<Rightarrow> nat \<Rightarrow> ('v, 'b) others \<Rightarrow> bool" where
  "only_adds P good n env \<longleftrightarrow>
     (\<forall>t sts. length sts = n \<longrightarrow> holds_good P good sts \<longrightarrow>
        length (env t sts) = n \<and> holds_good P good (env t sts) \<and>
        (\<forall>i < n. \<forall>k. store_look P (sts ! i) k \<noteq> None \<longrightarrow> store_look P (env t sts ! i) k \<noteq> None))"

definition only_removes :: "('v, 'b) pickler \<Rightarrow> ('v, 'b) others \<Rightarrow> bool" where
  "only_removes P env \<longleftrightarrow>
     (\<forall>t sts. length (env t sts) = length sts \<and>
        (\<forall>i < length sts. \<forall>k v. store_look P (env t sts ! i) k = Some v \<longrightarrow> store_look P (sts ! i) k = Some v))"

lemma holds_good_nth: "holds_good P good sts \<Longrightarrow> i < length sts \<Longrightarrow> store_look P (sts ! i) k = Some v \<Longrightarrow> good k v"
  using nth_mem unfolding holds_good_def by blast

lemma holds_good_update:
  "holds_good P good sts \<Longrightarrow> (\<And>k v. store_look P st k = Some v \<Longrightarrow> good k v) \<Longrightarrow> holds_good P good (sts[i := st])"
  by (auto simp: holds_good_def dest!: set_update_subset_insert [THEN subsetD])

text \<open>A storage call, after which the storages look as \<open>look'\<close> says.\<close>

lemma triple_storage_call:
  assumes "only_adds P good n env" and "i < n"
    and op: "\<And>sts. length sts = n \<Longrightarrow> holds_good P good sts \<Longrightarrow> \<exists>x st. op (sts ! i) = (Inr x, st) \<and> R x (sts ! i) st \<and>
      (\<forall>k v. store_look P st k = Some v \<longrightarrow> good k v) \<and> (\<forall>k. store_look P (sts ! i) k \<noteq> None \<longrightarrow> store_look P st k \<noteq> None)"
  shows "triple (\<lambda>s. stands P good n c K p s \<and> (\<forall>k \<in> H. store_look P (mm_stores s ! i) k \<noteq> None)) (storage_call env i op)
    (\<lambda>x s. stands P good n c K p s \<and> (\<exists>st. R x st (mm_stores s ! i) \<and> (\<forall>k \<in> H. store_look P st k \<noteq> None) \<and>
       (\<forall>k v. store_look P st k = Some v \<longrightarrow> good k v))) (\<lambda>_ _. False)"
proof (rule tripleI)
  fix s assume s: "stands P good n c K p s \<and> (\<forall>k \<in> H. store_look P (mm_stores s ! i) k \<noteq> None)"
  let ?sts = "env (mm_tick s) (mm_stores s)"
  have env: "length ?sts = n" "holds_good P good ?sts"
      "\<And>j k. j < n \<Longrightarrow> store_look P (mm_stores s ! j) k \<noteq> None \<Longrightarrow> store_look P (?sts ! j) k \<noteq> None"
    using assms(1) s unfolding only_adds_def stands_def by blast+
  obtain x st where op': "op (?sts ! i) = (Inr x, st)" "R x (?sts ! i) st"
      "\<And>k v. store_look P st k = Some v \<Longrightarrow> good k v" "\<And>k. store_look P (?sts ! i) k \<noteq> None \<Longrightarrow> store_look P st k \<noteq> None"
    using op [OF env(1,2)] by blast
  have call: "storage_call env i op s = (Inr x, s\<lparr>mm_stores := ?sts[i := st], mm_tick := mm_tick s + 1\<rparr>)"
    by (simp add: storage_call_def op'(1) Let_def)
  show False if "storage_call env i op s = (Inl e, s')" for e s' using that call by simp
  fix x' s' assume "storage_call env i op s = (Inr x', s')"
  then have x': "x' = x" and s': "s' = s\<lparr>mm_stores := ?sts[i := st], mm_tick := mm_tick s + 1\<rparr>" using call by simp_all
  have "found P ls c (mm_stores s') k" if "(ls, k) \<in> K" for ls k
  proof -
    have "length (mm_stores s) = n" "found P ls c (mm_stores s) k" using s that by (auto simp: stands_def)
    then obtain j lc where j: "(j, lc) \<in> set ls" "matches_cost c lc" "j < n" "store_look P (mm_stores s ! j) k \<noteq> None"
      by (auto simp: found_def)
    have "store_look P (?sts[i := st] ! j) k \<noteq> None"
      using env(1) env(3) [OF j(3,4)] op'(4) j(3) by (cases "j = i") simp_all
    then show ?thesis using j(1-3) env(1) unfolding found_def s' by auto
  qed
  moreover have "holds_good P good (?sts[i := st])" by (rule holds_good_update [OF env(2) op'(3)])
  ultimately have "stands P good n c K p s'" using s env(1) unfolding stands_def s' by auto
  moreover have "\<forall>k \<in> H. store_look P (?sts ! i) k \<noteq> None" using s env(3) assms(2) by blast
  moreover have "R x (?sts ! i) (mm_stores s' ! i)" using op'(2) env(1) assms(2) by (simp add: s')
  moreover have "\<forall>k v. store_look P (?sts ! i) k = Some v \<longrightarrow> good k v" using env(1,2) assms(2) holds_good_nth by blast
  ultimately show "stands P good n c K p s' \<and> (\<exists>st. R x' st (mm_stores s' ! i) \<and> (\<forall>k \<in> H. store_look P st k \<noteq> None) \<and>
       (\<forall>k v. store_look P st k = Some v \<longrightarrow> good k v))"
    unfolding x' by blast
qed

text \<open>\<open>v\<close> survives being stored.\<close>

definition faithful :: "('v, 'b) pickler \<Rightarrow> 'v pyval \<Rightarrow> bool" where
  "faithful P v \<longleftrightarrow> map_option (pk_loads P) (pk_dumps P v) = Some v"

lemma faithful_stored: "faithful P v \<Longrightarrow> store_stored P st v = Some v"
  by (cases st) (simp_all add: store_stored_def faithful_def)

text \<open>Good values survive.\<close>

definition keeps_good :: "('v, 'b) pickler \<Rightarrow> (string \<Rightarrow> 'v pyval \<Rightarrow> bool) \<Rightarrow> bool" where
  "keeps_good P good \<longleftrightarrow> (\<forall>k v. good k v \<longrightarrow> faithful P v)"

lemma triple_exists:
  assumes "only_adds P good n env" and "i < n"
  shows "triple (\<lambda>s. stands P good n c K p s \<and> (\<forall>k \<in> H. store_look P (mm_stores s ! i) k \<noteq> None)) (call_exists env i k)
    (\<lambda>b s. stands P good n c K p s \<and> (b \<longleftrightarrow> store_look P (mm_stores s ! i) k \<noteq> None) \<and> (k \<in> H \<longrightarrow> b)) (\<lambda>_ _. False)"
  unfolding call_exists_def
  by (rule triple_weaken [OF triple_storage_call [OF assms, where R = "\<lambda>b st st'. st' = st \<and> (b \<longleftrightarrow> store_look P st k \<noteq> None)"]])
    (use assms(2) in \<open>auto simp: st.has_look [of _ _ P] dest: holds_good_nth\<close>)

lemma triple_get:
  assumes "only_adds P good n env" and "i < n"
  shows "triple (\<lambda>s. stands P good n c K p s \<and> store_look P (mm_stores s ! i) k \<noteq> None) (call_get P env i k)
    (\<lambda>v s. stands P good n c K p s \<and> good k v) (\<lambda>_ _. False)"
  unfolding call_get_def
  by (rule triple_weaken [OF triple_storage_call [OF assms, where R = "\<lambda>v st st'. v = store_get P st k" and H = "{k}"]])
    (use assms(2) in \<open>auto simp: st.get_look dest: holds_good_nth\<close>)

lemma triple_put:
  assumes "only_adds P good n env" and "i < n" and "good k v" and "keeps_good P good"
  shows "triple (stands P good n c K p) (call_put P env i k v :: ('v, 'b, 'e, 'x, unit) memo_py)
    (\<lambda>_ s. stands P good n c K p s \<and> store_look P (mm_stores s ! i) k \<noteq> None) (\<lambda>_ _. False)"
proof -
  have "\<exists>x st. (store_put P k v (sts ! i) :: ('x merr + unit) \<times> ('v, 'b) store) = (Inr x, st) \<and> store_look P st k \<noteq> None \<and>
      (\<forall>k v. store_look P st k = Some v \<longrightarrow> good k v) \<and> (\<forall>k. store_look P (sts ! i) k \<noteq> None \<longrightarrow> store_look P st k \<noteq> None)"
    if "length sts = n" "holds_good P good sts" for sts
  proof -
    have "faithful P v" using assms(3,4) by (simp add: keeps_good_def)
    from st.put_look [OF faithful_stored [OF this], of k "sts ! i"] obtain st where
      "(store_put P k v (sts ! i) :: ('x merr + unit) \<times> ('v, 'b) store) = (Inr (), st)" "store_look P st = (store_look P (sts ! i))(k \<mapsto> v)" by blast
    then show ?thesis using that assms(2,3) holds_good_nth [OF that(2)] by auto
  qed
  from triple_storage_call [OF assms(1,2) this, where H = "{}"] show ?thesis
    unfolding call_put_def by (rule triple_weaken) auto
qed

section \<open>Layers\<close>

lemma triple_on_unhandled:
  assumes "triple P m Q (\<lambda>e s. if e = MUnhandled then R s else E e s)" and "triple R alt Q E"
  shows "triple P (on_unhandled m alt) Q E"
  unfolding triple_def on_unhandled_def
proof (intro allI impI)
  fix s assume s: "P s"
  obtain r s' where m: "m s = (r, s')" by force
  show "case case m s of (Inl MUnhandled, s') \<Rightarrow> alt s' | r \<Rightarrow> r of (Inl e, s') \<Rightarrow> E e s' | (Inr x, s') \<Rightarrow> Q x s'"
  proof (cases r)
    case (Inl e)
    then have "if e = MUnhandled then R s' else E e s'" using triple_Inl [OF assms(1) s] m by simp
    then show ?thesis using assms(2) by (cases e) (simp_all add: m Inl triple_def)
  next
    case (Inr x)
    then show ?thesis using triple_Inr [OF assms(1) s] m by simp
  qed
qed

lemma triple_on_key_error:
  assumes "triple P m Q (\<lambda>e s. if e = MKeyError then R s else E e s)" and "triple R alt Q E"
  shows "triple P (on_key_error m alt) Q E"
  unfolding triple_def on_key_error_def
proof (intro allI impI)
  fix s assume s: "P s"
  obtain r s' where m: "m s = (r, s')" by force
  show "case case m s of (Inl MKeyError, s') \<Rightarrow> alt s' | r \<Rightarrow> r of (Inl e, s') \<Rightarrow> E e s' | (Inr x, s') \<Rightarrow> Q x s'"
  proof (cases r)
    case (Inl e)
    then have "if e = MKeyError then R s' else E e s'" using triple_Inl [OF assms(1) s] m by simp
    then show ?thesis using assms(2) by (cases e) (simp_all add: m Inl triple_def)
  next
    case (Inr x)
    then show ?thesis using triple_Inr [OF assms(1) s] m by simp
  qed
qed

definition layers_ok :: "nat \<Rightarrow> layers \<Rightarrow> bool" where
  "layers_ok n ls \<longleftrightarrow> (\<forall>(i, lc) \<in> set ls. i < n)"

lemma found_Cons:
  "found P ((i, lc) # ls) c sts k \<longleftrightarrow>
     matches_cost c lc \<and> i < length sts \<and> store_look P (sts ! i) k \<noteq> None \<or> found P ls c sts k"
  by (auto simp: found_def)

lemma stands_length: "stands P good n c K p s \<Longrightarrow> length (mm_stores s) = n"
  by (simp add: stands_def)

lemma stands_insert: "stands P good n c (insert (ls, k) K) p s \<longleftrightarrow> stands P good n c K p s \<and> found P ls c (mm_stores s) k"
  by (auto simp: stands_def)

text \<open>What \<open>(x # ls, k) \<in> K\<close> says when \<open>x\<close> has not got \<open>k\<close>.\<close>

definition onward :: "layers \<Rightarrow> (nat \<times> recompute_cost option) \<Rightarrow> string \<Rightarrow> (layers \<times> string) set \<Rightarrow> (layers \<times> string) set" where
  "onward ls x k K = (if (x # ls, k) \<in> K then insert (ls, k) K else K)"

lemma stands_onward:
  assumes "stands P good n c K p s" and "\<not> (matches_cost c lc \<and> store_look P (mm_stores s ! i) k \<noteq> None)"
  shows "stands P good n c (onward ls (i, lc) k K) p s"
  using assms by (auto simp: onward_def stands_insert found_Cons stands_def dest!: bspec [of K _ "((i, lc) # ls, k)"])

lemma stands_back: "stands P good n c (onward ls x k K) p s \<Longrightarrow> stands P good n c K p s"
  by (auto simp: onward_def stands_insert split: if_splits)

lemma onward_in: "(ls, k) \<notin> onward ls x k K \<Longrightarrow> (x # ls, k) \<notin> K"
  by (auto simp: onward_def split: if_splits)

lemma triple_layer_exists:
  assumes "only_adds P good n env"
  shows "layers_ok n ls \<Longrightarrow> triple (stands P good n c K p) (layer_exists env ls c k :: ('v, 'b, 'e, 'x, bool) memo_py)
    (\<lambda>b s. stands P good n c K p s \<and> ((ls, k) \<in> K \<longrightarrow> b)) (\<lambda>e s. e = MUnhandled \<and> (ls, k) \<notin> K \<and> stands P good n c K p s)"
proof (induction ls arbitrary: K)
  case Nil
  then show ?case by (auto intro!: triple_raise simp: stands_def found_def)
next
  case (Cons x ls)
  obtain i lc where x: "x = (i, lc)" by force
  have ok: "layers_ok n ls" "i < n" using Cons.prems by (auto simp: layers_ok_def x)
  let ?K = "onward ls x k K" and ?m = "layer_exists env ls c k :: ('v, 'b, 'e, 'x, bool) memo_py"
  let ?Q = "\<lambda>b (s :: ('v, 'b, 'e) memo_state). stands P good n c K p s \<and> ((x # ls, k) \<in> K \<longrightarrow> b)"
  let ?E = "\<lambda>(e :: 'x merr) (s :: ('v, 'b, 'e) memo_state). e = MUnhandled \<and> (x # ls, k) \<notin> K \<and> stands P good n c K p s"
  have onward: "stands P good n c ?K p s"
    if "stands P good n c K p s" "\<not> (matches_cost c lc \<and> store_look P (mm_stores s ! i) k \<noteq> None)" for s :: "('v, 'b, 'e) memo_state"
    using stands_onward [OF that, of ls] by (simp add: x)
  have IH: "triple (stands P good n c ?K p) ?m ?Q ?E"
    by (rule triple_weaken [OF Cons.IH [OF ok(1), where K = ?K]]) (auto dest: stands_back onward_in simp: onward_def stands_insert split: if_splits)
  show ?case
  proof (cases "matches_cost c lc")
    case False
    have "triple (stands P good n c K p) ?m ?Q ?E"
      by (rule triple_weaken [OF IH]) (use False onward in auto)
    then show ?thesis using False by (simp add: x)
  next
    case True
    have "triple (stands P good n c K p) (call_exists env i k)
        (\<lambda>b s. stands P good n c K p s \<and> (b \<longleftrightarrow> store_look P (mm_stores s ! i) k \<noteq> None)) ?E"
      by (rule triple_weaken [OF triple_exists [OF assms ok(2), where H = "{}"]]) auto
    moreover have "triple (\<lambda>s. stands P good n c K p s \<and> (b \<longleftrightarrow> store_look P (mm_stores s ! i) k \<noteq> None))
        (if b then py_ret True else on_unhandled ?m (py_ret False)) ?Q ?E" for b
    proof (cases b)
      case True
      then show ?thesis by (auto intro: triple_ret)
    next
      case False
      have "triple (stands P good n c ?K p) (on_unhandled ?m (py_ret False)) ?Q ?E"
        by (rule triple_on_unhandled [OF triple_weaken [OF IH], where R = "\<lambda>s. (x # ls, k) \<notin> K \<and> stands P good n c K p s"])
          (auto intro: triple_ret)
      then have "triple (\<lambda>s. stands P good n c K p s \<and> store_look P (mm_stores s ! i) k = None) (on_unhandled ?m (py_ret False)) ?Q ?E"
        by (rule triple_weaken) (use onward in auto)
      then show ?thesis using False by simp
    qed
    ultimately show ?thesis unfolding x layer_exists.simps using True by (simp only: if_True) (rule triple_bind)
  qed
qed

lemma triple_pull: "(G \<Longrightarrow> triple P m Q E) \<Longrightarrow> triple (\<lambda>s. P s \<and> G) m Q E"
  by (auto simp: triple_def)

lemma triple_write_through:
  assumes "only_adds P good n env" and "i < n" and "keeps_good P good"
  shows "triple (\<lambda>s. stands P good n c K p s \<and> good k v)
    (py_bind (call_put P env i k v) (\<lambda>_. py_ret v) :: ('v, 'b, 'e, 'x, 'v pyval) memo_py)
    (\<lambda>v s. stands P good n c K p s \<and> good k v) E"
proof (rule triple_pull)
  assume good: "good k v"
  show "triple (stands P good n c K p) (py_bind (call_put P env i k v) (\<lambda>_. py_ret v) :: ('v, 'b, 'e, 'x, 'v pyval) memo_py)
    (\<lambda>v s. stands P good n c K p s \<and> good k v) E"
  proof (rule triple_bind)
    show "triple (stands P good n c K p) (call_put P env i k v :: ('v, 'b, 'e, 'x, unit) memo_py) (\<lambda>_. stands P good n c K p) E"
      by (rule triple_weaken [OF triple_put [OF assms(1,2) good assms(3)]]) auto
  qed (auto intro: triple_ret simp: good)
qed

lemma triple_layer_get:
  assumes "only_adds P good n env" and "keeps_good P good"
  shows "layers_ok n ls \<Longrightarrow> triple (stands P good n c K p) (layer_get P env ls c k :: ('v, 'b, 'e, 'x, 'v pyval) memo_py)
    (\<lambda>v s. stands P good n c K p s \<and> good k v)
    (\<lambda>e s. (e = MUnhandled \<or> e = MKeyError) \<and> (ls, k) \<notin> K \<and> stands P good n c K p s)"
proof (induction ls arbitrary: K)
  case Nil
  then show ?case by (auto intro!: triple_raise simp: stands_def found_def)
next
  case (Cons x ls)
  obtain i lc where x: "x = (i, lc)" by force
  have ok: "layers_ok n ls" "i < n" using Cons.prems by (auto simp: layers_ok_def x)
  let ?K = "onward ls x k K" and ?m = "layer_get P env ls c k :: ('v, 'b, 'e, 'x, 'v pyval) memo_py"
  let ?Q = "\<lambda>v (s :: ('v, 'b, 'e) memo_state). stands P good n c K p s \<and> good k v"
  let ?E = "\<lambda>(e :: 'x merr) (s :: ('v, 'b, 'e) memo_state). (e = MUnhandled \<or> e = MKeyError) \<and> (x # ls, k) \<notin> K \<and> stands P good n c K p s"
  have onward: "stands P good n c ?K p s"
    if "stands P good n c K p s" "\<not> (matches_cost c lc \<and> store_look P (mm_stores s ! i) k \<noteq> None)" for s :: "('v, 'b, 'e) memo_state"
    using stands_onward [OF that, of ls] by (simp add: x)
  have IH: "triple (stands P good n c ?K p) ?m ?Q ?E"
    by (rule triple_weaken [OF Cons.IH [OF ok(1), where K = ?K]]) (auto dest: stands_back onward_in simp: onward_def stands_insert split: if_splits)
  show ?case
  proof (cases "matches_cost c lc")
    case False
    have "triple (stands P good n c K p) ?m ?Q ?E"
      by (rule triple_weaken [OF IH]) (use False onward in auto)
    then show ?thesis using False by (simp add: x)
  next
    case True
    let ?miss = "py_bind (on_unhandled ?m (py_raise MKeyError)) (\<lambda>outer. py_bind (call_put P env i k outer) (\<lambda>_. py_ret outer))"
    have "triple (stands P good n c K p) (call_exists env i k)
        (\<lambda>b s. stands P good n c K p s \<and> (b \<longleftrightarrow> store_look P (mm_stores s ! i) k \<noteq> None)) ?E"
      by (rule triple_weaken [OF triple_exists [OF assms(1) ok(2), where H = "{}"]]) auto
    moreover have "triple (\<lambda>s. stands P good n c K p s \<and> (b \<longleftrightarrow> store_look P (mm_stores s ! i) k \<noteq> None))
        (if b then call_get P env i k else ?miss) ?Q ?E" for b
    proof (cases b)
      case True
      then show ?thesis by (simp, intro triple_weaken [OF triple_get [OF assms(1) ok(2), where K = K]]) auto
    next
      case False
      have "triple (stands P good n c ?K p) (on_unhandled ?m (py_raise MKeyError)) ?Q ?E"
        by (rule triple_on_unhandled [OF triple_weaken [OF IH], where R = "\<lambda>s. (x # ls, k) \<notin> K \<and> stands P good n c K p s"])
          (auto intro: triple_raise)
      then have "triple (stands P good n c ?K p) ?miss ?Q ?E"
        by (rule triple_bind) (rule triple_write_through [OF assms(1) ok(2) assms(2)])
      then have "triple (\<lambda>s. stands P good n c K p s \<and> store_look P (mm_stores s ! i) k = None) ?miss ?Q ?E"
        by (rule triple_weaken) (use onward in auto)
      then show ?thesis using False by simp
    qed
    ultimately show ?thesis unfolding x layer_get.simps using True by (simp only: if_True) (rule triple_bind)
  qed
qed

definition handled :: "layers \<Rightarrow> recompute_cost \<Rightarrow> bool" where
  "handled ls c \<longleftrightarrow> (\<exists>(i, lc) \<in> set ls. matches_cost c lc)"

lemma triple_layer_put:
  assumes "only_adds P good n env" and "keeps_good P good" and "good k v"
  shows "layers_ok n ls \<Longrightarrow> triple (stands P good n c K p) (layer_put P env ls c k v :: ('v, 'b, 'e, 'x, unit) memo_py)
    (\<lambda>_. stands P good n c (insert (ls, k) K) p) (\<lambda>e s. e = MUnhandled \<and> \<not> handled ls c \<and> stands P good n c K p s)"
proof (induction ls arbitrary: K)
  case Nil
  then show ?case by (auto intro!: triple_raise simp: handled_def)
next
  case (Cons x ls)
  obtain i lc where x: "x = (i, lc)" by force
  have ok: "layers_ok n ls" "i < n" using Cons.prems by (auto simp: layers_ok_def x)
  let ?m = "layer_put P env ls c k v :: ('v, 'b, 'e, 'x, unit) memo_py"
  let ?K = "insert (x # ls, k) K"
  show ?case
  proof (cases "matches_cost c lc")
    case False
    have "triple (stands P good n c K p) ?m (\<lambda>_. stands P good n c ?K p)
        (\<lambda>e s. e = MUnhandled \<and> \<not> handled (x # ls) c \<and> stands P good n c K p s)"
      by (rule triple_weaken [OF Cons.IH [OF ok(1), where K = K]]) (use False in \<open>auto simp: stands_insert found_Cons handled_def x\<close>)
    then show ?thesis using False by (simp add: x)
  next
    case True
    have "triple (stands P good n c K p) (call_put P env i k v) (\<lambda>_. stands P good n c ?K p)
        (\<lambda>e s. e = MUnhandled \<and> \<not> handled (x # ls) c \<and> stands P good n c K p s)"
      by (rule triple_weaken [OF triple_put [OF assms(1) ok(2) assms(3,2)]])
        (use True ok(2) stands_length in \<open>fastforce simp: stands_insert found_Cons x\<close>)+
    moreover have "triple (stands P good n c ?K p) (on_unhandled ?m (py_ret ())) (\<lambda>_. stands P good n c ?K p) E" for E
      by (rule triple_on_unhandled [OF triple_weaken [OF Cons.IH [OF ok(1), where K = ?K]], where R = "stands P good n c ?K p"])
        (auto intro: triple_ret simp: stands_insert [of P good n c ls])
    ultimately show ?thesis unfolding x layer_put.simps using True by (simp only: if_True) (rule triple_bind)
  qed
qed

section \<open>Memoised effects\<close>

lemma triple_memo_lookup:
  assumes "only_adds P good n env" and "keeps_good P good" and "layers_ok n ls"
  shows "triple (stands P good n c K p) (memo_lookup P env ls c k :: ('v, 'b, 'e, 'x, 'v pyval option) memo_py)
    (\<lambda>r s. stands P good n c K p s \<and> (\<forall>v. r = Some v \<longrightarrow> good k v) \<and> ((ls, k) \<in> K \<longrightarrow> r \<noteq> None)) (\<lambda>_ _. False)"
    (is "triple ?S _ ?Q _")
proof -
  let ?R = "\<lambda>s :: ('v, 'b, 'e) memo_state. (ls, k) \<notin> K \<and> stands P good n c K p s"
  let ?get = "py_bind (layer_get P env ls c k) (\<lambda>v. py_ret (Some v)) :: ('v, 'b, 'e, 'x, 'v pyval option) memo_py"
  have got: "triple ?S ?get ?Q (\<lambda>e s. (e = MUnhandled \<or> e = MKeyError) \<and> ?R s)"
    by (rule triple_bind [OF triple_layer_get [OF assms, where K = K]]) (auto intro: triple_ret)
  have get: "triple ?S (on_key_error ?get (py_ret None)) ?Q (\<lambda>e s. e = MUnhandled \<and> ?R s)"
    by (rule triple_on_key_error [OF triple_weaken [OF got], where R = ?R]) (auto intro: triple_ret)
  have rest: "triple (\<lambda>s. ?S s \<and> ((ls, k) \<in> K \<longrightarrow> b)) (if b then on_key_error ?get (py_ret None) else py_ret None) ?Q
      (\<lambda>e s. e = MUnhandled \<and> ?R s)" for b
  proof (cases b)
    case True
    show ?thesis unfolding if_P [OF True] by (rule triple_weaken [OF get]) simp_all
  next
    case False
    then show ?thesis by (auto intro: triple_ret)
  qed
  have seen: "triple ?S (layer_exists env ls c k) (\<lambda>b s. ?S s \<and> ((ls, k) \<in> K \<longrightarrow> b)) (\<lambda>e s. e = MUnhandled \<and> ?R s)"
    by (rule triple_weaken [OF triple_layer_exists [OF assms(1,3), where K = K]]) simp_all
  show ?thesis
    unfolding memo_lookup_def
    by (rule triple_on_unhandled [OF triple_weaken [OF triple_bind [OF seen rest]], where R = ?R]) (auto intro: triple_ret)
qed

lemma triple_memo_store:
  assumes "only_adds P good n env" and "keeps_good P good" and "layers_ok n ls" and "good k v"
  shows "triple (stands P good n c K p) (memo_store P env ls c k v :: ('v, 'b, 'e, 'x, unit) memo_py)
    (\<lambda>_. stands P good n c (if handled ls c then insert (ls, k) K else K) p) (\<lambda>_ _. False)"
  unfolding memo_store_def
  by (rule triple_on_unhandled [OF triple_weaken [OF triple_layer_put [OF assms(1,2,4,3), where K = K]],
        where R = "\<lambda>s. \<not> handled ls c \<and> stands P good n c K p s"])
    (auto intro: triple_ret simp: stands_insert)

lemma triple_perform:
  "triple (stands P good n c K p) (perform_outside answer e :: ('v, 'b, 'e, 'x, 'v pyval) memo_py)
    (\<lambda>v s. stands P good n c K (p @ [e]) s \<and> answer e = Inr v) (\<lambda>x s. stands P good n c K (p @ [e]) s \<and> (\<exists>y. answer e = Inl y \<and> x = MOther y))"
  by (rule tripleI; cases "answer e") (auto simp: perform_outside_def stands_def)

text \<open>Looking up, and computing and storing when that misses.\<close>

lemma triple_memo_rewrite:
  assumes "only_adds P good n env" and "keeps_good P good" and "layers_ok n ls"
    and good: "\<And>v. answer e = Inr v \<Longrightarrow> good (key_fn e) v"
  shows "triple (stands P good n c K p) (memo_rewrite P env ls c key_fn answer e :: ('v, 'b, 'e, 'x, 'v pyval) memo_py)
    (\<lambda>v s. good (key_fn e) v \<and> (stands P good n c K p s \<or>
       answer e = Inr v \<and> (ls, key_fn e) \<notin> K \<and> stands P good n c (if handled ls c then insert (ls, key_fn e) K else K) (p @ [e]) s))
    (\<lambda>x s. stands P good n c K (p @ [e]) s \<and> (\<exists>y. answer e = Inl y \<and> x = MOther y))"
    (is "triple ?S _ ?Q ?E")
proof -
  let ?store = "\<lambda>v. py_bind (memo_store P env ls c (key_fn e) v) (\<lambda>_. py_ret v) :: ('v, 'b, 'e, 'x, 'v pyval) memo_py"
  have store: "triple (\<lambda>s. stands P good n c K (p @ [e]) s \<and> answer e = Inr v) (?store v) ?Q ?E" if "(ls, key_fn e) \<notin> K" for v
  proof (rule triple_pull)
    assume v: "answer e = Inr v"
    from good [OF this] have g: "good (key_fn e) v" .
    show "triple (stands P good n c K (p @ [e])) (?store v) ?Q ?E"
      by (rule triple_bind [OF triple_weaken [OF triple_memo_store [OF assms(1-3) g]],
            where R = "\<lambda>_. stands P good n c (if handled ls c then insert (ls, key_fn e) K else K) (p @ [e])"])
        (auto intro: triple_ret simp: g v that)
  qed
  have miss: "triple ?S (py_bind (perform_outside answer e) ?store) ?Q ?E" if "(ls, key_fn e) \<notin> K"
    by (rule triple_bind, rule triple_perform, rule store [OF that])
  have rest: "triple (\<lambda>s. ?S s \<and> (\<forall>v. r = Some v \<longrightarrow> good (key_fn e) v) \<and> ((ls, key_fn e) \<in> K \<longrightarrow> r \<noteq> None))
      (case r of Some v \<Rightarrow> py_ret v | None \<Rightarrow> py_bind (perform_outside answer e) ?store) ?Q ?E" for r
  proof (cases r)
    case None
    show ?thesis
    proof (cases "(ls, key_fn e) \<in> K")
      case True
      then show ?thesis by (simp add: None triple_def)
    next
      case False
      show ?thesis unfolding None option.case by (rule triple_weaken [OF miss [OF False]]) simp_all
    qed
  next
    case (Some v)
    then show ?thesis by (auto intro: triple_ret)
  qed
  have looked: "triple ?S (memo_lookup P env ls c (key_fn e))
      (\<lambda>r s. ?S s \<and> (\<forall>v. r = Some v \<longrightarrow> good (key_fn e) v) \<and> ((ls, key_fn e) \<in> K \<longrightarrow> r \<noteq> None)) ?E"
    by (rule triple_weaken [OF triple_memo_lookup [OF assms(1-3), where K = K]]) simp_all
  show ?thesis unfolding memo_rewrite_def by (rule triple_bind [OF looked rest])
qed

section \<open>Programs\<close>

text \<open>
  A handler is transparent when it gives the answer of the outside; the effects it performs
  itself are counted by the index of the invariant.
\<close>

definition transparent ::
    "('e list \<Rightarrow> ('v, 'b, 'e) memo_state \<Rightarrow> bool) \<Rightarrow> ('e \<Rightarrow> ('v, 'b, 'e, 'x, 'v pyval) memo_py) \<Rightarrow> ('e \<Rightarrow> 'x + 'v pyval) \<Rightarrow> bool" where
  "transparent I handle answer \<longleftrightarrow>
     (\<forall>e p. triple (I p) (handle e) (\<lambda>v s. answer e = Inr v \<and> (I p s \<or> I (p @ [e]) s))
        (\<lambda>x s. I (p @ [e]) s \<and> (\<exists>y. answer e = Inl y \<and> x = MOther y)))"

lemma transparent_step:
  assumes "transparent I handle answer" and "I p s" and "handle e s = (x, s')"
  shows "x = map_sum MOther id (answer e) \<and> (I p s' \<or> I (p @ [e]) s')"
proof (cases x)
  case (Inl y)
  have t: "triple (I p) (handle e) (\<lambda>v s. answer e = Inr v \<and> (I p s \<or> I (p @ [e]) s))
      (\<lambda>x s. I (p @ [e]) s \<and> (\<exists>y. answer e = Inl y \<and> x = MOther y))"
    using assms(1) by (simp add: transparent_def)
  from triple_Inl [OF t assms(2) assms(3) [unfolded Inl]] show ?thesis by (auto simp: Inl)
next
  case (Inr v)
  have t: "triple (I p) (handle e) (\<lambda>v s. answer e = Inr v \<and> (I p s \<or> I (p @ [e]) s))
      (\<lambda>x s. I (p @ [e]) s \<and> (\<exists>y. answer e = Inl y \<and> x = MOther y))"
    using assms(1) by (simp add: transparent_def)
  from triple_Inr [OF t assms(2) assms(3) [unfolded Inr]] show ?thesis by (simp add: Inr)
qed

lemma outside: "perform_outside answer e t = (map_sum MOther id (answer e), t\<lparr>mm_performed := mm_performed t @ [e]\<rparr>)"
  by (simp add: perform_outside_def)

lemma transparent_run:
  assumes "transparent I handle answer"
  shows "I p s \<Longrightarrow> mrun handle prog s = (r, s') \<Longrightarrow> mrun (perform_outside answer) prog t = (r', t') \<Longrightarrow>
    r = r' \<and> (\<exists>d d'. I (p @ d) s' \<and> mm_performed t' = mm_performed t @ d' \<and> subseq d d')"
proof (induction prog arbitrary: p s t)
  case (MReturn v)
  then show ?case by (auto intro!: exI [of _ "[]"])
next
  case (MPerform e f)
  obtain x s1 where h: "handle e s = (x, s1)" by force
  from transparent_step [OF assms MPerform.prems(1) h] have x: "x = map_sum MOther id (answer e)"
    and "I p s1 \<or> I (p @ [e]) s1" by simp_all
  then obtain d where d: "I (p @ d) s1" "subseq d [e]" by (metis append_Nil2 list_emb_Nil subseq_order.refl)
  let ?t = "t\<lparr>mm_performed := mm_performed t @ [e]\<rparr>"
  have "mrun handle (f x) s1 = (r, s')" "mrun (perform_outside answer) (f x) ?t = (r', t')"
    using MPerform.prems(2,3) outside [of answer e t] by (simp_all add: h x)
  from MPerform.IH [OF rangeI d(1) this] obtain d1 d2 where
    rest: "r = r'" "I ((p @ d) @ d1) s'" "mm_performed t' = (mm_performed t @ [e]) @ d2" "subseq d1 d2" by auto
  have "subseq (d @ d1) (e # d2)" using list_emb_append_mono [OF d(2) rest(4)] by simp
  then show ?case using rest by (intro conjI exI [of _ "d @ d1"] exI [of _ "e # d2"]) simp_all
qed

text \<open>What may stand under a key: the answer of every effect with this key.\<close>

definition right_value ::
    "('v, 'b) pickler \<Rightarrow> ('e \<Rightarrow> bool) \<Rightarrow> ('e \<Rightarrow> string) \<Rightarrow> ('e \<Rightarrow> 'x + 'v pyval) \<Rightarrow> string \<Rightarrow> 'v pyval \<Rightarrow> bool" where
  "right_value P is_type key_fn answer k v \<longleftrightarrow> faithful P v \<and> (\<forall>e. is_type e \<and> key_fn e = k \<longrightarrow> answer e = Inr v)"

text \<open>Answers can be stored, and effects with the same key have the same answer.\<close>

definition memoisable :: "('v, 'b) pickler \<Rightarrow> ('e \<Rightarrow> bool) \<Rightarrow> ('e \<Rightarrow> string) \<Rightarrow> ('e \<Rightarrow> 'x + 'v pyval) \<Rightarrow> bool" where
  "memoisable P is_type key_fn answer \<longleftrightarrow>
     (\<forall>e v. is_type e \<longrightarrow> answer e = Inr v \<longrightarrow> faithful P v) \<and>
     (\<forall>e e'. is_type e \<longrightarrow> is_type e' \<longrightarrow> key_fn e = key_fn e' \<longrightarrow> answer e = answer e')"

lemma right_answer:
  "memoisable P is_type key_fn answer \<Longrightarrow> is_type e \<Longrightarrow> answer e = Inr v \<Longrightarrow> right_value P is_type key_fn answer (key_fn e) v"
  unfolding memoisable_def right_value_def by metis

lemma right_value_answer: "right_value P is_type key_fn answer (key_fn e) v \<Longrightarrow> is_type e \<Longrightarrow> answer e = Inr v"
  by (simp add: right_value_def)

lemma keeps_right: "keeps_good P (right_value P is_type key_fn answer)"
  by (simp add: keeps_good_def right_value_def)

text \<open>The effects of the type that the outside answered.\<close>

definition answered :: "('e \<Rightarrow> bool) \<Rightarrow> ('e \<Rightarrow> 'x + 'v pyval) \<Rightarrow> 'e list \<Rightarrow> 'e list" where
  "answered is_type answer p = filter (\<lambda>e. is_type e \<and> (\<exists>v. answer e = Inr v)) p"

definition known_keys where
  "known_keys ls c is_type key_fn answer p =
     (if handled ls c then (\<lambda>e. (ls, key_fn e)) ` set (answered is_type answer p) else {})"

definition memo_inv ::
    "('v, 'b) pickler \<Rightarrow> nat \<Rightarrow> layers \<Rightarrow> recompute_cost \<Rightarrow> ('e \<Rightarrow> bool) \<Rightarrow> ('e \<Rightarrow> string) \<Rightarrow> ('e \<Rightarrow> 'x + 'v pyval) \<Rightarrow> 'e list \<Rightarrow>
     ('v, 'b, 'e) memo_state \<Rightarrow> bool" where
  "memo_inv P n ls c is_type key_fn answer p s \<longleftrightarrow>
     stands P (right_value P is_type key_fn answer) n c (known_keys ls c is_type key_fn answer p) p s \<and>
     (handled ls c \<longrightarrow> distinct (map key_fn (answered is_type answer p)))"

lemma memo_transparent:
  assumes "only_adds P (right_value P is_type key_fn answer) n env" and "layers_ok n ls"
    and memo: "memoisable P is_type key_fn answer"
  shows "transparent (memo_inv P n ls c is_type key_fn answer)
    (for_effects is_type (memo_rewrite P env ls c key_fn answer) answer :: 'e \<Rightarrow> ('v, 'b, 'e, 'x, 'v pyval) memo_py) answer"
  unfolding transparent_def
proof (intro allI)
  fix e :: 'e and p :: "'e list"
  let ?I = "memo_inv P n ls c is_type key_fn answer" and ?good = "right_value P is_type key_fn answer"
    and ?K = "known_keys ls c is_type key_fn answer"
    and ?D = "handled ls c \<longrightarrow> distinct (map key_fn (answered is_type answer p))"
  let ?Q = "\<lambda>v s. answer e = Inr v \<and> (?I p s \<or> ?I (p @ [e]) s)"
  let ?E = "\<lambda>(x :: 'x merr) s. ?I (p @ [e]) s \<and> (\<exists>y. answer e = Inl y \<and> x = MOther y)"
  have append: "answered is_type answer (p @ [e]) = answered is_type answer p @ answered is_type answer [e]"
    by (simp add: answered_def)
  have other: "?I (p @ [e]) s"
    if "stands P ?good n c (?K p) (p @ [e]) s" "?D" "answered is_type answer [e] = []" for s :: "('v, 'b, 'e) memo_state"
    using that by (cases "handled ls c") (simp_all add: memo_inv_def known_keys_def append)
  have new: "?I (p @ [e]) s"
    if "stands P ?good n c (if handled ls c then insert (ls, key_fn e) (?K p) else ?K p) (p @ [e]) s" "?D"
      "(ls, key_fn e) \<notin> ?K p" "is_type e" "answer e = Inr v" for s :: "('v, 'b, 'e) memo_state" and v
  proof -
    have "answered is_type answer [e] = [e]" using that(4,5) by (simp add: answered_def)
    then show ?thesis using that(1-3) by (auto simp: memo_inv_def known_keys_def append image_iff split: if_splits)
  qed
  have "triple (\<lambda>s. stands P ?good n c (?K p) p s \<and> ?D) (for_effects is_type (memo_rewrite P env ls c key_fn answer) answer e) ?Q ?E"
  proof (rule triple_pull)
    assume D: "?D"
    show "triple (stands P ?good n c (?K p) p) (for_effects is_type (memo_rewrite P env ls c key_fn answer) answer e) ?Q ?E"
    proof (cases "is_type e")
      case True
      note rewritten = triple_memo_rewrite [where key_fn = key_fn and answer = answer and e = e and K = "?K p" and p = p and c = c,
          OF assms(1) keeps_right assms(2) right_answer [OF memo True]]
      have "triple (stands P ?good n c (?K p) p) (memo_rewrite P env ls c key_fn answer e) ?Q ?E"
      proof (rule triple_weaken [OF rewritten])
        fix v :: "'v pyval" and s :: "('v, 'b, 'e) memo_state"
        assume post: "?good (key_fn e) v \<and> (stands P ?good n c (?K p) p s \<or> answer e = Inr v \<and> (ls, key_fn e) \<notin> ?K p \<and>
          stands P ?good n c (if handled ls c then insert (ls, key_fn e) (?K p) else ?K p) (p @ [e]) s)"
        then have "answer e = Inr v" using True by (simp add: right_value_def)
        moreover have "?I p s" if "stands P ?good n c (?K p) p s" using that D by (simp add: memo_inv_def)
        ultimately show "?Q v s" using post new [OF _ D _ True] by blast
      next
        fix x :: "'x merr" and s :: "('v, 'b, 'e) memo_state"
        assume post: "stands P ?good n c (?K p) (p @ [e]) s \<and> (\<exists>y. answer e = Inl y \<and> x = MOther y)"
        then have "answered is_type answer [e] = []" by (auto simp: answered_def)
        then show "?E x s" using post other D by blast
      qed
      then show ?thesis using True by (simp add: for_effects_def)
    next
      case False
      have "triple (stands P ?good n c (?K p) p) (perform_outside answer e) ?Q ?E"
        by (rule triple_weaken [OF triple_perform [where K = "?K p" and p = p]]) (use other [OF _ D] False in \<open>auto simp: answered_def\<close>)
      then show ?thesis using False by (simp add: for_effects_def)
    qed
  qed
  then show "triple (?I p) (for_effects is_type (memo_rewrite P env ls c key_fn answer) answer e) ?Q ?E"
    by (rule triple_weaken) (simp_all add: memo_inv_def)
qed

text \<open>
  C39: Memoisation is transparent and computes once. The hypotheses: effects with equal keys have equal answers, which survive
  being stored; every layer has its storage, and the storages hold right values to begin with; other tasks may store right values
  before any storage call, but remove none. Then a program whose effects of one type are memoised returns what it returns without memoisation, what reaches the outside is a
  subsequence of what it performs, and when some layer handles the cost, no key is answered twice.
\<close>

theorem memoised_programs_agree:
  assumes "memoisable P is_type key_fn answer" and "only_adds P (right_value P is_type key_fn answer) (length (mm_stores s)) env"
    and "layers_ok (length (mm_stores s)) ls" and "holds_good P (right_value P is_type key_fn answer) (mm_stores s)"
    and "mm_performed s = []" and "mm_performed t = []"
    and "mrun (for_effects is_type (memo_rewrite P env ls c key_fn answer) answer) prog s = (r, s')"
    and "mrun (perform_outside answer) prog t = (r', t')"
  shows "r = r' \<and> subseq (mm_performed s') (mm_performed t') \<and>
    (handled ls c \<longrightarrow> distinct (map key_fn (answered is_type answer (mm_performed s'))))"
proof -
  have "memo_inv P (length (mm_stores s)) ls c is_type key_fn answer [] s"
    using assms(4,5) by (simp add: memo_inv_def stands_def known_keys_def answered_def)
  from transparent_run [OF memo_transparent [OF assms(2,3,1)] this assms(7,8)] show ?thesis
    using assms(6) by (auto simp: memo_inv_def stands_def)
qed

section \<open>The cache handler\<close>

text \<open>Others may remove values at any time, also between \<open>CacheExists\<close> and \<open>CacheGet\<close>.\<close>

definition cache_inv ::
    "('v, 'b) pickler \<Rightarrow> (string \<Rightarrow> 'v pyval \<Rightarrow> bool) \<Rightarrow> 'e list \<Rightarrow> ('v, 'b, 'e) memo_state \<Rightarrow> bool" where
  "cache_inv P good p s \<longleftrightarrow> mm_stores s \<noteq> [] \<and> holds_good P good (mm_stores s) \<and> mm_performed s = p"

lemma holds_good_removed:
  assumes "only_removes P env" and "holds_good P good sts"
  shows "holds_good P good (env t sts)"
  unfolding holds_good_def
proof (intro ballI allI impI)
  fix st k v assume "st \<in> set (env t sts)" "store_look P st k = Some v"
  then obtain i where "i < length (env t sts)" "store_look P (env t sts ! i) k = Some v" by (auto simp: in_set_conv_nth)
  moreover have "length (env t sts) = length sts" using assms(1) by (simp add: only_removes_def)
  ultimately have "i < length sts" "store_look P (sts ! i) k = Some v" using assms(1) unfolding only_removes_def by metis+
  then show "good k v" using holds_good_nth [OF assms(2)] by blast
qed

text \<open>\<open>at k v s\<close>: the storage has nothing but \<open>v\<close> under \<open>k\<close>.\<close>

definition at_most :: "('v, 'b) pickler \<Rightarrow> string \<Rightarrow> 'v pyval \<Rightarrow> ('v, 'b, 'e) memo_state \<Rightarrow> bool" where
  "at_most P k v s \<longleftrightarrow> (\<forall>w. store_look P (mm_stores s ! 0) k = Some w \<longrightarrow> w = v)"

lemma cache_call:
  assumes env: "only_removes P env" and s: "cache_inv P good p s" and call: "storage_call env 0 op s = (r, s')"
  obtains sts st where "sts \<noteq> []" "op (sts ! 0) = (r, st)" "holds_good P good sts" "mm_stores s' = sts[0 := st]"
    "mm_performed s' = p" "\<And>k w. store_look P (sts ! 0) k = Some w \<Longrightarrow> store_look P (mm_stores s ! 0) k = Some w"
proof -
  let ?sts = "env (mm_tick s) (mm_stores s)"
  obtain x st where op: "op (?sts ! 0) = (x, st)" by force
  have "r = x" "s' = s\<lparr>mm_stores := ?sts[0 := st], mm_tick := mm_tick s + 1\<rparr>"
    using call by (simp_all add: storage_call_def op Let_def)
  moreover have "?sts \<noteq> []" using env s unfolding only_removes_def cache_inv_def by (metis length_0_conv)
  moreover have "holds_good P good ?sts" using s holds_good_removed [OF env] by (simp add: cache_inv_def)
  moreover have "store_look P (mm_stores s ! 0) k = Some w" if "store_look P (?sts ! 0) k = Some w" for k w
    using env s that unfolding only_removes_def cache_inv_def by blast
  ultimately show thesis using that [of ?sts st] op s by (simp add: cache_inv_def)
qed

lemma triple_cache_get:
  assumes "only_removes P env"
  shows "triple (cache_inv P good p) (call_get P env 0 k)
    (\<lambda>v s. cache_inv P good p s \<and> (v \<noteq> PyNone \<longrightarrow> good k v) \<and> at_most P k v s) (\<lambda>_ _. False)"
proof (rule tripleI)
  fix s v s' assume s: "cache_inv P good p s" and call: "call_get P env 0 k s = (Inr v, s')"
  from cache_call [OF assms s call [unfolded call_get_def]] obtain sts where sts: "sts \<noteq> []" "v = store_get P (sts ! 0) k"
      "holds_good P good sts" "mm_stores s' = sts" "mm_performed s' = p"
    by (auto simp del: list_update_nonempty)
  have "good k v" if "v \<noteq> PyNone"
    using that holds_good_nth [OF sts(3), of 0 k v] sts(1,2) by (auto simp: st.get_look split: option.splits)
  moreover have "at_most P k v s'" using sts(2,4) by (simp add: at_most_def st.get_look)
  ultimately show "cache_inv P good p s' \<and> (v \<noteq> PyNone \<longrightarrow> good k v) \<and> at_most P k v s'"
    using sts by (simp add: cache_inv_def)
qed (simp add: call_get_def storage_call_def Let_def)

lemma triple_cache_exists:
  assumes "only_removes P env"
  shows "triple (\<lambda>s. cache_inv P good p s \<and> (m \<longrightarrow> at_most P k v s)) (call_exists env 0 k)
    (\<lambda>b s. cache_inv P good p s \<and> (b \<longrightarrow> m \<longrightarrow> good k v)) (\<lambda>_ _. False)"
proof (rule tripleI)
  fix s b s' assume s: "cache_inv P good p s \<and> (m \<longrightarrow> at_most P k v s)" and call: "call_exists env 0 k s = (Inr b, s')"
  from cache_call [OF assms conjunct1 [OF s] call [unfolded call_exists_def]] obtain sts where sts: "sts \<noteq> []"
      "b = store_exists (sts ! 0) k" "holds_good P good sts" "mm_stores s' = sts" "mm_performed s' = p"
      "\<And>k w. store_look P (sts ! 0) k = Some w \<Longrightarrow> store_look P (mm_stores s ! 0) k = Some w"
    by (auto simp del: list_update_nonempty)
  have "good k v" if b: "b" and m: "m"
  proof -
    obtain w where w: "store_look P (sts ! 0) k = Some w" using b sts(2) st.has_look [of "sts ! 0" k P] by auto
    then have "w = v" using sts(6) s m by (auto simp: at_most_def)
    then show ?thesis using holds_good_nth [OF sts(3) _ w] sts(1) by simp
  qed
  then show "cache_inv P good p s' \<and> (b \<longrightarrow> m \<longrightarrow> good k v)" using sts by (simp add: cache_inv_def)
qed (simp add: call_exists_def storage_call_def Let_def)

lemma triple_cache_put:
  assumes "only_removes P env" and "good k v" and "keeps_good P good"
  shows "triple (cache_inv P good p) (call_put P env 0 k v :: ('v, 'b, 'e, 'x, unit) memo_py) (\<lambda>_. cache_inv P good p) (\<lambda>_ _. False)"
proof (rule tripleI)
  have put: "\<exists>st'. (store_put P k v st :: ('x merr + unit) \<times> ('v, 'b) store) = (Inr (), st') \<and> store_look P st' = (store_look P st)(k \<mapsto> v)" for st
    by (rule st.put_look [OF faithful_stored]) (use assms(2,3) in \<open>simp add: keeps_good_def\<close>)
  {
    fix s r s' assume s: "cache_inv P good p s" and call: "(call_put P env 0 k v :: ('v, 'b, 'e, 'x, unit) memo_py) s = (r, s')"
    from cache_call [OF assms(1) s call [unfolded call_put_def]] obtain sts st where sts: "sts \<noteq> []" "store_put P k v (sts ! 0) = (r, st)"
        "holds_good P good sts" "mm_stores s' = sts[0 := st]" "mm_performed s' = p" by blast
    from put [of "sts ! 0"] sts(2) have r: "r = Inr ()" and st: "store_look P st = (store_look P (sts ! 0))(k \<mapsto> v)" by auto
    have "holds_good P good (sts[0 := st])"
      by (rule holds_good_update [OF sts(3)]) (use st assms(2) holds_good_nth [OF sts(3), of 0] sts(1) in \<open>auto split: if_splits\<close>)
    then have "r = Inr () \<and> cache_inv P good p s'" using r sts by (simp add: cache_inv_def)
  }
  note result = this
  show "cache_inv P good p s'"
    if "cache_inv P good p s" "(call_put P env 0 k v :: ('v, 'b, 'e, 'x, unit) memo_py) s = (Inr x, s')" for s x s'
    using result [OF that] by simp
  show False if "cache_inv P good p s" "(call_put P env 0 k v :: ('v, 'b, 'e, 'x, unit) memo_py) s = (Inl x, s')" for s x s'
    using result [OF that] by simp
qed

lemma triple_cache_perform:
  "triple (cache_inv P good p) (perform_outside answer e :: ('v, 'b, 'e, 'x, 'v pyval) memo_py)
    (\<lambda>v s. cache_inv P good (p @ [e]) s \<and> answer e = Inr v) (\<lambda>x s. cache_inv P good (p @ [e]) s \<and> (\<exists>y. answer e = Inl y \<and> x = MOther y))"
  by (rule tripleI; cases "answer e") (auto simp: perform_outside_def cache_inv_def)

text \<open>\<open>CacheGet\<close> answers with a good value or raises \<open>KeyError\<close>.\<close>

lemma triple_handler_get:
  assumes "only_removes P env"
  shows "triple (cache_inv P good p) (cache_handler P digest env (CacheGet key) :: ('v, 'b, 'e, 'x, 'v cache_answer) memo_py)
    (\<lambda>a s. cache_inv P good p s \<and> (\<exists>v. a = AnsVal v \<and> good (storage_key digest key) v)) (\<lambda>e s. e = MKeyError \<and> cache_inv P good p s)"
    (is "triple ?S _ ?Q ?E")
proof -
  let ?k = "storage_key digest key"
  let ?rest = "\<lambda>v. if v = PyNone
       then py_bind (call_exists env 0 ?k) (\<lambda>b. if \<not> b then py_raise MKeyError else py_ret (AnsVal v))
       else py_ret (AnsVal v) :: ('v, 'b, 'e, 'x, 'v cache_answer) memo_py"
  have exists: "triple (\<lambda>s. ?S s \<and> (True \<longrightarrow> at_most P ?k v s)) (call_exists env 0 ?k) (\<lambda>b s. ?S s \<and> (b \<longrightarrow> True \<longrightarrow> good ?k v)) ?E" for v
    by (rule triple_weaken [OF triple_cache_exists [OF assms]]) auto
  have rest: "triple (\<lambda>s. ?S s \<and> (v \<noteq> PyNone \<longrightarrow> good ?k v) \<and> at_most P ?k v s) (?rest v) ?Q ?E" for v
  proof (cases "v = PyNone")
    case True
    have "triple (\<lambda>s. ?S s \<and> (True \<longrightarrow> at_most P ?k v s))
        (py_bind (call_exists env 0 ?k) (\<lambda>b. if \<not> b then py_raise MKeyError else py_ret (AnsVal v))) ?Q ?E"
      by (rule triple_bind [OF exists]) (auto intro: triple_ret triple_raise)
    then show ?thesis unfolding if_P [OF True] by (rule triple_weaken) simp_all
  next
    case False
    then show ?thesis by (auto intro: triple_ret)
  qed
  have get: "triple ?S (call_get P env 0 ?k) (\<lambda>v s. ?S s \<and> (v \<noteq> PyNone \<longrightarrow> good ?k v) \<and> at_most P ?k v s) ?E"
    by (rule triple_weaken [OF triple_cache_get [OF assms]]) auto
  show ?thesis unfolding cache_handler.simps by (rule triple_bind [OF get rest])
qed

lemma triple_cache_rewrite:
  assumes "only_removes P env" and "keeps_good P good" and good: "\<And>v. answer e = Inr v \<Longrightarrow> good (key_fn e) v"
  shows "triple (cache_inv P good p) (cache_rewrite P env key_fn answer e :: ('v, 'b, 'e, 'x, 'v pyval) memo_py)
    (\<lambda>v s. good (key_fn e) v \<and> (cache_inv P good p s \<or> cache_inv P good (p @ [e]) s))
    (\<lambda>x s. cache_inv P good (p @ [e]) s \<and> (\<exists>y. answer e = Inl y \<and> x = MOther y))"
    (is "triple ?S _ ?Q ?E")
proof -
  let ?h = "cache_handler P (\<lambda>_::unit. []) env :: _ \<Rightarrow> ('v, 'b, 'e, 'x, 'v cache_answer) memo_py"
  let ?key = "StrKey (key_fn e) :: unit memo_key"
  let ?store = "\<lambda>v. py_bind (?h (CachePut ?key v)) (\<lambda>_. py_ret v)"
  have store: "triple (\<lambda>s. cache_inv P good (p @ [e]) s \<and> answer e = Inr v) (?store v) ?Q ?E" for v
  proof (rule triple_pull)
    assume v: "answer e = Inr v"
    have put: "triple (cache_inv P good (p @ [e])) (call_put P env 0 (key_fn e) v) (\<lambda>_. cache_inv P good (p @ [e])) ?E"
      by (rule triple_weaken [OF triple_cache_put [OF assms(1) good [OF v] assms(2)]]) auto
    have "triple (cache_inv P good (p @ [e])) (?h (CachePut ?key v)) (\<lambda>_. cache_inv P good (p @ [e])) ?E"
      unfolding cache_handler.simps storage_key_def memo_key.case by (rule triple_bind [OF put]) (auto intro: triple_ret)
    then show "triple (cache_inv P good (p @ [e])) (?store v) ?Q ?E"
      by (rule triple_bind) (auto intro: triple_ret simp: good [OF v])
  qed
  have miss: "triple ?S (py_bind (perform_outside answer e) ?store) ?Q ?E"
    by (rule triple_bind, rule triple_cache_perform, rule store)
  let ?L = "\<lambda>c s. ?S s \<and> (\<forall>a. c = Some a \<longrightarrow> (\<exists>v. a = AnsVal v \<and> good (key_fn e) v))"
  let ?get = "py_bind (?h (CacheGet ?key)) (\<lambda>v. py_ret (Some v))"
  have got: "triple ?S ?get ?L (\<lambda>x s. x = MKeyError \<and> ?S s)"
    by (rule triple_bind [OF triple_handler_get [OF assms(1)]]) (auto intro: triple_ret simp: storage_key_def)
  have lookup: "triple ?S (if b then on_key_error ?get (py_ret None) else py_ret None) ?L ?E" for b
  proof (cases b)
    case True
    show ?thesis
      unfolding if_P [OF True] by (rule triple_on_key_error [OF triple_weaken [OF got], where R = ?S]) (auto intro: triple_ret)
  qed (auto intro: triple_ret)
  have exists: "triple ?S (?h (CacheExists ?key)) (\<lambda>_. ?S) ?E"
    unfolding cache_handler.simps
    by (rule triple_bind [OF triple_weaken [OF triple_cache_exists [OF assms(1), where m = False]], where R = "\<lambda>_. ?S"])
      (auto intro: triple_ret)
  have last: "triple (?L c) (case c of Some (AnsVal v) \<Rightarrow> py_ret v | _ \<Rightarrow> py_bind (perform_outside answer e) ?store) ?Q ?E" for c
  proof (cases c)
    case None
    show ?thesis unfolding None option.case by (rule triple_weaken [OF miss]) simp_all
  next
    case (Some a)
    then show ?thesis by (cases a) (auto intro: triple_ret simp: triple_def)
  qed
  show ?thesis
    unfolding cache_rewrite_def Let_def
    by (rule triple_bind [OF exists], rule triple_bind [OF lookup], rule last)
qed

lemma cache_transparent:
  assumes "only_removes P env" and memo: "memoisable P is_type key_fn answer"
  shows "transparent (cache_inv P (right_value P is_type key_fn answer))
    (for_effects is_type (cache_rewrite P env key_fn answer) answer :: 'e \<Rightarrow> ('v, 'b, 'e, 'x, 'v pyval) memo_py) answer"
  unfolding transparent_def
proof (intro allI)
  fix e :: 'e and p :: "'e list"
  let ?I = "cache_inv P (right_value P is_type key_fn answer)"
  let ?Q = "\<lambda>v s. answer e = Inr v \<and> (?I p s \<or> ?I (p @ [e]) s)"
  let ?E = "\<lambda>(x :: 'x merr) s. ?I (p @ [e]) s \<and> (\<exists>y. answer e = Inl y \<and> x = MOther y)"
  show "triple (?I p) (for_effects is_type (cache_rewrite P env key_fn answer) answer e) ?Q ?E"
  proof (cases "is_type e")
    case True
    note rewritten = triple_cache_rewrite [where key_fn = key_fn and answer = answer and e = e and p = p,
        OF assms(1) keeps_right right_answer [OF memo True]]
    have "triple (?I p) (cache_rewrite P env key_fn answer e) ?Q ?E"
      by (rule triple_weaken [OF rewritten]) (use True in \<open>auto dest: right_value_answer\<close>)
    then show ?thesis using True by (simp add: for_effects_def)
  next
    case False
    have "triple (?I p) (perform_outside answer e) ?Q ?E"
      by (rule triple_weaken [OF triple_cache_perform]) auto
    then show ?thesis using False by (simp add: for_effects_def)
  qed
qed

text \<open>
  C40: Caching survives evictions. The hypotheses: effects with equal keys have equal answers, which survive being stored; the
  storage holds right values to begin with; others store nothing, but may remove entries. Then a program whose effects of one type are
  answered through \<open>CacheExists\<close>, \<open>CacheGet\<close> and \<open>CachePut\<close> returns what it returns without a cache, and
  performs a subsequence of the effects, whichever entries others remove before any of the storage calls.
\<close>

theorem cached_programs_agree:
  assumes "memoisable P is_type key_fn answer" and "only_removes P env" and "mm_stores s \<noteq> []"
    and "holds_good P (right_value P is_type key_fn answer) (mm_stores s)"
    and "mm_performed s = []" and "mm_performed t = []"
    and "mrun (for_effects is_type (cache_rewrite P env key_fn answer) answer) prog s = (r, s')"
    and "mrun (perform_outside answer) prog t = (r', t')"
  shows "r = r' \<and> subseq (mm_performed s') (mm_performed t')"
proof -
  have "cache_inv P (right_value P is_type key_fn answer) [] s" using assms(3-5) by (simp add: cache_inv_def)
  from transparent_run [OF cache_transparent [OF assms(2,1)] this assms(7,8)] show ?thesis
    using assms(6) by (auto simp: cache_inv_def)
qed

section \<open>Storages are maps\<close>

datatype 'v storage_op = OpGet string | OpPut string "'v pyval" | OpDelete string | OpExists string | OpClear

primrec call_storage :: "('v, 'b) pickler \<Rightarrow> 'v storage_op \<Rightarrow> ('v, 'b) store \<Rightarrow> 'v cache_answer \<times> ('v, 'b) store" where
  "call_storage P (OpGet k) st = (AnsVal (store_get P st k), st)"
| "call_storage P (OpPut k v) st = (AnsVal PyNone, snd (store_put P k v st :: (unit merr + unit) \<times> ('v, 'b) store))"
| "call_storage P (OpDelete k) st = map_prod AnsBool id (store_delete k st)"
| "call_storage P (OpExists k) st = (AnsBool (store_exists st k), st)"
| "call_storage P OpClear st = (AnsVal PyNone, store_clear st)"

primrec map_op :: "'v storage_op \<Rightarrow> (string \<Rightarrow> 'v pyval option) \<Rightarrow> 'v cache_answer \<times> (string \<Rightarrow> 'v pyval option)" where
  "map_op (OpGet k) m = (AnsVal (case m k of None \<Rightarrow> PyNone | Some v \<Rightarrow> v), m)"
| "map_op (OpPut k v) m = (AnsVal PyNone, m(k \<mapsto> v))"
| "map_op (OpDelete k) m = (AnsBool (m k \<noteq> None), m(k := None))"
| "map_op (OpExists k) m = (AnsBool (m k \<noteq> None), m)"
| "map_op OpClear m = (AnsVal PyNone, \<lambda>_. None)"

primrec answers_of :: "('op \<Rightarrow> 's \<Rightarrow> 'a \<times> 's) \<Rightarrow> 'op list \<Rightarrow> 's \<Rightarrow> 'a list" where
  "answers_of f [] s = []"
| "answers_of f (op # ops) s = (case f op s of (a, s') \<Rightarrow> a # answers_of f ops s')"

lemma call_storage_refines:
  assumes "\<And>k v. op = OpPut k v \<Longrightarrow> faithful P v"
  shows "map_prod id (store_look P) (call_storage P op st) = map_op op (store_look P st)"
proof (cases op)
  case (OpPut k v)
  then have "store_stored P st v = Some v" using assms faithful_stored by blast
  from st.put_look [OF this, of k] obtain st' where
    "(store_put P k v st :: (unit merr + unit) \<times> _) = (Inr (), st')" "store_look P st' = (store_look P st)(k \<mapsto> v)" by blast
  then show ?thesis by (simp add: OpPut)
next
  case (OpDelete k)
  obtain st' where "store_delete k st = (store_look P st k \<noteq> None, st')" "store_look P st' = (store_look P st)(k := None)"
    using st.delete_look [of k st P] by blast
  then show ?thesis by (simp add: OpDelete)
qed (simp_all add: st.get_look st.has_look [of _ _ P] st.clear_look)

text \<open>
  Both storages refine a map. Whatever operations are called on a storage, in memory or in SQLite, the answers are those
  of a map from keys to values, provided pickling gives the stored values back.
\<close>

theorem storages_refine_maps:
  assumes "\<forall>k v. OpPut k v \<in> set ops \<longrightarrow> faithful P v"
  shows "answers_of (call_storage P) ops st = answers_of map_op ops (store_look P st)"
  using assms
proof (induction ops arbitrary: st)
  case (Cons op ops)
  obtain a st' where op: "call_storage P op st = (a, st')" by force
  have "map_op op (store_look P st) = (a, store_look P st')"
    using call_storage_refines [of op P st] Cons.prems op by (metis id_apply list.set_intros(1) map_prod_simp)
  then show ?case using Cons.IH [of st'] Cons.prems op by simp
qed simp

section \<open>One task alone\<close>

abbreviation quiet :: "('v, 'b) others" where
  "quiet \<equiv> \<lambda>t sts. sts"

text \<open>Every layer of \<open>ls\<close> that handles \<open>c\<close> has \<open>r\<close> under \<open>k\<close>.\<close>

definition all_have :: "('v, 'b) pickler \<Rightarrow> layers \<Rightarrow> recompute_cost \<Rightarrow> string \<Rightarrow> 'v pyval option \<Rightarrow> ('v, 'b) store list \<Rightarrow> bool" where
  "all_have P ls c k r sts \<longleftrightarrow> (\<forall>(i, lc) \<in> set ls. matches_cost c lc \<longrightarrow> store_look P (sts ! i) k = r)"

lemma quiet_put:
  assumes "faithful P v"
  shows "layers_ok n ls \<Longrightarrow> length (mm_stores s) = n \<Longrightarrow>
    (layer_put P quiet ls c k v :: ('v, 'b, 'e, 'x, unit) memo_py) s = (r, s') \<Longrightarrow>
    r = (if handled ls c then Inr () else Inl MUnhandled) \<and> length (mm_stores s') = n \<and> all_have P ls c k (Some v) (mm_stores s') \<and>
    (\<forall>i < n. store_look P (mm_stores s ! i) k = Some v \<longrightarrow> store_look P (mm_stores s' ! i) k = Some v)"
proof (induction ls arbitrary: s r s')
  case Nil
  then show ?case by (auto simp: handled_def all_have_def)
next
  case (Cons x ls)
  obtain i lc where x: "x = (i, lc)" by force
  have ok: "layers_ok n ls" "i < n" using Cons.prems(1) by (auto simp: layers_ok_def x)
  show ?case
  proof (cases "matches_cost c lc")
    case False
    then show ?thesis using Cons.IH [OF ok(1) Cons.prems(2)] Cons.prems(3) by (simp add: x handled_def all_have_def)
  next
    case True
    obtain st where st: "(store_put P k v (mm_stores s ! i) :: ('x merr + unit) \<times> ('v, 'b) store) = (Inr (), st)"
        "store_look P st = (store_look P (mm_stores s ! i))(k \<mapsto> v)"
      using st.put_look [OF faithful_stored [OF assms], of k "mm_stores s ! i"] by blast
    let ?s = "s\<lparr>mm_stores := (mm_stores s)[i := st], mm_tick := Suc (mm_tick s)\<rparr>"
    obtain r1 s1 where rest: "(layer_put P quiet ls c k v :: ('v, 'b, 'e, 'x, unit) memo_py) ?s = (r1, s1)" by force
    have "length (mm_stores ?s) = n" using Cons.prems(2) by simp
    from Cons.IH [OF ok(1) this rest] have IH: "r1 = (if handled ls c then Inr () else Inl MUnhandled)" "length (mm_stores s1) = n"
        "all_have P ls c k (Some v) (mm_stores s1)"
        "\<And>j. j < n \<Longrightarrow> store_look P (mm_stores ?s ! j) k = Some v \<Longrightarrow> store_look P (mm_stores s1 ! j) k = Some v" by blast+
    have run: "r = Inr ()" "s' = s1"
      using Cons.prems(3) True IH(1)
      by (auto simp: x py_bind_def call_put_def storage_call_def st on_unhandled_def rest split: if_splits)
    have "store_look P (mm_stores s1 ! i) k = Some v" using IH(4) [OF ok(2)] Cons.prems(2) ok(2) st(2) by simp
    moreover have "store_look P (mm_stores s1 ! j) k = Some v" if "j < n" "store_look P (mm_stores s ! j) k = Some v" for j
      using IH(4) [OF that(1)] that Cons.prems(2) st(2) by (cases "j = i") simp_all
    ultimately show ?thesis using IH(2,3) run True by (auto simp: x handled_def all_have_def)
  qed
qed

lemma quiet_delete:
  "layers_ok n ls \<Longrightarrow> length (mm_stores s) = n \<Longrightarrow>
    (layer_delete quiet ls c k :: ('v, 'b, 'e, 'x, unit) memo_py) s = (r, s') \<Longrightarrow>
    r = (if handled ls c then Inr () else Inl MUnhandled) \<and> length (mm_stores s') = n \<and> all_have P ls c k None (mm_stores s') \<and>
    (\<forall>i < n. store_look P (mm_stores s ! i) k = None \<longrightarrow> store_look P (mm_stores s' ! i) k = None)"
proof (induction ls arbitrary: s r s')
  case Nil
  then show ?case by (auto simp: handled_def all_have_def)
next
  case (Cons x ls)
  obtain i lc where x: "x = (i, lc)" by force
  have ok: "layers_ok n ls" "i < n" using Cons.prems(1) by (auto simp: layers_ok_def x)
  show ?case
  proof (cases "matches_cost c lc")
    case False
    then show ?thesis using Cons.IH [OF ok(1) Cons.prems(2)] Cons.prems(3) by (simp add: x handled_def all_have_def)
  next
    case True
    obtain b st where st: "store_delete k (mm_stores s ! i) = (b, st)" "store_look P st = (store_look P (mm_stores s ! i))(k := None)"
      using st.delete_look [of k "mm_stores s ! i" P] by blast
    let ?s = "s\<lparr>mm_stores := (mm_stores s)[i := st], mm_tick := Suc (mm_tick s)\<rparr>"
    obtain r1 s1 where rest: "(layer_delete quiet ls c k :: ('v, 'b, 'e, 'x, unit) memo_py) ?s = (r1, s1)" by force
    have "length (mm_stores ?s) = n" using Cons.prems(2) by simp
    from Cons.IH [OF ok(1) this rest] have IH: "r1 = (if handled ls c then Inr () else Inl MUnhandled)" "length (mm_stores s1) = n"
        "all_have P ls c k None (mm_stores s1)"
        "\<And>j. j < n \<Longrightarrow> store_look P (mm_stores ?s ! j) k = None \<Longrightarrow> store_look P (mm_stores s1 ! j) k = None" by blast+
    have run: "r = Inr ()" "s' = s1"
      using Cons.prems(3) True IH(1)
      by (auto simp: x py_bind_def call_delete_def storage_call_def st on_unhandled_def rest split: if_splits)
    have "store_look P (mm_stores s1 ! i) k = None" using IH(4) [OF ok(2)] Cons.prems(2) ok(2) st(2) by simp
    moreover have "store_look P (mm_stores s1 ! j) k = None" if "j < n" "store_look P (mm_stores s ! j) k = None" for j
      using IH(4) [OF that(1)] that Cons.prems(2) st(2) by (cases "j = i") simp_all
    ultimately show ?thesis using IH(2,3) run True by (auto simp: x handled_def all_have_def)
  qed
qed

lemma quiet_call:
  assumes "i < length (mm_stores s)"
  shows "call_exists quiet i k s = (Inr (store_look P (mm_stores s ! i) k \<noteq> None), s\<lparr>mm_tick := Suc (mm_tick s)\<rparr>)"
    and "call_get P quiet i k s =
      (Inr (case store_look P (mm_stores s ! i) k of None \<Rightarrow> PyNone | Some v \<Rightarrow> v), s\<lparr>mm_tick := Suc (mm_tick s)\<rparr>)"
  using assms by (simp_all add: call_exists_def call_get_def storage_call_def st.get_look st.has_look [of _ _ P])

text \<open>The first layer that handles the cost answers.\<close>

lemma quiet_found:
  "layers_ok n ls \<Longrightarrow> length (mm_stores s) = n \<Longrightarrow> handled ls c \<Longrightarrow> all_have P ls c k (Some v) (mm_stores s) \<Longrightarrow>
    fst (layer_exists quiet ls c k s) = Inr True \<and> fst (layer_get P quiet ls c k s) = Inr v"
proof (induction ls)
  case (Cons x ls)
  obtain i lc where x: "x = (i, lc)" by force
  show ?case
  proof (cases "matches_cost c lc")
    case True
    then have "i < length (mm_stores s)" "store_look P (mm_stores s ! i) k = Some v"
      using Cons.prems by (auto simp: layers_ok_def all_have_def x)
    then show ?thesis using True by (simp add: x py_bind_def quiet_call [where P = P])
  next
    case False
    then show ?thesis using Cons by (simp add: layers_ok_def handled_def all_have_def x)
  qed
qed (simp add: handled_def)

lemma quiet_absent:
  "layers_ok n ls \<Longrightarrow> length (mm_stores s) = n \<Longrightarrow> all_have P ls c k None (mm_stores s) \<Longrightarrow>
    fst ((layer_exists quiet ls c k :: ('v, 'b, 'e, 'x, bool) memo_py) s) = (if handled ls c then Inr False else Inl MUnhandled) \<and>
    fst ((layer_get P quiet ls c k :: ('v, 'b, 'e, 'x, 'v pyval) memo_py) s) = (if handled ls c then Inl MKeyError else Inl MUnhandled)"
proof (induction ls arbitrary: s)
  case (Cons x ls)
  obtain i lc where x: "x = (i, lc)" by force
  have ok: "layers_ok n ls" "all_have P ls c k None (mm_stores s)" using Cons.prems by (auto simp: layers_ok_def all_have_def x)
  show ?case
  proof (cases "matches_cost c lc")
    case True
    let ?s = "s\<lparr>mm_tick := Suc (mm_tick s)\<rparr>"
    have "i < length (mm_stores s)" "store_look P (mm_stores s ! i) k = None"
      using Cons.prems True by (auto simp: layers_ok_def all_have_def x)
    moreover from Cons.IH [of ?s] ok Cons.prems(2)
    have "fst ((layer_exists quiet ls c k :: ('v, 'b, 'e, 'x, bool) memo_py) ?s) = (if handled ls c then Inr False else Inl MUnhandled)"
      "fst ((layer_get P quiet ls c k :: ('v, 'b, 'e, 'x, 'v pyval) memo_py) ?s) = (if handled ls c then Inl MKeyError else Inl MUnhandled)" by simp_all
    ultimately show ?thesis
      using True
      by (cases "(layer_exists quiet ls c k :: ('v, 'b, 'e, 'x, bool) memo_py) ?s"; cases "(layer_get P quiet ls c k :: ('v, 'b, 'e, 'x, 'v pyval) memo_py) ?s")
        (auto simp: x py_bind_def quiet_call [where P = P] on_unhandled_def handled_def py_raise_def split: if_splits)
  next
    case False
    then show ?thesis using Cons ok by (simp add: handled_def x)
  qed
qed (simp add: handled_def)

text \<open>
  Layers of storages are one storage. When no other task interferes and some layer handles the cost, a value that was put
  is found and read back by every later lookup at this cost, and a deleted key is in no layer any more: it does not exist, and
  reading it raises \<open>KeyError\<close>.
\<close>

theorem layers_act_as_one_storage:
  assumes "layers_ok (length (mm_stores s)) ls" and "handled ls c" and "faithful P v"
  shows "fst (py_bind (layer_put P quiet ls c k v :: ('v, 'b, 'e, 'x, unit) memo_py) (\<lambda>_. layer_exists quiet ls c k) s) = Inr True \<and>
    fst (py_bind (layer_put P quiet ls c k v :: ('v, 'b, 'e, 'x, unit) memo_py) (\<lambda>_. layer_get P quiet ls c k) s) = Inr v \<and>
    fst (py_bind (layer_delete quiet ls c k :: ('v, 'b, 'e, 'x, unit) memo_py) (\<lambda>_. layer_exists quiet ls c k) s) = Inr False \<and>
    fst (py_bind (layer_delete quiet ls c k :: ('v, 'b, 'e, 'x, unit) memo_py) (\<lambda>_. layer_get P quiet ls c k) s) = Inl MKeyError"
proof -
  obtain r1 s1 where put: "(layer_put P quiet ls c k v :: ('v, 'b, 'e, 'x, unit) memo_py) s = (r1, s1)" by force
  from quiet_put [OF assms(3,1) refl put] have put': "r1 = Inr ()" "length (mm_stores s1) = length (mm_stores s)"
      "all_have P ls c k (Some v) (mm_stores s1)" using assms(2) by simp_all
  obtain r2 s2 where del: "(layer_delete quiet ls c k :: ('v, 'b, 'e, 'x, unit) memo_py) s = (r2, s2)" by force
  from quiet_delete [OF assms(1) refl del, where P = P] have del': "r2 = Inr ()" "length (mm_stores s2) = length (mm_stores s)"
      "all_have P ls c k None (mm_stores s2)" using assms(2) by simp_all
  show ?thesis
    unfolding py_bind_def put put'(1) del del'(1) sum.case prod.case
    by (intro conjI quiet_found [OF assms(1) put'(2) assms(2) put'(3), THEN conjunct1]
        quiet_found [OF assms(1) put'(2) assms(2) put'(3), THEN conjunct2]
        trans [OF quiet_absent [OF assms(1) del'(2,3), THEN conjunct1] if_P [OF assms(2)]]
        trans [OF quiet_absent [OF assms(1) del'(2,3), THEN conjunct2] if_P [OF assms(2)]])
qed

section \<open>Where memoisation fails\<close>

text \<open>
  A function with \<open>cache(policy=...)\<close> looks its calls up at the default cost: when only layers for other costs are
  installed it is computed on every call, whatever they hold.
\<close>

lemma unhandled_lookup:
  assumes "\<not> handled ls c"
  shows "(memo_lookup P env ls c k :: ('v, 'b, 'e, 'x, 'v pyval option) memo_py) s = (Inr None, s)"
proof -
  have "(layer_exists env ls c k :: ('v, 'b, 'e, 'x, bool) memo_py) s = (Inl MUnhandled, s)"
    using assms by (induction ls) (auto simp: handled_def py_raise_def)
  then show ?thesis by (simp add: memo_lookup_def on_unhandled_def py_bind_def py_ret_def)
qed

lemma keeps_on_unhandled:
  assumes "keeps I m" and "keeps I alt"
  shows "keeps I (on_unhandled m alt)"
proof (rule keepsI)
  fix s assume s: "I s"
  obtain r s' where m: "m s = (r, s')" by force
  have "I s'" by (rule keepsD [OF assms(1) s m])
  then have "I (snd (alt s'))" using assms(2) by (simp add: keeps_def)
  with \<open>I s'\<close> show "I (snd (on_unhandled m alt s))"
    by (cases r) (simp_all add: on_unhandled_def m split: merr.split)
qed

lemma keeps_performed: "keeps (\<lambda>s. mm_performed s = p) (layer_put P env ls c k v)"
proof (induction ls)
  case (Cons x ls)
  have "keeps (\<lambda>s. mm_performed s = p) (call_put P env i k v)" for i
    by (rule keepsI) (simp add: call_put_def storage_call_def Let_def split: prod.split)
  then show ?case
    using Cons by (cases x) (auto intro: keeps_bind keeps_on_unhandled keeps_ret)
qed (simp add: keeps_raise)

theorem costly_functions_are_recomputed:
  fixes P :: "('v, 'b) pickler" and answer :: "'e \<Rightarrow> 'x + 'v pyval" and s :: "('v, 'b, 'e) memo_state"
  assumes "\<not> handled ls Cheap" and "answer e = Inr v"
  shows "mm_performed (snd (cached_fn P env ls policy_cost digest key_func answer e s)) = mm_performed s @ [e]"
proof -
  have performs: "(perform_outside answer e :: ('v, 'b, 'e, 'x, 'v pyval) memo_py) s = (Inr v, s\<lparr>mm_performed := mm_performed s @ [e]\<rparr>)"
    by (simp add: perform_outside_def assms(2))
  let ?k = "storage_key digest (key_func e)" and ?s = "s\<lparr>mm_performed := mm_performed s @ [e]\<rparr>"
  have "keeps (\<lambda>s. mm_performed s = mm_performed ?s) (py_bind (memo_store P env ls policy_cost ?k v) (\<lambda>_. py_ret v) ::
      ('v, 'b, 'e, 'x, 'v pyval) memo_py)"
    unfolding memo_store_def by (intro keeps_bind keeps_on_unhandled keeps_performed keeps_ret)
  then have "mm_performed (snd ((py_bind (memo_store P env ls policy_cost ?k v) (\<lambda>_. py_ret v) :: ('v, 'b, 'e, 'x, 'v pyval) memo_py) ?s)) = mm_performed ?s"
    by (simp add: keeps_def)
  then show ?thesis
    by (simp add: cached_fn_def Let_def 
        py_bind_Inr [where m = "memo_lookup P env ls Cheap ?k", OF unhandled_lookup [OF assms(1)]]
        py_bind_Inr [where m = "perform_outside answer e", OF performs])
qed

text \<open>An entry removed between the two storage calls of \<open>MemoGet\<close> is served as \<open>None\<close>.\<close>

theorem removed_entries_are_served_as_none:
  fixes P :: "('v, 'b) pickler"
  assumes "answer e = Inr (PyVal v)"
  shows "fst (memo_rewrite P (\<lambda>t sts. if t = 2 then [Memory []] else sts) [(0, None)] Cheap key_fn answer e
    \<lparr>mm_stores = [Memory [(key_fn e, PyVal v)]], mm_tick = 0, mm_performed = []\<rparr>) = Inr PyNone"
  by (simp add: memo_rewrite_def memo_lookup_def matches_cost_def py_bind_def call_exists_def call_get_def storage_call_def
      store_exists_def store_get_def memory_exists_def memory_get_def on_unhandled_def on_key_error_def py_ret_def)

section \<open>Policies\<close>

text \<open>A policy that was accepted is accepted again when its fields are given one by one.\<close>

lemma accepted_policies_are_stable:
  "ensure_memo_policy kw = Inr p \<Longrightarrow>
   ensure_memo_policy (MemoKwargs (Some (Member (mp_cost p))) (mp_ttl p) (Some (Member (mp_lifecycle p)))
     (Some (MetaMapping (mp_metadata p))) None) = Inr p"
  by (induction kw rule: ensure_memo_policy.induct)
    (auto simp: normalize_recompute_cost_def normalize_lifecycle_def split: if_splits memo_policy_arg.splits sum.splits
      option.splits metadata_arg.splits)

section \<open>Examples\<close>

definition demo_pickler :: "(int, int option) pickler" where
  "demo_pickler = \<lparr>pk_dumps = \<lambda>v. Some (case v of PyNone \<Rightarrow> None | PyVal i \<Rightarrow> Some i),
     pk_loads = \<lambda>b. (case b of None \<Rightarrow> PyNone | Some i \<Rightarrow> PyVal i), pk_clock = \<lambda>i. 0\<rparr>"

lemma demo_faithful: "faithful demo_pickler v"
  by (cases v) (simp_all add: faithful_def demo_pickler_def)

text \<open>Effects are numbers; even ones are memoised, and 3 is refused.\<close>

definition demo_answer :: "nat \<Rightarrow> string + int pyval" where
  "demo_answer e = (if e = 3 then Inl ''refused'' else Inr (PyVal (int e)))"

definition demo_key :: "nat \<Rightarrow> string" where
  "demo_key e = replicate e CHR ''k''"

lemma demo_memoisable: "memoisable demo_pickler even demo_key demo_answer"
  by (auto simp: memoisable_def demo_faithful demo_key_def dest: arg_cong [of _ _ length])

definition demo_calls :: "(nat, int, string, (string merr + int pyval) list) mprog" where
  "demo_calls = MPerform 2 (\<lambda>a. MPerform 3 (\<lambda>b. MPerform 2 (\<lambda>c. MReturn [a, b, c])))"

definition demo_memo :: "(int, int option, nat) memo_state" where
  "demo_memo = \<lparr>mm_stores = [Memory [], Sqlite \<lparr>sq_rows = [], sq_reads = 0\<rparr>], mm_tick = 0, mm_performed = []\<rparr>"

lemma demo_empty: "holds_good demo_pickler good (mm_stores demo_memo)"
  by (simp add: holds_good_def demo_memo_def store_look_def sqlite_look_def)

theorem memoised_programs_agree_witness:
  "fst (mrun (for_effects even (memo_rewrite demo_pickler quiet [(0, Some Cheap), (1, None)] Cheap demo_key demo_answer) demo_answer)
      demo_calls demo_memo) = fst (mrun (perform_outside demo_answer) demo_calls demo_memo) \<and>
   mm_performed (snd (mrun (perform_outside demo_answer) demo_calls demo_memo)) = [2, 3, 2] \<and>
   distinct (map demo_key (answered even demo_answer (mm_performed (snd (mrun (for_effects even
     (memo_rewrite demo_pickler quiet [(0, Some Cheap), (1, None)] Cheap demo_key demo_answer) demo_answer) demo_calls demo_memo)))))"
proof -
  let ?ls = "[(0, Some Cheap), (1, None)] :: layers" and ?good = "right_value demo_pickler even demo_key demo_answer"
  have env: "only_adds demo_pickler ?good (length (mm_stores demo_memo)) quiet" by (simp add: only_adds_def)
  have ls: "layers_ok (length (mm_stores demo_memo)) ?ls" "handled ?ls Cheap"
    by (simp_all add: layers_ok_def handled_def matches_cost_def demo_memo_def)
  have none: "mm_performed demo_memo = []" by (simp add: demo_memo_def)
  have plain: "mm_performed (snd (mrun (perform_outside demo_answer) demo_calls demo_memo)) = [2, 3, 2]"
    by (simp add: demo_calls_def perform_outside_def demo_memo_def)
  show ?thesis
    using memoised_programs_agree [OF demo_memoisable env ls(1) demo_empty none none prod.collapse [symmetric] prod.collapse [symmetric],
        where c = Cheap and prog = demo_calls] ls(2) plain by blast
qed

text \<open>The entries are removed before the fifth storage call, which is the \<open>CacheGet\<close> of the last effect.\<close>

definition demo_eviction :: "(int, int option) others" where
  "demo_eviction = (\<lambda>t sts. if t = 4 \<and> length sts = 2 then [Memory [], Memory []] else sts)"

theorem cached_programs_agree_witness:
  "fst (mrun (for_effects even (cache_rewrite demo_pickler demo_eviction demo_key demo_answer) demo_answer) demo_calls demo_memo) =
     [Inr (PyVal 2), Inl (MOther ''refused''), Inr (PyVal 2)]"
proof -
  have env: "only_removes demo_pickler demo_eviction"
    by (auto simp: only_removes_def demo_eviction_def store_look_def less_Suc_eq numeral_2_eq_2)
  have start: "mm_stores demo_memo \<noteq> []" "mm_performed demo_memo = []" by (simp_all add: demo_memo_def)
  have plain: "fst (mrun (perform_outside demo_answer) demo_calls demo_memo) = [Inr (PyVal 2), Inl (MOther ''refused''), Inr (PyVal 2)]"
    by (simp add: demo_calls_def perform_outside_def demo_memo_def demo_answer_def)
  show ?thesis
    using cached_programs_agree [OF demo_memoisable env start(1) demo_empty start(2) start(2) prod.collapse [symmetric]
        prod.collapse [symmetric], where prog = demo_calls] plain by simp
qed

theorem storages_refine_maps_witness:
  "answers_of (call_storage demo_pickler) [OpPut ''a'' (PyVal 1), OpGet ''a'', OpDelete ''a'', OpExists ''a''] (Sqlite \<lparr>sq_rows = [], sq_reads = 0\<rparr>) =
     [AnsVal PyNone, AnsVal (PyVal 1), AnsBool True, AnsBool False]"
  using storages_refine_maps [of "[OpPut ''a'' (PyVal 1), OpGet ''a'', OpDelete ''a'', OpExists ''a'']" demo_pickler
      "Sqlite \<lparr>sq_rows = [], sq_reads = 0\<rparr>"]
  by (simp add: demo_faithful store_look_def sqlite_look_def)

theorem layers_act_as_one_storage_witness:
  "fst (py_bind (layer_put demo_pickler quiet [(0, Some Cheap), (1, None)] Cheap ''k'' (PyVal 5))
     (\<lambda>_. layer_get demo_pickler quiet [(0, Some Cheap), (1, None)] Cheap ''k'') demo_memo) = Inr (PyVal 5)"
proof -
  have "layers_ok (length (mm_stores demo_memo)) [(0, Some Cheap), (1, None)]" "handled [(0, Some Cheap), (1, None)] Cheap"
    by (simp_all add: layers_ok_def handled_def matches_cost_def demo_memo_def)
  from layers_act_as_one_storage [OF this demo_faithful, THEN conjunct2, THEN conjunct1] show ?thesis .
qed

end
