(* ===== verification/Spec2Isabelle.thy ===== *)
theory Spec2Isabelle
  imports Sched_Facts Dsl_Writers Dsl_Text Replay_Facts Replay_Agent_Facts Replay_Keys Replay_Workspace
    Environment Gates Runtime_Facts Overseer_Facts Lazy_Facts Sim_Time_Facts Traverse_Facts Review_Facts Verbs_Facts
    Memo_Facts
begin

text \<open>
  A verification library for doeff, a Python framework in which programs are generators that
  yield effects and handlers answer them.

  The parts of the program. \<open>doeff-core-effects\<close> holds the cooperative scheduler
  (\<open>scheduler.py\<close>), an effect handler that multiplexes the tasks of a run over one VM.
  \<open>doeff-conductor\<close> runs multi-agent workflows: a closed workflow language whose specifications are
  expanded and checked before anything runs (\<open>dsl.py\<close>), an interpreter that turns a specification into
  a program of effects (\<open>workflow_runtime.py\<close>), the profiles agents run with (\<open>environment.py\<close>,
  \<open>verbs.py\<close>), the gates at which a run waits for its overseer (\<open>overseer.py\<close>), and journals from which a
  run that was stopped is resumed without repeating agents, clocks or random draws (\<open>journal.py\<close>,
  \<open>workflow_effect_journal.py\<close>, \<open>replay_keying.py\<close>, \<open>handlers/journaled_workspace.py\<close>,
  \<open>handlers/journaled_agent.py\<close>). \<open>doeff-agents\<close> contributes the agent task and the validation of an
  agent's structured result (\<open>effects/agent.py\<close>, \<open>result_validation.py\<close>). \<open>doeff-traverse\<close> traverses
  collections on top of the scheduler, and \<open>doeff-time\<close> answers time effects from a virtual clock. How they interact: the
  runtime spawns and gathers branches through the scheduler; the node ids that expansion and the
  runtime compute are the keys of the journals; a result is validated before it is journalled; a
  failed validation becomes a gate; the overseer's answer is journalled and read by the next run.

  Conventions. A Python dictionary is an association list in insertion order (\<open>dget\<close>, \<open>dput\<close>,
  \<open>ddel\<close> of Prelude), a closure or an instance is a record, and a mutating function is a computation
  \<open>'s \<Rightarrow> (error + 'a) \<times> 's\<close> built from \<open>py_ret\<close>, \<open>py_raise\<close>, \<open>py_bind\<close>: the state changes made before
  an exception stay. An exception is its class with the data it carries; its message is left out
  where nothing reads it. Strings are lists of characters below 256. What Python computes with
  objects that have no model here is a parameter: \<open>repr\<close>, \<open>str\<close> of floats and of library objects,
  SHA-256, regular expressions, pydantic schemas, the delegates and producers that do the real work.
  Nothing is assumed of the digest in general: a theorem about keys says that the keys differ or names
  the collision, or assumes that the texts of the calls it is about do not collide.

  Theories, in the order of the imports.

  \<^item> Prelude, Heapq, Json: dictionaries, decimal numerals, computations with state and exceptions;
    \<open>heapq\<close> as the list of entries in the order in which they are popped; \<open>json.dumps\<close> with sorted keys
    and a \<open>json.loads\<close> that inverts it on what the journals write.
  \<^item> The scheduler (\<open>scheduler.py\<close>). Sched_Core has the closure variables as one record, handles and
    their reference counts, the weak-keyed sweep, id allocation and the ready queue; Sched_Wake has the waking of
    \<open>Wait\<close>, \<open>Gather\<close>, \<open>Race\<close> and semaphore waiters, external completions and permits; Sched_Dispatch the
    loop \<open>pick_next\<close> and the analysis of semaphore deadlocks; Sched_Handle one definition per scheduler
    effect and the handler that dispatches them. Sched_Run and Sched_System give the loop and the
    whole scheduler as step relations with the environment (foreign threads, the garbage collector,
    the VM minting a continuation per perform). Sched_Frame, Sched_Closed, Sched_Conts, Sched_OneShot and
    Sched_Spend carry invariants through wakes, the loop and the handlers by locales that are
    interpreted on these definitions; Sched_World, Sched_Parked, Sched_Permits, Sched_Facts hold the
    properties: continuations are resumed at most once, no wake-up is lost, permits are
    conserved, outcomes are final. The loop ends by a lexicographic measure (completions that can
    still arrive, then the work left in the queues); no fuel is used. The weak references of the code are an
    explicit set of ids that no program holds (\<open>obj_dead\<close>); a foreign completion is an arrival in the queue.
  \<^item> Lazy environments (\<open>lazy_ask\<close> of \<open>handlers.py\<close>). Lazy_Ask has programs as trees of asks and scopes, the shared and the
    scoped caches with the dependencies of their entries, and the reference that evaluates every ask again; the
    nesting of lazy values is bounded by fuel, and a rank of the keys says how much is enough. Lazy_Facts proves that the two
    agree on plain overrides, and shows where they do not. One task at a time: interleaved tasks are not modelled.
  \<^item> Collections (\<open>doeff-traverse\<close>). Traverse has collections with the history of their items and the handlers
    \<open>sequential\<close>, \<open>parallel\<close> and \<open>parallel_fail_fast\<close>; the tasks of a parallel traversal are a pool that starts and ends them
    in any order the semaphore allows. Traverse_Facts proves that the parallel handlers agree with the sequential
    one and that every handler keeps the positions of items. An item's program acts on the world when it ends, as one step.
  \<^item> Simulated time (\<open>doeff-time\<close>). Sim_Time has the virtual clock, its queue and its driver, and the time effects of
    any number of tasks, one of which is the root: the run is over when it returns, and what is ready or waiting then is
    dropped. Sim_Time_Facts proves, by a well-founded order on what is still to run, that every execution ends and stops
    only because the root did, and that the shared clock agrees with a clock of its own for every task.
  \<^item> Memoisation (\<open>doeff-core-effects\<close>). Memo has the two storages, the cache handler (\<open>cache_handlers.py\<close>), the memo
    layers and their rewriter (\<open>memo_handlers.py\<close>, \<open>_memo_handlers_impl.hy\<close>), the decorator \<open>cache\<close>
    (\<open>cache.py\<close>) and the policies; other tasks may change the storages before each storage call. Memo_Facts has the interface
    of a storage as a locale, interpreted on both, and proves by triples over the storage calls that memoised and
    cached programs return what they return without memoisation.
  \<^item> Review routing (\<open>effects/review.py\<close>). Review has verdicts and their reader, the routing table, budgets, the
    calibration lane and the routing of an item; Review_Facts proves that the results the schema accepts are read,
    that budgets are not overspent, and what a routing decision says of the reviewers' verdicts.
  \<^item> Planning and validation (\<open>verbs.py\<close>). Verbs has the binding plan, the stub agents of the validation scenarios and
    the reports; Verbs_Facts proves that a plan accounts for every agent and its budget, when a scenario counts as
    closed, and that stub payloads conform to flat schemas. What the runtime returns under the stubs is a parameter.
  \<^item> The workflow language (\<open>dsl.py\<close>). Dsl_Syntax has the objects a workflow may contain, the
    constructors with their checks, annotations and budgets; Dsl_Expand the expansion into nodes with
    dependencies, budgets, roles, checks of references, exhaustiveness and parallel writers.
    Dsl_Order, Dsl_Ids, Dsl_Writers and Dsl_Text prove that a node's dependencies come before it, that
    node ids are unique, that accepted parallel writers are merged, that budgets are respected.
  \<^item> Journals and replay. Journal has the entries, their lines, and reading and appending of each
    journal as operations on the text of its file; Journal_Format and Generations are the interfaces
    (locales) between an entry type and its journal, and between generations and replay. Replay has the replay
    session for clocks and random draws, Replay_Agent the session for agents, Replay_Workspace the
    journalled creation of workspaces. Replay_Facts, Replay_Agent_Facts, Replay_Keys prove what a second session
    replays, what it runs again, and what a cache key identifies. Result_Schema is the validator.
  \<^item> Agent profiles and gates. Environment loads the registry and picks the profile of an agent;
    Gates reads and writes what the overseer sees. Overseer has the state file and the operations on it: a run
    that stops records its open gates, the overseer answers or closes them. Json_Pretty is the
    indented JSON of the state files; Overseer_Facts proves that a saved state is loaded again, that events are numbered
    without gaps and that an answer reaches the next run and no other gate.
  \<^item> The workflow runtime (\<open>workflow_runtime.py\<close>). Runtime_Values has what forms evaluate to and the
    pure helpers; Runtime_Prog the programs: a \<open>@do\<close> function is a tree that ends, calls a handler, looks at
    the shared context, spawns or gathers, and \<open>pstep\<close> runs a pool of such trees, one per branch, in
    any order and with any answer the handlers may give. Runtime_Gates has every gate the run may open;
    Runtime the interpreter, function by function (\<open>_RuntimeContext\<close> is split into \<open>rt_config\<close>, which does not
    change, and \<open>rt_state\<close>, which branches share). Runtime_Logic is a logic for these trees, with respect to the
    interference of the other branches; Runtime_Spec proves the interpreter's functions against it, and
    Runtime_Pool lifts it to pools and bounds them by a well-founded order, so that termination needs
    no fuel. Runtime_Demo runs concrete workflows by an executable scheduler; Runtime_Facts holds the
    properties. The path argument that \<open>_evaluate_value\<close> only hands on is left out; a set and a
    frozen set are one constructor; the scheduler's own order of branches is one of those
    \<open>pstep\<close> allows.

  What the properties do not say. The scheduler's properties are about every sequence of
  activations the model allows, not about time. The journals assume that a session is the only
  writer of its file and that a line is written whole. The runtime's properties hold for every order of
  the branches; which order the scheduler picks is not used. A call of an agent through its journal is
  one step of the model, and the calls of a session follow each other: the code runs them in daemon threads that may overlap
  (\<open>make_offloaded_scheduled_handler\<close> of \<open>handlers/utils.py\<close>), and what overlapping calls write to the journal
  is not covered. The events of a run are numbered through the operations of \<open>overseer.py\<close>; that
  \<open>validate_workflow\<close> writes a new run state over the one it finds is not among them. Lazy values that ask for each
  other in circles are outside the theorems about lazy asks, and so are items of a traversal that talk to each other.
  Memoised programs are one task; the others are what may change the storages.

  Not modelled. The Rust VM, indexer and linter and the Hy sources (but for the memo layers) are other languages. The
  handlers that start processes, talk to tmux, git, daemons or network services, the command
  lines and the terminal interfaces are input and output; what the modelled code relies on of them is
  the outcome of a call. The digest of objects (\<open>content_address\<close>) and pickling are parameters of Memo. The
  clients of language-model providers, secrets, images and notifications are translations to third-party packages.
\<close>

end
